(* ===== verification/Prelude.thy ===== *)
theory Prelude
  imports Main "HOL-Library.Word"
begin

text \<open>
  Shared vocabulary of the development: the C integer types the code uses, the outcome of a
  C function that may stop the process, the bit macros of \<^verbatim>\<open>include/nbcompat.h\<close>, the byte
  order of the traced machine, and the generic list lemmas the component theories share.
\<close>

unbundle bit_operations_syntax

named_theorems cdefs \<open>definitions of C helper macros, unfolded to compute closed terms\<close>

section \<open>Machine types\<close>

type_synonym u8 = "8 word"
type_synonym u16 = "16 word"
type_synonym u32 = "32 word"
type_synonym u64 = "64 word"

text \<open>\<open>rvp_addr_t\<close> is \<open>uintptr_t\<close>; the model fixes the 64-bit target.\<close>
type_synonym rvp_addr = u64

lemma unat_lt_exp: "unat (w :: 'a::len word) < 2 ^ LENGTH('a)"
  by (rule unsigned_less)

section \<open>Outcomes of C functions\<close>

text \<open>
  A C function of the runtime either returns or stops the process: a failed \<open>assert\<close>,
  \<open>abort\<close>, or \<open>err\<close>/\<open>errx\<close> with \<open>EXIT_FAILURE\<close>. An access outside an array, or
  through a null pointer, is undefined behaviour and is kept apart as \<open>Undefined\<close>. A call
  that is still in a wait loop when the recorded behaviour of the other threads ends is
  \<open>Waiting\<close>.
\<close>

datatype cfail = Assertion | Aborted | Exited | Undefined | Waiting

type_synonym 'a cres = "cfail + 'a"

definition cbind :: "'a cres \<Rightarrow> ('a \<Rightarrow> 'b cres) \<Rightarrow> 'b cres" where
  "cbind m f = (case m of Inl e \<Rightarrow> Inl e | Inr x \<Rightarrow> f x)"

definition cassert :: "bool \<Rightarrow> unit cres" where
  "cassert P = (if P then Inr () else Inl Assertion)"

lemma cbind_simps [simp]:
  "cbind (Inl e) f = Inl e"
  "cbind (Inr x) f = f x"
  by (simp_all add: cbind_def)

lemma cbind_eq_Inr [simp]: "cbind m f = Inr y \<longleftrightarrow> (\<exists>x. m = Inr x \<and> f x = Inr y)"
  by (cases m) auto

lemma cbind_assoc: "cbind (cbind m f) g = cbind m (\<lambda>x. cbind (f x) g)"
  by (cases m) simp_all

lemma cbind_Inr [simp]: "cbind m Inr = m"
  by (cases m) simp_all

lemma cassert_eq_Inr [simp]: "cassert P = Inr x \<longleftrightarrow> P"
  by (simp add: cassert_def)

lemma cassert_True [simp]: "P \<Longrightarrow> cassert P = Inr ()"
  by (simp add: cassert_def)

lemma cassert_False [simp]: "\<not> P \<Longrightarrow> cassert P = Inl Assertion"
  by (simp add: cassert_def)

text \<open>
  A partial-correctness judgement for calls that may wait: the call is still waiting, or it
  returned and the result satisfies \<open>P\<close>. It stops the process in no other way.
\<close>

definition waits_or :: "('a \<Rightarrow> bool) \<Rightarrow> 'a cres \<Rightarrow> bool" where
  "waits_or P r \<longleftrightarrow> (case r of Inl x \<Rightarrow> x = Waiting | Inr y \<Rightarrow> P y)"

lemma waits_or_simps [simp]:
  "waits_or P (Inr y) = P y"
  "waits_or P (Inl x) \<longleftrightarrow> x = Waiting"
  by (simp_all add: waits_or_def)

lemma waits_or_cbind [intro]:
  "waits_or Q r \<Longrightarrow> (\<And>y. Q y \<Longrightarrow> waits_or P (f y)) \<Longrightarrow> waits_or P (cbind r f)"
  by (cases r) simp_all

lemma waits_or_mono: "waits_or Q r \<Longrightarrow> (\<And>y. Q y \<Longrightarrow> P y) \<Longrightarrow> waits_or P r"
  by (cases r) simp_all

section \<open>The macros of nbcompat.h\<close>

text \<open>\<open>__BIT(n)\<close>: the argument is cast to \<open>uintmax_t\<close>, so a negative one is large.\<close>
definition BIT_macro :: "int \<Rightarrow> u64" where [cdefs]:
  "BIT_macro n = (if n < 0 \<or> 64 \<le> n then 0 else push_bit (nat n) 1)"

definition BITS_macro :: "int \<Rightarrow> int \<Rightarrow> u64" where [cdefs]:
  "BITS_macro m n = (BIT_macro (max m n + 1) - 1) XOR (BIT_macro (min m n) - 1)"

definition LOWEST_SET_BIT :: "'a::len word \<Rightarrow> 'a word" where [cdefs]:
  "LOWEST_SET_BIT mk = ((mk - 1) AND mk) XOR mk"

definition SHIFTOUT :: "'a::len word \<Rightarrow> 'a word \<Rightarrow> 'a word" where [cdefs]:
  "SHIFTOUT x mk = (x AND mk) div LOWEST_SET_BIT mk"

definition SHIFTIN :: "'a::len word \<Rightarrow> 'a word \<Rightarrow> 'a word" where [cdefs]:
  "SHIFTIN x mk = x * LOWEST_SET_BIT mk"

definition rounddown :: "nat \<Rightarrow> nat \<Rightarrow> nat" where [cdefs]:
  "rounddown x y = (x div y) * y"

lemma rounddown_le [simp]: "rounddown x y \<le> x"
  by (simp add: rounddown_def)

lemma rounddown_1 [simp]: "rounddown x 1 = x" "rounddown x (Suc 0) = x"
  by (simp_all add: rounddown_def)

lemma dvd_rounddown [simp]: "y dvd rounddown x y"
  by (simp add: rounddown_def)

lemma rounddown_pos: "0 < y \<Longrightarrow> y \<le> x \<Longrightarrow> 0 < rounddown x y"
  by (simp add: rounddown_def div_greater_zero_iff)

section \<open>Byte order\<close>

text \<open>
  The runtime stores addresses and 64-bit values as two 32-bit words through a union, and the
  trace is a byte image of those words. The model is that of a little-endian machine, the one
  the reader requires: the low half comes first.
\<close>

definition lo32 :: "u64 \<Rightarrow> u32" where "lo32 v = ucast v"
definition hi32 :: "u64 \<Rightarrow> u32" where "hi32 v = ucast (drop_bit 32 v)"

definition u64_of_u32s :: "u32 \<Rightarrow> u32 \<Rightarrow> u64" where
  "u64_of_u32s lo hi = ucast lo OR push_bit 32 (ucast hi)"

lemma u64_of_lo_hi [simp]: "u64_of_u32s (lo32 v) (hi32 v) = v"
  unfolding u64_of_u32s_def lo32_def hi32_def
  by (rule bit_word_eqI) (auto simp: bit_simps)

lemma lo32_of_u32s [simp]: "lo32 (u64_of_u32s l h) = l"
  unfolding u64_of_u32s_def lo32_def
  by (rule bit_word_eqI) (auto simp: bit_simps)

lemma hi32_of_u32s [simp]: "hi32 (u64_of_u32s l h) = h"
  unfolding u64_of_u32s_def hi32_def
  by (rule bit_word_eqI) (auto simp: bit_simps dest: bit_imp_le_length)

definition bytes_of_u32 :: "u32 \<Rightarrow> u8 list" where
  "bytes_of_u32 w = map (\<lambda>i. ucast (drop_bit (8 * i) w)) [0, 1, 2, 3]"

definition u32_of_bytes :: "u8 list \<Rightarrow> u32" where
  "u32_of_bytes bs =
     ucast (bs ! 0) OR push_bit 8 (ucast (bs ! 1)) OR
     push_bit 16 (ucast (bs ! 2)) OR push_bit 24 (ucast (bs ! 3))"

lemma length_bytes_of_u32 [simp]: "length (bytes_of_u32 w) = 4"
  by (simp add: bytes_of_u32_def)

lemma bit_u8_ge: "8 \<le> n \<Longrightarrow> \<not> bit (a :: u8) n"
  by (auto dest: bit_imp_le_length)

lemma u32_of_bytes_of_u32 [simp]: "u32_of_bytes (bytes_of_u32 w @ bs) = w"
proof (rule bit_word_eqI)
  fix n
  assume "n < LENGTH(32)"
  then consider "n < 8" | "8 \<le> n" "n < 16" | "16 \<le> n" "n < 24" | "24 \<le> n" "n < 32"
    by force
  then show "bit (u32_of_bytes (bytes_of_u32 w @ bs)) n \<longleftrightarrow> bit w n"
    unfolding u32_of_bytes_def bytes_of_u32_def
    by cases (auto simp: bit_simps)
qed

lemma bytes_of_u32_of_bytes:
  "bytes_of_u32 (u32_of_bytes (a # b # c # d # bs)) = [a, b, c, d]"
  unfolding u32_of_bytes_def bytes_of_u32_def
  by (auto intro!: bit_word_eqI simp: bit_simps bit_u8_ge)

definition bytes_of_u32s :: "u32 list \<Rightarrow> u8 list" where
  "bytes_of_u32s ws = concat (map bytes_of_u32 ws)"

lemma bytes_of_u32s_simps [simp]:
  "bytes_of_u32s [] = []"
  "bytes_of_u32s (w # ws) = bytes_of_u32 w @ bytes_of_u32s ws"
  "bytes_of_u32s (ws @ vs) = bytes_of_u32s ws @ bytes_of_u32s vs"
  by (simp_all add: bytes_of_u32s_def)

lemma length_bytes_of_u32s [simp]: "length (bytes_of_u32s ws) = 4 * length ws"
  by (induction ws) simp_all

end
