(* ===== verification/Tracefmt.thy ===== *)
theory Tracefmt
  imports Prelude
begin

text \<open>
  The trace format, \<^verbatim>\<open>llvm/ngrt/tracefmt.h\<close>: the operation codes, the size of the deltop
  matrix, the file header, and the layout of every trace record as a list of fields in the
  order of the packed C structs.
\<close>

section \<open>Operation codes\<close>

datatype rvp_op =
    RVP_OP_BEGIN | RVP_OP_END | RVP_OP_LOAD1 | RVP_OP_LOAD2
  | RVP_OP_LOAD4 | RVP_OP_LOAD8 | RVP_OP_LOAD16 | RVP_OP_STORE1
  | RVP_OP_STORE2 | RVP_OP_STORE4 | RVP_OP_STORE8 | RVP_OP_STORE16
  | RVP_OP_FORK | RVP_OP_JOIN | RVP_OP_ACQUIRE | RVP_OP_RELEASE
  | RVP_OP_ENTERFN | RVP_OP_EXITFN | RVP_OP_SWITCH | RVP_OP_ATOMIC_RMW1
  | RVP_OP_ATOMIC_RMW2 | RVP_OP_ATOMIC_RMW4 | RVP_OP_ATOMIC_RMW8 | RVP_OP_ATOMIC_RMW16
  | RVP_OP_ATOMIC_LOAD1 | RVP_OP_ATOMIC_LOAD2 | RVP_OP_ATOMIC_LOAD4 | RVP_OP_ATOMIC_LOAD8
  | RVP_OP_ATOMIC_LOAD16 | RVP_OP_ATOMIC_STORE1 | RVP_OP_ATOMIC_STORE2 | RVP_OP_ATOMIC_STORE4
  | RVP_OP_ATOMIC_STORE8 | RVP_OP_ATOMIC_STORE16 | RVP_OP_COG | RVP_OP_SIGEST
  | RVP_OP_ENTERSIG | RVP_OP_EXITSIG | RVP_OP_SIGDIS | RVP_OP_SIGMASKMEMO
  | RVP_OP_SIGSETMASK | RVP_OP_SIGDEPTH | RVP_OP_SIGBLOCK | RVP_OP_SIGUNBLOCK
  | RVP_OP_SIGGETSETMASK | RVP_OP_SIGGETMASK

fun op_num :: "rvp_op \<Rightarrow> nat" where
    "op_num RVP_OP_BEGIN = 0"
  | "op_num RVP_OP_END = 1"
  | "op_num RVP_OP_LOAD1 = 2"
  | "op_num RVP_OP_LOAD2 = 3"
  | "op_num RVP_OP_LOAD4 = 4"
  | "op_num RVP_OP_LOAD8 = 5"
  | "op_num RVP_OP_LOAD16 = 6"
  | "op_num RVP_OP_STORE1 = 7"
  | "op_num RVP_OP_STORE2 = 8"
  | "op_num RVP_OP_STORE4 = 9"
  | "op_num RVP_OP_STORE8 = 10"
  | "op_num RVP_OP_STORE16 = 11"
  | "op_num RVP_OP_FORK = 12"
  | "op_num RVP_OP_JOIN = 13"
  | "op_num RVP_OP_ACQUIRE = 14"
  | "op_num RVP_OP_RELEASE = 15"
  | "op_num RVP_OP_ENTERFN = 16"
  | "op_num RVP_OP_EXITFN = 17"
  | "op_num RVP_OP_SWITCH = 18"
  | "op_num RVP_OP_ATOMIC_RMW1 = 19"
  | "op_num RVP_OP_ATOMIC_RMW2 = 20"
  | "op_num RVP_OP_ATOMIC_RMW4 = 21"
  | "op_num RVP_OP_ATOMIC_RMW8 = 22"
  | "op_num RVP_OP_ATOMIC_RMW16 = 23"
  | "op_num RVP_OP_ATOMIC_LOAD1 = 24"
  | "op_num RVP_OP_ATOMIC_LOAD2 = 25"
  | "op_num RVP_OP_ATOMIC_LOAD4 = 26"
  | "op_num RVP_OP_ATOMIC_LOAD8 = 27"
  | "op_num RVP_OP_ATOMIC_LOAD16 = 28"
  | "op_num RVP_OP_ATOMIC_STORE1 = 29"
  | "op_num RVP_OP_ATOMIC_STORE2 = 30"
  | "op_num RVP_OP_ATOMIC_STORE4 = 31"
  | "op_num RVP_OP_ATOMIC_STORE8 = 32"
  | "op_num RVP_OP_ATOMIC_STORE16 = 33"
  | "op_num RVP_OP_COG = 34"
  | "op_num RVP_OP_SIGEST = 35"
  | "op_num RVP_OP_ENTERSIG = 36"
  | "op_num RVP_OP_EXITSIG = 37"
  | "op_num RVP_OP_SIGDIS = 38"
  | "op_num RVP_OP_SIGMASKMEMO = 39"
  | "op_num RVP_OP_SIGSETMASK = 40"
  | "op_num RVP_OP_SIGDEPTH = 41"
  | "op_num RVP_OP_SIGBLOCK = 42"
  | "op_num RVP_OP_SIGUNBLOCK = 43"
  | "op_num RVP_OP_SIGGETSETMASK = 44"
  | "op_num RVP_OP_SIGGETMASK = 45"

definition RVP_NOPS :: nat where [cdefs]: "RVP_NOPS = 46"
definition RVP_NJMPS :: nat where [cdefs]: "RVP_NJMPS = 256"

text \<open>The enumeration in order: \<open>rvp_ops ! n\<close> is the operation whose code is \<open>n\<close>.\<close>

definition rvp_ops :: "rvp_op list" where
  "rvp_ops = [RVP_OP_BEGIN, RVP_OP_END, RVP_OP_LOAD1, RVP_OP_LOAD2,
    RVP_OP_LOAD4, RVP_OP_LOAD8, RVP_OP_LOAD16, RVP_OP_STORE1,
    RVP_OP_STORE2, RVP_OP_STORE4, RVP_OP_STORE8, RVP_OP_STORE16,
    RVP_OP_FORK, RVP_OP_JOIN, RVP_OP_ACQUIRE, RVP_OP_RELEASE,
    RVP_OP_ENTERFN, RVP_OP_EXITFN, RVP_OP_SWITCH, RVP_OP_ATOMIC_RMW1,
    RVP_OP_ATOMIC_RMW2, RVP_OP_ATOMIC_RMW4, RVP_OP_ATOMIC_RMW8, RVP_OP_ATOMIC_RMW16,
    RVP_OP_ATOMIC_LOAD1, RVP_OP_ATOMIC_LOAD2, RVP_OP_ATOMIC_LOAD4, RVP_OP_ATOMIC_LOAD8,
    RVP_OP_ATOMIC_LOAD16, RVP_OP_ATOMIC_STORE1, RVP_OP_ATOMIC_STORE2, RVP_OP_ATOMIC_STORE4,
    RVP_OP_ATOMIC_STORE8, RVP_OP_ATOMIC_STORE16, RVP_OP_COG, RVP_OP_SIGEST,
    RVP_OP_ENTERSIG, RVP_OP_EXITSIG, RVP_OP_SIGDIS, RVP_OP_SIGMASKMEMO,
    RVP_OP_SIGSETMASK, RVP_OP_SIGDEPTH, RVP_OP_SIGBLOCK, RVP_OP_SIGUNBLOCK,
    RVP_OP_SIGGETSETMASK, RVP_OP_SIGGETMASK]"

definition op_of_num :: "nat \<Rightarrow> rvp_op" where
  "op_of_num n = rvp_ops ! n"

lemma op_num_less [simp]: "op_num x < RVP_NOPS"
  by (cases x) (simp_all add: RVP_NOPS_def)

lemma op_num_less_46 [simp]: "op_num x < 46"
  using op_num_less [of x] by (simp add: RVP_NOPS_def)

lemma length_rvp_ops [simp]: "length rvp_ops = RVP_NOPS"
  by (simp add: rvp_ops_def RVP_NOPS_def)

lemma op_of_num_op_num [simp]: "op_of_num (op_num x) = x"
  by (cases x) (simp_all add: op_of_num_def rvp_ops_def)

lemma op_num_inj: "op_num x = op_num y \<longleftrightarrow> x = y"
  by (metis op_of_num_op_num)

section \<open>Record layouts\<close>

text \<open>
  Every record is a packed struct, aligned to 4 bytes, whose fields are addresses
  (\<open>rvp_addr_t\<close>), 64-bit values and 32-bit values. The first field is always the deltop.
\<close>

datatype field = Addr | U32 | U64

type_synonym layout = "field list"

fun field_size :: "field \<Rightarrow> nat" where
    "field_size Addr = 8"
  | "field_size U32 = 4"
  | "field_size U64 = 8"

definition layout_size :: "layout \<Rightarrow> nat" where
  "layout_size l = sum_list (map field_size l)"

definition rvp_cog_t :: layout where "rvp_cog_t = [Addr, U64]"
definition rvp_begin_t :: layout where "rvp_begin_t = [Addr, U32, U64]"
definition rvp_fork_join_switch_t :: layout where "rvp_fork_join_switch_t = [Addr, U32]"
definition rvp_entersig_t :: layout where "rvp_entersig_t = [Addr, Addr, U64, U32]"
definition rvp_sigdepth_t :: layout where "rvp_sigdepth_t = [Addr, U32]"
definition rvp_sigmask_access_t :: layout where "rvp_sigmask_access_t = [Addr, U32]"
definition rvp_sigmask_rmw_t :: layout where "rvp_sigmask_rmw_t = [Addr, U32, U32]"
definition rvp_sigmaskmemo_t :: layout where "rvp_sigmaskmemo_t = [Addr, U64, U32, U32]"
definition rvp_sigest_t :: layout where "rvp_sigest_t = [Addr, Addr, U32, U32]"
definition rvp_sigdis_t :: layout where "rvp_sigdis_t = [Addr, U32]"
definition rvp_rmw1_2_t :: layout where "rvp_rmw1_2_t = [Addr, Addr, U32]"
definition rvp_rmw4_t :: layout where "rvp_rmw4_t = [Addr, Addr, U32, U32]"
definition rvp_rmw8_t :: layout where "rvp_rmw8_t = [Addr, Addr, U64, U64]"
definition rvp_load1_2_4_store1_2_4_t :: layout where
  "rvp_load1_2_4_store1_2_4_t = [Addr, Addr, U32]"
definition rvp_load8_store8_t :: layout where "rvp_load8_store8_t = [Addr, Addr, U64]"
definition rvp_end_exitfn_t :: layout where "rvp_end_exitfn_t = [Addr]"
definition rvp_enterfn_t :: layout where "rvp_enterfn_t = [Addr, Addr, Addr]"
definition rvp_exitsig_t :: layout where "rvp_exitsig_t = [Addr]"
definition rvp_acquire_release_t :: layout where "rvp_acquire_release_t = [Addr, Addr]"

lemmas layout_defs =
  rvp_cog_t_def rvp_begin_t_def rvp_fork_join_switch_t_def rvp_entersig_t_def
  rvp_sigdepth_t_def rvp_sigmask_access_t_def rvp_sigmask_rmw_t_def rvp_sigmaskmemo_t_def
  rvp_sigest_t_def rvp_sigdis_t_def rvp_rmw1_2_t_def rvp_rmw4_t_def rvp_rmw8_t_def
  rvp_load1_2_4_store1_2_4_t_def rvp_load8_store8_t_def rvp_end_exitfn_t_def
  rvp_enterfn_t_def rvp_exitsig_t_def rvp_acquire_release_t_def

text \<open>A field's value, and the 32-bit words it occupies in a trace.\<close>

datatype fval = VAddr u64 | V32 u32 | V64 u64

fun fval_words :: "fval \<Rightarrow> u32 list" where
    "fval_words (VAddr a) = [lo32 a, hi32 a]"
  | "fval_words (V32 w) = [w]"
  | "fval_words (V64 v) = [lo32 v, hi32 v]"

definition fvals_words :: "fval list \<Rightarrow> u32 list" where
  "fvals_words vs = concat (map fval_words vs)"

fun fval_field :: "fval \<Rightarrow> field" where
    "fval_field (VAddr _) = Addr"
  | "fval_field (V32 _) = U32"
  | "fval_field (V64 _) = U64"

lemma fvals_words_simps [simp]:
  "fvals_words [] = []"
  "fvals_words (v # vs) = fval_words v @ fvals_words vs"
  by (simp_all add: fvals_words_def)

lemma length_fval_words [simp]: "4 * length (fval_words v) = field_size (fval_field v)"
  by (cases v) simp_all

lemma length_fvals_words:
  "4 * length (fvals_words vs) = layout_size (map fval_field vs)"
proof (induction vs)
  case Nil
  then show ?case by (simp add: layout_size_def)
next
  case (Cons v vs)
  then show ?case using length_fval_words [of v] by (simp add: layout_size_def)
qed

text \<open>Reading the fields of a layout from the front of a byte buffer.\<close>

definition read_u32 :: "u8 list \<Rightarrow> u32" where
  "read_u32 bs = u32_of_bytes bs"

definition read_u64 :: "u8 list \<Rightarrow> u64" where
  "read_u64 bs = u64_of_u32s (u32_of_bytes bs) (u32_of_bytes (drop 4 bs))"

fun read_field :: "field \<Rightarrow> u8 list \<Rightarrow> fval" where
    "read_field Addr bs = VAddr (read_u64 bs)"
  | "read_field U32 bs = V32 (read_u32 bs)"
  | "read_field U64 bs = V64 (read_u64 bs)"

fun read_fields :: "layout \<Rightarrow> u8 list \<Rightarrow> fval list" where
    "read_fields [] bs = []"
  | "read_fields (f # fs) bs = read_field f bs # read_fields fs (drop (field_size f) bs)"

lemma read_u64_words [simp]:
  "read_u64 (bytes_of_u32 (lo32 a) @ bytes_of_u32 (hi32 a) @ bs) = a"
  by (simp add: read_u64_def)

lemma read_u32_words [simp]: "read_u32 (bytes_of_u32 w @ bs) = w"
  by (simp add: read_u32_def)

lemma read_field_words:
  "read_field (fval_field v) (bytes_of_u32s (fval_words v) @ bs) = v"
  by (cases v) simp_all

lemma length_bytes_fval_words [simp]:
  "length (bytes_of_u32s (fval_words v)) = field_size (fval_field v)"
  by (cases v) simp_all

lemma read_fields_words:
  "read_fields (map fval_field vs) (bytes_of_u32s (fvals_words vs) @ bs) = vs"
  by (induction vs) (simp_all add: read_field_words)

section \<open>The file header\<close>

record rvp_trace_header =
  th_magic :: string
  th_version :: "u8 list"
  th_byteorder :: u32
  th_pointer_width :: u8
  th_data_width :: u8
  th_pad1 :: "u8 list"

definition byteorder_word :: u32 where
  "byteorder_word = 0x30 OR push_bit 8 0x31 OR push_bit 16 0x32 OR push_bit 24 0x33"

definition header_bytes :: "rvp_trace_header \<Rightarrow> u8 list" where
  "header_bytes th = map of_char (th_magic th) @ th_version th @
     bytes_of_u32 (th_byteorder th) @ [th_pointer_width th, th_data_width th] @ th_pad1 th"

end
