(* ===== verification/Deltop.thy ===== *)
theory Deltop
  imports Tracefmt
begin

text \<open>
  Deltops, \<^verbatim>\<open>llvm/ngrt/deltops.c\<close>: a jump vector and an operation code are encoded together
  as the address of one cell of a matrix with a row per jump vector and a column per
  operation. The reader (\<^verbatim>\<open>llvm/librvread/reader.c\<close>) turns the address back into the two
  numbers. The address of the matrix is the linker's, so it is a parameter, \<open>base\<close>.
\<close>

section \<open>The runtime's side\<close>

text \<open>
  \<open>&deltops.matrix[__arraycount(deltops.matrix) / 2 + jmpvec][op]\<close>: the row index is
  computed in \<open>size_t\<close>, so the \<open>int\<close> jump vector is sign-extended to 64 bits.
\<close>

definition deltop_cell :: "u64 \<Rightarrow> u64 \<Rightarrow> nat \<Rightarrow> u64" where
  "deltop_cell base row col = base + of_nat RVP_NOPS * row + of_nat col"

definition rvp_vec_and_op_to_deltop :: "u64 \<Rightarrow> 32 word \<Rightarrow> rvp_op \<Rightarrow> u64 option" where
  "rvp_vec_and_op_to_deltop base jmpvec op =
     (let deltop = deltop_cell base (of_nat (RVP_NJMPS div 2) + scast jmpvec) (op_num op)
      in if deltop < deltop_cell base 0 0 \<or>
            deltop_cell base (of_nat (RVP_NJMPS - 1)) (RVP_NOPS - 1) < deltop
         then None else Some deltop)"

section \<open>The reader's side\<close>

text \<open>\<open>ps_deltop_first\<close> and \<open>ps_deltop_last\<close>, from the deltop of the first \<open>begin\<close>.\<close>

definition ps_first_of :: "u64 \<Rightarrow> u64" where
  "ps_first_of op0 = op0 - (of_nat (RVP_NOPS * (RVP_NJMPS div 2) + op_num RVP_OP_BEGIN))"

definition ps_last_of :: "u64 \<Rightarrow> u64" where
  "ps_last_of first = first + of_nat (RVP_NOPS * (RVP_NJMPS - 1) + (RVP_NOPS - 1))"

definition pc_in_deltops :: "u64 \<Rightarrow> u64 \<Rightarrow> bool" where
  "pc_in_deltops first pc \<longleftrightarrow> \<not> (pc < first \<or> ps_last_of first < pc)"

text \<open>
  The jump vector is an \<open>int\<close>, the operation an \<open>unsigned int\<close>; the row and the operation are
  truncated to them when they are computed.
\<close>

definition extract_jmpvec_and_op_from_deltop ::
    "u64 \<Rightarrow> u64 \<Rightarrow> (32 word \<times> rvp_op) cres" where
  "extract_jmpvec_and_op_from_deltop deltop0 pc =
     (let row = (ucast ((pc - deltop0) div of_nat RVP_NOPS) :: 32 word);
          jmpvec = row - of_nat (RVP_NJMPS div 2);
          op = (ucast ((pc - deltop0) - of_nat RVP_NOPS * scast row) :: u32)
      in cbind (cassert (unat op < RVP_NOPS)) (\<lambda>_.
         Inr (jmpvec, op_of_num (unat op))))"

section \<open>The encoding is exact\<close>

text \<open>The matrix does not wrap around the end of the address space.\<close>
definition deltops_fit :: "u64 \<Rightarrow> bool" where
  "deltops_fit base \<longleftrightarrow> uint base + 11776 \<le> 2 ^ 64"

definition deltop_of :: "u64 \<Rightarrow> int \<Rightarrow> rvp_op \<Rightarrow> u64" where
  "deltop_of base j op = base + word_of_int (46 * (128 + j) + int (op_num op))"

lemma uint_add_offset:
  "uint ((b :: u64) + word_of_int x) = (uint b + x) mod 2 ^ 64"
proof -
  have "b + word_of_int x = word_of_int (uint b + x)"
    by simp
  then show ?thesis by (simp only: uint_word_of_int) simp
qed

lemma uint_add_small:
  assumes "0 \<le> uint (b :: u64) + x" "uint b + x < 2 ^ 64"
  shows "uint (b + word_of_int x) = uint b + x"
  unfolding uint_add_offset using assms by (rule mod_pos_pos_trivial)

lemma uint_last:
  assumes "deltops_fit base"
  shows "uint (base + 11775) = uint base + 11775"
proof -
  have "base + 11775 = base + word_of_int 11775" by simp
  then show ?thesis
    using assms uint_add_small [of base 11775] by (simp add: deltops_fit_def)
qed

lemma cell_eq:
  "deltop_cell base (of_nat (RVP_NJMPS div 2) + scast j) (op_num op) = deltop_of base (sint j) op"
proof -
  define s where "s = sint j"
  have sc: "(scast j :: u64) = word_of_int s"
    unfolding s_def by (rule scast_eq)
  have "of_nat RVP_NOPS * (of_nat (RVP_NJMPS div 2) + word_of_int s) + of_nat (op_num op)
        = (word_of_int (46 * (128 + s) + int (op_num op)) :: u64)"
    by (simp add: RVP_NOPS_def RVP_NJMPS_def)
  then show ?thesis
    unfolding deltop_cell_def deltop_of_def sc s_def [symmetric] by (simp only: add.assoc)
qed

lemma cell_first: "deltop_cell base 0 0 = base"
  by (simp add: deltop_cell_def)

lemma cell_last:
  "deltop_cell base (of_nat (RVP_NJMPS - 1)) (RVP_NOPS - 1) = base + 11775"
  by (simp add: deltop_cell_def RVP_NOPS_def RVP_NJMPS_def)

text \<open>A displacement of less than \<open>2 ^ 40\<close> cells, wrapped, falls inside the matrix only when it is one of its own.\<close>

lemma wrapped_in_range:
  fixes u x :: int
  assumes "0 \<le> u" "u + 11776 \<le> 2 ^ 64" "\<bar>x\<bar> < 2 ^ 40"
  shows "u \<le> (u + x) mod 2 ^ 64 \<and> (u + x) mod 2 ^ 64 \<le> u + 11775 \<longleftrightarrow> 0 \<le> x \<and> x < 11776"
proof -
  consider "u + x < 0" | "0 \<le> u + x" "u + x < 2 ^ 64" | "2 ^ 64 \<le> u + x" by linarith
  then show ?thesis
  proof cases
    case 1
    then have "(u + x) mod 2 ^ 64 = u + x + 2 ^ 64"
      using assms mod_pos_pos_trivial [of "u + x + 2 ^ 64" "2 ^ 64"] by simp
    then show ?thesis using 1 assms by (auto simp: abs_less_iff)
  next
    case 2
    then have "(u + x) mod 2 ^ 64 = u + x" by simp
    then show ?thesis by auto
  next
    case 3
    then have "(u + x) mod 2 ^ 64 = u + x - 2 ^ 64"
      using assms mod_pos_pos_trivial [of "u + x - 2 ^ 64" "2 ^ 64"] by simp
    then show ?thesis using 3 assms by (auto simp: abs_less_iff)
  qed
qed

lemma sint32_bounds: "- (2 ^ 31) \<le> sint (j :: 32 word)" "sint (j :: 32 word) < 2 ^ 31"
  using sint_ge [of j] sint_lt [of j] by simp_all

lemma op_num_int: "0 \<le> int (op_num op)" "int (op_num op) < 46"
  using op_num_less_46 [of op] by simp_all

lemma div_46: "0 \<le> o' \<Longrightarrow> o' < 46 \<Longrightarrow> (46 * r + o') div 46 = (r :: int)"
  by simp

lemma abs_offset: "- (2 ^ 31) \<le> s \<Longrightarrow> s < 2 ^ 31 \<Longrightarrow> 0 \<le> o' \<Longrightarrow> o' < 46 \<Longrightarrow> \<bar>46 * (128 + s) + o'\<bar> < (2 ^ 40 :: int)"
  by (simp add: abs_if)

lemma offset_small: "\<bar>46 * (128 + sint (j :: 32 word)) + int (op_num op)\<bar> < 2 ^ 40"
  by (rule abs_offset) (rule sint32_bounds op_num_int)+

lemma range_offset: "0 \<le> o' \<Longrightarrow> o' < 46 \<Longrightarrow>
    0 \<le> 46 * (128 + j) + o' \<and> 46 * (128 + j) + o' < (11776 :: int) \<longleftrightarrow> - 128 \<le> j \<and> j < 128"
  by auto

lemma offset_range:
  "0 \<le> 46 * (128 + j) + int (op_num op) \<and> 46 * (128 + j) + int (op_num op) < 11776
     \<longleftrightarrow> - 128 \<le> j \<and> j < 128"
  by (rule range_offset) (rule op_num_int)+

lemma vec_and_op_Some_iff:
  assumes "deltops_fit base"
  shows "rvp_vec_and_op_to_deltop base j op =
     (if - 128 \<le> sint j \<and> sint j < 128 then Some (deltop_of base (sint j) op) else None)"
proof -
  let ?x = "46 * (128 + sint j) + int (op_num op)"
  have "\<not> (deltop_of base (sint j) op < base \<or> base + 11775 < deltop_of base (sint j) op)
      \<longleftrightarrow> uint base \<le> (uint base + ?x) mod 2 ^ 64 \<and> (uint base + ?x) mod 2 ^ 64 \<le> uint base + 11775"
    by (simp only: word_less_def uint_last [OF assms] deltop_of_def uint_add_offset not_less de_Morgan_disj)
  also have "\<dots> \<longleftrightarrow> - 128 \<le> sint j \<and> sint j < 128"
    using assms wrapped_in_range [OF _ _ offset_small, of "uint base" j op] offset_range [of "sint j" op]
    by (simp add: deltops_fit_def)
  finally show ?thesis
    by (auto simp: rvp_vec_and_op_to_deltop_def cell_eq cell_first cell_last [simplified] Let_def)
qed

lemma uint_deltop_of:
  assumes "deltops_fit base" "- 128 \<le> j" "j < 128"
  shows "uint (deltop_of base j op) = uint base + 46 * (128 + j) + int (op_num op)"
proof -
  have "46 * (128 + j) + int (op_num op) < 11776" "0 \<le> 46 * (128 + j) + int (op_num op)"
    using assms offset_range [of j op] by simp_all
  then show ?thesis
    using assms(1) uint_add_small [of base "46 * (128 + j) + int (op_num op)"]
    unfolding deltop_of_def deltops_fit_def by (simp only: add.assoc) simp
qed

section \<open>The reader recovers what the runtime encoded\<close>

lemma ps_first_of_deltop_of [simp]: "ps_first_of (deltop_of base 0 RVP_OP_BEGIN) = base"
  by (simp add: ps_first_of_def deltop_of_def RVP_NOPS_def RVP_NJMPS_def)

lemma ps_last_of_eq: "ps_last_of base = base + 11775"
  by (simp add: ps_last_of_def RVP_NOPS_def RVP_NJMPS_def)

lemma pc_in_deltops_deltop_of:
  assumes "deltops_fit base" "- 128 \<le> j" "j < 128"
  shows "pc_in_deltops base (deltop_of base j op)"
  using assms uint_deltop_of [OF assms, of op] offset_range [of j op]
  by (simp add: pc_in_deltops_def ps_last_of_eq word_less_def uint_last)

lemma ucast_row:
  assumes "0 \<le> r" "r < 256"
  shows "(ucast (word_of_int r :: u64) :: 32 word) = word_of_int r"
proof -
  have "uint (word_of_int r :: u64) = r"
    using assms by (simp add: uint_word_of_int)
  then show ?thesis by (metis ucast_eq)
qed

lemma scast_row:
  assumes "0 \<le> r" "r < 256"
  shows "(scast (word_of_int r :: 32 word) :: u64) = word_of_int r"
proof -
  have "sint (word_of_int r :: 32 word) = r"
    using assms by (simp add: sint_sbintrunc' signed_take_bit_int_eq_self)
  then show ?thesis by (metis scast_eq)
qed

lemma unat_small: "n < 46 \<Longrightarrow> unat (word_of_int (int n) :: u32) = n"
  by (simp add: unat_of_nat)

lemma extract_deltop_of:
  assumes "deltops_fit base" "- 128 \<le> j" "j < 128"
  shows "extract_jmpvec_and_op_from_deltop base (deltop_of base j op) = Inr (word_of_int j, op)"
proof -
  let ?o = "int (op_num op)" and ?r = "128 + j"
  have diff: "deltop_of base j op - base = word_of_int (46 * ?r + ?o)"
    by (simp only: deltop_of_def add_diff_cancel_left')
  have u: "uint (word_of_int (46 * ?r + ?o) :: u64) = 46 * ?r + ?o"
    using assms offset_range [of j op]
    by (subst uint_word_of_int, intro mod_pos_pos_trivial) auto
  have "(46 * ?r + ?o) div 46 = ?r"
    by (rule div_46) (rule op_num_int)+
  then have "uint ((deltop_of base j op - base) div 46) = ?r"
    by (simp only: diff uint_div_distrib u) simp
  then have q: "(deltop_of base j op - base) div 46 = word_of_int ?r"
    by (metis word_of_int_uint)
  have row: "(ucast (word_of_int ?r :: u64) :: 32 word) = word_of_int ?r"
    using assms by (intro ucast_row) auto
  have srow: "(scast (word_of_int ?r :: 32 word) :: u64) = word_of_int ?r"
    using assms by (intro scast_row) auto
  have "word_of_int (46 * ?r + ?o) - 46 * word_of_int ?r = (word_of_int ?o :: u64)"
    by simp
  then have op: "deltop_of base j op - base - 46 * scast (word_of_int ?r :: 32 word) = word_of_int ?o"
    by (simp only: diff srow)
  have jv: "(word_of_int ?r :: 32 word) - 128 = word_of_int j"
    by simp
  have uc: "(ucast (word_of_int ?o :: u64) :: u32) = word_of_int ?o"
    by (intro ucast_row) (use less_trans [OF op_num_less_46, of 256 op] in simp_all)
  have uo: "unat (word_of_int ?o :: u32) = op_num op"
    by (rule unat_small) simp
  show ?thesis
    unfolding extract_jmpvec_and_op_from_deltop_def RVP_NOPS_def RVP_NJMPS_def Let_def
    using op_num_less_46 [of op]
    by (simp only: of_nat_numeral q row op uc jv uo) (simp add: jv)
qed

section \<open>Properties\<close>

text \<open>
  C9. Deltops are an exact code: the runtime encodes an operation and a jump vector just when
  the jump vector lies between -128 and 127, and from the address it writes the reader recovers
  the operation and the jump vector and tells it from an ordinary program counter.
\<close>

theorem deltop_roundtrip:
  assumes "deltops_fit base"
  shows "case rvp_vec_and_op_to_deltop base j op of
      None \<Rightarrow> sint j < - 128 \<or> 128 \<le> sint j
    | Some d \<Rightarrow> - 128 \<le> sint j \<and> sint j < 128 \<and> pc_in_deltops base d \<and>
        extract_jmpvec_and_op_from_deltop base d = Inr (j, op)"
  using vec_and_op_Some_iff [OF assms, of j op] extract_deltop_of [OF assms, of "sint j" op]
    pc_in_deltops_deltop_of [OF assms, of "sint j" op]
  by (auto simp: of_int_sint)

lemma deltop_roundtrip_witness:
  "extract_jmpvec_and_op_from_deltop 0x400000 (deltop_of 0x400000 5 RVP_OP_LOAD4) = Inr (5, RVP_OP_LOAD4)"
  using deltop_roundtrip [of "0x400000" 5 RVP_OP_LOAD4] vec_and_op_Some_iff [of "0x400000" 5 RVP_OP_LOAD4]
  by (simp add: deltops_fit_def)

end
