(* ===== verification/Buf.thy ===== *)
theory Buf
  imports Deltop
begin

text \<open>
  Event buffers, \<^verbatim>\<open>llvm/ngrt/buf.h\<close> and the functions of \<^verbatim>\<open>llvm/ngrt/trace.c\<close> that fill
  them. Every event is assembled in an array of 20 words on the stack and then put on a ring
  in one piece.
\<close>

section \<open>The buffer\<close>

record rvp_buf =
  b_nwords :: nat
  b_word :: "u32 list"

definition RVP_BUF_INITIALIZER :: rvp_buf where
  "RVP_BUF_INITIALIZER = \<lparr> b_nwords = 0, b_word = replicate 20 0 \<rparr>"

definition rvp_buf_put :: "rvp_buf \<Rightarrow> u32 \<Rightarrow> rvp_buf cres" where
  "rvp_buf_put b item =
     cbind (cassert (b_nwords b < length (b_word b))) (\<lambda>_.
       Inr \<lparr> b_nwords = b_nwords b + 1, b_word = (b_word b)[b_nwords b := item] \<rparr>)"

fun rvp_buf_put_loop :: "rvp_buf \<Rightarrow> u32 list \<Rightarrow> rvp_buf" where
    "rvp_buf_put_loop b [] = b"
  | "rvp_buf_put_loop b (w # ws) =
       rvp_buf_put_loop \<lparr> b_nwords = b_nwords b + 1, b_word = (b_word b)[b_nwords b := w] \<rparr> ws"

definition rvp_buf_put_buf :: "rvp_buf \<Rightarrow> rvp_buf \<Rightarrow> rvp_buf cres" where
  "rvp_buf_put_buf db sb =
     cbind (cassert (b_nwords db + b_nwords sb \<le> length (b_word db))) (\<lambda>_.
       Inr (rvp_buf_put_loop db (take (b_nwords sb) (b_word sb))))"

definition rvp_buf_put_addr :: "rvp_buf \<Rightarrow> rvp_addr \<Rightarrow> rvp_buf cres" where
  "rvp_buf_put_addr b addr =
     cbind (rvp_buf_put b (lo32 addr)) (\<lambda>b. rvp_buf_put b (hi32 addr))"

definition rvp_buf_put_voidptr :: "rvp_buf \<Rightarrow> rvp_addr \<Rightarrow> rvp_buf cres" where
  "rvp_buf_put_voidptr b addr = rvp_buf_put_addr b addr"

definition rvp_buf_put_u64 :: "rvp_buf \<Rightarrow> u64 \<Rightarrow> rvp_buf cres" where
  "rvp_buf_put_u64 b val =
     cbind (rvp_buf_put b (lo32 val)) (\<lambda>b. rvp_buf_put b (hi32 val))"

section \<open>Program counters, deltops and generations\<close>

text \<open>
  \<open>int jmpvec = pc - *lastpcp\<close> truncates the 64-bit difference of the pointers to an
  \<open>int\<close>. The result holds the buffer and the new value of \<open>*lastpcp\<close>.
\<close>

definition rvp_buf_put_pc_and_op ::
    "u64 \<Rightarrow> rvp_buf \<Rightarrow> u64 \<Rightarrow> u64 \<Rightarrow> rvp_op \<Rightarrow> (rvp_buf \<times> u64) cres" where
  "rvp_buf_put_pc_and_op base b lastpc pc op =
     (let jmpvec = (ucast (pc - lastpc) :: 32 word) in
      case rvp_vec_and_op_to_deltop base jmpvec op of
        Some deltop \<Rightarrow> cbind (rvp_buf_put_voidptr b deltop) (\<lambda>b. Inr (b, pc))
      | None \<Rightarrow>
          cbind (rvp_buf_put_voidptr b pc) (\<lambda>b.
            case rvp_vec_and_op_to_deltop base 0 op of
              None \<Rightarrow> Inl Assertion
            | Some deltop \<Rightarrow> cbind (rvp_buf_put_voidptr b deltop) (\<lambda>b. Inr (b, pc))))"

text \<open>A null deltop is the address 0 in the trace.\<close>

definition deltop_or_null :: "u64 option \<Rightarrow> u64" where
  "deltop_or_null d = (case d of None \<Rightarrow> 0 | Some a \<Rightarrow> a)"

definition rvp_buf_put_cog :: "u64 \<Rightarrow> rvp_buf \<Rightarrow> u64 \<Rightarrow> rvp_buf cres" where
  "rvp_buf_put_cog base b generation =
     cbind (rvp_buf_put_voidptr b
              (deltop_or_null (rvp_vec_and_op_to_deltop base 0 RVP_OP_COG)))
       (\<lambda>b. rvp_buf_put_u64 b generation)"

section \<open>A buffer is the sequence of words put so far\<close>

definition buf_of :: "u32 list \<Rightarrow> rvp_buf" where
  "buf_of ws = \<lparr> b_nwords = length ws, b_word = ws @ replicate (20 - length ws) 0 \<rparr>"

definition buf_words :: "rvp_buf \<Rightarrow> u32 list" where
  "buf_words b = take (b_nwords b) (b_word b)"

definition put_words :: "u32 list \<Rightarrow> u32 list \<Rightarrow> rvp_buf cres" where
  "put_words ws vs = (if length ws + length vs \<le> 20 then Inr (buf_of (ws @ vs)) else Inl Assertion)"

lemma buf_initializer [simp]: "RVP_BUF_INITIALIZER = buf_of []"
  by (simp add: RVP_BUF_INITIALIZER_def buf_of_def)

lemma buf_words_of [simp]: "buf_words (buf_of ws) = ws"
  by (simp add: buf_words_def buf_of_def)

lemma b_nwords_of [simp]: "b_nwords (buf_of ws) = length ws"
  by (simp add: buf_of_def)

lemma length_b_word_of [simp]: "length ws \<le> 20 \<Longrightarrow> length (b_word (buf_of ws)) = 20"
  by (simp add: buf_of_def)

lemma update_first_free:
  "length ws < 20 \<Longrightarrow>
   (ws @ replicate (20 - length ws) 0)[length ws := x] = (ws @ [x]) @ replicate (19 - length ws) 0"
  by (cases "20 - length ws") (auto simp: list_update_append split: nat.splits)

lemma put_buf_of: "length ws \<le> 20 \<Longrightarrow> rvp_buf_put (buf_of ws) x = put_words ws [x]"
  by (simp add: rvp_buf_put_def put_words_def buf_of_def update_first_free del: append_assoc)

lemma put_words_bind:
  assumes "\<And>zs. length zs \<le> 20 \<Longrightarrow> f (buf_of zs) = put_words zs ys"
  shows "cbind (put_words ws xs) f = put_words ws (xs @ ys)"
  using assms [of "ws @ xs"] by (auto simp: put_words_def)

lemma put_addr_of:
  "length ws \<le> 20 \<Longrightarrow> rvp_buf_put_addr (buf_of ws) a = put_words ws [lo32 a, hi32 a]"
  by (simp add: rvp_buf_put_addr_def put_buf_of put_words_bind)

lemma put_voidptr_of:
  "length ws \<le> 20 \<Longrightarrow> rvp_buf_put_voidptr (buf_of ws) a = put_words ws [lo32 a, hi32 a]"
  by (simp add: rvp_buf_put_voidptr_def put_addr_of)

lemma put_u64_of:
  "length ws \<le> 20 \<Longrightarrow> rvp_buf_put_u64 (buf_of ws) a = put_words ws [lo32 a, hi32 a]"
  by (simp add: rvp_buf_put_u64_def put_buf_of put_words_bind)

text \<open>The words of the deltop of \<open>(0, op)\<close>, and of an operation at a program counter.\<close>

definition op_words :: "u64 \<Rightarrow> rvp_op \<Rightarrow> u32 list" where
  "op_words base op = fval_words (VAddr (deltop_of base 0 op))"

definition pc_op_words :: "u64 \<Rightarrow> u64 \<Rightarrow> u64 \<Rightarrow> rvp_op \<Rightarrow> u32 list" where
  "pc_op_words base lastpc pc op =
     (let j = sint (ucast (pc - lastpc) :: 32 word) in
      if - 128 \<le> j \<and> j < 128 then fval_words (VAddr (deltop_of base j op))
      else fval_words (VAddr pc) @ op_words base op)"

lemma deltop0:
  "deltops_fit base \<Longrightarrow> rvp_vec_and_op_to_deltop base 0 op = Some (deltop_of base 0 op)"
  by (simp add: vec_and_op_Some_iff)

lemma length_op_words [simp]: "length (op_words base op) = 2"
  by (simp add: op_words_def)

lemma length_pc_op_words: "length (pc_op_words base lastpc pc op) \<in> {2, 4}"
  by (simp add: pc_op_words_def Let_def)

lemma length_pc_op_words_le: "length (pc_op_words base lastpc pc op) \<le> 4"
  using length_pc_op_words [of base lastpc pc op] by auto

lemma put_cog_of:
  assumes "deltops_fit base" "length ws \<le> 20"
  shows "rvp_buf_put_cog base (buf_of ws) g = put_words ws (op_words base RVP_OP_COG @ fval_words (V64 g))"
  using assms
  by (simp add: rvp_buf_put_cog_def deltop0 deltop_or_null_def put_voidptr_of op_words_def
      put_words_bind [where ys = "[lo32 g, hi32 g]"] put_u64_of)

lemma put_pc_and_op_of:
  assumes "deltops_fit base" "length ws \<le> 20"
  shows "rvp_buf_put_pc_and_op base (buf_of ws) lastpc pc op =
     cbind (put_words ws (pc_op_words base lastpc pc op)) (\<lambda>b. Inr (b, pc))"
proof (cases "- 128 \<le> sint (ucast (pc - lastpc) :: 32 word) \<and> sint (ucast (pc - lastpc) :: 32 word) < 128")
  case True
  then show ?thesis
    using assms by (simp add: rvp_buf_put_pc_and_op_def vec_and_op_Some_iff pc_op_words_def put_voidptr_of Let_def)
next
  case False
  then have "rvp_vec_and_op_to_deltop base (ucast (pc - lastpc)) op = None"
    using assms(1) vec_and_op_Some_iff by presburger
  with False show ?thesis
    using assms(2)
    by (auto simp: rvp_buf_put_pc_and_op_def deltop0 [OF assms(1)] pc_op_words_def Let_def
        put_voidptr_of put_words_def op_words_def)
qed

lemma put_buf_loop_of:
  "length ws + length vs \<le> 20 \<Longrightarrow> rvp_buf_put_loop (buf_of ws) vs = buf_of (ws @ vs)"
proof (induction vs arbitrary: ws)
  case (Cons v vs)
  then have "\<lparr> b_nwords = b_nwords (buf_of ws) + 1,
      b_word = (b_word (buf_of ws))[b_nwords (buf_of ws) := v] \<rparr> = buf_of (ws @ [v])"
    by (simp add: buf_of_def update_first_free del: append_assoc)
  with Cons show ?case by simp
qed simp

lemma put_buf_of_buf:
  "length ws \<le> 20 \<Longrightarrow> rvp_buf_put_buf (buf_of ws) (buf_of vs) = put_words ws vs"
  using put_buf_loop_of [of ws vs]
  by (simp add: rvp_buf_put_buf_def put_words_def buf_words_def [of "buf_of vs", simplified, symmetric])

section \<open>Distances in 32 bits\<close>

lemma ucast_plus: "(ucast (x + y) :: 32 word) = ucast x + ucast (y :: u64)"
proof (rule word_uint_eqI)
  have "(a mod 18446744073709551616) mod 4294967296 = a mod (4294967296 :: int)" for a
    by (rule mod_mod_cancel) simp
  then show "uint (ucast (x + y) :: 32 word) = uint (ucast x + ucast y :: 32 word)"
    by (simp add: unsigned_ucast_eq unsigned_take_bit_eq take_bit_eq_mod uint_word_ariths mod_simps)
qed

section \<open>Far jumps\<close>

text \<open>
  The jump is computed in 32 bits: when the low half of the distance between two program
  counters looks like a short jump, the words put for the second are those of the short jump,
  whatever the high half. A jump by a multiple of 4 GB cannot be told from one that stays.
\<close>

theorem far_jump_loses_its_high_half:
  assumes "deltops_fit base" "length ws \<le> 16"
    and "- 128 \<le> sint (ucast (pc - lastpc) :: 32 word)" "sint (ucast (pc - lastpc) :: 32 word) < 128"
  shows "rvp_buf_put_pc_and_op base (buf_of ws) lastpc (pc + push_bit 32 far) op =
    cbind (rvp_buf_put_pc_and_op base (buf_of ws) lastpc pc op) (\<lambda>(b, _). Inr (b, pc + push_bit 32 far))"
proof -
  have "ucast (push_bit 32 far :: u64) = (0 :: 32 word)"
    by (rule bit_word_eqI) (auto simp: bit_simps)
  moreover have "pc + push_bit 32 far - lastpc = (pc - lastpc) + push_bit 32 far" by simp
  ultimately have low: "(ucast (pc + push_bit 32 far - lastpc) :: 32 word) = ucast (pc - lastpc)"
    by (simp only: ucast_plus add_0_right)
  show ?thesis
    using assms by (simp add: put_pc_and_op_of pc_op_words_def low put_words_def Let_def)
qed

lemma far_jump_witness:
  "rvp_buf_put_pc_and_op 0x400000 (buf_of []) 0x500000 0x100500004 RVP_OP_LOAD4 =
     cbind (rvp_buf_put_pc_and_op 0x400000 (buf_of []) 0x500000 0x500004 RVP_OP_LOAD4) (\<lambda>(b, _). Inr (b, 0x100500004))"
  using far_jump_loses_its_high_half [of "0x400000" "[]" "0x500004" "0x500000" 1 RVP_OP_LOAD4]
  by (simp add: deltops_fit_def)

end
