(* ===== verification/Format.thy ===== *)
theory Format
  imports Prelude
begin

text \<open>
  The conversions of \<open>printf\<close> that the reader uses: decimal and hexadecimal numbers, the \<open>#\<close>
  flag, a precision, zero padding to a width, and \<open>snprintf\<close> with the check that follows each
  of its calls in \<^verbatim>\<open>llvm/librvread/reader.c\<close>. A string longer than its buffer makes the
  reader exit.
\<close>

definition digit_char :: "nat \<Rightarrow> char" where
  "digit_char d = ''0123456789abcdef'' ! d"

function digits :: "nat \<Rightarrow> nat \<Rightarrow> string" where
  "digits b n = (if b < 2 \<or> n < b then [digit_char n]
     else digits b (n div b) @ [digit_char (n mod b)])"
  by auto
termination by (relation "measure snd") auto

declare digits.simps [simp del]

text \<open>\<open>%u\<close>, \<open>%PRIu32\<close>, \<open>%PRIu64\<close> and \<open>%x\<close> without flags.\<close>

definition fmt_dec :: "nat \<Rightarrow> string" where "fmt_dec n = digits 10 n"
definition fmt_hex :: "nat \<Rightarrow> string" where "fmt_hex n = digits 16 n"

definition zero_pad :: "nat \<Rightarrow> string \<Rightarrow> string" where
  "zero_pad w s = replicate (w - length s) (CHR ''0'') @ s"

definition alt_prefix :: "nat \<Rightarrow> string" where
  "alt_prefix n = (if n = 0 then '''' else ''0x'')"

text \<open>\<open>%#x\<close>, \<open>%#.*x\<close> (at least \<open>p\<close> digits) and \<open>%#0wx\<close> (at least \<open>w\<close> characters).\<close>

definition fmt_alt :: "nat \<Rightarrow> string" where
  "fmt_alt n = alt_prefix n @ fmt_hex n"

definition fmt_alt_prec :: "nat \<Rightarrow> nat \<Rightarrow> string" where
  "fmt_alt_prec p n = alt_prefix n @ zero_pad p (if n = 0 \<and> p = 0 then '''' else fmt_hex n)"

definition fmt_alt_0 :: "nat \<Rightarrow> nat \<Rightarrow> string" where
  "fmt_alt_0 w n = alt_prefix n @ zero_pad (w - length (alt_prefix n)) (fmt_hex n)"

definition fmt_02x :: "u8 \<Rightarrow> string" where
  "fmt_02x b = zero_pad 2 (fmt_hex (unat b))"

text \<open>\<open>snprintf(buf, buflen, ...)\<close> followed by \<open>errx\<close> when the result was truncated.\<close>

definition snprintf_checked :: "nat \<Rightarrow> string \<Rightarrow> string cres" where
  "snprintf_checked buflen s = (if buflen \<le> length s then Inl Exited else Inr s)"

section \<open>Lengths\<close>

lemma length_digits:
  "2 \<le> b \<Longrightarrow> 0 < k \<Longrightarrow> n < b ^ k \<Longrightarrow> length (digits b n) \<le> k"
proof (induction k arbitrary: n)
  case (Suc k)
  show ?case
  proof (cases "n < b")
    case True
    then show ?thesis by (simp add: digits.simps [of b n])
  next
    case False
    then have "k \<noteq> 0" using Suc.prems by (cases k) auto
    moreover have "n div b < b ^ k"
      using Suc.prems by (simp add: less_mult_imp_div_less mult.commute)
    ultimately have "length (digits b (n div b)) \<le> k"
      using Suc by simp
    then show ?thesis
      using False Suc.prems by (subst digits.simps) simp
  qed
qed simp

lemma length_digits_pos: "0 < length (digits b n)"
  by (subst digits.simps) simp

lemma length_fmt_dec: "0 < k \<Longrightarrow> n < 10 ^ k \<Longrightarrow> length (fmt_dec n) \<le> k"
  by (simp add: fmt_dec_def length_digits)

lemma length_fmt_hex: "0 < k \<Longrightarrow> n < 16 ^ k \<Longrightarrow> length (fmt_hex n) \<le> k"
  by (simp add: fmt_hex_def length_digits)

lemma length_alt_prefix: "length (alt_prefix n) \<le> 2"
  by (simp add: alt_prefix_def)

lemma length_zero_pad [simp]: "length (zero_pad w s) = max w (length s)"
  by (simp add: zero_pad_def)

lemma length_hex64: "length (fmt_hex (unat (a :: u64))) \<le> 16"
  using unat_lt_exp [of a] by (intro length_fmt_hex) simp_all

lemma length_fmt_alt64: "length (fmt_alt (unat (a :: u64))) \<le> 18"
  using length_hex64 [of a] length_alt_prefix [of "unat a"] by (simp add: fmt_alt_def)

lemma length_fmt_alt_0_64: "length (fmt_alt_0 16 (unat (a :: u64))) \<le> 18"
  using length_hex64 [of a] length_alt_prefix [of "unat a"] by (simp add: fmt_alt_0_def)

lemma length_dec64: "length (fmt_dec (unat (a :: u64))) \<le> 20"
  using unat_lt_exp [of a] by (intro length_fmt_dec) simp_all

lemma length_dec32: "length (fmt_dec (unat (a :: u32))) \<le> 10"
  using unat_lt_exp [of a] by (intro length_fmt_dec) simp_all

lemma length_fmt_02x [simp]: "length (fmt_02x b) = 2"
proof -
  have "length (fmt_hex (unat b)) \<le> 2"
    using unat_lt_exp [of b] by (intro length_fmt_hex) simp_all
  then show ?thesis by (simp add: fmt_02x_def)
qed

lemma snprintf_checked_fits: "length s < n \<Longrightarrow> snprintf_checked n s = Inr s"
  by (simp add: snprintf_checked_def)

end
