(* ===== verification/Io.thy ===== *)
theory Io
  imports Prelude
begin

text \<open>
  Whole transfers, \<^verbatim>\<open>llvm/ngrt/io.c\<close>: \<open>writeall\<close>, \<open>readallv\<close> and \<open>writeallv\<close> call the
  system until everything has been transferred. The system call is a parameter: it gets the
  part of memory to transfer and returns a number of bytes, or -1, and its own next state.
\<close>

record iovec =
  iov_base :: int
  iov_len :: nat

text \<open>The number of bytes of a vector, and the \<open>ssize_t\<close> that the code computes for it.\<close>

definition iov_bytes :: "iovec list \<Rightarrow> int" where
  "iov_bytes iov = int (sum_list (map iov_len iov))"

definition iovsum :: "iovec list \<Rightarrow> int" where
  "iovsum iov = sint (word_of_int (iov_bytes iov) :: 64 word)"

section \<open>One buffer\<close>

text \<open>
  \<open>sys\<close> is \<open>write(2)\<close>, applied to its state, the address and the number of bytes. \<open>fuel\<close>
  bounds the number of calls, since \<open>write\<close> may return 0 for ever.
\<close>

fun writeall :: "('s \<Rightarrow> int \<Rightarrow> nat \<Rightarrow> int \<times> 's) \<Rightarrow> nat \<Rightarrow> 's \<Rightarrow> int \<Rightarrow> nat \<Rightarrow> (int \<times> 's) cres" where
  "writeall sys fuel s p nbytes =
     (if nbytes = 0 then Inr (int nbytes, s)
      else case fuel of 0 \<Rightarrow> Inl Waiting
        | Suc fuel \<Rightarrow>
            let (nwritten, s) = sys s p nbytes in
            if nwritten = -1 then Inr (-1, s)
            else writeall sys fuel s (p + nwritten) (nbytes - nat nwritten))"

declare writeall.simps [simp del]

section \<open>Vectors of buffers\<close>

text \<open>
  The vector that remains after \<open>nbytes\<close> bytes of it have been transferred. The test
  \<open>nbytes < iov->iov_len\<close> that follows in the code repeats the one before it and never succeeds.
\<close>

fun advance_iov :: "iovec list \<Rightarrow> nat \<Rightarrow> iovec list" where
    "advance_iov [] nbytes = []"
  | "advance_iov (v # vs) nbytes =
       (if nbytes = 0 then v # vs
        else if iov_len v > nbytes
        then v\<lparr> iov_len := iov_len v - nbytes, iov_base := iov_base v + int nbytes \<rparr> # vs
        else advance_iov vs (nbytes - iov_len v))"

fun xfer_loop ::
    "('s \<Rightarrow> iovec list \<Rightarrow> int \<times> 's) \<Rightarrow> nat \<Rightarrow> 's \<Rightarrow> iovec list \<Rightarrow> int \<Rightarrow> int \<Rightarrow> int \<Rightarrow> (int \<times> 's) cres" where
  "xfer_loop xferv fuel s iov nexpected ntotal nxferd =
     (if \<not> ntotal < nexpected then Inr (ntotal, s)
      else case fuel of 0 \<Rightarrow> Inl Waiting
        | Suc fuel \<Rightarrow>
            let iov = advance_iov iov (nat nxferd); (nxferd, s) = xferv s iov in
            if nxferd = -1 then Inr (-1, s)
            else if nxferd = 0 then Inr (ntotal, s)
            else cbind (cassert (nxferd \<le> nexpected - ntotal)) (\<lambda>_.
              xfer_loop xferv fuel s iov nexpected (ntotal + nxferd) nxferd))"

declare xfer_loop.simps [simp del]

text \<open>Every pass transfers at least one byte, so as many passes as bytes are enough.\<close>

definition xferallv ::
    "('s \<Rightarrow> iovec list \<Rightarrow> int \<times> 's) \<Rightarrow> int \<Rightarrow> 's \<Rightarrow> iovec list \<Rightarrow> (int \<times> 's) cres" where
  "xferallv xferv err_ret s iov0 =
     (let nexpected = iovsum iov0; (nxferd, s) = xferv s iov0 in
      if nxferd = -1 \<or> nxferd = err_ret \<or> nxferd = nexpected then Inr (nxferd, s)
      else xfer_loop xferv (nat nexpected) s iov0 nexpected nxferd nxferd)"

definition readallv :: "('s \<Rightarrow> iovec list \<Rightarrow> int \<times> 's) \<Rightarrow> 's \<Rightarrow> iovec list \<Rightarrow> (int \<times> 's) cres" where
  "readallv readv s iov0 = xferallv readv 0 s iov0"

definition writeallv :: "('s \<Rightarrow> iovec list \<Rightarrow> int \<times> 's) \<Rightarrow> 's \<Rightarrow> iovec list \<Rightarrow> (int \<times> 's) cres" where
  "writeallv writev s iov0 = xferallv writev (-1) s iov0"

section \<open>The addresses of a vector\<close>

definition iov_addrs :: "iovec list \<Rightarrow> int list" where
  "iov_addrs iov = concat (map (\<lambda>v. map (\<lambda>i. iov_base v + int i) [0..<iov_len v]) iov)"

lemma iov_addrs_simps [simp]:
  "iov_addrs [] = []"
  "iov_addrs (v # vs) = map (\<lambda>i. iov_base v + int i) [0..<iov_len v] @ iov_addrs vs"
  by (simp_all add: iov_addrs_def)

lemma length_iov_addrs: "int (length (iov_addrs iov)) = iov_bytes iov"
  by (induction iov) (simp_all add: iov_bytes_def)

lemma iovsum_fits: "iov_bytes iov < 2 ^ 63 \<Longrightarrow> iovsum iov = iov_bytes iov"
proof -
  have "0 \<le> iov_bytes iov" by (simp add: iov_bytes_def sum_list_nonneg)
  then show "iov_bytes iov < 2 ^ 63 \<Longrightarrow> iovsum iov = iov_bytes iov"
    by (simp add: iovsum_def signed_of_int signed_take_bit_int_eq_self)
qed

lemma addrs_advance_iov: "iov_addrs (advance_iov iov n) = drop n (iov_addrs iov)"
proof (induction iov n rule: advance_iov.induct)
  case (2 v vs n)
  have "drop n (map (\<lambda>i. iov_base v + int i) [0..<iov_len v]) =
      map (\<lambda>i. iov_base v + int n + int i) [0..<iov_len v - n]"
    by (rule nth_equalityI) (auto simp: less_diff_conv add.commute)
  with 2 show ?case by auto
qed simp

section \<open>A loop over any kernel\<close>

text \<open>
  \<open>faithful\<close>: a kernel that, asked for a vector, transfers a prefix of its bytes and says how
  many; \<open>moved\<close> is the list of addresses whose bytes it has transferred so far. A vector whose
  number of bytes does not fit in a \<open>ssize_t\<close> it refuses.
\<close>

definition faithful_kernel :: "('s \<Rightarrow> int list) \<Rightarrow> ('s \<Rightarrow> iovec list \<Rightarrow> int \<times> 's) \<Rightarrow> bool" where
  "faithful_kernel moved xferv \<longleftrightarrow>
     (\<forall>s iov n s'. xferv s iov = (n, s') \<longrightarrow>
        (n = -1 \<and> moved s' = moved s) \<or>
        (iov_bytes iov < 2 ^ 63 \<and> 0 \<le> n \<and> n \<le> iov_bytes iov \<and> moved s' = moved s @ take (nat n) (iov_addrs iov)))"

lemma take_take_drop: "take i xs @ take j (drop i xs) = take (i + j) xs"
  by (simp add: take_add)

lemma xfer_loop_correct:
  assumes kernel: "faithful_kernel moved xferv"
  shows "0 \<le> ntotal \<Longrightarrow> ntotal \<le> iov_bytes iov0 \<Longrightarrow> nat (iov_bytes iov0 - ntotal) \<le> fuel \<Longrightarrow>
    iov_addrs (advance_iov iov (nat nx)) = drop (nat ntotal) (iov_addrs iov0) \<Longrightarrow>
    moved s = pre @ take (nat ntotal) (iov_addrs iov0) \<Longrightarrow>
    \<exists>n s'. xfer_loop xferv fuel s iov (iov_bytes iov0) ntotal nx = Inr (n, s') \<and>
      (n = -1 \<or> (0 \<le> n \<and> n \<le> iov_bytes iov0 \<and> moved s' = pre @ take (nat n) (iov_addrs iov0)))"
proof (induction fuel arbitrary: s iov ntotal nx)
  case 0
  then show ?case by (subst xfer_loop.simps) auto
next
  case (Suc fuel)
  let ?iov = "advance_iov iov (nat nx)" and ?L = "iov_bytes iov0"
  obtain m t where x: "xferv s ?iov = (m, t)" by (cases "xferv s ?iov")
  have sum: "iov_bytes ?iov = ?L - ntotal"
    using Suc.prems(1,2,4) length_iov_addrs [of ?iov] length_iov_addrs [of iov0] by simp
  consider "\<not> ntotal < ?L" | "ntotal < ?L" "m = -1" | "ntotal < ?L" "m = 0" | "ntotal < ?L" "0 < m" "m \<le> ?L - ntotal"
      "moved t = moved s @ take (nat m) (iov_addrs ?iov)"
    using kernel x sum unfolding faithful_kernel_def by fastforce
  then show ?case
  proof cases
    case 1
    then show ?thesis using Suc.prems by (subst xfer_loop.simps) auto
  next
    case 2
    then show ?thesis using x by (subst xfer_loop.simps) (auto simp: Let_def)
  next
    case 3
    then have "moved t = moved s" using kernel x unfolding faithful_kernel_def by fastforce
    then show ?thesis using 3 x Suc.prems by (subst xfer_loop.simps) (auto simp: Let_def)
  next
    case 4
    have "moved t = pre @ take (nat (ntotal + m)) (iov_addrs iov0)"
      using 4 Suc.prems take_take_drop [of "nat ntotal" "iov_addrs iov0" "nat m"]
      by (simp add: nat_add_distrib)
    moreover have "iov_addrs (advance_iov ?iov (nat m)) = drop (nat (ntotal + m)) (iov_addrs iov0)"
      using 4 Suc.prems by (simp add: addrs_advance_iov nat_add_distrib add.commute)
    ultimately have "\<exists>n s'. xfer_loop xferv fuel t ?iov ?L (ntotal + m) m = Inr (n, s') \<and>
        (n = -1 \<or> (0 \<le> n \<and> n \<le> ?L \<and> moved s' = pre @ take (nat n) (iov_addrs iov0)))"
      using 4 Suc.prems by (intro Suc.IH) auto
    then show ?thesis using 4 x by (subst xfer_loop.simps) (simp add: Let_def)
  qed
qed

lemma xferallv_correct:
  assumes kernel: "faithful_kernel moved xferv"
  shows "\<exists>n s'. xferallv xferv err_ret s iov = Inr (n, s') \<and>
      (n = -1 \<or> n = err_ret \<or>
       (0 \<le> n \<and> n \<le> iovsum iov \<and> moved s' = moved s @ take (nat n) (iov_addrs iov)))"
proof -
  obtain n t where x: "xferv s iov = (n, t)" by (cases "xferv s iov")
  show ?thesis
  proof (cases "n = -1 \<or> n = err_ret")
    case True
    then show ?thesis using x by (auto simp: xferallv_def Let_def)
  next
    case False
    then have fits: "iov_bytes iov < 2 ^ 63" using kernel x unfolding faithful_kernel_def by blast
    note sum = iovsum_fits [OF fits]
    from False have n: "0 \<le> n" "n \<le> iov_bytes iov" "moved t = moved s @ take (nat n) (iov_addrs iov)"
      using kernel x unfolding faithful_kernel_def by blast+
    show ?thesis
    proof (cases "n = iov_bytes iov")
      case True
      then show ?thesis using x n by (auto simp: xferallv_def Let_def sum)
    next
      case False
      with \<open>\<not> (n = -1 \<or> n = err_ret)\<close> x
      have "xferallv xferv err_ret s iov = xfer_loop xferv (nat (iov_bytes iov)) t iov (iov_bytes iov) n n"
        by (simp add: xferallv_def Let_def sum)
      moreover have "\<exists>m s'. xfer_loop xferv (nat (iov_bytes iov)) t iov (iov_bytes iov) n n = Inr (m, s') \<and>
          (m = -1 \<or> (0 \<le> m \<and> m \<le> iov_bytes iov \<and> moved s' = moved s @ take (nat m) (iov_addrs iov)))"
        using n by (intro xfer_loop_correct [OF kernel]) (auto simp: addrs_advance_iov)
      ultimately show ?thesis by (auto simp: sum)
    qed
  qed
qed

text \<open>A kernel that, asked for something, fails or transfers something.\<close>

definition progressing_kernel :: "('s \<Rightarrow> iovec list \<Rightarrow> int \<times> 's) \<Rightarrow> bool" where
  "progressing_kernel xferv \<longleftrightarrow> (\<forall>s iov. 0 < iov_bytes iov \<longrightarrow> fst (xferv s iov) \<noteq> 0)"

lemma xfer_loop_total:
  assumes "faithful_kernel moved xferv" "progressing_kernel xferv"
  shows "xfer_loop xferv fuel s iov (iov_bytes iov0) ntotal nx = Inr (n, s') \<Longrightarrow>
    0 \<le> ntotal \<Longrightarrow> ntotal \<le> iov_bytes iov0 \<Longrightarrow>
    iov_addrs (advance_iov iov (nat nx)) = drop (nat ntotal) (iov_addrs iov0) \<Longrightarrow>
    n = -1 \<or> n = iov_bytes iov0"
proof (induction fuel arbitrary: s iov ntotal nx)
  case 0
  then show ?case by (subst (asm) xfer_loop.simps) (auto split: if_splits)
next
  case (Suc fuel)
  let ?iov = "advance_iov iov (nat nx)" and ?L = "iov_bytes iov0"
  obtain m t where x: "xferv s ?iov = (m, t)" by (cases "xferv s ?iov")
  have sum: "iov_bytes ?iov = ?L - ntotal"
    using Suc.prems length_iov_addrs [of ?iov] length_iov_addrs [of iov0] by simp
  show ?case
  proof (cases "ntotal < ?L \<and> m \<noteq> -1")
    case False
    then show ?thesis
      using Suc.prems x by (subst (asm) xfer_loop.simps) (auto simp: Let_def split: if_splits)
  next
    case True
    then have "m \<noteq> 0" using assms(2) sum x unfolding progressing_kernel_def by (metis diff_gt_0_iff_gt fst_conv)
    then have m: "0 < m" "m \<le> ?L - ntotal"
      using True assms(1) x sum unfolding faithful_kernel_def by fastforce+
    then have "xfer_loop xferv fuel t ?iov ?L (ntotal + m) m = Inr (n, s')"
      using Suc.prems(1) x True by (subst (asm) xfer_loop.simps) (auto simp: Let_def)
    moreover have "iov_addrs (advance_iov ?iov (nat m)) = drop (nat (ntotal + m)) (iov_addrs iov0)"
      using m Suc.prems by (simp add: addrs_advance_iov nat_add_distrib add.commute)
    ultimately show ?thesis using m Suc.prems Suc.IH by auto
  qed
qed

lemma writeallv_complete:
  assumes "faithful_kernel moved writev" "progressing_kernel writev"
  shows "\<exists>n s'. writeallv writev s iov = Inr (n, s') \<and>
      (n = -1 \<or> (n = iov_bytes iov \<and> n = iovsum iov \<and> moved s' = moved s @ iov_addrs iov))"
proof -
  obtain n s' where r: "xferallv writev (-1) s iov = Inr (n, s')"
      "n = -1 \<or> (0 \<le> n \<and> n \<le> iovsum iov \<and> moved s' = moved s @ take (nat n) (iov_addrs iov))"
    using xferallv_correct [OF assms(1), of "-1" s iov] by blast
  obtain m t where x: "writev s iov = (m, t)" by (cases "writev s iov")
  have "n = -1 \<or> n = iov_bytes iov \<and> n = iovsum iov"
  proof (cases "m = -1")
    case True
    then show ?thesis using r(1) x by (auto simp: xferallv_def Let_def)
  next
    case ok: False
    then have "iov_bytes iov < 2 ^ 63" using assms(1) x unfolding faithful_kernel_def by blast
    note sum = iovsum_fits [OF this]
    show ?thesis
  proof (cases "m = iov_bytes iov")
    case True
    then show ?thesis using r(1) x ok by (auto simp: xferallv_def Let_def sum)
  next
    case False
    have m: "0 \<le> m" "m \<le> iov_bytes iov"
      using ok assms(1) x unfolding faithful_kernel_def by blast+
    have "xfer_loop writev (nat (iov_bytes iov)) t iov (iov_bytes iov) m m = Inr (n, s')"
      using False ok r(1) x by (auto simp: xferallv_def Let_def sum)
    then have "n = -1 \<or> n = iov_bytes iov"
      by (rule xfer_loop_total [OF assms]) (use m in \<open>simp_all add: addrs_advance_iov\<close>)
    then show ?thesis by (simp add: sum)
  qed
  qed
  moreover have "take (nat (iov_bytes iov)) (iov_addrs iov) = iov_addrs iov"
    by (simp flip: length_iov_addrs)
  ultimately show ?thesis
    using r by (intro exI [of _ n] exI [of _ s']) (auto simp: writeallv_def)
qed

section \<open>Properties\<close>

text \<open>
  C16. Vectored transfers resume where they stopped: over any kernel that transfers a prefix of
  what it is asked for and says how much, \<open>xferallv\<close> returns, no assertion fires, and unless
  it reports an error the addresses transferred are exactly a prefix of those of the vector, as
  long as the number it returns, each once and in order.
\<close>

theorem transfer_resumes:
  assumes "faithful_kernel moved xferv"
  shows "\<exists>n s'. xferallv xferv err_ret s iov = Inr (n, s') \<and>
      (n = -1 \<or> n = err_ret \<or>
       (0 \<le> n \<and> n \<le> iovsum iov \<and> moved s' = moved s @ take (nat n) (iov_addrs iov)))"
  by (rule xferallv_correct [OF assms])

text \<open>
  C17. Writing a vector is all or nothing: over a kernel that makes progress or fails,
  \<open>writeallv\<close> returns -1 or has written every byte of the vector in order.
\<close>

theorem write_all_or_nothing:
  assumes "faithful_kernel moved writev" "progressing_kernel writev"
  shows "\<exists>n s'. writeallv writev s iov = Inr (n, s') \<and>
      (n = -1 \<or> (n = iovsum iov \<and> moved s' = moved s @ iov_addrs iov))"
  using writeallv_complete [OF assms, of s iov] by metis

text \<open>A kernel that transfers one byte at a time.\<close>

definition byte_kernel :: "int list \<Rightarrow> iovec list \<Rightarrow> int \<times> int list" where
  "byte_kernel s iov = (if 2 ^ 63 \<le> iov_bytes iov then (-1, s) else case iov_addrs iov of [] \<Rightarrow> (0, s) | a # _ \<Rightarrow> (1, s @ [a]))"

lemma byte_kernel_ok: "faithful_kernel (\<lambda>s. s) byte_kernel" "progressing_kernel byte_kernel"
proof -
  have "0 < iov_bytes iov \<longleftrightarrow> iov_addrs iov \<noteq> []" "iov_addrs iov \<noteq> [] \<Longrightarrow> 1 \<le> iov_bytes iov" "0 \<le> iov_bytes iov" for iov
    using length_iov_addrs [of iov] by (cases "iov_addrs iov"; simp)+
  then show "faithful_kernel (\<lambda>s. s) byte_kernel" "progressing_kernel byte_kernel"
    by (auto simp: faithful_kernel_def progressing_kernel_def byte_kernel_def split: list.splits)
qed

lemma transfer_resumes_witness:
  "\<exists>n s'. xferallv byte_kernel 0 [] [\<lparr> iov_base = 16, iov_len = 3 \<rparr>] = Inr (n, s') \<and>
     (n = -1 \<or> n = 0 \<or> (0 \<le> n \<and> n \<le> 3 \<and> s' = take (nat n) [16, 17, 18]))"
  using transfer_resumes [OF byte_kernel_ok(1), of 0 "[]" "[\<lparr> iov_base = 16, iov_len = 3 \<rparr>]"]
  by (simp add: iovsum_def iov_bytes_def upt_rec)

lemma write_all_or_nothing_witness:
  "\<exists>n s'. writeallv byte_kernel [] [\<lparr> iov_base = 16, iov_len = 3 \<rparr>] = Inr (n, s') \<and>
     (n = -1 \<or> (n = 3 \<and> s' = [16, 17, 18]))"
  using write_all_or_nothing [OF byte_kernel_ok, of "[]" "[\<lparr> iov_base = 16, iov_len = 3 \<rparr>]"]
  by (simp add: iovsum_def iov_bytes_def upt_rec)

end
