(* ===== verification/Circular.thy ===== *)
theory Circular
  imports Prelude
begin

text \<open>
  Circular arrays: the part of an array that starts at an index and goes on for a number of
  places, around the end of the array, and what a store into such a part changes. The event
  rings, the interruption rings and the serializer share these lemmas.
\<close>

section \<open>Distance along the circle\<close>

definition cdist :: "nat \<Rightarrow> nat \<Rightarrow> nat \<Rightarrow> nat" where
  "cdist n a b = (b + n - a) mod n"

lemma cdist_less [simp]: "0 < n \<Longrightarrow> cdist n a b < n"
  by (simp add: cdist_def)

lemma cdist_ge: "a \<le> b \<Longrightarrow> b < n \<Longrightarrow> cdist n a b = b - a"
  by (auto simp: cdist_def mod_if)

lemma cdist_lt: "b < a \<Longrightarrow> a < n \<Longrightarrow> cdist n a b = b + n - a"
  by (auto simp: cdist_def mod_if)

lemma cdist_cases:
  "a < n \<Longrightarrow> b < n \<Longrightarrow> cdist n a b = (if a \<le> b then b - a else b + n - a)"
  by (simp add: cdist_ge cdist_lt)

lemma cdist_self [simp]: "cdist n a a = 0"
  by (simp add: cdist_def)

lemma cdist_0_iff: "a < n \<Longrightarrow> b < n \<Longrightarrow> cdist n a b = 0 \<longleftrightarrow> a = b"
  by (auto simp: cdist_cases)

lemma add_mod_cases: "a < n \<Longrightarrow> k \<le> n \<Longrightarrow> (a + k) mod n = (if a + k < n then a + k else a + k - n)"
  for a k n :: nat
  by (auto simp: mod_if)

lemma cdist_add: "a < n \<Longrightarrow> k < n \<Longrightarrow> cdist n a ((a + k) mod n) = k" for a n k :: nat
  by (auto simp: add_mod_cases cdist_cases)

lemma add_cdist: "a < n \<Longrightarrow> b < n \<Longrightarrow> (a + cdist n a b) mod n = b"
  by (auto simp: cdist_cases mod_if)

lemma cdist_advance:
  "a < n \<Longrightarrow> b < n \<Longrightarrow> k \<le> cdist n a b \<Longrightarrow> cdist n ((a + k) mod n) b = cdist n a b - k"
  using cdist_less [of n a b] by (auto simp: cdist_cases add_mod_cases split: if_splits)

lemma cdist_extend:
  assumes "a < n" "b < n" "cdist n a b + k < n"
  shows "cdist n a ((b + k) mod n) = cdist n a b + k"
proof -
  have "k \<le> n" using assms by linarith
  then show ?thesis
    using assms by (auto simp: cdist_cases add_mod_cases split: if_splits)
qed

section \<open>Parts of a circular array\<close>

definition circ_slice :: "'a list \<Rightarrow> nat \<Rightarrow> nat \<Rightarrow> 'a list" where
  "circ_slice xs c k = map (\<lambda>i. xs ! ((c + i) mod length xs)) [0..<k]"

definition circ_store :: "'a list \<Rightarrow> nat \<Rightarrow> 'a list \<Rightarrow> 'a list" where
  "circ_store xs p ws =
     map (\<lambda>j. let d = cdist (length xs) p j in if d < length ws then ws ! d else xs ! j)
       [0..<length xs]"

lemma length_circ_slice [simp]: "length (circ_slice xs c k) = k"
  by (simp add: circ_slice_def)

lemma length_circ_store [simp]: "length (circ_store xs p ws) = length xs"
  by (simp add: circ_store_def)

lemma nth_circ_slice [simp]: "i < k \<Longrightarrow> circ_slice xs c k ! i = xs ! ((c + i) mod length xs)"
  by (simp add: circ_slice_def)

lemma nth_circ_store:
  "j < length xs \<Longrightarrow> circ_store xs p ws ! j =
     (if cdist (length xs) p j < length ws then ws ! cdist (length xs) p j else xs ! j)"
  by (simp add: circ_store_def Let_def)

lemma circ_slice_0 [simp]: "circ_slice xs c 0 = []"
  by (simp add: circ_slice_def)

lemma drop_circ_slice: "drop j (circ_slice xs c k) = circ_slice xs ((c + j) mod length xs) (k - j)"
  by (rule nth_equalityI) (simp_all add: mod_add_left_eq add.assoc)

lemma take_circ_slice: "take j (circ_slice xs c k) = circ_slice xs c (min j k)"
  by (rule nth_equalityI) simp_all

lemma circ_slice_store:
  assumes "c < length xs" "k + length ws \<le> length xs"
  shows "circ_slice (circ_store xs ((c + k) mod length xs) ws) c (k + length ws) = circ_slice xs c k @ ws"
proof (rule nth_equalityI)
  fix i
  assume "i < length (circ_slice (circ_store xs ((c + k) mod length xs) ws) c (k + length ws))"
  then have i: "i < k + length ws" "i < length xs" using assms by simp_all
  let ?n = "length xs" and ?j = "(c + i) mod length xs"
  have n: "0 < ?n" using assms by linarith
  have "cdist ?n ((c + k) mod ?n) ?j = (if k \<le> i then i - k else i + ?n - k)"
  proof -
    have "k \<le> ?n" using assms by simp
    then show ?thesis
      using assms(1) i n by (auto simp: cdist_cases add_mod_cases)
  qed
  then show "circ_slice (circ_store xs ((c + k) mod ?n) ws) c (k + length ws) ! i
      = (circ_slice xs c k @ ws) ! i"
    using i n assms by (auto simp: nth_circ_store nth_append)
qed simp

text \<open>Storing in two pieces, up to the end of the array and then from its start.\<close>

lemma circ_store_contiguous:
  assumes "p + length ws \<le> length xs" "p < length xs"
  shows "circ_store xs p ws = take p xs @ ws @ drop (p + length ws) xs"
proof (rule nth_equalityI)
  fix j
  assume "j < length (circ_store xs p ws)"
  then have j: "j < length xs" by simp
  then show "circ_store xs p ws ! j = (take p xs @ ws @ drop (p + length ws) xs) ! j"
    using assms by (auto simp: nth_circ_store cdist_cases nth_append min_def)
qed (use assms in simp)

lemma circ_store_wrapped:
  assumes "p < length xs" "length xs \<le> p + length ws" "length ws \<le> length xs"
  shows "circ_store xs p ws =
     (let f = length xs - p; ys = take p xs @ take f ws in
      drop f ws @ drop (length ws - f) ys)"
proof (rule nth_equalityI)
  fix j
  assume "j < length (circ_store xs p ws)"
  then have j: "j < length xs" by simp
  then show "circ_store xs p ws ! j =
      (let f = length xs - p; ys = take p xs @ take f ws in
       drop f ws @ drop (length ws - f) ys) ! j"
    using assms by (auto simp: nth_circ_store cdist_cases nth_append Let_def min_def
        intro!: arg_cong2 [where f = nth])
qed (use assms in \<open>simp add: Let_def\<close>)

lemma circ_store_single:
  assumes "p < length xs"
  shows "circ_store xs p [w] = xs[p := w]"
proof (rule nth_equalityI)
  fix j
  assume "j < length (circ_store xs p [w])"
  then have "j < length xs" by simp
  then show "circ_store xs p [w] ! j = xs[p := w] ! j"
    using assms by (auto simp: nth_circ_store cdist_cases nth_list_update)
qed simp

lemma circ_slice_contiguous: "c + k \<le> length xs \<Longrightarrow> circ_slice xs c k = take k (drop c xs)"
  by (rule nth_equalityI) auto

end
