(* ===== verification/Ring.thy ===== *)
theory Ring
  imports Buf "HOL-Library.Signed_Division"
begin

text \<open>
  Event rings and interruption rings, \<^verbatim>\<open>llvm/ngrt/ring.h\<close> and \<^verbatim>\<open>llvm/ngrt/ring.c\<close>. A pointer
  into \<open>r_items\<close> or \<open>ir_items\<close> is its index. The rings live in a store and refer to each other
  by their place in it. What the consumer (the serialization thread) does while a producer runs
  is part of the producer's environment: the number of items it has consumed by each of the
  producer's loads of the consumer pointer.
\<close>

section \<open>Data\<close>

datatype rvp_ring_state = RVP_RING_S_INUSE | RVP_RING_S_CLEAN | RVP_RING_S_DIRTY

type_synonym rid = nat

record rvp_ring_stats =
  rs_ring_sleeps :: u64
  rs_ring_spins :: u64
  rs_iring_spins :: u64

record rvp_lastctx =
  lc_tid :: u32
  lc_idepth :: u32

record rvp_interruption =
  it_interruptor :: rid
  it_interrupted_idx :: int
  it_interruptor_sidx :: int
  it_interruptor_eidx :: int

record rvp_iring =
  ir_producer :: nat
  ir_consumer :: nat
  ir_items :: "rvp_interruption list"

record rvp_ring =
  r_producer :: nat
  r_consumer :: nat
  r_last :: nat
  r_items :: "u32 list"
  r_lastpc :: u64
  r_lgen :: u64
  r_next :: "rid option"
  r_state :: rvp_ring_state
  r_tid :: u32
  r_idepth :: u32
  r_iring :: rvp_iring
  r_sigdepth :: "u64 \<times> u32"
  r_stats :: rvp_ring_stats

section \<open>Initialisation\<close>

definition rvp_iring_init :: "rvp_iring \<Rightarrow> rvp_iring" where
  "rvp_iring_init ir = ir\<lparr> ir_producer := 0, ir_consumer := 0 \<rparr>"

definition rvp_ring_init :: "rvp_ring \<Rightarrow> u32 list \<Rightarrow> nat \<Rightarrow> rvp_ring" where
  "rvp_ring_init r items nitems =
     r\<lparr> r_producer := 0, r_consumer := 0, r_items := items, r_last := nitems - 1,
        r_state := RVP_RING_S_INUSE, r_iring := rvp_iring_init (r_iring r) \<rparr>"

text \<open>\<open>calloc\<close> succeeds or not; 12 is \<open>ENOMEM\<close>.\<close>

definition rvp_ring_stdinit :: "nat \<Rightarrow> bool \<Rightarrow> rvp_ring \<Rightarrow> (int \<times> rvp_ring) cres" where
  "rvp_ring_stdinit pgsz calloc_ok r =
     cbind (cassert (pgsz \<noteq> 0)) (\<lambda>_.
       let items_per_ring = pgsz div 4 in
       if \<not> calloc_ok then Inr (12, r)
       else Inr (0, rvp_ring_init r (replicate items_per_ring 0) items_per_ring))"

section \<open>Occupancy\<close>

definition rvp_iring_nfull :: "rvp_iring \<Rightarrow> int" where
  "rvp_iring_nfull ir =
     (if ir_producer ir \<ge> ir_consumer ir then int (ir_producer ir) - int (ir_consumer ir)
      else int (length (ir_items ir)) - (int (ir_consumer ir) - int (ir_producer ir)))"

definition rvp_iring_capacity :: "rvp_iring \<Rightarrow> int" where
  "rvp_iring_capacity ir = int (length (ir_items ir)) - 1"

definition rvp_iring_nempty :: "rvp_iring \<Rightarrow> int" where
  "rvp_iring_nempty ir = rvp_iring_capacity ir - rvp_iring_nfull ir"

definition rvp_ring_nfull :: "rvp_ring \<Rightarrow> int" where
  "rvp_ring_nfull r =
     (if r_producer r \<ge> r_consumer r then int (r_producer r) - int (r_consumer r)
      else int (r_last r) + 1 - (int (r_consumer r) - int (r_producer r)))"

definition rvp_ring_capacity :: "rvp_ring \<Rightarrow> int" where
  "rvp_ring_capacity r = int (r_last r)"

definition rvp_ring_nempty :: "rvp_ring \<Rightarrow> int" where
  "rvp_ring_nempty r = rvp_ring_capacity r - rvp_ring_nfull r"

definition rvp_ring_is_dirty :: "rvp_ring \<Rightarrow> bool" where
  "rvp_ring_is_dirty r \<longleftrightarrow> rvp_ring_nfull r \<noteq> 0 \<or> rvp_iring_nfull (r_iring r) \<noteq> 0"

definition rvp_ring_consumer_index_advanced_by :: "rvp_ring \<Rightarrow> int \<Rightarrow> int cres" where
  "rvp_ring_consumer_index_advanced_by r nitems =
     cbind (cassert (nitems < rvp_ring_nfull r)) (\<lambda>_.
       Inr (if int (r_consumer r) + nitems \<le> int (r_last r) then int (r_consumer r) + nitems
            else int (r_consumer r) + (nitems - (int (r_last r) + 1))))"

section \<open>The producer's environment\<close>

datatype wake = WakeTransmitter | WakeRelay

text \<open>
  \<open>e_obs\<close> lists how many more items the consumer has taken at each of the coming loads of
  \<open>r_consumer\<close>; \<open>e_interf\<close> by how much other threads have raised the global generation at each
  of the coming accesses to it; \<open>e_iobs\<close> is like \<open>e_obs\<close> for the interruption ring, at the loads
  of the wait loop of \<open>rvp_ring_put_interruption\<close>. When a list is exhausted, the other threads rest.
\<close>

record rvp_env =
  e_ring :: rvp_ring
  e_ggen :: u64
  e_interf :: "u64 list"
  e_consistent :: bool
  e_log2_nthreads :: nat
  e_wakes :: "wake list"
  e_obs :: "nat list"
  e_iobs :: "nat list"

text \<open>The consumer takes \<open>k\<close> items, or as many as there are.\<close>

definition ring_consume :: "nat \<Rightarrow> rvp_ring \<Rightarrow> rvp_ring" where
  "ring_consume k r =
     r\<lparr> r_consumer := (r_consumer r + min k (nat (rvp_ring_nfull r))) mod (r_last r + 1) \<rparr>"

definition load_consumer :: "rvp_env \<Rightarrow> rvp_env" where
  "load_consumer e = (case e_obs e of [] \<Rightarrow> e
     | k # ks \<Rightarrow> e\<lparr> e_ring := ring_consume k (e_ring e), e_obs := ks \<rparr>)"

definition ggen_interference :: "rvp_env \<Rightarrow> rvp_env" where
  "ggen_interference e = (case e_interf e of [] \<Rightarrow> e
     | d # ds \<Rightarrow> e\<lparr> e_ggen := e_ggen e + d, e_interf := ds \<rparr>)"

section \<open>Generations\<close>

definition rvp_increase_ggen :: "rvp_env \<Rightarrow> rvp_env" where
  "rvp_increase_ggen e = (let e = ggen_interference e in e\<lparr> e_ggen := e_ggen e + 1 \<rparr>)"

definition rvp_ggen_before_store :: "rvp_env \<Rightarrow> u64 \<times> rvp_env" where
  "rvp_ggen_before_store e =
     (let e = ggen_interference e in
      if e_consistent e then (e_ggen e, e\<lparr> e_ggen := e_ggen e + 1 \<rparr>) else (e_ggen e, e))"

definition rvp_ggen_after_load :: "rvp_env \<Rightarrow> u64 \<times> rvp_env" where
  "rvp_ggen_after_load e =
     (let e = ggen_interference e in
      if e_consistent e then (e_ggen e, e\<lparr> e_ggen := e_ggen e + 1 \<rparr>) else (e_ggen e, e))"

text \<open>The result holds the buffer and the new value of \<open>*lgenp\<close>.\<close>

definition rvp_buf_trace_cog :: "u64 \<Rightarrow> rvp_buf \<Rightarrow> u64 \<Rightarrow> u64 \<Rightarrow> (rvp_buf \<times> u64) cres" where
  "rvp_buf_trace_cog base b lgen gen =
     (if lgen < gen then cbind (rvp_buf_put_cog base b gen) (\<lambda>b. Inr (b, gen))
      else Inr (b, lgen))"

section \<open>Waiting for room\<close>

definition rvp_ring_request_service :: "rvp_env \<Rightarrow> rvp_env" where
  "rvp_ring_request_service e =
     (if r_idepth (e_ring e) = 0 then e\<lparr> e_wakes := e_wakes e @ [WakeTransmitter] \<rparr>
      else e\<lparr> e_wakes := e_wakes e @ [WakeRelay] \<rparr>)"

definition count_wait :: "int \<Rightarrow> rvp_ring \<Rightarrow> rvp_ring" where
  "count_wait i r =
     (let st = r_stats r in
      if r_idepth r = 0 then r\<lparr> r_stats := st\<lparr> rs_ring_sleeps := rs_ring_sleeps st + 1 \<rparr> \<rparr>
      else r\<lparr> r_stats := st\<lparr> rs_ring_spins := rs_ring_spins st + of_int i \<rparr> \<rparr>)"

fun rvp_ring_wait_for_nempty ::
    "rvp_ring \<Rightarrow> int \<Rightarrow> int \<Rightarrow> nat list \<Rightarrow> (rvp_ring \<times> nat list) cres" where
    "rvp_ring_wait_for_nempty r nempty i [] =
       (if rvp_ring_nempty r < nempty then Inl Waiting else Inr (r, []))"
  | "rvp_ring_wait_for_nempty r nempty i (k # ks) =
       (let r = ring_consume k r in
        if rvp_ring_nempty r < nempty
        then rvp_ring_wait_for_nempty (count_wait i r) nempty (min 16384 (i + 1)) ks
        else Inr (r, ks))"

definition rvp_ring_await_nempty :: "rvp_env \<Rightarrow> int \<Rightarrow> rvp_env cres" where
  "rvp_ring_await_nempty e nempty =
     (let e = rvp_ring_request_service e in
      cbind (rvp_ring_wait_for_nempty (e_ring e) nempty 32 (e_obs e)) (\<lambda>(r, ks).
        Inr (e\<lparr> e_ring := r, e_obs := ks \<rparr>)))"

lemma wait_for_nempty_obs:
  "rvp_ring_wait_for_nempty r n i ks = Inr (r', ks') \<Longrightarrow>
   length ks' \<le> length ks \<and> (ks \<noteq> [] \<longrightarrow> length ks' < length ks)"
  by (induction r n i ks rule: rvp_ring_wait_for_nempty.induct)
     (auto simp: Let_def split: if_splits)

text \<open>\<open>while (rvp_ring_nempty(r) < nitems) rvp_ring_await_nempty(r, nitems);\<close>\<close>

function put_wait :: "rvp_env \<Rightarrow> int \<Rightarrow> rvp_env cres" where
  "put_wait e nitems =
     (let e' = load_consumer e in
      if rvp_ring_nempty (e_ring e') < nitems
      then (if e_obs e' = [] then Inl Waiting
            else case rvp_ring_await_nempty e' nitems of
                   Inl x \<Rightarrow> Inl x
                 | Inr e'' \<Rightarrow> put_wait e'' nitems)
      else Inr e')"
  by auto
termination
proof (relation "measure (\<lambda>(e, _). length (e_obs e))", goal_cases)
  case (2 e nitems e' e'')
  have "length (e_obs e') \<le> length (e_obs e)"
    by (auto simp: 2(1) load_consumer_def split: list.splits)
  moreover have "e_obs (rvp_ring_request_service e') = e_obs e'"
    by (simp add: rvp_ring_request_service_def)
  then have "length (e_obs e'') < length (e_obs e')"
    using 2(3,4)
    by (auto simp: rvp_ring_await_nempty_def Let_def dest: wait_for_nempty_obs)
  ultimately show ?case by simp
qed auto

declare put_wait.simps [simp del]

section \<open>Putting words on an event ring\<close>

text \<open>\<open>memcpy\<close> of \<open>n\<close> words from an array into an array at \<open>off\<close>.\<close>

definition memcpy_words :: "'a list \<Rightarrow> int \<Rightarrow> 'a list \<Rightarrow> int \<Rightarrow> 'a list cres" where
  "memcpy_words dst off src n =
     (if n < 0 \<or> off < 0 \<or> int (length dst) < off + n \<or> int (length src) < n then Inl Undefined
      else Inr (take (nat off) dst @ take (nat n) src @ drop (nat (off + n)) dst))"

definition put_next :: "rvp_ring \<Rightarrow> int \<Rightarrow> int cres" where
  "put_next r nitems =
     (let prev = int (r_producer r) in
      if prev + nitems \<le> int (r_last r) then Inr (prev + nitems)
      else let ringsz = int (r_last r) + 1 in
           cbind (cassert (nitems < ringsz)) (\<lambda>_. Inr (prev + (nitems - ringsz))))"

definition put_copy :: "rvp_ring \<Rightarrow> u32 list \<Rightarrow> int \<Rightarrow> int \<Rightarrow> rvp_ring cres" where
  "put_copy r item nitems nxt =
     (let prev = int (r_producer r) in
      cbind
        (if prev < nxt then memcpy_words (r_items r) prev item nitems
         else let nfirst = int (r_last r) - prev + 1; nlast = nxt in
              cbind (memcpy_words (r_items r) prev item nfirst) (\<lambda>items.
                memcpy_words items 0 (drop (nat nfirst) item) nlast))
        (\<lambda>items. Inr (r\<lparr> r_items := items, r_producer := nat nxt \<rparr>)))"

definition put_milestones :: "rvp_env \<Rightarrow> int \<Rightarrow> int \<Rightarrow> int \<Rightarrow> rvp_env cres" where
  "put_milestones e prev nxt nitems =
     (let nslots = rvp_ring_capacity (e_ring e) + 1 in
      if 32 \<le> 1 + e_log2_nthreads e then Inl Undefined
      else let ggen_threshold = nslots div 2 ^ (1 + e_log2_nthreads e);
               service_threshold = nslots div 2;
               e = load_consumer e;
               nfull = rvp_ring_nfull (e_ring e);
               e = (if nitems \<ge> ggen_threshold \<or> prev div ggen_threshold < nxt div ggen_threshold
                    then rvp_increase_ggen e else e)
           in if service_threshold = 0 then Inl Undefined
              else Inr (if (nfull - nitems) sdiv service_threshold < nfull sdiv service_threshold
                        then rvp_ring_request_service e else e))"

definition rvp_ring_put_multiple :: "rvp_env \<Rightarrow> u32 list \<Rightarrow> int \<Rightarrow> rvp_env cres" where
  "rvp_ring_put_multiple e item nitems =
     (let prev = int (r_producer (e_ring e)) in
      cbind (put_next (e_ring e) nitems) (\<lambda>nxt.
      cbind (put_wait e nitems) (\<lambda>e.
      cbind (put_copy (e_ring e) item nitems nxt) (\<lambda>r.
      put_milestones (e\<lparr> e_ring := r \<rparr>) prev nxt nitems))))"

definition rvp_ring_put_buf :: "rvp_env \<Rightarrow> rvp_buf \<Rightarrow> rvp_env cres" where
  "rvp_ring_put_buf e b = rvp_ring_put_multiple e (b_word b) (int (b_nwords b))"

section \<open>Interruption rings\<close>

definition rvp_iring_last :: "rvp_iring \<Rightarrow> nat" where
  "rvp_iring_last ir = length (ir_items ir) - 1"

definition rvp_ring_next_interruption :: "rvp_ring \<Rightarrow> nat \<Rightarrow> nat option" where
  "rvp_ring_next_interruption r prev =
     (let ir = r_iring r; nxt = (if prev = rvp_iring_last ir then 0 else prev + 1) in
      if nxt = ir_producer ir then None else Some nxt)"

definition rvp_ring_first_interruption :: "rvp_ring \<Rightarrow> nat option" where
  "rvp_ring_first_interruption r =
     (let ir = r_iring r in
      if ir_consumer ir = ir_producer ir then None else Some (ir_consumer ir))"

definition rvp_interruption_unfinished :: "rvp_interruption \<Rightarrow> bool" where
  "rvp_interruption_unfinished it \<longleftrightarrow> it_interruptor_eidx it < 0"

definition rvp_interruption_get_end :: "rvp_interruption \<Rightarrow> rvp_ring \<Rightarrow> int \<times> bool" where
  "rvp_interruption_get_end it r =
     (let pidx = int (r_producer r); eidx = it_interruptor_eidx it in
      (if eidx < 0 then pidx else eidx, eidx < 0))"

definition rvp_interruption_close :: "rvp_interruption \<Rightarrow> int \<Rightarrow> rvp_interruption" where
  "rvp_interruption_close it eidx = it\<lparr> it_interruptor_eidx := eidx \<rparr>"

definition iring_consume :: "nat \<Rightarrow> rvp_iring \<Rightarrow> rvp_iring" where
  "iring_consume k ir =
     ir\<lparr> ir_consumer := (ir_consumer ir + min k (nat (rvp_iring_nfull ir))) mod length (ir_items ir) \<rparr>"

fun rvp_iring_wait_for_one_empty ::
    "rvp_ring \<Rightarrow> int \<Rightarrow> nat list \<Rightarrow> (rvp_ring \<times> nat list) cres" where
    "rvp_iring_wait_for_one_empty r i [] =
       (if rvp_iring_nempty (r_iring r) < 1 then Inl Waiting else Inr (r, []))"
  | "rvp_iring_wait_for_one_empty r i (k # ks) =
       (let r = r\<lparr> r_iring := iring_consume k (r_iring r) \<rparr>; st = r_stats r in
        if rvp_iring_nempty (r_iring r) < 1
        then rvp_iring_wait_for_one_empty
               (r\<lparr> r_stats := st\<lparr> rs_iring_spins := rs_iring_spins st + of_int i \<rparr> \<rparr>)
               (min 16384 (i + 1)) ks
        else Inr (r, ks))"

definition put_interruption_store :: "rvp_ring \<Rightarrow> rid \<Rightarrow> int \<Rightarrow> rvp_ring \<times> nat" where
  "put_interruption_store r interruptor sidx =
     (let ir = r_iring r; prev = ir_producer ir;
          nxt = (if prev = rvp_iring_last ir then 0 else prev + 1);
          it = \<lparr> it_interruptor = interruptor, it_interrupted_idx = int (r_producer r),
                 it_interruptor_sidx = sidx, it_interruptor_eidx = -1 \<rparr>
      in (r\<lparr> r_iring := ir\<lparr> ir_items := (ir_items ir)[prev := it], ir_producer := nxt \<rparr> \<rparr>, prev))"

definition rvp_iring_await_one_empty :: "rvp_env \<Rightarrow> rvp_env cres" where
  "rvp_iring_await_one_empty e =
     (let e = rvp_ring_request_service e in
      cbind (rvp_iring_wait_for_one_empty (e_ring e) 32 (e_iobs e)) (\<lambda>(r, ks).
        Inr (e\<lparr> e_ring := r, e_iobs := ks \<rparr>)))"

text \<open>
  One call of \<open>rvp_iring_await_one_empty\<close> ends the wait loop: only this thread fills the
  interruption ring. The result holds the place of the new interruption.
\<close>

definition rvp_ring_put_interruption :: "rvp_env \<Rightarrow> rid \<Rightarrow> int \<Rightarrow> (rvp_env \<times> nat) cres" where
  "rvp_ring_put_interruption e interruptor sidx =
     cbind
       (if rvp_iring_nempty (r_iring (e_ring e)) < 1 then rvp_iring_await_one_empty e else Inr e)
       (\<lambda>e. let (r, prev) = put_interruption_store (e_ring e) interruptor sidx in
            Inr (e\<lparr> e_ring := r \<rparr>, prev))"

end
