(* ===== verification/Ring_Laws.thy ===== *)
theory Ring_Laws
  imports Ring Circular
begin

text \<open>
  The rings are bounded FIFO queues: the invariant of a ring, the sequence of words (or of
  interruptions) it holds, and what putting and consuming do to that sequence. The contract of
  a ring is the locale \<open>fifo_ring\<close>; event rings and interruption rings are interpretations.
\<close>

section \<open>The contract\<close>

fun put_all :: "('s \<Rightarrow> 'a list \<Rightarrow> 's cres) \<Rightarrow> 's \<Rightarrow> 'a list list \<Rightarrow> 's cres" where
    "put_all put s [] = Inr s"
  | "put_all put s (ws # wss) = cbind (put s ws) (\<lambda>s. put_all put s wss)"

lemma drop_drop_append: "\<exists>m\<le>k + j. drop j (drop k xs @ ys) = drop m (xs @ ys)"
  by (rule exI [of _ "min k (length xs) + j"]) (simp add: min_def add.commute)

text \<open>\<open>budget\<close> is how much the consumer has still to take: a put loses nothing else.\<close>

locale fifo_ring =
  fixes ok :: "'s \<Rightarrow> bool"
    and contents :: "'s \<Rightarrow> 'a list"
    and cap :: "'s \<Rightarrow> nat"
    and budget :: "'s \<Rightarrow> nat"
    and put :: "'s \<Rightarrow> 'a list \<Rightarrow> 's cres"
  assumes put_safe: "ok s \<Longrightarrow> ws \<noteq> [] \<Longrightarrow> length ws \<le> cap s \<Longrightarrow> put s ws = Inr s' \<Longrightarrow>
      ok s' \<and> cap s' = cap s \<and>
      (\<exists>k. contents s' = drop k (contents s @ ws) \<and> k + budget s' \<le> budget s)"
    and put_room: "ok s \<Longrightarrow> ws \<noteq> [] \<Longrightarrow> length (contents s) + length ws \<le> cap s \<Longrightarrow>
      \<exists>s'. put s ws = Inr s'"
    and bounded: "ok s \<Longrightarrow> length (contents s) \<le> cap s"
begin

lemma put_all_suffix:
  "ok s \<Longrightarrow> \<forall>ws\<in>set wss. ws \<noteq> [] \<and> length ws \<le> cap s \<Longrightarrow> put_all put s wss = Inr s' \<Longrightarrow>
   ok s' \<and> cap s' = cap s \<and>
   (\<exists>k. contents s' = drop k (contents s @ concat wss) \<and> k + budget s' \<le> budget s)"
proof (induction wss arbitrary: s)
  case Nil
  then show ?case by (auto intro: exI [of _ 0])
next
  case (Cons ws wss)
  then obtain t where t: "put s ws = Inr t" "put_all put t wss = Inr s'" by auto
  then obtain k where k: "ok t" "cap t = cap s" "contents t = drop k (contents s @ ws)" "k + budget t \<le> budget s"
    using put_safe [of s ws t] Cons.prems by auto
  then obtain j where "ok s'" "cap s' = cap s" "contents s' = drop j (contents t @ concat wss)"
      "j + budget s' \<le> budget t"
    using Cons.IH [of t] Cons.prems t by auto
  moreover obtain m where "m \<le> k + j"
      "drop j (drop k (contents s @ ws) @ concat wss) = drop m ((contents s @ ws) @ concat wss)"
    using drop_drop_append by blast
  ultimately show ?case using k(4) unfolding k(3) by (intro conjI exI [of _ m]) simp_all
qed

lemma put_all_room:
  "ok s \<Longrightarrow> \<forall>ws\<in>set wss. ws \<noteq> [] \<Longrightarrow> length (contents s) + length (concat wss) \<le> cap s \<Longrightarrow>
   \<exists>s'. put_all put s wss = Inr s'"
proof (induction wss arbitrary: s)
  case (Cons ws wss)
  then obtain t where t: "put s ws = Inr t" using put_room [of s ws] by auto
  then have "ok t" "cap t = cap s" "length (contents t) \<le> length (contents s) + length ws"
    using put_safe [of s ws t] Cons.prems by auto
  then show ?case using Cons.IH [of t] Cons.prems t by auto
qed auto

end

section \<open>Event rings\<close>

definition ring_ok :: "rvp_ring \<Rightarrow> bool" where
  "ring_ok r \<longleftrightarrow> length (r_items r) = Suc (r_last r) \<and> 1 \<le> r_last r \<and>
     r_producer r \<le> r_last r \<and> r_consumer r \<le> r_last r"

definition ring_contents :: "rvp_ring \<Rightarrow> u32 list" where
  "ring_contents r = circ_slice (r_items r) (r_consumer r) (nat (rvp_ring_nfull r))"

definition ring_push :: "rvp_ring \<Rightarrow> u32 list \<Rightarrow> rvp_ring" where
  "ring_push r ws = r\<lparr> r_items := circ_store (r_items r) (r_producer r) ws,
     r_producer := (r_producer r + length ws) mod Suc (r_last r) \<rparr>"

lemma ring_nfull_eq:
  "ring_ok r \<Longrightarrow> rvp_ring_nfull r = int (cdist (Suc (r_last r)) (r_consumer r) (r_producer r))"
  by (auto simp: rvp_ring_nfull_def ring_ok_def cdist_cases of_nat_diff)

lemma length_ring_contents [simp]: "length (ring_contents r) = nat (rvp_ring_nfull r)"
  by (simp add: ring_contents_def)

lemma nfull_bounds:
  "ring_ok r \<Longrightarrow> 0 \<le> rvp_ring_nfull r" "ring_ok r \<Longrightarrow> rvp_ring_nfull r \<le> rvp_ring_capacity r"
  using cdist_less [of "Suc (r_last r)" "r_consumer r" "r_producer r"]
  by (simp_all add: ring_nfull_eq rvp_ring_capacity_def del: cdist_less)

lemma ring_init_ok: "2 \<le> n \<Longrightarrow> length items = n \<Longrightarrow> ring_ok (rvp_ring_init r items n)"
  by (auto simp: ring_ok_def rvp_ring_init_def)

lemma ring_init_contents: "ring_contents (rvp_ring_init r items n) = []"
  by (simp add: ring_contents_def rvp_ring_init_def rvp_ring_nfull_def)

lemma ring_consume_ok [simp]: "ring_ok r \<Longrightarrow> ring_ok (ring_consume k r)"
  by (simp add: ring_ok_def ring_consume_def less_Suc_eq_le [symmetric])

lemma ring_consume_sel [simp]:
  "r_producer (ring_consume k r) = r_producer r" "r_last (ring_consume k r) = r_last r"
  "r_items (ring_consume k r) = r_items r" "r_iring (ring_consume k r) = r_iring r"
  "r_idepth (ring_consume k r) = r_idepth r" "r_lgen (ring_consume k r) = r_lgen r"
  "r_lastpc (ring_consume k r) = r_lastpc r" "r_tid (ring_consume k r) = r_tid r"
  "r_stats (ring_consume k r) = r_stats r"
  by (simp_all add: ring_consume_def)

lemma nfull_consume:
  assumes "ring_ok r"
  shows "rvp_ring_nfull (ring_consume k r) = rvp_ring_nfull r - int (min k (nat (rvp_ring_nfull r)))"
proof -
  have "rvp_ring_nfull (ring_consume k r) =
      int (cdist (Suc (r_last r)) ((r_consumer r + min k (nat (rvp_ring_nfull r))) mod Suc (r_last r)) (r_producer r))"
    using assms by (simp add: ring_nfull_eq) (simp add: ring_consume_def ring_nfull_eq)
  then show ?thesis
    using assms cdist_advance [of "r_consumer r" "Suc (r_last r)" "r_producer r" "min k (nat (rvp_ring_nfull r))"]
    by (simp add: ring_nfull_eq ring_ok_def of_nat_diff)
qed

lemma contents_consume: "ring_ok r \<Longrightarrow> ring_contents (ring_consume k r) = drop k (ring_contents r)"
proof -
  assume ok: "ring_ok r"
  let ?m = "min k (nat (rvp_ring_nfull r))"
  have "ring_contents (ring_consume k r) = drop ?m (ring_contents r)"
    using ok nfull_bounds [OF ok]
    by (simp add: ring_contents_def drop_circ_slice nfull_consume nat_diff_distrib)
       (simp add: ring_consume_def ring_ok_def)
  also have "\<dots> = drop k (ring_contents r)"
    by (cases "k \<le> nat (rvp_ring_nfull r)") simp_all
  finally show ?thesis .
qed

lemma ring_push_ok [simp]: "ring_ok r \<Longrightarrow> ring_ok (ring_push r ws)"
  by (simp add: ring_ok_def ring_push_def less_Suc_eq_le [symmetric])

lemma ring_push_sel [simp]:
  "r_consumer (ring_push r ws) = r_consumer r" "r_last (ring_push r ws) = r_last r"
  "r_idepth (ring_push r ws) = r_idepth r" "r_iring (ring_push r ws) = r_iring r"
  "r_lgen (ring_push r ws) = r_lgen r" "r_lastpc (ring_push r ws) = r_lastpc r"
  "r_tid (ring_push r ws) = r_tid r"
  by (simp_all add: ring_push_def)

lemma nfull_push:
  assumes "ring_ok r" "rvp_ring_nfull r + int (length ws) \<le> rvp_ring_capacity r"
  shows "rvp_ring_nfull (ring_push r ws) = rvp_ring_nfull r + int (length ws)"
proof -
  have "cdist (Suc (r_last r)) (r_consumer r) (r_producer r) + length ws < Suc (r_last r)"
    using assms by (simp add: ring_nfull_eq rvp_ring_capacity_def)
  then show ?thesis
    using assms(1) cdist_extend [of "r_consumer r" "Suc (r_last r)" "r_producer r" "length ws"]
    by (simp add: ring_nfull_eq) (simp add: ring_push_def ring_ok_def)
qed

lemma contents_push:
  assumes "ring_ok r" "rvp_ring_nfull r + int (length ws) \<le> rvp_ring_capacity r"
  shows "ring_contents (ring_push r ws) = ring_contents r @ ws"
proof -
  let ?n = "Suc (r_last r)" and ?k = "nat (rvp_ring_nfull r)"
  have "r_producer r = (r_consumer r + ?k) mod ?n"
    using assms(1) add_cdist [of "r_consumer r" ?n "r_producer r"]
    by (simp add: ring_nfull_eq) (simp add: ring_ok_def)
  moreover have "?k + length ws \<le> ?n"
    using assms(2) nfull_bounds [OF assms(1)] by (simp add: rvp_ring_capacity_def)
  ultimately show ?thesis
    using assms circ_slice_store [of "r_consumer r" "r_items r" ?k ws] nfull_push [OF assms] nfull_bounds [OF assms(1)]
    by (simp add: ring_contents_def nat_add_distrib) (simp add: ring_push_def ring_ok_def)
qed

lemma memcpy_nat:
  "off + n \<le> length dst \<Longrightarrow> n \<le> length src \<Longrightarrow>
   memcpy_words dst (int off) src (int n) = Inr (take off dst @ take n src @ drop (off + n) dst)"
  by (simp add: memcpy_words_def nat_int_add of_nat_add [symmetric] del: of_nat_add)

text \<open>The two branches of the copy in \<open>rvp_ring_put_multiple\<close> store the words in a circle.\<close>

lemma put_next_eq:
  assumes "ring_ok r" "0 \<le> n" "n \<le> rvp_ring_capacity r"
  shows "put_next r n = Inr (int ((r_producer r + nat n) mod Suc (r_last r)))"
  using assms
  by (auto simp: put_next_def ring_ok_def rvp_ring_capacity_def Let_def add_mod_cases of_nat_diff nat_le_iff)

lemma put_copy_push:
  assumes "ring_ok r" "ws \<noteq> []" "int (length ws) \<le> rvp_ring_capacity r"
    and "length ws \<le> length item" "take (length ws) item = ws"
  shows "put_copy r item (int (length ws)) (int ((r_producer r + length ws) mod Suc (r_last r)))
     = Inr (ring_push r ws)"
proof (cases "r_producer r + length ws \<le> r_last r")
  case True
  then show ?thesis
    using assms circ_store_contiguous [of "r_producer r" ws "r_items r"]
    by (simp add: put_copy_def memcpy_words_def ring_push_def ring_ok_def Let_def nat_int_add)
next
  case False
  let ?p = "r_producer r" and ?l = "r_last r"
  let ?f = "Suc ?l - ?p" and ?m = "?p + length ws - Suc ?l"
  have len: "length ws \<le> ?l" "?p \<le> ?l" "length (r_items r) = Suc ?l"
    using assms by (auto simp: ring_ok_def rvp_ring_capacity_def)
  have nxt: "(?p + length ws) mod Suc ?l = ?m"
    using False len by (simp add: add_mod_cases)
  have f: "int ?l - int ?p + 1 = int ?f" "length ws - ?f = ?m" "?f \<le> length ws"
    using False len by (simp_all add: of_nat_diff)
  have item: "take ?f item = take ?f ws" "take ?m (drop ?f item) = drop ?f ws"
    using assms(4,5) f by (metis min.absorb1 take_take, metis drop_take f(2))
  have store: "circ_store (r_items r) ?p ws = drop ?f ws @ drop ?m (take ?p (r_items r) @ take ?f ws)"
    using circ_store_wrapped [of ?p "r_items r" ws] False len f by (simp add: Let_def)
  have m1: "memcpy_words (r_items r) (int ?p) item (int ?f) = Inr (take ?p (r_items r) @ take ?f ws)"
    using len f item assms(4) memcpy_nat [of ?p ?f "r_items r" item] by simp
  have m2: "memcpy_words (take ?p (r_items r) @ take ?f ws) 0 (drop ?f item) (int ?m)
      = Inr (drop ?f ws @ drop ?m (take ?p (r_items r) @ take ?f ws))"
    using len f item assms(4) memcpy_nat [of 0 ?m "take ?p (r_items r) @ take ?f ws" "drop ?f item"]
    by auto
  have lt: "\<not> int ?p < int ?m" using False len by simp
  show ?thesis
    unfolding put_copy_def Let_def nxt f(1) if_not_P [OF lt] m1 cbind_simps nat_int m2 ring_push_def store
    by simp
qed

section \<open>Waiting\<close>

text \<open>\<open>r'\<close> is \<open>r\<close> after the consumer has taken some items; only the counters differ otherwise.\<close>

definition consumed_from :: "rvp_ring \<Rightarrow> rvp_ring \<Rightarrow> nat \<Rightarrow> bool" where
  "consumed_from r r' k \<longleftrightarrow> (\<exists>st. r' = (ring_consume k r)\<lparr> r_stats := st \<rparr>)"

lemma stats_update_simps [simp]:
  "rvp_ring_nfull (r\<lparr> r_stats := st \<rparr>) = rvp_ring_nfull r"
  "ring_contents (r\<lparr> r_stats := st \<rparr>) = ring_contents r"
  "ring_ok (r\<lparr> r_stats := st \<rparr>) = ring_ok r"
  "rvp_ring_capacity (r\<lparr> r_stats := st \<rparr>) = rvp_ring_capacity r"
  "ring_consume k (r\<lparr> r_stats := st \<rparr>) = (ring_consume k r)\<lparr> r_stats := st \<rparr>"
  by (simp_all add: rvp_ring_nfull_def ring_contents_def ring_ok_def rvp_ring_capacity_def ring_consume_def)

lemma count_wait_stats: "\<exists>st. count_wait i r = r\<lparr> r_stats := st \<rparr>"
  by (auto simp: count_wait_def Let_def)

lemma ring_consume_consume:
  assumes "ring_ok r"
  shows "ring_consume j (ring_consume k r) = ring_consume (k + j) r"
proof -
  have "min k m + min j (m - min k m) = min (k + j) m" for m :: nat
    by (auto simp: min_def)
  then show ?thesis
    using assms nfull_bounds [OF assms] nfull_consume [OF assms, of k]
    by (simp add: ring_consume_def nat_diff_distrib mod_add_left_eq add.assoc)
qed

lemma ring_consume_0 [simp]: "ring_ok r \<Longrightarrow> ring_consume 0 r = r"
  by (simp add: ring_consume_def ring_ok_def)

lemma consumed_from_self [simp]: "ring_ok r \<Longrightarrow> consumed_from r r 0"
  by (auto simp: consumed_from_def intro!: exI [of _ "r_stats r"])

lemma consumed_from_consume [simp]: "consumed_from r (ring_consume k r) k"
  by (auto simp: consumed_from_def intro!: exI [of _ "r_stats r"])

lemma consumed_from_trans:
  "ring_ok r \<Longrightarrow> consumed_from r r' k \<Longrightarrow> consumed_from r' r'' j \<Longrightarrow> consumed_from r r'' (k + j)"
  by (auto simp: consumed_from_def ring_consume_consume)

lemma consumed_from_count:
  "consumed_from r r' k \<Longrightarrow> consumed_from r (count_wait i r') k"
  using count_wait_stats [of i r'] by (auto simp: consumed_from_def)

lemma consumed_from_facts:
  assumes "consumed_from r r' k" "ring_ok r"
  shows "ring_ok r'" "ring_contents r' = drop k (ring_contents r)"
    "r_producer r' = r_producer r" "r_last r' = r_last r" "rvp_ring_capacity r' = rvp_ring_capacity r"
    "r_lastpc r' = r_lastpc r" "r_lgen r' = r_lgen r" "r_iring r' = r_iring r" "r_tid r' = r_tid r"
    "r_idepth r' = r_idepth r"
    "rvp_ring_nfull r' = rvp_ring_nfull r - int (min k (nat (rvp_ring_nfull r)))"
  using assms
  by (auto simp: consumed_from_def contents_consume nfull_consume rvp_ring_capacity_def)

lemma wait_for_nempty_safe:
  "ring_ok r \<Longrightarrow> rvp_ring_wait_for_nempty r n i ks = Inr (r', ks') \<Longrightarrow>
   \<exists>j. consumed_from r r' (sum_list (take j ks)) \<and> ks' = drop j ks \<and> n \<le> rvp_ring_nempty r'"
proof (induction r n i ks rule: rvp_ring_wait_for_nempty.induct)
  case (1 r n i)
  then show ?case by (auto split: if_splits)
next
  case (2 r n i k ks)
  let ?r = "ring_consume k r"
  show ?case
  proof (cases "rvp_ring_nempty ?r < n")
    case True
    have ok: "ring_ok (count_wait i ?r)"
      using 2(2) count_wait_stats [of i ?r] by auto
    with True 2 obtain j where j: "consumed_from (count_wait i ?r) r' (sum_list (take j ks))"
      "ks' = drop j ks" "n \<le> rvp_ring_nempty r'"
      by (auto simp: Let_def)
    have "consumed_from r (count_wait i ?r) k"
      by (rule consumed_from_count) simp
    from consumed_from_trans [OF 2(2) this j(1)] show ?thesis
      using j by (intro exI [of _ "Suc j"]) simp
  next
    case False
    with 2 show ?thesis by (intro exI [of _ 1]) (auto simp: Let_def)
  qed
qed

lemma wait_for_nempty_total:
  "ring_ok r \<Longrightarrow>
   (n \<le> rvp_ring_nempty (ring_consume (sum_list ks) r) \<longrightarrow>
      (\<exists>x. rvp_ring_wait_for_nempty r n i ks = Inr x)) \<and>
   (rvp_ring_nempty (ring_consume (sum_list ks) r) < n \<longrightarrow>
      rvp_ring_wait_for_nempty r n i ks = Inl Waiting)"
proof (induction r n i ks rule: rvp_ring_wait_for_nempty.induct)
  case (2 r n i k ks)
  have "ring_consume (sum_list (k # ks)) r = ring_consume (sum_list ks) (ring_consume k r)"
    using 2(2) by (simp add: ring_consume_consume)
  moreover obtain st where st: "count_wait i (ring_consume k r) = (ring_consume k r)\<lparr> r_stats := st \<rparr>"
    using count_wait_stats by blast
  moreover have "rvp_ring_nempty (ring_consume k r) \<le> rvp_ring_nempty (ring_consume (sum_list ks) (ring_consume k r))"
    using 2(2) by (simp add: rvp_ring_nempty_def nfull_consume rvp_ring_capacity_def)
  ultimately show ?case
    using 2 by (auto simp: Let_def rvp_ring_nempty_def)
qed auto

lemma sum_list_take_drop: "sum_list (take j ks) + sum_list (drop j ks) = sum_list (ks :: nat list)"
  using sum_list_append [of "take j ks" "drop j ks"] by simp

lemma await_safe:
  assumes "ring_ok (e_ring e)" "rvp_ring_await_nempty e n = Inr e'"
  shows "\<exists>k. consumed_from (e_ring e) (e_ring e') k \<and> k + sum_list (e_obs e') = sum_list (e_obs e)"
    "n \<le> rvp_ring_nempty (e_ring e')" "e_log2_nthreads e' = e_log2_nthreads e"
    "e_ggen e' = e_ggen e \<and> e_interf e' = e_interf e \<and> e_consistent e' = e_consistent e"
proof -
  let ?e = "rvp_ring_request_service e"
  have rs: "e_ring ?e = e_ring e" "e_obs ?e = e_obs e" "e_log2_nthreads ?e = e_log2_nthreads e"
    "e_ggen ?e = e_ggen e \<and> e_interf ?e = e_interf e \<and> e_consistent ?e = e_consistent e"
    by (simp_all add: rvp_ring_request_service_def)
  obtain r ks where w: "rvp_ring_wait_for_nempty (e_ring e) n 32 (e_obs e) = Inr (r, ks)"
    "e' = ?e\<lparr> e_ring := r, e_obs := ks \<rparr>"
    using assms(2) by (auto simp: rvp_ring_await_nempty_def Let_def rs)
  obtain j where j: "consumed_from (e_ring e) r (sum_list (take j (e_obs e)))" "ks = drop j (e_obs e)"
    "n \<le> rvp_ring_nempty r"
    using wait_for_nempty_safe [OF assms(1) w(1)] by blast
  show "\<exists>k. consumed_from (e_ring e) (e_ring e') k \<and> k + sum_list (e_obs e') = sum_list (e_obs e)"
    using j sum_list_take_drop by (auto simp: w(2))
qed (use assms(2) in \<open>auto simp: rvp_ring_await_nempty_def rvp_ring_request_service_def Let_def
      split: if_splits dest!: wait_for_nempty_safe [OF assms(1)]\<close>)

text \<open>The environment after a put differs from the one before in these respects only.\<close>

definition same_sequence :: "rvp_env \<Rightarrow> rvp_env \<Rightarrow> bool" where
  "same_sequence e e' \<longleftrightarrow>
     e_log2_nthreads e' = e_log2_nthreads e \<and> e_consistent e' = e_consistent e \<and>
     r_lastpc (e_ring e') = r_lastpc (e_ring e) \<and> r_lgen (e_ring e') = r_lgen (e_ring e) \<and>
     r_iring (e_ring e') = r_iring (e_ring e) \<and> r_last (e_ring e') = r_last (e_ring e) \<and>
     r_tid (e_ring e') = r_tid (e_ring e) \<and> r_idepth (e_ring e') = r_idepth (e_ring e)"

lemma load_consumer_simps [simp]:
  "e_log2_nthreads (load_consumer e) = e_log2_nthreads e"
  "e_ggen (load_consumer e) = e_ggen e" "e_interf (load_consumer e) = e_interf e"
  "e_consistent (load_consumer e) = e_consistent e"
  "e_obs (load_consumer e) = drop 1 (e_obs e)"
  by (auto simp: load_consumer_def split: list.splits)

lemma load_consumer_ring:
  "ring_ok (e_ring e) \<Longrightarrow> consumed_from (e_ring e) (e_ring (load_consumer e)) (sum_list (take 1 (e_obs e)))"
  by (auto simp: load_consumer_def split: list.splits)

lemma put_wait_room:
  "n \<le> rvp_ring_nempty (e_ring (load_consumer e)) \<Longrightarrow> put_wait e n = Inr (load_consumer e)"
  by (simp add: put_wait.simps [of e] Let_def)

lemma nempty_load:
  assumes "ring_ok (e_ring e)"
  shows "rvp_ring_nempty (e_ring e) \<le> rvp_ring_nempty (e_ring (load_consumer e))"
  using consumed_from_facts(5,11) [OF load_consumer_ring [OF assms] assms]
  by (simp add: rvp_ring_nempty_def)

lemma put_wait_safe:
  assumes "ring_ok (e_ring e)" "put_wait e n = Inr e'"
  shows "(\<exists>k. consumed_from (e_ring e) (e_ring e') k \<and> k + sum_list (e_obs e') = sum_list (e_obs e)) \<and> n \<le> rvp_ring_nempty (e_ring e') \<and>
    e_log2_nthreads e' = e_log2_nthreads e \<and> e_ggen e' = e_ggen e \<and> e_interf e' = e_interf e \<and>
    e_consistent e' = e_consistent e"
proof -
  let ?e = "load_consumer e"
  note l = load_consumer_ring [OF assms(1)]
  note ok = consumed_from_facts(1) [OF l assms(1)]
  show ?thesis
  proof (cases "rvp_ring_nempty (e_ring ?e) < n")
    case False
    then show ?thesis using assms(2) l sum_list_take_drop [of 1 "e_obs e"]
      by (auto simp: put_wait.simps [of e] Let_def)
  next
    case True
    then obtain f where f: "rvp_ring_await_nempty ?e n = Inr f" "put_wait f n = Inr e'"
      using assms(2) by (auto simp: put_wait.simps [of e] Let_def split: if_splits sum.splits)
    note a = await_safe [OF ok f(1)]
    obtain k where k: "consumed_from (e_ring ?e) (e_ring f) k" "k + sum_list (e_obs f) = sum_list (e_obs ?e)"
      using a(1) by blast
    note fok = consumed_from_facts(1) [OF k(1) ok]
    have e': "e' = load_consumer f"
      using f(2) put_wait_room [of n f] nempty_load [OF fok] a(2) by simp
    note lf = load_consumer_ring [OF fok]
    have "consumed_from (e_ring e) (e_ring e') (sum_list (take 1 (e_obs e)) + k + sum_list (take 1 (e_obs f)))"
      unfolding e' by (rule consumed_from_trans [OF assms(1) consumed_from_trans [OF assms(1) l k(1)] lf])
    moreover have "sum_list (take 1 (e_obs e)) + k + sum_list (take 1 (e_obs f)) + sum_list (e_obs e') = sum_list (e_obs e)"
      using k(2) sum_list_take_drop [of 1 "e_obs e"] sum_list_take_drop [of 1 "e_obs f"] by (simp add: e')
    ultimately have "\<exists>k. consumed_from (e_ring e) (e_ring e') k \<and> k + sum_list (e_obs e') = sum_list (e_obs e)"
      by blast
    then show ?thesis
      using a nempty_load [OF fok] by (simp add: e')
  qed
qed

lemma put_wait_total:
  assumes "ring_ok (e_ring e)"
  shows "n \<le> rvp_ring_nempty (ring_consume (sum_list (e_obs e)) (e_ring e)) \<Longrightarrow> \<exists>e'. put_wait e n = Inr e'"
    and "rvp_ring_nempty (ring_consume (sum_list (e_obs e)) (e_ring e)) < n \<Longrightarrow> put_wait e n = Inl Waiting"
proof -
  let ?e = "load_consumer e"
  let ?s = "ring_consume (sum_list (e_obs e)) (e_ring e)"
  note ok = consumed_from_facts(1) [OF load_consumer_ring [OF assms] assms]
  have s: "?s = ring_consume (sum_list (e_obs ?e)) (e_ring ?e)"
    using assms by (auto simp: load_consumer_def ring_consume_consume split: list.splits)
  have mono: "rvp_ring_nempty (e_ring ?e) \<le> rvp_ring_nempty ?s"
    unfolding s using ok by (simp add: rvp_ring_nempty_def nfull_consume rvp_ring_capacity_def)
  have rs: "e_ring (rvp_ring_request_service ?e) = e_ring ?e" "e_obs (rvp_ring_request_service ?e) = e_obs ?e"
    by (simp_all add: rvp_ring_request_service_def)
  note w = wait_for_nempty_total [OF ok, of n "e_obs ?e" 32, folded s]
  show "\<exists>e'. put_wait e n = Inr e'" if "n \<le> rvp_ring_nempty ?s"
  proof (cases "rvp_ring_nempty (e_ring ?e) < n")
    case False
    then show ?thesis using put_wait_room [of n e] by simp
  next
    case True
    with that w obtain r ks where "rvp_ring_wait_for_nempty (e_ring ?e) n 32 (e_obs ?e) = Inr (r, ks)"
      by (metis surj_pair)
    then obtain f where f: "rvp_ring_await_nempty ?e n = Inr f"
      by (auto simp: rvp_ring_await_nempty_def Let_def rs)
    have "n \<le> rvp_ring_nempty (e_ring (load_consumer f))"
      using await_safe [OF ok f] consumed_from_facts(1) [OF _ ok] nempty_load [of f] by fastforce
    then have "put_wait f n = Inr (load_consumer f)" by (rule put_wait_room)
    moreover have "e_obs ?e \<noteq> []"
      using True that s ok by auto
    ultimately show ?thesis
      using True f by (simp add: put_wait.simps [of e] Let_def)
  qed
  show "put_wait e n = Inl Waiting" if "rvp_ring_nempty ?s < n"
  proof -
    have "rvp_ring_nempty (e_ring ?e) < n" using that mono by simp
    moreover have "rvp_ring_await_nempty ?e n = Inl Waiting"
      using w that by (simp add: rvp_ring_await_nempty_def Let_def rs)
    ultimately show ?thesis by (simp add: put_wait.simps [of e] Let_def)
  qed
qed

section \<open>Putting words on an event ring\<close>

definition env_ok :: "rvp_env \<Rightarrow> bool" where
  "env_ok e \<longleftrightarrow> ring_ok (e_ring e) \<and> e_log2_nthreads e < 31"

lemma increase_ggen_simps [simp]:
  "e_ring (rvp_increase_ggen e) = e_ring e"
  "e_log2_nthreads (rvp_increase_ggen e) = e_log2_nthreads e"
  "e_consistent (rvp_increase_ggen e) = e_consistent e"
  "e_ring (rvp_ring_request_service e) = e_ring e"
  "e_log2_nthreads (rvp_ring_request_service e) = e_log2_nthreads e"
  "e_consistent (rvp_ring_request_service e) = e_consistent e"
  "e_obs (rvp_increase_ggen e) = e_obs e" "e_obs (rvp_ring_request_service e) = e_obs e"
  by (auto simp: rvp_increase_ggen_def ggen_interference_def rvp_ring_request_service_def Let_def
      split: list.splits)

lemma put_milestones_ring:
  assumes "env_ok e"
  shows "\<exists>e'. put_milestones e prev nxt n = Inr e' \<and> e_ring e' = e_ring (load_consumer e) \<and>
    e_obs e' = e_obs (load_consumer e) \<and> e_log2_nthreads e' = e_log2_nthreads e \<and>
    e_consistent e' = e_consistent e"
proof -
  have "(rvp_ring_capacity (e_ring e) + 1) div 2 \<noteq> 0" "e_log2_nthreads e < 31"
    using assms by (auto simp: env_ok_def ring_ok_def rvp_ring_capacity_def)
  then show ?thesis by (simp add: put_milestones_def Let_def)
qed

lemma put_multiple_safe:
  assumes "env_ok e" "ws \<noteq> []" "int (length ws) \<le> rvp_ring_capacity (e_ring e)"
    and "length ws \<le> length item" "take (length ws) item = ws"
    and "rvp_ring_put_multiple e item (int (length ws)) = Inr e'"
  shows "env_ok e' \<and> same_sequence e e' \<and>
    (\<exists>k. ring_contents (e_ring e') = drop k (ring_contents (e_ring e) @ ws) \<and>
       k + sum_list (e_obs e') \<le> sum_list (e_obs e))"
proof -
  let ?r = "e_ring e" and ?n = "int (length ws)"
  have ok: "ring_ok ?r" using assms(1) by (simp add: env_ok_def)
  define nxt where "nxt = int ((r_producer ?r + length ws) mod Suc (r_last ?r))"
  have "put_next ?r ?n = Inr nxt"
    using put_next_eq [OF ok] assms(3) by (simp add: nxt_def)
  with assms(6) obtain f where f: "put_wait e ?n = Inr f"
      and g: "cbind (put_copy (e_ring f) item ?n nxt)
        (\<lambda>r. put_milestones (f\<lparr> e_ring := r \<rparr>) (int (r_producer ?r)) nxt ?n) = Inr e'"
    by (auto simp: rvp_ring_put_multiple_def Let_def)
  obtain k where k: "consumed_from ?r (e_ring f) k" "?n \<le> rvp_ring_nempty (e_ring f)"
      "e_log2_nthreads f = e_log2_nthreads e" "e_consistent f = e_consistent e"
      "k + sum_list (e_obs f) = sum_list (e_obs e)"
    using put_wait_safe [OF ok f] by auto
  note c = consumed_from_facts [OF k(1) ok]
  have "put_copy (e_ring f) item ?n nxt = Inr (ring_push (e_ring f) ws)"
    using put_copy_push [OF c(1) assms(2) _ assms(4,5)] assms(3) c by (simp add: nxt_def)
  with g have g: "put_milestones (f\<lparr> e_ring := ring_push (e_ring f) ws \<rparr>) (int (r_producer ?r)) nxt ?n = Inr e'"
    by simp
  let ?f = "f\<lparr> e_ring := ring_push (e_ring f) ws \<rparr>"
  have "env_ok ?f" using assms(1) k c(1) by (simp add: env_ok_def)
  then have e': "e_ring e' = e_ring (load_consumer ?f)" "e_log2_nthreads e' = e_log2_nthreads e"
      "e_consistent e' = e_consistent e" "e_obs e' = drop 1 (e_obs f)"
    using put_milestones_ring [of ?f "int (r_producer ?r)" nxt ?n] g k by auto
  have room: "rvp_ring_nfull (e_ring f) + ?n \<le> rvp_ring_capacity (e_ring f)"
    using k(2) by (simp add: rvp_ring_nempty_def)
  have okf: "ring_ok (e_ring ?f)" using c(1) by simp
  note l = consumed_from_facts [OF load_consumer_ring [OF okf] okf]
  have push: "ring_contents (e_ring ?f) = drop k (ring_contents ?r) @ ws"
    using contents_push [OF c(1) room] c(2) by simp
  let ?j = "sum_list (take 1 (e_obs f))"
  have "ring_contents (e_ring e') = drop ?j (drop k (ring_contents ?r) @ ws)"
    using l(2) push by (simp add: e')
  then obtain m where "m \<le> k + ?j" "ring_contents (e_ring e') = drop m (ring_contents ?r @ ws)"
    using drop_drop_append by metis
  moreover have "k + ?j + sum_list (e_obs e') = sum_list (e_obs e)"
    using k(5) sum_list_take_drop [of 1 "e_obs f"] by (simp add: e')
  moreover have "env_ok e'" using l(1) e' assms(1) by (simp add: env_ok_def)
  moreover have "same_sequence e e'" using l e' c by (simp add: same_sequence_def)
  ultimately show ?thesis by (metis add_le_mono1)
qed

text \<open>While the consumer rests, a put only adds its words.\<close>

lemma put_quiet_step:
  assumes "env_ok e" "ws \<noteq> []" "int (length ws) \<le> rvp_ring_capacity (e_ring e)"
    and "length ws \<le> length item" "take (length ws) item = ws"
    and "rvp_ring_put_multiple e item (int (length ws)) = Inr e'" and quiet: "e_obs e = []"
  shows "int (length ws) \<le> rvp_ring_nempty (e_ring e)"
    "put_milestones (e\<lparr> e_ring := ring_push (e_ring e) ws \<rparr>) (int (r_producer (e_ring e)))
       (int ((r_producer (e_ring e) + length ws) mod Suc (r_last (e_ring e)))) (int (length ws)) = Inr e'"
proof -
  let ?r = "e_ring e" and ?n = "int (length ws)"
  have ok: "ring_ok ?r" using assms(1) by (simp add: env_ok_def)
  have load: "load_consumer e = e" using quiet by (simp add: load_consumer_def)
  define nxt where "nxt = int ((r_producer ?r + length ws) mod Suc (r_last ?r))"
  have "put_next ?r ?n = Inr nxt"
    using put_next_eq [OF ok] assms(3) by (simp add: nxt_def)
  with assms(6) obtain f where f: "put_wait e ?n = Inr f"
      and g: "cbind (put_copy (e_ring f) item ?n nxt)
        (\<lambda>r. put_milestones (f\<lparr> e_ring := r \<rparr>) (int (r_producer ?r)) nxt ?n) = Inr e'"
    by (auto simp: rvp_ring_put_multiple_def Let_def)
  have fe: "f = e" "?n \<le> rvp_ring_nempty ?r"
    using f quiet by (auto simp: put_wait.simps [of e] Let_def load split: if_splits)
  have "put_copy ?r item ?n nxt = Inr (ring_push ?r ws)"
    using put_copy_push [OF ok assms(2) _ assms(4,5)] assms(3) by (simp add: nxt_def)
  then show "?n \<le> rvp_ring_nempty ?r"
    "put_milestones (e\<lparr> e_ring := ring_push ?r ws \<rparr>) (int (r_producer ?r))
       (int ((r_producer ?r + length ws) mod Suc (r_last ?r))) ?n = Inr e'"
    using g fe by (simp_all add: nxt_def)
qed

lemma put_multiple_quiet:
  assumes "env_ok e" "ws \<noteq> []" "int (length ws) \<le> rvp_ring_capacity (e_ring e)"
    and "length ws \<le> length item" "take (length ws) item = ws"
    and "rvp_ring_put_multiple e item (int (length ws)) = Inr e'" and quiet: "e_obs e = []"
  shows "ring_contents (e_ring e') = ring_contents (e_ring e) @ ws" "e_obs e' = []"
proof -
  let ?f = "e\<lparr> e_ring := ring_push (e_ring e) ws \<rparr>"
  note step = put_quiet_step [OF assms]
  have ok: "ring_ok (e_ring e)" using assms(1) by (simp add: env_ok_def)
  have lf: "load_consumer ?f = ?f" using quiet by (simp add: load_consumer_def)
  have "env_ok ?f" using assms(1) ok by (simp add: env_ok_def)
  from put_milestones_ring [OF this, of "int (r_producer (e_ring e))"
      "int ((r_producer (e_ring e) + length ws) mod Suc (r_last (e_ring e)))" "int (length ws)"]
  have "e_ring e' = e_ring ?f" using step(2) lf by auto
  then show "ring_contents (e_ring e') = ring_contents (e_ring e) @ ws"
    using contents_push [OF ok] step(1) by (simp add: rvp_ring_nempty_def)
  show "e_obs e' = []"
    using step(2) quiet lf
    by (auto simp: put_milestones_def rvp_increase_ggen_def ggen_interference_def
        rvp_ring_request_service_def Let_def split: if_splits list.splits)
qed

lemma put_multiple_returns:
  assumes "env_ok e" "ws \<noteq> []" "int (length ws) \<le> rvp_ring_capacity (e_ring e)"
    and "length ws \<le> length item" "take (length ws) item = ws"
  shows "int (length ws) \<le> rvp_ring_nempty (ring_consume (sum_list (e_obs e)) (e_ring e)) \<Longrightarrow>
      \<exists>e'. rvp_ring_put_multiple e item (int (length ws)) = Inr e'"
    and "rvp_ring_nempty (ring_consume (sum_list (e_obs e)) (e_ring e)) < int (length ws) \<Longrightarrow>
      rvp_ring_put_multiple e item (int (length ws)) = Inl Waiting"
proof -
  let ?r = "e_ring e" and ?n = "int (length ws)"
  have ok: "ring_ok ?r" using assms(1) by (simp add: env_ok_def)
  define nxt where "nxt = int ((r_producer ?r + length ws) mod Suc (r_last ?r))"
  have nx: "put_next ?r ?n = Inr nxt"
    using put_next_eq [OF ok] assms(3) by (simp add: nxt_def)
  show "\<exists>e'. rvp_ring_put_multiple e item ?n = Inr e'"
    if room: "?n \<le> rvp_ring_nempty (ring_consume (sum_list (e_obs e)) ?r)"
  proof -
    obtain f where f: "put_wait e ?n = Inr f" using put_wait_total(1) [OF ok room] by blast
    obtain k where k: "consumed_from ?r (e_ring f) k" "e_log2_nthreads f = e_log2_nthreads e"
      using put_wait_safe [OF ok f] by auto
    note c = consumed_from_facts [OF k(1) ok]
    have cp: "put_copy (e_ring f) item ?n nxt = Inr (ring_push (e_ring f) ws)"
      using put_copy_push [OF c(1) assms(2) _ assms(4,5)] assms(3) c by (simp add: nxt_def)
    have "env_ok (f\<lparr> e_ring := ring_push (e_ring f) ws \<rparr>)"
      using assms(1) k c(1) by (simp add: env_ok_def)
    from put_milestones_ring [OF this, of "int (r_producer ?r)" nxt ?n] show ?thesis
      by (auto simp: rvp_ring_put_multiple_def Let_def nx f cp)
  qed
  show "rvp_ring_put_multiple e item ?n = Inl Waiting"
    if "rvp_ring_nempty (ring_consume (sum_list (e_obs e)) ?r) < ?n"
    using put_wait_total(2) [OF ok that] by (simp add: rvp_ring_put_multiple_def Let_def nx)
qed

section \<open>The event ring keeps the contract\<close>

text \<open>
  A put of a sequence of at most 20 words, as a buffer: this is what every event of the
  runtime does to the ring of its thread.
\<close>

definition ring_put_words :: "rvp_env \<Rightarrow> u32 list \<Rightarrow> rvp_env cres" where
  "ring_put_words e ws = cbind (put_words [] ws) (rvp_ring_put_buf e)"

definition ring_cap :: "rvp_env \<Rightarrow> nat" where
  "ring_cap e = min 20 (r_last (e_ring e))"

lemma put_buf_words:
  "length ws \<le> 20 \<Longrightarrow> ring_put_words e ws =
     rvp_ring_put_multiple e (ws @ replicate (20 - length ws) 0) (int (length ws))"
  by (simp add: ring_put_words_def put_words_def rvp_ring_put_buf_def) (simp add: buf_of_def)

lemma ring_put_words_safe:
  assumes "env_ok e" "ws \<noteq> []" "length ws \<le> r_last (e_ring e)" "ring_put_words e ws = Inr e'"
  shows "env_ok e' \<and> same_sequence e e' \<and>
    (\<exists>k. ring_contents (e_ring e') = drop k (ring_contents (e_ring e) @ ws) \<and>
       k + sum_list (e_obs e') \<le> sum_list (e_obs e))"
proof -
  have "length ws \<le> 20" using assms(4) by (auto simp: ring_put_words_def put_words_def split: if_splits)
  then show ?thesis
    using put_multiple_safe [of e ws "ws @ replicate (20 - length ws) 0" e'] assms
    by (simp add: put_buf_words rvp_ring_capacity_def)
qed

definition event_put :: "rvp_env \<Rightarrow> u32 list \<Rightarrow> rvp_env cres" where
  "event_put e ws = rvp_ring_put_multiple e ws (int (length ws))"

lemma nempty_consume_mono:
  "ring_ok r \<Longrightarrow> rvp_ring_nempty r \<le> rvp_ring_nempty (ring_consume k r)"
  by (simp add: rvp_ring_nempty_def nfull_consume rvp_ring_capacity_def)

lemma event_put_room:
  assumes "env_ok e" "ws \<noteq> []" "length (ring_contents (e_ring e)) + length ws \<le> r_last (e_ring e)"
  shows "\<exists>e'. event_put e ws = Inr e'"
proof -
  have ok: "ring_ok (e_ring e)" using assms(1) by (simp add: env_ok_def)
  then have "int (length ws) \<le> rvp_ring_nempty (e_ring e)"
    using assms(3) nfull_bounds [OF ok] by (simp add: rvp_ring_nempty_def rvp_ring_capacity_def nat_le_iff)
  then show ?thesis
    using put_multiple_returns(1) [of e ws ws] nempty_consume_mono [OF ok, of "sum_list (e_obs e)"] assms
    by (simp add: event_put_def rvp_ring_capacity_def)
qed

interpretation evr: fifo_ring env_ok "\<lambda>e. ring_contents (e_ring e)" "\<lambda>e. r_last (e_ring e)"
    "\<lambda>e. sum_list (e_obs e)" event_put
proof
  fix e e' :: rvp_env and ws :: "u32 list"
  assume "env_ok e"
  then have ok: "ring_ok (e_ring e)" by (simp add: env_ok_def)
  show "length (ring_contents (e_ring e)) \<le> r_last (e_ring e)"
    using nfull_bounds [OF ok] by (simp add: rvp_ring_capacity_def)
  assume ws: "ws \<noteq> []"
  show "\<exists>e'. event_put e ws = Inr e'"
    if "length (ring_contents (e_ring e)) + length ws \<le> r_last (e_ring e)"
    using event_put_room [OF \<open>env_ok e\<close> ws that] .
  assume "length ws \<le> r_last (e_ring e)" "event_put e ws = Inr e'"
  then show "env_ok e' \<and> r_last (e_ring e') = r_last (e_ring e) \<and>
      (\<exists>k. ring_contents (e_ring e') = drop k (ring_contents (e_ring e) @ ws) \<and>
         k + sum_list (e_obs e') \<le> sum_list (e_obs e))"
    using put_multiple_safe [OF \<open>env_ok e\<close> ws, of ws e']
    by (simp add: event_put_def rvp_ring_capacity_def same_sequence_def)
qed

section \<open>Interruption rings\<close>

definition iring_ok :: "rvp_iring \<Rightarrow> bool" where
  "iring_ok ir \<longleftrightarrow> length (ir_items ir) = 8 \<and> ir_producer ir < 8 \<and> ir_consumer ir < 8"

definition iring_contents :: "rvp_iring \<Rightarrow> rvp_interruption list" where
  "iring_contents ir = circ_slice (ir_items ir) (ir_consumer ir) (nat (rvp_iring_nfull ir))"

definition iring_push :: "rvp_iring \<Rightarrow> rvp_interruption \<Rightarrow> rvp_iring" where
  "iring_push ir it = ir\<lparr> ir_items := (ir_items ir)[ir_producer ir := it],
     ir_producer := (ir_producer ir + 1) mod 8 \<rparr>"

lemma iring_nfull_eq:
  "iring_ok ir \<Longrightarrow> rvp_iring_nfull ir = int (cdist 8 (ir_consumer ir) (ir_producer ir))"
  by (auto simp: rvp_iring_nfull_def iring_ok_def cdist_cases of_nat_diff)

lemma iring_nfull_bounds:
  "iring_ok ir \<Longrightarrow> 0 \<le> rvp_iring_nfull ir" "iring_ok ir \<Longrightarrow> rvp_iring_nfull ir \<le> 7"
  using cdist_less [of 8 "ir_consumer ir" "ir_producer ir"]
  by (simp_all add: iring_nfull_eq del: cdist_less)

lemma iring_full_iff: "iring_ok ir \<Longrightarrow> rvp_iring_nempty ir < 1 \<longleftrightarrow> \<not> rvp_iring_nfull ir < 7"
  by (auto simp: rvp_iring_nempty_def rvp_iring_capacity_def iring_ok_def)

lemma length_iring_contents [simp]: "length (iring_contents ir) = nat (rvp_iring_nfull ir)"
  by (simp add: iring_contents_def)

lemma iring_consume_ok [simp]: "iring_ok ir \<Longrightarrow> iring_ok (iring_consume k ir)"
  by (simp add: iring_ok_def iring_consume_def)

lemma iring_nfull_consume:
  assumes "iring_ok ir"
  shows "rvp_iring_nfull (iring_consume k ir) = rvp_iring_nfull ir - int (min k (nat (rvp_iring_nfull ir)))"
proof -
  have "rvp_iring_nfull (iring_consume k ir) =
      int (cdist 8 ((ir_consumer ir + min k (nat (rvp_iring_nfull ir))) mod 8) (ir_producer ir))"
    using assms by (simp add: iring_nfull_eq) (simp add: iring_consume_def iring_nfull_eq iring_ok_def)
  then show ?thesis
    using assms cdist_advance [of "ir_consumer ir" 8 "ir_producer ir" "min k (nat (rvp_iring_nfull ir))"]
    by (simp add: iring_nfull_eq iring_ok_def of_nat_diff)
qed

lemma iring_contents_consume:
  assumes ok: "iring_ok ir"
  shows "iring_contents (iring_consume k ir) = drop k (iring_contents ir)"
proof -
  let ?m = "min k (nat (rvp_iring_nfull ir))"
  have "iring_contents (iring_consume k ir) = drop ?m (iring_contents ir)"
    using ok iring_nfull_bounds [OF ok]
    by (simp add: iring_contents_def drop_circ_slice iring_nfull_consume nat_diff_distrib)
       (simp add: iring_consume_def iring_ok_def)
  also have "\<dots> = drop k (iring_contents ir)"
    by (cases "k \<le> nat (rvp_iring_nfull ir)") simp_all
  finally show ?thesis .
qed

lemma iring_push_ok [simp]: "iring_ok ir \<Longrightarrow> iring_ok (iring_push ir it)"
  by (simp add: iring_ok_def iring_push_def)

lemma iring_nfull_push:
  assumes "iring_ok ir" "rvp_iring_nfull ir < 7"
  shows "rvp_iring_nfull (iring_push ir it) = rvp_iring_nfull ir + 1"
proof -
  have "cdist 8 (ir_consumer ir) (ir_producer ir) + 1 < 8"
    using assms by (simp add: iring_nfull_eq)
  then show ?thesis
    using assms(1) cdist_extend [of "ir_consumer ir" 8 "ir_producer ir" 1]
    by (simp add: iring_nfull_eq) (simp add: iring_push_def iring_ok_def)
qed

lemma iring_contents_push:
  assumes "iring_ok ir" "rvp_iring_nfull ir < 7"
  shows "iring_contents (iring_push ir it) = iring_contents ir @ [it]"
proof -
  let ?k = "nat (rvp_iring_nfull ir)"
  have p: "ir_producer ir = (ir_consumer ir + ?k) mod 8"
    using assms(1) add_cdist [of "ir_consumer ir" 8 "ir_producer ir"]
    by (simp add: iring_nfull_eq) (simp add: iring_ok_def)
  have "?k + 1 \<le> 8" using assms by simp
  then have "circ_slice (circ_store (ir_items ir) (ir_producer ir) [it]) (ir_consumer ir) (?k + 1)
      = iring_contents ir @ [it]"
    using assms circ_slice_store [of "ir_consumer ir" "ir_items ir" ?k "[it]"] p
    by (simp add: iring_contents_def iring_ok_def)
  then show ?thesis
    using assms iring_nfull_push [OF assms] iring_nfull_bounds [OF assms(1)]
      circ_store_single [of "ir_producer ir" "ir_items ir" it]
    by (simp add: iring_contents_def nat_add_distrib) (simp add: iring_push_def iring_ok_def)
qed

lemma iring_consume_consume:
  assumes "iring_ok ir"
  shows "iring_consume j (iring_consume k ir) = iring_consume (k + j) ir"
proof -
  have "min k m + min j (m - min k m) = min (k + j) m" for m :: nat
    by (auto simp: min_def)
  then show ?thesis
    using assms iring_nfull_bounds [OF assms] iring_nfull_consume [OF assms, of k]
    by (simp add: iring_consume_def nat_diff_distrib mod_add_left_eq add.assoc)
qed

lemma iring_consume_0 [simp]: "iring_ok ir \<Longrightarrow> iring_consume 0 ir = ir"
  by (simp add: iring_consume_def iring_ok_def)

lemma iring_wait_safe:
  "iring_ok (r_iring r) \<Longrightarrow> rvp_iring_wait_for_one_empty r i ks = Inr (r', ks') \<Longrightarrow>
   \<exists>k st. r' = r\<lparr> r_iring := iring_consume k (r_iring r), r_stats := st \<rparr> \<and>
     rvp_iring_nfull (r_iring r') < 7 \<and> k + sum_list ks' = sum_list ks"
proof (induction r i ks rule: rvp_iring_wait_for_one_empty.induct)
  case (1 r i)
  then show ?case
    by (auto simp: rvp_iring_nempty_def rvp_iring_capacity_def iring_ok_def split: if_splits
        intro!: exI [of _ 0] exI [of _ "r_stats r"])
next
  case (2 r i k ks)
  let ?r = "r\<lparr> r_iring := iring_consume k (r_iring r) \<rparr>"
  show ?case
  proof (cases "rvp_iring_nempty (r_iring ?r) < 1")
    case False
    with 2(3) have "r' = ?r" "ks' = ks" by (simp_all add: Let_def)
    moreover have "rvp_iring_nfull (r_iring ?r) < 7"
      using False iring_full_iff [OF iring_consume_ok [OF 2(2)], of k] by simp
    ultimately show ?thesis
      by (intro exI [of _ k] exI [of _ "r_stats r"]) simp
  next
    case True
    with 2(2,3) 2(1) [OF refl refl True] obtain j st where
      "r' = r\<lparr> r_iring := iring_consume j (iring_consume k (r_iring r)), r_stats := st \<rparr>"
      "rvp_iring_nfull (r_iring r') < 7" "j + sum_list ks' = sum_list ks"
      by (auto simp: Let_def)
    then show ?thesis using 2(2) by (intro exI [of _ "k + j"] exI [of _ st]) (auto simp: iring_consume_consume)
  qed
qed

definition new_interruption :: "rvp_ring \<Rightarrow> rid \<Rightarrow> int \<Rightarrow> rvp_interruption" where
  "new_interruption r interruptor sidx =
     \<lparr> it_interruptor = interruptor, it_interrupted_idx = int (r_producer r),
       it_interruptor_sidx = sidx, it_interruptor_eidx = -1 \<rparr>"

lemma put_interruption_store_eq:
  "iring_ok (r_iring r) \<Longrightarrow> put_interruption_store r ri sidx =
     (r\<lparr> r_iring := iring_push (r_iring r) (new_interruption r ri sidx) \<rparr>, ir_producer (r_iring r))"
  by (auto simp: put_interruption_store_def iring_push_def new_interruption_def rvp_iring_last_def
      iring_ok_def Let_def)

lemma put_interruption_safe:
  fixes e e' :: rvp_env
  assumes "iring_ok (r_iring (e_ring e))" "rvp_ring_put_interruption e ri sidx = Inr (e', pos)"
  shows "iring_ok (r_iring (e_ring e'))"
    and "\<exists>k. iring_contents (r_iring (e_ring e')) =
           drop k (iring_contents (r_iring (e_ring e))) @ [new_interruption (e_ring e) ri sidx] \<and>
           k + sum_list (e_iobs e') = sum_list (e_iobs e)"
    and "pos < 8" "ir_items (r_iring (e_ring e')) ! pos = new_interruption (e_ring e) ri sidx"
    and "ring_contents (e_ring e') = ring_contents (e_ring e)"
proof -
  obtain f :: rvp_env and k st where
    f: "e_ring f = (e_ring e)\<lparr> r_iring := iring_consume k (r_iring (e_ring e)), r_stats := st \<rparr>"
      "rvp_iring_nfull (r_iring (e_ring f)) < 7" "k + sum_list (e_iobs e') = sum_list (e_iobs e)"
    and r: "(e_ring e', pos) = put_interruption_store (e_ring f) ri sidx"
  proof (cases "rvp_iring_nempty (r_iring (e_ring e)) < 1")
    case False
    then show ?thesis
      using assms that [of e "r_stats (e_ring e)" 0]
      by (auto simp: rvp_ring_put_interruption_def rvp_iring_nempty_def rvp_iring_capacity_def
          iring_ok_def split: prod.splits)
  next
    case True
    with assms(2) obtain f where f: "rvp_iring_await_one_empty e = Inr f"
      "(e_ring e', pos) = put_interruption_store (e_ring f) ri sidx" "e_iobs e' = e_iobs f"
      by (auto simp: rvp_ring_put_interruption_def case_prod_unfold prod_eq_iff Let_def)
    then obtain r ks where r: "rvp_iring_wait_for_one_empty (e_ring e) 32 (e_iobs e) = Inr (r, ks)"
      "e_ring f = r" "e_iobs f = ks"
      by (auto simp: rvp_iring_await_one_empty_def Let_def rvp_ring_request_service_def split: if_splits)
    obtain k st where k: "r = (e_ring e)\<lparr> r_iring := iring_consume k (r_iring (e_ring e)), r_stats := st \<rparr>"
      "rvp_iring_nfull (r_iring r) < 7" "k + sum_list ks = sum_list (e_iobs e)"
      using iring_wait_safe [OF assms(1) r(1)] by blast
    show ?thesis by (rule that [of f st k]) (use k r f in simp_all)
  qed
  let ?ir = "iring_consume k (r_iring (e_ring e))"
  have ok: "iring_ok ?ir" using assms(1) by simp
  have room: "rvp_iring_nfull ?ir < 7" using f by simp
  have new: "new_interruption (e_ring f) ri sidx = new_interruption (e_ring e) ri sidx"
    by (simp add: new_interruption_def f)
  have e': "e_ring e' = (e_ring f)\<lparr> r_iring := iring_push ?ir (new_interruption (e_ring e) ri sidx) \<rparr>"
    "pos = ir_producer ?ir"
    using r put_interruption_store_eq [of "e_ring f" ri sidx] ok f(1) new by simp_all
  show "iring_ok (r_iring (e_ring e'))" using ok by (simp add: e')
  show "\<exists>k. iring_contents (r_iring (e_ring e')) =
      drop k (iring_contents (r_iring (e_ring e))) @ [new_interruption (e_ring e) ri sidx] \<and>
      k + sum_list (e_iobs e') = sum_list (e_iobs e)"
    using iring_contents_push [OF ok room] iring_contents_consume [OF assms(1)] f(3) by (auto simp: e')
  show "pos < 8" using ok by (simp add: e' iring_ok_def)
  show "ir_items (r_iring (e_ring e')) ! pos = new_interruption (e_ring e) ri sidx"
    using ok by (simp add: e' iring_push_def iring_ok_def)
  show "ring_contents (e_ring e') = ring_contents (e_ring e)"
    by (simp add: e' f ring_contents_def rvp_ring_nfull_def)
qed

fun put_interruptions :: "rvp_env \<Rightarrow> (rid \<times> int) list \<Rightarrow> rvp_env cres" where
    "put_interruptions e [] = Inr e"
  | "put_interruptions e ((ri, sidx) # xs) =
       cbind (rvp_ring_put_interruption e ri sidx) (\<lambda>(e, _). put_interruptions e xs)"

definition interruptors :: "rvp_env \<Rightarrow> (rid \<times> int) list" where
  "interruptors e = map (\<lambda>it. (it_interruptor it, it_interruptor_sidx it))
     (iring_contents (r_iring (e_ring e)))"

lemma put_interruptions_safe:
  "iring_ok (r_iring (e_ring e)) \<Longrightarrow> put_interruptions e xs = Inr e' \<Longrightarrow>
   iring_ok (r_iring (e_ring e')) \<and> (\<exists>k. interruptors e' = drop k (interruptors e @ xs) \<and>
     k + sum_list (e_iobs e') \<le> sum_list (e_iobs e))"
proof (induction xs arbitrary: e)
  case Nil
  then show ?case by (auto intro: exI [of _ 0])
next
  case (Cons x xs)
  obtain ri sidx where x: "x = (ri, sidx)" by (cases x)
  from Cons.prems obtain f pos where f: "rvp_ring_put_interruption e ri sidx = Inr (f, pos)"
    "put_interruptions f xs = Inr e'" by (auto simp: x)
  note s = put_interruption_safe [OF Cons.prems(1) f(1)]
  obtain k where k: "interruptors f = drop k (interruptors e) @ [x]" "k + sum_list (e_iobs f) = sum_list (e_iobs e)"
    using s(2) by (auto simp: interruptors_def drop_map x new_interruption_def)
  with Cons.IH [OF s(1) f(2)] obtain j where
    "iring_ok (r_iring (e_ring e'))" "interruptors e' = drop j (drop k (interruptors e) @ x # xs)"
    "j + sum_list (e_iobs e') \<le> sum_list (e_iobs f)"
    by auto
  moreover obtain m where "m \<le> k + j" "drop j (drop k (interruptors e) @ x # xs) = drop m (interruptors e @ x # xs)"
    using drop_drop_append by blast
  ultimately show ?case using k(2) by (intro conjI exI [of _ m]) auto
qed

lemma put_interruptions_room:
  "iring_ok (r_iring (e_ring e)) \<Longrightarrow> length (interruptors e) + length xs \<le> 7 \<Longrightarrow>
   \<exists>e'. put_interruptions e xs = Inr e'"
proof (induction xs arbitrary: e)
  case (Cons x xs)
  obtain ri sidx where x: "x = (ri, sidx)" by (cases x)
  have "rvp_iring_nfull (r_iring (e_ring e)) < 7"
    using Cons.prems iring_nfull_bounds [OF Cons.prems(1)] by (simp add: interruptors_def)
  then have "\<not> rvp_iring_nempty (r_iring (e_ring e)) < 1"
    using Cons.prems(1) by (simp add: rvp_iring_nempty_def rvp_iring_capacity_def iring_ok_def)
  then obtain f pos where f: "rvp_ring_put_interruption e ri sidx = Inr (f, pos)"
    by (cases "put_interruption_store (e_ring e) ri sidx") (simp add: rvp_ring_put_interruption_def)
  note s = put_interruption_safe [OF Cons.prems(1) f]
  have "length (interruptors f) \<le> Suc (length (interruptors e))"
    using s(2) by (auto simp: interruptors_def simp del: length_iring_contents)
  then show ?case using Cons.IH [OF s(1)] Cons.prems(2) f by (simp add: x)
qed simp

text \<open>A put returns unless the ring is full and the consumer takes nothing for ever.\<close>

lemma iring_wait_returns:
  "iring_ok (r_iring r) \<Longrightarrow> rvp_iring_nfull (r_iring r) = 7 \<Longrightarrow>
   case rvp_iring_wait_for_one_empty r i ks of
     Inl x \<Rightarrow> x = Waiting \<and> sum_list ks = 0 | Inr _ \<Rightarrow> 0 < sum_list ks"
proof (induction r i ks rule: rvp_iring_wait_for_one_empty.induct)
  case (1 r i)
  then show ?case by (simp add: iring_full_iff)
next
  case (2 r i k ks)
  let ?r = "r\<lparr> r_iring := iring_consume k (r_iring r) \<rparr>"
  have ok: "iring_ok (r_iring ?r)" using 2(2) by simp
  have full: "rvp_iring_nempty (r_iring ?r) < 1 \<longleftrightarrow> k = 0"
    using iring_full_iff [OF ok] iring_nfull_consume [OF 2(2), of k] 2(3) by auto
  show ?case
  proof (cases "k = 0")
    case True
    then show ?thesis using 2(1) [OF refl refl] 2(2,3) full by (simp add: Let_def split: sum.splits)
  next
    case False
    then show ?thesis using full by (simp add: Let_def)
  qed
qed

lemma put_interruption_returns:
  assumes "iring_ok (r_iring (e_ring e))"
  shows "case rvp_ring_put_interruption e ri sidx of
      Inl x \<Rightarrow> x = Waiting \<and> length (interruptors e) = 7 \<and> sum_list (e_iobs e) = 0
    | Inr _ \<Rightarrow> length (interruptors e) < 7 \<or> 0 < sum_list (e_iobs e)"
proof (cases "rvp_iring_nfull (r_iring (e_ring e)) < 7")
  case True
  then show ?thesis
    using iring_full_iff [OF assms] iring_nfull_bounds [OF assms]
    by (auto simp: rvp_ring_put_interruption_def interruptors_def split: prod.splits)
next
  case False
  then have seven: "rvp_iring_nfull (r_iring (e_ring e)) = 7" using iring_nfull_bounds [OF assms] by simp
  from iring_wait_returns [OF assms seven, of "e_iobs e" 32] seven False show ?thesis
    by (cases "rvp_iring_wait_for_one_empty (e_ring e) 32 (e_iobs e)")
       (auto simp: rvp_ring_put_interruption_def rvp_iring_await_one_empty_def iring_full_iff [OF assms]
          interruptors_def rvp_ring_request_service_def Let_def split: prod.splits)
qed

lemma put_interruptions_waits:
  "iring_ok (r_iring (e_ring e)) \<Longrightarrow> put_interruptions e xs = Inl x \<Longrightarrow>
   x = Waiting \<and> 7 < length (interruptors e) + length xs"
proof (induction xs arbitrary: e)
  case (Cons y xs)
  obtain ri sidx where y: "y = (ri, sidx)" by (cases y)
  show ?case
  proof (cases "rvp_ring_put_interruption e ri sidx")
    case (Inl z)
    then show ?thesis using put_interruption_returns [OF Cons.prems(1), of ri sidx] Cons.prems(2) by (simp add: y)
  next
    case (Inr p)
    obtain f pos where p: "p = (f, pos)" by (cases p)
    note s = put_interruption_safe [OF Cons.prems(1) Inr [unfolded p]]
    have "length (interruptors f) \<le> Suc (length (interruptors e))"
      using s(2) by (auto simp: interruptors_def simp del: length_iring_contents)
    then show ?thesis using Cons.IH [OF s(1)] Cons.prems(2) Inr by (simp add: y p)
  qed
qed simp

interpretation intr: fifo_ring "\<lambda>e. iring_ok (r_iring (e_ring e))" interruptors "\<lambda>_. 7"
    "\<lambda>e. sum_list (e_iobs e)" put_interruptions
proof
  fix e e' :: rvp_env and xs :: "(rid \<times> int) list"
  assume ok: "iring_ok (r_iring (e_ring e))"
  show "length (interruptors e) \<le> 7"
    using iring_nfull_bounds [OF ok] by (simp add: interruptors_def nat_le_iff)
  show "\<exists>e'. put_interruptions e xs = Inr e'" if "length (interruptors e) + length xs \<le> 7"
    using put_interruptions_room [OF ok that] .
  assume "put_interruptions e xs = Inr e'"
  then show "iring_ok (r_iring (e_ring e')) \<and> 7 = (7 :: nat) \<and>
      (\<exists>k. interruptors e' = drop k (interruptors e @ xs) \<and> k + sum_list (e_iobs e') \<le> sum_list (e_iobs e))"
    using put_interruptions_safe [OF ok] by auto
qed

section \<open>A sample\<close>

lemma sdiv_nat: "int a sdiv int b = int (a div b)"
  by (cases "a = 0"; cases "b = 0") (auto simp: signed_divide_int_def zdiv_int)

text \<open>A ring of \<open>n\<close> slots at the start of a sequence, with the consumer at rest.\<close>

definition sample_env :: "u64 \<Rightarrow> nat \<Rightarrow> rvp_env" where
  "sample_env pc n = \<lparr> e_ring = \<lparr> r_producer = 0, r_consumer = 0, r_last = n - 1,
       r_items = replicate n 0, r_lastpc = pc, r_lgen = 1, r_next = None,
       r_state = RVP_RING_S_INUSE, r_tid = 1, r_idepth = 0,
       r_iring = \<lparr> ir_producer = 0, ir_consumer = 0,
         ir_items = replicate 8 \<lparr> it_interruptor = 0, it_interrupted_idx = 0,
           it_interruptor_sidx = 0, it_interruptor_eidx = 0 \<rparr> \<rparr>,
       r_sigdepth = (0, 0),
       r_stats = \<lparr> rs_ring_sleeps = 0, rs_ring_spins = 0, rs_iring_spins = 0 \<rparr> \<rparr>,
     e_ggen = 1, e_interf = [], e_consistent = True, e_log2_nthreads = 1, e_wakes = [],
     e_obs = [], e_iobs = [] \<rparr>"

lemma sample_env_ok: "2 \<le> n \<Longrightarrow> env_ok (sample_env pc n)"
  by (auto simp: sample_env_def env_ok_def ring_ok_def)

lemma sample_env_sel [simp]:
  "r_last (e_ring (sample_env pc n)) = n - 1" "ring_contents (e_ring (sample_env pc n)) = []"
  "r_lastpc (e_ring (sample_env pc n)) = pc" "e_obs (sample_env pc n) = []"
  by (simp_all add: sample_env_def ring_contents_def rvp_ring_nfull_def)

section \<open>Properties\<close>

text \<open>
  C2. An event ring is a bounded queue: whatever the consumer does meanwhile, putting any
  sequence of events, wrapping around as often as needed, leaves in the ring what was there
  followed by all the words put, less a prefix no longer than what the consumer has taken by
  then: nothing is lost, duplicated or reordered.
\<close>

theorem event_ring_fifo:
  assumes "env_ok e" "\<forall>ws\<in>set wss. ws \<noteq> [] \<and> length ws \<le> r_last (e_ring e)"
    and "put_all event_put e wss = Inr e'"
  shows "env_ok e' \<and> r_last (e_ring e') = r_last (e_ring e) \<and>
    (\<exists>k. ring_contents (e_ring e') = drop k (ring_contents (e_ring e) @ concat wss) \<and>
       k + sum_list (e_obs e') \<le> sum_list (e_obs e))"
  by (rule evr.put_all_suffix [OF assms])

lemma event_ring_fifo_witness:
  "\<exists>e'. put_all event_put (sample_env 0 8) [[1, 2, 3], [4, 5]] = Inr e' \<and>
     ring_contents (e_ring e') = [1, 2, 3, 4, 5]"
proof -
  let ?wss = "[[1, 2, 3], [4, 5]] :: u32 list list"
  obtain e' where "put_all event_put (sample_env 0 8) ?wss = Inr e'"
    using evr.put_all_room [of "sample_env 0 8" ?wss] by (auto simp: sample_env_ok)
  then show ?thesis
    using event_ring_fifo [of "sample_env 0 8" ?wss e'] by (auto simp: sample_env_ok)
qed

text \<open>
  C10. A put of an event returns exactly when the items that the consumer takes while the put
  waits leave room for it; otherwise it waits for ever. It never fails in another way: no
  assertion fires and no copy leaves the ring, however long the event is up to the capacity.
\<close>

theorem put_returns_iff_room:
  assumes "env_ok e" "ws \<noteq> []" "length ws \<le> r_last (e_ring e)"
  shows "if length (ring_contents (e_ring e)) - sum_list (e_obs e) + length ws \<le> r_last (e_ring e)
    then \<exists>e'. event_put e ws = Inr e' else event_put e ws = Inl Waiting"
proof -
  have ok: "ring_ok (e_ring e)" using assms(1) by (simp add: env_ok_def)
  have "rvp_ring_nempty (ring_consume k (e_ring e)) =
      int (r_last (e_ring e)) - int (length (ring_contents (e_ring e)) - k)" for k
    using nfull_bounds [OF ok]
    by (simp add: rvp_ring_nempty_def nfull_consume [OF ok] rvp_ring_capacity_def min_def of_nat_diff)
  then have "int (length ws) \<le> rvp_ring_nempty (ring_consume k (e_ring e)) \<longleftrightarrow>
      length (ring_contents (e_ring e)) - k + length ws \<le> r_last (e_ring e)" for k
    by simp linarith
  then show ?thesis
    using put_multiple_returns [of e ws ws] assms
    by (auto simp: event_put_def rvp_ring_capacity_def not_le [symmetric] simp del: length_ring_contents)
qed

lemma put_returns_iff_room_witness:
  "\<exists>e'. event_put (sample_env 0 8) [1, 2] = Inr e'"
  using put_returns_iff_room [of "sample_env 0 8" "[1, 2]"] by (simp add: sample_env_ok)

text \<open>
  C11. The ring of interruptions is a queue of seven. A put returns just when fewer than seven
  are queued or the consumer takes one in the time to come; it fails in no other way than by waiting.
  Putting a sequence of interruptions returns when all of them find room; and what it leaves, when it
  returns, is what was there followed by all of them, in order, less a prefix that the consumer has
  taken, and never more than seven.
\<close>

theorem interruption_ring_fifo:
  assumes "iring_ok (r_iring (e_ring e))"
  shows "(case rvp_ring_put_interruption e ri sidx of
       Inl x \<Rightarrow> x = Waiting \<and> length (interruptors e) = 7 \<and> sum_list (e_iobs e) = 0
     | Inr _ \<Rightarrow> length (interruptors e) < 7 \<or> 0 < sum_list (e_iobs e)) \<and>
    (case put_interruptions e xs of
       Inl x \<Rightarrow> x = Waiting \<and> 7 < length (interruptors e) + length xs
     | Inr e' \<Rightarrow> iring_ok (r_iring (e_ring e')) \<and> length (interruptors e') \<le> 7 \<and>
         (\<exists>k. interruptors e' = drop k (interruptors e @ xs) \<and> k + sum_list (e_iobs e') \<le> sum_list (e_iobs e)))"
    (is "?put \<and> ?puts")
proof
  show ?put by (rule put_interruption_returns [OF assms])
  show ?puts
  proof (cases "put_interruptions e xs")
    case (Inl x)
    then show ?thesis using put_interruptions_waits [OF assms] by simp
  next
    case (Inr e')
    then show ?thesis using put_interruptions_safe [OF assms Inr] intr.bounded by auto
  qed
qed

lemma interruption_ring_fifo_witness:
  "\<exists>e'. put_interruptions (sample_env 0 8) [(3, 5), (4, 0)] = Inr e' \<and>
     interruptors e' = [(3, 5), (4, 0)]"
proof -
  have ok: "iring_ok (r_iring (e_ring (sample_env 0 8)))" "interruptors (sample_env 0 8) = []"
      "e_iobs (sample_env 0 8) = []"
    by (simp_all add: sample_env_def iring_ok_def interruptors_def iring_contents_def rvp_iring_nfull_def)
  from interruption_ring_fifo [OF ok(1), of 0 0 "[(3, 5), (4, 0)]"] ok(2,3) show ?thesis
    by (auto split: sum.splits)
qed

text \<open>
  C18. The consumer is told in time: the put that brings a ring from less than half full to half
  full or more asks for service, through the transmitter thread at signal depth 0 and through
  the relay otherwise; a put that leaves the ring less than half full wakes nobody.
\<close>

theorem half_full_requests_service:
  assumes "env_ok e" "ws \<noteq> []" "length ws \<le> r_last (e_ring e)" "e_obs e = []" "event_put e ws = Inr e'"
  shows "(length (ring_contents (e_ring e)) + length ws < Suc (r_last (e_ring e)) div 2 \<longrightarrow>
       e_wakes e' = e_wakes e) \<and>
    (length (ring_contents (e_ring e)) < Suc (r_last (e_ring e)) div 2 \<longrightarrow>
     Suc (r_last (e_ring e)) div 2 \<le> length (ring_contents (e_ring e)) + length ws \<longrightarrow>
       e_wakes e' = e_wakes e @ [if r_idepth (e_ring e) = 0 then WakeTransmitter else WakeRelay])"
proof -
  have ok: "ring_ok (e_ring e)" using assms(1) by (simp add: env_ok_def)
  let ?f = "e\<lparr> e_ring := ring_push (e_ring e) ws \<rparr>" and ?n = "int (length ws)"
  let ?half = "(rvp_ring_capacity (e_ring e) + 1) div 2"
  obtain nxt where s: "?n \<le> rvp_ring_nempty (e_ring e)"
      "put_milestones ?f (int (r_producer (e_ring e))) nxt ?n = Inr e'"
    using put_quiet_step [of e ws ws e'] assms by (auto simp: event_put_def rvp_ring_capacity_def)
  have lf: "load_consumer ?f = ?f" using assms(4) by (simp add: load_consumer_def)
  have "rvp_ring_nfull (e_ring ?f) = rvp_ring_nfull (e_ring e) + ?n"
    using nfull_push [OF ok, of ws] s(1) by (simp add: rvp_ring_nempty_def)
  moreover have "rvp_ring_capacity (e_ring ?f) = rvp_ring_capacity (e_ring e)"
    by (simp add: rvp_ring_capacity_def)
  ultimately have w: "e_wakes e' = (if rvp_ring_nfull (e_ring e) sdiv ?half < (rvp_ring_nfull (e_ring e) + ?n) sdiv ?half
      then e_wakes e @ [if r_idepth (e_ring e) = 0 then WakeTransmitter else WakeRelay] else e_wakes e)"
    using s(2) lf
    by (auto simp: put_milestones_def rvp_increase_ggen_def ggen_interference_def
        rvp_ring_request_service_def Let_def split: if_splits list.splits)
  have half: "?half = int (Suc (r_last (e_ring e)) div 2)" by (simp add: rvp_ring_capacity_def zdiv_int)
  have pos: "0 < Suc (r_last (e_ring e)) div 2" using ok by (simp add: ring_ok_def)
  have n: "rvp_ring_nfull (e_ring e) = int (length (ring_contents (e_ring e)))"
    using nfull_bounds [OF ok] by simp
  show ?thesis
    unfolding w half n of_nat_add [symmetric] sdiv_nat
    using pos by (auto simp: div_less div_greater_zero_iff simp del: length_ring_contents)
qed

lemma half_full_requests_service_witness:
  "\<exists>e'. event_put (sample_env 0 8) [1, 2, 3, 4] = Inr e' \<and> e_wakes e' = [WakeTransmitter]"
proof -
  have env: "env_ok (sample_env 0 8)" by (simp add: sample_env_ok)
  obtain e' where e': "event_put (sample_env 0 8) [1, 2, 3, 4] = Inr e'"
    using event_put_room [OF env, of "[1, 2, 3, 4]"] by auto
  have "e_wakes (sample_env 0 8) = []" "r_idepth (e_ring (sample_env 0 8)) = 0"
    by (simp_all add: sample_env_def)
  then show ?thesis
    using half_full_requests_service [OF env _ _ _ e'] e' by simp
qed

end
