(* ===== verification/Access.thy ===== *)
theory Access
  imports Ring_Laws
begin

text \<open>
  The instrumentation entry points that log one event to the ring of the current sequence:
  loads and stores (\<^verbatim>\<open>llvm/ngrt/access.h\<close>, \<^verbatim>\<open>access.c\<close>, \<^verbatim>\<open>vptr.c\<close>), function entry and exit
  (\<^verbatim>\<open>func.c\<close>) and mutex operations (\<^verbatim>\<open>lock.c\<close>). The return address, which the compiler
  provides, is an argument.
\<close>

section \<open>What the entry points consult\<close>

text \<open>
  The address of the deltop matrix, the bounds of the coverage runtime's data, and whether the
  runtime is initialised (\<open>ring_operational()\<close>).
\<close>

record rvp_rt =
  rt_base :: u64
  rt_cov_begin :: u64
  rt_cov_end :: u64
  rt_operational :: bool

definition data_is_in_coverage :: "rvp_rt \<Rightarrow> rvp_addr \<Rightarrow> bool" where
  "data_is_in_coverage c addr \<longleftrightarrow> rt_cov_begin c \<le> addr \<and> addr \<le> rt_cov_end c"

definition set_lgen :: "u64 \<Rightarrow> rvp_env \<Rightarrow> rvp_env" where
  "set_lgen g e = e\<lparr> e_ring := (e_ring e)\<lparr> r_lgen := g \<rparr> \<rparr>"

definition set_lastpc :: "u64 \<Rightarrow> rvp_env \<Rightarrow> rvp_env" where
  "set_lastpc pc e = e\<lparr> e_ring := (e_ring e)\<lparr> r_lastpc := pc \<rparr> \<rparr>"

text \<open>The buffer functions, called with the addresses of \<open>r_lgen\<close> and \<open>r_lastpc\<close>.\<close>

definition env_trace_cog :: "rvp_rt \<Rightarrow> rvp_buf \<Rightarrow> u64 \<Rightarrow> rvp_env \<Rightarrow> (rvp_buf \<times> rvp_env) cres" where
  "env_trace_cog c b gen e =
     cbind (rvp_buf_trace_cog (rt_base c) b (r_lgen (e_ring e)) gen) (\<lambda>(b, g).
       Inr (b, set_lgen g e))"

definition rvp_buf_trace_load_cog :: "rvp_rt \<Rightarrow> rvp_buf \<Rightarrow> rvp_env \<Rightarrow> (rvp_buf \<times> rvp_env) cres" where
  "rvp_buf_trace_load_cog c b e = (let (gen, e) = rvp_ggen_after_load e in env_trace_cog c b gen e)"

definition env_put_pc_and_op ::
    "rvp_rt \<Rightarrow> rvp_buf \<Rightarrow> u64 \<Rightarrow> rvp_op \<Rightarrow> rvp_env \<Rightarrow> (rvp_buf \<times> rvp_env) cres" where
  "env_put_pc_and_op c b pc op e =
     cbind (rvp_buf_put_pc_and_op (rt_base c) b (r_lastpc (e_ring e)) pc op) (\<lambda>(b, pc).
       Inr (b, set_lastpc pc e))"

section \<open>Loads and stores\<close>

definition trace_load ::
    "rvp_rt \<Rightarrow> u64 \<Rightarrow> rvp_op \<Rightarrow> rvp_addr \<Rightarrow> u32 \<Rightarrow> rvp_env \<Rightarrow> rvp_env cres" where
  "trace_load c retaddr op addr val e =
     (if data_is_in_coverage c addr \<or> \<not> rt_operational c then Inr e else
      cbind (rvp_buf_trace_load_cog c RVP_BUF_INITIALIZER e) (\<lambda>(b, e).
      cbind (env_put_pc_and_op c b retaddr op e) (\<lambda>(b, e).
      cbind (rvp_buf_put_addr b addr) (\<lambda>b.
      cbind (rvp_buf_put b val) (\<lambda>b.
      rvp_ring_put_buf e b)))))"

definition trace_load8 ::
    "rvp_rt \<Rightarrow> u64 \<Rightarrow> rvp_op \<Rightarrow> rvp_addr \<Rightarrow> u64 \<Rightarrow> rvp_env \<Rightarrow> rvp_env cres" where
  "trace_load8 c retaddr op addr val e =
     (if data_is_in_coverage c addr \<or> \<not> rt_operational c then Inr e else
      cbind (rvp_buf_trace_load_cog c RVP_BUF_INITIALIZER e) (\<lambda>(b, e).
      cbind (env_put_pc_and_op c b retaddr op e) (\<lambda>(b, e).
      cbind (rvp_buf_put_addr b addr) (\<lambda>b.
      cbind (rvp_buf_put_u64 b val) (\<lambda>b.
      rvp_ring_put_buf e b)))))"

definition trace_store ::
    "rvp_rt \<Rightarrow> u64 \<Rightarrow> rvp_op \<Rightarrow> rvp_addr \<Rightarrow> u32 \<Rightarrow> rvp_env \<Rightarrow> rvp_env cres" where
  "trace_store c retaddr op addr val e =
     (if data_is_in_coverage c addr \<or> \<not> rt_operational c then Inr e else
      let (gen, e) = rvp_ggen_before_store e in
      cbind (env_put_pc_and_op c RVP_BUF_INITIALIZER retaddr op e) (\<lambda>(b, e).
      cbind (rvp_buf_put_addr b addr) (\<lambda>b.
      cbind (rvp_buf_put b val) (\<lambda>b.
      cbind (env_trace_cog c b gen e) (\<lambda>(b, e).
      rvp_ring_put_buf e b)))))"

definition trace_store8 ::
    "rvp_rt \<Rightarrow> u64 \<Rightarrow> rvp_op \<Rightarrow> rvp_addr \<Rightarrow> u64 \<Rightarrow> rvp_env \<Rightarrow> rvp_env cres" where
  "trace_store8 c retaddr op addr val e =
     (if data_is_in_coverage c addr \<or> \<not> rt_operational c then Inr e else
      let (gen, e) = rvp_ggen_before_store e in
      cbind (env_put_pc_and_op c RVP_BUF_INITIALIZER retaddr op e) (\<lambda>(b, e).
      cbind (rvp_buf_put_addr b addr) (\<lambda>b.
      cbind (rvp_buf_put_u64 b val) (\<lambda>b.
      cbind (env_trace_cog c b gen e) (\<lambda>(b, e).
      rvp_ring_put_buf e b)))))"

definition rvpredict_load1 :: "rvp_rt \<Rightarrow> u64 \<Rightarrow> rvp_addr \<Rightarrow> u8 \<Rightarrow> rvp_env \<Rightarrow> rvp_env cres" where
  "rvpredict_load1 c ra addr val = trace_load c ra RVP_OP_LOAD1 addr (ucast val)"
definition rvpredict_load2 :: "rvp_rt \<Rightarrow> u64 \<Rightarrow> rvp_addr \<Rightarrow> u16 \<Rightarrow> rvp_env \<Rightarrow> rvp_env cres" where
  "rvpredict_load2 c ra addr val = trace_load c ra RVP_OP_LOAD2 addr (ucast val)"
definition rvpredict_load4 :: "rvp_rt \<Rightarrow> u64 \<Rightarrow> rvp_addr \<Rightarrow> u32 \<Rightarrow> rvp_env \<Rightarrow> rvp_env cres" where
  "rvpredict_load4 c ra addr val = trace_load c ra RVP_OP_LOAD4 addr val"
definition rvpredict_load8 :: "rvp_rt \<Rightarrow> u64 \<Rightarrow> rvp_addr \<Rightarrow> u64 \<Rightarrow> rvp_env \<Rightarrow> rvp_env cres" where
  "rvpredict_load8 c ra addr val = trace_load8 c ra RVP_OP_LOAD8 addr val"

text \<open>A 16-byte access is logged as two accesses of 8 bytes.\<close>

definition rvpredict_load16 ::
    "rvp_rt \<Rightarrow> u64 \<Rightarrow> rvp_addr \<Rightarrow> u64 \<times> u64 \<Rightarrow> rvp_env \<Rightarrow> rvp_env cres" where
  "rvpredict_load16 c ra addr val e =
     cbind (trace_load8 c ra RVP_OP_LOAD8 addr (fst val) e) (\<lambda>e.
       trace_load8 c ra RVP_OP_LOAD8 (addr + 8) (snd val) e)"

definition rvpredict_atomic_load1 :: "rvp_rt \<Rightarrow> u64 \<Rightarrow> rvp_addr \<Rightarrow> u8 \<Rightarrow> rvp_env \<Rightarrow> rvp_env cres" where
  "rvpredict_atomic_load1 c ra addr val = trace_load c ra RVP_OP_ATOMIC_LOAD1 addr (ucast val)"
definition rvpredict_atomic_load2 :: "rvp_rt \<Rightarrow> u64 \<Rightarrow> rvp_addr \<Rightarrow> u16 \<Rightarrow> rvp_env \<Rightarrow> rvp_env cres" where
  "rvpredict_atomic_load2 c ra addr val = trace_load c ra RVP_OP_ATOMIC_LOAD2 addr (ucast val)"
definition rvpredict_atomic_load4 :: "rvp_rt \<Rightarrow> u64 \<Rightarrow> rvp_addr \<Rightarrow> u32 \<Rightarrow> rvp_env \<Rightarrow> rvp_env cres" where
  "rvpredict_atomic_load4 c ra addr val = trace_load c ra RVP_OP_ATOMIC_LOAD4 addr val"
definition rvpredict_atomic_load8 :: "rvp_rt \<Rightarrow> u64 \<Rightarrow> rvp_addr \<Rightarrow> u64 \<Rightarrow> rvp_env \<Rightarrow> rvp_env cres" where
  "rvpredict_atomic_load8 c ra addr val = trace_load8 c ra RVP_OP_ATOMIC_LOAD8 addr val"

definition rvpredict_store1 :: "rvp_rt \<Rightarrow> u64 \<Rightarrow> rvp_addr \<Rightarrow> u8 \<Rightarrow> rvp_env \<Rightarrow> rvp_env cres" where
  "rvpredict_store1 c ra addr val = trace_store c ra RVP_OP_STORE1 addr (ucast val)"
definition rvpredict_store2 :: "rvp_rt \<Rightarrow> u64 \<Rightarrow> rvp_addr \<Rightarrow> u16 \<Rightarrow> rvp_env \<Rightarrow> rvp_env cres" where
  "rvpredict_store2 c ra addr val = trace_store c ra RVP_OP_STORE2 addr (ucast val)"
definition rvpredict_store4 :: "rvp_rt \<Rightarrow> u64 \<Rightarrow> rvp_addr \<Rightarrow> u32 \<Rightarrow> rvp_env \<Rightarrow> rvp_env cres" where
  "rvpredict_store4 c ra addr val = trace_store c ra RVP_OP_STORE4 addr val"
definition rvpredict_store8 :: "rvp_rt \<Rightarrow> u64 \<Rightarrow> rvp_addr \<Rightarrow> u64 \<Rightarrow> rvp_env \<Rightarrow> rvp_env cres" where
  "rvpredict_store8 c ra addr val = trace_store8 c ra RVP_OP_STORE8 addr val"

definition rvpredict_atomic_store1 :: "rvp_rt \<Rightarrow> u64 \<Rightarrow> rvp_addr \<Rightarrow> u8 \<Rightarrow> rvp_env \<Rightarrow> rvp_env cres" where
  "rvpredict_atomic_store1 c ra addr val = trace_store c ra RVP_OP_ATOMIC_STORE1 addr (ucast val)"
definition rvpredict_atomic_store2 :: "rvp_rt \<Rightarrow> u64 \<Rightarrow> rvp_addr \<Rightarrow> u16 \<Rightarrow> rvp_env \<Rightarrow> rvp_env cres" where
  "rvpredict_atomic_store2 c ra addr val = trace_store c ra RVP_OP_ATOMIC_STORE2 addr (ucast val)"
definition rvpredict_atomic_store4 :: "rvp_rt \<Rightarrow> u64 \<Rightarrow> rvp_addr \<Rightarrow> u32 \<Rightarrow> rvp_env \<Rightarrow> rvp_env cres" where
  "rvpredict_atomic_store4 c ra addr val = trace_store c ra RVP_OP_ATOMIC_STORE4 addr val"
definition rvpredict_atomic_store8 :: "rvp_rt \<Rightarrow> u64 \<Rightarrow> rvp_addr \<Rightarrow> u64 \<Rightarrow> rvp_env \<Rightarrow> rvp_env cres" where
  "rvpredict_atomic_store8 c ra addr val = trace_store8 c ra RVP_OP_ATOMIC_STORE8 addr val"

definition rvpredict_store16 ::
    "rvp_rt \<Rightarrow> u64 \<Rightarrow> rvp_addr \<Rightarrow> u64 \<times> u64 \<Rightarrow> rvp_env \<Rightarrow> rvp_env cres" where
  "rvpredict_store16 c ra addr val e =
     cbind (trace_store8 c ra RVP_OP_STORE8 addr (fst val) e) (\<lambda>e.
       trace_store8 c ra RVP_OP_STORE8 (addr + 8) (snd val) e)"

text \<open>Virtual-table pointers: \<open>sizeof(rvp_addr_t)\<close> is 8 on the modelled target.\<close>

definition rvpredict_vptr_update :: "rvp_rt \<Rightarrow> u64 \<Rightarrow> rvp_addr \<Rightarrow> u64 \<Rightarrow> rvp_env \<Rightarrow> rvp_env cres" where
  "rvpredict_vptr_update c ra vptr v = trace_store8 c ra RVP_OP_STORE8 vptr v"
definition rvpredict_vptr_load :: "rvp_rt \<Rightarrow> u64 \<Rightarrow> rvp_addr \<Rightarrow> u64 \<Rightarrow> rvp_env \<Rightarrow> rvp_env cres" where
  "rvpredict_vptr_load c ra vptr v = trace_load8 c ra RVP_OP_LOAD8 vptr v"

section \<open>Function entry and exit\<close>

definition rvpredict_func_entry ::
    "rvp_rt \<Rightarrow> u64 \<Rightarrow> u64 \<Rightarrow> u64 \<Rightarrow> rvp_env \<Rightarrow> (u64 \<times> rvp_env) cres" where
  "rvpredict_func_entry c retaddr cfa callsite e =
     (if \<not> rt_operational c then Inr (retaddr, e) else
      cbind (env_put_pc_and_op c RVP_BUF_INITIALIZER retaddr RVP_OP_ENTERFN e) (\<lambda>(b, e).
      cbind (rvp_buf_put_voidptr b cfa) (\<lambda>b.
      cbind (rvp_buf_put_voidptr b callsite) (\<lambda>b.
      cbind (rvp_ring_put_buf e b) (\<lambda>e.
      Inr (retaddr, e))))))"

definition rvpredict_func_exit :: "rvp_rt \<Rightarrow> u64 \<Rightarrow> rvp_env \<Rightarrow> rvp_env cres" where
  "rvpredict_func_exit c retaddr e =
     (if \<not> rt_operational c then Inr e else
      cbind (env_put_pc_and_op c RVP_BUF_INITIALIZER retaddr RVP_OP_EXITFN e) (\<lambda>(b, e).
      rvp_ring_put_buf e b))"

section \<open>Mutexes\<close>

definition trace_mutex_op ::
    "rvp_rt \<Rightarrow> u64 \<Rightarrow> u64 \<Rightarrow> rvp_op \<Rightarrow> rvp_env \<Rightarrow> rvp_env cres" where
  "trace_mutex_op c retaddr mtx op e =
     (if \<not> rt_operational c then Inr e else
      if op = RVP_OP_ACQUIRE then
        cbind (rvp_buf_trace_load_cog c RVP_BUF_INITIALIZER e) (\<lambda>(b, e).
        cbind (env_put_pc_and_op c b retaddr op e) (\<lambda>(b, e).
        cbind (rvp_buf_put_voidptr b mtx) (\<lambda>b.
        rvp_ring_put_buf e b)))
      else
        let (gen, e) = rvp_ggen_before_store e in
        cbind (env_put_pc_and_op c RVP_BUF_INITIALIZER retaddr op e) (\<lambda>(b, e).
        cbind (rvp_buf_put_voidptr b mtx) (\<lambda>b.
        cbind (env_trace_cog c b gen e) (\<lambda>(b, e).
        rvp_ring_put_buf e b))))"

text \<open>\<open>rc\<close> is what the real function of the C library returns.\<close>

definition rvpredict_pthread_mutex_lock ::
    "rvp_rt \<Rightarrow> u64 \<Rightarrow> int \<Rightarrow> u64 \<Rightarrow> rvp_env \<Rightarrow> (int \<times> rvp_env) cres" where
  "rvpredict_pthread_mutex_lock c ra rc mtx e =
     cbind (trace_mutex_op c ra mtx RVP_OP_ACQUIRE e) (\<lambda>e. Inr (rc, e))"

definition rvpredict_pthread_mutex_trylock ::
    "rvp_rt \<Rightarrow> u64 \<Rightarrow> int \<Rightarrow> u64 \<Rightarrow> rvp_env \<Rightarrow> (int \<times> rvp_env) cres" where
  "rvpredict_pthread_mutex_trylock c ra rc mtx e =
     (if rc \<noteq> 0 then Inr (rc, e)
      else cbind (trace_mutex_op c ra mtx RVP_OP_ACQUIRE e) (\<lambda>e. Inr (0, e)))"

definition rvpredict_pthread_mutex_unlock ::
    "rvp_rt \<Rightarrow> u64 \<Rightarrow> int \<Rightarrow> u64 \<Rightarrow> rvp_env \<Rightarrow> (int \<times> rvp_env) cres" where
  "rvpredict_pthread_mutex_unlock c ra rc mtx e =
     cbind (trace_mutex_op c ra mtx RVP_OP_RELEASE e) (\<lambda>e. Inr (rc, e))"

end
