(* ===== verification/Rmw.thy ===== *)
theory Rmw
  imports Access
begin

text \<open>
  Atomic read-modify-write operations, \<^verbatim>\<open>llvm/ngrt/rmw.c\<close>: each logs the old and the new
  value. Arithmetic on 8-bit and 16-bit arguments happens in \<open>int\<close>, as C promotes it, and is
  truncated when it is passed on as \<open>uint16_t\<close> or \<open>uint8_t\<close>.
\<close>

section \<open>Logging\<close>

definition trace_atomic_rmw_narrow ::
    "rvp_rt \<Rightarrow> u64 \<Rightarrow> rvp_addr \<Rightarrow> u16 \<Rightarrow> u16 \<Rightarrow> rvp_op \<Rightarrow> rvp_env \<Rightarrow> rvp_env cres" where
  "trace_atomic_rmw_narrow c retaddr addr oval nval op e =
     (if \<not> rt_operational c then Inr e else
      let nmask = (ucast (BITS_macro 31 16) :: u32); omask = (ucast (BITS_macro 15 0) :: u32) in
      cbind (env_put_pc_and_op c RVP_BUF_INITIALIZER retaddr op e) (\<lambda>(b, e).
      cbind (rvp_buf_put_addr b addr) (\<lambda>b.
      cbind (rvp_buf_put b (SHIFTIN (ucast nval) nmask OR SHIFTIN (ucast oval) omask)) (\<lambda>b.
      rvp_ring_put_buf e b))))"

definition trace_atomic_rmw1 ::
    "rvp_rt \<Rightarrow> u64 \<Rightarrow> rvp_addr \<Rightarrow> u8 \<Rightarrow> u8 \<Rightarrow> rvp_env \<Rightarrow> rvp_env cres" where
  "trace_atomic_rmw1 c ra addr oval nval e =
     trace_atomic_rmw_narrow c ra addr (ucast oval) (ucast nval) RVP_OP_ATOMIC_RMW1 e"

definition trace_atomic_rmw2 ::
    "rvp_rt \<Rightarrow> u64 \<Rightarrow> rvp_addr \<Rightarrow> u16 \<Rightarrow> u16 \<Rightarrow> rvp_env \<Rightarrow> rvp_env cres" where
  "trace_atomic_rmw2 c ra addr oval nval e =
     trace_atomic_rmw_narrow c ra addr oval nval RVP_OP_ATOMIC_RMW2 e"

definition trace_atomic_rmw4 ::
    "rvp_rt \<Rightarrow> u64 \<Rightarrow> rvp_addr \<Rightarrow> u32 \<Rightarrow> u32 \<Rightarrow> rvp_env \<Rightarrow> rvp_env cres" where
  "trace_atomic_rmw4 c retaddr addr oval nval e =
     (if \<not> rt_operational c then Inr e else
      cbind (env_put_pc_and_op c RVP_BUF_INITIALIZER retaddr RVP_OP_ATOMIC_RMW4 e) (\<lambda>(b, e).
      cbind (rvp_buf_put_addr b addr) (\<lambda>b.
      cbind (rvp_buf_put b oval) (\<lambda>b.
      cbind (rvp_buf_put b nval) (\<lambda>b.
      rvp_ring_put_buf e b)))))"

definition trace_atomic_rmw8 ::
    "rvp_rt \<Rightarrow> u64 \<Rightarrow> rvp_addr \<Rightarrow> u64 \<Rightarrow> u64 \<Rightarrow> rvp_env \<Rightarrow> rvp_env cres" where
  "trace_atomic_rmw8 c retaddr addr oval nval e =
     (if \<not> rt_operational c then Inr e else
      cbind (env_put_pc_and_op c RVP_BUF_INITIALIZER retaddr RVP_OP_ATOMIC_RMW8 e) (\<lambda>(b, e).
      cbind (rvp_buf_put_addr b addr) (\<lambda>b.
      cbind (rvp_buf_put_u64 b oval) (\<lambda>b.
      cbind (rvp_buf_put_u64 b nval) (\<lambda>b.
      rvp_ring_put_buf e b)))))"

section \<open>The entry points\<close>

text \<open>C's promotion of a narrow unsigned argument to \<open>int\<close>, and the conversion to \<open>uint16_t\<close>.\<close>

definition to_int :: "'a::len word \<Rightarrow> 32 word" where "to_int v = ucast v"
definition to_u16 :: "32 word \<Rightarrow> u16" where "to_u16 v = ucast v"

definition rvpredict_atomic_exchange1 ::
    "rvp_rt \<Rightarrow> u64 \<Rightarrow> rvp_addr \<Rightarrow> u8 \<Rightarrow> u8 \<Rightarrow> rvp_env \<Rightarrow> rvp_env cres" where
  "rvpredict_atomic_exchange1 c ra addr oval arg e =
     trace_atomic_rmw1 c ra addr oval arg e"

definition rvpredict_atomic_exchange2 ::
    "rvp_rt \<Rightarrow> u64 \<Rightarrow> rvp_addr \<Rightarrow> u16 \<Rightarrow> u16 \<Rightarrow> rvp_env \<Rightarrow> rvp_env cres" where
  "rvpredict_atomic_exchange2 c ra addr oval arg e =
     trace_atomic_rmw2 c ra addr oval arg e"

definition rvpredict_atomic_exchange4 ::
    "rvp_rt \<Rightarrow> u64 \<Rightarrow> rvp_addr \<Rightarrow> u32 \<Rightarrow> u32 \<Rightarrow> rvp_env \<Rightarrow> rvp_env cres" where
  "rvpredict_atomic_exchange4 c ra addr oval arg e =
     trace_atomic_rmw4 c ra addr oval arg e"

definition rvpredict_atomic_exchange8 ::
    "rvp_rt \<Rightarrow> u64 \<Rightarrow> rvp_addr \<Rightarrow> u64 \<Rightarrow> u64 \<Rightarrow> rvp_env \<Rightarrow> rvp_env cres" where
  "rvpredict_atomic_exchange8 c ra addr oval arg e =
     trace_atomic_rmw8 c ra addr oval arg e"

definition rvpredict_atomic_fetch_add1 ::
    "rvp_rt \<Rightarrow> u64 \<Rightarrow> rvp_addr \<Rightarrow> u8 \<Rightarrow> u8 \<Rightarrow> rvp_env \<Rightarrow> rvp_env cres" where
  "rvpredict_atomic_fetch_add1 c ra addr oval arg e =
     trace_atomic_rmw_narrow c ra addr (ucast oval) (to_u16 (to_int oval + to_int arg)) RVP_OP_ATOMIC_RMW1 e"

definition rvpredict_atomic_fetch_add2 ::
    "rvp_rt \<Rightarrow> u64 \<Rightarrow> rvp_addr \<Rightarrow> u16 \<Rightarrow> u16 \<Rightarrow> rvp_env \<Rightarrow> rvp_env cres" where
  "rvpredict_atomic_fetch_add2 c ra addr oval arg e =
     trace_atomic_rmw_narrow c ra addr oval (to_u16 (to_int oval + to_int arg)) RVP_OP_ATOMIC_RMW2 e"

definition rvpredict_atomic_fetch_add4 ::
    "rvp_rt \<Rightarrow> u64 \<Rightarrow> rvp_addr \<Rightarrow> u32 \<Rightarrow> u32 \<Rightarrow> rvp_env \<Rightarrow> rvp_env cres" where
  "rvpredict_atomic_fetch_add4 c ra addr oval arg e =
     trace_atomic_rmw4 c ra addr oval (oval + arg) e"

definition rvpredict_atomic_fetch_add8 ::
    "rvp_rt \<Rightarrow> u64 \<Rightarrow> rvp_addr \<Rightarrow> u64 \<Rightarrow> u64 \<Rightarrow> rvp_env \<Rightarrow> rvp_env cres" where
  "rvpredict_atomic_fetch_add8 c ra addr oval arg e =
     trace_atomic_rmw8 c ra addr oval (oval + arg) e"

definition rvpredict_atomic_fetch_sub1 ::
    "rvp_rt \<Rightarrow> u64 \<Rightarrow> rvp_addr \<Rightarrow> u8 \<Rightarrow> u8 \<Rightarrow> rvp_env \<Rightarrow> rvp_env cres" where
  "rvpredict_atomic_fetch_sub1 c ra addr oval arg e =
     trace_atomic_rmw_narrow c ra addr (ucast oval) (to_u16 ((to_int oval - to_int arg) AND 0xff)) RVP_OP_ATOMIC_RMW1 e"

definition rvpredict_atomic_fetch_sub2 ::
    "rvp_rt \<Rightarrow> u64 \<Rightarrow> rvp_addr \<Rightarrow> u16 \<Rightarrow> u16 \<Rightarrow> rvp_env \<Rightarrow> rvp_env cres" where
  "rvpredict_atomic_fetch_sub2 c ra addr oval arg e =
     trace_atomic_rmw_narrow c ra addr oval (to_u16 ((to_int oval - to_int arg) AND 0xffff)) RVP_OP_ATOMIC_RMW2 e"

definition rvpredict_atomic_fetch_sub4 ::
    "rvp_rt \<Rightarrow> u64 \<Rightarrow> rvp_addr \<Rightarrow> u32 \<Rightarrow> u32 \<Rightarrow> rvp_env \<Rightarrow> rvp_env cres" where
  "rvpredict_atomic_fetch_sub4 c ra addr oval arg e =
     trace_atomic_rmw4 c ra addr oval (oval - arg) e"

definition rvpredict_atomic_fetch_sub8 ::
    "rvp_rt \<Rightarrow> u64 \<Rightarrow> rvp_addr \<Rightarrow> u64 \<Rightarrow> u64 \<Rightarrow> rvp_env \<Rightarrow> rvp_env cres" where
  "rvpredict_atomic_fetch_sub8 c ra addr oval arg e =
     trace_atomic_rmw8 c ra addr oval (oval - arg) e"

definition rvpredict_atomic_fetch_or1 ::
    "rvp_rt \<Rightarrow> u64 \<Rightarrow> rvp_addr \<Rightarrow> u8 \<Rightarrow> u8 \<Rightarrow> rvp_env \<Rightarrow> rvp_env cres" where
  "rvpredict_atomic_fetch_or1 c ra addr oval arg e =
     trace_atomic_rmw_narrow c ra addr (ucast oval) (to_u16 (to_int oval OR to_int arg)) RVP_OP_ATOMIC_RMW1 e"

definition rvpredict_atomic_fetch_or2 ::
    "rvp_rt \<Rightarrow> u64 \<Rightarrow> rvp_addr \<Rightarrow> u16 \<Rightarrow> u16 \<Rightarrow> rvp_env \<Rightarrow> rvp_env cres" where
  "rvpredict_atomic_fetch_or2 c ra addr oval arg e =
     trace_atomic_rmw_narrow c ra addr oval (to_u16 (to_int oval OR to_int arg)) RVP_OP_ATOMIC_RMW2 e"

definition rvpredict_atomic_fetch_or4 ::
    "rvp_rt \<Rightarrow> u64 \<Rightarrow> rvp_addr \<Rightarrow> u32 \<Rightarrow> u32 \<Rightarrow> rvp_env \<Rightarrow> rvp_env cres" where
  "rvpredict_atomic_fetch_or4 c ra addr oval arg e =
     trace_atomic_rmw4 c ra addr oval (oval OR arg) e"

definition rvpredict_atomic_fetch_or8 ::
    "rvp_rt \<Rightarrow> u64 \<Rightarrow> rvp_addr \<Rightarrow> u64 \<Rightarrow> u64 \<Rightarrow> rvp_env \<Rightarrow> rvp_env cres" where
  "rvpredict_atomic_fetch_or8 c ra addr oval arg e =
     trace_atomic_rmw8 c ra addr oval (oval OR arg) e"

definition rvpredict_atomic_fetch_and1 ::
    "rvp_rt \<Rightarrow> u64 \<Rightarrow> rvp_addr \<Rightarrow> u8 \<Rightarrow> u8 \<Rightarrow> rvp_env \<Rightarrow> rvp_env cres" where
  "rvpredict_atomic_fetch_and1 c ra addr oval arg e =
     trace_atomic_rmw_narrow c ra addr (ucast oval) (to_u16 (to_int oval AND to_int arg)) RVP_OP_ATOMIC_RMW1 e"

definition rvpredict_atomic_fetch_and2 ::
    "rvp_rt \<Rightarrow> u64 \<Rightarrow> rvp_addr \<Rightarrow> u16 \<Rightarrow> u16 \<Rightarrow> rvp_env \<Rightarrow> rvp_env cres" where
  "rvpredict_atomic_fetch_and2 c ra addr oval arg e =
     trace_atomic_rmw_narrow c ra addr oval (to_u16 (to_int oval AND to_int arg)) RVP_OP_ATOMIC_RMW2 e"

definition rvpredict_atomic_fetch_and4 ::
    "rvp_rt \<Rightarrow> u64 \<Rightarrow> rvp_addr \<Rightarrow> u32 \<Rightarrow> u32 \<Rightarrow> rvp_env \<Rightarrow> rvp_env cres" where
  "rvpredict_atomic_fetch_and4 c ra addr oval arg e =
     trace_atomic_rmw4 c ra addr oval (oval AND arg) e"

definition rvpredict_atomic_fetch_and8 ::
    "rvp_rt \<Rightarrow> u64 \<Rightarrow> rvp_addr \<Rightarrow> u64 \<Rightarrow> u64 \<Rightarrow> rvp_env \<Rightarrow> rvp_env cres" where
  "rvpredict_atomic_fetch_and8 c ra addr oval arg e =
     trace_atomic_rmw8 c ra addr oval (oval AND arg) e"

definition rvpredict_atomic_fetch_xor1 ::
    "rvp_rt \<Rightarrow> u64 \<Rightarrow> rvp_addr \<Rightarrow> u8 \<Rightarrow> u8 \<Rightarrow> rvp_env \<Rightarrow> rvp_env cres" where
  "rvpredict_atomic_fetch_xor1 c ra addr oval arg e =
     trace_atomic_rmw_narrow c ra addr (ucast oval) (to_u16 (to_int oval XOR to_int arg)) RVP_OP_ATOMIC_RMW1 e"

definition rvpredict_atomic_fetch_xor2 ::
    "rvp_rt \<Rightarrow> u64 \<Rightarrow> rvp_addr \<Rightarrow> u16 \<Rightarrow> u16 \<Rightarrow> rvp_env \<Rightarrow> rvp_env cres" where
  "rvpredict_atomic_fetch_xor2 c ra addr oval arg e =
     trace_atomic_rmw_narrow c ra addr oval (to_u16 (to_int oval XOR to_int arg)) RVP_OP_ATOMIC_RMW2 e"

definition rvpredict_atomic_fetch_xor4 ::
    "rvp_rt \<Rightarrow> u64 \<Rightarrow> rvp_addr \<Rightarrow> u32 \<Rightarrow> u32 \<Rightarrow> rvp_env \<Rightarrow> rvp_env cres" where
  "rvpredict_atomic_fetch_xor4 c ra addr oval arg e =
     trace_atomic_rmw4 c ra addr oval (oval XOR arg) e"

definition rvpredict_atomic_fetch_xor8 ::
    "rvp_rt \<Rightarrow> u64 \<Rightarrow> rvp_addr \<Rightarrow> u64 \<Rightarrow> u64 \<Rightarrow> rvp_env \<Rightarrow> rvp_env cres" where
  "rvpredict_atomic_fetch_xor8 c ra addr oval arg e =
     trace_atomic_rmw8 c ra addr oval (oval XOR arg) e"

section \<open>Compare and set\<close>

text \<open>
  \<open>cur\<close> is what memory holds at \<open>addr\<close>. The strong exchange succeeds just when it is the
  expected value. The result holds what the function returns, the new content of memory, and
  the environment.
\<close>

definition rvpredict_atomic_cas1 ::
    "rvp_rt \<Rightarrow> u64 \<Rightarrow> rvp_addr \<Rightarrow> u8 \<Rightarrow> u8 \<Rightarrow> u8 \<Rightarrow> rvp_env \<Rightarrow> (u8 \<times> u8 \<times> rvp_env) cres" where
  "rvpredict_atomic_cas1 c ra addr cur expected desired e =
     (if cur = expected
      then cbind (trace_atomic_rmw1 c ra addr expected desired e) (\<lambda>e. Inr (expected, desired, e))
      else cbind (trace_load c ra RVP_OP_ATOMIC_LOAD1 addr (ucast cur) e) (\<lambda>e. Inr (cur, cur, e)))"

definition rvpredict_atomic_cas2 ::
    "rvp_rt \<Rightarrow> u64 \<Rightarrow> rvp_addr \<Rightarrow> u16 \<Rightarrow> u16 \<Rightarrow> u16 \<Rightarrow> rvp_env \<Rightarrow> (u16 \<times> u16 \<times> rvp_env) cres" where
  "rvpredict_atomic_cas2 c ra addr cur expected desired e =
     (if cur = expected
      then cbind (trace_atomic_rmw2 c ra addr expected desired e) (\<lambda>e. Inr (expected, desired, e))
      else cbind (trace_load c ra RVP_OP_ATOMIC_LOAD2 addr (ucast cur) e) (\<lambda>e. Inr (cur, cur, e)))"

definition rvpredict_atomic_cas4 ::
    "rvp_rt \<Rightarrow> u64 \<Rightarrow> rvp_addr \<Rightarrow> u32 \<Rightarrow> u32 \<Rightarrow> u32 \<Rightarrow> rvp_env \<Rightarrow> (u32 \<times> u32 \<times> rvp_env) cres" where
  "rvpredict_atomic_cas4 c ra addr cur expected desired e =
     (if cur = expected
      then cbind (trace_atomic_rmw4 c ra addr expected desired e) (\<lambda>e. Inr (expected, desired, e))
      else cbind (trace_load c ra RVP_OP_ATOMIC_LOAD4 addr cur e) (\<lambda>e. Inr (cur, cur, e)))"

definition rvpredict_atomic_cas8 ::
    "rvp_rt \<Rightarrow> u64 \<Rightarrow> rvp_addr \<Rightarrow> u64 \<Rightarrow> u64 \<Rightarrow> u64 \<Rightarrow> rvp_env \<Rightarrow> (u64 \<times> u64 \<times> rvp_env) cres" where
  "rvpredict_atomic_cas8 c ra addr cur expected desired e =
     (if cur = expected
      then cbind (trace_atomic_rmw8 c ra addr expected desired e) (\<lambda>e. Inr (expected, desired, e))
      else cbind (trace_load8 c ra RVP_OP_ATOMIC_LOAD8 addr cur e) (\<lambda>e. Inr (cur, cur, e)))"

end
