(* ===== verification/Records.thy ===== *)
theory Records
  imports Buf
begin

text \<open>
  The records of one sequence, abstractly: an operation, the program counter at which it was
  logged and the fields that follow the deltop; and the words that stand for them in a trace.
  The runtime's emitters produce these words (theory \<open>Access_Laws\<close>) and the reader recovers
  the records from them (theory \<open>Reader_Roundtrip\<close>).
\<close>

record trec =
  rec_op :: rvp_op
  rec_pc :: u64
  rec_vals :: "fval list"

text \<open>
  A change of generation is logged at the last program counter, without one of its own. Every
  other record moves the last program counter to its own.
\<close>

definition rec_words :: "u64 \<Rightarrow> u64 \<Rightarrow> trec \<Rightarrow> u32 list" where
  "rec_words base lastpc t =
     (if rec_op t = RVP_OP_COG then op_words base RVP_OP_COG
      else pc_op_words base lastpc (rec_pc t) (rec_op t)) @ fvals_words (rec_vals t)"

definition rec_lastpc :: "u64 \<Rightarrow> trec \<Rightarrow> u64" where
  "rec_lastpc lastpc t = (if rec_op t = RVP_OP_COG then lastpc else rec_pc t)"

fun recs_words :: "u64 \<Rightarrow> u64 \<Rightarrow> trec list \<Rightarrow> u32 list" where
    "recs_words base lastpc [] = []"
  | "recs_words base lastpc (t # ts) =
       rec_words base lastpc t @ recs_words base (rec_lastpc lastpc t) ts"

fun recs_lastpc :: "u64 \<Rightarrow> trec list \<Rightarrow> u64" where
    "recs_lastpc lastpc [] = lastpc"
  | "recs_lastpc lastpc (t # ts) = recs_lastpc (rec_lastpc lastpc t) ts"

lemma recs_words_append:
  "recs_words base lastpc (ts @ us) =
     recs_words base lastpc ts @ recs_words base (recs_lastpc lastpc ts) us"
  by (induction ts arbitrary: lastpc) simp_all

lemma recs_lastpc_append:
  "recs_lastpc lastpc (ts @ us) = recs_lastpc (recs_lastpc lastpc ts) us"
  by (induction ts arbitrary: lastpc) simp_all

text \<open>
  A program counter can be told from a deltop, and the 32 bits of the jump that the runtime
  computes are the whole jump when they look like a short one.
\<close>

definition pc_ok :: "u64 \<Rightarrow> u64 \<Rightarrow> u64 \<Rightarrow> bool" where
  "pc_ok base lastpc pc \<longleftrightarrow> \<not> pc_in_deltops base pc \<and>
     (let w = (ucast (pc - lastpc) :: 32 word) in
      - 128 \<le> sint w \<and> sint w < 128 \<longrightarrow> scast w = pc - lastpc)"

fun recs_pcs_ok :: "u64 \<Rightarrow> u64 \<Rightarrow> trec list \<Rightarrow> bool" where
    "recs_pcs_ok base lastpc [] = True"
  | "recs_pcs_ok base lastpc (t # ts) \<longleftrightarrow>
       (rec_op t \<noteq> RVP_OP_COG \<longrightarrow> pc_ok base lastpc (rec_pc t)) \<and>
       recs_pcs_ok base (rec_lastpc lastpc t) ts"

lemma recs_pcs_ok_append:
  "recs_pcs_ok base lastpc (ts @ us) \<longleftrightarrow>
     recs_pcs_ok base lastpc ts \<and> recs_pcs_ok base (recs_lastpc lastpc ts) us"
  by (induction ts arbitrary: lastpc) simp_all

text \<open>Logging at one place of the program repeatedly is always fine, and so is any jump of less than 2 GB.\<close>

lemma low_half_of_small:
  fixes d :: u64
  assumes "- (2 ^ 31) \<le> sint d" "sint d < 2 ^ 31"
  shows "scast (ucast d :: 32 word) = d"
proof -
  have low: "take_bit 32 (uint d) = take_bit 32 (sint d)"
    by (rule bit_eqI) (auto simp: bit_simps)
  have "sint (ucast d :: 32 word) = signed_take_bit 31 (sint d)"
    unfolding signed_ucast_eq by (simp add: signed_take_bit_eq_iff_take_bit_eq low)
  also have "\<dots> = sint d" using assms by (simp add: signed_take_bit_int_eq_self)
  finally have eq: "sint (ucast d :: 32 word) = sint d" .
  have "scast (ucast d :: 32 word) = (word_of_int (sint (ucast d :: 32 word)) :: u64)"
    by (rule scast_eq)
  also have "\<dots> = word_of_int (sint d)" by (simp only: eq)
  also have "\<dots> = d" by simp
  finally show ?thesis .
qed

lemma pc_ok_near:
  assumes "\<not> pc_in_deltops base pc" "- (2 ^ 31) \<le> sint (pc - lastpc)" "sint (pc - lastpc) < 2 ^ 31"
  shows "pc_ok base lastpc pc"
  using assms low_half_of_small by (simp add: pc_ok_def Let_def)

end
