(* ===== verification/Access_Laws.thy ===== *)
theory Access_Laws
  imports Rmw Records
begin

text \<open>
  What the instrumentation entry points put on the ring: each call puts the words of one record,
  with a change of generation before it (loads, acquisitions) or after it (stores, releases)
  when the global generation has moved past the generation of the sequence. No event overflows
  the 20 words of a buffer.
\<close>

section \<open>Records put on the ring\<close>

definition emit_recs :: "u64 \<Rightarrow> trec list \<Rightarrow> rvp_env \<Rightarrow> rvp_env cres" where
  "emit_recs base ts e =
     ring_put_words (set_lastpc (recs_lastpc (r_lastpc (e_ring e)) ts) e)
       (recs_words base (r_lastpc (e_ring e)) ts)"

definition cog_recs :: "u64 \<Rightarrow> u64 \<Rightarrow> trec list" where
  "cog_recs lgen gen =
     (if lgen < gen then [\<lparr> rec_op = RVP_OP_COG, rec_pc = 0, rec_vals = [V64 gen] \<rparr>] else [])"

lemma put_words_cbind:
  "cbind (put_words ws xs) f =
     (if length ws + length xs \<le> 20 then f (buf_of (ws @ xs)) else Inl Assertion)"
  by (simp add: put_words_def)

lemma set_lgen_simps [simp]:
  "r_lastpc (e_ring (set_lgen g e)) = r_lastpc (e_ring e)" "r_lgen (e_ring (set_lgen g e)) = g"
  "r_lgen (e_ring (set_lastpc pc e)) = r_lgen (e_ring e)" "r_lastpc (e_ring (set_lastpc pc e)) = pc"
  "set_lastpc pc (set_lgen g e) = set_lgen g (set_lastpc pc e)"
  by (simp_all add: set_lgen_def set_lastpc_def)

lemma ggen_same [simp]:
  "e_ring (snd (rvp_ggen_after_load e)) = e_ring e"
  "rvp_ggen_before_store e = rvp_ggen_after_load e"
  by (simp_all add: rvp_ggen_after_load_def rvp_ggen_before_store_def ggen_interference_def Let_def
      split: list.splits)

lemma env_trace_cog_of:
  assumes "deltops_fit (rt_base c)" "length ws \<le> 16"
  shows "env_trace_cog c (buf_of ws) gen e =
     Inr (buf_of (ws @ (if r_lgen (e_ring e) < gen then op_words (rt_base c) RVP_OP_COG @ fval_words (V64 gen) else [])),
          set_lgen (max (r_lgen (e_ring e)) gen) e)"
  using assms
  by (auto simp: env_trace_cog_def rvp_buf_trace_cog_def put_cog_of put_words_def max_def)

lemma env_put_pc_and_op_of:
  assumes "deltops_fit (rt_base c)" "length ws \<le> 16"
  shows "env_put_pc_and_op c (buf_of ws) pc op e =
     Inr (buf_of (ws @ pc_op_words (rt_base c) (r_lastpc (e_ring e)) pc op), set_lastpc pc e)"
  using assms length_pc_op_words_le [of "rt_base c" "r_lastpc (e_ring e)" pc op]
  by (simp add: env_put_pc_and_op_def put_pc_and_op_of put_words_def)

lemma ring_put_buf_of:
  "length ws \<le> 20 \<Longrightarrow> rvp_ring_put_buf e (buf_of ws) = ring_put_words e ws"
  by (simp add: ring_put_words_def put_words_def)

section \<open>Calls\<close>

datatype icall =
    CLoad rvp_op rvp_addr u32 | CLoad8 rvp_op rvp_addr u64
  | CStore rvp_op rvp_addr u32 | CStore8 rvp_op rvp_addr u64
  | CEnter u64 u64 | CExit | CAcquire u64 | CRelease u64
  | CRmwNarrow rvp_op rvp_addr u16 u16 | CRmw4 rvp_addr u32 u32 | CRmw8 rvp_addr u64 u64

text \<open>The code that runs for a call from return address \<open>ra\<close>.\<close>

fun icall_run :: "rvp_rt \<Rightarrow> u64 \<Rightarrow> icall \<Rightarrow> rvp_env \<Rightarrow> rvp_env cres" where
    "icall_run c ra (CLoad op addr val) e = trace_load c ra op addr val e"
  | "icall_run c ra (CLoad8 op addr val) e = trace_load8 c ra op addr val e"
  | "icall_run c ra (CStore op addr val) e = trace_store c ra op addr val e"
  | "icall_run c ra (CStore8 op addr val) e = trace_store8 c ra op addr val e"
  | "icall_run c ra (CEnter cfa cs) e =
       cbind (rvpredict_func_entry c ra cfa cs e) (\<lambda>(_, e). Inr e)"
  | "icall_run c ra CExit e = rvpredict_func_exit c ra e"
  | "icall_run c ra (CAcquire mtx) e = trace_mutex_op c ra mtx RVP_OP_ACQUIRE e"
  | "icall_run c ra (CRelease mtx) e = trace_mutex_op c ra mtx RVP_OP_RELEASE e"
  | "icall_run c ra (CRmwNarrow op addr oval nval) e = trace_atomic_rmw_narrow c ra addr oval nval op e"
  | "icall_run c ra (CRmw4 addr oval nval) e = trace_atomic_rmw4 c ra addr oval nval e"
  | "icall_run c ra (CRmw8 addr oval nval) e = trace_atomic_rmw8 c ra addr oval nval e"

text \<open>Operations of the right width, on data that is traced.\<close>

fun icall_ok :: "rvp_rt \<Rightarrow> icall \<Rightarrow> bool" where
    "icall_ok c (CLoad op addr _) \<longleftrightarrow> \<not> data_is_in_coverage c addr \<and>
       op \<in> {RVP_OP_LOAD1, RVP_OP_LOAD2, RVP_OP_LOAD4, RVP_OP_ATOMIC_LOAD1, RVP_OP_ATOMIC_LOAD2, RVP_OP_ATOMIC_LOAD4}"
  | "icall_ok c (CLoad8 op addr _) \<longleftrightarrow> \<not> data_is_in_coverage c addr \<and> op \<in> {RVP_OP_LOAD8, RVP_OP_ATOMIC_LOAD8}"
  | "icall_ok c (CStore op addr _) \<longleftrightarrow> \<not> data_is_in_coverage c addr \<and>
       op \<in> {RVP_OP_STORE1, RVP_OP_STORE2, RVP_OP_STORE4, RVP_OP_ATOMIC_STORE1, RVP_OP_ATOMIC_STORE2, RVP_OP_ATOMIC_STORE4}"
  | "icall_ok c (CStore8 op addr _) \<longleftrightarrow> \<not> data_is_in_coverage c addr \<and> op \<in> {RVP_OP_STORE8, RVP_OP_ATOMIC_STORE8}"
  | "icall_ok c (CRmwNarrow op _ _ _) \<longleftrightarrow> op \<in> {RVP_OP_ATOMIC_RMW1, RVP_OP_ATOMIC_RMW2}"
  | "icall_ok c _ \<longleftrightarrow> True"

text \<open>The record of a call.\<close>

definition onval_word :: "u16 \<Rightarrow> u16 \<Rightarrow> u32" where
  "onval_word oval nval = push_bit 16 (ucast nval) OR ucast oval"

fun icall_rec :: "u64 \<Rightarrow> icall \<Rightarrow> trec" where
    "icall_rec ra (CLoad op addr val) = \<lparr> rec_op = op, rec_pc = ra, rec_vals = [VAddr addr, V32 val] \<rparr>"
  | "icall_rec ra (CLoad8 op addr val) = \<lparr> rec_op = op, rec_pc = ra, rec_vals = [VAddr addr, V64 val] \<rparr>"
  | "icall_rec ra (CStore op addr val) = \<lparr> rec_op = op, rec_pc = ra, rec_vals = [VAddr addr, V32 val] \<rparr>"
  | "icall_rec ra (CStore8 op addr val) = \<lparr> rec_op = op, rec_pc = ra, rec_vals = [VAddr addr, V64 val] \<rparr>"
  | "icall_rec ra (CEnter cfa cs) = \<lparr> rec_op = RVP_OP_ENTERFN, rec_pc = ra, rec_vals = [VAddr cfa, VAddr cs] \<rparr>"
  | "icall_rec ra CExit = \<lparr> rec_op = RVP_OP_EXITFN, rec_pc = ra, rec_vals = [] \<rparr>"
  | "icall_rec ra (CAcquire mtx) = \<lparr> rec_op = RVP_OP_ACQUIRE, rec_pc = ra, rec_vals = [VAddr mtx] \<rparr>"
  | "icall_rec ra (CRelease mtx) = \<lparr> rec_op = RVP_OP_RELEASE, rec_pc = ra, rec_vals = [VAddr mtx] \<rparr>"
  | "icall_rec ra (CRmwNarrow op addr oval nval) =
       \<lparr> rec_op = op, rec_pc = ra, rec_vals = [VAddr addr, V32 (onval_word oval nval)] \<rparr>"
  | "icall_rec ra (CRmw4 addr oval nval) =
       \<lparr> rec_op = RVP_OP_ATOMIC_RMW4, rec_pc = ra, rec_vals = [VAddr addr, V32 oval, V32 nval] \<rparr>"
  | "icall_rec ra (CRmw8 addr oval nval) =
       \<lparr> rec_op = RVP_OP_ATOMIC_RMW8, rec_pc = ra, rec_vals = [VAddr addr, V64 oval, V64 nval] \<rparr>"

datatype cog_place = CogBefore | CogAfter | NoCog

fun icall_cog :: "icall \<Rightarrow> cog_place" where
    "icall_cog (CLoad _ _ _) = CogBefore" | "icall_cog (CLoad8 _ _ _) = CogBefore"
  | "icall_cog (CAcquire _) = CogBefore" | "icall_cog (CStore _ _ _) = CogAfter"
  | "icall_cog (CStore8 _ _ _) = CogAfter" | "icall_cog (CRelease _) = CogAfter"
  | "icall_cog _ = NoCog"

text \<open>The generation a call sees, and the records it puts.\<close>

definition icall_gen :: "icall \<Rightarrow> rvp_env \<Rightarrow> u64 \<times> rvp_env" where
  "icall_gen call e = (if icall_cog call = NoCog then (0, e) else rvp_ggen_after_load e)"

definition icall_recs :: "u64 \<Rightarrow> icall \<Rightarrow> u64 \<Rightarrow> u64 \<Rightarrow> trec list" where
  "icall_recs ra call lgen gen = (case icall_cog call of
       CogBefore \<Rightarrow> cog_recs lgen gen @ [icall_rec ra call]
     | CogAfter \<Rightarrow> icall_rec ra call # cog_recs lgen gen
     | NoCog \<Rightarrow> [icall_rec ra call])"

lemma onval_macro:
  "SHIFTIN (ucast nval) (ucast (BITS_macro 31 16)) OR SHIFTIN (ucast oval) (ucast (BITS_macro 15 0)) =
   onval_word oval nval"
proof -
  have n: "LOWEST_SET_BIT (ucast (BITS_macro 31 16) :: u32) = 0x10000"
    and o: "LOWEST_SET_BIT (ucast (BITS_macro 15 0) :: u32) = 1"
    by (simp_all add: cdefs)
  have "(x :: u32) * 0x10000 = push_bit 16 x" for x
    by (simp add: push_bit_eq_mult)
  then show ?thesis by (simp add: SHIFTIN_def n o onval_word_def)
qed

section \<open>What a call puts\<close>

lemma set_lgen_self [simp]: "set_lgen (r_lgen (e_ring e)) e = e"
  by (simp add: set_lgen_def)

lemma set_lgen_lastpc_self [simp]: "set_lgen (r_lgen (e_ring e)) (set_lastpc pc e) = set_lastpc pc e"
  by (simp add: set_lgen_def set_lastpc_def)

lemma max_0_word [simp]: "max (x :: u64) 0 = x"
  by (simp add: max_def)

lemma put_vals_of:
  "length ws \<le> 16 \<Longrightarrow> rvp_buf_put (buf_of ws) x = Inr (buf_of (ws @ [x]))"
  "length ws \<le> 16 \<Longrightarrow> rvp_buf_put_addr (buf_of ws) a = Inr (buf_of (ws @ [lo32 a, hi32 a]))"
  "length ws \<le> 16 \<Longrightarrow> rvp_buf_put_voidptr (buf_of ws) a = Inr (buf_of (ws @ [lo32 a, hi32 a]))"
  "length ws \<le> 16 \<Longrightarrow> rvp_buf_put_u64 (buf_of ws) a = Inr (buf_of (ws @ [lo32 a, hi32 a]))"
  by (simp_all add: put_buf_of put_addr_of put_voidptr_of put_u64_of put_words_def)

text \<open>The two shapes of words around those of an operation at a program counter.\<close>

definition cog_words :: "u64 \<Rightarrow> u64 \<Rightarrow> u64 \<Rightarrow> u32 list" where
  "cog_words base lgen gen =
     (if lgen < gen then op_words base RVP_OP_COG @ fval_words (V64 gen) else [])"

lemma length_cog_words: "length (cog_words base lgen gen) \<le> 4"
  by (simp add: cog_words_def)

lemma env_trace_cog_words:
  "deltops_fit (rt_base c) \<Longrightarrow> length ws \<le> 16 \<Longrightarrow> env_trace_cog c (buf_of ws) gen e =
     Inr (buf_of (ws @ cog_words (rt_base c) (r_lgen (e_ring e)) gen), set_lgen (max (r_lgen (e_ring e)) gen) e)"
  by (simp add: env_trace_cog_of cog_words_def)

lemma words_of_recs:
  assumes "rec_op t \<noteq> RVP_OP_COG"
  shows "recs_words base L (cog_recs lgen gen @ [t]) = cog_words base lgen gen @ rec_words base L t"
    "recs_words base L (t # cog_recs lgen gen) = rec_words base L t @ cog_words base lgen gen"
    "recs_lastpc L (cog_recs lgen gen @ [t]) = rec_pc t"
    "recs_lastpc L (t # cog_recs lgen gen) = rec_pc t"
  using assms by (simp_all add: cog_recs_def cog_words_def rec_words_def rec_lastpc_def)

definition plain_words :: "u64 \<Rightarrow> u64 \<Rightarrow> trec \<Rightarrow> u32 list" where
  "plain_words base L t = pc_op_words base L (rec_pc t) (rec_op t) @ fvals_words (rec_vals t)"

lemma rec_words_plain: "rec_op t \<noteq> RVP_OP_COG \<Longrightarrow> rec_words base L t = plain_words base L t"
  by (simp add: rec_words_def plain_words_def)

lemma icall_rec_op: "icall_ok c call \<Longrightarrow> rec_op (icall_rec ra call) \<noteq> RVP_OP_COG"
  by (cases call) auto

lemma rec_pc_icall [simp]: "rec_pc (icall_rec ra call) = ra"
  by (cases call) auto

lemma icall_run_words:
  assumes c: "deltops_fit (rt_base c)" "rt_operational c" and ok: "icall_ok c call"
  shows "icall_run c ra call e =
     (let (gen, e1) = icall_gen call e; lgen = r_lgen (e_ring e); L = r_lastpc (e_ring e);
          e2 = set_lgen (max lgen gen) (set_lastpc ra e1);
          ws = plain_words (rt_base c) L (icall_rec ra call)
      in ring_put_words e2 (case icall_cog call of
           CogBefore \<Rightarrow> cog_words (rt_base c) lgen gen @ ws
         | CogAfter \<Rightarrow> ws @ cog_words (rt_base c) lgen gen
         | NoCog \<Rightarrow> ws))"
proof -
  obtain gen e1 where g: "rvp_ggen_after_load e = (gen, e1)" by (cases "rvp_ggen_after_load e")
  then have e1: "e_ring e1 = e_ring e" using ggen_same(1) [of e] by simp
  have l: "length (pc_op_words (rt_base c) (r_lastpc (e_ring e)) ra (rec_op (icall_rec ra call))) \<le> 4"
    "length (cog_words (rt_base c) (r_lgen (e_ring e)) gen) \<le> 4"
    by (rule length_pc_op_words_le length_cog_words)+
  show ?thesis
    using c ok l
    by (cases call)
       (auto simp: g e1 icall_gen_def trace_load_def trace_load8_def trace_store_def trace_store8_def
          rvpredict_func_entry_def rvpredict_func_exit_def trace_mutex_op_def
          trace_atomic_rmw_narrow_def trace_atomic_rmw4_def trace_atomic_rmw8_def
          rvp_buf_trace_load_cog_def env_trace_cog_words env_put_pc_and_op_of put_vals_of
          ring_put_buf_of plain_words_def onval_macro Let_def cbind_assoc)
qed

text \<open>A call puts its record, with the change of generation where there is one.\<close>

lemma icall_run_recs:
  assumes c: "deltops_fit (rt_base c)" "rt_operational c" and ok: "icall_ok c call"
  shows "icall_run c ra call e =
     (let (gen, e1) = icall_gen call e; lgen = r_lgen (e_ring e) in
      emit_recs (rt_base c) (icall_recs ra call lgen gen) (set_lgen (max lgen gen) e1))"
proof -
  have e1: "e_ring (snd (icall_gen call e)) = e_ring e"
    by (simp add: icall_gen_def)
  have lp: "r_lastpc (e_ring (set_lgen g (snd (icall_gen call e)))) = r_lastpc (e_ring e)" for g
    by (simp add: e1)
  show ?thesis
    using words_of_recs [OF icall_rec_op [OF ok]] lp
    by (simp add: icall_run_words [OF c ok] emit_recs_def icall_recs_def rec_words_plain [OF icall_rec_op [OF ok]]
        rec_lastpc_def icall_rec_op [OF ok] case_prod_unfold Let_def split: cog_place.split)
qed

section \<open>Arithmetic on narrow operands\<close>

definition sample_rt :: rvp_rt where
  "sample_rt = \<lparr> rt_base = 0x400000, rt_cov_begin = 0x10, rt_cov_end = 0x20, rt_operational = True \<rparr>"

lemma sample_rt_ok: "deltops_fit (rt_base sample_rt)" "rt_operational sample_rt"
  by (simp_all add: sample_rt_def deltops_fit_def)

lemma uint_to_u16: "uint (to_u16 v) = uint v mod 65536"
  by (simp add: to_u16_def unsigned_ucast_eq unsigned_take_bit_eq take_bit_eq_mod)

lemma uint_ucast_u16: "uint (ucast (v :: u8) :: u16) = uint v"
  by (simp add: unsigned_ucast_eq unsigned_take_bit_eq take_bit_eq_mod) (use uint_lt2p [of v] in simp)

lemma uint_to_int: "uint (to_int (v :: u8)) = uint v"
  using uint_lt2p [of v] by (simp add: to_int_def unsigned_ucast_eq take_bit_int_eq_self)

lemma uint_to_int16: "uint (to_int (v :: u16)) = uint v"
  using uint_lt2p [of v] by (simp add: to_int_def unsigned_ucast_eq take_bit_int_eq_self)

lemma mod_32:
  "(x :: int) mod 4294967296 mod 256 = x mod 256" "x mod 4294967296 mod 65536 = x mod 65536"
  by (rule mod_mod_cancel, simp)+

lemma uint_and_mask:
  "uint (v AND 0xff :: 32 word) = uint v mod 256" "uint (v AND 0xffff :: 32 word) = uint v mod 65536"
proof -
  have "(0xff :: int) = mask 8" "(0xffff :: int) = mask 16" by (simp_all add: mask_eq_exp_minus_1)
  then show "uint (v AND 0xff :: 32 word) = uint v mod 256" "uint (v AND 0xffff :: 32 word) = uint v mod 65536"
    using take_bit_eq_mask [of 8 "uint v"] take_bit_eq_mask [of 16 "uint v"]
    by (simp_all add: unsigned_and_eq take_bit_eq_mod)
qed

section \<open>Properties\<close>

text \<open>
  The narrow read-modify-write operations log what they do to memory: the arithmetic that C
  does in \<open>int\<close>, masked and truncated, is the arithmetic of the 8-bit or 16-bit object, so
  that the logged new value is the value memory holds afterwards. For the 8-bit addition this
  is so when the sum does not overflow.
\<close>

lemma narrow_rmw_logs_memory:
  shows "rvpredict_atomic_fetch_sub1 c ra addr oval1 arg1 e = trace_atomic_rmw1 c ra addr oval1 (oval1 - arg1) e \<and>
   rvpredict_atomic_fetch_or1 c ra addr oval1 arg1 e = trace_atomic_rmw1 c ra addr oval1 (oval1 OR arg1) e \<and>
   rvpredict_atomic_fetch_and1 c ra addr oval1 arg1 e = trace_atomic_rmw1 c ra addr oval1 (oval1 AND arg1) e \<and>
   rvpredict_atomic_fetch_xor1 c ra addr oval1 arg1 e = trace_atomic_rmw1 c ra addr oval1 (oval1 XOR arg1) e \<and>
   rvpredict_atomic_fetch_add2 c ra addr oval2 arg2 e = trace_atomic_rmw2 c ra addr oval2 (oval2 + arg2) e \<and>
   rvpredict_atomic_fetch_sub2 c ra addr oval2 arg2 e = trace_atomic_rmw2 c ra addr oval2 (oval2 - arg2) e \<and>
   rvpredict_atomic_fetch_or2 c ra addr oval2 arg2 e = trace_atomic_rmw2 c ra addr oval2 (oval2 OR arg2) e \<and>
   rvpredict_atomic_fetch_and2 c ra addr oval2 arg2 e = trace_atomic_rmw2 c ra addr oval2 (oval2 AND arg2) e \<and>
   rvpredict_atomic_fetch_xor2 c ra addr oval2 arg2 e = trace_atomic_rmw2 c ra addr oval2 (oval2 XOR arg2) e \<and>
   (unat oval1 + unat arg1 < 256 \<longrightarrow>
    rvpredict_atomic_fetch_add1 c ra addr oval1 arg1 e = trace_atomic_rmw1 c ra addr oval1 (oval1 + arg1) e)"
proof -
  have bits: "to_u16 (to_int oval1 OR to_int arg1) = ucast (oval1 OR arg1)"
    "to_u16 (to_int oval1 AND to_int arg1) = ucast (oval1 AND arg1)"
    "to_u16 (to_int oval1 XOR to_int arg1) = ucast (oval1 XOR arg1)"
    "to_u16 (to_int oval2 OR to_int arg2) = oval2 OR arg2"
    "to_u16 (to_int oval2 AND to_int arg2) = oval2 AND arg2"
    "to_u16 (to_int oval2 XOR to_int arg2) = oval2 XOR arg2"
    by (rule bit_word_eqI; auto simp: to_u16_def to_int_def bit_simps)+
  have sub: "to_u16 ((to_int oval1 - to_int arg1) AND 0xff) = ucast (oval1 - arg1)"
    "to_u16 ((to_int oval2 - to_int arg2) AND 0xffff) = oval2 - arg2"
    "to_u16 (to_int oval2 + to_int arg2) = oval2 + arg2"
    using uint_to_int [of oval1] uint_to_int [of arg1] uint_to_int16 [of oval2] uint_to_int16 [of arg2]
    by (simp_all add: word_uint_eq_iff uint_to_u16 uint_word_ariths uint_and_mask mod_32 uint_ucast_u16)
  have add: "to_u16 (to_int oval1 + to_int arg1) = ucast (oval1 + arg1)" if "unat oval1 + unat arg1 < 256"
  proof -
    have "uint oval1 + uint arg1 < 256" using that unfolding uint_nat by linarith
    moreover have "0 \<le> uint oval1 + uint arg1" by simp
    ultimately show ?thesis
      by (simp add: word_uint_eq_iff uint_to_u16 uint_word_ariths uint_ucast_u16 uint_to_int)
  qed
  show ?thesis
    by (simp add: bits sub add trace_atomic_rmw1_def trace_atomic_rmw2_def
        rvpredict_atomic_fetch_sub1_def rvpredict_atomic_fetch_or1_def rvpredict_atomic_fetch_and1_def
        rvpredict_atomic_fetch_xor1_def rvpredict_atomic_fetch_add2_def rvpredict_atomic_fetch_sub2_def
        rvpredict_atomic_fetch_or2_def rvpredict_atomic_fetch_and2_def rvpredict_atomic_fetch_xor2_def
        rvpredict_atomic_fetch_add1_def)
qed


lemma narrow_rmw_logs_memory_witness:
  "rvpredict_atomic_fetch_add1 sample_rt 0x500000 0x8000 200 10 (sample_env 0 64) =
     trace_atomic_rmw1 sample_rt 0x500000 0x8000 200 210 (sample_env 0 64)"
  using narrow_rmw_logs_memory [of sample_rt "0x500000" "0x8000" 200 10 "sample_env 0 64"]
  by simp

text \<open>
  The 8-bit atomic addition is the exception among the read-modify-write operations: it
  passes the sum on as \<open>uint16_t\<close> without reducing it to 8 bits, so what it logs as the new
  value is what memory holds just when the addition does not carry.
\<close>

lemma atomic_add1_logs_the_carry:
  "rvpredict_atomic_fetch_add1 c ra addr oval arg e =
     icall_run c ra (CRmwNarrow RVP_OP_ATOMIC_RMW1 addr (ucast oval) (ucast oval + ucast arg)) e \<and>
   ((ucast oval + ucast arg :: u16) = ucast (oval + arg) \<longleftrightarrow> unat oval + unat arg < 256)"
proof -
  have lt: "uint oval < 256" "uint arg < 256" using uint_lt2p [of oval] uint_lt2p [of arg] by simp_all
  have "to_u16 (to_int oval + to_int arg) = ucast oval + ucast arg"
    using lt by (simp add: word_uint_eq_iff uint_to_u16 uint_word_ariths uint_ucast_u16 uint_to_int)
  moreover have "(ucast oval + ucast arg :: u16) = ucast (oval + arg) \<longleftrightarrow> uint oval + uint arg < 256"
  proof -
    have "(ucast oval + ucast arg :: u16) = ucast (oval + arg) \<longleftrightarrow>
        uint oval + uint arg = (uint oval + uint arg) mod 256"
      using lt by (simp add: word_uint_eq_iff uint_word_ariths uint_ucast_u16)
    also have "\<dots> \<longleftrightarrow> uint oval + uint arg < 256"
      using lt by (metis mod_pos_pos_trivial pos_mod_bound add_nonneg_nonneg uint_ge_0 zero_less_numeral)
    finally show ?thesis .
  qed
  moreover have "unat oval + unat arg < 256 \<longleftrightarrow> uint oval + uint arg < 256"
    unfolding uint_nat by linarith
  ultimately show ?thesis
    by (simp add: rvpredict_atomic_fetch_add1_def)
qed

text \<open>
  Compare-and-set logs what happens: when memory holds the expected value, an atomic update
  from it to the desired value; otherwise an atomic load of what memory holds. The function
  returns what memory held in either case.
\<close>

lemma cas_logs_update_or_load:
  "rvpredict_atomic_cas1 c ra addr cur1 exp1 des1 e =
     cbind (icall_run c ra (if cur1 = exp1 then CRmwNarrow RVP_OP_ATOMIC_RMW1 addr (ucast cur1) (ucast des1)
       else CLoad RVP_OP_ATOMIC_LOAD1 addr (ucast cur1)) e) (\<lambda>e. Inr (cur1, if cur1 = exp1 then des1 else cur1, e)) \<and>
   rvpredict_atomic_cas2 c ra addr cur2 exp2 des2 e =
     cbind (icall_run c ra (if cur2 = exp2 then CRmwNarrow RVP_OP_ATOMIC_RMW2 addr cur2 des2
       else CLoad RVP_OP_ATOMIC_LOAD2 addr (ucast cur2)) e) (\<lambda>e. Inr (cur2, if cur2 = exp2 then des2 else cur2, e)) \<and>
   rvpredict_atomic_cas4 c ra addr cur4 exp4 des4 e =
     cbind (icall_run c ra (if cur4 = exp4 then CRmw4 addr cur4 des4
       else CLoad RVP_OP_ATOMIC_LOAD4 addr cur4) e) (\<lambda>e. Inr (cur4, if cur4 = exp4 then des4 else cur4, e)) \<and>
   rvpredict_atomic_cas8 c ra addr cur8 exp8 des8 e =
     cbind (icall_run c ra (if cur8 = exp8 then CRmw8 addr cur8 des8
       else CLoad8 RVP_OP_ATOMIC_LOAD8 addr cur8) e) (\<lambda>e. Inr (cur8, if cur8 = exp8 then des8 else cur8, e))"
  by (auto simp: rvpredict_atomic_cas1_def rvpredict_atomic_cas2_def rvpredict_atomic_cas4_def
      rvpredict_atomic_cas8_def trace_atomic_rmw1_def trace_atomic_rmw2_def)

end
