(* ===== verification/Reader.thy ===== *)
theory Reader
  imports Deltop Format Io "HOL-Library.While_Combinator"
begin

text \<open>
  The trace reader, \<^verbatim>\<open>llvm/librvread/reader.c\<close>: the parse state of every thread, the decoding
  of one trace record at the front of a buffer, and the loop that feeds the buffer from a
  file. What is done with a record is left to a table of functions, the emitters, as in the
  code; the printing emitters are in theory \<open>Reader_Print\<close>. Memory allocation succeeds or not
  by the parameter \<open>alloc\<close>, applied to the number of elements.
\<close>

section \<open>Parse state\<close>

record rvp_frame =
  f_pc :: rvp_addr
  f_cfa :: rvp_addr

record rvp_callstack =
  cs_frame :: "rvp_frame list"
  cs_depth :: nat
  cs_nframes :: nat

definition RVP_SIGNAL_DEPTH :: nat where [cdefs]: "RVP_SIGNAL_DEPTH = 16"

record rvp_thread_pstate =
  ts_present :: bool
  ts_callstack :: "rvp_callstack list"
  ts_lastpc :: "u64 list"
  ts_generation :: "u64 list"
  ts_nops :: "u64 list"
  ts_last_gid :: "u64 list"
  ts_sigs_masked :: bool

record rvp_pstate =
  ps_thread :: "rvp_thread_pstate list"
  ps_nthreads :: u32
  ps_deltop_first :: u64
  ps_deltop_center :: u64
  ps_deltop_last :: u64
  ps_curthread :: u32
  ps_idepth :: u32
  ps_emit_generation :: bool
  ps_emit_bytes :: bool

text \<open>
  The table of emitters. \<open>'o\<close> is what an emitter writes: text for the printing emitters,
  bytes for the one that writes a trace again.
\<close>

record 'o rvp_emitters =
  em_init :: "(rvp_pstate \<Rightarrow> rvp_trace_header \<Rightarrow> 'o cres) option"
  em_emit_nop :: "rvp_pstate \<Rightarrow> u8 list \<Rightarrow> 'o cres"
  em_emit_op :: "rvp_pstate \<Rightarrow> u8 list \<Rightarrow> rvp_op \<Rightarrow> bool \<Rightarrow> nat \<Rightarrow> 'o cres"

section \<open>Operations and their records\<close>

fun op_to_info :: "rvp_op \<Rightarrow> (layout \<times> string) option" where
    "op_to_info RVP_OP_ENTERFN = Some (rvp_enterfn_t, ''enter function'')"
  | "op_to_info RVP_OP_EXITFN = Some (rvp_end_exitfn_t, ''exit function'')"
  | "op_to_info RVP_OP_BEGIN = Some (rvp_begin_t, ''begin thread'')"
  | "op_to_info RVP_OP_COG = Some (rvp_cog_t, ''change of generation'')"
  | "op_to_info RVP_OP_END = Some (rvp_end_exitfn_t, ''end thread'')"
  | "op_to_info RVP_OP_SIGDEPTH = Some (rvp_sigdepth_t, ''signal depth'')"
  | "op_to_info RVP_OP_SWITCH = Some (rvp_fork_join_switch_t, ''switch thread'')"
  | "op_to_info RVP_OP_FORK = Some (rvp_fork_join_switch_t, ''fork thread'')"
  | "op_to_info RVP_OP_JOIN = Some (rvp_fork_join_switch_t, ''join thread'')"
  | "op_to_info RVP_OP_LOAD1 = Some (rvp_load1_2_4_store1_2_4_t, ''load 1'')"
  | "op_to_info RVP_OP_STORE1 = Some (rvp_load1_2_4_store1_2_4_t, ''store 1'')"
  | "op_to_info RVP_OP_LOAD2 = Some (rvp_load1_2_4_store1_2_4_t, ''load 2'')"
  | "op_to_info RVP_OP_STORE2 = Some (rvp_load1_2_4_store1_2_4_t, ''store 2'')"
  | "op_to_info RVP_OP_LOAD4 = Some (rvp_load1_2_4_store1_2_4_t, ''load 4'')"
  | "op_to_info RVP_OP_STORE4 = Some (rvp_load1_2_4_store1_2_4_t, ''store 4'')"
  | "op_to_info RVP_OP_LOAD8 = Some (rvp_load8_store8_t, ''load 8'')"
  | "op_to_info RVP_OP_STORE8 = Some (rvp_load8_store8_t, ''store 8'')"
  | "op_to_info RVP_OP_ATOMIC_RMW1 = Some (rvp_rmw1_2_t, ''atomic rmw 1'')"
  | "op_to_info RVP_OP_ATOMIC_RMW2 = Some (rvp_rmw1_2_t, ''atomic rmw 2'')"
  | "op_to_info RVP_OP_ATOMIC_RMW4 = Some (rvp_rmw4_t, ''atomic rmw 4'')"
  | "op_to_info RVP_OP_ATOMIC_RMW8 = Some (rvp_rmw8_t, ''atomic rmw 8'')"
  | "op_to_info RVP_OP_ATOMIC_LOAD1 = Some (rvp_load1_2_4_store1_2_4_t, ''atomic load 1'')"
  | "op_to_info RVP_OP_ATOMIC_STORE1 = Some (rvp_load1_2_4_store1_2_4_t, ''atomic store 1'')"
  | "op_to_info RVP_OP_ATOMIC_LOAD2 = Some (rvp_load1_2_4_store1_2_4_t, ''atomic load 2'')"
  | "op_to_info RVP_OP_ATOMIC_STORE2 = Some (rvp_load1_2_4_store1_2_4_t, ''atomic store 2'')"
  | "op_to_info RVP_OP_ATOMIC_LOAD4 = Some (rvp_load1_2_4_store1_2_4_t, ''atomic load 4'')"
  | "op_to_info RVP_OP_ATOMIC_STORE4 = Some (rvp_load1_2_4_store1_2_4_t, ''atomic store 4'')"
  | "op_to_info RVP_OP_ATOMIC_LOAD8 = Some (rvp_load8_store8_t, ''atomic load 8'')"
  | "op_to_info RVP_OP_ATOMIC_STORE8 = Some (rvp_load8_store8_t, ''atomic store 8'')"
  | "op_to_info RVP_OP_ACQUIRE = Some (rvp_acquire_release_t, ''acquire mutex'')"
  | "op_to_info RVP_OP_RELEASE = Some (rvp_acquire_release_t, ''release mutex'')"
  | "op_to_info RVP_OP_ENTERSIG = Some (rvp_entersig_t, ''enter signal handler'')"
  | "op_to_info RVP_OP_EXITSIG = Some (rvp_exitsig_t, ''exit signal handler'')"
  | "op_to_info RVP_OP_SIGEST = Some (rvp_sigest_t, ''establish signal action'')"
  | "op_to_info RVP_OP_SIGDIS = Some (rvp_sigdis_t, ''disestablish signal action'')"
  | "op_to_info RVP_OP_SIGMASKMEMO = Some (rvp_sigmaskmemo_t, ''memoize signal mask'')"
  | "op_to_info RVP_OP_SIGSETMASK = Some (rvp_sigmask_access_t, ''set signal mask'')"
  | "op_to_info RVP_OP_SIGGETMASK = Some (rvp_sigmask_access_t, ''get signal mask'')"
  | "op_to_info RVP_OP_SIGGETSETMASK = Some (rvp_sigmask_rmw_t, ''get & set signal mask'')"
  | "op_to_info RVP_OP_SIGBLOCK = Some (rvp_sigmask_access_t, ''block signals'')"
  | "op_to_info RVP_OP_SIGUNBLOCK = Some (rvp_sigmask_access_t, ''unblock signals'')"
  | "op_to_info _ = None"

text \<open>The members of the union \<open>rvp_ubuf_t\<close>: field \<open>i\<close> of the layout at the front of the buffer.\<close>

definition fld32 :: "layout \<Rightarrow> nat \<Rightarrow> u8 list \<Rightarrow> u32" where
  "fld32 l i ub = read_u32 (drop (layout_size (take i l)) ub)"

definition fld64 :: "layout \<Rightarrow> nat \<Rightarrow> u8 list \<Rightarrow> u64" where
  "fld64 l i ub = read_u64 (drop (layout_size (take i l)) ub)"

definition ub_pc :: "u8 list \<Rightarrow> u64" where
  "ub_pc ub = read_u64 ub"

section \<open>Call stacks\<close>

text \<open>
  \<open>cs_depth\<close> and \<open>cs_nframes\<close> are of type \<open>int\<close> in the code. They are never negative, and an operation
  whose result is beyond \<open>INT_MAX\<close> is undefined.
\<close>

definition int_overflows :: "nat \<Rightarrow> bool" where
  "int_overflows n \<longleftrightarrow> 2 ^ 31 \<le> n"

definition rvp_callstack_expand :: "(nat \<Rightarrow> bool) \<Rightarrow> rvp_callstack \<Rightarrow> rvp_callstack cres" where
  "rvp_callstack_expand alloc cs =
     (let nframes = max 8 (2 * cs_nframes cs) in
      if int_overflows (2 * cs_nframes cs) then Inl Undefined
      else if \<not> alloc nframes then Inl Exited
      else Inr (cs\<lparr> cs_frame := cs_frame cs @
                      replicate (nframes - cs_nframes cs) \<lparr> f_pc = 0, f_cfa = 0 \<rparr>,
                    cs_nframes := nframes \<rparr>))"

definition rvp_callstack_push ::
    "(nat \<Rightarrow> bool) \<Rightarrow> rvp_callstack \<Rightarrow> rvp_addr \<Rightarrow> rvp_addr \<Rightarrow> rvp_callstack cres" where
  "rvp_callstack_push alloc cs pc cfa =
     cbind (if cs_depth cs = cs_nframes cs then rvp_callstack_expand alloc cs else Inr cs) (\<lambda>cs.
       if cs_depth cs < length (cs_frame cs) \<and> \<not> int_overflows (cs_depth cs + 1)
       then Inr (cs\<lparr> cs_frame := (cs_frame cs)[cs_depth cs := \<lparr> f_pc = pc, f_cfa = cfa \<rparr>],
                     cs_depth := cs_depth cs + 1 \<rparr>)
       else Inl Undefined)"

definition rvp_callstack_pop :: "rvp_callstack \<Rightarrow> rvp_callstack cres" where
  "rvp_callstack_pop cs =
     cbind (cassert (cs_depth cs > 0)) (\<lambda>_. Inr (cs\<lparr> cs_depth := cs_depth cs - 1 \<rparr>))"

section \<open>The buffer\<close>

text \<open>The buffer is the list of its \<open>*nfullp\<close> valid bytes.\<close>

definition advance :: "u8 list \<Rightarrow> nat \<Rightarrow> u8 list cres" where
  "advance buf nbytes = cbind (cassert (length buf \<ge> nbytes)) (\<lambda>_. Inr (drop nbytes buf))"

section \<open>Threads\<close>

definition null_callstack :: rvp_callstack where
  "null_callstack = \<lparr> cs_frame = [], cs_depth = 0, cs_nframes = 0 \<rparr>"

text \<open>What \<open>calloc\<close> leaves in an element.\<close>

definition zero_thread_pstate :: rvp_thread_pstate where
  "zero_thread_pstate = \<lparr> ts_present = False,
     ts_callstack = replicate RVP_SIGNAL_DEPTH null_callstack,
     ts_lastpc = replicate RVP_SIGNAL_DEPTH 0, ts_generation = replicate RVP_SIGNAL_DEPTH 0,
     ts_nops = replicate RVP_SIGNAL_DEPTH 0, ts_last_gid = replicate RVP_SIGNAL_DEPTH 0,
     ts_sigs_masked = False \<rparr>"

text \<open>The loop that doubles \<open>ps_nthreads\<close>; it wraps to 0 and never ends for a \<open>tid\<close> of \<open>2 ^ 31\<close> or more.\<close>

definition double_nthreads :: "u32 \<Rightarrow> u32 \<Rightarrow> u32 option" where
  "double_nthreads tid n = while_option (\<lambda>n. tid \<ge> n) (\<lambda>n. n * 2) n"

definition rvp_pstate_extend_threads_over ::
    "(nat \<Rightarrow> bool) \<Rightarrow> rvp_pstate \<Rightarrow> u32 \<Rightarrow> rvp_thread_pstate list \<Rightarrow> u32 \<Rightarrow> rvp_pstate cres" where
  "rvp_pstate_extend_threads_over alloc ps tid othread onthreads =
     cbind (cassert (tid \<ge> onthreads)) (\<lambda>_.
       case double_nthreads tid (max 8 onthreads) of
         None \<Rightarrow> Inl Waiting
       | Some nthreads \<Rightarrow>
           if \<not> alloc (unat nthreads) then Inl Exited
           else Inr (ps\<lparr> ps_nthreads := nthreads,
             ps_thread := map (\<lambda>i. if i < unat onthreads \<and> ts_present (othread ! i) then othread ! i
                                   else zero_thread_pstate) [0..<unat nthreads] \<rparr>))"

definition rvp_pstate_begin_thread ::
    "(nat \<Rightarrow> bool) \<Rightarrow> rvp_pstate \<Rightarrow> u32 \<Rightarrow> u64 \<Rightarrow> rvp_pstate cres" where
  "rvp_pstate_begin_thread alloc ps tid generation =
     cbind (if ps_nthreads ps \<le> tid
            then rvp_pstate_extend_threads_over alloc ps tid (ps_thread ps) (ps_nthreads ps)
            else Inr ps) (\<lambda>ps.
       let ps = ps\<lparr> ps_curthread := tid, ps_idepth := 0 \<rparr>; ts = ps_thread ps ! unat tid in
       cbind (cassert (\<not> ts_present ts)) (\<lambda>_.
         let ts = ts\<lparr> ts_lastpc := map (\<lambda>_. ps_deltop_center ps) (ts_lastpc ts),
                      ts_callstack := (ts_callstack ts)[0 := null_callstack, 1 := null_callstack],
                      ts_present := True,
                      ts_generation := (ts_generation ts)[0 := generation, 1 := 0],
                      ts_nops := (ts_nops ts)[unat (ps_idepth ps) := 0],
                      ts_sigs_masked := False \<rparr>
         in Inr (ps\<lparr> ps_thread := (ps_thread ps)[unat tid := ts] \<rparr>)))"

definition rvp_pstate_init :: "rvp_pstate \<Rightarrow> bool \<Rightarrow> bool \<Rightarrow> u64 \<Rightarrow> rvp_pstate" where
  "rvp_pstate_init ps emit_generation emit_bytes op0 =
     ps\<lparr> ps_emit_generation := emit_generation, ps_emit_bytes := emit_bytes,
         ps_deltop_center := op0, ps_deltop_first := ps_first_of op0,
         ps_deltop_last := ps_last_of (ps_first_of op0),
         ps_thread := [], ps_nthreads := 0 \<rparr>"

definition pc_is_not_deltop :: "rvp_pstate \<Rightarrow> u64 \<Rightarrow> bool" where
  "pc_is_not_deltop ps pc \<longleftrightarrow> pc < ps_deltop_first ps \<or> ps_deltop_last ps < pc"

text \<open>
  \<open>&ps->ps_thread[ps->ps_curthread]\<close>, for an access at depth \<open>ps_idepth\<close>: out of bounds when
  the trace switched to a thread that never began.
\<close>

definition cur_ts :: "rvp_pstate \<Rightarrow> rvp_thread_pstate cres" where
  "cur_ts ps =
     (if unat (ps_curthread ps) < length (ps_thread ps) \<and> unat (ps_idepth ps) < RVP_SIGNAL_DEPTH
      then Inr (ps_thread ps ! unat (ps_curthread ps)) else Inl Undefined)"

definition set_cur_ts :: "rvp_pstate \<Rightarrow> rvp_thread_pstate \<Rightarrow> rvp_pstate" where
  "set_cur_ts ps ts = ps\<lparr> ps_thread := (ps_thread ps)[unat (ps_curthread ps) := ts] \<rparr>"

definition depth :: "rvp_pstate \<Rightarrow> nat" where
  "depth ps = unat (ps_idepth ps)"

section \<open>One record\<close>

fun op_field_width :: "rvp_op \<Rightarrow> nat" where
    "op_field_width RVP_OP_ATOMIC_LOAD8 = 16" | "op_field_width RVP_OP_ATOMIC_STORE8 = 16"
  | "op_field_width RVP_OP_ATOMIC_RMW8 = 16" | "op_field_width RVP_OP_LOAD8 = 16"
  | "op_field_width RVP_OP_STORE8 = 16" | "op_field_width RVP_OP_ATOMIC_LOAD4 = 8"
  | "op_field_width RVP_OP_ATOMIC_STORE4 = 8" | "op_field_width RVP_OP_ATOMIC_RMW4 = 8"
  | "op_field_width RVP_OP_LOAD4 = 8" | "op_field_width RVP_OP_STORE4 = 8"
  | "op_field_width RVP_OP_ATOMIC_LOAD2 = 4" | "op_field_width RVP_OP_ATOMIC_STORE2 = 4"
  | "op_field_width RVP_OP_ATOMIC_RMW2 = 4" | "op_field_width RVP_OP_LOAD2 = 4"
  | "op_field_width RVP_OP_STORE2 = 4" | "op_field_width RVP_OP_ATOMIC_LOAD1 = 2"
  | "op_field_width RVP_OP_ATOMIC_STORE1 = 2" | "op_field_width RVP_OP_ATOMIC_RMW1 = 2"
  | "op_field_width RVP_OP_LOAD1 = 2" | "op_field_width RVP_OP_STORE1 = 2"
  | "op_field_width _ = 0"

definition op_is_load :: "rvp_op \<Rightarrow> bool" where
  "op_is_load op \<longleftrightarrow> op \<in> {RVP_OP_ATOMIC_LOAD8, RVP_OP_ATOMIC_LOAD4, RVP_OP_ATOMIC_LOAD2,
     RVP_OP_ATOMIC_LOAD1, RVP_OP_LOAD8, RVP_OP_LOAD4, RVP_OP_LOAD2, RVP_OP_LOAD1}"

text \<open>Before the record is emitted: a new thread, the generation of a handler, the program counter, the call stack.\<close>

definition consume_begin :: "(nat \<Rightarrow> bool) \<Rightarrow> rvp_pstate \<Rightarrow> u8 list \<Rightarrow> rvp_op \<Rightarrow> rvp_pstate cres" where
  "consume_begin alloc ps ub op =
     (if op = RVP_OP_BEGIN
      then rvp_pstate_begin_thread alloc ps (fld32 rvp_begin_t 1 ub) (fld64 rvp_begin_t 2 ub)
      else if op = RVP_OP_ENTERSIG
      then cbind (cur_ts ps) (\<lambda>ts. Inr (set_cur_ts ps
             (ts\<lparr> ts_generation := (ts_generation ts)[depth ps := fld64 rvp_entersig_t 2 ub] \<rparr>)))
      else Inr ps)"

definition consume_pc :: "rvp_pstate \<Rightarrow> 32 word \<Rightarrow> (u64 \<times> rvp_pstate) cres" where
  "consume_pc ps jmpvec =
     cbind (cur_ts ps) (\<lambda>ts.
       let pc = ts_lastpc ts ! depth ps + scast jmpvec in
       Inr (pc, set_cur_ts ps (ts\<lparr> ts_lastpc := (ts_lastpc ts)[depth ps := pc] \<rparr>)))"

definition consume_calls ::
    "(nat \<Rightarrow> bool) \<Rightarrow> rvp_pstate \<Rightarrow> u8 list \<Rightarrow> rvp_op \<Rightarrow> u64 \<Rightarrow> rvp_pstate cres" where
  "consume_calls alloc ps ub op pc =
     (if op = RVP_OP_ENTERFN then
        cbind (cur_ts ps) (\<lambda>ts.
        cbind (rvp_callstack_push alloc (ts_callstack ts ! depth ps) pc (fld64 rvp_enterfn_t 1 ub)) (\<lambda>cs.
        Inr (set_cur_ts ps (ts\<lparr> ts_callstack := (ts_callstack ts)[depth ps := cs] \<rparr>))))
      else if op = RVP_OP_EXITFN then
        cbind (cur_ts ps) (\<lambda>ts.
        cbind (rvp_callstack_pop (ts_callstack ts ! depth ps)) (\<lambda>cs.
        Inr (set_cur_ts ps (ts\<lparr> ts_callstack := (ts_callstack ts)[depth ps := cs] \<rparr>))))
      else Inr ps)"

text \<open>After it: a change of generation, the end of a thread, a switch of thread or of signal depth.\<close>

definition consume_cog :: "rvp_pstate \<Rightarrow> u8 list \<Rightarrow> rvp_op \<Rightarrow> rvp_pstate cres" where
  "consume_cog ps ub op =
     (if op = RVP_OP_COG then
        cbind (cassert (depth ps < RVP_SIGNAL_DEPTH)) (\<lambda>_.
        cbind (cur_ts ps) (\<lambda>ts.
        cbind (cassert (ts_generation ts ! depth ps < fld64 rvp_cog_t 1 ub)) (\<lambda>_.
        Inr (set_cur_ts ps
          (ts\<lparr> ts_generation := (ts_generation ts)[depth ps := fld64 rvp_cog_t 1 ub],
              ts_nops := (ts_nops ts)[depth ps := 0] \<rparr>)))))
      else Inr ps)"

definition consume_end :: "rvp_pstate \<Rightarrow> rvp_op \<Rightarrow> rvp_pstate cres" where
  "consume_end ps op =
     (if op = RVP_OP_END
      then cbind (cur_ts ps) (\<lambda>ts. Inr (set_cur_ts ps (ts\<lparr> ts_present := False \<rparr>)))
      else Inr ps)"

definition consume_context :: "rvp_pstate \<Rightarrow> u8 list \<Rightarrow> rvp_op \<Rightarrow> rvp_pstate cres" where
  "consume_context ps ub op =
     (if op = RVP_OP_SWITCH
      then Inr (ps\<lparr> ps_curthread := fld32 rvp_fork_join_switch_t 1 ub, ps_idepth := 0 \<rparr>)
      else if op = RVP_OP_EXITSIG
      then cbind (cassert (ps_idepth ps \<noteq> 0)) (\<lambda>_. Inr ps)
      else if op = RVP_OP_SIGDEPTH
      then cbind (cassert (unat (fld32 rvp_sigdepth_t 1 ub) < RVP_SIGNAL_DEPTH)) (\<lambda>_.
             Inr (ps\<lparr> ps_idepth := fld32 rvp_sigdepth_t 1 ub \<rparr>))
      else Inr ps)"

text \<open>
  The result: the number of bytes the buffer is short of, the state, the bytes that remain,
  and what was emitted.
\<close>

definition consume_and_print_trace ::
    "(nat \<Rightarrow> bool) \<Rightarrow> 'o rvp_emitters \<Rightarrow> rvp_pstate \<Rightarrow> u8 list \<Rightarrow>
     (nat \<times> rvp_pstate \<times> u8 list \<times> 'o list) cres" where
  "consume_and_print_trace alloc em ps ub =
     (if pc_is_not_deltop ps (ub_pc ub) then
        cbind (cur_ts ps) (\<lambda>ts.
        let ps = set_cur_ts ps (ts\<lparr> ts_lastpc := (ts_lastpc ts)[depth ps := ub_pc ub] \<rparr>) in
        cbind (em_emit_nop em ps ub) (\<lambda>out.
        cbind (advance ub 8) (\<lambda>ub.
        Inr (0, ps, ub, [out]))))
      else
        cbind (extract_jmpvec_and_op_from_deltop (ps_deltop_first ps) (ub_pc ub)) (\<lambda>(jmpvec, op).
        case op_to_info op of
          None \<Rightarrow> Inl Exited
        | Some (oi, _) \<Rightarrow>
            if length ub < layout_size oi then Inr (layout_size oi - length ub, ps, ub, [])
            else
              cbind (consume_begin alloc ps ub op) (\<lambda>ps.
              cbind (cassert (op \<noteq> RVP_OP_ENTERSIG \<or> ps_idepth ps \<noteq> 0)) (\<lambda>_.
              cbind (consume_pc ps jmpvec) (\<lambda>(pc, ps).
              cbind (consume_calls alloc ps ub op pc) (\<lambda>ps.
              cbind (em_emit_op em ps ub op (op_is_load op) (op_field_width op)) (\<lambda>out.
              cbind (consume_cog ps ub op) (\<lambda>ps.
              cbind (consume_end ps op) (\<lambda>ps.
              cbind (consume_context ps ub op) (\<lambda>ps.
              cbind (advance ub (layout_size oi)) (\<lambda>ub.
              Inr (0, ps, ub, [out]))))))))))))"

section \<open>The file\<close>

text \<open>
  A file is the bytes that remain and what the coming reads deliver at most: at least one
  byte when there is one, and everything asked for when the list is exhausted. A read may
  fail.
\<close>

record input =
  in_bytes :: "u8 list"
  in_sched :: "nat option list"

text \<open>\<open>read(2)\<close>: \<open>None\<close> is -1.\<close>

definition sys_read :: "input \<Rightarrow> nat \<Rightarrow> u8 list option \<times> input" where
  "sys_read f n = (case in_sched f of
       [] \<Rightarrow> (Some (take n (in_bytes f)), f\<lparr> in_bytes := drop n (in_bytes f) \<rparr>)
     | None # ss \<Rightarrow> (None, f\<lparr> in_sched := ss \<rparr>)
     | Some s # ss \<Rightarrow> (let n = min n (Suc s) in
         (Some (take n (in_bytes f)), \<lparr> in_bytes = drop n (in_bytes f), in_sched = ss \<rparr>)))"

text \<open>\<open>readv(2)\<close>, which appends what it reads to the bytes read so far.\<close>

definition sys_readv :: "input \<times> u8 list \<Rightarrow> iovec list \<Rightarrow> int \<times> input \<times> u8 list" where
  "sys_readv s iov = (let (f, got) = s in
     case sys_read f (nat (iov_bytes iov)) of
       (None, f) \<Rightarrow> (-1, f, got)
     | (Some bs, f) \<Rightarrow> (int (length bs), f, got @ bs))"

definition header_iov :: "iovec list" where
  "header_iov = [\<lparr> iov_base = 0, iov_len = 16 \<rparr>, \<lparr> iov_base = 16, iov_len = 8 \<rparr>,
     \<lparr> iov_base = 24, iov_len = 4 \<rparr>, \<lparr> iov_base = 28, iov_len = 8 \<rparr>]"

definition header_of_bytes :: "u8 list \<Rightarrow> rvp_trace_header" where
  "header_of_bytes bs = \<lparr> th_magic = map (\<lambda>b. char_of (unat b)) (take 4 bs), th_version = take 4 (drop 4 bs),
     th_byteorder = read_u32 (drop 8 bs), th_pointer_width = bs ! 12, th_data_width = bs ! 13,
     th_pad1 = take 2 (drop 14 bs) \<rparr>"

definition expected_th :: rvp_trace_header where
  "expected_th = \<lparr> th_magic = ''RVP_'', th_version = [0, 0, 0, 3], th_byteorder = byteorder_word,
     th_pointer_width = 8, th_data_width = 4, th_pad1 = [0, 0] \<rparr>"

definition header_supported :: "rvp_trace_header \<Rightarrow> bool" where
  "header_supported th \<longleftrightarrow> th_magic th = th_magic expected_th \<and>
     th_version th = th_version expected_th \<and> th_byteorder th = th_byteorder expected_th \<and>
     th_pointer_width th = th_pointer_width expected_th \<and>
     th_data_width th = th_data_width expected_th"

text \<open>
  The \<open>do ... while\<close> loop: consume records while the buffer holds a program counter. The
  flag says that the limit on the number of records was reached. Every pass that goes on
  consumes at least 8 bytes, so \<open>fuel\<close> as large as the buffer is enough.
\<close>

fun consume_loop ::
    "(nat \<Rightarrow> bool) \<Rightarrow> 'o rvp_emitters \<Rightarrow> nat \<Rightarrow> nat \<Rightarrow> nat \<Rightarrow> rvp_pstate \<Rightarrow> u8 list \<Rightarrow>
     (bool \<times> nat \<times> nat \<times> rvp_pstate \<times> u8 list \<times> 'o list) cres" where
    "consume_loop alloc em 0 nrecords most ps ub = Inl Waiting"
  | "consume_loop alloc em (Suc fuel) nrecords most ps ub =
       (if nrecords = most then Inr (True, nrecords, 0, ps, ub, [])
        else cbind (consume_and_print_trace alloc em ps ub) (\<lambda>(nshort, ps, ub, out).
          if nshort \<noteq> 0 then Inr (False, nrecords, nshort, ps, ub, out)
          else if length ub \<ge> 8 then
            cbind (consume_loop alloc em fuel (nrecords + 1) most ps ub)
              (\<lambda>(stop, nrecords, nshort, ps, ub, out').
                Inr (stop, nrecords, nshort, ps, ub, out @ out'))
          else Inr (False, nrecords + 1, 0, ps, ub, out)))"

fun read_loop ::
    "(nat \<Rightarrow> bool) \<Rightarrow> 'o rvp_emitters \<Rightarrow> nat \<Rightarrow> nat \<Rightarrow> nat \<Rightarrow> nat \<Rightarrow> rvp_pstate \<Rightarrow> input \<Rightarrow> u8 list \<Rightarrow>
     'o list cres" where
    "read_loop alloc em 0 nrecords most nshort ps f ub = Inl Waiting"
  | "read_loop alloc em (Suc fuel) nrecords most nshort ps f ub =
       (case sys_read f (4096 - length ub) of
          (None, f) \<Rightarrow> Inl Exited
        | (Some bs, f) \<Rightarrow>
            let ub = ub @ bs in
            if length bs < nshort then Inl Exited
            else if length ub = 0 then Inr []
            else if length ub < 8 then Inl Exited
            else cbind (consume_loop alloc em (length ub) nrecords most ps ub)
              (\<lambda>(stop, nrecords, nshort, ps, ub, out).
                if stop then Inr out
                else cbind (read_loop alloc em fuel nrecords most nshort ps f ub) (\<lambda>out'.
                  Inr (out @ out'))))"

text \<open>\<open>ub.ub_begin = (rvp_begin_t){.deltop = pc0, .tid = tid}\<close> leaves the generation 0.\<close>

definition begin0_bytes :: "u64 \<Rightarrow> u32 \<Rightarrow> u8 list" where
  "begin0_bytes pc0 tid = bytes_of_u32s (fvals_words [VAddr pc0, V32 tid, V64 0])"

text \<open>The fuel is enough: every read but the last two delivers some bytes.\<close>

definition rvp_trace_dump_with_emitters ::
    "(nat \<Rightarrow> bool) \<Rightarrow> bool \<Rightarrow> bool \<Rightarrow> nat \<Rightarrow> 'o rvp_emitters \<Rightarrow> rvp_pstate \<Rightarrow> input \<Rightarrow> 'o list cres" where
  "rvp_trace_dump_with_emitters alloc emit_generation emit_bytes most em ps0 f =
     cbind (readallv sys_readv (f, []) header_iov) (\<lambda>(nread, f, got).
       if nread = -1 then Inl Exited
       else if nread < iovsum header_iov then Inl Exited
       else
         let th = header_of_bytes got; pc0 = read_u64 (drop 16 got); tid = read_u32 (drop 24 got) in
         if \<not> header_supported th then Inl Exited
         else if tid \<noteq> 1 then Inl Exited
         else
           let ps = rvp_pstate_init ps0 emit_generation emit_bytes pc0;
               ub = begin0_bytes pc0 tid
           in cbind (case em_init em of None \<Rightarrow> Inr []
                     | Some init \<Rightarrow> cbind (init ps th) (\<lambda>out. Inr [out])) (\<lambda>out0.
              cbind (read_loop alloc em (length (in_bytes f) + 2) 0 most 0 ps f ub) (\<lambda>out.
              Inr (out0 @ out))))"

end
