(* ===== verification/Reader_Print.thy ===== *)
theory Reader_Print
  imports Reader
begin

text \<open>
  The emitters of \<^verbatim>\<open>llvm/librvread/reader.c\<close>: plain text, text that a symbolizer rewrites,
  and the trace itself again. The text emitters write into fixed buffers and exit when a
  string does not fit.
\<close>

section \<open>Buffer sizes\<close>

text \<open>\<open>sizeof(prebuf_t)\<close>, \<open>sizeof(buf[1])\<close> in \<open>print_op\<close>, and \<open>sufbuf\<close>.\<close>

definition prebuf_size :: nat where
  "prebuf_size = (length ''tid 4294967295.4294967295 18446744073709551615 '' + 1) +
     max (length ''{0x0123456789abcdef}'' + 1) (length ''pc 0x0123456789abcdef'' + 1)"

definition databuf_size :: nat where
  "databuf_size = max (length ''{0x0123456789abcdef}'' + 1)
     (length ''[0x0123456789abcdef : 0x0123456789abcdef/0x0123456789abcdef 0x0123456789abcdef/0x0123456789abcdef]'' + 1)"

definition sufbuf_size :: nat where "sufbuf_size = 128"

section \<open>Pointers\<close>

type_synonym ptr_printer = "rvp_pstate \<Rightarrow> nat \<Rightarrow> rvp_addr \<Rightarrow> string cres"

definition insnptr_to_symbol_friendly_string :: ptr_printer where
  "insnptr_to_symbol_friendly_string ps buflen addr =
     snprintf_checked buflen (''{'' @ fmt_alt_0 16 (unat addr) @ ''}'')"

definition insnptr_to_simple_string :: ptr_printer where
  "insnptr_to_simple_string ps buflen addr =
     snprintf_checked buflen (''pc '' @ fmt_alt_0 16 (unat addr))"

definition dataptr_to_simple_string :: ptr_printer where
  "dataptr_to_simple_string ps buflen addr =
     snprintf_checked buflen (''['' @ fmt_alt_0 16 (unat addr) @ '']'')"

text \<open>The frames of the call stack whose frame addresses enclose an address most tightly.\<close>

definition nearer_hi :: "rvp_addr \<Rightarrow> rvp_frame option \<Rightarrow> rvp_frame \<Rightarrow> rvp_frame option" where
  "nearer_hi addr hi f =
     (if addr \<le> f_cfa f
      then (case hi of None \<Rightarrow> Some f | Some h \<Rightarrow> if f_cfa f < f_cfa h then Some f else hi)
      else hi)"

definition nearer_lo :: "rvp_addr \<Rightarrow> rvp_frame option \<Rightarrow> rvp_frame \<Rightarrow> rvp_frame option" where
  "nearer_lo addr lo f =
     (if f_cfa f < addr
      then (case lo of None \<Rightarrow> Some f | Some l \<Rightarrow> if f_cfa l < f_cfa f then Some f else lo)
      else lo)"

definition rvp_callstack_nearest_frames ::
    "rvp_callstack \<Rightarrow> rvp_addr \<Rightarrow> rvp_frame option \<times> rvp_frame option \<Rightarrow>
     rvp_frame option \<times> rvp_frame option" where
  "rvp_callstack_nearest_frames cs addr lohi =
     foldl (\<lambda>(lo, hi) f. (nearer_lo addr lo f, nearer_hi addr hi f)) lohi
       (take (cs_depth cs) (cs_frame cs))"

definition rvp_nearest_frames ::
    "rvp_pstate \<Rightarrow> rvp_addr \<Rightarrow> (rvp_frame option \<times> rvp_frame option) cres" where
  "rvp_nearest_frames ps addr =
     cbind (cur_ts ps) (\<lambda>ts.
       Inr (rvp_callstack_nearest_frames (ts_callstack ts ! depth ps) addr (None, None)))"

definition frame_string :: "rvp_frame \<Rightarrow> string" where
  "frame_string f = fmt_alt (unat (f_pc f)) @ ''/'' @ fmt_alt (unat (f_cfa f))"

definition dataptr_to_symbol_friendly_string :: ptr_printer where
  "dataptr_to_symbol_friendly_string ps buflen addr =
     cbind (rvp_nearest_frames ps addr) (\<lambda>(lo, hi).
       let a = ''['' @ fmt_alt_0 16 (unat addr) in
       snprintf_checked buflen
         (case (lo, hi) of
            (Some l, Some h) \<Rightarrow> a @ '' : '' @ frame_string l @ '' '' @ frame_string h @ '']''
          | (Some l, None) \<Rightarrow> a @ '' : '' @ frame_string l @ '']''
          | (None, Some h) \<Rightarrow> a @ '' : '' @ frame_string h @ '']''
          | (None, None) \<Rightarrow> a @ '']''))"

section \<open>Before and after the text of a record\<close>

definition lastpc_to_string :: "ptr_printer \<Rightarrow> rvp_pstate \<Rightarrow> nat \<Rightarrow> string cres" where
  "lastpc_to_string insn ps buflen =
     cbind (cur_ts ps) (\<lambda>ts. insn ps buflen (ts_lastpc ts ! depth ps))"

definition preamble_string :: "ptr_printer \<Rightarrow> rvp_pstate \<Rightarrow> nat \<Rightarrow> string cres" where
  "preamble_string insn ps buflen =
     cbind (snprintf_checked buflen
       (''tid '' @ fmt_dec (unat (ps_curthread ps)) @ ''.'' @ fmt_dec (unat (ps_idepth ps)) @ '' ''))
     (\<lambda>s. let buflen = buflen - length s in
      cbind (if ps_emit_generation ps then
               cbind (cur_ts ps) (\<lambda>ts.
                 snprintf_checked buflen
                   (''gen '' @ fmt_dec (unat (ts_generation ts ! depth ps)) @ '' ''))
             else Inr [])
      (\<lambda>g. cbind (lastpc_to_string insn ps (buflen - length g)) (\<lambda>p. Inr (s @ g @ p))))"

fun suffix_bytes :: "u8 list \<Rightarrow> nat \<Rightarrow> string \<Rightarrow> string cres" where
    "suffix_bytes [] buflen delim = Inr []"
  | "suffix_bytes (b # bs) buflen delim =
       cbind (snprintf_checked buflen (delim @ fmt_02x b)) (\<lambda>s.
       cbind (suffix_bytes bs (buflen - length s) ''.'') (\<lambda>s'. Inr (s @ s')))"

definition suffix_string :: "rvp_pstate \<Rightarrow> u8 list \<Rightarrow> nat \<Rightarrow> nat \<Rightarrow> string cres" where
  "suffix_string ps ub reclen buflen =
     (if \<not> ps_emit_bytes ps then Inr [] else suffix_bytes (take reclen ub) buflen '' '')"

definition newline :: string where "newline = [CHR 0x0a]"

section \<open>Text\<close>

definition print_nop :: "ptr_printer \<Rightarrow> rvp_pstate \<Rightarrow> u8 list \<Rightarrow> string cres" where
  "print_nop insn ps ub =
     cbind (preamble_string insn ps prebuf_size) (\<lambda>pre.
     cbind (suffix_string ps ub 8 sufbuf_size) (\<lambda>suf.
     Inr (pre @ '' nop'' @ suf @ newline)))"

text \<open>
  The part of the line that \<open>print_op\<close> writes between the description of the operation and
  the suffix.
\<close>

definition print_body ::
    "ptr_printer \<Rightarrow> ptr_printer \<Rightarrow> rvp_pstate \<Rightarrow> u8 list \<Rightarrow> rvp_op \<Rightarrow> bool \<Rightarrow> nat \<Rightarrow> string cres" where
  "print_body insn data ps ub op is_load field_width =
     (if op \<in> {RVP_OP_ATOMIC_LOAD8, RVP_OP_ATOMIC_STORE8, RVP_OP_LOAD8, RVP_OP_STORE8} then
        cbind (data ps databuf_size (fld64 rvp_load8_store8_t 1 ub)) (\<lambda>d.
        Inr ('' '' @ fmt_alt_prec field_width (unat (fld64 rvp_load8_store8_t 2 ub)) @ '' '' @
             (if is_load then ''<-'' else ''->'') @ '' '' @ d))
      else if op = RVP_OP_ATOMIC_RMW8 then
        cbind (data ps databuf_size (fld64 rvp_rmw8_t 1 ub)) (\<lambda>d.
        Inr ('' '' @ fmt_alt_prec field_width (unat (fld64 rvp_rmw8_t 2 ub)) @ '' <- '' @ d @
             '' <- '' @ fmt_alt_prec field_width (unat (fld64 rvp_rmw8_t 3 ub))))
      else if op = RVP_OP_ATOMIC_RMW4 then
        cbind (data ps databuf_size (fld64 rvp_rmw4_t 1 ub)) (\<lambda>d.
        Inr ('' '' @ fmt_alt_prec field_width (unat (fld32 rvp_rmw4_t 2 ub)) @ '' <- '' @ d @
             '' <- '' @ fmt_alt_prec field_width (unat (fld32 rvp_rmw4_t 3 ub))))
      else if op \<in> {RVP_OP_ATOMIC_RMW2, RVP_OP_ATOMIC_RMW1} then
        cbind (data ps databuf_size (fld64 rvp_rmw1_2_t 1 ub)) (\<lambda>d.
        let onval = ucast (fld32 rvp_rmw1_2_t 2 ub) :: u64 in
        Inr ('' '' @ fmt_alt_prec field_width (unat (SHIFTOUT onval (BITS_macro 15 0))) @
             '' <- '' @ d @ '' <- '' @
             fmt_alt_prec field_width (unat (SHIFTOUT onval (BITS_macro 31 16)))))
      else if op \<in> {RVP_OP_ATOMIC_LOAD4, RVP_OP_ATOMIC_STORE4, RVP_OP_ATOMIC_LOAD2,
                    RVP_OP_ATOMIC_STORE2, RVP_OP_ATOMIC_LOAD1, RVP_OP_ATOMIC_STORE1,
                    RVP_OP_LOAD4, RVP_OP_STORE4, RVP_OP_LOAD2, RVP_OP_STORE2,
                    RVP_OP_LOAD1, RVP_OP_STORE1} then
        cbind (data ps databuf_size (fld64 rvp_load1_2_4_store1_2_4_t 1 ub)) (\<lambda>d.
        Inr ('' '' @ fmt_alt_prec field_width (unat (fld32 rvp_load1_2_4_store1_2_4_t 2 ub)) @
             '' '' @ (if is_load then ''<-'' else ''->'') @ '' '' @ d))
      else if op = RVP_OP_BEGIN then
        Inr ('' generation '' @ fmt_dec (unat (fld64 rvp_begin_t 2 ub)))
      else if op = RVP_OP_SIGDEPTH then
        Inr ('' -> '' @ fmt_dec (unat (fld32 rvp_sigdepth_t 1 ub)))
      else if op = RVP_OP_COG then
        Inr ('' -> '' @ fmt_dec (unat (fld64 rvp_cog_t 1 ub)))
      else if op = RVP_OP_ENTERFN then
        cbind (insn ps databuf_size (fld64 rvp_enterfn_t 2 ub)) (\<lambda>i.
        Inr ('' cfa '' @ fmt_hex (unat (fld64 rvp_enterfn_t 1 ub)) @ '' return '' @ i))
      else if op \<in> {RVP_OP_FORK, RVP_OP_JOIN, RVP_OP_SWITCH} then
        Inr ('' tid '' @ fmt_dec (unat (fld32 rvp_fork_join_switch_t 1 ub)))
      else if op = RVP_OP_ENTERSIG then
        cbind (insn ps databuf_size (fld64 rvp_entersig_t 1 ub)) (\<lambda>i.
        Inr ('' signal '' @ fmt_dec (unat (fld32 rvp_entersig_t 3 ub)) @ '' handler '' @ i @
             '' generation '' @ fmt_dec (unat (fld64 rvp_entersig_t 2 ub))))
      else if op \<in> {RVP_OP_ACQUIRE, RVP_OP_RELEASE} then
        cbind (data ps databuf_size (fld64 rvp_acquire_release_t 1 ub)) (\<lambda>d. Inr ('' '' @ d))
      else if op = RVP_OP_SIGDIS then
        Inr ('' signal '' @ fmt_dec (unat (fld32 rvp_sigdis_t 1 ub)))
      else if op = RVP_OP_SIGEST then
        cbind (insn ps databuf_size (fld64 rvp_sigest_t 1 ub)) (\<lambda>i.
        Inr ('' signal '' @ fmt_dec (unat (fld32 rvp_sigest_t 2 ub)) @ '' handler '' @ i @
             '' mask #'' @ fmt_dec (unat (fld32 rvp_sigest_t 3 ub))))
      else if op = RVP_OP_SIGMASKMEMO then
        Inr ('' #'' @ fmt_dec (unat (fld32 rvp_sigmaskmemo_t 3 ub)) @ '' origin '' @
             fmt_dec (unat (fld32 rvp_sigmaskmemo_t 2 ub)) @ '' bits '' @
             fmt_alt_0 16 (unat (fld64 rvp_sigmaskmemo_t 1 ub)))
      else if op \<in> {RVP_OP_SIGGETMASK, RVP_OP_SIGSETMASK, RVP_OP_SIGBLOCK, RVP_OP_SIGUNBLOCK} then
        Inr ('' #'' @ fmt_dec (unat (fld32 rvp_sigmask_access_t 1 ub)))
      else if op = RVP_OP_SIGGETSETMASK then
        Inr ('' #'' @ fmt_dec (unat (fld32 rvp_sigmask_rmw_t 1 ub)) @ '' -> #'' @
             fmt_dec (unat (fld32 rvp_sigmask_rmw_t 2 ub)))
      else Inr '''')"

definition print_op ::
    "ptr_printer \<Rightarrow> ptr_printer \<Rightarrow> rvp_pstate \<Rightarrow> u8 list \<Rightarrow> rvp_op \<Rightarrow> bool \<Rightarrow> nat \<Rightarrow> string cres" where
  "print_op insn data ps ub op is_load field_width =
     (case op_to_info op of None \<Rightarrow> Inl Undefined
      | Some (oi, descr) \<Rightarrow>
          cbind (preamble_string insn ps prebuf_size) (\<lambda>pre.
          cbind (print_body insn data ps ub op is_load field_width) (\<lambda>body.
          cbind (suffix_string ps ub (layout_size oi) sufbuf_size) (\<lambda>suf.
          Inr (pre @ '' '' @ descr @ body @ suf @ newline)))))"

section \<open>The trace again\<close>

text \<open>\<open>wr\<close> is what \<open>write(2)\<close> to the standard output returns for a number of bytes.\<close>

definition write_stdout :: "(nat \<Rightarrow> int) \<Rightarrow> u8 list \<Rightarrow> u8 list cres" where
  "write_stdout wr bs = (if wr (length bs) \<noteq> int (length bs) then Inl Exited else Inr bs)"

definition reemit_binary_init ::
    "(nat \<Rightarrow> int) \<Rightarrow> rvp_pstate \<Rightarrow> rvp_trace_header \<Rightarrow> u8 list cres" where
  "reemit_binary_init wr ps th = write_stdout wr (header_bytes th)"

definition reemit_binary_nop :: "(nat \<Rightarrow> int) \<Rightarrow> rvp_pstate \<Rightarrow> u8 list \<Rightarrow> u8 list cres" where
  "reemit_binary_nop wr ps ub = write_stdout wr (take 8 ub)"

definition reemit_binary_op ::
    "(nat \<Rightarrow> int) \<Rightarrow> rvp_pstate \<Rightarrow> u8 list \<Rightarrow> rvp_op \<Rightarrow> bool \<Rightarrow> nat \<Rightarrow> u8 list cres" where
  "reemit_binary_op wr ps ub op is_load field_width =
     (case op_to_info op of None \<Rightarrow> Inl Undefined
      | Some (oi, _) \<Rightarrow> write_stdout wr (take (layout_size oi) ub))"

section \<open>The three tables, and the choice between them\<close>

definition bytes_of_text :: "string cres \<Rightarrow> u8 list cres" where
  "bytes_of_text r = cbind r (\<lambda>s. Inr (map of_char s))"

definition text_emitters :: "ptr_printer \<Rightarrow> ptr_printer \<Rightarrow> u8 list rvp_emitters" where
  "text_emitters insn data =
     \<lparr> em_init = None,
       em_emit_nop = (\<lambda>ps ub. bytes_of_text (print_nop insn ps ub)),
       em_emit_op = (\<lambda>ps ub op l w. bytes_of_text (print_op insn data ps ub op l w)) \<rparr>"

definition plain_text :: "u8 list rvp_emitters" where
  "plain_text = text_emitters insnptr_to_simple_string dataptr_to_simple_string"

definition symbol_friendly :: "u8 list rvp_emitters" where
  "symbol_friendly =
     text_emitters insnptr_to_symbol_friendly_string dataptr_to_symbol_friendly_string"

definition binary :: "(nat \<Rightarrow> int) \<Rightarrow> u8 list rvp_emitters" where
  "binary wr = \<lparr> em_init = Some (reemit_binary_init wr), em_emit_nop = reemit_binary_nop wr,
     em_emit_op = reemit_binary_op wr \<rparr>"

datatype rvp_output_type =
    RVP_OUTPUT_PLAIN_TEXT | RVP_OUTPUT_SYMBOL_FRIENDLY | RVP_OUTPUT_BINARY | RVP_OUTPUT_LEGACY_BINARY

record rvp_output_params =
  op_type :: rvp_output_type
  op_emit_generation :: bool
  op_emit_bytes :: bool
  op_nrecords :: nat

definition rvp_trace_dump ::
    "(nat \<Rightarrow> bool) \<Rightarrow> (nat \<Rightarrow> int) \<Rightarrow> rvp_output_params \<Rightarrow> rvp_pstate \<Rightarrow> input \<Rightarrow> u8 list cres" where
  "rvp_trace_dump alloc wr p ps0 f =
     cbind (case op_type p of
              RVP_OUTPUT_BINARY \<Rightarrow> Inr (binary wr)
            | RVP_OUTPUT_SYMBOL_FRIENDLY \<Rightarrow> Inr symbol_friendly
            | RVP_OUTPUT_PLAIN_TEXT \<Rightarrow> Inr plain_text
            | RVP_OUTPUT_LEGACY_BINARY \<Rightarrow> Inl Exited) (\<lambda>em.
     cbind (rvp_trace_dump_with_emitters alloc (op_emit_generation p) (op_emit_bytes p)
              (op_nrecords p) em ps0 f) (\<lambda>out.
     Inr (concat out)))"

end
