(* ===== verification/Reader_Stream.thy ===== *)
theory Reader_Stream
  imports Reader_Print
begin

text \<open>
  The reader as a function of the whole file: its 4096-byte buffer, and the point at which
  each read ends, do not matter. An emitter may look at the bytes of its record only; that
  contract is the locale \<open>local_emitters\<close>, and every table of the reader keeps it.
\<close>

section \<open>Fields lie inside their records\<close>

lemma u32_of_bytes_append: "4 \<le> length bs \<Longrightarrow> u32_of_bytes (bs @ r) = u32_of_bytes bs"
  by (auto simp: u32_of_bytes_def nth_append)

lemma read_u32_append: "4 \<le> length bs \<Longrightarrow> read_u32 (bs @ r) = read_u32 bs"
  by (simp add: read_u32_def u32_of_bytes_append)

lemma read_u64_append: "8 \<le> length bs \<Longrightarrow> read_u64 (bs @ r) = read_u64 bs"
  using u32_of_bytes_append [of "drop 4 bs" r] by (simp add: read_u64_def u32_of_bytes_append)

lemma fld32_append:
  "layout_size (take i l) + 4 \<le> length ub \<Longrightarrow> fld32 l i (ub @ r) = fld32 l i ub"
  using read_u32_append [of "drop (layout_size (take i l)) ub" r] by (simp add: fld32_def)

lemma fld64_append:
  "layout_size (take i l) + 8 \<le> length ub \<Longrightarrow> fld64 l i (ub @ r) = fld64 l i ub"
  using read_u64_append [of "drop (layout_size (take i l)) ub" r] by (simp add: fld64_def)

lemma layout_size_simps [simp]:
  "layout_size [] = 0" "layout_size (f # fs) = field_size f + layout_size fs"
  by (simp_all add: layout_size_def)

lemma ub_pc_append: "8 \<le> length ub \<Longrightarrow> ub_pc (ub @ r) = ub_pc ub"
  by (simp add: ub_pc_def read_u64_append)

lemma op_reclen_bounds:
  assumes "op_to_info op = Some (oi, d)"
  shows "8 \<le> layout_size oi" "layout_size oi \<le> 32"
  using assms by (cases op; simp add: layout_defs; auto simp: layout_defs)+

section \<open>The contract of an emitter\<close>

locale local_emitters =
  fixes em :: "'o rvp_emitters"
  assumes nop_local: "8 \<le> length ub \<Longrightarrow> em_emit_nop em ps (ub @ r) = em_emit_nop em ps ub"
    and op_local: "op_to_info op = Some (oi, d) \<Longrightarrow> layout_size oi \<le> length ub \<Longrightarrow>
      em_emit_op em ps (ub @ r) op l w = em_emit_op em ps ub op l w"

section \<open>One record of an unbounded buffer\<close>

lemma consume_begin_append:
  "op_to_info op = Some (oi, d) \<Longrightarrow> layout_size oi \<le> length ub \<Longrightarrow>
   consume_begin alloc ps (ub @ r) op = consume_begin alloc ps ub op"
  by (auto simp: consume_begin_def layout_defs fld32_append fld64_append)

lemma consume_calls_append:
  "op_to_info op = Some (oi, d) \<Longrightarrow> layout_size oi \<le> length ub \<Longrightarrow>
   consume_calls alloc ps (ub @ r) op pc = consume_calls alloc ps ub op pc"
  by (auto simp: consume_calls_def layout_defs fld64_append)

lemma consume_cog_append:
  "op_to_info op = Some (oi, d) \<Longrightarrow> layout_size oi \<le> length ub \<Longrightarrow>
   consume_cog ps (ub @ r) op = consume_cog ps ub op"
  by (auto simp: consume_cog_def layout_defs fld64_append)

lemma consume_context_append:
  "op_to_info op = Some (oi, d) \<Longrightarrow> layout_size oi \<le> length ub \<Longrightarrow>
   consume_context ps (ub @ r) op = consume_context ps ub op"
  by (auto simp: consume_context_def layout_defs fld32_append)

lemma advance_eq: "n \<le> length ub \<Longrightarrow> advance ub n = Inr (drop n ub)"
  by (simp add: advance_def)

text \<open>A record is whole, or the buffer is short of some bytes of it and nothing changes.\<close>

lemma consume_short:
  assumes "8 \<le> length ub" "consume_and_print_trace alloc em ps ub = Inr (n, ps', ub', out)" "n \<noteq> 0"
  shows "ps' = ps" "ub' = ub" "out = []" "length ub + n \<le> 32"
    "length r < n \<Longrightarrow> consume_and_print_trace alloc em ps (ub @ r) = Inr (n - length r, ps, ub @ r, [])"
proof -
  have nd: "\<not> pc_is_not_deltop ps (ub_pc ub)"
    using assms(2,3) by (auto simp: consume_and_print_trace_def Let_def)
  obtain jmpvec op where jo:
    "extract_jmpvec_and_op_from_deltop (ps_deltop_first ps) (ub_pc ub) = Inr (jmpvec, op)"
    using assms(2) nd by (auto simp: consume_and_print_trace_def)
  obtain oi d where oi: "op_to_info op = Some (oi, d)"
    using assms(2) nd jo by (auto simp: consume_and_print_trace_def split: option.splits)
  have len: "length ub < layout_size oi"
    using assms(2,3) nd jo oi by (auto simp: consume_and_print_trace_def split: if_splits)
  show "ps' = ps" "ub' = ub" "out = []" "length ub + n \<le> 32"
    using assms(2) nd jo oi len op_reclen_bounds(2) [OF oi]
    by (auto simp: consume_and_print_trace_def)
  assume "length r < n"
  then show "consume_and_print_trace alloc em ps (ub @ r) = Inr (n - length r, ps, ub @ r, [])"
    using assms(1,2) nd jo oi len by (auto simp: consume_and_print_trace_def ub_pc_append)
qed

context local_emitters
begin

lemma consume_append_ok:
  assumes "8 \<le> length ub" "consume_and_print_trace alloc em ps ub = Inr (0, ps', ub', out)"
  shows "consume_and_print_trace alloc em ps (ub @ r) = Inr (0, ps', ub' @ r, out)"
    "length ub' + 8 \<le> length ub"
proof -
  have "consume_and_print_trace alloc em ps (ub @ r) = Inr (0, ps', ub' @ r, out) \<and> length ub' + 8 \<le> length ub"
  proof (cases "pc_is_not_deltop ps (ub_pc ub)")
    case True
    then show ?thesis
      using assms by (auto simp: consume_and_print_trace_def ub_pc_append nop_local advance_eq Let_def)
  next
    case False
    obtain jmpvec op where jo: "extract_jmpvec_and_op_from_deltop (ps_deltop_first ps) (ub_pc ub) = Inr (jmpvec, op)"
      using assms(2) False by (auto simp: consume_and_print_trace_def)
    obtain oi d where oi: "op_to_info op = Some (oi, d)"
      using assms(2) False jo by (auto simp: consume_and_print_trace_def split: option.splits)
    have len: "layout_size oi \<le> length ub"
      using assms(2) False jo oi by (auto simp: consume_and_print_trace_def split: if_splits)
    show ?thesis
      using assms False jo oi len op_reclen_bounds(1) [OF oi]
      by (auto simp: consume_and_print_trace_def ub_pc_append consume_begin_append consume_calls_append
          consume_cog_append consume_context_append op_local advance_eq)
  qed
  then show "consume_and_print_trace alloc em ps (ub @ r) = Inr (0, ps', ub' @ r, out)"
    "length ub' + 8 \<le> length ub" by simp_all
qed

lemma consume_append_error:
  assumes "8 \<le> length ub" "consume_and_print_trace alloc em ps ub = Inl x"
  shows "consume_and_print_trace alloc em ps (ub @ r) = Inl x"
proof (cases "pc_is_not_deltop ps (ub_pc ub)")
  case True
  then show ?thesis
    using assms
    by (cases "cur_ts ps")
       (auto simp: consume_and_print_trace_def ub_pc_append nop_local advance_eq Let_def cbind_def split: sum.splits)
next
  case False
  show ?thesis
  proof (cases "extract_jmpvec_and_op_from_deltop (ps_deltop_first ps) (ub_pc ub)")
    case (Inl y)
    then show ?thesis using assms False by (simp add: consume_and_print_trace_def ub_pc_append)
  next
    case (Inr jo)
    obtain jmpvec op where jo: "jo = (jmpvec, op)" by (cases jo)
    show ?thesis
    proof (cases "op_to_info op")
      case None
      then show ?thesis using assms False Inr jo by (simp add: consume_and_print_trace_def ub_pc_append)
    next
      case (Some p)
      then obtain oi d where oi: "op_to_info op = Some (oi, d)" by (cases p) simp
      then have len: "layout_size oi \<le> length ub"
        using assms False Inr jo by (auto simp: consume_and_print_trace_def split: if_splits)
      have "consume_and_print_trace alloc em ps ub =
          cbind (consume_and_print_trace alloc em ps ub) (\<lambda>(n, ps, ub', out). Inr (n, ps, ub', out))"
        using assms by simp
      show ?thesis
        using assms False Inr jo oi len
        by (simp add: consume_and_print_trace_def ub_pc_append consume_begin_append consume_calls_append
            consume_cog_append consume_context_append op_local advance_eq)
           (auto simp: cbind_def split: sum.splits prod.splits)
    qed
  qed
qed

end

section \<open>The reader without a buffer\<close>

text \<open>
  \<open>stream most ps bs\<close> reads records from the whole file \<open>bs\<close>, at most \<open>most\<close> of them. It
  recurs on what a record leaves; a record takes at least 8 bytes.
\<close>

fun stream_fuel ::
    "(nat \<Rightarrow> bool) \<Rightarrow> 'o rvp_emitters \<Rightarrow> nat \<Rightarrow> nat \<Rightarrow> rvp_pstate \<Rightarrow> u8 list \<Rightarrow> 'o list cres" where
  "stream_fuel alloc em fuel most ps bs =
     (if bs = [] then Inr []
      else if length bs < 8 then Inl Exited
      else if most = 0 then Inr []
      else case fuel of 0 \<Rightarrow> Inl Waiting
        | Suc fuel \<Rightarrow>
            cbind (consume_and_print_trace alloc em ps bs) (\<lambda>(nshort, ps, bs, out).
              if nshort \<noteq> 0 then Inl Exited
              else cbind (stream_fuel alloc em fuel (most - 1) ps bs) (\<lambda>out'. Inr (out @ out'))))"

declare stream_fuel.simps [simp del]

definition stream ::
    "(nat \<Rightarrow> bool) \<Rightarrow> 'o rvp_emitters \<Rightarrow> nat \<Rightarrow> rvp_pstate \<Rightarrow> u8 list \<Rightarrow> 'o list cres" where
  "stream alloc em most ps bs = stream_fuel alloc em (length bs) most ps bs"

section \<open>Reads that deliver little\<close>

text \<open>
  A read that delivers fewer than 32 bytes, the size of the largest record, although the file goes
  on, may make the reader exit. \<open>long_reads\<close> says that none does and that no read fails.
\<close>

definition long_reads :: "nat option list \<Rightarrow> bool" where
  "long_reads ss \<longleftrightarrow> (\<forall>s\<in>set ss. case s of None \<Rightarrow> False | Some k \<Rightarrow> 31 \<le> k)"

definition result_or_exit :: "nat option list \<Rightarrow> 'a cres \<Rightarrow> 'a cres \<Rightarrow> bool" where
  "result_or_exit ss r s \<longleftrightarrow> (r = s \<or> r = Inl Exited) \<and> (long_reads ss \<longrightarrow> r = s)"

lemma result_or_exit_refl [simp]: "result_or_exit ss r r"
  by (simp add: result_or_exit_def)

lemma result_or_exit_bind:
  "result_or_exit ss r s \<Longrightarrow> result_or_exit ss (cbind r f) (cbind s f)"
  "(\<And>x. result_or_exit ss (g x) (h x)) \<Longrightarrow> result_or_exit ss (cbind t g) (cbind t h)"
  by (auto simp: result_or_exit_def) (cases t; auto)+

lemma long_reads_simps [simp]:
  "long_reads []" "\<not> long_reads (None # ss)" "long_reads (Some k # ss) \<longleftrightarrow> 31 \<le> k \<and> long_reads ss"
  by (simp_all add: long_reads_def)

lemma sys_read_cases:
  assumes "0 < n"
  obtains f' where "sys_read f n = (None, f')" "\<not> long_reads (in_sched f)"
  | m f' where "sys_read f n = (Some (take m (in_bytes f)), f')" "in_bytes f' = drop m (in_bytes f)"
      "0 < m" "m \<le> n" "long_reads (in_sched f) \<Longrightarrow> min n 32 \<le> m"
      "long_reads (in_sched f) \<Longrightarrow> long_reads (in_sched f')"
proof (cases "in_sched f")
  case Nil
  then show thesis using assms by (intro that(2) [of n]) (auto simp: sys_read_def)
next
  case (Cons s ss)
  show thesis
  proof (cases s)
    case None
    then show thesis using Cons by (intro that(1)) (auto simp: sys_read_def)
  next
    case (Some k)
    then have "sys_read f n = (Some (take (min n (Suc k)) (in_bytes f)),
        \<lparr> in_bytes = drop (min n (Suc k)) (in_bytes f), in_sched = ss \<rparr>)"
      using Cons by (simp add: sys_read_def Let_def)
    from this show thesis by (rule that(2)) (use Cons Some assms in auto)
  qed
qed

context local_emitters
begin

lemma stream_fuel_enough:
  "length bs \<le> fuel \<Longrightarrow> stream_fuel alloc em fuel most ps bs = stream alloc em most ps bs"
proof (induction fuel arbitrary: most ps bs rule: less_induct)
  case (less fuel)
  show ?case
  proof (cases "bs = [] \<or> length bs < 8 \<or> most = 0")
    case True
    then show ?thesis
      by (subst stream_def, subst stream_fuel.simps, subst (2) stream_fuel.simps) auto
  next
    case False
    then obtain f g where f: "fuel = Suc f" "length bs = Suc g"
      using less.prems by (cases fuel; cases "length bs") auto
    have "stream_fuel alloc em f (most - 1) ps' bs' = stream_fuel alloc em g (most - 1) ps' bs'"
      if "consume_and_print_trace alloc em ps bs = Inr (0, ps', bs', out)" for ps' bs' out
    proof -
      have "length bs' + 8 \<le> length bs" using consume_append_ok(2) that False by auto
      then show ?thesis using less.IH [of f] less.IH [of g] less.prems f by simp
    qed
    then show ?thesis
      using False f unfolding stream_def
      by (subst stream_fuel.simps, subst (2) stream_fuel.simps)
         (auto simp: cbind_def split: sum.splits prod.splits)
  qed
qed

lemma stream_step:
  "8 \<le> length bs \<Longrightarrow> 0 < most \<Longrightarrow> stream alloc em most ps bs =
     cbind (consume_and_print_trace alloc em ps bs) (\<lambda>(nshort, ps, bs, out).
       if nshort \<noteq> 0 then Inl Exited
       else cbind (stream alloc em (most - 1) ps bs) (\<lambda>out'. Inr (out @ out')))"
proof -
  assume a: "8 \<le> length bs" "0 < most"
  then obtain g where g: "length bs = Suc g" by (cases "length bs") auto
  have "stream_fuel alloc em g (most - 1) ps' bs' = stream alloc em (most - 1) ps' bs'"
    if "consume_and_print_trace alloc em ps bs = Inr (0, ps', bs', out)" for ps' bs' out
    using consume_append_ok(2) [OF a(1) that] g by (intro stream_fuel_enough) simp
  then show ?thesis
    using a g by (subst stream_def, subst stream_fuel.simps)
      (auto simp: cbind_def split: sum.splits prod.splits)
qed

lemma stream_Nil [simp]: "stream alloc em most ps [] = Inr []"
  by (simp add: stream_def stream_fuel.simps)

lemma stream_stop: "8 \<le> length bs \<Longrightarrow> stream alloc em 0 ps bs = Inr []"
  unfolding stream_def by (subst stream_fuel.simps) auto

lemma stream_short: "bs \<noteq> [] \<Longrightarrow> length bs < 8 \<Longrightarrow> stream alloc em most ps bs = Inl Exited"
  unfolding stream_def by (subst stream_fuel.simps) auto

text \<open>What is left after \<open>consume_loop\<close> on a part of the file.\<close>

definition pending :: "(nat \<Rightarrow> bool) \<Rightarrow> nat \<Rightarrow> rvp_pstate \<Rightarrow> u8 list \<Rightarrow> bool" where
  "pending alloc nshort ps ub \<longleftrightarrow>
     (if nshort = 0 then length ub < 8
      else 8 \<le> length ub \<and> consume_and_print_trace alloc em ps ub = Inr (nshort, ps, ub, []))"

lemma consume_loop_stream:
  "8 \<le> length ub \<Longrightarrow> length ub \<le> fuel \<Longrightarrow> n \<le> most \<Longrightarrow>
   (case consume_loop alloc em fuel n most ps ub of
      Inl x \<Rightarrow> stream alloc em (most - n) ps (ub @ r) = Inl x
    | Inr (stop, n', nshort, ps', ub', out) \<Rightarrow>
        if stop then stream alloc em (most - n) ps (ub @ r) = Inr out
        else n' \<le> most \<and> (nshort \<noteq> 0 \<longrightarrow> n' < most) \<and> pending alloc nshort ps' ub' \<and>
          stream alloc em (most - n) ps (ub @ r) =
            cbind (stream alloc em (most - n') ps' (ub' @ r)) (\<lambda>out'. Inr (out @ out')))"
proof (induction fuel arbitrary: n ps ub)
  case 0
  then show ?case by simp
next
  case (Suc fuel)
  show ?case
  proof (cases "n = most")
    case True
    then show ?thesis using Suc.prems stream_stop [of "ub @ r" alloc ps] by simp
  next
    case False
    note st = stream_step [of "ub @ r" "most - n" alloc ps]
    show ?thesis
    proof (cases "consume_and_print_trace alloc em ps ub")
      case (Inl x)
      then show ?thesis
        using False Suc.prems st consume_append_error [of ub alloc ps x r] by simp
    next
      case (Inr q)
      obtain nshort ps' ub' out where q: "q = (nshort, ps', ub', out)" by (cases q)
      show ?thesis
      proof (cases "nshort = 0")
        case False
        then show ?thesis
          using Inr q \<open>n \<noteq> most\<close> Suc.prems consume_short [of ub alloc em ps nshort ps' ub' out]
          by (simp add: pending_def cbind_def split: sum.splits)
      next
        case True
        then have "consume_and_print_trace alloc em ps ub = Inr (0, ps', ub', out)"
          using Inr q by simp
        note c = consume_append_ok [OF Suc.prems(1) this]
        have s: "stream alloc em (most - n) ps (ub @ r) =
            cbind (stream alloc em (most - Suc n) ps' (ub' @ r)) (\<lambda>out'. Inr (out @ out'))"
          using st c(1) [of r] False Suc.prems \<open>n \<noteq> most\<close> by simp
        show ?thesis
        proof (cases "8 \<le> length ub'")
          case False
          then show ?thesis
            using Inr q True \<open>n \<noteq> most\<close> Suc.prems s by (simp add: pending_def)
        next
          case len: True
          have "Suc n \<le> most" "length ub' \<le> fuel" using \<open>n \<noteq> most\<close> Suc.prems c(2) by auto
          note IH = Suc.IH [of ub' "Suc n" ps', OF len this(2,1)]
          show ?thesis
            using IH Inr q True \<open>n \<noteq> most\<close> len s
            by (auto simp: cbind_def split: sum.splits prod.splits if_splits)
        qed
      qed
    qed
  qed
qed

lemma pending_length: "pending alloc nshort ps ub \<Longrightarrow> length ub \<le> 32"
  using consume_short(4) by (fastforce simp: pending_def split: if_splits)

lemma stream_pending:
  assumes "pending alloc nshort ps ub" "nshort \<noteq> 0" "length r < nshort" "0 < most"
  shows "stream alloc em most ps (ub @ r) = Inl Exited"
proof -
  have u: "8 \<le> length ub" "consume_and_print_trace alloc em ps ub = Inr (nshort, ps, ub, [])"
    using assms by (auto simp: pending_def)
  from consume_short(5) [OF u assms(2,3)] show ?thesis
    using stream_step [of "ub @ r" most alloc ps] u assms(3,4) by simp
qed

lemma read_loop_stream:
  "n \<le> most \<Longrightarrow> (nshort \<noteq> 0 \<Longrightarrow> n < most) \<Longrightarrow> length ub \<le> 32 \<Longrightarrow>
   pending alloc nshort ps ub \<or> (nshort = 0 \<and> 8 \<le> length ub) \<Longrightarrow>
   length (in_bytes f) + (if nshort = 0 \<and> 8 \<le> length ub then 2 else 1) \<le> fuel \<Longrightarrow>
   result_or_exit (in_sched f) (read_loop alloc em fuel n most nshort ps f ub)
     (stream alloc em (most - n) ps (ub @ in_bytes f))"
proof (induction fuel arbitrary: n nshort ps f ub)
  case 0
  then show ?case by (simp split: if_splits)
next
  case (Suc fuel)
  let ?k = "4096 - length ub" and ?r = "in_bytes f"
  have k: "0 < ?k" "min ?k 32 = 32" using Suc.prems(3) by simp_all
  show ?case
  proof (cases rule: sys_read_cases [OF k(1), of f])
    case (1 f')
    then show ?thesis by (simp add: result_or_exit_def)
  next
    case (2 m f')
    note rd = 2(1)
    let ?ub = "ub @ take m ?r"
    have all: "?ub @ in_bytes f' = ub @ ?r" using 2(2) by simp
    have full: "\<not> long_reads (in_sched f) \<or> 32 \<le> m" using 2(5) k(2) by auto
    show ?thesis
    proof (cases "length (take m ?r) < nshort")
      case True
      have "nshort \<noteq> 0" using True by auto
      then have p: "pending alloc nshort ps ub" using Suc.prems(4) by simp
      have "nshort \<le> 32" using p consume_short(4) \<open>nshort \<noteq> 0\<close> by (fastforce simp: pending_def)
      then have "32 \<le> m \<Longrightarrow> length ?r < nshort" using True by (auto simp: min_def split: if_splits)
      then have "long_reads (in_sched f) \<Longrightarrow> stream alloc em (most - n) ps (ub @ ?r) = Inl Exited"
        using stream_pending [OF p \<open>nshort \<noteq> 0\<close>] Suc.prems(2) \<open>nshort \<noteq> 0\<close> full by auto
      then show ?thesis using True by (simp add: rd result_or_exit_def)
    next
      case False
      show ?thesis
      proof (cases "length ?ub < 8")
        case True
        then have "32 \<le> m \<Longrightarrow> take m ?r = ?r" by (auto simp: min_def split: if_splits)
        then have s: "long_reads (in_sched f) \<Longrightarrow> ?ub = ub @ ?r" using full by auto
        have nil: "ub @ ?r = []" if "?ub = []" using that 2(3) by simp
        show ?thesis
        proof (cases "?ub = []")
          case True
          then show ?thesis using nil False rd by (simp add: result_or_exit_def)
        next
          case nonempty: False
          then have "long_reads (in_sched f) \<Longrightarrow> stream alloc em (most - n) ps (ub @ ?r) = Inl Exited"
            using s True stream_short [of ?ub alloc "most - n" ps] by simp
          then show ?thesis using True False nonempty by (auto simp: rd result_or_exit_def Let_def)
        qed
      next
        case len: False
        then have nonempty: "?ub \<noteq> []" by auto
        note loop = consume_loop_stream [of ?ub "length ?ub" n most alloc ps "in_bytes f'", unfolded all]
        show ?thesis
        proof (cases "consume_loop alloc em (length ?ub) n most ps ?ub")
          case (Inl x)
          then show ?thesis
            using loop len nonempty False Suc.prems(1) by (simp add: rd Let_def result_or_exit_def)
        next
          case (Inr q)
          obtain stop n' nshort' ps' ub' out where q: "q = (stop, n', nshort', ps', ub', out)"
            by (cases q)
          show ?thesis
          proof (cases stop)
            case True
            then show ?thesis
              using Inr q loop len nonempty False Suc.prems(1) by (auto simp: rd Let_def result_or_exit_def)
          next
            case go: False
            have l: "n' \<le> most" "nshort' \<noteq> 0 \<Longrightarrow> n' < most" "pending alloc nshort' ps' ub'"
              "stream alloc em (most - n) ps (ub @ ?r) =
                 cbind (stream alloc em (most - n') ps' (ub' @ in_bytes f')) (\<lambda>out'. Inr (out @ out'))"
              using loop len Inr q go Suc.prems(1) by (simp_all add: not_less)
            have ub': "length ub' \<le> 32" "\<not> (nshort' = 0 \<and> 8 \<le> length ub')"
              using pending_length [OF l(3)] l(3) by (auto simp: pending_def)
            have "length (in_bytes f') + 1 \<le> fuel"
            proof (cases "?r = []")
              case True
              then have "nshort = 0" "8 \<le> length ub" using False len by auto
              then show ?thesis using Suc.prems(5) True 2(2) by simp
            next
              case nonempty: False
              then have "length (in_bytes f') < length ?r" using 2(2,3) by simp
              then show ?thesis using Suc.prems(5) by (auto split: if_splits)
            qed
            then have "result_or_exit (in_sched f') (read_loop alloc em fuel n' most nshort' ps' f' ub')
                (stream alloc em (most - n') ps' (ub' @ in_bytes f'))"
              using l ub' by (intro Suc.IH) auto
            then show ?thesis
              using Inr q go l(4) len nonempty False 2(6) by (auto simp: rd Let_def result_or_exit_def)
          qed
        qed
      qed
    qed
  qed
qed

end

section \<open>Whole files\<close>

definition file_ok :: "u8 list \<Rightarrow> bool" where
  "file_ok bs \<longleftrightarrow> 36 \<le> length bs \<and> header_supported (header_of_bytes bs) \<and> read_u32 (drop 24 bs) = 1"

lemma read_u32_take: "4 \<le> n \<Longrightarrow> read_u32 (take n bs) = read_u32 bs"
  by (simp add: read_u32_def u32_of_bytes_def)

lemma read_u64_take: "8 \<le> n \<Longrightarrow> read_u64 (take n bs) = read_u64 bs"
  by (simp add: read_u64_def u32_of_bytes_def drop_take)

lemma header_of_bytes_take: "header_of_bytes (take 36 bs) = header_of_bytes bs"
  by (simp add: header_of_bytes_def drop_take read_u32_take)

text \<open>The loop over \<open>readv\<close> reads the header whole, in whatever pieces it comes.\<close>

lemma iov_bytes_advance: "iov_bytes (advance_iov iov n) = iov_bytes iov - int (min n (nat (iov_bytes iov)))"
proof -
  have "int (length (iov_addrs (advance_iov iov n))) = int (length (drop n (iov_addrs iov)))"
    by (simp add: addrs_advance_iov)
  then show ?thesis using length_iov_addrs [of iov] length_iov_addrs [of "advance_iov iov n"] by auto
qed

lemma sys_readv_cases:
  assumes "iov_bytes iov = int n" "0 < n" "got = take t bs" "in_bytes f = drop t bs" "t \<le> length bs"
  obtains f' where "sys_readv (f, got) iov = (-1, f', got)" "\<not> long_reads (in_sched f)"
  | m f' where "sys_readv (f, got) iov = (int m, f', take (t + m) bs)" "in_bytes f' = drop (t + m) bs"
      "t + m \<le> length bs" "m \<le> n" "m = 0 \<longrightarrow> t = length bs"
      "long_reads (in_sched f) \<Longrightarrow> long_reads (in_sched f')"
proof (cases rule: sys_read_cases [OF assms(2), of f])
  case (1 f')
  then show thesis by (intro that(1)) (auto simp: sys_readv_def assms(1))
next
  case (2 m f')
  have take: "take t bs @ take m (drop t bs) = take (t + min m (length bs - t)) bs"
    by (cases "m \<le> length bs - t") (simp_all add: take_add)
  have drop: "drop m (drop t bs) = drop (t + min m (length bs - t)) bs"
    by (cases "m \<le> length bs - t") (simp_all add: add.commute)
  have r: "sys_readv (f, got) iov = (int (min m (length bs - t)), f', take (t + min m (length bs - t)) bs)"
    using 2(1) take assms(3,4) by (simp add: sys_readv_def assms(1) min.commute)
  show thesis
    by (rule that(2) [OF r]) (use 2 drop assms in auto)
qed

lemma xfer_loop_reads:
  "iov_bytes iov = int (n - t) + x \<Longrightarrow> 0 \<le> x \<Longrightarrow> t \<le> n \<Longrightarrow> n - t \<le> fuel \<Longrightarrow> got = take t bs \<Longrightarrow> in_bytes f = drop t bs \<Longrightarrow>
   t \<le> length bs \<Longrightarrow>
   \<exists>f' got'. (xfer_loop sys_readv fuel (f, got) iov (int n) (int t) x = Inr (-1, f', got') \<and> \<not> long_reads (in_sched f)) \<or>
     (xfer_loop sys_readv fuel (f, got) iov (int n) (int t) x = Inr (int (min n (length bs)), f', take n bs) \<and>
      in_bytes f' = drop n bs \<and> (long_reads (in_sched f) \<longrightarrow> long_reads (in_sched f')))"
proof (induction fuel arbitrary: iov t x f got)
  case 0
  then show ?case by (subst xfer_loop.simps) auto
next
  case (Suc fuel)
  show ?case
  proof (cases "t < n")
    case False
    then have "t = n" using Suc.prems(3) by simp
    then show ?thesis using Suc.prems by (subst xfer_loop.simps) (auto simp: min_def)
  next
    case True
    let ?iov = "advance_iov iov (nat x)"
    have sum: "iov_bytes ?iov = int (n - t)" using Suc.prems(1,2) by (simp add: iov_bytes_advance)
    have step: "xfer_loop sys_readv (Suc fuel) (f, got) iov (int n) (int t) x =
        (let (nx, s) = sys_readv (f, got) ?iov in
         if nx = -1 then Inr (-1, s) else if nx = 0 then Inr (int t, s)
         else cbind (cassert (nx \<le> int n - int t)) (\<lambda>_. xfer_loop sys_readv fuel s ?iov (int n) (int t + nx) nx))"
      using True by (subst xfer_loop.simps) (simp add: Let_def)
    show ?thesis
    proof (cases rule: sys_readv_cases [OF sum _ Suc.prems(5-7)])
      case 1
      then show ?case using True by simp
    next
      case (2 f')
      then show ?thesis unfolding step by simp
    next
      case (3 m f')
      show ?thesis
      proof (cases "m = 0")
        case True
        then have "t = length bs" using 3 by simp
        then show ?thesis unfolding step using True 3 \<open>t < n\<close> by simp
      next
        case False
        have "\<exists>g got'. (xfer_loop sys_readv fuel (f', take (t + m) bs) ?iov (int n) (int (t + m)) (int m) = Inr (-1, g, got') \<and> \<not> long_reads (in_sched f')) \<or>
     (xfer_loop sys_readv fuel (f', take (t + m) bs) ?iov (int n) (int (t + m)) (int m) = Inr (int (min n (length bs)), g, take n bs) \<and>
      in_bytes g = drop n bs \<and> (long_reads (in_sched f') \<longrightarrow> long_reads (in_sched g)))"
          using 3 False sum Suc.prems by (intro Suc.IH) auto
        moreover have "xfer_loop sys_readv (Suc fuel) (f, got) iov (int n) (int t) x =
            xfer_loop sys_readv fuel (f', take (t + m) bs) ?iov (int n) (int (t + m)) (int m)"
          unfolding step using 3 False \<open>t < n\<close> by simp
        ultimately show ?thesis using 3(6) by metis
      qed
    qed
  qed
qed

lemma readallv_header:
  "\<exists>f' got'. (readallv sys_readv (f, []) header_iov = Inr (-1, f', got') \<and> \<not> long_reads (in_sched f)) \<or>
     (readallv sys_readv (f, []) header_iov = Inr (int (min 36 (length (in_bytes f))), f', take 36 (in_bytes f)) \<and>
      in_bytes f' = drop 36 (in_bytes f) \<and> (long_reads (in_sched f) \<longrightarrow> long_reads (in_sched f')))"
proof -
  have iov: "iov_bytes header_iov = int 36" "iovsum header_iov = int 36" by (simp_all add: iovsum_def iov_bytes_def header_iov_def)
  show ?thesis
  proof (cases rule: sys_readv_cases [OF iov(1), of "[]" 0 "in_bytes f" f])
    case (5 f')
    then show ?thesis by (auto simp: readallv_def xferallv_def)
  next
    case (6 m f')
    show ?thesis
    proof (cases "m = 0 \<or> m = 36")
      case True
      then show ?thesis using 6 by (auto simp: readallv_def xferallv_def iov)
    next
      case False
      have "\<exists>g got'. (xfer_loop sys_readv 36 (f', take m (in_bytes f)) header_iov (int 36) (int m) (int m) = Inr (-1, g, got') \<and> \<not> long_reads (in_sched f')) \<or>
     (xfer_loop sys_readv 36 (f', take m (in_bytes f)) header_iov (int 36) (int m) (int m) = Inr (int (min 36 (length (in_bytes f))), g, take 36 (in_bytes f)) \<and>
      in_bytes g = drop 36 (in_bytes f) \<and> (long_reads (in_sched f') \<longrightarrow> long_reads (in_sched g)))"
        using 6 iov by (intro xfer_loop_reads) auto
      then show ?thesis using 6 False by (auto simp: readallv_def xferallv_def iov)
    qed
  qed simp_all
qed

context local_emitters
begin

lemma dump_stream:
  assumes "file_ok (in_bytes f)"
  shows "result_or_exit (in_sched f) (rvp_trace_dump_with_emitters alloc eg eb most em ps0 f)
     (let bs = in_bytes f; pc0 = read_u64 (drop 16 bs); ps = rvp_pstate_init ps0 eg eb pc0 in
      cbind (case em_init em of None \<Rightarrow> Inr []
             | Some init \<Rightarrow> cbind (init ps (header_of_bytes bs)) (\<lambda>out. Inr [out])) (\<lambda>out0.
      cbind (stream alloc em most ps (begin0_bytes pc0 1 @ drop 36 bs)) (\<lambda>out.
      Inr (out0 @ out))))"
proof -
  let ?bs = "in_bytes f"
  have len: "36 \<le> length ?bs" using assms by (simp add: file_ok_def)
  have iov: "iovsum header_iov = 36" by (simp add: iovsum_def iov_bytes_def header_iov_def)
  obtain f' got' where h: "(readallv sys_readv (f, []) header_iov = Inr (-1, f', got') \<and> \<not> long_reads (in_sched f)) \<or>
     (readallv sys_readv (f, []) header_iov = Inr (36, f', take 36 ?bs) \<and>
      in_bytes f' = drop 36 ?bs \<and> (long_reads (in_sched f) \<longrightarrow> long_reads (in_sched f')))"
    using readallv_header [of f] len by (auto simp: min_def)
  from h show ?thesis
  proof (elim disjE conjE)
    assume "readallv sys_readv (f, []) header_iov = Inr (-1, f', got')" "\<not> long_reads (in_sched f)"
    then show ?thesis by (simp add: rvp_trace_dump_with_emitters_def result_or_exit_def)
  next
    assume hd: "readallv sys_readv (f, []) header_iov = Inr (36, f', take 36 ?bs)"
      and rest: "in_bytes f' = drop 36 ?bs" and long: "long_reads (in_sched f) \<longrightarrow> long_reads (in_sched f')"
    have rl: "result_or_exit (in_sched f)
        (read_loop alloc em (length (in_bytes f') + 2) 0 most 0 ps f' (begin0_bytes pc0 1))
        (stream alloc em most ps (begin0_bytes pc0 1 @ drop 36 ?bs))" for ps pc0
    proof -
      have "length (begin0_bytes pc0 1) = 20" by (simp add: begin0_bytes_def)
      then show ?thesis
        using read_loop_stream [of 0 most 0 "begin0_bytes pc0 1" alloc ps f' "length (in_bytes f') + 2"] rest long
        by (simp add: result_or_exit_def del: read_loop.simps)
    qed
    show ?thesis
      using assms rl
      by (cases "em_init em")
         (simp_all add: rvp_trace_dump_with_emitters_def hd
          header_of_bytes_take file_ok_def drop_take read_u32_take read_u64_take Let_def iov
          result_or_exit_bind
          del: read_loop.simps)
  qed
qed

end

section \<open>The emitters keep the contract\<close>

lemma print_body_append:
  assumes "op_to_info op = Some (oi, d)" "layout_size oi \<le> length ub"
  shows "print_body insn data ps (ub @ r) op l w = print_body insn data ps ub op l w"
  using assms
  by (cases op; clarsimp simp: print_body_def layout_defs fld32_append fld64_append)

lemma suffix_string_append:
  "reclen \<le> length ub \<Longrightarrow> suffix_string ps (ub @ r) reclen n = suffix_string ps ub reclen n"
  by (simp add: suffix_string_def)

lemma print_op_append:
  "op_to_info op = Some (oi, d) \<Longrightarrow> layout_size oi \<le> length ub \<Longrightarrow>
   print_op insn data ps (ub @ r) op l w = print_op insn data ps ub op l w"
  by (simp add: print_op_def print_body_append suffix_string_append)

lemma text_emitters_local: "local_emitters (text_emitters insn data)"
  by unfold_locales
     (auto simp: text_emitters_def print_nop_def print_op_append suffix_string_append)

interpretation plain: local_emitters plain_text
  unfolding plain_text_def by (rule text_emitters_local)

interpretation symbolic: local_emitters symbol_friendly
  unfolding symbol_friendly_def by (rule text_emitters_local)

interpretation binary: local_emitters "binary wr" for wr
  by unfold_locales (auto simp: binary_def reemit_binary_nop_def reemit_binary_op_def)

section \<open>Properties\<close>

text \<open>
  C7. The reader's buffer does not show: for every emitter of the program, printing a
  well-formed file through the 4096-byte buffer, refilled by reads at arbitrary record
  boundaries, gives the result, output or failure, of a reader that sees the whole file at
  once, or exits. It exits in a case where that reader would not only when a read fails, or
  delivers fewer than 32 bytes although the file goes on, as a read from a pipe may.
\<close>

theorem buffered_reader_is_stream:
  assumes "file_ok (in_bytes f)"
    and "em = plain_text \<or> em = symbol_friendly \<or> em = binary wr"
  shows "let r = rvp_trace_dump_with_emitters alloc eg eb most em ps0 f;
      bs = in_bytes f; pc0 = read_u64 (drop 16 bs); ps = rvp_pstate_init ps0 eg eb pc0;
      s = cbind (case em_init em of None \<Rightarrow> Inr []
             | Some init \<Rightarrow> cbind (init ps (header_of_bytes bs)) (\<lambda>out. Inr [out])) (\<lambda>out0.
          cbind (stream alloc em most ps (begin0_bytes pc0 1 @ drop 36 bs)) (\<lambda>out.
          Inr (out0 @ out)))
    in (r = s \<or> r = Inl Exited) \<and> (long_reads (in_sched f) \<longrightarrow> r = s)"
proof -
  have "local_emitters em"
    using assms(2) plain.local_emitters_axioms symbolic.local_emitters_axioms binary.local_emitters_axioms by blast
  from local_emitters.dump_stream [OF this assms(1)] show ?thesis
    unfolding result_or_exit_def Let_def .
qed

text \<open>A parse state, and a file of a header and the start of thread 1, and nothing else.\<close>

definition sample_pstate :: rvp_pstate where
  "sample_pstate = \<lparr> ps_thread = replicate 8 (zero_thread_pstate\<lparr> ts_present := True \<rparr>), ps_nthreads = 8,
     ps_deltop_first = 0x400000, ps_deltop_center = deltop_of 0x400000 0 RVP_OP_BEGIN,
     ps_deltop_last = 0x402dff, ps_curthread = 1, ps_idepth = 0,
     ps_emit_generation = True, ps_emit_bytes = True \<rparr>"

definition sample_file :: input where
  "sample_file = \<lparr> in_bytes = header_bytes expected_th @
     bytes_of_u32s (fvals_words [VAddr (deltop_of 0x400000 0 RVP_OP_BEGIN), V32 1, V64 1]),
     in_sched = [Some 31, Some 100] \<rparr>"

lemma sample_file_ok: "long_reads (in_sched sample_file)" "file_ok (in_bytes sample_file)"
proof -
  show "long_reads (in_sched sample_file)" by (simp add: sample_file_def)
  show "file_ok (in_bytes sample_file)" by code_simp
qed

lemma buffered_reader_is_stream_witness:
  "rvp_trace_dump_with_emitters (\<lambda>n. True) False False 10 plain_text sample_pstate sample_file =
     stream (\<lambda>n. True) plain_text 10
       (rvp_pstate_init sample_pstate False False (read_u64 (drop 16 (in_bytes sample_file))))
       (begin0_bytes (read_u64 (drop 16 (in_bytes sample_file))) 1 @ drop 36 (in_bytes sample_file))"
  using buffered_reader_is_stream [OF sample_file_ok(2), of plain_text] sample_file_ok(1)
  by (simp add: Let_def) (simp add: plain_text_def text_emitters_def)

end
