(* ===== verification/Reader_Roundtrip.thy ===== *)
theory Reader_Roundtrip
  imports Records Reader_Stream
begin

text \<open>
  The reader recovers the records of a sequence from their words. The records are observed
  through a table of emitters that logs what the reader found: the thread, the signal depth,
  the operation, the program counter and the fields.
\<close>

section \<open>A log of what the reader finds\<close>

datatype traced = TNop u64 | TOp u32 u32 rvp_op u64 "fval list"

definition log_emitters :: "traced rvp_emitters" where
  "log_emitters = \<lparr> em_init = None,
     em_emit_nop = (\<lambda>ps ub. Inr (TNop (ub_pc ub))),
     em_emit_op = (\<lambda>ps ub op l w.
       case op_to_info op of None \<Rightarrow> Inl Undefined
       | Some (oi, _) \<Rightarrow> cbind (cur_ts ps) (\<lambda>ts.
           Inr (TOp (ps_curthread ps) (ps_idepth ps) op (ts_lastpc ts ! depth ps)
                 (tl (read_fields oi ub))))) \<rparr>"

lemma read_field_append: "field_size f \<le> length ub \<Longrightarrow> read_field f (ub @ r) = read_field f ub"
  by (cases f) (simp_all add: read_u32_append read_u64_append)

lemma read_fields_append:
  "layout_size l \<le> length ub \<Longrightarrow> read_fields l (ub @ r) = read_fields l ub"
  by (induction l arbitrary: ub) (simp_all add: read_field_append)

interpretation log: local_emitters log_emitters
  by unfold_locales (auto simp: log_emitters_def ub_pc_append read_fields_append)

section \<open>The state of one sequence\<close>

text \<open>
  What the reader knows of a sequence: the last program counter, the generation and the
  number of calls on the stack.
\<close>

record seqst =
  sq_lastpc :: u64
  sq_gen :: u64
  sq_calls :: nat

definition callstack_ok :: "rvp_callstack \<Rightarrow> bool" where
  "callstack_ok cs \<longleftrightarrow> cs_depth cs \<le> cs_nframes cs \<and> length (cs_frame cs) = cs_nframes cs \<and>
     \<not> int_overflows (cs_nframes cs)"

definition ts_ok :: "rvp_thread_pstate \<Rightarrow> bool" where
  "ts_ok ts \<longleftrightarrow> length (ts_lastpc ts) = 16 \<and> length (ts_generation ts) = 16 \<and>
     length (ts_callstack ts) = 16 \<and> length (ts_nops ts) = 16 \<and>
     (\<forall>cs\<in>set (ts_callstack ts). callstack_ok cs)"

definition seq_rel :: "u64 \<Rightarrow> rvp_pstate \<Rightarrow> seqst \<Rightarrow> bool" where
  "seq_rel base ps s \<longleftrightarrow>
     ps_deltop_first ps = base \<and> ps_deltop_last ps = ps_last_of base \<and>
     unat (ps_curthread ps) < length (ps_thread ps) \<and> depth ps < 16 \<and>
     (let ts = ps_thread ps ! unat (ps_curthread ps) in
      ts_ok ts \<and> ts_lastpc ts ! depth ps = sq_lastpc s \<and>
      ts_generation ts ! depth ps = sq_gen s \<and> cs_depth (ts_callstack ts ! depth ps) = sq_calls s)"

text \<open>What an operation of one sequence does to the state, once its program counter is known.\<close>

definition rec_effect :: "seqst \<Rightarrow> rvp_op \<Rightarrow> fval list \<Rightarrow> seqst option" where
  "rec_effect s op vals =
     (if op = RVP_OP_COG then
        (case vals of [V64 g] \<Rightarrow> if sq_gen s < g then Some (s\<lparr> sq_gen := g \<rparr>) else None | _ \<Rightarrow> None)
      else if op = RVP_OP_ENTERFN then
        (if sq_calls s < 2 ^ 30 then Some (s\<lparr> sq_calls := sq_calls s + 1 \<rparr>) else None)
      else if op = RVP_OP_EXITFN then
        (if sq_calls s = 0 then None else Some (s\<lparr> sq_calls := sq_calls s - 1 \<rparr>))
      else Some s)"

definition inner_op :: "rvp_op \<Rightarrow> bool" where
  "inner_op op \<longleftrightarrow> op \<notin> {RVP_OP_BEGIN, RVP_OP_END, RVP_OP_SWITCH, RVP_OP_SIGDEPTH,
     RVP_OP_ENTERSIG, RVP_OP_EXITSIG}"

text \<open>When the reader accepts a record of a sequence, and what it then knows.\<close>

definition rec_step :: "seqst \<Rightarrow> trec \<Rightarrow> seqst option" where
  "rec_step s t =
     (case op_to_info (rec_op t) of None \<Rightarrow> None
      | Some (oi, _) \<Rightarrow>
          if inner_op (rec_op t) \<and> map fval_field (rec_vals t) = tl oi
          then rec_effect (s\<lparr> sq_lastpc := rec_lastpc (sq_lastpc s) t \<rparr>) (rec_op t) (rec_vals t)
          else None)"

text \<open>What the log shows for a record.\<close>

definition rec_log :: "u32 \<Rightarrow> u32 \<Rightarrow> u64 \<Rightarrow> trec \<Rightarrow> traced list" where
  "rec_log tid dep lastpc t =
     (if rec_op t = RVP_OP_COG then [TOp tid dep RVP_OP_COG lastpc (rec_vals t)]
      else (let w = (ucast (rec_pc t - lastpc) :: 32 word) in
            (if - 128 \<le> sint w \<and> sint w < 128 then [] else [TNop (rec_pc t)]) @
            [TOp tid dep (rec_op t) (rec_pc t) (rec_vals t)]))"

fun recs_log :: "u32 \<Rightarrow> u32 \<Rightarrow> u64 \<Rightarrow> trec list \<Rightarrow> traced list" where
    "recs_log tid dep lastpc [] = []"
  | "recs_log tid dep lastpc (t # ts) =
       rec_log tid dep lastpc t @ recs_log tid dep (rec_lastpc lastpc t) ts"

fun recs_step :: "seqst \<Rightarrow> trec list \<Rightarrow> seqst option" where
    "recs_step s [] = Some s"
  | "recs_step s (t # ts) = (case rec_step s t of None \<Rightarrow> None | Some s \<Rightarrow> recs_step s ts)"

section \<open>One record\<close>

lemma ub_pc_VAddr [simp]: "ub_pc (bytes_of_u32s (fval_words (VAddr a)) @ r) = a"
  by (simp add: ub_pc_def)

lemma oi_first: "op_to_info op = Some (oi, d) \<Longrightarrow> \<exists>fs. oi = Addr # fs"
  by (cases op) (auto simp: layout_defs)

lemma seq_rel_lastpc:
  assumes "seq_rel base ps s"
  shows "\<exists>ts. cur_ts ps = Inr ts \<and> ts_ok ts \<and> ts_lastpc ts ! depth ps = sq_lastpc s \<and>
    ts_generation ts ! depth ps = sq_gen s \<and> cs_depth (ts_callstack ts ! depth ps) = sq_calls s \<and>
    callstack_ok (ts_callstack ts ! depth ps) \<and> ts = ps_thread ps ! unat (ps_curthread ps)"
  using assms by (auto simp: seq_rel_def cur_ts_def RVP_SIGNAL_DEPTH_def depth_def Let_def ts_ok_def)

lemma seq_rel_set:
  assumes "seq_rel base ps s" "ts_ok ts'" "ts_lastpc ts' ! depth ps = sq_lastpc s'"
    "ts_generation ts' ! depth ps = sq_gen s'" "cs_depth (ts_callstack ts' ! depth ps) = sq_calls s'"
  shows "seq_rel base (set_cur_ts ps ts') s'"
  using assms by (auto simp: seq_rel_def set_cur_ts_def depth_def Let_def)

lemma set_cur_ts_simps [simp]:
  "depth (set_cur_ts ps ts) = depth ps" "ps_curthread (set_cur_ts ps ts) = ps_curthread ps"
  "ps_idepth (set_cur_ts ps ts) = ps_idepth ps"
  "ps_deltop_first (set_cur_ts ps ts) = ps_deltop_first ps"
  "ps_deltop_last (set_cur_ts ps ts) = ps_deltop_last ps"
  "set_cur_ts (set_cur_ts ps ts) ts' = set_cur_ts ps ts'"
  by (simp_all add: set_cur_ts_def depth_def)

lemma cur_ts_set [simp]: "cur_ts ps = Inr ts0 \<Longrightarrow> cur_ts (set_cur_ts ps ts) = Inr ts"
  by (auto simp: cur_ts_def set_cur_ts_def split: if_splits)

lemma ts_ok_updates:
  "ts_ok ts \<Longrightarrow> ts_ok (ts\<lparr> ts_lastpc := (ts_lastpc ts)[d := pc] \<rparr>)"
  "ts_ok ts \<Longrightarrow> ts_ok (ts\<lparr> ts_generation := (ts_generation ts)[d := g], ts_nops := (ts_nops ts)[d := n] \<rparr>)"
  "ts_ok ts \<Longrightarrow> callstack_ok cs \<Longrightarrow> ts_ok (ts\<lparr> ts_callstack := (ts_callstack ts)[d := cs] \<rparr>)"
  by (auto simp: ts_ok_def dest!: set_update_subset_insert [THEN subsetD])

lemma callstack_push_ok:
  assumes "callstack_ok cs" "cs_depth cs < 2 ^ 30"
  shows "\<exists>cs'. rvp_callstack_push (\<lambda>_. True) cs pc cfa = Inr cs' \<and> callstack_ok cs' \<and>
    cs_depth cs' = cs_depth cs + 1"
  using assms
  by (auto simp: rvp_callstack_push_def rvp_callstack_expand_def callstack_ok_def int_overflows_def Let_def)

lemma callstack_pop_ok:
  assumes "callstack_ok cs" "0 < cs_depth cs"
  shows "\<exists>cs'. rvp_callstack_pop cs = Inr cs' \<and> callstack_ok cs' \<and> cs_depth cs' = cs_depth cs - 1"
  using assms by (auto simp: rvp_callstack_pop_def callstack_ok_def)

definition yes :: "nat \<Rightarrow> bool" where "yes n = True"

lemma yes_eq: "yes = (\<lambda>_. True)"
  by (simp add: yes_def fun_eq_iff)

lemma is_deltop:
  assumes "seq_rel base ps s"
  shows "pc_is_not_deltop ps pc \<longleftrightarrow> \<not> pc_in_deltops base pc"
  using assms by (simp add: seq_rel_def pc_is_not_deltop_def pc_in_deltops_def)

lemma consume_nop:
  assumes rel: "seq_rel base ps s" and pc: "\<not> pc_in_deltops base pc"
  shows "\<exists>ps'. consume_and_print_trace yes log_emitters ps
      (bytes_of_u32s (fval_words (VAddr pc)) @ r) = Inr (0, ps', r, [TNop pc]) \<and>
    seq_rel base ps' (s\<lparr> sq_lastpc := pc \<rparr>) \<and> ps_curthread ps' = ps_curthread ps \<and>
    ps_idepth ps' = ps_idepth ps"
proof -
  obtain ts where ts: "cur_ts ps = Inr ts" "ts_ok ts" "ts_generation ts ! depth ps = sq_gen s"
    "cs_depth (ts_callstack ts ! depth ps) = sq_calls s"
    using seq_rel_lastpc [OF rel] by blast
  let ?ts = "ts\<lparr> ts_lastpc := (ts_lastpc ts)[depth ps := pc] \<rparr>"
  have d: "depth ps < length (ts_lastpc ts)"
    using rel ts(2) by (simp add: seq_rel_def ts_ok_def)
  have "seq_rel base (set_cur_ts ps ?ts) (s\<lparr> sq_lastpc := pc \<rparr>)"
    using ts d by (intro seq_rel_set [OF rel]) (simp_all add: ts_ok_updates)
  moreover have "consume_and_print_trace yes log_emitters ps
      (bytes_of_u32s (fval_words (VAddr pc)) @ r) = Inr (0, set_cur_ts ps ?ts, r, [TNop pc])"
    using ts is_deltop [OF rel, of pc] pc
    by (simp add: consume_and_print_trace_def log_emitters_def advance_eq ub_pc_def Let_def)
  ultimately show ?thesis by auto
qed

lemma consume_calls_rel:
  assumes rel: "seq_rel base ps s" and s': "rec_effect s op vals = Some s'" and cog: "op \<noteq> RVP_OP_COG"
  shows "\<exists>ps'. consume_calls yes ps ub op pc = Inr ps' \<and> seq_rel base ps' s' \<and>
    ps_curthread ps' = ps_curthread ps \<and> ps_idepth ps' = ps_idepth ps"
proof -
  obtain ts where ts: "cur_ts ps = Inr ts" "ts_ok ts" "ts_generation ts ! depth ps = sq_gen s"
    "ts_lastpc ts ! depth ps = sq_lastpc s" "callstack_ok (ts_callstack ts ! depth ps)"
    "cs_depth (ts_callstack ts ! depth ps) = sq_calls s"
    using seq_rel_lastpc [OF rel] by blast
  have d: "depth ps < length (ts_callstack ts)"
    using rel ts(2) by (simp add: seq_rel_def ts_ok_def)
  have upd: "seq_rel base (set_cur_ts ps (ts\<lparr> ts_callstack := (ts_callstack ts)[depth ps := cs] \<rparr>)) (s\<lparr> sq_calls := cs_depth cs \<rparr>)"
    if "callstack_ok cs" for cs
    using ts d that by (intro seq_rel_set [OF rel]) (simp_all add: ts_ok_updates)
  consider "op = RVP_OP_ENTERFN" | "op = RVP_OP_EXITFN" | "op \<noteq> RVP_OP_ENTERFN" "op \<noteq> RVP_OP_EXITFN" by blast
  then show ?thesis
  proof cases
    case 1
    then have "sq_calls s < 2 ^ 30" using s' by (auto simp: rec_effect_def split: if_splits)
    then obtain cs where "rvp_callstack_push yes (ts_callstack ts ! depth ps) pc (fld64 rvp_enterfn_t 1 ub) = Inr cs"
      "callstack_ok cs" "cs_depth cs = sq_calls s + 1"
      using callstack_push_ok [OF ts(5)] ts(6) unfolding yes_eq by metis
    then show ?thesis using 1 ts upd [of cs] s' by (auto simp: consume_calls_def rec_effect_def split: if_splits)
  next
    case 2
    then have "0 < sq_calls s" using s' by (auto simp: rec_effect_def split: if_splits)
    then obtain cs where "rvp_callstack_pop (ts_callstack ts ! depth ps) = Inr cs"
      "callstack_ok cs" "cs_depth cs = sq_calls s - 1"
      using callstack_pop_ok [OF ts(5)] ts(6) by metis
    then show ?thesis using 2 ts upd [of cs] s' by (auto simp: consume_calls_def rec_effect_def split: if_splits)
  next
    case 3
    then show ?thesis using rel s' cog by (auto simp: consume_calls_def rec_effect_def)
  qed
qed

lemma consume_cog_rel:
  assumes rel: "seq_rel base ps s" and s': "rec_effect s RVP_OP_COG vals = Some s'"
    and g: "vals = [V64 (fld64 rvp_cog_t 1 ub)]"
  shows "\<exists>ps'. consume_cog ps ub RVP_OP_COG = Inr ps' \<and> seq_rel base ps' s' \<and>
    ps_curthread ps' = ps_curthread ps \<and> ps_idepth ps' = ps_idepth ps"
proof -
  obtain ts where ts: "cur_ts ps = Inr ts" "ts_ok ts" "ts_generation ts ! depth ps = sq_gen s"
    "ts_lastpc ts ! depth ps = sq_lastpc s" "cs_depth (ts_callstack ts ! depth ps) = sq_calls s"
    using seq_rel_lastpc [OF rel] by blast
  let ?g = "fld64 rvp_cog_t 1 ub"
  have d: "depth ps < length (ts_generation ts)" "depth ps < 16"
    using rel ts(2) by (simp_all add: seq_rel_def ts_ok_def)
  have g': "sq_gen s < ?g" "s' = s\<lparr> sq_gen := ?g \<rparr>"
    using s' g by (auto simp: rec_effect_def split: if_splits)
  have "seq_rel base (set_cur_ts ps (ts\<lparr> ts_generation := (ts_generation ts)[depth ps := ?g],
      ts_nops := (ts_nops ts)[depth ps := 0] \<rparr>)) s'"
    using ts d g' by (intro seq_rel_set [OF rel]) (simp_all add: ts_ok_updates)
  then show ?thesis
    using ts d g' by (auto simp: consume_cog_def RVP_SIGNAL_DEPTH_def)
qed

lemma consume_pc_rel:
  assumes rel: "seq_rel base ps s"
  shows "\<exists>ps'. consume_pc ps j = Inr (sq_lastpc s + scast j, ps') \<and>
    seq_rel base ps' (s\<lparr> sq_lastpc := sq_lastpc s + scast j \<rparr>) \<and>
    ps_curthread ps' = ps_curthread ps \<and> ps_idepth ps' = ps_idepth ps"
proof -
  obtain ts where ts: "cur_ts ps = Inr ts" "ts_ok ts" "ts_generation ts ! depth ps = sq_gen s"
    "ts_lastpc ts ! depth ps = sq_lastpc s" "cs_depth (ts_callstack ts ! depth ps) = sq_calls s"
    using seq_rel_lastpc [OF rel] by blast
  have d: "depth ps < length (ts_lastpc ts)"
    using rel ts(2) by (simp add: seq_rel_def ts_ok_def)
  let ?pc = "sq_lastpc s + scast j"
  have "seq_rel base (set_cur_ts ps (ts\<lparr> ts_lastpc := (ts_lastpc ts)[depth ps := ?pc] \<rparr>)) (s\<lparr> sq_lastpc := ?pc \<rparr>)"
    using ts d by (intro seq_rel_set [OF rel]) (simp_all add: ts_ok_updates)
  then show ?thesis using ts by (auto simp: consume_pc_def Let_def)
qed

lemma emit_op_log:
  assumes rel: "seq_rel base ps s" and oi: "op_to_info op = Some (Addr # map fval_field vals, d)"
  shows "em_emit_op log_emitters ps (bytes_of_u32s (fvals_words (VAddr a # vals)) @ r) op l w =
    Inr (TOp (ps_curthread ps) (ps_idepth ps) op (sq_lastpc s) vals)"
  using seq_rel_lastpc [OF rel] oi read_fields_words [of "VAddr a # vals" r]
  by (auto simp: log_emitters_def)

lemma cog_field:
  "op_to_info RVP_OP_COG = Some (Addr # map fval_field vals, d) \<Longrightarrow>
   vals = [V64 (fld64 rvp_cog_t 1 (bytes_of_u32s (fvals_words (VAddr a # vals)) @ r))]"
  by (cases vals; cases "hd vals") (auto simp: layout_defs fld64_def)

lemma consume_op:
  assumes base: "deltops_fit base" and rel: "seq_rel base ps s"
    and j: "- 128 \<le> j" "j < 128" and op: "inner_op op"
    and oi: "op_to_info op = Some (Addr # map fval_field vals, d)"
    and s': "rec_effect (s\<lparr> sq_lastpc := sq_lastpc s + scast (word_of_int j :: 32 word) \<rparr>) op vals = Some s'"
  shows "\<exists>ps'. consume_and_print_trace yes log_emitters ps
      (bytes_of_u32s (fvals_words (VAddr (deltop_of base j op) # vals)) @ r) =
        Inr (0, ps', r, [TOp (ps_curthread ps) (ps_idepth ps) op
              (sq_lastpc s + scast (word_of_int j :: 32 word)) vals]) \<and>
    seq_rel base ps' s' \<and> ps_curthread ps' = ps_curthread ps \<and> ps_idepth ps' = ps_idepth ps"
proof -
  let ?ub = "bytes_of_u32s (fvals_words (VAddr (deltop_of base j op) # vals)) @ r"
  let ?j = "word_of_int j :: 32 word"
  let ?pc = "sq_lastpc s + scast ?j"
  let ?n = "layout_size (Addr # map fval_field vals)"
  have len: "length (bytes_of_u32s (fvals_words (VAddr (deltop_of base j op) # vals))) = ?n"
    using length_fvals_words [of "VAddr (deltop_of base j op) # vals"] by simp
  have pc: "ub_pc ?ub = deltop_of base j op" by (simp add: ub_pc_def)
  have nd: "\<not> pc_is_not_deltop ps (ub_pc ?ub)"
    unfolding is_deltop [OF rel] pc using pc_in_deltops_deltop_of [OF base j] by simp
  have ex: "extract_jmpvec_and_op_from_deltop (ps_deltop_first ps) (ub_pc ?ub) = Inr (?j, op)"
    unfolding pc using extract_deltop_of [OF base j] rel by (simp add: seq_rel_def)
  have b: "consume_begin yes ps ?ub op = Inr ps"
    using op by (simp add: consume_begin_def inner_op_def)
  obtain ps1 where p1: "consume_pc ps ?j = Inr (?pc, ps1)" "seq_rel base ps1 (s\<lparr> sq_lastpc := ?pc \<rparr>)"
    "ps_curthread ps1 = ps_curthread ps" "ps_idepth ps1 = ps_idepth ps"
    using consume_pc_rel [OF rel] by blast
  have rest: "consume_end q op = Inr q" "consume_context q ?ub op = Inr q" for q
    using op by (simp_all add: consume_end_def consume_context_def inner_op_def)
  have adv: "advance ?ub ?n = Inr r"
    using len by (simp add: advance_def)
  have short: "\<not> length ?ub < ?n" using len by simp
  have nsig: "op \<noteq> RVP_OP_ENTERSIG" using op by (simp add: inner_op_def)
  show ?thesis
  proof (cases "op = RVP_OP_COG")
    case True
    have calls: "consume_calls yes ps1 ?ub op ?pc = Inr ps1" using True by (simp add: consume_calls_def)
    have e1: "em_emit_op log_emitters ps1 ?ub op (op_is_load op) (op_field_width op) =
        Inr (TOp (ps_curthread ps) (ps_idepth ps) op ?pc vals)"
      using emit_op_log [OF p1(2) oi] p1(3,4) by simp
    obtain ps2 where p2: "consume_cog ps1 ?ub op = Inr ps2" "seq_rel base ps2 s'"
      "ps_curthread ps2 = ps_curthread ps" "ps_idepth ps2 = ps_idepth ps"
      using consume_cog_rel [OF p1(2), of vals s' ?ub] s' True oi cog_field p1(3,4) by auto
    show ?thesis
      unfolding consume_and_print_trace_def
      by (simp only: nd ex oi short b p1 calls e1 p2 rest adv nsig cbind_simps cassert_True
          if_False option.case prod.case simp_thms not_True_eq_False) (auto simp: p2)
  next
    case False
    obtain ps2 where p2: "consume_calls yes ps1 ?ub op ?pc = Inr ps2" "seq_rel base ps2 s'"
      "ps_curthread ps2 = ps_curthread ps" "ps_idepth ps2 = ps_idepth ps"
      using consume_calls_rel [OF p1(2) s' False] p1(3,4) by metis
    have pcs: "sq_lastpc s' = ?pc"
      using s' False by (auto simp: rec_effect_def split: if_splits)
    have e1: "em_emit_op log_emitters ps2 ?ub op (op_is_load op) (op_field_width op) =
        Inr (TOp (ps_curthread ps) (ps_idepth ps) op ?pc vals)"
      using emit_op_log [OF p2(2) oi] p2(3,4) pcs by simp
    have cog: "consume_cog ps2 ?ub op = Inr ps2" using False by (simp add: consume_cog_def)
    show ?thesis
      unfolding consume_and_print_trace_def
      by (simp only: nd ex oi short b p1 p2 cog e1 rest adv nsig cbind_simps cassert_True
          if_False option.case prod.case simp_thms not_True_eq_False) (auto simp: p2)
  qed
qed

section \<open>A sequence of records\<close>

definition seq_after :: "u64 \<Rightarrow> rvp_pstate \<Rightarrow> rvp_pstate \<Rightarrow> seqst \<Rightarrow> bool" where
  "seq_after base ps ps' s' \<longleftrightarrow> seq_rel base ps' s' \<and> ps_curthread ps' = ps_curthread ps \<and>
     ps_idepth ps' = ps_idepth ps"

text \<open>Reading \<open>bs\<close> logs \<open>ls\<close> and leaves the state as \<open>s'\<close> says, whatever follows.\<close>

definition reads :: "u64 \<Rightarrow> rvp_pstate \<Rightarrow> u8 list \<Rightarrow> traced list \<Rightarrow> seqst \<Rightarrow> bool" where
  "reads base ps bs ls s' \<longleftrightarrow> (\<exists>ps'. seq_after base ps ps' s' \<and>
     (\<forall>most r. length ls \<le> most \<longrightarrow> stream yes log_emitters most ps (bs @ r) =
        cbind (stream yes log_emitters (most - length ls) ps' r) (\<lambda>out. Inr (ls @ out))))"

lemma reads_step:
  assumes "consume_and_print_trace yes log_emitters ps bs = Inr (0, ps', [], [l])"
    and "8 \<le> length bs" "seq_after base ps ps' s'"
  shows "reads base ps bs [l] s'"
  unfolding reads_def
proof (intro exI conjI allI impI)
  fix most r
  assume "length [l] \<le> most"
  then show "stream yes log_emitters most ps (bs @ r) =
      cbind (stream yes log_emitters (most - length [l]) ps' r) (\<lambda>out. Inr ([l] @ out))"
    using log.consume_append_ok(1) [OF assms(2,1), of r] assms(2)
      log.stream_step [of "bs @ r" most yes ps] by simp
qed (rule assms(3))

lemma reads_append:
  assumes "reads base ps bs ls s1"
    and "\<And>ps1. seq_after base ps ps1 s1 \<Longrightarrow> reads base ps1 cs ms s2"
  shows "reads base ps (bs @ cs) (ls @ ms) s2"
proof -
  obtain ps1 where 1: "seq_after base ps ps1 s1"
    "\<And>most r. length ls \<le> most \<Longrightarrow> stream yes log_emitters most ps (bs @ r) =
        cbind (stream yes log_emitters (most - length ls) ps1 r) (\<lambda>out. Inr (ls @ out))"
    using assms(1) unfolding reads_def by blast
  obtain ps2 where 2: "seq_after base ps1 ps2 s2"
    "\<And>most r. length ms \<le> most \<Longrightarrow> stream yes log_emitters most ps1 (cs @ r) =
        cbind (stream yes log_emitters (most - length ms) ps2 r) (\<lambda>out. Inr (ms @ out))"
    using assms(2) [OF 1(1)] unfolding reads_def by blast
  have "stream yes log_emitters most ps ((bs @ cs) @ r) =
      cbind (stream yes log_emitters (most - length (ls @ ms)) ps2 r) (\<lambda>out. Inr ((ls @ ms) @ out))"
    if "length (ls @ ms) \<le> most" for most r
    using 1(2) [of most "cs @ r"] 2(2) [of "most - length ls" r] that
    by (cases "stream yes log_emitters (most - length (ls @ ms)) ps2 r") simp_all
  moreover have "seq_after base ps ps2 s2" using 1(1) 2(1) by (simp add: seq_after_def)
  ultimately show ?thesis unfolding reads_def by blast
qed

lemma reads_Nil: "seq_rel base ps s \<Longrightarrow> reads base ps [] [] s"
proof -
  assume "seq_rel base ps s"
  then have "seq_after base ps ps s" by (simp add: seq_after_def)
  moreover have "stream yes log_emitters most ps r =
      cbind (stream yes log_emitters most ps r) (\<lambda>out. Inr out)" for most r
    by (cases "stream yes log_emitters most ps r") simp_all
  ultimately show ?thesis unfolding reads_def by auto
qed

lemma reads_op:
  assumes "deltops_fit base" "seq_rel base ps s" "- 128 \<le> j" "j < 128" "inner_op op"
    "op_to_info op = Some (Addr # map fval_field vals, d)"
    "rec_effect (s\<lparr> sq_lastpc := sq_lastpc s + scast (word_of_int j :: 32 word) \<rparr>) op vals = Some s'"
  shows "reads base ps (bytes_of_u32s (fval_words (VAddr (deltop_of base j op)) @ fvals_words vals))
    [TOp (ps_curthread ps) (ps_idepth ps) op (sq_lastpc s + scast (word_of_int j :: 32 word)) vals] s'"
proof -
  obtain ps' where "consume_and_print_trace yes log_emitters ps
      (bytes_of_u32s (fvals_words (VAddr (deltop_of base j op) # vals))) =
        Inr (0, ps', [], [TOp (ps_curthread ps) (ps_idepth ps) op
              (sq_lastpc s + scast (word_of_int j :: 32 word)) vals])" "seq_after base ps ps' s'"
    using consume_op [OF assms, of "[]"] by (auto simp: seq_after_def)
  then show ?thesis by (intro reads_step) simp_all
qed

lemma reads_nop:
  assumes "seq_rel base ps s" "\<not> pc_in_deltops base pc"
  shows "reads base ps (bytes_of_u32s (fval_words (VAddr pc))) [TNop pc] (s\<lparr> sq_lastpc := pc \<rparr>)"
proof -
  obtain ps' where "consume_and_print_trace yes log_emitters ps
      (bytes_of_u32s (fval_words (VAddr pc))) = Inr (0, ps', [], [TNop pc])"
      "seq_after base ps ps' (s\<lparr> sq_lastpc := pc \<rparr>)"
    using consume_nop [OF assms, of "[]"] by (auto simp: seq_after_def)
  then show ?thesis by (intro reads_step) simp_all
qed

lemma scast_word_of_sint: "scast (word_of_int (sint w) :: 32 word) = (scast w :: u64)" for w :: "32 word"
  by simp

lemma reads_rec:
  assumes base: "deltops_fit base" and rel: "seq_rel base ps s"
    and pc: "rec_op t \<noteq> RVP_OP_COG \<Longrightarrow> pc_ok base (sq_lastpc s) (rec_pc t)"
    and step: "rec_step s t = Some s'"
  shows "reads base ps (bytes_of_u32s (rec_words base (sq_lastpc s) t))
    (rec_log (ps_curthread ps) (ps_idepth ps) (sq_lastpc s) t) s'"
proof -
  let ?op = "rec_op t" and ?vals = "rec_vals t" and ?L = "sq_lastpc s"
  obtain fs d where oi: "op_to_info ?op = Some (Addr # fs, d)" "map fval_field ?vals = fs"
    and inner: "inner_op ?op"
    and eff: "rec_effect (s\<lparr> sq_lastpc := rec_lastpc ?L t \<rparr>) ?op ?vals = Some s'"
    using step oi_first by (fastforce simp: rec_step_def split: option.splits if_splits)
  note oi = oi(1) [folded oi(2)]
  have at0: "reads base ps' (bytes_of_u32s (op_words base ?op @ fvals_words ?vals))
      [TOp (ps_curthread ps') (ps_idepth ps') ?op (rec_lastpc ?L t) ?vals] s'"
    if "seq_rel base ps' (s\<lparr> sq_lastpc := rec_lastpc ?L t \<rparr>)" for ps'
    using reads_op [OF base that _ _ inner oi, of 0 s'] eff by (simp add: op_words_def)
  show ?thesis
  proof (cases "?op = RVP_OP_COG")
    case True
    then show ?thesis
      using at0 [of ps] rel by (simp add: rec_words_def rec_log_def rec_lastpc_def)
  next
    case False
    let ?w = "ucast (rec_pc t - ?L) :: 32 word"
    note pc = pc [OF False]
    show ?thesis
    proof (cases "- 128 \<le> sint ?w \<and> sint ?w < 128")
      case True
      then have "scast ?w = rec_pc t - ?L" using pc by (simp add: pc_ok_def Let_def)
      then have "?L + scast (word_of_int (sint ?w) :: 32 word) = rec_lastpc ?L t"
        unfolding scast_word_of_sint using False by (simp add: rec_lastpc_def)
      then show ?thesis
        using reads_op [OF base rel _ _ inner oi, of "sint ?w" s'] eff True False
        by (simp add: rec_words_def pc_op_words_def rec_log_def rec_lastpc_def Let_def)
    next
      case far: False
      have nop: "reads base ps (bytes_of_u32s (fval_words (VAddr (rec_pc t)))) [TNop (rec_pc t)]
          (s\<lparr> sq_lastpc := rec_pc t \<rparr>)"
        using pc by (intro reads_nop [OF rel]) (simp add: pc_ok_def)
      have "reads base ps (bytes_of_u32s (fval_words (VAddr (rec_pc t))) @
            bytes_of_u32s (op_words base ?op @ fvals_words ?vals))
          ([TNop (rec_pc t)] @ [TOp (ps_curthread ps) (ps_idepth ps) ?op (rec_pc t) ?vals]) s'"
      proof (rule reads_append [OF nop])
        fix ps1
        assume "seq_after base ps ps1 (s\<lparr> sq_lastpc := rec_pc t \<rparr>)"
        then show "reads base ps1 (bytes_of_u32s (op_words base ?op @ fvals_words ?vals))
            [TOp (ps_curthread ps) (ps_idepth ps) ?op (rec_pc t) ?vals] s'"
          using at0 [of ps1] False by (simp add: seq_after_def rec_lastpc_def)
      qed
      then show ?thesis
        using far False by (auto simp: rec_words_def pc_op_words_def rec_log_def Let_def)
    qed
  qed
qed

lemma rec_step_lastpc: "rec_step s t = Some s' \<Longrightarrow> sq_lastpc s' = rec_lastpc (sq_lastpc s) t"
  by (auto simp: rec_step_def rec_effect_def split: option.splits if_splits list.splits fval.splits)

lemma reads_recs:
  "deltops_fit base \<Longrightarrow> seq_rel base ps s \<Longrightarrow> recs_pcs_ok base (sq_lastpc s) ts \<Longrightarrow>
   recs_step s ts = Some s' \<Longrightarrow>
   reads base ps (bytes_of_u32s (recs_words base (sq_lastpc s) ts))
     (recs_log (ps_curthread ps) (ps_idepth ps) (sq_lastpc s) ts) s'"
proof (induction ts arbitrary: ps s)
  case Nil
  then show ?case by (simp add: reads_Nil)
next
  case (Cons t ts)
  then obtain s1 where s1: "rec_step s t = Some s1" "recs_step s1 ts = Some s'"
    by (auto split: option.splits)
  have r1: "reads base ps (bytes_of_u32s (rec_words base (sq_lastpc s) t))
      (rec_log (ps_curthread ps) (ps_idepth ps) (sq_lastpc s) t) s1"
    using Cons.prems s1(1) by (intro reads_rec) auto
  show ?case
    unfolding recs_words.simps recs_log.simps bytes_of_u32s_simps(3)
  proof (rule reads_append [OF r1])
    fix ps1
    assume "seq_after base ps ps1 s1"
    then show "reads base ps1 (bytes_of_u32s (recs_words base (rec_lastpc (sq_lastpc s) t) ts))
        (recs_log (ps_curthread ps) (ps_idepth ps) (rec_lastpc (sq_lastpc s) t) ts) s'"
      using Cons.IH [of ps1 s1] Cons.prems s1 rec_step_lastpc [OF s1(1)]
      by (simp add: seq_after_def)
  qed
qed

end
