(* ===== verification/Trace_Roundtrip.thy ===== *)
theory Trace_Roundtrip
  imports Access_Laws Reader_Roundtrip
begin

text \<open>
  From the program to the reader: a run of instrumented calls leaves words on the ring of the
  sequence, and the reader finds in these words the calls, in order, each with its program
  counter and its operands.
\<close>

section \<open>A run of calls\<close>

fun icall_runs :: "rvp_rt \<Rightarrow> (u64 \<times> icall) list \<Rightarrow> rvp_env \<Rightarrow> rvp_env cres" where
    "icall_runs c [] e = Inr e"
  | "icall_runs c ((ra, call) # calls) e = cbind (icall_run c ra call e) (icall_runs c calls)"

definition is_cog :: "trec \<Rightarrow> bool" where "is_cog t \<longleftrightarrow> rec_op t = RVP_OP_COG"

text \<open>Every change of generation goes up, starting above \<open>g\<close>.\<close>

fun gens_ok :: "u64 \<Rightarrow> trec list \<Rightarrow> bool" where
    "gens_ok g [] = True"
  | "gens_ok g (t # ts) \<longleftrightarrow>
       (if is_cog t then (case rec_vals t of [V64 h] \<Rightarrow> g < h \<and> gens_ok h ts | _ \<Rightarrow> False)
        else gens_ok g ts)"

fun last_gen :: "u64 \<Rightarrow> trec list \<Rightarrow> u64" where
    "last_gen g [] = g"
  | "last_gen g (t # ts) =
       (if is_cog t then (case rec_vals t of [V64 h] \<Rightarrow> last_gen h ts | _ \<Rightarrow> g) else last_gen g ts)"

lemma gens_ok_append: "gens_ok g (ts @ us) \<longleftrightarrow> gens_ok g ts \<and> gens_ok (last_gen g ts) us"
  by (induction ts arbitrary: g) (auto split: list.splits fval.splits)

lemma last_gen_append: "gens_ok g ts \<Longrightarrow> last_gen g (ts @ us) = last_gen (last_gen g ts) us"
  by (induction ts arbitrary: g) (auto split: list.splits fval.splits if_splits)

lemma icall_recs_facts:
  assumes "icall_ok c call"
  shows "filter (\<lambda>t. \<not> is_cog t) (icall_recs ra call lgen gen) = [icall_rec ra call]"
    "gens_ok lgen (icall_recs ra call lgen gen)"
    "icall_cog call = NoCog \<Longrightarrow> gen = 0 \<Longrightarrow> last_gen lgen (icall_recs ra call lgen gen) = max lgen gen"
    "icall_cog call \<noteq> NoCog \<Longrightarrow> last_gen lgen (icall_recs ra call lgen gen) = max lgen gen"
    "recs_lastpc L (icall_recs ra call lgen gen) = ra"
    "icall_recs ra call lgen gen \<noteq> []"
  using icall_rec_op [OF assms]
  by (auto simp: icall_recs_def cog_recs_def is_cog_def rec_lastpc_def max_def split: cog_place.splits)

lemma length_rec_vals: "length (fvals_words (rec_vals (icall_rec ra call))) \<le> 6"
  by (cases call) simp_all

lemma length_icall_words:
  assumes "icall_ok c call"
  shows "length (recs_words base L (icall_recs ra call lgen gen)) \<le> 14"
    "0 < length (recs_words base L (icall_recs ra call lgen gen))"
proof -
  have "length (plain_words base L (icall_rec ra call)) \<le> 10" "0 < length (plain_words base L (icall_rec ra call))"
    using length_rec_vals [of ra call] length_pc_op_words [of base L ra "rec_op (icall_rec ra call)"]
    by (auto simp: plain_words_def)
  then show "length (recs_words base L (icall_recs ra call lgen gen)) \<le> 14"
    "0 < length (recs_words base L (icall_recs ra call lgen gen))"
    using words_of_recs [OF icall_rec_op [OF assms]] length_cog_words [of base lgen gen]
      rec_words_plain [OF icall_rec_op [OF assms]] icall_rec_op [OF assms]
    by (auto simp: icall_recs_def rec_lastpc_def split: cog_place.split)
qed

lemma env_ok_sets [simp]:
  "env_ok (set_lgen g e) = env_ok e" "env_ok (set_lastpc pc e) = env_ok e"
  "ring_contents (e_ring (set_lgen g e)) = ring_contents (e_ring e)"
  "ring_contents (e_ring (set_lastpc pc e)) = ring_contents (e_ring e)"
  "r_last (e_ring (set_lgen g e)) = r_last (e_ring e)"
  "r_last (e_ring (set_lastpc pc e)) = r_last (e_ring e)"
  by (simp_all add: env_ok_def ring_ok_def set_lgen_def set_lastpc_def ring_contents_def rvp_ring_nfull_def)

lemma env_ok_gen [simp]: "env_ok (snd (icall_gen call e)) = env_ok e" "e_ring (snd (icall_gen call e)) = e_ring e"
  "e_obs (snd (icall_gen call e)) = e_obs e"
  by (auto simp: icall_gen_def env_ok_def rvp_ggen_after_load_def ggen_interference_def Let_def split: list.splits)

lemma icall_run_history:
  assumes c: "deltops_fit (rt_base c)" "rt_operational c" and ok: "icall_ok c call"
    and e: "env_ok e" "20 \<le> r_last (e_ring e)" and run: "icall_run c ra call e = Inr e'"
  shows "\<exists>k. let ts = icall_recs ra call (r_lgen (e_ring e)) (e_ggen (ggen_interference e)) in
     env_ok e' \<and> r_last (e_ring e') = r_last (e_ring e) \<and> r_lastpc (e_ring e') = ra \<and>
     r_lgen (e_ring e') = last_gen (r_lgen (e_ring e)) ts \<and>
     ring_contents (e_ring e') =
       drop k (ring_contents (e_ring e) @ recs_words (rt_base c) (r_lastpc (e_ring e)) ts) \<and>
     k + sum_list (e_obs e') \<le> sum_list (e_obs e)"
proof -
  obtain gen e1 where g: "icall_gen call e = (gen, e1)" by (cases "icall_gen call e")
  let ?lgen = "r_lgen (e_ring e)" and ?L = "r_lastpc (e_ring e)"
  let ?ts = "icall_recs ra call ?lgen gen"
  let ?e = "set_lgen (max ?lgen gen) (set_lastpc ra e1)"
  have e1: "e_ring e1 = e_ring e" "env_ok e1" using env_ok_gen [of call e] e(1) by (simp_all add: g)
  have obs: "e_obs ?e = e_obs e" using env_ok_gen(3) [of call e] by (simp add: g set_lgen_def set_lastpc_def)
  have put: "ring_put_words ?e (recs_words (rt_base c) ?L ?ts) = Inr e'"
    using run icall_recs_facts(5) [OF ok]
    by (simp add: icall_run_recs [OF c ok] g emit_recs_def e1 Let_def)
  note len = length_icall_words [OF ok, of "rt_base c" ?L ra ?lgen gen]
  have s: "env_ok e'" "same_sequence ?e e'"
    "\<exists>k. ring_contents (e_ring e') = drop k (ring_contents (e_ring ?e) @ recs_words (rt_base c) ?L ?ts) \<and>
       k + sum_list (e_obs e') \<le> sum_list (e_obs e)"
    using ring_put_words_safe [of ?e "recs_words (rt_base c) ?L ?ts" e'] e e1 len put obs by auto
  then obtain k where k: "ring_contents (e_ring e') = drop k (ring_contents (e_ring ?e) @ recs_words (rt_base c) ?L ?ts)"
    "k + sum_list (e_obs e') \<le> sum_list (e_obs e)"
    by blast
  have "last_gen ?lgen ?ts = max ?lgen gen"
  proof (cases "icall_cog call = NoCog")
    case True
    then have "gen = 0" using g by (simp add: icall_gen_def)
    then show ?thesis by (rule icall_recs_facts(3) [OF ok True])
  qed (rule icall_recs_facts(4) [OF ok])
  moreover have "?ts = icall_recs ra call ?lgen (e_ggen (ggen_interference e))"
    using g by (cases "icall_cog call") (auto simp: icall_recs_def icall_gen_def rvp_ggen_after_load_def Let_def split: if_splits)
  ultimately show ?thesis
    using s(1,2) k e1 unfolding same_sequence_def Let_def by (intro exI [of _ k]) auto
qed

lemma icall_run_fails_waiting:
  assumes c: "deltops_fit (rt_base c)" "rt_operational c" and ok: "icall_ok c call"
    and e: "env_ok e" "20 \<le> r_last (e_ring e)" and run: "icall_run c ra call e = Inl x"
  shows "x = Waiting"
proof -
  obtain gen e1 where g: "icall_gen call e = (gen, e1)" by (cases "icall_gen call e")
  let ?ws = "recs_words (rt_base c) (r_lastpc (e_ring e)) (icall_recs ra call (r_lgen (e_ring e)) gen)"
  let ?e = "set_lgen (max (r_lgen (e_ring e)) gen) (set_lastpc ra e1)"
  have e1: "e_ring e1 = e_ring e" "env_ok e1" using env_ok_gen [of call e] e(1) by (simp_all add: g)
  have put: "ring_put_words ?e ?ws = Inl x"
    using run icall_recs_facts(5) [OF ok]
    by (simp add: icall_run_recs [OF c ok] g emit_recs_def e1 Let_def)
  note len = length_icall_words [OF ok, of "rt_base c" "r_lastpc (e_ring e)" ra "r_lgen (e_ring e)" gen]
  have "rvp_ring_put_multiple ?e (?ws @ replicate (20 - length ?ws) 0) (int (length ?ws)) = Inl x"
    using put len by (simp add: put_buf_words)
  then show ?thesis
    using put_multiple_returns [of ?e ?ws "?ws @ replicate (20 - length ?ws) 0"] e1 len e(2)
    by (cases "int (length ?ws) \<le> rvp_ring_nempty (ring_consume (sum_list (e_obs ?e)) (e_ring ?e))")
       (auto simp: rvp_ring_capacity_def)
qed

text \<open>The records of a run: the calls in order, with changes of generation among them.\<close>

lemma icall_runs_history:
  assumes c: "deltops_fit (rt_base c)" "rt_operational c"
  shows "\<forall>(ra, call)\<in>set calls. icall_ok c call \<Longrightarrow> env_ok e \<Longrightarrow> 20 \<le> r_last (e_ring e) \<Longrightarrow>
    icall_runs c calls e = Inr e' \<Longrightarrow>
    \<exists>ts k. env_ok e' \<and> r_last (e_ring e') = r_last (e_ring e) \<and>
      filter (\<lambda>t. \<not> is_cog t) ts = map (\<lambda>(ra, call). icall_rec ra call) calls \<and>
      gens_ok (r_lgen (e_ring e)) ts \<and>
      ring_contents (e_ring e') =
        drop k (ring_contents (e_ring e) @ recs_words (rt_base c) (r_lastpc (e_ring e)) ts) \<and>
      k + sum_list (e_obs e') \<le> sum_list (e_obs e)"
proof (induction calls arbitrary: e)
  case Nil
  then show ?case by (intro exI [of _ "[]"] exI [of _ 0]) simp
next
  case (Cons rc calls)
  obtain ra call where rc: "rc = (ra, call)" by (cases rc)
  then obtain e1 where e1: "icall_run c ra call e = Inr e1" "icall_runs c calls e1 = Inr e'"
    using Cons.prems by auto
  have ok: "icall_ok c call" using Cons.prems rc by simp
  let ?L = "r_lastpc (e_ring e)" and ?g = "r_lgen (e_ring e)"
  let ?gen = "e_ggen (ggen_interference e)"
  obtain k where h: "env_ok e1" "r_last (e_ring e1) = r_last (e_ring e)" "r_lastpc (e_ring e1) = ra"
    "r_lgen (e_ring e1) = last_gen ?g (icall_recs ra call ?g ?gen)"
    "ring_contents (e_ring e1) = drop k (ring_contents (e_ring e) @ recs_words (rt_base c) ?L (icall_recs ra call ?g ?gen))"
    "k + sum_list (e_obs e1) \<le> sum_list (e_obs e)"
    using icall_run_history [OF c ok Cons.prems(2,3) e1(1)] by (auto simp: Let_def)
  let ?us = "icall_recs ra call ?g ?gen"
  obtain ts j where t: "env_ok e'" "r_last (e_ring e') = r_last (e_ring e1)"
    "filter (\<lambda>t. \<not> is_cog t) ts = map (\<lambda>(ra, call). icall_rec ra call) calls"
    "gens_ok (r_lgen (e_ring e1)) ts"
    "ring_contents (e_ring e') = drop j (ring_contents (e_ring e1) @ recs_words (rt_base c) (r_lastpc (e_ring e1)) ts)"
    "j + sum_list (e_obs e') \<le> sum_list (e_obs e1)"
    using Cons.IH [of e1] Cons.prems h e1(2) by auto
  obtain m where m: "ring_contents (e_ring e') =
      drop m ((ring_contents (e_ring e) @ recs_words (rt_base c) ?L ?us) @ recs_words (rt_base c) ra ts)"
    "m \<le> k + j"
    using drop_drop_append unfolding t(5) h(5,3) by blast
  have "recs_words (rt_base c) ?L (?us @ ts) = recs_words (rt_base c) ?L ?us @ recs_words (rt_base c) ra ts"
    using icall_recs_facts(5) [OF ok] by (simp add: recs_words_append)
  moreover have "gens_ok ?g (?us @ ts)"
    using icall_recs_facts(2) [OF ok] t(4) h(4) by (simp add: gens_ok_append)
  moreover have "filter (\<lambda>t. \<not> is_cog t) (?us @ ts) = map (\<lambda>(ra, call). icall_rec ra call) (rc # calls)"
    using icall_recs_facts(1) [OF ok] t(3) by (simp add: rc)
  ultimately show ?case
    using t(1,2,6) h(2,6) m by (intro exI [of _ "?us @ ts"] exI [of _ m]) simp
qed

section \<open>The reader accepts such records\<close>

text \<open>
  The program returns from no more functions than it called, and is never inside more than \<open>2 ^ 30\<close>
  of them, which is what the reader has room for: \<open>n\<close> is the number of calls on the stack at the
  start.
\<close>

fun calls_balanced :: "nat \<Rightarrow> icall list \<Rightarrow> bool" where
    "calls_balanced n [] = True"
  | "calls_balanced n (call # calls) =
       (case call of CEnter _ _ \<Rightarrow> n < 2 ^ 30 \<and> calls_balanced (n + 1) calls
        | CExit \<Rightarrow> 0 < n \<and> calls_balanced (n - 1) calls
        | _ \<Rightarrow> calls_balanced n calls)"

fun calls_pcs_ok :: "u64 \<Rightarrow> u64 \<Rightarrow> u64 list \<Rightarrow> bool" where
    "calls_pcs_ok base lastpc [] = True"
  | "calls_pcs_ok base lastpc (pc # pcs) \<longleftrightarrow> pc_ok base lastpc pc \<and> calls_pcs_ok base pc pcs"

lemma icall_layout:
  "icall_ok c call \<Longrightarrow> \<exists>d. op_to_info (rec_op (icall_rec ra call)) =
     Some (Addr # map fval_field (rec_vals (icall_rec ra call)), d)"
  by (cases call) (auto simp: layout_defs)

lemma icall_inner: "icall_ok c call \<Longrightarrow> inner_op (rec_op (icall_rec ra call))"
  by (cases call) (auto simp: inner_op_def)

definition calls_after :: "icall \<Rightarrow> nat \<Rightarrow> nat" where
  "calls_after call n = (case call of CEnter _ _ \<Rightarrow> n + 1 | CExit \<Rightarrow> n - 1 | _ \<Rightarrow> n)"

lemma rec_step_icall:
  assumes "icall_ok c call" "calls_balanced (sq_calls s) (call # calls)"
  shows "rec_step s (icall_rec ra call) =
      Some (s\<lparr> sq_lastpc := ra, sq_calls := calls_after call (sq_calls s) \<rparr>)"
    "calls_balanced (calls_after call (sq_calls s)) calls"
proof -
  obtain d where "op_to_info (rec_op (icall_rec ra call)) =
      Some (Addr # map fval_field (rec_vals (icall_rec ra call)), d)"
    using icall_layout [OF assms(1)] by blast
  then show "rec_step s (icall_rec ra call) =
      Some (s\<lparr> sq_lastpc := ra, sq_calls := calls_after call (sq_calls s) \<rparr>)"
    using assms icall_inner [OF assms(1)] icall_rec_op [OF assms(1)]
    by (cases call) (auto simp: rec_step_def rec_effect_def rec_lastpc_def calls_after_def layout_defs)
  show "calls_balanced (calls_after call (sq_calls s)) calls"
    using assms(2) by (cases call) (simp_all add: calls_after_def)
qed

lemma rec_step_cog:
  assumes "is_cog t" "rec_vals t = [V64 g]" "sq_gen s < g"
  shows "rec_step s t = Some (s\<lparr> sq_gen := g \<rparr>)"
  using assms
  by (simp add: rec_step_def is_cog_def rec_effect_def rec_lastpc_def inner_op_def layout_defs)

lemma gens_ok_cog:
  "gens_ok g (t # ts) \<Longrightarrow> is_cog t \<Longrightarrow> \<exists>h. rec_vals t = [V64 h] \<and> g < h \<and> gens_ok h ts"
  by (cases "rec_vals t"; cases "hd (rec_vals t)"; cases "tl (rec_vals t)") simp_all

lemma gens_ok_mono: "g' \<le> g \<Longrightarrow> gens_ok g ts \<Longrightarrow> gens_ok g' ts"
  by (induction ts arbitrary: g g') (auto split: list.splits fval.splits if_splits)

lemma run_accepted:
  "\<forall>(ra, call)\<in>set calls. icall_ok c call \<Longrightarrow>
   filter (\<lambda>t. \<not> is_cog t) ts = map (\<lambda>(ra, call). icall_rec ra call) calls \<Longrightarrow>
   gens_ok (sq_gen s) ts \<Longrightarrow> calls_balanced (sq_calls s) (map snd calls) \<Longrightarrow>
   calls_pcs_ok base (sq_lastpc s) (map fst calls) \<Longrightarrow>
   (\<exists>s'. recs_step s ts = Some s') \<and> recs_pcs_ok base (sq_lastpc s) ts"
proof (induction ts arbitrary: s calls)
  case Nil
  then show ?case by simp
next
  case (Cons t ts)
  show ?case
  proof (cases "is_cog t")
    case True
    then obtain g where g: "rec_vals t = [V64 g]" "sq_gen s < g" "gens_ok g ts"
      using gens_ok_cog [OF Cons.prems(3)] by blast
    have "(\<exists>s'. recs_step (s\<lparr> sq_gen := g \<rparr>) ts = Some s') \<and> recs_pcs_ok base (sq_lastpc s) ts"
      using Cons.IH [of calls "s\<lparr> sq_gen := g \<rparr>"] Cons.prems g True by simp
    then show ?thesis
      using rec_step_cog [OF True g(1,2)] True by (simp add: is_cog_def rec_lastpc_def)
  next
    case False
    then obtain ra call cs where calls: "calls = (ra, call) # cs" "t = icall_rec ra call"
      "filter (\<lambda>t. \<not> is_cog t) ts = map (\<lambda>(ra, call). icall_rec ra call) cs"
      using Cons.prems(2) by (cases calls) auto
    have ok: "icall_ok c call" using Cons.prems(1) calls(1) by simp
    have bal: "calls_balanced (sq_calls s) (call # map snd cs)" using Cons.prems(4) calls(1) by simp
    let ?s = "s\<lparr> sq_lastpc := ra, sq_calls := calls_after call (sq_calls s) \<rparr>"
    have "(\<exists>s'. recs_step ?s ts = Some s') \<and> recs_pcs_ok base ra ts"
      using Cons.IH [of cs ?s] Cons.prems calls False rec_step_icall(2) [OF ok bal] by simp
    then show ?thesis
      using rec_step_icall(1) [OF ok bal, of ra] calls Cons.prems(5) icall_rec_op [OF ok, of ra]
      by (simp add: rec_lastpc_def)
  qed
qed

section \<open>What the log shows\<close>

text \<open>The entries of a log that are neither jumps of the program counter nor changes of generation.\<close>

fun is_event :: "traced \<Rightarrow> bool" where
    "is_event (TNop _) = False"
  | "is_event (TOp _ _ op _ _) = (op \<noteq> RVP_OP_COG)"

definition rec_traced :: "u32 \<Rightarrow> u32 \<Rightarrow> trec \<Rightarrow> traced" where
  "rec_traced tid dep t = TOp tid dep (rec_op t) (rec_pc t) (rec_vals t)"

lemma events_of_log:
  "filter is_event (recs_log tid dep lastpc ts) =
     map (rec_traced tid dep) (filter (\<lambda>t. \<not> is_cog t) ts)"
  by (induction ts arbitrary: lastpc)
     (auto simp: rec_log_def rec_traced_def is_cog_def Let_def)

section \<open>The start of a trace\<close>

definition begin_bytes :: "u64 \<Rightarrow> u32 \<Rightarrow> u64 \<Rightarrow> u8 list" where
  "begin_bytes base tid gen =
     bytes_of_u32s (fvals_words [VAddr (deltop_of base 0 RVP_OP_BEGIN), V32 tid, V64 gen])"

lemma length_header_bytes [simp]: "length (header_bytes expected_th) = 16"
  by (simp add: header_bytes_def expected_th_def)

lemma header_of_expected: "header_of_bytes (header_bytes expected_th @ r) = expected_th"
proof -
  have "read_u32 (drop 8 (header_bytes expected_th @ r)) = byteorder_word"
    by (simp add: header_bytes_def expected_th_def read_u32_def)
  then show ?thesis
    by (simp add: header_of_bytes_def) (simp add: header_bytes_def expected_th_def bytes_of_u32_def char_of_def bit_0)
qed

lemma file_ok_begin:
  "file_ok (header_bytes expected_th @ begin_bytes base 1 gen @ r)"
proof -
  have "drop 8 (begin_bytes base 1 gen @ r) = bytes_of_u32 1 @ bytes_of_u32 (lo32 gen) @ bytes_of_u32 (hi32 gen) @ r"
    by (simp add: begin_bytes_def)
  then show ?thesis
    by (simp add: file_ok_def header_of_expected header_supported_def) (simp add: begin_bytes_def)
qed

lemma double_nthreads_1: "double_nthreads 1 8 = Some 8"
  by (simp add: double_nthreads_def while_option_unfold [of _ _ "8 :: u32"] word_le_nat_alt)

lemma update_replicate_same: "(replicate n x)[i := x] = replicate n x"
  by (cases "i < n") (auto intro!: nth_equalityI simp: nth_list_update)

lemma read_first_begin:
  assumes "deltops_fit base"
  shows "\<exists>ps1. consume_and_print_trace yes log_emitters
      (rvp_pstate_init ps0 eg eb (deltop_of base 0 RVP_OP_BEGIN))
      (begin0_bytes (deltop_of base 0 RVP_OP_BEGIN) 1) =
        Inr (0, ps1, [], [TOp 1 0 RVP_OP_BEGIN (deltop_of base 0 RVP_OP_BEGIN) [V32 1, V64 0]]) \<and>
    seq_rel base ps1 \<lparr> sq_lastpc = deltop_of base 0 RVP_OP_BEGIN, sq_gen = 0, sq_calls = 0 \<rparr> \<and>
    ps_curthread ps1 = 1 \<and> ps_idepth ps1 = 0"
proof -
  let ?c = "deltop_of base 0 RVP_OP_BEGIN" and ?ub = "begin0_bytes (deltop_of base 0 RVP_OP_BEGIN) 1"
  let ?ps = "rvp_pstate_init ps0 eg eb ?c"
  have ub: "?ub = bytes_of_u32s (fvals_words [VAddr ?c, V32 1, V64 0])" by (simp add: begin0_bytes_def)
  have pc: "ub_pc ?ub = ?c" "length ?ub = 20" by (simp_all add: ub ub_pc_def)
  have flds: "fld32 rvp_begin_t 1 ?ub = 1" "fld64 rvp_begin_t 2 ?ub = 0"
    using read_u64_words [of 0 "[]"] by (simp_all add: ub fld32_def fld64_def layout_defs)
  have nd: "\<not> pc_is_not_deltop ?ps ?c"
    using pc_in_deltops_deltop_of [OF assms, of 0 RVP_OP_BEGIN]
    by (simp add: pc_is_not_deltop_def pc_in_deltops_def rvp_pstate_init_def)
  have ex: "extract_jmpvec_and_op_from_deltop (ps_deltop_first ?ps) ?c = Inr (0, RVP_OP_BEGIN)"
    using extract_deltop_of [OF assms, of 0 RVP_OP_BEGIN] by (simp add: rvp_pstate_init_def)
  have rd: "read_fields rvp_begin_t ?ub = [VAddr ?c, V32 1, V64 0]"
    using read_fields_words [of "[VAddr ?c, V32 1, V64 0]" "[]"] by (simp add: ub layout_defs)
  define ts where "ts = zero_thread_pstate\<lparr> ts_lastpc := replicate 16 ?c, ts_present := True \<rparr>"
  define ps1 where "ps1 = ?ps\<lparr> ps_nthreads := 8, ps_curthread := 1, ps_idepth := 0,
      ps_thread := (replicate 8 zero_thread_pstate)[1 := ts] \<rparr>"
  have bt: "rvp_pstate_begin_thread yes ?ps 1 0 = Inr ps1"
  proof -
    have "max 8 (0 :: u32) = 8" by simp
    then have "rvp_pstate_extend_threads_over yes ?ps 1 [] 0 =
        Inr (?ps\<lparr> ps_nthreads := 8, ps_thread := replicate 8 zero_thread_pstate \<rparr>)"
      by (simp add: rvp_pstate_extend_threads_over_def double_nthreads_1 yes_def map_replicate_const)
    moreover have "ps_nthreads ?ps = 0" "ps_thread ?ps = []" "ps_deltop_center ?ps = ?c"
      by (simp_all add: rvp_pstate_init_def)
    moreover have "zero_thread_pstate\<lparr> ts_lastpc := map (\<lambda>_. ?c) (ts_lastpc zero_thread_pstate),
        ts_callstack := (ts_callstack zero_thread_pstate)[0 := null_callstack, 1 := null_callstack],
        ts_present := True, ts_generation := (ts_generation zero_thread_pstate)[0 := 0, 1 := 0],
        ts_nops := (ts_nops zero_thread_pstate)[0 := 0], ts_sigs_masked := False \<rparr> = ts"
      by (simp add: ts_def zero_thread_pstate_def RVP_SIGNAL_DEPTH_def update_replicate_same
          map_replicate_const)
    moreover have "\<not> ts_present zero_thread_pstate" by (simp add: zero_thread_pstate_def)
    ultimately show ?thesis
      by (simp add: rvp_pstate_begin_thread_def ps1_def Let_def)
  qed
  have cur: "cur_ts ps1 = Inr ts" "depth ps1 = 0"
    by (simp_all add: cur_ts_def ps1_def RVP_SIGNAL_DEPTH_def depth_def)
  have lp: "ts_lastpc ts ! 0 = ?c" "(ts_lastpc ts)[0 := ?c] = ts_lastpc ts"
    by (simp_all add: ts_def update_replicate_same)
  have same: "set_cur_ts ps1 ts = ps1"
    by (simp add: set_cur_ts_def ps1_def)
  have cpc: "consume_pc ps1 0 = Inr (?c, ps1)"
    using same by (simp add: consume_pc_def cur lp Let_def)
  have em: "em_emit_op log_emitters ps1 ?ub RVP_OP_BEGIN l w = Inr (TOp 1 0 RVP_OP_BEGIN ?c [V32 1, V64 0])" for l w
    using cur lp(1) by (simp add: log_emitters_def rd) (simp add: ps1_def)
  have "consume_and_print_trace yes log_emitters ?ps ?ub =
      Inr (0, ps1, [], [TOp 1 0 RVP_OP_BEGIN ?c [V32 1, V64 0]])"
    using nd ex pc flds bt cpc em
    by (simp add: consume_and_print_trace_def consume_begin_def consume_calls_def consume_cog_def
        consume_end_def consume_context_def advance_def layout_defs)
  moreover have "seq_rel base ps1 \<lparr> sq_lastpc = ?c, sq_gen = 0, sq_calls = 0 \<rparr>"
    by (simp add: seq_rel_def ps1_def rvp_pstate_init_def depth_def ts_def ts_ok_def
        zero_thread_pstate_def RVP_SIGNAL_DEPTH_def null_callstack_def callstack_ok_def Let_def int_overflows_def)
  moreover have "ps_curthread ps1 = 1" "ps_idepth ps1 = 0" by (simp_all add: ps1_def)
  ultimately show ?thesis by blast
qed

section \<open>Whole runs\<close>

text \<open>The file of a run: the header, the start of thread 1 and the words the run puts.\<close>

definition trace_file :: "u64 \<Rightarrow> u64 \<Rightarrow> u32 list \<Rightarrow> input" where
  "trace_file base gen ws = \<lparr> in_bytes = header_bytes expected_th @ begin_bytes base 1 gen @ bytes_of_u32s ws,
     in_sched = [] \<rparr>"

lemma dump_trace_file:
  assumes base: "deltops_fit base"
    and ok: "recs_pcs_ok base (deltop_of base 0 RVP_OP_BEGIN) ts"
    and st: "recs_step \<lparr> sq_lastpc = deltop_of base 0 RVP_OP_BEGIN, sq_gen = 0, sq_calls = 0 \<rparr> ts = Some s'"
    and most: "Suc (length (recs_log 1 0 (deltop_of base 0 RVP_OP_BEGIN) ts)) \<le> most"
  shows "rvp_trace_dump_with_emitters yes eg eb most log_emitters ps0
      (trace_file base gen (recs_words base (deltop_of base 0 RVP_OP_BEGIN) ts)) =
    Inr (TOp 1 0 RVP_OP_BEGIN (deltop_of base 0 RVP_OP_BEGIN) [V32 1, V64 0] #
         recs_log 1 0 (deltop_of base 0 RVP_OP_BEGIN) ts)"
proof -
  let ?c = "deltop_of base 0 RVP_OP_BEGIN"
  let ?ws = "recs_words base ?c ts" and ?ls = "recs_log 1 0 ?c ts"
  let ?bs = "in_bytes (trace_file base gen ?ws)"
  let ?ps = "rvp_pstate_init ps0 eg eb ?c"
  have c: "read_u64 (drop 16 ?bs) = ?c"
    by (simp add: trace_file_def) (simp add: begin_bytes_def)
  have rest: "drop 36 ?bs = bytes_of_u32s ?ws"
    by (simp add: trace_file_def) (simp add: begin_bytes_def)
  obtain ps1 where p1: "consume_and_print_trace yes log_emitters ?ps (begin0_bytes ?c 1) =
        Inr (0, ps1, [], [TOp 1 0 RVP_OP_BEGIN ?c [V32 1, V64 0]])"
    "seq_rel base ps1 \<lparr> sq_lastpc = ?c, sq_gen = 0, sq_calls = 0 \<rparr>"
    "ps_curthread ps1 = 1" "ps_idepth ps1 = 0"
    using read_first_begin [OF base] by blast
  obtain ps2 where "\<And>r most. length ?ls \<le> most \<Longrightarrow>
      stream yes log_emitters most ps1 (bytes_of_u32s ?ws @ r) =
        cbind (stream yes log_emitters (most - length ?ls) ps2 r) (\<lambda>out. Inr (?ls @ out))"
    using reads_recs [OF base p1(2) _ st] ok p1(3,4) by (auto simp: reads_def)
  from this [of "most - 1" "[]"] most
  have s2: "stream yes log_emitters (most - 1) ps1 (bytes_of_u32s ?ws) = Inr ?ls"
    by simp
  have len: "8 \<le> length (begin0_bytes ?c 1)" by (simp add: begin0_bytes_def)
  have "stream yes log_emitters most ?ps (begin0_bytes ?c 1 @ bytes_of_u32s ?ws) =
      Inr (TOp 1 0 RVP_OP_BEGIN ?c [V32 1, V64 0] # ?ls)"
    using log.stream_step [of "begin0_bytes ?c 1 @ bytes_of_u32s ?ws" most yes ?ps] len most s2
      log.consume_append_ok(1) [OF len p1(1), of "bytes_of_u32s ?ws"] by simp
  then show ?thesis
    using log.dump_stream [of "trace_file base gen ?ws" yes eg eb most ps0] c rest
      file_ok_begin [of base gen "bytes_of_u32s ?ws"]
    by (simp add: trace_file_def log_emitters_def Let_def result_or_exit_def)
qed

section \<open>Properties\<close>

text \<open>
  C1. What the program did is what the reader reports. Start from an empty ring whose last
  program counter is that of a new sequence, and run any list of instrumented calls (loads,
  stores, atomic updates, function entries and exits nested no deeper than \<open>2 ^ 30\<close>, mutex
  operations). The words the run puts
  on the ring, after a header and the start of thread 1, are a file that the reader accepts; and
  what it reports, leaving out the changes of generation and the explicit program counters, is
  the start of the thread and then the calls, in order, each with its return address and its
  operands. The ring holds all of the words, or what the serializer has not taken of them.
\<close>

theorem trace_roundtrip:
  assumes "deltops_fit (rt_base c)" "rt_operational c" "\<forall>(ra, call)\<in>set calls. icall_ok c call"
    and "env_ok e" "20 \<le> r_last (e_ring e)" "ring_contents (e_ring e) = []"
    and "r_lastpc (e_ring e) = deltop_of (rt_base c) 0 RVP_OP_BEGIN"
    and "calls_balanced 0 (map snd calls)"
    and "calls_pcs_ok (rt_base c) (deltop_of (rt_base c) 0 RVP_OP_BEGIN) (map fst calls)"
    and "icall_runs c calls e = Inr e'"
  shows "\<exists>ws k log. ring_contents (e_ring e') = drop k ws \<and> k \<le> sum_list (e_obs e) \<and>
    (\<forall>most\<ge>length log. rvp_trace_dump_with_emitters yes eg eb most log_emitters ps0
       (trace_file (rt_base c) gen ws) = Inr log) \<and>
    filter is_event log =
      TOp 1 0 RVP_OP_BEGIN (deltop_of (rt_base c) 0 RVP_OP_BEGIN) [V32 1, V64 0] #
      map (\<lambda>(ra, call). rec_traced 1 0 (icall_rec ra call)) calls"
proof -
  let ?c = "deltop_of (rt_base c) 0 RVP_OP_BEGIN"
  let ?s = "\<lparr> sq_lastpc = ?c, sq_gen = 0, sq_calls = 0 \<rparr>"
  obtain ts k where ts: "filter (\<lambda>t. \<not> is_cog t) ts = map (\<lambda>(ra, call). icall_rec ra call) calls"
    "gens_ok (r_lgen (e_ring e)) ts" "k + sum_list (e_obs e') \<le> sum_list (e_obs e)"
    "ring_contents (e_ring e') = drop k (recs_words (rt_base c) ?c ts)"
    using icall_runs_history [OF assms(1-5,10)] assms(6,7) by auto
  have "gens_ok 0 ts" by (rule gens_ok_mono [OF _ ts(2)]) simp
  then obtain s' where s': "recs_step ?s ts = Some s'" "recs_pcs_ok (rt_base c) ?c ts"
    using run_accepted [OF assms(3) ts(1), of ?s] assms(8,9) by auto
  let ?log = "TOp 1 0 RVP_OP_BEGIN ?c [V32 1, V64 0] # recs_log 1 0 ?c ts"
  have "filter is_event ?log = TOp 1 0 RVP_OP_BEGIN ?c [V32 1, V64 0] #
      map (\<lambda>(ra, call). rec_traced 1 0 (icall_rec ra call)) calls"
    by (simp add: events_of_log ts(1) case_prod_unfold)
  moreover have "\<forall>most\<ge>length ?log. rvp_trace_dump_with_emitters yes eg eb most log_emitters ps0
       (trace_file (rt_base c) gen (recs_words (rt_base c) ?c ts)) = Inr ?log"
    using dump_trace_file [OF assms(1) s'(2,1)] by simp
  moreover have "k \<le> sum_list (e_obs e)" using ts(3) by simp
  ultimately show ?thesis using ts(4) by blast
qed

text \<open>
  C5. A traced call either waits for ever for room on the ring or puts exactly the records of
  the call: its own, with its return address and operands, and, before it (loads, acquisitions) or
  after it (stores, releases), a change to the global generation at the time of the call where that
  is beyond the generation of the sequence. It never overflows the buffer of 20 words and
  no assertion fires; the sequence's last program counter and generation are updated to match.
\<close>

theorem traced_call_puts_its_records:
  assumes "deltops_fit (rt_base c)" "rt_operational c" "icall_ok c call"
    and "env_ok e" "20 \<le> r_last (e_ring e)"
  shows "case icall_run c ra call e of
      Inl x \<Rightarrow> x = Waiting
    | Inr e' \<Rightarrow> \<exists>k. let ts = icall_recs ra call (r_lgen (e_ring e)) (e_ggen (ggen_interference e)) in
        filter (\<lambda>t. \<not> is_cog t) ts = [icall_rec ra call] \<and>
        env_ok e' \<and> r_lastpc (e_ring e') = ra \<and>
        r_lgen (e_ring e') = last_gen (r_lgen (e_ring e)) ts \<and>
        ring_contents (e_ring e') =
          drop k (ring_contents (e_ring e) @ recs_words (rt_base c) (r_lastpc (e_ring e)) ts) \<and>
        k + sum_list (e_obs e') \<le> sum_list (e_obs e)"
proof (cases "icall_run c ra call e")
  case (Inr e')
  then show ?thesis
    using icall_run_history [OF assms Inr] icall_recs_facts(1) [OF assms(3)]
    unfolding Let_def by (simp add: Inr)
next
  case (Inl x)
  then show ?thesis using icall_run_fails_waiting [OF assms Inl] by (simp add: Inl)
qed

definition sample_calls :: "(u64 \<times> icall) list" where
  "sample_calls = [(0x500000, CEnter 0x7000 0x500010), (0x500004, CLoad RVP_OP_LOAD4 0x8000 42),
     (0x500008, CStore8 RVP_OP_STORE8 0x8008 43), (0x50000c, CExit)]"

definition sample_pc :: u64 where "sample_pc = deltop_of (rt_base sample_rt) 0 RVP_OP_BEGIN"

lemma sample_run: "\<exists>e'. icall_runs sample_rt sample_calls (sample_env sample_pc 64) = Inr e'"
proof -
  have "isl (icall_runs sample_rt sample_calls (sample_env sample_pc 64)) = False" by code_simp
  then show ?thesis by (cases "icall_runs sample_rt sample_calls (sample_env sample_pc 64)") auto
qed

lemma traced_call_puts_its_records_witness:
  "case icall_run sample_rt 0x500004 (CLoad RVP_OP_LOAD4 0x8000 42) (sample_env sample_pc 64) of
     Inl x \<Rightarrow> x = Waiting | Inr e' \<Rightarrow> r_lastpc (e_ring e') = 0x500004"
proof -
  have "icall_ok sample_rt (CLoad RVP_OP_LOAD4 0x8000 42)" by (simp add: sample_rt_def data_is_in_coverage_def)
  from traced_call_puts_its_records [OF sample_rt_ok this, of "sample_env sample_pc 64" "0x500004"]
  show ?thesis by (auto simp: sample_env_ok Let_def split: sum.splits)
qed

lemma trace_roundtrip_witness:
  "\<exists>e' ws log. icall_runs sample_rt sample_calls (sample_env sample_pc 64) = Inr e' \<and>
     ring_contents (e_ring e') = ws \<and>
     rvp_trace_dump_with_emitters yes True True (length log) log_emitters undefined
       (trace_file (rt_base sample_rt) 1 ws) = Inr log \<and>
     filter is_event log = TOp 1 0 RVP_OP_BEGIN sample_pc [V32 1, V64 0] #
       map (\<lambda>(ra, call). rec_traced 1 0 (icall_rec ra call)) sample_calls"
proof -
  obtain e' where run: "icall_runs sample_rt sample_calls (sample_env sample_pc 64) = Inr e'"
    using sample_run by blast
  have calls: "\<forall>(ra, call)\<in>set sample_calls. icall_ok sample_rt call"
    by (simp add: sample_calls_def sample_rt_def data_is_in_coverage_def)
  have "calls_balanced 0 (map snd sample_calls)" by (simp add: sample_calls_def)
  moreover have "calls_pcs_ok (rt_base sample_rt) sample_pc (map fst sample_calls)"
    by (simp add: sample_pc_def sample_rt_def sample_calls_def pc_ok_def pc_in_deltops_def ps_last_of_def
        cdefs deltop_of_def)
  ultimately show ?thesis
    using trace_roundtrip [OF sample_rt_ok calls, of "sample_env sample_pc 64" e' True True undefined 1] run
    by (auto simp: sample_env_ok sample_pc_def)
qed

end
