(* ===== verification/Reader_Laws.thy ===== *)
theory Reader_Laws
  imports Reader_Stream
begin

text \<open>
  What holds of the reader on every trace: its text always fits its buffers, the binary
  emitters write back what was read, and the parse state keeps its invariant.
\<close>

section \<open>The text fits\<close>

definition printer_fits :: "ptr_printer \<Rightarrow> nat \<Rightarrow> bool" where
  "printer_fits pr n \<longleftrightarrow> (\<forall>ps ts addr buflen. cur_ts ps = Inr ts \<longrightarrow> n < buflen \<longrightarrow>
     (\<exists>s. pr ps buflen addr = Inr s \<and> length s \<le> n))"

lemma snprintf_fits: "length s \<le> n \<Longrightarrow> n < buflen \<Longrightarrow> snprintf_checked buflen s = Inr s"
  by (simp add: snprintf_checked_def)

lemma printer_fitsI:
  assumes "\<And>ps ts addr. cur_ts ps = Inr ts \<Longrightarrow>
    \<exists>s. length s \<le> n \<and> (\<forall>buflen. pr ps buflen addr = snprintf_checked buflen s)"
  shows "printer_fits pr n"
  unfolding printer_fits_def using assms snprintf_fits by metis

lemma printer_fitsD:
  "printer_fits pr n \<Longrightarrow> cur_ts ps = Inr ts \<Longrightarrow> n < buflen \<Longrightarrow> \<exists>s. pr ps buflen addr = Inr s"
  unfolding printer_fits_def by blast

lemma simple_insn_fits: "printer_fits insnptr_to_simple_string 21"
proof (rule printer_fitsI)
  fix ps ts and addr :: rvp_addr
  have "length (fmt_alt_0 16 (unat addr)) \<le> 18" by (rule length_fmt_alt_0_64)
  then show "\<exists>s. length s \<le> 21 \<and> (\<forall>buflen. insnptr_to_simple_string ps buflen addr = snprintf_checked buflen s)"
    by (intro exI [of _ "''pc '' @ fmt_alt_0 16 (unat addr)"]) (simp add: insnptr_to_simple_string_def)
qed

lemma symbolic_insn_fits: "printer_fits insnptr_to_symbol_friendly_string 21"
proof (rule printer_fitsI)
  fix ps ts and addr :: rvp_addr
  have "length (fmt_alt_0 16 (unat addr)) \<le> 18" by (rule length_fmt_alt_0_64)
  then show "\<exists>s. length s \<le> 21 \<and> (\<forall>buflen. insnptr_to_symbol_friendly_string ps buflen addr = snprintf_checked buflen s)"
    by (intro exI [of _ "''{'' @ fmt_alt_0 16 (unat addr) @ ''}''"]) (simp add: insnptr_to_symbol_friendly_string_def)
qed

lemma simple_data_fits: "printer_fits dataptr_to_simple_string 98"
proof (rule printer_fitsI)
  fix ps ts and addr :: rvp_addr
  have "length (fmt_alt_0 16 (unat addr)) \<le> 18" by (rule length_fmt_alt_0_64)
  then show "\<exists>s. length s \<le> 98 \<and> (\<forall>buflen. dataptr_to_simple_string ps buflen addr = snprintf_checked buflen s)"
    by (intro exI [of _ "''['' @ fmt_alt_0 16 (unat addr) @ '']''"]) (simp add: dataptr_to_simple_string_def)
qed

lemma length_frame_string: "length (frame_string f) \<le> 37"
  using length_fmt_alt64 [of "f_pc f"] length_fmt_alt64 [of "f_cfa f"] by (simp add: frame_string_def)

lemma symbolic_data_fits: "printer_fits dataptr_to_symbol_friendly_string 98"
proof (rule printer_fitsI)
  fix ps ts and addr :: rvp_addr
  assume ts: "cur_ts ps = Inr ts"
  obtain lo hi where lh: "rvp_nearest_frames ps addr = Inr (lo, hi)"
    using ts by (cases "rvp_callstack_nearest_frames (ts_callstack ts ! depth ps) addr (None, None)")
      (simp add: rvp_nearest_frames_def)
  have a: "length (fmt_alt_0 16 (unat addr)) \<le> 18" by (rule length_fmt_alt_0_64)
  note f = length_frame_string [of "the lo"] length_frame_string [of "the hi"]
  show "\<exists>s. length s \<le> 98 \<and> (\<forall>buflen. dataptr_to_symbol_friendly_string ps buflen addr = snprintf_checked buflen s)"
  proof (cases lo; cases hi)
    assume "lo = None" "hi = None"
    then show ?thesis using a
      by (intro exI [of _ "''['' @ fmt_alt_0 16 (unat addr) @ '']''"])
         (simp add: dataptr_to_symbol_friendly_string_def lh Let_def)
  next
    fix h assume "lo = None" "hi = Some h"
    then show ?thesis using a f
      by (intro exI [of _ "''['' @ fmt_alt_0 16 (unat addr) @ '' : '' @ frame_string h @ '']''"])
         (simp add: dataptr_to_symbol_friendly_string_def lh Let_def)
  next
    fix l assume "lo = Some l" "hi = None"
    then show ?thesis using a f
      by (intro exI [of _ "''['' @ fmt_alt_0 16 (unat addr) @ '' : '' @ frame_string l @ '']''"])
         (simp add: dataptr_to_symbol_friendly_string_def lh Let_def)
  next
    fix l h assume "lo = Some l" "hi = Some h"
    then show ?thesis using a f
      by (intro exI [of _ "''['' @ fmt_alt_0 16 (unat addr) @ '' : '' @ frame_string l @ '' '' @ frame_string h @ '']''"])
         (simp add: dataptr_to_symbol_friendly_string_def lh Let_def)
  qed
qed

lemma preamble_fits:
  assumes pr: "printer_fits insn 21" and ts: "cur_ts ps = Inr ts"
  shows "\<exists>s. preamble_string insn ps prebuf_size = Inr s"
proof -
  let ?t = "''tid '' @ fmt_dec (unat (ps_curthread ps)) @ ''.'' @ fmt_dec (unat (ps_idepth ps)) @ '' ''"
  let ?g = "''gen '' @ fmt_dec (unat (ts_generation ts ! depth ps)) @ '' ''"
  have "unat (ps_idepth ps) < 10 ^ 2"
    using ts by (auto simp: cur_ts_def RVP_SIGNAL_DEPTH_def split: if_splits)
  then have t: "length ?t \<le> 18"
    using length_dec32 [of "ps_curthread ps"] length_fmt_dec [of 2 "unat (ps_idepth ps)"] by simp
  have g: "length ?g \<le> 25" using length_dec64 [of "ts_generation ts ! depth ps"] by simp
  have size: "prebuf_size = 70" by (simp add: prebuf_size_def)
  have t1: "snprintf_checked 70 ?t = Inr ?t" using t by (intro snprintf_checked_fits) simp
  have g1: "snprintf_checked (70 - length ?t) ?g = Inr ?g"
    using t g by (intro snprintf_checked_fits) linarith
  have p1: "\<exists>s. insn ps n a = Inr s" if "21 < n" for n a
    using pr ts that unfolding printer_fits_def by blast
  define g where "g = (if ps_emit_generation ps then ?g else [])"
  have g2: "(if ps_emit_generation ps then cbind (cur_ts ps) (\<lambda>ts. snprintf_checked (70 - length ?t)
      (''gen '' @ fmt_dec (unat (ts_generation ts ! depth ps)) @ '' '')) else Inr []) = Inr g"
    unfolding g_def ts cbind_simps using g1 by auto
  have "length g \<le> 25" using g by (simp add: g_def del: length_append)
  then have "21 < 70 - length ?t - length g" using t by linarith
  then obtain s where s: "insn ps (70 - length ?t - length g) (ts_lastpc ts ! depth ps) = Inr s"
    using p1 by blast
  have "preamble_string insn ps prebuf_size = cbind (Inr g)
      (\<lambda>g. cbind (lastpc_to_string insn ps (70 - length ?t - length g)) (\<lambda>p. Inr (?t @ g @ p)))"
    unfolding preamble_string_def size t1 cbind_simps Let_def g2 [symmetric] ..
  also have "\<dots> = Inr (?t @ g @ s)"
    unfolding lastpc_to_string_def ts cbind_simps s ..
  finally have "preamble_string insn ps prebuf_size = Inr (?t @ g @ s)" .
  then show ?thesis by blast
qed

lemma suffix_bytes_fit:
  "3 * length bs < n \<Longrightarrow> length delim = 1 \<Longrightarrow> \<exists>s. suffix_bytes bs n delim = Inr s"
proof (induction bs arbitrary: n delim)
  case (Cons b bs)
  have f: "snprintf_checked n (delim @ fmt_02x b) = Inr (delim @ fmt_02x b)"
    using Cons.prems by (intro snprintf_checked_fits) simp
  have "3 * length bs < n - 3" using Cons.prems by simp
  then obtain s where "suffix_bytes bs (n - 3) ''.'' = Inr s"
    using Cons.IH [of "n - 3" "''.''"] by fastforce
  then show ?case using f Cons.prems by (simp add: eval_nat_numeral)
qed simp

lemma suffix_fits: "reclen \<le> 32 \<Longrightarrow> \<exists>s. suffix_string ps ub reclen sufbuf_size = Inr s"
  using suffix_bytes_fit [of "take reclen ub" sufbuf_size "'' ''"]
  by (simp add: suffix_string_def sufbuf_size_def)

lemma if_fits:
  "\<exists>s. t = Inr s \<Longrightarrow> \<exists>s. e = Inr s \<Longrightarrow> \<exists>s. (if c then t else e) = Inr s"
  by simp

lemma body_fits:
  assumes "printer_fits insn 21" "printer_fits data 98" "cur_ts ps = Inr ts"
  shows "\<exists>s. print_body insn data ps ub op l w = Inr s"
proof -
  have size: "databuf_size = 99" by (simp add: databuf_size_def)
  have "\<forall>a. \<exists>s. insn ps databuf_size a = Inr s" "\<forall>a. \<exists>s. data ps databuf_size a = Inr s"
    using printer_fitsD [OF assms(1,3), of databuf_size] printer_fitsD [OF assms(2,3), of databuf_size]
    by (simp_all add: size)
  then obtain i d where
    i: "\<And>a. insn ps databuf_size a = Inr (i a)" and d: "\<And>a. data ps databuf_size a = Inr (d a)"
    by metis
  show ?thesis
    unfolding print_body_def Let_def i d cbind_simps
    by ((rule if_fits, (rule exI, rule refl))+, rule exI, rule refl)
qed

lemma op_fits:
  assumes "printer_fits insn 21" "printer_fits data 98" "cur_ts ps = Inr ts" "op_to_info op = Some (oi, d)"
  shows "\<exists>s. print_op insn data ps ub op l w = Inr s"
proof -
  obtain p where p: "preamble_string insn ps prebuf_size = Inr p"
    using preamble_fits [OF assms(1,3)] by blast
  obtain b where b: "print_body insn data ps ub op l w = Inr b"
    using body_fits [OF assms(1-3)] by blast
  obtain x where x: "suffix_string ps ub (layout_size oi) sufbuf_size = Inr x"
    using suffix_fits [OF op_reclen_bounds(2) [OF assms(4)]] by blast
  show ?thesis using p b x assms(4) by (simp add: print_op_def)
qed

section \<open>The binary output is the trace\<close>

lemma consume_binary:
  assumes wr: "\<And>n. wr n = int n" and len: "8 \<le> length bs"
    and c: "consume_and_print_trace alloc (binary wr) ps bs = Inr (0, ps', bs', out)"
  shows "concat out @ bs' = bs"
proof (cases "pc_is_not_deltop ps (ub_pc bs)")
  case True
  then show ?thesis using c len wr
    by (auto simp: consume_and_print_trace_def binary_def reemit_binary_nop_def write_stdout_def
        advance_eq cbind_def split: sum.splits)
next
  case False
  obtain j op where jo: "extract_jmpvec_and_op_from_deltop (ps_deltop_first ps) (ub_pc bs) = Inr (j, op)"
    using c False by (cases "extract_jmpvec_and_op_from_deltop (ps_deltop_first ps) (ub_pc bs)")
      (auto simp: consume_and_print_trace_def)
  obtain oi d where oi: "op_to_info op = Some (oi, d)"
    using c False jo by (cases "op_to_info op") (auto simp: consume_and_print_trace_def)
  show ?thesis
    using c False jo oi wr
    by (auto simp: consume_and_print_trace_def binary_def reemit_binary_op_def write_stdout_def
        advance_eq cbind_def split: sum.splits prod.splits if_splits)
qed

lemma stream_binary:
  assumes wr: "\<And>n. wr n = int n"
  shows "stream alloc (binary wr) most ps bs = Inr outs \<Longrightarrow>
    \<exists>rest. concat outs @ rest = bs \<and> (length bs \<le> most \<longrightarrow> rest = [])"
proof (induction "length bs" arbitrary: most ps bs outs rule: less_induct)
  case less
  show ?case
  proof (cases "bs = [] \<or> length bs < 8 \<or> most = 0")
    case True
    then show ?thesis
      using less.prems binary.stream_short [of bs] binary.stream_stop [of bs]
      by (cases "bs = []"; cases "length bs < 8") auto
  next
    case False
    then have l: "8 \<le> length bs" "0 < most" by auto
    note st = binary.stream_step [OF l, of alloc wr ps]
    obtain q where q: "consume_and_print_trace alloc (binary wr) ps bs = Inr q"
      using less.prems st by (cases "consume_and_print_trace alloc (binary wr) ps bs") auto
    obtain n ps' bs' out where p: "q = (n, ps', bs', out)" by (cases q)
    have "n = 0" using less.prems st q p by (auto split: if_splits)
    then have c: "consume_and_print_trace alloc (binary wr) ps bs = Inr (0, ps', bs', out)"
      using q p by simp
    obtain outs' where o: "stream alloc (binary wr) (most - 1) ps' bs' = Inr outs'" "outs = out @ outs'"
      using less.prems st c by (cases "stream alloc (binary wr) (most - 1) ps' bs'") auto
    have len: "length bs' + 8 \<le> length bs" by (rule binary.consume_append_ok(2) [OF l(1) c])
    then obtain rest where "concat outs' @ rest = bs'" "length bs' \<le> most - 1 \<longrightarrow> rest = []"
      using less.hyps [OF _ o(1)] by auto
    then show ?thesis
      using consume_binary [OF wr l(1) c] o(2) len by (intro exI [of _ rest]) auto
  qed
qed

lemma of_char_of_byte: "of_char (char_of (unat (b :: u8))) = b"
  using of_nat_of_char [of "char_of (unat b)", where 'a = "8 word"] unat_lt_exp [of b]
  by (simp only: of_char_of) simp

lemma length_4D: "length ys = 4 \<Longrightarrow> \<exists>a b c d. ys = [a, b, c, d]"
  by (auto simp: length_Suc_conv eval_nat_numeral)

lemma header_bytes_of_bytes:
  assumes "16 \<le> length bs"
  shows "header_bytes (header_of_bytes bs) = take 16 bs"
proof -
  have four: "\<exists>a b c d cs. xs = a # b # c # d # cs \<and> length cs = length xs - 4" if "4 \<le> length xs"
    for xs :: "u8 list"
  proof -
    have "xs = take 4 xs @ drop 4 xs" by simp
    moreover have "length (take 4 xs) = 4" using that by simp
    then obtain a b c d where "take 4 xs = [a, b, c, d]"
      using length_4D by blast
    ultimately have "xs = a # b # c # d # drop 4 xs" by simp
    moreover have "length (drop 4 xs) = length xs - 4" by simp
    ultimately show ?thesis by blast
  qed
  have "4 \<le> length bs" using assms by simp
  from four [OF this] obtain a b c d cs where 1: "bs = a # b # c # d # cs" "length cs = length bs - 4"
    by blast
  have "4 \<le> length cs" using 1(2) assms by simp
  from four [OF this] obtain e g h i js where 2: "cs = e # g # h # i # js" "length js = length cs - 4"
    by blast
  have "4 \<le> length js" using 1(2) 2(2) assms by simp
  from four [OF this] obtain j k l m ms where 3: "js = j # k # l # m # ms" "length ms = length js - 4"
    by blast
  have "4 \<le> length ms" using 1(2) 2(2) 3(2) assms by simp
  from four [OF this] obtain n p q r rs where 4: "ms = n # p # q # r # rs"
    by blast
  show ?thesis
    unfolding 1(1) 2(1) 3(1) 4
    by (simp add: header_bytes_def header_of_bytes_def of_char_of_byte read_u32_def
        bytes_of_u32_of_bytes take_Cons' drop_Cons' nth_Cons')
qed

section \<open>Files that are not traces\<close>

lemma dump_not_ok:
  assumes "\<not> file_ok (in_bytes f)"
  shows "rvp_trace_dump_with_emitters alloc eg eb most em ps0 f = Inl Exited"
proof -
  have iov: "iovsum header_iov = 36" by (simp add: iovsum_def iov_bytes_def header_iov_def)
  let ?n = "min 36 (length (in_bytes f))"
  obtain f' got where "readallv sys_readv (f, []) header_iov = Inr (-1, f', got) \<or>
      readallv sys_readv (f, []) header_iov = Inr (int ?n, f', take 36 (in_bytes f))"
    using readallv_header [of f] by blast
  then show ?thesis
  proof
    assume r: "readallv sys_readv (f, []) header_iov = Inr (int ?n, f', take 36 (in_bytes f))"
    show ?thesis
    proof (cases "36 \<le> length (in_bytes f)")
      case True
      then show ?thesis
        using assms r
        by (auto simp: rvp_trace_dump_with_emitters_def iov Let_def file_ok_def min_def
            header_of_bytes_take drop_take read_u32_take)
    next
      case False
      then show ?thesis using r by (simp add: rvp_trace_dump_with_emitters_def iov min_def)
    qed
  qed (simp add: rvp_trace_dump_with_emitters_def)
qed

text \<open>Emitters whose calls are recognised by the result.\<close>

definition forbidden_emitters :: "u8 list rvp_emitters" where
  "forbidden_emitters = \<lparr> em_init = Some (\<lambda>_ _. Inl Undefined), em_emit_nop = (\<lambda>_ _. Inl Undefined),
     em_emit_op = (\<lambda>_ _ _ _ _. Inl Undefined) \<rparr>"

section \<open>The parse state\<close>

definition callstack_wf :: "rvp_callstack \<Rightarrow> bool" where
  "callstack_wf cs \<longleftrightarrow> cs_depth cs \<le> cs_nframes cs \<and> length (cs_frame cs) = cs_nframes cs \<and>
     \<not> int_overflows (cs_nframes cs)"

definition thread_ok :: "rvp_thread_pstate \<Rightarrow> bool" where
  "thread_ok ts \<longleftrightarrow> length (ts_callstack ts) = RVP_SIGNAL_DEPTH \<and> list_all callstack_wf (ts_callstack ts) \<and>
     length (ts_lastpc ts) = RVP_SIGNAL_DEPTH \<and> length (ts_generation ts) = RVP_SIGNAL_DEPTH \<and>
     length (ts_nops ts) = RVP_SIGNAL_DEPTH \<and> length (ts_last_gid ts) = RVP_SIGNAL_DEPTH"

text \<open>The tables have the sizes that the state says; their sizes are eight times a power of two.\<close>

definition pstate_ok :: "rvp_pstate \<Rightarrow> bool" where
  "pstate_ok ps \<longleftrightarrow> length (ps_thread ps) = unat (ps_nthreads ps) \<and> list_all thread_ok (ps_thread ps) \<and>
     (ps_nthreads ps \<noteq> 0 \<longrightarrow> depth ps < RVP_SIGNAL_DEPTH)"

lemma callstack_wf_null [simp]: "callstack_wf null_callstack"
  by (simp add: callstack_wf_def null_callstack_def int_overflows_def)

text \<open>The number of frames overflows when a call is pushed on a full stack of \<open>2 ^ 30\<close> of them or more.\<close>

lemma callstack_push_wf:
  "callstack_wf cs \<Longrightarrow> (case rvp_callstack_push alloc cs pc cfa of
     Inl e \<Rightarrow> e = Exited \<or> e = Undefined \<and> 2 ^ 30 \<le> cs_depth cs | Inr cs' \<Rightarrow> callstack_wf cs')"
  by (auto simp: rvp_callstack_push_def rvp_callstack_expand_def callstack_wf_def cbind_def Let_def
      int_overflows_def split: sum.splits if_splits)

lemma callstack_push_overflows:
  "callstack_wf cs \<Longrightarrow> cs_depth cs = cs_nframes cs \<Longrightarrow> 2 ^ 30 \<le> cs_nframes cs \<Longrightarrow>
   rvp_callstack_push alloc cs pc cfa = Inl Undefined"
  by (simp add: rvp_callstack_push_def rvp_callstack_expand_def int_overflows_def)

lemma callstack_pop_wf:
  "callstack_wf cs \<Longrightarrow> (case rvp_callstack_pop cs of Inl e \<Rightarrow> e = Assertion | Inr cs' \<Rightarrow> callstack_wf cs')"
  by (auto simp: rvp_callstack_pop_def callstack_wf_def cassert_def split: if_splits)

lemma zero_thread_ok [simp]: "thread_ok zero_thread_pstate"
  by (simp add: thread_ok_def zero_thread_pstate_def list_all_iff)

lemma thread_ok_update [intro]:
  assumes "thread_ok ts"
  shows "thread_ok (ts\<lparr> ts_lastpc := (ts_lastpc ts)[i := x] \<rparr>)"
    "thread_ok (ts\<lparr> ts_generation := (ts_generation ts)[i := x] \<rparr>)"
    "thread_ok (ts\<lparr> ts_generation := (ts_generation ts)[i := x], ts_nops := (ts_nops ts)[j := y] \<rparr>)"
    "thread_ok (ts\<lparr> ts_present := b \<rparr>)"
  using assms by (simp_all add: thread_ok_def)

lemma list_all_update: "list_all P xs \<Longrightarrow> P x \<Longrightarrow> list_all P (xs[i := x])"
  using set_update_subset_insert [of xs i x] by (auto simp: list_all_iff)

lemma thread_ok_callstack:
  "thread_ok ts \<Longrightarrow> callstack_wf cs \<Longrightarrow> thread_ok (ts\<lparr> ts_callstack := (ts_callstack ts)[i := cs] \<rparr>)"
  by (simp add: thread_ok_def list_all_update)

lemma pstate_ok_set_cur:
  "pstate_ok ps \<Longrightarrow> thread_ok ts \<Longrightarrow> pstate_ok (set_cur_ts ps ts)"
  by (simp add: pstate_ok_def set_cur_ts_def list_all_update depth_def)

lemma cur_ts_ok: "pstate_ok ps \<Longrightarrow> cur_ts ps = Inr ts \<Longrightarrow> thread_ok ts"
  by (auto simp: cur_ts_def pstate_ok_def list_all_length split: if_splits)

section \<open>Room for a new thread\<close>

text \<open>
  Doubling from a positive size reaches a thread number below \<open>2 ^ 31\<close>. From eight times a
  power of two it reaches 0, and not a number of \<open>2 ^ 31\<close> or more.
\<close>

lemma double_nthreads_ends:
  assumes "unat tid < 2 ^ 31" "0 < unat n"
  shows "\<exists>m. double_nthreads tid n = Some m \<and> tid < m"
proof -
  let ?P = "\<lambda>n :: u32. 0 < unat n"
  have step: "?P (s * 2) \<and> 2 ^ 32 - unat (s * 2) < 2 ^ 32 - unat s" if "?P s" "s \<le> tid" for s :: u32
  proof -
    have "unat s * 2 < 2 ^ 32" using that assms(1) by (simp add: word_le_nat_alt)
    then have "unat (s * 2) = unat s * 2" by (simp add: unat_word_ariths)
    then show ?thesis using that \<open>unat s * 2 < 2 ^ 32\<close> by simp
  qed
  obtain m where m: "double_nthreads tid n = Some m"
    unfolding double_nthreads_def
    using measure_while_option_Some [of ?P "\<lambda>n. n \<le> tid" "\<lambda>n. n * 2" "\<lambda>n. 2 ^ 32 - unat n" n] step assms(2)
    by blast
  then have "\<not> m \<le> tid"
    unfolding double_nthreads_def by (rule while_option_stop)
  then show ?thesis using m by auto
qed

lemma eight_pow_le: "(8 :: u32) * 2 ^ k \<le> 2 ^ 31"
proof (cases "k < 29")
  case True
  then have "(2 :: nat) ^ (k + 3) \<le> 2 ^ 31" by (intro power_increasing) auto
  then have "unat ((8 :: u32) * 2 ^ k) = 2 ^ (k + 3)"
    using unat_of_nat [of "2 ^ (k + 3)", where 'a = 32] by (simp add: power_add mult.commute)
  then show ?thesis using \<open>2 ^ (k + 3) \<le> _\<close> by (simp add: word_le_nat_alt)
next
  case False
  then have "(2 :: u32) ^ k = 2 ^ 29 * 2 ^ (k - 29)"
    by (metis power_add le_add_diff_inverse not_less)
  then have "(8 :: u32) * 2 ^ k = (8 * 2 ^ 29) * 2 ^ (k - 29)"
    by (simp only: mult.assoc)
  moreover have "(8 :: u32) * 2 ^ 29 = 0" by simp
  ultimately have "(8 :: u32) * 2 ^ k = 0" by (simp only: mult_zero_left)
  then show ?thesis by simp
qed

lemma double_nthreads_diverges:
  assumes "2 ^ 31 \<le> tid"
  shows "double_nthreads tid (8 * 2 ^ k) = None"
proof (rule ccontr)
  assume "double_nthreads tid (8 * 2 ^ k) \<noteq> None"
  then obtain m where m: "double_nthreads tid (8 * 2 ^ k) = Some m" by auto
  have "\<exists>k. m = 8 * 2 ^ k"
    using while_option_rule [of "\<lambda>n. \<exists>k. n = 8 * 2 ^ k" "\<lambda>n. n \<le> tid" "\<lambda>n. n * 2", OF _ m [unfolded double_nthreads_def]]
    by (metis mult.assoc power_Suc2)
  then have "m \<le> tid" using eight_pow_le assms order_trans by blast
  moreover have "\<not> m \<le> tid" using m unfolding double_nthreads_def by (rule while_option_stop)
  ultimately show False by simp
qed

lemma begin_thread_ok:
  assumes "pstate_ok ps"
  shows "case rvp_pstate_begin_thread alloc ps tid g of
           Inl e \<Rightarrow> e \<in> {Exited, Assertion} \<or> e = Waiting \<and> 2 ^ 31 \<le> unat tid
         | Inr ps' \<Rightarrow> pstate_ok ps' \<and> cur_ts ps' \<noteq> Inl Undefined \<and> ps_curthread ps' = tid"
proof -
  define ps1 where "ps1 = (if ps_nthreads ps \<le> tid
      then rvp_pstate_extend_threads_over alloc ps tid (ps_thread ps) (ps_nthreads ps) else Inr ps)"
  have 1: "case ps1 of Inl e \<Rightarrow> e = Exited \<or> e = Waiting \<and> 2 ^ 31 \<le> unat tid
      | Inr p \<Rightarrow> length (ps_thread p) = unat (ps_nthreads p) \<and> list_all thread_ok (ps_thread p) \<and>
          tid < ps_nthreads p"
  proof (cases "ps_nthreads ps \<le> tid")
    case False
    then show ?thesis using assms by (auto simp: ps1_def pstate_ok_def)
  next
    case True
    have e: "ps1 = (case double_nthreads tid (max 8 (ps_nthreads ps)) of
         None \<Rightarrow> Inl Waiting
       | Some nthreads \<Rightarrow>
           if \<not> alloc (unat nthreads) then Inl Exited
           else Inr (ps\<lparr> ps_nthreads := nthreads,
             ps_thread := map (\<lambda>i. if i < unat (ps_nthreads ps) \<and> ts_present (ps_thread ps ! i) then ps_thread ps ! i
                                   else zero_thread_pstate) [0..<unat nthreads] \<rparr>))"
      using True by (simp add: ps1_def rvp_pstate_extend_threads_over_def cassert_def)
    have pos: "0 < unat (max 8 (ps_nthreads ps))"
      by (auto simp: max_def word_le_nat_alt)
    have th: "thread_ok (ps_thread ps ! i)" if "i < unat (ps_nthreads ps)" for i
      using assms that by (simp add: pstate_ok_def list_all_length)
    show ?thesis
    proof (cases "double_nthreads tid (max 8 (ps_nthreads ps))")
      case None
      then show ?thesis using double_nthreads_ends [of tid, OF _ pos] e by force
    next
      case (Some m)
      then have "tid < m" unfolding double_nthreads_def using while_option_stop by fastforce
      then show ?thesis using e Some th by (auto simp: list_all_iff)
    qed
  qed
  show ?thesis
  proof (cases ps1)
    case (Inl e)
    then show ?thesis using 1 by (auto simp: rvp_pstate_begin_thread_def ps1_def)
  next
    case (Inr p)
    then have p: "length (ps_thread p) = unat (ps_nthreads p)" "list_all thread_ok (ps_thread p)"
      "unat tid < unat (ps_nthreads p)"
      using 1 by (auto simp: word_less_nat_alt)
    then have "thread_ok (ps_thread p ! unat tid)" by (simp add: list_all_length)
    then show ?thesis
      using Inr p
      by (auto simp: rvp_pstate_begin_thread_def ps1_def [symmetric] Let_def cassert_def pstate_ok_def
          cur_ts_def depth_def thread_ok_def RVP_SIGNAL_DEPTH_def list_all_update)
  qed
qed

section \<open>No access out of bounds\<close>

definition ready :: "rvp_pstate \<Rightarrow> bool" where
  "ready ps \<longleftrightarrow> pstate_ok ps \<and> cur_ts ps \<noteq> Inl Undefined"

text \<open>The operation of the record at the front of a buffer; \<open>None\<close> for a change of program counter.\<close>

definition record_op :: "rvp_pstate \<Rightarrow> u8 list \<Rightarrow> rvp_op option" where
  "record_op ps ub =
     (if pc_is_not_deltop ps (ub_pc ub) then None
      else case extract_jmpvec_and_op_from_deltop (ps_deltop_first ps) (ub_pc ub) of
             Inl e \<Rightarrow> None | Inr (j, op) \<Rightarrow> Some op)"

definition fails_only :: "(cfail \<Rightarrow> bool) \<Rightarrow> ('a \<Rightarrow> bool) \<Rightarrow> 'a cres \<Rightarrow> bool" where
  "fails_only E Q r \<longleftrightarrow> (case r of Inl e \<Rightarrow> E e | Inr x \<Rightarrow> Q x)"

lemma fails_only_bind:
  "fails_only E Q r \<Longrightarrow> (\<And>x. Q x \<Longrightarrow> fails_only E R (f x)) \<Longrightarrow> fails_only E R (cbind r f)"
  by (cases r) (auto simp: fails_only_def)

lemma fails_only_Inr [simp]: "fails_only E Q (Inr x) = Q x"
  and fails_only_Inl [simp]: "fails_only E Q (Inl e) = E e"
  by (simp_all add: fails_only_def)

lemma fails_only_assert: "E Assertion \<Longrightarrow> fails_only E (\<lambda>_. b) (cassert b)"
  by (simp add: fails_only_def cassert_def)

abbreviation exits :: "cfail \<Rightarrow> bool" where
  "exits e \<equiv> e \<in> {Exited, Assertion}"

lemma ready_cur: "ready ps \<Longrightarrow> \<exists>ts. cur_ts ps = Inr ts \<and> thread_ok ts"
  using cur_ts_ok by (cases "cur_ts ps") (auto simp: ready_def cur_ts_def split: if_splits)

lemma ready_set_cur: "ready ps \<Longrightarrow> thread_ok ts \<Longrightarrow> ready (set_cur_ts ps ts)"
  by (auto simp: ready_def pstate_ok_set_cur) (auto simp: cur_ts_def set_cur_ts_def split: if_splits)

lemma callstack_at: "ready ps \<Longrightarrow> cur_ts ps = Inr ts \<Longrightarrow> callstack_wf (ts_callstack ts ! depth ps)"
  using cur_ts_ok [of ps ts]
  by (auto simp: ready_def thread_ok_def list_all_length cur_ts_def depth_def split: if_splits)

text \<open>The stack of the running sequence holds \<open>2 ^ 30\<close> calls or more.\<close>

definition stack_huge :: "rvp_pstate \<Rightarrow> bool" where
  "stack_huge ps \<longleftrightarrow> (case cur_ts ps of Inl e \<Rightarrow> False | Inr ts \<Rightarrow> 2 ^ 30 \<le> cs_depth (ts_callstack ts ! depth ps))"

lemma consume_pc_ready:
  assumes "ready ps"
  shows "fails_only exits (\<lambda>(pc, ps'). ready ps' \<and> (stack_huge ps' \<longrightarrow> stack_huge ps)) (consume_pc ps j)"
proof -
  obtain ts where ts: "cur_ts ps = Inr ts" "thread_ok ts" using ready_cur [OF assms] by auto
  let ?ts = "ts\<lparr> ts_lastpc := (ts_lastpc ts)[depth ps := ts_lastpc ts ! depth ps + scast j] \<rparr>"
  have "ready (set_cur_ts ps ?ts)" using assms ts by (auto intro!: ready_set_cur)
  moreover have "stack_huge (set_cur_ts ps ?ts) \<Longrightarrow> stack_huge ps"
    using ts(1) by (auto simp: stack_huge_def cur_ts_def set_cur_ts_def depth_def split: if_splits)
  ultimately show ?thesis using ts(1) by (simp add: consume_pc_def Let_def)
qed

lemma consume_calls_ready:
  assumes "ready ps"
  shows "fails_only (\<lambda>e. exits e \<or> e = Undefined \<and> op = RVP_OP_ENTERFN \<and> stack_huge ps) ready
    (consume_calls alloc ps ub op pc)"
    (is "fails_only ?E _ _")
proof -
  obtain ts where ts: "cur_ts ps = Inr ts" "thread_ok ts" using ready_cur [OF assms] by auto
  let ?cs = "ts_callstack ts ! depth ps"
  note cs = callstack_at [OF assms ts(1)]
  have "op = RVP_OP_ENTERFN \<Longrightarrow> fails_only ?E callstack_wf (rvp_callstack_push alloc ?cs pc a)"
    "fails_only ?E callstack_wf (rvp_callstack_pop ?cs)" for a
    using callstack_push_wf [OF cs, of alloc pc a] callstack_pop_wf [OF cs] ts(1)
    by (auto simp: fails_only_def stack_huge_def split: sum.splits)
  then show ?thesis
    using assms ts by (auto simp: consume_calls_def intro!: fails_only_bind ready_set_cur thread_ok_callstack)
qed

lemma consume_cog_ready:
  "ready ps \<Longrightarrow> fails_only exits ready (consume_cog ps ub op)"
  using ready_cur [of ps]
  by (auto simp: consume_cog_def cassert_def intro!: ready_set_cur)

lemma consume_end_ready:
  "ready ps \<Longrightarrow> fails_only exits ready (consume_end ps op)"
  using ready_cur [of ps] by (auto simp: consume_end_def intro!: ready_set_cur)

lemma consume_context_ready:
  "ready ps \<Longrightarrow> fails_only exits (\<lambda>ps'. pstate_ok ps' \<and> (cur_ts ps' = Inl Undefined \<longrightarrow> op = RVP_OP_SWITCH))
     (consume_context ps ub op)"
  by (auto simp: consume_context_def cassert_def ready_def pstate_ok_def depth_def cur_ts_def
      RVP_SIGNAL_DEPTH_def split: if_splits)

lemma consume_begin_ready:
  assumes "pstate_ok ps" "op \<noteq> RVP_OP_BEGIN \<Longrightarrow> ready ps"
  shows "fails_only (\<lambda>e. exits e \<or> e = Waiting \<and> op = RVP_OP_BEGIN \<and> 2 ^ 31 \<le> unat (fld32 rvp_begin_t 1 ub))
    ready (consume_begin alloc ps ub op)"
proof (cases "op = RVP_OP_BEGIN")
  case True
  then show ?thesis
    using begin_thread_ok [OF assms(1), where alloc = alloc and tid = "fld32 rvp_begin_t 1 ub"
        and g = "fld64 rvp_begin_t 2 ub"]
    by (auto simp: consume_begin_def fails_only_def ready_def split: sum.splits)
next
  case False
  then show ?thesis
    using ready_cur [of ps] assms(2) by (auto simp: consume_begin_def intro!: ready_set_cur)
qed

lemma consume_begin_same:
  assumes "pstate_ok ps" "op \<noteq> RVP_OP_BEGIN \<Longrightarrow> ready ps"
  shows "fails_only (\<lambda>e. exits e \<or> e = Waiting \<and> op = RVP_OP_BEGIN \<and> 2 ^ 31 \<le> unat (fld32 rvp_begin_t 1 ub))
    (\<lambda>ps'. ready ps' \<and> (op = RVP_OP_ENTERFN \<longrightarrow> ps' = ps)) (consume_begin alloc ps ub op)"
proof (cases "op = RVP_OP_ENTERFN")
  case True
  then show ?thesis using assms(2) by (simp add: consume_begin_def)
next
  case False
  then show ?thesis using consume_begin_ready [OF assms, where alloc = alloc and ub = ub] by simp
qed

lemma fails_only_bind2:
  "fails_only E (\<lambda>(a, b). Q a b) r \<Longrightarrow> (\<And>a b. Q a b \<Longrightarrow> fails_only E R (f a b)) \<Longrightarrow>
   fails_only E R (cbind r (\<lambda>(a, b). f a b))"
  by (cases r) (auto simp: fails_only_def)

lemma fails_only_mono:
  "fails_only E Q r \<Longrightarrow> (\<And>e. E e \<Longrightarrow> E' e) \<Longrightarrow> (\<And>x. Q x \<Longrightarrow> Q' x) \<Longrightarrow> fails_only E' Q' r"
  by (auto simp: fails_only_def split: sum.splits)

text \<open>An emitter that only fails by exiting when the current thread exists.\<close>

definition safe_emitters :: "'o rvp_emitters \<Rightarrow> bool" where
  "safe_emitters em \<longleftrightarrow>
     (\<forall>ps ub. ready ps \<longrightarrow> fails_only exits (\<lambda>_. True) (em_emit_nop em ps ub)) \<and>
     (\<forall>ps ub op l w. ready ps \<longrightarrow> op_to_info op \<noteq> None \<longrightarrow>
        fails_only exits (\<lambda>_. True) (em_emit_op em ps ub op l w))"

lemma consume_safe:
  assumes em: "safe_emitters em" and ok: "pstate_ok ps" "8 \<le> length ub"
    and cur: "cur_ts ps = Inl Undefined \<Longrightarrow> record_op ps ub = Some RVP_OP_BEGIN"
  shows "fails_only (\<lambda>e. exits e \<or> e = Waiting \<and> record_op ps ub = Some RVP_OP_BEGIN \<and>
            2 ^ 31 \<le> unat (fld32 rvp_begin_t 1 ub) \<or>
            e = Undefined \<and> record_op ps ub = Some RVP_OP_ENTERFN \<and> stack_huge ps)
      (\<lambda>(n, ps', ub', out). pstate_ok ps' \<and>
         (n = 0 \<longrightarrow> cur_ts ps' = Inl Undefined \<longrightarrow> record_op ps ub = Some RVP_OP_SWITCH))
      (consume_and_print_trace alloc em ps ub)"
    (is "fails_only ?E ?Q _")
proof (cases "pc_is_not_deltop ps (ub_pc ub)")
  case True
  then have "ready ps" using ok cur by (auto simp: ready_def record_op_def)
  then obtain ts where ts: "cur_ts ps = Inr ts" "thread_ok ts" using ready_cur by blast
  let ?ps = "set_cur_ts ps (ts\<lparr> ts_lastpc := (ts_lastpc ts)[depth ps := ub_pc ub] \<rparr>)"
  have r: "ready ?ps" using \<open>ready ps\<close> ts by (auto intro!: ready_set_cur)
  then have "fails_only exits (\<lambda>_. True) (em_emit_nop em ?ps ub)"
    using em by (simp add: safe_emitters_def)
  then show ?thesis
    using True ts ok(2) r
    by (auto simp: consume_and_print_trace_def fails_only_def advance_eq ready_def cbind_def
        split: sum.splits)
next
  case False
  show ?thesis
  proof (cases "extract_jmpvec_and_op_from_deltop (ps_deltop_first ps) (ub_pc ub)")
    case (Inl e)
    then have "e = Assertion"
      by (auto simp: extract_jmpvec_and_op_from_deltop_def Let_def cassert_def split: if_splits)
    then show ?thesis using Inl False by (simp add: consume_and_print_trace_def)
  next
    case (Inr q)
    obtain j op where q: "q = (j, op)" by (cases q)
    have op: "record_op ps ub = Some op" using Inr q False by (simp add: record_op_def)
    show ?thesis
    proof (cases "op_to_info op")
      case None
      then show ?thesis using Inr q False by (simp add: consume_and_print_trace_def)
    next
      case (Some p)
      obtain oi d where p: "p = (oi, d)" by (cases p)
      have rdy: "ready ps" if "op \<noteq> RVP_OP_BEGIN" using that ok cur op by (auto simp: ready_def)
      have emit: "fails_only ?E (\<lambda>_. True) (em_emit_op em ps' ub op l w)" if "ready ps'" for ps' l w
      proof -
        have "fails_only exits (\<lambda>_. True) (em_emit_op em ps' ub op l w)"
          using em that Some unfolding safe_emitters_def by blast
        then show ?thesis by (rule fails_only_mono) auto
      qed
      have w: "fails_only exits Q r \<Longrightarrow> fails_only ?E Q r" for Q and r :: "'x cres"
        by (erule fails_only_mono) auto
      have beg: "fails_only ?E (\<lambda>ps'. ready ps' \<and> (op = RVP_OP_ENTERFN \<longrightarrow> ps' = ps)) (consume_begin alloc ps ub op)"
        by (rule fails_only_mono [OF consume_begin_same [OF ok(1) rdy]]) (auto simp: op)
      have pc: "fails_only ?E (\<lambda>(c, ps''). ready ps'' \<and> (op = RVP_OP_ENTERFN \<longrightarrow> stack_huge ps'' \<longrightarrow> stack_huge ps)) (consume_pc ps' j)"
        if "ready ps' \<and> (op = RVP_OP_ENTERFN \<longrightarrow> ps' = ps)" for ps'
        by (rule fails_only_mono [OF consume_pc_ready]) (use that in auto)
      have calls: "fails_only ?E ready (consume_calls alloc ps' ub op c)"
        if "ready ps' \<and> (op = RVP_OP_ENTERFN \<longrightarrow> stack_huge ps' \<longrightarrow> stack_huge ps)" for ps' c
        by (rule fails_only_mono [OF consume_calls_ready]) (use that op in auto)
      have last: "fails_only ?E (\<lambda>ps'. pstate_ok ps' \<and> (cur_ts ps' = Inl Undefined \<longrightarrow> op = RVP_OP_SWITCH))
          (consume_context ps' ub op)" if "ready ps'" for ps'
        by (rule fails_only_mono [OF consume_context_ready [OF that]]) auto
      have adv: "advance ub n = Inr (drop n ub)" if "n \<le> length ub" for n
        using that by (rule advance_eq)
      have ?thesis if "layout_size oi \<le> length ub"
      proof -
        have short: "(length ub < layout_size oi) = False" using that by simp
        have False_eq: "pc_is_not_deltop ps (ub_pc ub) = False" using False by simp
        have "?Q (0, ps', drop (layout_size oi) ub, out)"
          if "pstate_ok ps' \<and> (cur_ts ps' = Inl Undefined \<longrightarrow> op = RVP_OP_SWITCH)" for ps' out
          using that by (simp add: op)
        then show ?thesis
          unfolding consume_and_print_trace_def False_eq Inr q Some p short cbind_simps
            if_False prod.case option.case adv [OF that]
          by (intro fails_only_bind [OF beg] fails_only_bind [OF fails_only_assert]
              fails_only_bind2 [OF pc] fails_only_bind [OF calls]
              fails_only_bind [OF emit] fails_only_bind [OF w [OF consume_cog_ready]]
              fails_only_bind [OF w [OF consume_end_ready]] fails_only_bind [OF last])
             simp_all
      qed
      then show ?thesis
        using ok by (cases "length ub < layout_size oi")
          (auto simp: consume_and_print_trace_def False Inr q Some p)
    qed
  qed
qed

lemma nop_fits:
  assumes "printer_fits insn 21" "cur_ts ps = Inr ts"
  shows "\<exists>s. print_nop insn ps ub = Inr s"
proof -
  obtain p where p: "preamble_string insn ps prebuf_size = Inr p"
    using preamble_fits [OF assms] by blast
  obtain x where x: "suffix_string ps ub 8 sufbuf_size = Inr x"
    using suffix_fits [of 8 ps ub] by auto
  show ?thesis using p x by (simp add: print_nop_def)
qed

lemma text_emitters_fit:
  assumes "printer_fits insn 21" "printer_fits data 98" "cur_ts ps = Inr ts"
  shows "\<exists>s. em_emit_nop (text_emitters insn data) ps ub = Inr s"
    "op_to_info op = Some oi \<Longrightarrow> \<exists>s. em_emit_op (text_emitters insn data) ps ub op l w = Inr s"
  using nop_fits [OF assms(1,3), of ub] op_fits [OF assms(1-3), of op "fst oi" "snd oi" ub l w]
  by (auto simp: text_emitters_def bytes_of_text_def)

lemma text_emitters_safe:
  assumes "printer_fits insn 21" "printer_fits data 98"
  shows "safe_emitters (text_emitters insn data)"
proof -
  have n: "fails_only exits (\<lambda>_. True) (em_emit_nop (text_emitters insn data) ps ub)" if r: "ready ps" for ps ub
  proof -
    obtain ts where "cur_ts ps = Inr ts" using ready_cur [OF r] by auto
    then obtain s where "em_emit_nop (text_emitters insn data) ps ub = Inr s"
      using text_emitters_fit(1) [OF assms] by blast
    then show ?thesis by simp
  qed
  have o: "fails_only exits (\<lambda>_. True) (em_emit_op (text_emitters insn data) ps ub op l w)"
    if r: "ready ps" and i: "op_to_info op \<noteq> None" for ps ub op l w
  proof -
    obtain ts oi where "cur_ts ps = Inr ts" "op_to_info op = Some oi"
      using ready_cur [OF r] i by auto
    then obtain s where "em_emit_op (text_emitters insn data) ps ub op l w = Inr s"
      using text_emitters_fit(2) [OF assms] by blast
    then show ?thesis by simp
  qed
  show ?thesis using n o by (simp add: safe_emitters_def)
qed

lemma binary_safe: "safe_emitters (binary wr)"
  by (auto simp: safe_emitters_def binary_def reemit_binary_nop_def reemit_binary_op_def write_stdout_def
      split: option.splits)

lemmas emitters_safe =
  text_emitters_safe [OF simple_insn_fits simple_data_fits, folded plain_text_def]
  text_emitters_safe [OF symbolic_insn_fits symbolic_data_fits, folded symbol_friendly_def]
  binary_safe

section \<open>Properties\<close>

text \<open>
  C12. The text of a record always fits the buffers it is printed into: for every thread that
  exists, no printing emitter, plain or symbol-friendly, exits because a string was
  truncated, whatever the record holds and whether the generation and the bytes are shown.
\<close>

theorem text_always_fits:
  assumes "cur_ts ps = Inr ts" "op_to_info op \<noteq> None" "em = plain_text \<or> em = symbol_friendly"
  shows "(\<exists>s. em_emit_op em ps ub op l w = Inr s) \<and> (\<exists>s. em_emit_nop em ps ub = Inr s)"
proof -
  obtain oi where oi: "op_to_info op = Some oi" using assms(2) by blast
  from assms(3) show ?thesis
  proof
    assume "em = plain_text"
    then show ?thesis
      using text_emitters_fit [OF simple_insn_fits simple_data_fits assms(1)] oi
      unfolding plain_text_def by blast
  next
    assume "em = symbol_friendly"
    then show ?thesis
      using text_emitters_fit [OF symbolic_insn_fits symbolic_data_fits assms(1)] oi
      unfolding symbol_friendly_def by blast
  qed
qed

text \<open>
  C8. Writing a trace again: when every write to the standard output is complete, the bytes
  that the binary output writes are the trace itself, except that the first generation
  becomes 0; a limit on the number of records cuts off a suffix.
\<close>

theorem binary_output_is_the_trace:
  assumes "\<And>n. wr n = int n" "op_type p = RVP_OUTPUT_BINARY"
    "rvp_trace_dump alloc wr p ps0 f = Inr out"
  shows "\<exists>rest. out @ rest = take 16 (in_bytes f) @ begin0_bytes (read_u64 (drop 16 (in_bytes f))) 1 @
      drop 36 (in_bytes f) \<and> (length (in_bytes f) \<le> op_nrecords p \<longrightarrow> rest = [])"
proof -
  let ?bs = "in_bytes f"
  have ok: "file_ok ?bs"
    using assms(2,3) dump_not_ok [of f, where em = "binary wr"]
    by (cases "file_ok ?bs") (auto simp: rvp_trace_dump_def)
  then have len: "36 \<le> length ?bs" by (simp add: file_ok_def)
  obtain ps outs where o: "stream alloc (binary wr) (op_nrecords p) ps
      (begin0_bytes (read_u64 (drop 16 ?bs)) 1 @ drop 36 ?bs) = Inr outs" "out = take 16 ?bs @ concat outs"
    using assms len header_bytes_of_bytes [of ?bs]
      binary.dump_stream [OF ok, where wr = wr and alloc = alloc and eg = "op_emit_generation p" and eb = "op_emit_bytes p"
        and most = "op_nrecords p" and ?ps0.0 = ps0]
    by (auto simp: rvp_trace_dump_def Let_def binary_def reemit_binary_init_def write_stdout_def result_or_exit_def)
  have "length (begin0_bytes pc 1) = 20" for pc by (simp add: begin0_bytes_def)
  then show ?thesis
    using stream_binary [OF assms(1) o(1)] o(2) len by auto
qed

text \<open>
  C19. A file that is too short for a header and a first record, whose magic number, version,
  byte order, pointer width or data width is not the reader's own, or whose first thread is
  not 1, makes the reader exit, in whatever pieces the reads deliver it. It has called no
  emitter then, and so printed nothing: the result is the same when each call of an emitter is
  an error of another kind.
\<close>

theorem bad_files_rejected:
  assumes "\<not> file_ok (in_bytes f)"
  shows "rvp_trace_dump alloc wr p ps0 f = Inl Exited \<and>
    rvp_trace_dump_with_emitters alloc eg eb most forbidden_emitters ps0 f = Inl Exited"
  by (cases "op_type p") (simp_all add: rvp_trace_dump_def dump_not_ok [OF assms])

text \<open>
  C6. Memory safety of the reader, record by record: a well-formed parse state stays
  well-formed, and no access to the table of threads, to the arrays of a thread or to a call
  stack is out of bounds, as long as the current thread exists or the record begins one; the
  thread exists after any record but a switch of threads. The only failures are exits and
  assertions, the loop that makes room for a thread number of \<open>2 ^ 31\<close> or more, and the call
  entered on top of \<open>2 ^ 30\<close> others or more, where the size of the call stack overflows an \<open>int\<close>.
\<close>

theorem record_memory_safe:
  assumes "pstate_ok ps" "8 \<le> length ub"
    "cur_ts ps = Inl Undefined \<Longrightarrow> record_op ps ub = Some RVP_OP_BEGIN"
    "em = plain_text \<or> em = symbol_friendly \<or> em = binary wr"
  shows "case consume_and_print_trace alloc em ps ub of
      Inl e \<Rightarrow> e = Exited \<or> e = Assertion \<or>
        e = Waiting \<and> record_op ps ub = Some RVP_OP_BEGIN \<and> 2 ^ 31 \<le> unat (fld32 rvp_begin_t 1 ub) \<or>
        e = Undefined \<and> record_op ps ub = Some RVP_OP_ENTERFN \<and> stack_huge ps
    | Inr (n, ps', ub', out) \<Rightarrow> pstate_ok ps' \<and>
        (n = 0 \<longrightarrow> cur_ts ps' = Inl Undefined \<longrightarrow> record_op ps ub = Some RVP_OP_SWITCH)"
proof -
  have "safe_emitters em" using assms(4) emitters_safe by blast
  from consume_safe [OF this assms(1-3), of alloc] show ?thesis
    by (auto simp: fails_only_def split: sum.splits)
qed

text \<open>
  C20. Making room for a new thread ends for every thread number below \<open>2 ^ 31\<close>, with a table
  that holds it; from the sizes the table has, eight times a power of two, a greater thread number makes the
  doubling go on for ever.
\<close>

theorem thread_table_grows:
  "(tid < 2 ^ 31 \<longrightarrow> 0 < n \<longrightarrow> (\<exists>m. double_nthreads tid n = Some m \<and> tid < m)) \<and>
   (2 ^ 31 \<le> tid \<longrightarrow> double_nthreads tid (8 * 2 ^ k) = None)"
  using double_nthreads_ends [of tid n] double_nthreads_diverges [of tid k]
  by (simp add: word_less_nat_alt)

section \<open>Witnesses\<close>

lemma sample_pstate_ok: "pstate_ok sample_pstate" "\<exists>ts. cur_ts sample_pstate = Inr ts"
  by (simp_all add: pstate_ok_def sample_pstate_def cur_ts_def depth_def RVP_SIGNAL_DEPTH_def
      list_all_iff thread_ok_def zero_thread_pstate_def callstack_wf_def null_callstack_def int_overflows_def)

lemma text_always_fits_witness:
  "\<exists>s. em_emit_op plain_text sample_pstate [] RVP_OP_LOAD8 True 16 = Inr s"
proof -
  obtain ts where "cur_ts sample_pstate = Inr ts" using sample_pstate_ok(2) by blast
  from text_always_fits [OF this, of RVP_OP_LOAD8 plain_text "[]" True 16] show ?thesis by simp
qed

definition binary_params :: rvp_output_params where
  "binary_params = \<lparr> op_type = RVP_OUTPUT_BINARY, op_emit_generation = False, op_emit_bytes = False,
     op_nrecords = 100 \<rparr>"

lemma binary_output_witness:
  "\<exists>out. rvp_trace_dump (\<lambda>n. True) int binary_params sample_pstate sample_file = Inr out \<and>
     out = take 16 (in_bytes sample_file) @ begin0_bytes (read_u64 (drop 16 (in_bytes sample_file))) 1"
proof -
  have "isl (rvp_trace_dump (\<lambda>n. True) int binary_params sample_pstate sample_file) = False"
    by code_simp
  then obtain out where out: "rvp_trace_dump (\<lambda>n. True) int binary_params sample_pstate sample_file = Inr out"
    by (cases "rvp_trace_dump (\<lambda>n. True) int binary_params sample_pstate sample_file") auto
  have "length (in_bytes sample_file) = 36" by code_simp
  then show ?thesis
    using binary_output_is_the_trace [OF _ _ out] out by (simp add: binary_params_def)
qed

lemma bad_files_rejected_witness:
  "rvp_trace_dump (\<lambda>n. True) int binary_params sample_pstate \<lparr> in_bytes = [1, 2, 3], in_sched = [Some 0] \<rparr> = Inl Exited \<and>
   rvp_trace_dump_with_emitters (\<lambda>n. True) True True 9 forbidden_emitters sample_pstate
     \<lparr> in_bytes = [1, 2, 3], in_sched = [Some 0] \<rparr> = Inl Exited"
  by (rule bad_files_rejected) (simp add: file_ok_def)

lemma record_memory_safe_witness:
  "case consume_and_print_trace (\<lambda>n. True) plain_text sample_pstate (replicate 8 0) of
     Inl e \<Rightarrow> e = Exited \<or> e = Assertion \<or> e = Waiting \<and> record_op sample_pstate (replicate 8 0) = Some RVP_OP_BEGIN \<and>
        2 ^ 31 \<le> unat (fld32 rvp_begin_t 1 (replicate 8 0)) \<or>
        e = Undefined \<and> record_op sample_pstate (replicate 8 0) = Some RVP_OP_ENTERFN \<and> stack_huge sample_pstate
   | Inr (n, ps', ub', out) \<Rightarrow> pstate_ok ps' \<and>
        (n = 0 \<longrightarrow> cur_ts ps' = Inl Undefined \<longrightarrow> record_op sample_pstate (replicate 8 0) = Some RVP_OP_SWITCH)"
proof (rule record_memory_safe [OF sample_pstate_ok(1)])
  show "record_op sample_pstate (replicate 8 0) = Some RVP_OP_BEGIN" if "cur_ts sample_pstate = Inl Undefined"
    using that sample_pstate_ok(2) by auto
qed simp_all

lemma thread_table_grows_witness:
  "\<exists>m. double_nthreads 100 8 = Some m \<and> 100 < m"
  using thread_table_grows [of 100 8 0] by simp

end
