(* ===== verification/Memory.thy ===== *)
theory Memory
  imports Prelude
begin

text \<open>
  Byte-addressed memory, for the functions that move it: reads and writes of little-endian
  machine words, and the copy and the fill of a region, with the lemmas that compose copies of
  adjacent regions.
\<close>

type_synonym mem = "rvp_addr \<Rightarrow> u8"

fun mem_read :: "nat \<Rightarrow> mem \<Rightarrow> rvp_addr \<Rightarrow> 'a::len word" where
    "mem_read 0 m a = 0"
  | "mem_read (Suc n) m a = ucast (m a) OR push_bit 8 (mem_read n m (a + 1))"

definition mem_write :: "nat \<Rightarrow> mem \<Rightarrow> rvp_addr \<Rightarrow> 'a::len word \<Rightarrow> mem" where
  "mem_write n m a v = (\<lambda>x. if unat (x - a) < n then ucast (drop_bit (8 * unat (x - a)) v) else m x)"

text \<open>The region of \<open>n\<close> bytes at \<open>d\<close> replaced by what was at \<open>s\<close>, or by one byte.\<close>

definition blit :: "mem \<Rightarrow> rvp_addr \<Rightarrow> rvp_addr \<Rightarrow> nat \<Rightarrow> mem" where
  "blit m d s n = (\<lambda>x. if unat (x - d) < n then m (s + (x - d)) else m x)"

definition fill :: "mem \<Rightarrow> rvp_addr \<Rightarrow> u8 \<Rightarrow> nat \<Rightarrow> mem" where
  "fill m d c n = (\<lambda>x. if unat (x - d) < n then c else m x)"

section \<open>Machine words as bytes\<close>

lemma bit_mem_read:
  "8 * n \<le> LENGTH('a) \<Longrightarrow> bit (mem_read n m a :: 'a::len word) i \<longleftrightarrow>
     i < 8 * n \<and> bit (m (a + of_nat (i div 8))) (i mod 8)"
proof (induction n arbitrary: a i)
  case (Suc n)
  show ?case
  proof (cases "i < 8")
    case True
    then show ?thesis using Suc.prems by (simp add: bit_simps)
  next
    case False
    then have "bit (mem_read n m (a + 1) :: 'a word) (i - 8) \<longleftrightarrow>
        i < 8 * Suc n \<and> bit (m (a + of_nat (i div 8))) (i mod 8)"
      using Suc by (auto simp: le_div_geq le_mod_geq add.assoc)
    then show ?thesis
      using False Suc.prems bit_u8_ge [of i "m a"] by (auto simp: bit_simps)
  qed
qed simp

lemma write_read_blit:
  assumes "8 * n \<le> LENGTH('a)"
  shows "mem_write n m d (mem_read n m s :: 'a::len word) = blit m d s n"
proof
  fix x
  show "mem_write n m d (mem_read n m s :: 'a word) x = blit m d s n x"
  proof (cases "unat (x - d) < n")
    case True
    have "ucast (drop_bit (8 * unat (x - d)) (mem_read n m s :: 'a word)) = m (s + (x - d))"
    proof (rule bit_word_eqI)
      fix i
      assume i: "i < LENGTH(8)"
      then have "8 * unat (x - d) + i < 8 * n" using True by simp
      then show "bit (ucast (drop_bit (8 * unat (x - d)) (mem_read n m s :: 'a word)) :: u8) i
          \<longleftrightarrow> bit (m (s + (x - d))) i"
        using i assms by (simp add: bit_simps bit_mem_read)
    qed
    then show ?thesis using True by (simp add: mem_write_def blit_def)
  qed (simp add: mem_write_def blit_def)
qed

section \<open>Regions\<close>

lemma in_region:
  "unat d + n \<le> 2 ^ 64 \<Longrightarrow> unat (x - d) < n \<longleftrightarrow> unat d \<le> unat x \<and> unat x < unat d + n" for x d :: u64
  using unat_lt_exp [of x] by (auto simp: unat_sub_if' split: if_splits)

lemma blit_0 [simp]: "blit m d s 0 = m" by (simp add: blit_def)
lemma fill_0 [simp]: "fill m d c 0 = m" by (simp add: fill_def)

text \<open>
  A copy after another whose target does not touch the second copy's source is one copy, when
  the regions follow each other.
\<close>

lemma add_diff_word: "s + k + (x - (d + k)) = s + (x - d)" for s :: u64
  by simp

lemma unat_add_nat:
  "unat a + n < 2 ^ 64 \<Longrightarrow> unat (a + of_nat n) = unat a + n" for a :: u64
  by (simp add: unat_word_ariths unat_of_nat)

lemma blit_source:
  fixes s :: u64
  assumes x: "unat d \<le> unat x" "unat x < unat d + n" and b: "unat s + n < 2 ^ 64" "unat d + n < 2 ^ 64"
  shows "unat (s + (x - d)) = unat s + (unat x - unat d)"
proof -
  have "unat (x - d) = unat x - unat d" using x(1) by (simp add: unat_sub_if')
  then show ?thesis using x b by (simp add: unat_word_ariths)
qed

lemma blit_forward:
  assumes "unat d + (k + w) < 2 ^ 64" "unat s + (k + w) < 2 ^ 64"
    and "unat d \<le> unat s \<or> unat s + (k + w) \<le> unat d"
  shows "blit (blit m d s k) (d + of_nat k) (s + of_nat k) w = blit m d s (k + w)"
proof
  fix x
  have dk: "unat (d + of_nat k) = unat d + k" using assms(1) by (intro unat_add_nat) simp
  have r: "unat (x - (d + of_nat k)) < w \<longleftrightarrow> unat d + k \<le> unat x \<and> unat x < unat d + k + w"
    "unat (x - d) < k + w \<longleftrightarrow> unat d \<le> unat x \<and> unat x < unat d + (k + w)"
    "unat (y - d) < k \<longleftrightarrow> unat d \<le> unat y \<and> unat y < unat d + k" for y
    using in_region [of "d + of_nat k" w x] in_region [of d "k + w" x] in_region [of d k y] assms(1) dk
    by simp_all
  show "blit (blit m d s k) (d + of_nat k) (s + of_nat k) w x = blit m d s (k + w) x"
  proof (cases "unat d + k \<le> unat x \<and> unat x < unat d + k + w")
    case True
    then have "unat (s + (x - d)) = unat s + (unat x - unat d)"
      using blit_source [of d x "k + w" s] assms by simp
    then have "\<not> unat (s + (x - d) - d) < k" using True assms(3) r(3) [of "s + (x - d)"] by linarith
    moreover have "unat (x - d) < k + w" "unat (x - (d + of_nat k)) < w" using True r(1,2) by linarith+
    ultimately show ?thesis unfolding blit_def add_diff_word by (simp only: if_True if_False)
  next
    case False
    then have "unat (x - d) < k \<longleftrightarrow> unat (x - d) < k + w" "\<not> unat (x - (d + of_nat k)) < w"
      using r(1,2) r(3) [of x] by linarith+
    then show ?thesis unfolding blit_def add_diff_word by (simp only: if_False)
  qed
qed

lemma blit_backward:
  assumes "unat d + (w + k) < 2 ^ 64" "unat s + (w + k) < 2 ^ 64" "unat s \<le> unat d"
  shows "blit (blit m (d + of_nat w) (s + of_nat w) k) d s w = blit m d s (w + k)"
proof
  fix x
  have dw: "unat (d + of_nat w) = unat d + w" using assms(1) by (intro unat_add_nat) simp
  have r: "unat (y - (d + of_nat w)) < k \<longleftrightarrow> unat d + w \<le> unat y \<and> unat y < unat d + w + k"
    "unat (x - d) < w + k \<longleftrightarrow> unat d \<le> unat x \<and> unat x < unat d + (w + k)"
    "unat (x - d) < w \<longleftrightarrow> unat d \<le> unat x \<and> unat x < unat d + w" for y
    using in_region [of "d + of_nat w" k y] in_region [of d "w + k" x] in_region [of d w x] assms(1) dw
    by simp_all
  show "blit (blit m (d + of_nat w) (s + of_nat w) k) d s w x = blit m d s (w + k) x"
  proof (cases "unat d \<le> unat x \<and> unat x < unat d + w")
    case True
    then have "unat (s + (x - d)) = unat s + (unat x - unat d)"
      using blit_source [of d x w s] assms by simp
    then have "\<not> unat (s + (x - d) - (d + of_nat w)) < k"
      using True assms(3) r(1) [of "s + (x - d)"] by linarith
    moreover have "unat (x - d) < w + k" "unat (x - d) < w" using True r(2,3) by linarith+
    ultimately show ?thesis unfolding blit_def by (simp only: if_True if_False)
  next
    case False
    then have "unat (x - (d + of_nat w)) < k \<longleftrightarrow> unat (x - d) < w + k" "\<not> unat (x - d) < w"
      using r(1) [of x] r(2,3) by linarith+
    then show ?thesis unfolding blit_def add_diff_word by (simp only: if_False)
  qed
qed

lemma fill_append:
  assumes "unat d + (k + w) < 2 ^ 64"
  shows "fill (fill m d c k) (d + of_nat k) c w = fill m d c (k + w)"
proof
  fix x
  have dk: "unat (d + of_nat k) = unat d + k" using assms by (intro unat_add_nat) simp
  have "unat (x - (d + of_nat k)) < w \<longleftrightarrow> unat d + k \<le> unat x \<and> unat x < unat d + k + w"
    "unat (x - d) < k + w \<longleftrightarrow> unat d \<le> unat x \<and> unat x < unat d + (k + w)"
    "unat (x - d) < k \<longleftrightarrow> unat d \<le> unat x \<and> unat x < unat d + k"
    using in_region [of "d + of_nat k" w x] in_region [of d "k + w" x] in_region [of d k x] assms dk
    by simp_all
  then show "fill (fill m d c k) (d + of_nat k) c w x = fill m d c (k + w) x"
    by (auto simp: fill_def)
qed

end
