(* ===== verification/Str.thy ===== *)
theory Str
  imports Memory Trace_Roundtrip
begin

text \<open>
  The memory functions of the C library as the runtime replaces them, \<^verbatim>\<open>llvm/ngrt/str.c\<close>, and
  the plain ones that stand in for the library's until its own are found, \<^verbatim>\<open>llvm/ngrt/istr.c\<close>.
  The replacements move the memory and log the loads and stores that do it.
\<close>

section \<open>The plain functions\<close>

definition copy_byte :: "rvp_addr \<Rightarrow> rvp_addr \<Rightarrow> nat \<Rightarrow> mem \<Rightarrow> mem" where
  "copy_byte d s i m = m(d + of_nat i := m (s + of_nat i))"

definition internal_memcpy :: "mem \<Rightarrow> rvp_addr \<Rightarrow> rvp_addr \<Rightarrow> nat \<Rightarrow> mem" where
  "internal_memcpy m d s n = fold (copy_byte d s) [0..<n] m"

definition internal_memmove :: "mem \<Rightarrow> rvp_addr \<Rightarrow> rvp_addr \<Rightarrow> nat \<Rightarrow> mem" where
  "internal_memmove m d s n =
     (if d < s then fold (copy_byte d s) [0..<n] m
      else if s < d then fold (\<lambda>i. copy_byte d s (n - 1 - i)) [0..<n] m
      else m)"

definition internal_memset :: "mem \<Rightarrow> rvp_addr \<Rightarrow> u32 \<Rightarrow> nat \<Rightarrow> mem" where
  "internal_memset m s c n = fold (\<lambda>i m. m(s + of_nat i := ucast c)) [0..<n] m"

section \<open>Moving memory and logging it\<close>

text \<open>
  \<open>for (width = sizeof(uint64_t); width > 1; width /= 2)\<close>: the widest access that fits in
  \<open>n\<close> bytes and is aligned.
\<close>

fun pick_width :: "(nat \<Rightarrow> bool) \<Rightarrow> nat \<Rightarrow> nat \<Rightarrow> nat" where
  "pick_width aligned n width =
     (if width \<le> 1 then width
      else if n < width then pick_width aligned n (width div 2)
      else if aligned width then width
      else pick_width aligned n (width div 2))"

declare pick_width.simps [simp del]

definition aligned_to :: "rvp_addr \<Rightarrow> nat \<Rightarrow> bool" where
  "aligned_to a width \<longleftrightarrow> unat a mod width = 0"

text \<open>The body of the copying loop: the four cases of \<open>switch (width)\<close>.\<close>

definition memmove_step ::
    "rvp_rt \<Rightarrow> u64 \<Rightarrow> nat \<Rightarrow> rvp_addr \<Rightarrow> rvp_addr \<Rightarrow> mem \<times> rvp_env \<Rightarrow> (mem \<times> rvp_env) cres" where
  "memmove_step c ra width from to = (\<lambda>(m, e).
     if width = 1 then
       (let val = (mem_read 1 m from :: u8) in
        cbind (trace_load c ra RVP_OP_LOAD1 from (ucast val) e) (\<lambda>e.
        cbind (trace_store c ra RVP_OP_STORE1 to (ucast val) e) (\<lambda>e.
        Inr (mem_write 1 m to val, e))))
     else if width = 2 then
       (let val = (mem_read 2 m from :: u16) in
        cbind (trace_load c ra RVP_OP_LOAD2 from (ucast val) e) (\<lambda>e.
        cbind (trace_store c ra RVP_OP_STORE2 to (ucast val) e) (\<lambda>e.
        Inr (mem_write 2 m to val, e))))
     else if width = 4 then
       (let val = (mem_read 4 m from :: u32) in
        cbind (trace_load c ra RVP_OP_LOAD4 from val e) (\<lambda>e.
        cbind (trace_store c ra RVP_OP_STORE4 to val e) (\<lambda>e.
        Inr (mem_write 4 m to val, e))))
     else if width = 8 then
       (let val = (mem_read 8 m from :: u64) in
        cbind (trace_load8 c ra RVP_OP_LOAD8 from val e) (\<lambda>e.
        cbind (trace_store8 c ra RVP_OP_STORE8 to val e) (\<lambda>e.
        Inr (mem_write 8 m to val, e))))
     else Inr (m, e))"

text \<open>
  The loop over the whole words, \<open>k\<close> of them left; \<open>astep\<close> is added to both addresses. The
  result holds the addresses after the loop.
\<close>

fun memmove_loop ::
    "rvp_rt \<Rightarrow> u64 \<Rightarrow> nat \<Rightarrow> u64 \<Rightarrow> nat \<Rightarrow> rvp_addr \<Rightarrow> rvp_addr \<Rightarrow> mem \<times> rvp_env \<Rightarrow>
     (rvp_addr \<times> rvp_addr \<times> mem \<times> rvp_env) cres" where
    "memmove_loop c ra width astep 0 from to s = Inr (from, to, s)"
  | "memmove_loop c ra width astep (Suc k) from to s =
       cbind (memmove_step c ra width from to s)
         (memmove_loop c ra width astep k (from + astep) (to + astep))"

lemma pick_width_8: "pick_width al n 8 \<in> {1, 2, 4, 8}" "pick_width al n 8 = 1 \<or> pick_width al n 8 \<le> n"
  by (auto simp: pick_width.simps)

lemma pick_width_rest: "0 < n \<Longrightarrow> 0 < rounddown n (pick_width al n 8)"
  using pick_width_8 [of al n] by (intro rounddown_pos) auto

function rvpredict_memmove1 ::
    "rvp_rt \<Rightarrow> u64 \<Rightarrow> rvp_addr \<Rightarrow> rvp_addr \<Rightarrow> nat \<Rightarrow> mem \<times> rvp_env \<Rightarrow> (mem \<times> rvp_env) cres" where
  "rvpredict_memmove1 c ra dst src n s =
     (let backwards = (src < dst \<and> src + of_nat n > dst);
          (from, to) = (if backwards then (src + of_nat n, dst + of_nat n) else (src, dst));
          width = pick_width (\<lambda>w. aligned_to to w \<and> aligned_to from w) n 8;
          (from, to, astep) =
            (if backwards then (from - of_nat width, to - of_nat width, - of_nat width)
             else (from, to, of_nat width));
          nwhole = rounddown n width
      in case memmove_loop c ra width astep (nwhole div width) from to s of
           Inl x \<Rightarrow> Inl x
         | Inr (from, to, s) \<Rightarrow>
             if nwhole = n then Inr s
             else if backwards then rvpredict_memmove1 c ra dst src (n - nwhole) s
             else rvpredict_memmove1 c ra to from (n - nwhole) s)"
  by auto
termination
proof (relation "measure (\<lambda>(_, _, _, _, n, _). n)", goal_cases)
  case (2 c ra dst src n s)
  then show ?case using pick_width_rest [of n] by (cases "n = 0") (auto simp: rounddown_def)
next
  case (3 c ra dst src n s)
  then show ?case using pick_width_rest [of n] by (cases "n = 0") (auto simp: rounddown_def)
qed simp

declare rvpredict_memmove1.simps [simp del]

text \<open>\<open>memset\<close> stores the low byte of \<open>c\<close> in all eight bytes of the union.\<close>

definition memset_value :: "u32 \<Rightarrow> u64" where
  "memset_value c = ucast c AND 0xff OR push_bit 8 (ucast c AND 0xff) OR push_bit 16 (ucast c AND 0xff) OR
     push_bit 24 (ucast c AND 0xff) OR push_bit 32 (ucast c AND 0xff) OR push_bit 40 (ucast c AND 0xff) OR
     push_bit 48 (ucast c AND 0xff) OR push_bit 56 (ucast c AND 0xff)"

definition memset_step ::
    "rvp_rt \<Rightarrow> u64 \<Rightarrow> nat \<Rightarrow> rvp_addr \<Rightarrow> u64 \<Rightarrow> mem \<times> rvp_env \<Rightarrow> (mem \<times> rvp_env) cres" where
  "memset_step c ra width to u = (\<lambda>(m, e).
     if width = 1 then
       cbind (trace_store c ra RVP_OP_STORE1 to (ucast (ucast u :: u8)) e) (\<lambda>e.
       Inr (mem_write 1 m to (ucast u :: u8), e))
     else if width = 2 then
       cbind (trace_store c ra RVP_OP_STORE2 to (ucast (ucast u :: u16)) e) (\<lambda>e.
       Inr (mem_write 2 m to (ucast u :: u16), e))
     else if width = 4 then
       cbind (trace_store c ra RVP_OP_STORE4 to (ucast u) e) (\<lambda>e.
       Inr (mem_write 4 m to (ucast u :: u32), e))
     else if width = 8 then
       cbind (trace_store8 c ra RVP_OP_STORE8 to u e) (\<lambda>e.
       Inr (mem_write 8 m to u, e))
     else Inr (m, e))"

fun memset_loop ::
    "rvp_rt \<Rightarrow> u64 \<Rightarrow> nat \<Rightarrow> nat \<Rightarrow> rvp_addr \<Rightarrow> u64 \<Rightarrow> mem \<times> rvp_env \<Rightarrow>
     (rvp_addr \<times> mem \<times> rvp_env) cres" where
    "memset_loop c ra width 0 to u s = Inr (to, s)"
  | "memset_loop c ra width (Suc k) to u s =
       cbind (memset_step c ra width to u s) (memset_loop c ra width k (to + of_nat width) u)"

function rvpredict_memset1 ::
    "rvp_rt \<Rightarrow> u64 \<Rightarrow> rvp_addr \<Rightarrow> u32 \<Rightarrow> nat \<Rightarrow> mem \<times> rvp_env \<Rightarrow> (mem \<times> rvp_env) cres" where
  "rvpredict_memset1 c ra dst v n s =
     (let u = memset_value v;
          width = pick_width (aligned_to dst) n 8;
          nwhole = rounddown n width
      in case memset_loop c ra width (nwhole div width) dst u s of
           Inl x \<Rightarrow> Inl x
         | Inr (to, s) \<Rightarrow>
             if nwhole = n then Inr s
             else rvpredict_memset1 c ra to v (n - nwhole) s)"
  by auto
termination
proof (relation "measure (\<lambda>(_, _, _, _, n, _). n)", goal_cases)
  case (2 c ra dst v n s)
  then show ?case using pick_width_rest [of n] by (cases "n = 0") (auto simp: rounddown_def)
qed simp

declare rvpredict_memset1.simps [simp del]

section \<open>The replacements of the library's functions\<close>

text \<open>
  A call from the runtime's own code, or before the runtime is initialised, goes to the C
  library: \<open>memcpy\<close> between overlapping regions is undefined there.
\<close>

definition instruction_is_in_rvpredict :: "u64 \<times> u64 \<Rightarrow> u64 \<Rightarrow> bool" where
  "instruction_is_in_rvpredict text ra \<longleftrightarrow> fst text \<le> ra \<and> ra \<le> snd text"

definition libc_memcpy :: "mem \<Rightarrow> rvp_addr \<Rightarrow> rvp_addr \<Rightarrow> nat \<Rightarrow> mem cres" where
  "libc_memcpy m d s n =
     (if unat (s - d) < n \<or> unat (d - s) < n then Inl Undefined else Inr (blit m d s n))"

definition rvpredict_memcpy ::
    "rvp_rt \<Rightarrow> u64 \<times> u64 \<Rightarrow> u64 \<Rightarrow> rvp_addr \<Rightarrow> rvp_addr \<Rightarrow> nat \<Rightarrow> mem \<times> rvp_env \<Rightarrow> (mem \<times> rvp_env) cres" where
  "rvpredict_memcpy c text ra dst src n = (\<lambda>(m, e).
     if \<not> rt_operational c \<or> instruction_is_in_rvpredict text ra
     then cbind (libc_memcpy m dst src n) (\<lambda>m. Inr (m, e))
     else rvpredict_memmove1 c ra dst src n (m, e))"

definition rvpredict_memmove ::
    "rvp_rt \<Rightarrow> u64 \<times> u64 \<Rightarrow> u64 \<Rightarrow> rvp_addr \<Rightarrow> rvp_addr \<Rightarrow> nat \<Rightarrow> mem \<times> rvp_env \<Rightarrow> (mem \<times> rvp_env) cres" where
  "rvpredict_memmove c text ra dst src n = (\<lambda>(m, e).
     if \<not> rt_operational c \<or> instruction_is_in_rvpredict text ra
     then Inr (blit m dst src n, e)
     else rvpredict_memmove1 c ra dst src n (m, e))"

definition rvpredict_memset ::
    "rvp_rt \<Rightarrow> u64 \<times> u64 \<Rightarrow> u64 \<Rightarrow> rvp_addr \<Rightarrow> u32 \<Rightarrow> nat \<Rightarrow> mem \<times> rvp_env \<Rightarrow> (mem \<times> rvp_env) cres" where
  "rvpredict_memset c text ra dst v n = (\<lambda>(m, e).
     if \<not> rt_operational c \<or> instruction_is_in_rvpredict text ra
     then Inr (fill m dst (ucast v) n, e)
     else rvpredict_memset1 c ra dst v n (m, e))"

section \<open>Tracing never fails\<close>

definition env_good :: "rvp_env \<Rightarrow> bool" where
  "env_good e \<longleftrightarrow> env_ok e \<and> 20 \<le> r_last (e_ring e)"

lemma icall_run_waits:
  assumes "deltops_fit (rt_base c)" "rt_operational c" "icall_ok c call" "env_good e"
  shows "waits_or env_good (icall_run c ra call e)"
proof (cases "icall_run c ra call e")
  case (Inl x)
  then show ?thesis using icall_run_fails_waiting [OF assms(1-3) _ _ Inl] assms(4) by (simp add: env_good_def)
next
  case (Inr e')
  then show ?thesis using icall_run_history [OF assms(1-3) _ _ Inr] assms(4) by (auto simp: env_good_def Let_def)
qed

lemma trace_waits:
  assumes c: "deltops_fit (rt_base c)" "rt_operational c" and e: "env_good e"
  shows "op \<in> {RVP_OP_LOAD1, RVP_OP_LOAD2, RVP_OP_LOAD4} \<Longrightarrow> waits_or env_good (trace_load c ra op a v e)"
    "op \<in> {RVP_OP_STORE1, RVP_OP_STORE2, RVP_OP_STORE4} \<Longrightarrow> waits_or env_good (trace_store c ra op a v e)"
    "waits_or env_good (trace_load8 c ra RVP_OP_LOAD8 a w e)"
    "waits_or env_good (trace_store8 c ra RVP_OP_STORE8 a w e)"
proof -
  have cov: "trace_load c ra op a v e = Inr e" "trace_store c ra op a v e = Inr e"
    "trace_load8 c ra RVP_OP_LOAD8 a w e = Inr e" "trace_store8 c ra RVP_OP_STORE8 a w e = Inr e"
    if "data_is_in_coverage c a"
    using that by (simp_all add: trace_load_def trace_store_def trace_load8_def trace_store8_def)
  note run = icall_run_waits [OF c _ e, of _ ra]
  show "op \<in> {RVP_OP_LOAD1, RVP_OP_LOAD2, RVP_OP_LOAD4} \<Longrightarrow> waits_or env_good (trace_load c ra op a v e)"
    using run [of "CLoad op a v"] cov(1) e by (cases "data_is_in_coverage c a") auto
  show "op \<in> {RVP_OP_STORE1, RVP_OP_STORE2, RVP_OP_STORE4} \<Longrightarrow> waits_or env_good (trace_store c ra op a v e)"
    using run [of "CStore op a v"] cov(2) e by (cases "data_is_in_coverage c a") auto
  show "waits_or env_good (trace_load8 c ra RVP_OP_LOAD8 a w e)"
    using run [of "CLoad8 RVP_OP_LOAD8 a w"] cov(3) e by (cases "data_is_in_coverage c a") auto
  show "waits_or env_good (trace_store8 c ra RVP_OP_STORE8 a w e)"
    using run [of "CStore8 RVP_OP_STORE8 a w"] cov(4) e by (cases "data_is_in_coverage c a") auto
qed

section \<open>The copy\<close>

lemma move_waits:
  assumes c: "deltops_fit (rt_base c)" "rt_operational c" and e: "env_good e"
  shows "l \<in> {RVP_OP_LOAD1, RVP_OP_LOAD2, RVP_OP_LOAD4} \<Longrightarrow>
      st \<in> {RVP_OP_STORE1, RVP_OP_STORE2, RVP_OP_STORE4} \<Longrightarrow>
      waits_or (\<lambda>(m', e'). m' = m \<and> env_good e')
        (cbind (trace_load c ra l a v e) (\<lambda>e. cbind (trace_store c ra st b v e) (\<lambda>e. Inr (m, e))))"
    "waits_or (\<lambda>(m', e'). m' = m \<and> env_good e')
        (cbind (trace_load8 c ra RVP_OP_LOAD8 a w e) (\<lambda>e.
         cbind (trace_store8 c ra RVP_OP_STORE8 b w e) (\<lambda>e. Inr (m, e))))"
    "st \<in> {RVP_OP_STORE1, RVP_OP_STORE2, RVP_OP_STORE4} \<Longrightarrow>
      waits_or (\<lambda>(m', e'). m' = m \<and> env_good e') (cbind (trace_store c ra st b v e) (\<lambda>e. Inr (m, e)))"
    "waits_or (\<lambda>(m', e'). m' = m \<and> env_good e')
        (cbind (trace_store8 c ra RVP_OP_STORE8 b w e) (\<lambda>e. Inr (m, e)))"
  by (rule waits_or_cbind [where Q = env_good] trace_waits [OF c] e | assumption | simp)+

lemma memmove_step_blit:
  assumes c: "deltops_fit (rt_base c)" "rt_operational c" and e: "env_good e" and w: "width \<in> {1, 2, 4, 8}"
  shows "waits_or (\<lambda>(m', e'). m' = blit m to from width \<and> env_good e') (memmove_step c ra width from to (m, e))"
proof -
  have b: "mem_write 1 m to (mem_read 1 m from :: u8) = blit m to from 1"
    "mem_write 2 m to (mem_read 2 m from :: u16) = blit m to from 2"
    "mem_write 4 m to (mem_read 4 m from :: u32) = blit m to from 4"
    "mem_write 8 m to (mem_read 8 m from :: u64) = blit m to from 8"
    by (rule write_read_blit, simp)+
  show ?thesis
    using w by (elim insertE emptyE)
      (simp_all only: memmove_step_def Let_def split_conv b simp_thms if_True if_False numeral_eq_iff
        numeral_eq_one_iff one_eq_numeral_iff num.distinct num.inject move_waits [OF c e] insert_iff)
qed

lemma memmove_loop_forward:
  assumes c: "deltops_fit (rt_base c)" "rt_operational c" and w: "width \<in> {1, 2, 4, 8}"
    and n: "unat dst + n < 2 ^ 64" "unat src + n < 2 ^ 64" "unat dst \<le> unat src \<or> unat src + n \<le> unat dst"
  shows "env_good e \<Longrightarrow> j + k * width \<le> n \<Longrightarrow>
    waits_or (\<lambda>(f, t, m', e'). f = src + of_nat (j + k * width) \<and> t = dst + of_nat (j + k * width) \<and>
        m' = blit m dst src (j + k * width) \<and> env_good e')
      (memmove_loop c ra width (of_nat width) k (src + of_nat j) (dst + of_nat j) (blit m dst src j, e))"
proof (induction k arbitrary: j e)
  case (Suc k)
  have step: "blit (blit m dst src j) (dst + of_nat j) (src + of_nat j) width = blit m dst src (j + width)"
    using n Suc.prems(2) by (intro blit_forward) auto
  have a: "a + of_nat j + of_nat width = a + of_nat (j + width)" for a :: u64 by simp
  have s: "j + Suc k * width = (j + width) + k * width" by simp
  show ?case
    unfolding memmove_loop.simps s
  proof (rule waits_or_cbind [OF memmove_step_blit [OF c Suc.prems(1) w]], clarify)
    fix m' e'
    assume e': "env_good e'"
    show "waits_or (\<lambda>(f, t, m', e'). f = src + of_nat (j + width + k * width) \<and>
         t = dst + of_nat (j + width + k * width) \<and> m' = blit m dst src (j + width + k * width) \<and> env_good e')
       (memmove_loop c ra width (of_nat width) k (src + of_nat j + of_nat width) (dst + of_nat j + of_nat width)
         (blit (blit m dst src j) (dst + of_nat j) (src + of_nat j) width, e'))"
      unfolding step a by (rule Suc.IH [OF e']) (use Suc.prems(2) in simp)
  qed
qed simp

lemma memmove_loop_backward:
  assumes c: "deltops_fit (rt_base c)" "rt_operational c" and w: "width \<in> {1, 2, 4, 8}"
    and n: "unat dst + n < 2 ^ 64" "unat src + n < 2 ^ 64" "unat src \<le> unat dst"
  shows "env_good e \<Longrightarrow> r + k * width + j = n \<Longrightarrow>
    waits_or (\<lambda>(f, t, m', e'). m' = blit m (dst + of_nat r) (src + of_nat r) (k * width + j) \<and> env_good e')
      (memmove_loop c ra width (- of_nat width) k (src + of_nat (r + k * width) - of_nat width)
        (dst + of_nat (r + k * width) - of_nat width)
        (blit m (dst + of_nat (r + k * width)) (src + of_nat (r + k * width)) j, e))"
proof (induction k arbitrary: j e)
  case (Suc k)
  let ?d = "dst + of_nat (r + k * width)" and ?s = "src + of_nat (r + k * width)"
  have l: "of_nat (r + Suc k * width) = (of_nat (r + k * width) + of_nat width :: u64)"
    by (metis add.assoc add.commute mult_Suc of_nat_add)
  have a: "a + of_nat (r + Suc k * width) = a + of_nat (r + k * width) + of_nat width"
    "a + of_nat (r + k * width) + of_nat width - of_nat width = a + of_nat (r + k * width)"
    "a + of_nat (r + k * width) + - of_nat width = a + of_nat (r + k * width) - of_nat width" for a :: u64
    unfolding l by (simp_all only: add.assoc [symmetric] add_diff_cancel_right' diff_conv_add_uminus [symmetric])
  have le: "r + k * width + width + j = n" using Suc.prems(2) by (simp only: mult_Suc add.commute add.left_commute)
  have u: "unat ?d = unat dst + (r + k * width)" "unat ?s = unat src + (r + k * width)"
    using n(1,2) le by (intro unat_add_nat; linarith)+
  have step: "blit (blit m (?d + of_nat width) (?s + of_nat width) j) ?d ?s width = blit m ?d ?s (width + j)"
    using n le by (intro blit_backward; unfold u; linarith)
  show ?case
    unfolding memmove_loop.simps a
  proof (rule waits_or_cbind [OF memmove_step_blit [OF c Suc.prems(1) w]], clarify)
    fix e'
    assume e': "env_good e'"
    have s: "Suc k * width + j = k * width + (width + j)" by simp
    show "waits_or (\<lambda>(f, t, m', e'). m' = blit m (dst + of_nat r) (src + of_nat r) (Suc k * width + j) \<and> env_good e')
       (memmove_loop c ra width (- of_nat width) k (?s - of_nat width) (?d - of_nat width)
         (blit (blit m (?d + of_nat width) (?s + of_nat width) j) ?d ?s width, e'))"
      unfolding step s by (rule Suc.IH [OF e']) (use le in linarith)
  qed
qed simp

lemma whole_words: "rounddown n w div w * w = rounddown n w"
  by (simp add: rounddown_def)

lemma memmove1_blit:
  assumes c: "deltops_fit (rt_base c)" "rt_operational c"
  shows "env_good e \<Longrightarrow> unat dst + n < 2 ^ 64 \<Longrightarrow> unat src + n < 2 ^ 64 \<Longrightarrow>
    waits_or (\<lambda>(m', e'). m' = blit m dst src n \<and> env_good e') (rvpredict_memmove1 c ra dst src n (m, e))"
proof (induction n arbitrary: dst src m e rule: less_induct)
  case (less n)
  note n = less.prems(2,3)
  define bw where "bw \<longleftrightarrow> src < dst \<and> src + of_nat n > dst"
  have bw: "bw \<longleftrightarrow> unat src < unat dst \<and> unat dst < unat src + n"
    unfolding bw_def word_less_nat_alt unat_add_nat [OF n(2)] ..
  define f t where ft: "f = (if bw then src + of_nat n else src)" "t = (if bw then dst + of_nat n else dst)"
  define w where "w = pick_width (\<lambda>w. aligned_to t w \<and> aligned_to f w) n 8"
  have w: "w \<in> {1, 2, 4, 8}" unfolding w_def by (rule pick_width_8)
  define nw where "nw = rounddown n w"
  have nw: "nw div w * w = nw" "nw \<le> n" by (simp_all add: nw_def whole_words)
  have rest: "n - nw < n" if "nw \<noteq> n"
    using that pick_width_rest [of n] nw(2) unfolding nw_def w_def by (cases "n = 0") simp_all
  show ?case
  proof (cases bw)
    case True
    have eq: "rvpredict_memmove1 c ra dst src n (m, e) =
      cbind (memmove_loop c ra w (- of_nat w) (nw div w) (src + of_nat n - of_nat w) (dst + of_nat n - of_nat w) (m, e))
        (\<lambda>(f, t, s). if nw = n then Inr s else rvpredict_memmove1 c ra dst src (n - nw) s)"
      by (subst rvpredict_memmove1.simps)
         (use True ft in \<open>simp add: bw_def w_def nw_def Let_def cbind_def split: sum.split\<close>)
    have r: "(n - nw) + nw div w * w + 0 = n" using nw by simp
    have loop: "waits_or (\<lambda>(f, t, m', e'). m' = blit m (dst + of_nat (n - nw)) (src + of_nat (n - nw)) nw \<and> env_good e')
      (memmove_loop c ra w (- of_nat w) (nw div w) (src + of_nat n - of_nat w) (dst + of_nat n - of_nat w) (m, e))"
      using memmove_loop_backward [OF c w n _ less.prems(1) r, of m ra] True bw nw by simp
    show ?thesis
      unfolding eq
    proof (rule waits_or_cbind [OF loop], clarify)
      fix e'
      assume e': "env_good e'"
      let ?m = "blit m (dst + of_nat (n - nw)) (src + of_nat (n - nw)) nw"
      have "blit ?m dst src (n - nw) = blit m dst src (n - nw + nw)"
        using n True bw nw(2) by (intro blit_backward) simp_all
      then show "waits_or (\<lambda>(m', e'). m' = blit m dst src n \<and> env_good e')
          (if nw = n then Inr (?m, e') else rvpredict_memmove1 c ra dst src (n - nw) (?m, e'))"
        using less.IH [OF rest e', of dst src ?m] n nw(2) e' by simp
    qed
  next
    case False
    have eq: "rvpredict_memmove1 c ra dst src n (m, e) =
      cbind (memmove_loop c ra w (of_nat w) (nw div w) src dst (m, e))
        (\<lambda>(f, t, s). if nw = n then Inr s else rvpredict_memmove1 c ra t f (n - nw) s)"
      by (subst rvpredict_memmove1.simps)
         (use False ft in \<open>simp only: bw_def [symmetric] w_def nw_def Let_def cbind_def if_False split_conv
            split_def fst_conv snd_conv\<close>)
    have dis: "unat dst \<le> unat src \<or> unat src + n \<le> unat dst" using False bw by auto
    have loop: "waits_or (\<lambda>(f, t, m', e'). f = src + of_nat nw \<and> t = dst + of_nat nw \<and>
        m' = blit m dst src nw \<and> env_good e')
      (memmove_loop c ra w (of_nat w) (nw div w) src dst (m, e))"
      using memmove_loop_forward [OF c w n dis less.prems(1), of 0 "nw div w" m ra] nw by simp
    show ?thesis
      unfolding eq
    proof (rule waits_or_cbind [OF loop], clarify)
      fix e'
      assume e': "env_good e'"
      let ?m = "blit m dst src nw"
      have u: "unat (dst + of_nat nw) = unat dst + nw" "unat (src + of_nat nw) = unat src + nw"
        using n nw(2) by (intro unat_add_nat; simp)+
      have "blit ?m (dst + of_nat nw) (src + of_nat nw) (n - nw) = blit m dst src (nw + (n - nw))"
        using n dis nw(2) by (intro blit_forward) simp_all
      then show "waits_or (\<lambda>(m', e'). m' = blit m dst src n \<and> env_good e')
          (if nw = n then Inr (?m, e') else rvpredict_memmove1 c ra (dst + of_nat nw) (src + of_nat nw) (n - nw) (?m, e'))"
        using less.IH [OF rest e', of "dst + of_nat nw" "src + of_nat nw" ?m] n nw(2) e' u by simp
    qed
  qed
qed

section \<open>The fill\<close>

lemma bit_memset_value:
  assumes "k < 8" "j < 8"
  shows "bit (memset_value v) (8 * k + j) \<longleftrightarrow> bit (ucast v :: u8) j"
proof -
  have m: "bit (ucast v AND 0xff :: u64) i \<longleftrightarrow> i < 8 \<and> bit v i" for i
  proof -
    have "(0xff :: u64) = mask 8" by (simp add: mask_eq_exp_minus_1)
    then show ?thesis by (simp only: bit_and_iff bit_mask_iff) (auto simp: bit_simps)
  qed
  have "k = 0 \<or> k = 1 \<or> k = 2 \<or> k = 3 \<or> k = 4 \<or> k = 5 \<or> k = 6 \<or> k = 7" using assms(1) by arith
  then show ?thesis
    using assms(2) unfolding memset_value_def
    by (elim disjE) (simp_all only: bit_or_iff bit_push_bit_iff m, auto simp: bit_simps)
qed

lemma write_memset_value:
  assumes "n \<le> 8" "8 * n \<le> LENGTH('a)"
  shows "mem_write n m d (ucast (memset_value v) :: 'a::len word) = fill m d (ucast v) n"
proof
  fix x
  show "mem_write n m d (ucast (memset_value v) :: 'a word) x = fill m d (ucast v) n x"
  proof (cases "unat (x - d) < n")
    case True
    have "ucast (drop_bit (8 * unat (x - d)) (ucast (memset_value v) :: 'a word)) = (ucast v :: u8)"
    proof (rule bit_word_eqI)
      fix j
      assume j: "j < LENGTH(8)"
      have k: "unat (x - d) < 8" "8 * unat (x - d) + j < 8 * n" "j < 8" using True assms(1) j by simp_all
      show "bit (ucast (drop_bit (8 * unat (x - d)) (ucast (memset_value v) :: 'a word)) :: u8) j
          \<longleftrightarrow> bit (ucast v :: u8) j"
        using bit_memset_value [OF k(1,3), of v] k assms
        by (simp add: bit_unsigned_iff bit_drop_bit_eq)
    qed
    then show ?thesis using True by (simp add: mem_write_def fill_def)
  qed (simp add: mem_write_def fill_def)
qed

lemma memset_step_fill:
  assumes c: "deltops_fit (rt_base c)" "rt_operational c" and e: "env_good e" and w: "width \<in> {1, 2, 4, 8}"
  shows "waits_or (\<lambda>(m', e'). m' = fill m to (ucast v) width \<and> env_good e')
    (memset_step c ra width to (memset_value v) (m, e))"
proof -
  have b: "mem_write 1 m to (ucast (memset_value v) :: u8) = fill m to (ucast v) 1"
    "mem_write 2 m to (ucast (memset_value v) :: u16) = fill m to (ucast v) 2"
    "mem_write 4 m to (ucast (memset_value v) :: u32) = fill m to (ucast v) 4"
    "mem_write 8 m to (memset_value v) = fill m to (ucast v) 8"
    subgoal by (rule write_memset_value) simp_all
    subgoal by (rule write_memset_value) simp_all
    subgoal by (rule write_memset_value) simp_all
    subgoal using write_memset_value [where 'a = 64, of 8 m to v] by simp
    done
  show ?thesis
    using w by (elim insertE emptyE)
      (simp_all only: memset_step_def split_conv b simp_thms if_True if_False numeral_eq_iff
        numeral_eq_one_iff one_eq_numeral_iff num.distinct num.inject move_waits [OF c e] insert_iff)
qed

lemma memset_loop_fill:
  assumes c: "deltops_fit (rt_base c)" "rt_operational c" and w: "width \<in> {1, 2, 4, 8}"
    and n: "unat dst + n < 2 ^ 64"
  shows "env_good e \<Longrightarrow> j + k * width \<le> n \<Longrightarrow>
    waits_or (\<lambda>(t, m', e'). t = dst + of_nat (j + k * width) \<and>
        m' = fill m dst (ucast v) (j + k * width) \<and> env_good e')
      (memset_loop c ra width k (dst + of_nat j) (memset_value v) (fill m dst (ucast v) j, e))"
proof (induction k arbitrary: j e)
  case (Suc k)
  have step: "fill (fill m dst (ucast v) j) (dst + of_nat j) (ucast v) width = fill m dst (ucast v) (j + width)"
    using n Suc.prems(2) by (intro fill_append) auto
  have a: "dst + of_nat j + of_nat width = dst + of_nat (j + width)" by simp
  have s: "j + Suc k * width = (j + width) + k * width" by simp
  show ?case
    unfolding memset_loop.simps s
  proof (rule waits_or_cbind [OF memset_step_fill [OF c Suc.prems(1) w]], clarify)
    fix e'
    assume e': "env_good e'"
    show "waits_or (\<lambda>(t, m', e'). t = dst + of_nat (j + width + k * width) \<and>
         m' = fill m dst (ucast v) (j + width + k * width) \<and> env_good e')
       (memset_loop c ra width k (dst + of_nat j + of_nat width) (memset_value v)
         (fill (fill m dst (ucast v) j) (dst + of_nat j) (ucast v) width, e'))"
      unfolding step a by (rule Suc.IH [OF e']) (use Suc.prems(2) in simp)
  qed
qed simp

lemma memset1_fill:
  assumes c: "deltops_fit (rt_base c)" "rt_operational c"
  shows "env_good e \<Longrightarrow> unat dst + n < 2 ^ 64 \<Longrightarrow>
    waits_or (\<lambda>(m', e'). m' = fill m dst (ucast v) n \<and> env_good e') (rvpredict_memset1 c ra dst v n (m, e))"
proof (induction n arbitrary: dst m e rule: less_induct)
  case (less n)
  note n = less.prems(2)
  define w where "w = pick_width (aligned_to dst) n 8"
  have w: "w \<in> {1, 2, 4, 8}" unfolding w_def by (rule pick_width_8)
  define nw where "nw = rounddown n w"
  have nw: "nw div w * w = nw" "nw \<le> n" by (simp_all add: nw_def whole_words)
  have rest: "n - nw < n" if "nw \<noteq> n"
    using that pick_width_rest [of n] nw(2) unfolding nw_def w_def by (cases "n = 0") simp_all
  have eq: "rvpredict_memset1 c ra dst v n (m, e) =
      cbind (memset_loop c ra w (nw div w) dst (memset_value v) (m, e))
        (\<lambda>(t, s). if nw = n then Inr s else rvpredict_memset1 c ra t v (n - nw) s)"
    by (subst rvpredict_memset1.simps) (simp only: w_def nw_def Let_def cbind_def split_def)
  have loop: "waits_or (\<lambda>(t, m', e'). t = dst + of_nat nw \<and> m' = fill m dst (ucast v) nw \<and> env_good e')
      (memset_loop c ra w (nw div w) dst (memset_value v) (m, e))"
    using memset_loop_fill [OF c w n less.prems(1), of 0 "nw div w" m v ra] nw by simp
  show ?case
    unfolding eq
  proof (rule waits_or_cbind [OF loop], clarify)
    fix e'
    assume e': "env_good e'"
    let ?m = "fill m dst (ucast v) nw"
    have u: "unat (dst + of_nat nw) = unat dst + nw" using n nw(2) by (intro unat_add_nat) simp
    have "fill ?m (dst + of_nat nw) (ucast v) (n - nw) = fill m dst (ucast v) (nw + (n - nw))"
      using n nw(2) by (intro fill_append) simp
    then show "waits_or (\<lambda>(m', e'). m' = fill m dst (ucast v) n \<and> env_good e')
        (if nw = n then Inr (?m, e') else rvpredict_memset1 c ra (dst + of_nat nw) v (n - nw) (?m, e'))"
      using less.IH [OF rest e', of "dst + of_nat nw" ?m] n nw(2) e' u by simp
  qed
qed

section \<open>The plain functions copy and fill\<close>

lemma copy_byte_blit: "copy_byte d s i m = blit m (d + of_nat i) (s + of_nat i) 1"
proof
  fix x
  have "unat (x - (d + of_nat i)) < 1 \<longleftrightarrow> x = d + of_nat i"
    by (metis less_one right_minus_eq unat_0 unat_eq_zero)
  then show "copy_byte d s i m x = blit m (d + of_nat i) (s + of_nat i) 1 x"
    by (auto simp: copy_byte_def blit_def)
qed

lemma fold_copy_forward:
  assumes "unat d + n < 2 ^ 64" "unat s + n < 2 ^ 64" "unat d \<le> unat s \<or> unat s + n \<le> unat d"
  shows "k \<le> n \<Longrightarrow> fold (copy_byte d s) [0..<k] m = blit m d s k"
proof (induction k)
  case (Suc k)
  have "blit (blit m d s k) (d + of_nat k) (s + of_nat k) 1 = blit m d s (k + 1)"
    using assms Suc.prems by (intro blit_forward) auto
  with Suc show ?case by (simp add: copy_byte_blit)
qed simp

lemma fold_copy_backward:
  assumes "unat d + n < 2 ^ 64" "unat s + n < 2 ^ 64" "unat s \<le> unat d"
  shows "k \<le> n \<Longrightarrow> fold (\<lambda>i. copy_byte d s (n - 1 - i)) [0..<k] m =
     blit m (d + of_nat (n - k)) (s + of_nat (n - k)) k"
proof (induction k)
  case (Suc k)
  define r where "r = n - Suc k"
  have r: "n - k = r + 1" "n - 1 - k = r" using Suc.prems by (simp_all add: r_def)
  have u: "unat (d + of_nat r) = unat d + r" "unat (s + of_nat r) = unat s + r"
    using assms Suc.prems by (intro unat_add_nat; simp add: r_def)+
  have "r + (1 + k) = n" using Suc.prems by (simp add: r_def)
  then have "blit (blit m (d + of_nat r + of_nat 1) (s + of_nat r + of_nat 1) k) (d + of_nat r) (s + of_nat r) 1 =
      blit m (d + of_nat r) (s + of_nat r) (1 + k)"
    using assms by (intro blit_backward; unfold u; linarith)
  with Suc show ?case
    by (simp only: upt_Suc_append zero_le fold_append fold_simps comp_apply copy_byte_blit r
        r_def [symmetric] Suc_leD of_nat_add add.assoc plus_1_eq_Suc)
qed simp

lemma internal_memcpy_blit:
  assumes "unat d + n < 2 ^ 64" "unat s + n < 2 ^ 64" "unat d \<le> unat s \<or> unat s + n \<le> unat d"
  shows "internal_memcpy m d s n = blit m d s n"
  using fold_copy_forward [OF assms] by (simp add: internal_memcpy_def)

lemma internal_memset_fill:
  "unat d + n < 2 ^ 64 \<Longrightarrow> internal_memset m d v n = fill m d (ucast v) n"
proof -
  assume n: "unat d + n < 2 ^ 64"
  have "k \<le> n \<Longrightarrow> fold (\<lambda>i m. m(d + of_nat i := ucast v)) [0..<k] m = fill m d (ucast v) k" for k
  proof (induction k)
    case (Suc k)
    have "fill (fill m d (ucast v) k) (d + of_nat k) (ucast v) 1 = fill m d (ucast v) (k + 1)"
      using n Suc.prems by (intro fill_append) simp
    moreover have "m'(a := v) = fill m' a v 1" for m' a v
    proof
      fix x
      have "unat (x - a) < 1 \<longleftrightarrow> x = a" by (metis less_one right_minus_eq unat_0 unat_eq_zero)
      then show "(m'(a := v)) x = fill m' a v 1 x" by (auto simp: fill_def)
    qed
    ultimately show ?case using Suc by simp
  qed simp
  then show ?thesis by (simp add: internal_memset_def)
qed

lemma internal_memmove_blit:
  assumes "unat d + n < 2 ^ 64" "unat s + n < 2 ^ 64"
  shows "internal_memmove m d s n = blit m d s n"
proof -
  consider "d < s" | "s < d" | "s = d" by fastforce
  then show ?thesis
  proof cases
    case 1
    then have "unat d \<le> unat s" by (simp add: word_less_nat_alt)
    then show ?thesis using 1 fold_copy_forward [OF assms, of n m] by (simp add: internal_memmove_def)
  next
    case 2
    then have "unat s \<le> unat d" by (simp add: word_less_nat_alt)
    then show ?thesis using 2 fold_copy_backward [OF assms, of n m] by (auto simp: internal_memmove_def)
  next
    case 3
    then show ?thesis by (simp add: internal_memmove_def blit_def fun_eq_iff)
  qed
qed

section \<open>Properties\<close>

text \<open>
  C13. The traced \<open>memmove\<close> does what a plain \<open>memmove\<close> does: between any two regions of up to
  the end of the address space, however they overlap and are aligned, the memory afterwards is
  that of the byte-by-byte move, which is the copy of the whole source as it was before. The
  loads and stores are logged without an assertion failing; the call can only wait for room.
\<close>

theorem memmove_moves:
  assumes "deltops_fit (rt_base c)" "rt_operational c" "env_good e"
    and "unat dst + n < 2 ^ 64" "unat src + n < 2 ^ 64"
  shows "internal_memmove m dst src n = blit m dst src n \<and>
    waits_or (\<lambda>(m', e'). m' = blit m dst src n \<and> env_good e')
      (rvpredict_memmove c text ra dst src n (m, e))"
  using assms memmove1_blit [OF assms, of m ra] internal_memmove_blit
  by (simp add: rvpredict_memmove_def)

text \<open>
  The traced \<open>memset\<close> sets every byte of the region to the low byte of its argument and no
  other, as the plain one does.
\<close>

lemma memset_sets:
  assumes "deltops_fit (rt_base c)" "rt_operational c" "env_good e" "unat dst + n < 2 ^ 64"
  shows "internal_memset m dst v n = fill m dst (ucast v) n \<and>
    waits_or (\<lambda>(m', e'). m' = fill m dst (ucast v) n \<and> env_good e')
      (rvpredict_memset c text ra dst v n (m, e))"
  using assms memset1_fill [OF assms, of m v ra] internal_memset_fill
  by (simp add: rvpredict_memset_def)

text \<open>
  \<open>memcpy\<close>: a call that is traced copies any two regions, overlapping ones too; one that
  is not traced, from the runtime's own text or before it is initialised, copies disjoint
  regions and changes nothing of the event ring. The plain stand-in copies forward, which is
  right when the target does not start inside the source.
\<close>

lemma memcpy_copies:
  assumes "deltops_fit (rt_base c)" "env_good e" "unat dst + n < 2 ^ 64" "unat src + n < 2 ^ 64"
  shows "if rt_operational c \<and> \<not> instruction_is_in_rvpredict text ra
    then waits_or (\<lambda>(m', e'). m' = blit m dst src n \<and> env_good e') (rvpredict_memcpy c text ra dst src n (m, e))
    else (\<not> unat (src - dst) < n \<longrightarrow> \<not> unat (dst - src) < n \<longrightarrow>
      rvpredict_memcpy c text ra dst src n (m, e) = Inr (internal_memcpy m dst src n, e))"
proof -
  have "internal_memcpy m dst src n = blit m dst src n" if "\<not> unat (dst - src) < n"
  proof -
    have "unat src + n \<le> 2 ^ 64" using assms(4) by simp
    then have "unat dst \<le> unat src \<or> unat src + n \<le> unat dst"
      using that in_region [of src n dst] by linarith
    then show ?thesis by (rule internal_memcpy_blit [OF assms(3,4)])
  qed
  then show ?thesis
    using memmove1_blit [OF assms(1) _ assms(2-4), of m ra]
    by (auto simp: rvpredict_memcpy_def libc_memcpy_def)
qed

definition sample_mem :: mem where "sample_mem a = ucast a"

lemma sample_good: "env_good (sample_env sample_pc 64)"
  using sample_env_ok [of 64 sample_pc] by (simp add: env_good_def sample_env_def)

lemma memmove_moves_witness:
  "waits_or (\<lambda>(m', e'). m' 0x8003 = 0 \<and> m' 0x800c = 9)
     (rvpredict_memmove sample_rt (0, 1) 0x500000 0x8003 0x8000 11 (sample_mem, sample_env sample_pc 64))"
proof -
  have "blit sample_mem 0x8003 0x8000 11 0x8003 = 0" "blit sample_mem 0x8003 0x8000 11 0x800c = 9"
    by (simp_all add: blit_def sample_mem_def)
  then show ?thesis
    using memmove_moves [OF sample_rt_ok sample_good, of "0x8003" 11 "0x8000" sample_mem "(0, 1)" "0x500000"]
    by (auto elim!: waits_or_mono)
qed

lemma memset_sets_witness:
  "waits_or (\<lambda>(m', e'). m' 0x8003 = 7)
     (rvpredict_memset sample_rt (0, 1) 0x500000 0x8003 0x107 11 (sample_mem, sample_env sample_pc 64))"
proof -
  have "fill sample_mem 0x8003 (ucast (0x107 :: u32)) 11 0x8003 = 7" by (simp add: fill_def)
  then show ?thesis
    using memset_sets [OF sample_rt_ok sample_good, of "0x8003" 11 sample_mem "0x107" "(0, 1)" "0x500000"]
    by (auto elim!: waits_or_mono)
qed

lemma memcpy_copies_witness:
  "rvpredict_memcpy sample_rt (0, 0x600000) 0x500000 0x8010 0x8000 11 (sample_mem, sample_env sample_pc 64) =
     Inr (internal_memcpy sample_mem 0x8010 0x8000 11, sample_env sample_pc 64)"
  using memcpy_copies [OF sample_rt_ok(1) sample_good, of "0x8010" 11 "0x8000" "(0, 0x600000)" "0x500000" sample_mem]
  by (simp add: instruction_is_in_rvpredict_def)

end
