(* ===== verification/Template.thy ===== *)
theory Template
  imports Format Io Trace_Roundtrip
begin

text \<open>
  The trace file: its name, made from a template (\<^verbatim>\<open>llvm/ngrt/trace.c\<close>, with the path of the
  program from \<^verbatim>\<open>supervise.c\<close>), how it is opened, its header, and the record that starts the
  trace of a thread. A C string is a string without null characters; what the operating system
  answers is a parameter.
\<close>

section \<open>The path of the program\<close>

text \<open>
  \<open>path_max\<close> is the result of \<open>pathconf(..., _PC_NAME_MAX)\<close>, \<open>link\<close> what the symbolic link
  holds (None: \<open>readlink\<close> failed); \<open>readlink\<close> stores at most \<open>path_max + 1\<close> bytes of it.
\<close>

definition get_binary_path :: "int \<Rightarrow> bool \<Rightarrow> string option \<Rightarrow> string cres" where
  "get_binary_path path_max malloc_ok link =
     (if path_max = -1 then Inl Exited
      else if \<not> malloc_ok then Inl Exited
      else case link of None \<Rightarrow> Inl Exited
        | Some target \<Rightarrow>
            let linkname = take (nat (path_max + 1)) target; nread = int (length linkname)
            in if nread > path_max then Inl Exited else Inr linkname)"

text \<open>\<open>basename(3)\<close> of the C library (POSIX).\<close>

definition strip_slashes :: "string \<Rightarrow> string" where
  "strip_slashes s = rev (dropWhile (\<lambda>c. c = CHR ''/'') (rev s))"

definition basename :: "string \<Rightarrow> string" where
  "basename s =
     (if s = [] then ''.''
      else if strip_slashes s = [] then ''/''
      else rev (takeWhile (\<lambda>c. c \<noteq> CHR ''/'') (rev (strip_slashes s))))"

section \<open>Expanding the template\<close>

text \<open>
  What the function asks of the system: the login name, the time (-1: failed), the process
  number and the path of the program; \<open>buflen\<close> is \<open>_POSIX_PATH_MAX\<close>.
\<close>

record tmpl_env =
  te_login :: "string option"
  te_time :: int
  te_pid :: nat
  te_exe :: "string cres"

definition buflen :: nat where "buflen = 256"

definition expand_directive :: "tmpl_env \<Rightarrow> string \<Rightarrow> char \<Rightarrow> string cres" where
  "expand_directive te username c =
     (if c = CHR ''n'' then cbind (te_exe te) (\<lambda>exename. Inr (basename exename))
      else if c = CHR ''p'' then Inr (fmt_dec (te_pid te))
      else if c = CHR ''u'' then Inr username
      else if c = CHR ''t'' then Inr (fmt_dec (nat (te_time te mod 2 ^ 64)))
      else if c = CHR ''%'' then Inr ''%''
      else Inl Exited)"

text \<open>
  The loop over the template: \<open>out\<close> is what the buffer holds. An addition must leave one of the
  \<open>nleft\<close> bytes for \<open>snprintf\<close>'s null.
\<close>

fun expand_loop :: "tmpl_env \<Rightarrow> string \<Rightarrow> string \<Rightarrow> string \<Rightarrow> string cres" where
    "expand_loop te username [] out = Inr out"
  | "expand_loop te username (c # rest) out =
       (let nleft = buflen - length out - 1 in
        if \<not> 0 < nleft then Inr out
        else if c \<noteq> CHR ''%'' then expand_loop te username rest (out @ [c])
        else case rest of [] \<Rightarrow> Inl Exited
          | d # rest \<Rightarrow>
              cbind (expand_directive te username d) (\<lambda>addition.
                if nleft \<le> length addition then Inl Exited
                else expand_loop te username rest (out @ addition)))"

definition rvp_expand_template :: "tmpl_env \<Rightarrow> string option \<Rightarrow> string cres" where
  "rvp_expand_template te template = (case template of
       None \<Rightarrow> Inr ''./rvpredict.trace''
     | Some template \<Rightarrow>
         if CHR ''%'' \<notin> set template then Inr template
         else case te_login te of None \<Rightarrow> Inl Exited
           | Some username \<Rightarrow>
               if te_time te = -1 then Inl Exited
               else cbind (snprintf_checked 21 (fmt_dec (nat (te_time te mod 2 ^ 64)))) (\<lambda>_.
                    cbind (snprintf_checked 21 (fmt_dec (te_pid te))) (\<lambda>_.
                    cbind (te_exe te) (\<lambda>_.
                      expand_loop te username template []))))"

section \<open>Opening the trace\<close>

datatype file_kind = S_IFCHR | S_IFIFO | S_IFSOCK | S_IFother

text \<open>
  \<open>os_open path create\<close> is the descriptor of \<open>open(2)\<close>, created and truncated or not, or -1;
  \<open>os_fstat\<close> the kind of the file, if \<open>fstat(2)\<close> succeeds; \<open>os_strdup\<close> whether there is memory.
\<close>

record trace_os =
  os_analysis_fd :: int
  os_file_tmpl :: "string option"
  os_fifo_tmpl :: "string option"
  os_strdup :: bool
  os_open :: "string \<Rightarrow> bool \<Rightarrow> int"
  os_fstat :: "int \<Rightarrow> file_kind option"

definition rvp_trace_open :: "tmpl_env \<Rightarrow> trace_os \<Rightarrow> int cres" where
  "rvp_trace_open te os =
     (if os_analysis_fd os \<noteq> -1 then Inr (os_analysis_fd os)
      else let tmpl = (if os_fifo_tmpl os \<noteq> None then os_fifo_tmpl os else os_file_tmpl os) in
        cbind (rvp_expand_template te tmpl) (\<lambda>tracefn.
          if \<not> os_strdup os then Inl Exited
          else let fd = (if os_fifo_tmpl os \<noteq> None then os_open os tracefn False
                         else os_open os tracefn True)
          in if fd = -1 then Inl Exited
             else if os_fifo_tmpl os \<noteq> None
             then (case os_fstat os fd of None \<Rightarrow> Inl Exited
                   | Some S_IFother \<Rightarrow> Inl Exited
                   | Some _ \<Rightarrow> Inr fd)
             else Inr fd))"

definition header :: rvp_trace_header where
  "header = \<lparr> th_magic = ''RVP_'', th_version = [0, 0, 0, 3], th_byteorder = byteorder_word,
     th_pointer_width = 8, th_data_width = 4, th_pad1 = [0, 0] \<rparr>"

text \<open>
  \<open>sys fd\<close> is \<open>write(2)\<close> to the descriptor, \<open>p\<close> the address of the header; \<open>fuel\<close> bounds the
  calls of \<open>write\<close>.
\<close>

definition rvp_trace_begin ::
    "tmpl_env \<Rightarrow> trace_os \<Rightarrow> (int \<Rightarrow> 's \<Rightarrow> int \<Rightarrow> nat \<Rightarrow> int \<times> 's) \<Rightarrow> nat \<Rightarrow> 's \<Rightarrow> int \<Rightarrow> (int \<times> 's) cres" where
  "rvp_trace_begin te os sys fuel s p =
     cbind (rvp_trace_open te os) (\<lambda>fd.
     cbind (writeall (sys fd) fuel s p (length (header_bytes header))) (\<lambda>(n, s).
       if n = -1 then Inl Exited else Inr (fd, s)))"

section \<open>The start of a thread\<close>

definition rvp_ring_put_begin :: "rvp_rt \<Rightarrow> u32 \<Rightarrow> u64 \<Rightarrow> rvp_env \<Rightarrow> rvp_env cres" where
  "rvp_ring_put_begin c tid generation e =
     cbind (rvp_buf_put_voidptr RVP_BUF_INITIALIZER
              (deltop_or_null (rvp_vec_and_op_to_deltop (rt_base c) 0 RVP_OP_BEGIN))) (\<lambda>b.
     cbind (rvp_buf_put b tid) (\<lambda>b.
     cbind (rvp_buf_put_u64 b generation) (\<lambda>b.
     rvp_ring_put_buf e b)))"

section \<open>What the template stands for\<close>

text \<open>The expansion without a limit on its length; None if a directive is not understood.\<close>

fun template_spec :: "tmpl_env \<Rightarrow> string \<Rightarrow> string \<Rightarrow> string option" where
    "template_spec te username [] = Some []"
  | "template_spec te username (c # rest) =
       (if c \<noteq> CHR ''%'' then map_option (Cons c) (template_spec te username rest)
        else case rest of [] \<Rightarrow> None
          | d # rest \<Rightarrow> (case expand_directive te username d of Inl _ \<Rightarrow> None
              | Inr addition \<Rightarrow> map_option (append addition) (template_spec te username rest)))"

lemma expand_loop_spec:
  "length out \<le> 255 \<Longrightarrow> template_spec te username t = Some full \<Longrightarrow>
   (length out + length full \<le> 254 \<longrightarrow> expand_loop te username t out = Inr (out @ full)) \<and>
   (\<forall>s. expand_loop te username t out = Inr s \<longrightarrow> s = take 255 (out @ full))"
proof (induction te username t out arbitrary: full rule: expand_loop.induct)
  case (1 te username out)
  then show ?case by simp
next
  case (2 te username c rest out)
  show ?case
  proof (cases "255 - length out = 0")
    case True
    then show ?thesis using "2.prems"(1) by (auto simp: buflen_def Let_def)
  next
    case room: False
    then have n: "0 < buflen - length out - 1" by (simp add: buflen_def)
    show ?thesis
    proof (cases "c = CHR ''%''")
      case False
      then obtain f where f: "template_spec te username rest = Some f" "full = c # f"
        using "2.prems"(2) by auto
      have "length (out @ [c]) \<le> 255" using room "2.prems"(1) by simp
      then show ?thesis
        using "2.IH"(1) [OF refl _ False _ f(1)] n False f(2) room by (simp add: Let_def)
    next
      case pct: True
      then obtain d r a f where d: "rest = d # r" "expand_directive te username d = Inr a"
        "template_spec te username r = Some f" "full = a @ f"
        using "2.prems"(2) by (auto split: list.splits sum.splits)
      show ?thesis
      proof (cases "buflen - length out - 1 \<le> length a")
        case True
        then have "\<not> length out + length full \<le> 254"
          using room "2.prems"(1) d(4) by (simp add: buflen_def)
        then show ?thesis using True n pct d by (simp add: Let_def)
      next
        case False
        then have "length (out @ a) \<le> 255" by (simp add: buflen_def)
        moreover have "\<not> c \<noteq> CHR ''%''" using pct by simp
        ultimately show ?thesis
          using "2.IH"(2) [OF refl _ _ d(1) False _ d(3)] n pct d False by (simp add: Let_def)
      qed
    qed
  qed
qed

lemma fits_21: "snprintf_checked 21 (fmt_dec n) = Inr (fmt_dec n)" if "n < 10 ^ 20"
  using that length_digits [of 10 20 n] by (simp add: snprintf_checked_def fmt_dec_def)

lemma expand_with_directives:
  assumes "CHR ''%'' \<in> set t" "te_login te = Some user" "te_time te \<noteq> -1" "te_exe te = Inr exe"
    and "te_pid te < 10 ^ 20"
  shows "rvp_expand_template te (Some t) = expand_loop te user t []"
proof -
  have "nat (te_time te mod 2 ^ 64) < 2 ^ 64" by (simp add: nat_less_iff)
  then have "nat (te_time te mod 2 ^ 64) < 10 ^ 20" by (rule less_trans) simp
  from fits_21 [OF this] fits_21 [OF assms(5)] show ?thesis
    using assms(1-4) by (simp add: rvp_expand_template_def)
qed

lemma expand_literal_prefix:
  "CHR ''%'' \<notin> set pre \<Longrightarrow> length out + length pre \<le> 255 \<Longrightarrow>
   expand_loop te user (pre @ t) out = expand_loop te user t (out @ pre)"
proof (induction pre arbitrary: out)
  case (Cons c pre)
  have "\<not> 255 \<le> length out" using Cons.prems by simp
  moreover have "expand_loop te user (pre @ t) (out @ [c]) = expand_loop te user t ((out @ [c]) @ pre)"
    using Cons.prems by (intro Cons.IH) auto
  moreover have "c \<noteq> CHR ''%''" using Cons.prems by auto
  ultimately show ?case by (simp add: Let_def buflen_def)
qed simp

section \<open>The start of a trace file\<close>

definition faithful_write :: "('s \<Rightarrow> int list) \<Rightarrow> ('s \<Rightarrow> int \<Rightarrow> nat \<Rightarrow> int \<times> 's) \<Rightarrow> bool" where
  "faithful_write moved sys \<longleftrightarrow>
     (\<forall>s p n k s'. 0 < n \<longrightarrow> sys s p n = (k, s') \<longrightarrow>
        k = -1 \<or> (0 < k \<and> k \<le> int n \<and> moved s' = moved s @ map (\<lambda>i. p + int i) [0..<nat k]))"

lemma writeall_all:
  assumes "faithful_write moved sys"
  shows "nbytes \<le> fuel \<Longrightarrow> \<exists>r s'. writeall sys fuel s p nbytes = Inr (r, s') \<and>
    (r = -1 \<or> (r = 0 \<and> moved s' = moved s @ map (\<lambda>i. p + int i) [0..<nbytes]))"
proof (induction fuel arbitrary: s p nbytes)
  case 0
  then show ?case by (simp add: writeall.simps)
next
  case (Suc fuel)
  show ?case
  proof (cases "nbytes = 0")
    case True
    then show ?thesis by (simp add: writeall.simps)
  next
    case False
    obtain k s1 where k: "sys s p nbytes = (k, s1)" by (cases "sys s p nbytes")
    then consider "k = -1" | "0 < k" "k \<le> int nbytes" "moved s1 = moved s @ map (\<lambda>i. p + int i) [0..<nat k]"
      using assms False unfolding faithful_write_def by blast
    then show ?thesis
    proof cases
      case 1
      then show ?thesis using k False by (subst writeall.simps) simp
    next
      case 2
      have u: "map (\<lambda>i. p + int i) [0..<nat k] @ map (\<lambda>i. p + k + int i) [0..<nbytes - nat k] =
          map (\<lambda>i. p + int i) [0..<nbytes]"
        using 2(1,2) by (intro nth_equalityI) (auto simp: nth_append)
      obtain r s' where "writeall sys fuel s1 (p + k) (nbytes - nat k) = Inr (r, s')"
        "r = -1 \<or> (r = 0 \<and> moved s' = moved s1 @ map (\<lambda>i. p + k + int i) [0..<nbytes - nat k])"
        using Suc.IH [of "nbytes - nat k" s1 "p + k"] Suc.prems 2(1) by fastforce
      then show ?thesis using k False 2 u by (subst writeall.simps) (auto simp: append_assoc)
    qed
  qed
qed

definition begin_words :: "u64 \<Rightarrow> u32 \<Rightarrow> u64 \<Rightarrow> u32 list" where
  "begin_words base tid gen = fvals_words [VAddr (deltop_of base 0 RVP_OP_BEGIN), V32 tid, V64 gen]"

lemma put_begin_words:
  assumes "deltops_fit (rt_base c)"
  shows "rvp_ring_put_begin c tid gen e = ring_put_words e (begin_words (rt_base c) tid gen)"
  using deltop0 [OF assms, of RVP_OP_BEGIN]
  by (simp add: rvp_ring_put_begin_def deltop_or_null_def put_vals_of ring_put_buf_of begin_words_def)

section \<open>Properties\<close>

text \<open>
  A trace-file template with directives stands for its text with every \<open>%n\<close>, \<open>%p\<close>, \<open>%u\<close>,
  \<open>%t\<close> and \<open>%%\<close> replaced. If the whole is at most 254 characters long, the function returns it;
  what it returns is never anything but its first 255 characters.
\<close>

lemma template_expands:
  assumes "CHR ''%'' \<in> set t" "te_login te = Some user" "te_time te \<noteq> -1" "te_exe te = Inr exe"
    and "te_pid te < 10 ^ 20" "template_spec te user t = Some full"
  shows "(length full \<le> 254 \<longrightarrow> rvp_expand_template te (Some t) = Inr full) \<and>
    (\<forall>s. rvp_expand_template te (Some t) = Inr s \<longrightarrow> s = take 255 full)"
  using expand_with_directives [OF assms(1-5)] expand_loop_spec [OF _ assms(6), of "[]"] by simp

text \<open>
  A template that starts with 255 or more characters before its first directive does not
  make the function fail: it returns the first 255 characters, without looking at the rest.
\<close>

lemma long_template_truncated:
  assumes "te_login te = Some user" "te_time te \<noteq> -1" "te_exe te = Inr exe" "te_pid te < 10 ^ 20"
    and "CHR ''%'' \<notin> set pre" "255 \<le> length pre"
  shows "rvp_expand_template te (Some (pre @ CHR ''%'' # rest)) = Inr (take 255 pre)"
proof -
  have "CHR ''%'' \<notin> set (take 255 pre)" using assms(5) in_set_takeD by fast
  then have "expand_loop te user (take 255 pre @ drop 255 pre @ CHR ''%'' # rest) [] =
      expand_loop te user (drop 255 pre @ CHR ''%'' # rest) (take 255 pre)"
    using expand_literal_prefix [of "take 255 pre" "[]"] by simp
  also have "\<dots> = Inr (take 255 pre)"
    using assms(6) by (cases "drop 255 pre @ CHR ''%'' # rest") (simp_all add: buflen_def Let_def min_def)
  finally have "expand_loop te user (pre @ CHR ''%'' # rest) [] = Inr (take 255 pre)"
    by (simp only: append_assoc [symmetric] append_take_drop_id)
  then show ?thesis
    using expand_with_directives [of "pre @ CHR ''%'' # rest", OF _ assms(1-4)] by simp
qed

text \<open>
  C15. Starting a trace writes the 16 bytes of the header, all of them or the process exits, to
  the descriptor that was opened; and the first thread's first record, put next, makes the file
  one the reader accepts.
\<close>

theorem trace_file_starts:
  assumes "deltops_fit (rt_base c)" "rvp_trace_open te os = Inr fd"
    and "faithful_write moved (sys fd)" "16 \<le> fuel"
  shows "(rvp_trace_begin te os sys fuel s p = Inl Exited \<or>
      (\<exists>s'. rvp_trace_begin te os sys fuel s p = Inr (fd, s') \<and>
        moved s' = moved s @ map (\<lambda>i. p + int i) [0..<length (header_bytes header)])) \<and>
    rvp_ring_put_begin c 1 gen e = ring_put_words e (begin_words (rt_base c) 1 gen) \<and>
    file_ok (header_bytes header @ bytes_of_u32s (begin_words (rt_base c) 1 gen) @ later)"
proof -
  have h: "header = expected_th" by (simp add: header_def expected_th_def)
  obtain r s' where w: "writeall (sys fd) fuel s p 16 = Inr (r, s')"
    "r = -1 \<or> r = 0 \<and> moved s' = moved s @ map (\<lambda>i. p + int i) [0..<16]"
    using writeall_all [OF assms(3,4)] by blast
  have "rvp_trace_begin te os sys fuel s p = (if r = -1 then Inl Exited else Inr (fd, s'))"
    using assms(2) w(1) by (simp add: rvp_trace_begin_def h)
  then show ?thesis
    using w(2) put_begin_words [OF assms(1), of 1 gen e] file_ok_begin [of "rt_base c" gen later]
    by (auto simp: h begin_bytes_def begin_words_def)
qed

definition sample_te :: tmpl_env where
  "sample_te = \<lparr> te_login = Some ''ann'', te_time = 1000, te_pid = 42, te_exe = Inr ''/usr/bin/prog'' \<rparr>"

lemma template_expands_witness:
  "rvp_expand_template sample_te (Some ''%n-%p.trace'') = Inr ''prog-42.trace''"
proof -
  have f: "fmt_dec 42 = ''42''" by (simp add: fmt_dec_def digits.simps digit_char_def)
  have b: "basename ''/usr/bin/prog'' = ''prog''" by (simp add: basename_def strip_slashes_def)
  have "template_spec sample_te ''ann'' ''%n-%p.trace'' = Some ''prog-42.trace''"
    by (simp add: sample_te_def expand_directive_def f b)
  moreover have "te_login sample_te = Some ''ann''" "te_time sample_te \<noteq> -1"
      "te_exe sample_te = Inr ''/usr/bin/prog''" "te_pid sample_te < 10 ^ 20"
    by (simp_all add: sample_te_def)
  ultimately show ?thesis using template_expands [of "''%n-%p.trace''" sample_te] by simp
qed

lemma long_template_truncated_witness:
  "rvp_expand_template sample_te (Some (replicate 300 CHR ''a'' @ ''%z'')) = Inr (replicate 255 CHR ''a'')"
  using long_template_truncated [of sample_te "''ann''" "''/usr/bin/prog''" "replicate 300 CHR ''a''" "''z''"]
  by (simp add: sample_te_def)

definition byte_write :: "int list \<Rightarrow> int \<Rightarrow> nat \<Rightarrow> int \<times> int list" where
  "byte_write s p n = (1, s @ [p])"

lemma byte_write_ok: "faithful_write (\<lambda>s. s) byte_write"
  by (simp add: faithful_write_def byte_write_def)

definition sample_os :: trace_os where
  "sample_os = \<lparr> os_analysis_fd = -1, os_file_tmpl = Some ''t'', os_fifo_tmpl = None, os_strdup = True,
     os_open = (\<lambda>_ _. 3), os_fstat = (\<lambda>_. None) \<rparr>"

lemma trace_file_starts_witness:
  "rvp_trace_open sample_te sample_os = Inr 3 \<and>
   (\<exists>s'. rvp_trace_begin sample_te sample_os (\<lambda>_. byte_write) 16 [] 0 = Inr (3, s') \<and>
      s' = map int [0..<16]) \<and>
   file_ok (header_bytes header @ bytes_of_u32s (begin_words (rt_base sample_rt) 1 7) @ [])"
proof -
  have o: "rvp_trace_open sample_te sample_os = Inr 3"
    by (simp add: rvp_trace_open_def sample_os_def rvp_expand_template_def)
  have l: "length (header_bytes header) = 16" by (simp add: header_def header_bytes_def)
  have "rvp_trace_begin sample_te sample_os (\<lambda>_. byte_write) 16 [] 0 \<noteq> Inl Exited"
    by code_simp
  then show ?thesis
    using trace_file_starts [OF sample_rt_ok(1) o, where sys = "\<lambda>_. byte_write", OF byte_write_ok order_refl,
        of "[]" 0 7 undefined "[]"] o l
    by (auto simp: id_def)
qed

end
