(* ===== verification/Serialize.thy ===== *)
theory Serialize
  imports Ring_Laws Io
begin

text \<open>
  The serializer, \<^verbatim>\<open>llvm/ngrt/serialize.c\<close>: the consumer of the rings. It walks the tree of
  rings that the interruptions of a thread's ring span, gathers the spans of events in the
  order they happened into I/O vectors, writes them, and advances the consumer pointers over
  what it wrote. The rings are a list that ring numbers index. Within one pass over a tree the
  producers rest; between the passes of \<open>rvp_ring_flush_to_fd\<close> they may do anything.
\<close>

section \<open>Arcs of a ring\<close>

definition rvp_ring_cp_arc_contains_lr_arc :: "rvp_ring \<Rightarrow> int \<Rightarrow> int \<Rightarrow> bool" where
  "rvp_ring_cp_arc_contains_lr_arc r lidx ridx =
     (let cidx = int (r_consumer r); pidx = int (r_producer r) in
      if cidx = pidx then cidx = lidx \<and> lidx = ridx
      else if cidx < pidx then cidx \<le> lidx \<and> lidx \<le> ridx \<and> ridx \<le> pidx
      else if cidx \<le> lidx \<and> lidx \<le> ridx then True
      else if lidx \<le> ridx \<and> ridx \<le> pidx then True
      else cidx \<le> lidx \<and> ridx \<le> pidx)"

definition rvp_ring_cp_arc_contains_proper_lr_arc :: "rvp_ring \<Rightarrow> int \<Rightarrow> int \<Rightarrow> bool" where
  "rvp_ring_cp_arc_contains_proper_lr_arc r lidx ridx \<longleftrightarrow>
     rvp_ring_cp_arc_contains_lr_arc r lidx ridx \<and> lidx \<noteq> ridx"

section \<open>The rings and the vectors\<close>

text \<open>
  The address of an I/O vector: items of a ring from an index on, the storage of a ring for a
  change of signal depth, and the two records on the stack of \<open>rvp_ring_flush_to_fd\<close>.
\<close>

datatype iov_src = ItemsOf rid int | SigdepthOf rid | ThreadSwitch | SigDepth

record ser_iovec =
  v_base :: iov_src
  v_len :: int

type_synonym rings = "rvp_ring list"

definition get_ring :: "rings \<Rightarrow> rid \<Rightarrow> rvp_ring cres" where
  "get_ring rs i = (if i < length rs then Inr (rs ! i) else Inl Undefined)"

definition get_it :: "rvp_ring \<Rightarrow> nat \<Rightarrow> rvp_interruption cres" where
  "get_it r i = (let its = ir_items (r_iring r) in if i < length its then Inr (its ! i) else Inl Undefined)"

text \<open>\<open>rvp_jumpless_op\<close>, filled by \<open>rvp_deltop_init\<close>.\<close>

record rvp_jumpless_op =
  jo_sigdepth :: u64
  jo_switch :: u64

definition rvp_deltop_init :: "u64 \<Rightarrow> rvp_jumpless_op" where
  "rvp_deltop_init base =
     \<lparr> jo_sigdepth = deltop_or_null (rvp_vec_and_op_to_deltop base 0 RVP_OP_SIGDEPTH),
       jo_switch = deltop_or_null (rvp_vec_and_op_to_deltop base 0 RVP_OP_SWITCH) \<rparr>"

text \<open>The size of a change of signal depth and of a switch of threads.\<close>

definition sigdepth_size :: int where "sigdepth_size = int (layout_size rvp_sigdepth_t)"
definition switch_size :: int where "switch_size = int (layout_size rvp_fork_join_switch_t)"

section \<open>Dropping interruptions\<close>

text \<open>The result is the next interruption, if any, with the ring.\<close>

definition rvp_ring_drop_interruption :: "rvp_ring \<Rightarrow> (nat option \<times> rvp_ring) cres" where
  "rvp_ring_drop_interruption r =
     (let ir = r_iring r; prev = ir_consumer ir; producer = ir_producer ir;
          nxt = (if prev = rvp_iring_last ir then 0 else prev + 1)
      in cbind (cassert (prev \<noteq> ir_producer ir)) (\<lambda>_.
           let r = r\<lparr> r_iring := ir\<lparr> ir_consumer := nxt \<rparr> \<rparr> in
           Inr (if nxt = producer then None else Some nxt, r)))"

section \<open>Gathering\<close>

text \<open>
  \<open>lim\<close> is the number of vectors in the array, \<open>iovs\<close> those filled so far, so \<open>lastiov - iov\<close> is
  \<open>lim - length iovs\<close>. The result is the number that remains, or -1, with the ring (whose
  \<open>r_sigdepth\<close> may be set), the vectors and the signal depth.
\<close>

definition rvp_ring_get_iovs_between ::
    "rvp_jumpless_op \<Rightarrow> int \<Rightarrow> rid \<Rightarrow> rvp_ring \<Rightarrow> ser_iovec list \<Rightarrow> int \<Rightarrow> int \<Rightarrow> u32 \<Rightarrow>
     int \<times> rvp_ring \<times> ser_iovec list \<times> u32" where
  "rvp_ring_get_iovs_between jo lim i r iovs first lst idepth =
     (if first = lst then (-1, r, iovs, idepth)
      else if int (length iovs) = lim then (-1, r, iovs, idepth)
      else if r_idepth r \<noteq> idepth \<and> int (length iovs) + 1 = lim then (-1, r, iovs, idepth)
      else
        let (r, iovs1) =
              (if r_idepth r \<noteq> idepth
               then (r\<lparr> r_sigdepth := (jo_sigdepth jo, r_idepth r) \<rparr>,
                     iovs @ [\<lparr> v_base = SigdepthOf i, v_len = sigdepth_size \<rparr>])
               else (r, iovs))
        in if first < lst then
             let iovs = iovs1 @ [\<lparr> v_base = ItemsOf i first, v_len = (lst - first) * 4 \<rparr>] in
             (lim - int (length iovs), r, iovs, r_idepth r)
           else
             let iovs2 = iovs1 @ [\<lparr> v_base = ItemsOf i first, v_len = (int (r_last r) + 1 - first) * 4 \<rparr>] in
             if int (length iovs2) = lim then (-1, r, iovs, idepth)
             else let iovs = iovs2 @ [\<lparr> v_base = ItemsOf i 0, v_len = lst * 4 \<rparr>] in
                  (lim - int (length iovs), r, iovs, r_idepth r))"

text \<open>
  The loop over the interruptions of a ring and the recursion into the interrupting rings.
  \<open>fuel\<close> bounds both. The loop's result holds \<open>residue\<close>, \<open>first\<close>, the rings, the vectors and the
  signal depth.
\<close>

fun get_iovs_loop ::
    "rvp_jumpless_op \<Rightarrow> int \<Rightarrow> nat \<Rightarrow> rid \<Rightarrow> nat option \<Rightarrow> int \<Rightarrow> int \<Rightarrow> rings \<Rightarrow> ser_iovec list \<Rightarrow> u32 \<Rightarrow>
     (int \<times> int \<times> rings \<times> ser_iovec list \<times> u32) cres"
  and rvp_ring_get_iovs ::
    "rvp_jumpless_op \<Rightarrow> int \<Rightarrow> nat \<Rightarrow> rid \<Rightarrow> rvp_interruption option \<Rightarrow> rings \<Rightarrow> ser_iovec list \<Rightarrow> u32 \<Rightarrow>
     (int \<times> rings \<times> ser_iovec list \<times> u32) cres"
where
  "get_iovs_loop jo lim 0 i ito first lst rs iovs idepth = Inl Waiting"
| "get_iovs_loop jo lim (Suc fuel) i ito first lst rs iovs idepth =
     (let residue = lim - int (length iovs) in
      if \<not> 0 < residue then Inr (residue, first, rs, iovs, idepth)
      else case ito of None \<Rightarrow> Inr (residue, first, rs, iovs, idepth)
      | Some k \<Rightarrow>
        cbind (get_ring rs i) (\<lambda>r.
        cbind (get_it r k) (\<lambda>it.
        let intr = it_interrupted_idx it in
        if rvp_ring_cp_arc_contains_proper_lr_arc r intr first
        then get_iovs_loop jo lim fuel i (rvp_ring_next_interruption r k) first lst rs iovs idepth
        else if rvp_ring_cp_arc_contains_proper_lr_arc r lst intr
        then Inr (residue, first, rs, iovs, idepth)
        else
          let (res, r', iovs, idepth) =
                (if rvp_ring_cp_arc_contains_proper_lr_arc r first intr
                 then rvp_ring_get_iovs_between jo lim i r iovs first intr idepth
                 else (residue, r, iovs, idepth));
              rs = rs[i := r']
          in if res < 0 then Inr (res, first, rs, iovs, idepth)
          else
          cbind (get_ring rs (it_interruptor it)) (\<lambda>q.
          cbind (cassert (r_idepth r' \<noteq> r_idepth q)) (\<lambda>_.
          cbind (rvp_ring_get_iovs jo lim fuel (it_interruptor it) (Some it) rs iovs idepth)
            (\<lambda>(res, rs, iovs, idepth).
          if res < 0 then Inr (res, intr, rs, iovs, idepth)
          else get_iovs_loop jo lim fuel i (rvp_ring_next_interruption r' k) intr lst rs iovs idepth))))))"
| "rvp_ring_get_iovs jo lim 0 i bracket rs iovs idepth = Inl Waiting"
| "rvp_ring_get_iovs jo lim (Suc fuel) i bracket rs iovs idepth =
     cbind (get_ring rs i) (\<lambda>r.
     let cidx = int (r_consumer r); pidx = int (r_producer r);
         first = (case bracket of Some it \<Rightarrow> it_interruptor_sidx it | None \<Rightarrow> cidx);
         (lst, unfinished) = (case bracket of Some it \<Rightarrow> rvp_interruption_get_end it r | None \<Rightarrow> (pidx, False))
     in cbind (cassert (bracket = None \<or> rvp_ring_cp_arc_contains_lr_arc r cidx first)) (\<lambda>_.
        cbind (get_iovs_loop jo lim fuel i (rvp_ring_first_interruption r) first lst rs iovs idepth)
          (\<lambda>(residue, first, rs, iovs, idepth).
        cbind (get_ring rs i) (\<lambda>r.
        let (residue, r, iovs, idepth) =
              (if 0 < residue then rvp_ring_get_iovs_between jo lim i r iovs first lst idepth
               else (residue, r, iovs, idepth))
        in Inr (if unfinished then -1 else residue, rs[i := r], iovs, idepth)))))"

section \<open>Discarding\<close>

text \<open>
  \<open>vs\<close> are the vectors from \<open>*iovp\<close> up to \<open>lastiov\<close>. The asserts compare them with the rings.
\<close>

definition rvp_ring_discard_iovs_between ::
    "rid \<Rightarrow> rvp_ring \<Rightarrow> ser_iovec list \<Rightarrow> int \<Rightarrow> u32 \<Rightarrow> (int \<times> rvp_ring \<times> ser_iovec list \<times> u32) cres" where
  "rvp_ring_discard_iovs_between i r vs cidx idepth =
     (if vs = [] then Inr (-1, r, vs, idepth)
      else if r_idepth r \<noteq> idepth \<and> length vs = 1 then Inr (-1, r, vs, idepth)
      else
        cbind (if r_idepth r \<noteq> idepth
               then cbind (cassert (v_base (hd vs) = SigdepthOf i \<and> v_len (hd vs) = sigdepth_size))
                      (\<lambda>_. Inr (tl vs))
               else Inr vs) (\<lambda>vs1.
        cbind (cassert (v_base (hd vs1) = ItemsOf i cidx)) (\<lambda>_.
        let finish = (\<lambda>producer vs'.
              cbind (cassert (cidx = int (r_consumer r))) (\<lambda>_.
              Inr (int (length vs'), r\<lparr> r_consumer := nat producer \<rparr>, vs', r_idepth r)))
        in if v_len (hd vs1) = (int (r_last r) + 1 - cidx) * 4
           then let vs2 = tl vs1 in
                if vs2 = [] then Inr (-1, r, vs, idepth)
                else cbind (cassert (v_base (hd vs2) = ItemsOf i 0)) (\<lambda>_.
                     finish (v_len (hd vs2) div 4) (tl vs2))
           else finish (v_len (hd vs1) div 4 + cidx) (tl vs1))))"

text \<open>A bracket is an interruption in the ring of the interrupted sequence: a ring and a place.\<close>

definition get_bracket :: "rings \<Rightarrow> (rid \<times> nat) option \<Rightarrow> rvp_interruption option cres" where
  "get_bracket rs br = (case br of None \<Rightarrow> Inr None
     | Some (o', k) \<Rightarrow> cbind (get_ring rs o') (\<lambda>r. cbind (get_it r k) (\<lambda>it. Inr (Some it))))"

definition set_bracket_sidx :: "(rid \<times> nat) option \<Rightarrow> int \<Rightarrow> rings \<Rightarrow> rings" where
  "set_bracket_sidx br sidx rs = (case br of None \<Rightarrow> rs
     | Some (o', k) \<Rightarrow> let r = rs ! o'; ir = r_iring r in
         rs[o' := r\<lparr> r_iring := ir\<lparr> ir_items :=
           (ir_items ir)[k := (ir_items ir ! k)\<lparr> it_interruptor_sidx := sidx \<rparr>] \<rparr> \<rparr>])"

text \<open>The end of \<open>rvp_ring_discard_iovs\<close>, when the vectors are exhausted.\<close>

definition discard_residue :: "rvp_ring \<Rightarrow> int \<Rightarrow> int \<Rightarrow> int cres" where
  "discard_residue r first lst =
     (if rvp_ring_cp_arc_contains_proper_lr_arc r first lst then Inr (-1)
      else case rvp_ring_first_interruption r of None \<Rightarrow> Inr 0
        | Some k \<Rightarrow> cbind (get_it r k) (\<lambda>it.
            Inr (if rvp_ring_cp_arc_contains_lr_arc r (it_interrupted_idx it) lst then -1 else 0)))"

fun discard_iovs_loop ::
    "nat \<Rightarrow> rid \<Rightarrow> (rid \<times> nat) option \<Rightarrow> nat option \<Rightarrow> int \<Rightarrow> int \<Rightarrow> rings \<Rightarrow> ser_iovec list \<Rightarrow> u32 \<Rightarrow>
     (int \<times> int \<times> rings \<times> ser_iovec list \<times> u32) cres"
  and rvp_ring_discard_iovs ::
    "nat \<Rightarrow> rid \<Rightarrow> (rid \<times> nat) option \<Rightarrow> rings \<Rightarrow> ser_iovec list \<Rightarrow> u32 \<Rightarrow>
     (int \<times> rings \<times> ser_iovec list \<times> u32) cres"
where
  "discard_iovs_loop 0 i br ito first lst rs vs idepth = Inl Waiting"
| "discard_iovs_loop (Suc fuel) i br ito first lst rs vs idepth =
     (let residue = int (length vs) in
      if \<not> 0 < residue then Inr (residue, first, rs, vs, idepth)
      else case ito of None \<Rightarrow> Inr (residue, first, rs, vs, idepth)
      | Some k \<Rightarrow>
        cbind (get_ring rs i) (\<lambda>r.
        cbind (get_it r k) (\<lambda>it.
        let intr = it_interrupted_idx it in
        if rvp_ring_cp_arc_contains_proper_lr_arc r intr first then Inl Assertion
        else if rvp_ring_cp_arc_contains_proper_lr_arc r lst intr
        then Inr (residue, first, rs, vs, idepth)
        else
        cbind (if rvp_ring_cp_arc_contains_proper_lr_arc r first intr
               then rvp_ring_discard_iovs_between i r vs first idepth
               else Inr (residue, r, vs, idepth)) (\<lambda>(res, r', vs, idepth).
        let rs = rs[i := r'] in
        if res < 0 then Inr (res, first, rs, vs, idepth)
        else let rs = set_bracket_sidx br (int (r_consumer r')) rs in
          cbind (get_ring rs (it_interruptor it)) (\<lambda>q.
          cbind (cassert (r_idepth r' \<noteq> r_idepth q)) (\<lambda>_.
          cbind (rvp_ring_discard_iovs fuel (it_interruptor it) (Some (i, k)) rs vs idepth)
            (\<lambda>(res, rs, vs, idepth).
          if res < 0 then Inr (res, intr, rs, vs, idepth)
          else cbind (get_ring rs i) (\<lambda>r.
               cbind (rvp_ring_drop_interruption r) (\<lambda>(ito, r).
               discard_iovs_loop fuel i br ito intr lst (rs[i := r]) vs idepth)))))))))"
| "rvp_ring_discard_iovs 0 i br rs vs idepth = Inl Waiting"
| "rvp_ring_discard_iovs (Suc fuel) i br rs vs idepth =
     cbind (get_ring rs i) (\<lambda>r.
     cbind (get_bracket rs br) (\<lambda>bracket.
     let cidx = int (r_consumer r); pidx = int (r_producer r);
         first = (case bracket of Some it \<Rightarrow> it_interruptor_sidx it | None \<Rightarrow> cidx);
         (lst, unfinished) = (case bracket of Some it \<Rightarrow> rvp_interruption_get_end it r | None \<Rightarrow> (pidx, False));
         out = (\<lambda>(residue, rs, vs, idepth). Inr (if unfinished then -1 else residue, rs, vs, idepth))
     in cbind (cassert (bracket = None \<or> rvp_ring_cp_arc_contains_lr_arc r cidx first)) (\<lambda>_.
        cbind (discard_iovs_loop fuel i br (rvp_ring_first_interruption r) first lst rs vs idepth)
          (\<lambda>(residue, first, rs, vs, idepth).
        cbind (get_ring rs i) (\<lambda>r.
        cbind (if 0 < residue then rvp_ring_discard_iovs_between i r vs first idepth
               else Inr (residue, r, vs, idepth)) (\<lambda>(res, r, vs, idepth).
        let rs = rs[i := r] in
        if res < 0 then out (res, rs, vs, idepth)
        else
          let (first, rs) =
                (if 0 < residue then (int (r_consumer r), set_bracket_sidx br (int (r_consumer r)) rs)
                 else (first, rs))
          in if res = 0 then cbind (discard_residue r first lst) (\<lambda>res. out (res, rs, vs, idepth))
             else out (res, rs, vs, idepth)))))))"

text \<open>Dropping the interruptions whose events have all been written.\<close>

fun drop_empties_loop ::
    "nat \<Rightarrow> rid \<Rightarrow> nat option \<Rightarrow> int \<Rightarrow> int \<Rightarrow> bool \<Rightarrow> rings \<Rightarrow> (bool \<times> rings) cres"
  and rvp_ring_drop_empties ::
    "nat \<Rightarrow> rid \<Rightarrow> rvp_interruption option \<Rightarrow> rings \<Rightarrow> (bool \<times> rings) cres"
where
  "drop_empties_loop 0 i ito first lst unfinished rs = Inl Waiting"
| "drop_empties_loop (Suc fuel) i ito first lst unfinished rs =
     (case ito of None \<Rightarrow> Inr (first = lst \<and> \<not> unfinished, rs)
      | Some k \<Rightarrow>
        cbind (get_ring rs i) (\<lambda>r.
        cbind (get_it r k) (\<lambda>it.
        let intr = it_interrupted_idx it in
        if rvp_ring_cp_arc_contains_proper_lr_arc r intr first then Inl Assertion
        else if rvp_ring_cp_arc_contains_proper_lr_arc r lst intr then Inr (False, rs)
        else if rvp_ring_cp_arc_contains_proper_lr_arc r first intr then Inr (False, rs)
        else
          cbind (get_ring rs (it_interruptor it)) (\<lambda>q.
          cbind (cassert (r_idepth r \<noteq> r_idepth q)) (\<lambda>_.
          cbind (rvp_ring_drop_empties fuel (it_interruptor it) (Some it) rs) (\<lambda>(empty, rs).
          if \<not> empty then Inr (False, rs)
          else cbind (get_ring rs i) (\<lambda>r.
               cbind (rvp_ring_drop_interruption r) (\<lambda>(ito, r).
               drop_empties_loop fuel i ito intr lst unfinished (rs[i := r])))))))))"
| "rvp_ring_drop_empties 0 i bracket rs = Inl Waiting"
| "rvp_ring_drop_empties (Suc fuel) i bracket rs =
     cbind (get_ring rs i) (\<lambda>r.
     let cidx = int (r_consumer r); pidx = int (r_producer r);
         first = (case bracket of Some it \<Rightarrow> it_interruptor_sidx it | None \<Rightarrow> cidx);
         (lst, unfinished) = (case bracket of Some it \<Rightarrow> rvp_interruption_get_end it r | None \<Rightarrow> (pidx, False))
     in cbind (cassert (bracket = None \<or> rvp_ring_cp_arc_contains_lr_arc r cidx first)) (\<lambda>_.
        drop_empties_loop fuel i (rvp_ring_first_interruption r) first lst unfinished rs))"

section \<open>Flushing a thread's rings\<close>

text \<open>The vectors before those of the rings: a switch of threads, a change of signal depth.\<close>

definition flush_prefix :: "rvp_lastctx option \<Rightarrow> rvp_ring \<Rightarrow> ser_iovec list" where
  "flush_prefix lc r =
     (let switch = \<lparr> v_base = ThreadSwitch, v_len = switch_size \<rparr>;
          depth = \<lparr> v_base = SigDepth, v_len = sigdepth_size \<rparr>
      in case lc of None \<Rightarrow> []
         | Some lc \<Rightarrow>
             if lc_tid lc \<noteq> r_tid r then (if r_idepth r \<noteq> 0 then [switch, depth] else [switch])
             else if lc_idepth lc \<noteq> r_idepth r then [depth] else [])"

definition to_iovec :: "(iov_src \<Rightarrow> int) \<Rightarrow> ser_iovec \<Rightarrow> iovec" where
  "to_iovec lay v = \<lparr> iov_base = lay (v_base v), iov_len = nat (v_len v) \<rparr>"

text \<open>
  \<open>lay\<close> says where the rings and the stack are in memory, \<open>writev\<close> is the system call on the
  descriptor, \<open>adv\<close> what the producers do between gathering and discarding. The result holds
  the return value, the last context, the rings, the size of the trace and the system's state.
\<close>

definition rvp_ring_flush_to_fd ::
    "rvp_jumpless_op \<Rightarrow> (iov_src \<Rightarrow> int) \<Rightarrow> ('s \<Rightarrow> iovec list \<Rightarrow> int \<times> 's) \<Rightarrow> (rings \<Rightarrow> rings) \<Rightarrow> nat \<Rightarrow>
     rid \<Rightarrow> rvp_lastctx option \<Rightarrow> rings \<Rightarrow> int \<Rightarrow> 's \<Rightarrow>
     (int \<times> rvp_lastctx option \<times> rings \<times> int \<times> 's) cres" where
  "rvp_ring_flush_to_fd jo lay writev adv fuel i lc rs sz s =
     cbind (get_ring rs i) (\<lambda>r.
     let pre = flush_prefix lc r; idepth = (if lc = None then 0 else r_idepth r) in
     cbind (rvp_ring_drop_empties fuel i None rs) (\<lambda>(_, rs).
     cbind (rvp_ring_get_iovs jo 20 fuel i None rs pre idepth) (\<lambda>(_, rs, iovs, idepth0).
     if length iovs = length pre then Inr (0, lc, rs, sz, s)
     else
       cbind (writeallv writev s (map (to_iovec lay) iovs)) (\<lambda>(nwritten, s).
       if nwritten = -1 then Inr (-1, lc, rs, sz, s)
       else
         let sz = sz + nwritten in
         cbind (cassert (0 < nwritten - sum_list (map v_len pre))) (\<lambda>_.
         let rs = adv rs in
         cbind (rvp_ring_discard_iovs fuel i None rs (drop (length pre) iovs) idepth) (\<lambda>(res, rs, _, idepth1).
         cbind (cassert (res \<le> 0)) (\<lambda>_.
         cbind (cassert (idepth0 = idepth1)) (\<lambda>_.
         case lc of
           Some lc \<Rightarrow> Inr (1, Some \<lparr> lc_tid = r_tid r, lc_idepth = idepth0 \<rparr>, rs, sz, s)
         | None \<Rightarrow> cbind (cassert (idepth0 = 0)) (\<lambda>_. Inr (1, None, rs, sz, s))))))))))"

text \<open>The words of a vector, as they are when it is gathered.\<close>

definition iov_words :: "rvp_jumpless_op \<Rightarrow> rid \<Rightarrow> rings \<Rightarrow> ser_iovec \<Rightarrow> u32 list" where
  "iov_words jo i0 rs v = (case v_base v of
       ItemsOf i k \<Rightarrow> take (nat (v_len v div 4)) (drop (nat k) (r_items (rs ! i)))
     | SigdepthOf i \<Rightarrow> (case r_sigdepth (rs ! i) of (d, n) \<Rightarrow> fvals_words [VAddr d, V32 n])
     | ThreadSwitch \<Rightarrow> fvals_words [VAddr (jo_switch jo), V32 (r_tid (rs ! i0))]
     | SigDepth \<Rightarrow> fvals_words [VAddr (jo_sigdepth jo), V32 (r_idepth (rs ! i0))])"

end
