(* ===== verification/Serialize_Laws.thy ===== *)
theory Serialize_Laws
  imports Serialize
begin

text \<open>
  What the serializer writes: the arcs of a ring as distances along the circle, the words that
  a gathered span holds, and the agreement of gathering and discarding. For a thread's ring
  the whole of \<open>rvp_ring_flush_to_fd\<close> is proved against the queue of words that the ring is,
  while its producer goes on.
\<close>

section \<open>Arcs\<close>

text \<open>The position of an index from the consumer on.\<close>

definition ring_pos :: "rvp_ring \<Rightarrow> nat \<Rightarrow> nat" where
  "ring_pos r i = cdist (Suc (r_last r)) (r_consumer r) i"

lemma arc_iff:
  assumes "ring_ok r" "a \<le> r_last r" "b \<le> r_last r"
  shows "rvp_ring_cp_arc_contains_lr_arc r (int a) (int b) \<longleftrightarrow>
     ring_pos r a \<le> ring_pos r b \<and> ring_pos r b \<le> ring_pos r (r_producer r)"
  using assms
  by (auto simp: rvp_ring_cp_arc_contains_lr_arc_def ring_pos_def cdist_cases ring_ok_def Let_def)

lemma proper_arc_iff:
  assumes "ring_ok r" "a \<le> r_last r" "b \<le> r_last r"
  shows "rvp_ring_cp_arc_contains_proper_lr_arc r (int a) (int b) \<longleftrightarrow>
     ring_pos r a < ring_pos r b \<and> ring_pos r b \<le> ring_pos r (r_producer r)"
  using assms
  by (auto simp: rvp_ring_cp_arc_contains_proper_lr_arc_def rvp_ring_cp_arc_contains_lr_arc_def
      ring_pos_def cdist_cases ring_ok_def Let_def)

section \<open>Spans\<close>

text \<open>The words of a ring from one index up to another, and the vectors that hold them.\<close>

definition span_words :: "rvp_ring \<Rightarrow> nat \<Rightarrow> nat \<Rightarrow> u32 list" where
  "span_words r a b = circ_slice (r_items r) a (cdist (Suc (r_last r)) a b)"

definition span_iovs :: "rid \<Rightarrow> rvp_ring \<Rightarrow> nat \<Rightarrow> nat \<Rightarrow> ser_iovec list" where
  "span_iovs i r a b =
     (if a < b then [\<lparr> v_base = ItemsOf i (int a), v_len = (int b - int a) * 4 \<rparr>]
      else [\<lparr> v_base = ItemsOf i (int a), v_len = (int (r_last r) + 1 - int a) * 4 \<rparr>,
            \<lparr> v_base = ItemsOf i 0, v_len = int b * 4 \<rparr>])"

lemma span_words_contents:
  "ring_ok r \<Longrightarrow> span_words r (r_consumer r) (r_producer r) = ring_contents r"
  by (simp add: span_words_def ring_contents_def ring_nfull_eq)

lemma circ_slice_wrapped:
  assumes "a < length xs" "b \<le> a"
  shows "circ_slice xs a (length xs + b - a) = drop a xs @ take b xs"
proof (rule nth_equalityI)
  fix i
  assume "i < length (circ_slice xs a (length xs + b - a))"
  then have "i < length xs + b - a" by simp
  moreover have "(a + i) mod length xs = (if i < length xs - a then a + i else i - (length xs - a))"
    using assms calculation by (auto simp: mod_if)
  ultimately show "circ_slice xs a (length xs + b - a) ! i = (drop a xs @ take b xs) ! i"
    using assms by (auto simp: nth_append)
qed (use assms in simp)

lemma iov_words_span:
  assumes "ring_ok r" "r_items (rs ! i) = r_items r" "a \<le> r_last r" "b \<le> r_last r" "a \<noteq> b"
  shows "concat (map (iov_words jo j rs) (span_iovs i r a b)) = span_words r a b"
proof (cases "a < b")
  case True
  then show ?thesis
    using assms by (simp add: span_iovs_def iov_words_def span_words_def ring_ok_def cdist_ge
        circ_slice_contiguous nat_diff_distrib)
next
  case False
  then have "b < a" using assms(5) by simp
  then have "span_words r a b = circ_slice (r_items r) a (length (r_items r) + b - a)"
    using assms by (simp add: span_words_def cdist_lt ring_ok_def add.commute)
  moreover have "nat (int (r_last r) + 1 - int a) = length (r_items r) - a"
    using assms by (auto simp: ring_ok_def)
  moreover have "a < length (r_items r)" using assms by (simp add: ring_ok_def)
  ultimately show ?thesis
    using \<open>b < a\<close> assms(2) by (simp add: span_iovs_def iov_words_def circ_slice_wrapped)
qed

lemma span_iovs_bytes:
  assumes "ring_ok r" "a \<le> r_last r" "b \<le> r_last r" "a \<noteq> b"
  shows "sum_list (map v_len (span_iovs i r a b)) = 4 * int (length (span_words r a b))"
    "\<forall>v\<in>set (span_iovs i r a b). 0 \<le> v_len v"
  using assms by (auto simp: span_iovs_def span_words_def cdist_cases of_nat_diff)

lemma length_span_iovs: "length (span_iovs i r a b) = (if a < b then 1 else 2)"
  by (simp add: span_iovs_def)

section \<open>Gathering and discarding a span\<close>

text \<open>The change of depth that precedes a span of another ring.\<close>

definition depth_iovs :: "rid \<Rightarrow> rvp_ring \<Rightarrow> u32 \<Rightarrow> ser_iovec list" where
  "depth_iovs i r idepth =
     (if r_idepth r \<noteq> idepth then [\<lparr> v_base = SigdepthOf i, v_len = sigdepth_size \<rparr>] else [])"

definition mark_depth :: "rvp_jumpless_op \<Rightarrow> rvp_ring \<Rightarrow> u32 \<Rightarrow> rvp_ring" where
  "mark_depth jo r idepth =
     (if r_idepth r \<noteq> idepth then r\<lparr> r_sigdepth := (jo_sigdepth jo, r_idepth r) \<rparr> else r)"

lemma get_between_span:
  assumes "a \<noteq> b" "int (length iovs) + 3 \<le> lim"
  shows "rvp_ring_get_iovs_between jo lim i r iovs (int a) (int b) idepth =
    (let iovs' = iovs @ depth_iovs i r idepth @ span_iovs i r a b in
     (lim - int (length iovs'), mark_depth jo r idepth, iovs', r_idepth r))"
  using assms
  by (auto simp: rvp_ring_get_iovs_between_def depth_iovs_def span_iovs_def mark_depth_def Let_def)

lemma discard_between_span:
  assumes "ring_ok r" "r_consumer r = a" "b \<le> r_last r" "a \<noteq> b"
  shows "rvp_ring_discard_iovs_between i r (depth_iovs i r idepth @ span_iovs i r a b @ vs) (int a) idepth =
    Inr (int (length vs), r\<lparr> r_consumer := b \<rparr>, vs, r_idepth r)"
proof -
  have "a < b \<or> b < a" "a \<le> r_last r" using assms by (auto simp: ring_ok_def)
  then show ?thesis
    using assms
    by (auto simp: rvp_ring_discard_iovs_between_def depth_iovs_def span_iovs_def Let_def)
qed

lemma consume_span:
  assumes "ring_ok r" "ring_pos r b \<le> ring_pos r (r_producer r)" "b \<le> r_last r"
  shows "ring_ok (r\<lparr> r_consumer := b \<rparr>)"
    "ring_contents (r\<lparr> r_consumer := b \<rparr>) = drop (ring_pos r b) (ring_contents r)"
    "span_words r (r_consumer r) b = take (ring_pos r b) (ring_contents r)"
proof -
  have c: "r\<lparr> r_consumer := b \<rparr> = ring_consume (ring_pos r b) r"
    using assms add_cdist [of "r_consumer r" "Suc (r_last r)" b]
    by (simp add: ring_consume_def ring_pos_def ring_nfull_eq min_absorb1 ring_ok_def)
  show "ring_ok (r\<lparr> r_consumer := b \<rparr>)" unfolding c by (rule ring_consume_ok [OF assms(1)])
  show "ring_contents (r\<lparr> r_consumer := b \<rparr>) = drop (ring_pos r b) (ring_contents r)"
    unfolding c by (rule contents_consume [OF assms(1)])
  show "span_words r (r_consumer r) b = take (ring_pos r b) (ring_contents r)"
    using assms by (simp add: span_words_def ring_contents_def take_circ_slice ring_pos_def ring_nfull_eq min_absorb1)
qed

section \<open>Flushing a ring without interruptions\<close>

definition uninterrupted :: "rvp_ring \<Rightarrow> bool" where
  "uninterrupted r \<longleftrightarrow> ir_consumer (r_iring r) = ir_producer (r_iring r)"

lemma uninterrupted_first [simp]: "uninterrupted r \<Longrightarrow> rvp_ring_first_interruption r = None"
  by (simp add: uninterrupted_def rvp_ring_first_interruption_def)

lemma drop_empties_uninterrupted:
  "i < length rs \<Longrightarrow> uninterrupted (rs ! i) \<Longrightarrow>
   rvp_ring_drop_empties (Suc (Suc fuel)) i None rs = Inr (r_consumer (rs ! i) = r_producer (rs ! i), rs)"
  by (simp add: get_ring_def Let_def)

lemma get_iovs_uninterrupted:
  assumes "i < length rs" "uninterrupted (rs ! i)" "length iovs + 3 \<le> 20" "ring_ok (rs ! i)"
  shows "rvp_ring_get_iovs jo 20 (Suc (Suc fuel)) i None rs iovs (r_idepth (rs ! i)) =
    (let r = rs ! i; a = r_consumer r; b = r_producer r;
         iovs' = iovs @ (if a = b then [] else span_iovs i r a b)
     in Inr (if a = b then -1 else 20 - int (length iovs'), rs, iovs', r_idepth r))"
proof (cases "r_consumer (rs ! i) = r_producer (rs ! i)")
  case True
  then show ?thesis
    using assms by (simp add: get_ring_def Let_def rvp_ring_get_iovs_between_def)
next
  case False
  then show ?thesis
    using assms get_between_span [OF False, of iovs 20 jo i "rs ! i" "r_idepth (rs ! i)"]
    by (simp add: get_ring_def Let_def depth_iovs_def mark_depth_def)
qed

text \<open>What a producer may do to its ring while the serializer writes: put more words on it.\<close>

definition grown :: "rvp_ring \<Rightarrow> rvp_ring \<Rightarrow> bool" where
  "grown r r' \<longleftrightarrow> ring_ok r' \<and> uninterrupted r' \<and> r_consumer r' = r_consumer r \<and> r_last r' = r_last r \<and>
     r_idepth r' = r_idepth r \<and> (\<exists>ws. ring_contents r' = ring_contents r @ ws)"

lemma grown_refl: "ring_ok r \<Longrightarrow> uninterrupted r \<Longrightarrow> grown r r"
  by (simp add: grown_def)

lemma grown_push:
  "ring_ok r \<Longrightarrow> uninterrupted r \<Longrightarrow> rvp_ring_nfull r + int (length ws) \<le> rvp_ring_capacity r \<Longrightarrow>
   grown r (ring_push r ws)"
  using contents_push [of r ws] by (auto simp: grown_def uninterrupted_def)

lemma grown_pos:
  assumes "ring_ok r" "grown r r'"
  shows "ring_pos r' (r_producer r) \<le> ring_pos r' (r_producer r')"
    "ring_pos r' (r_producer r) = length (ring_contents r)" "r_producer r \<le> r_last r'"
proof -
  have "length (ring_contents r) \<le> length (ring_contents r')"
    using assms(2) unfolding grown_def by (metis length_append le_add1)
  moreover have "ring_pos r' (r_producer r) = length (ring_contents r)"
    "ring_pos r' (r_producer r') = length (ring_contents r')"
    using assms by (simp_all add: grown_def ring_pos_def ring_nfull_eq)
  ultimately show "ring_pos r' (r_producer r) \<le> ring_pos r' (r_producer r')"
    "ring_pos r' (r_producer r) = length (ring_contents r)" by simp_all
  show "r_producer r \<le> r_last r'" using assms by (simp add: grown_def ring_ok_def)
qed

lemma span_iovs_grown: "r_last r' = r_last r \<Longrightarrow> span_iovs i r' a b = span_iovs i r a b"
  by (simp add: span_iovs_def)

lemma discard_uninterrupted:
  assumes "i < length rs" "ring_ok r" "grown r (rs ! i)" "r_consumer r \<noteq> r_producer r"
  shows "\<exists>res. rvp_ring_discard_iovs (Suc (Suc fuel)) i None rs
      (span_iovs i r (r_consumer r) (r_producer r)) (r_idepth r) =
      Inr (res, rs[i := (rs ! i)\<lparr> r_consumer := r_producer r \<rparr>], [], r_idepth r) \<and> res \<le> 0"
proof -
  let ?r = "rs ! i" and ?vs = "span_iovs i r (r_consumer r) (r_producer r)"
  have g: "ring_ok ?r" "uninterrupted ?r" "r_consumer ?r = r_consumer r" "r_last ?r = r_last r"
    "r_idepth ?r = r_idepth r"
    using assms(3) by (simp_all add: grown_def)
  have d: "rvp_ring_discard_iovs_between i ?r ?vs (int (r_consumer r)) (r_idepth r) =
      Inr (0, ?r\<lparr> r_consumer := r_producer r \<rparr>, [], r_idepth r)"
    using discard_between_span [OF g(1) g(3), of "r_producer r" i "r_idepth r" "[]"] assms g
      span_iovs_grown [OF g(4), of i "r_consumer r" "r_producer r"]
    by (simp add: depth_iovs_def ring_ok_def)
  have u: "uninterrupted (?r\<lparr> r_consumer := r_producer r \<rparr>)" using g(2) by (simp add: uninterrupted_def)
  have vs: "0 < length ?vs" by (simp add: length_span_iovs)
  show ?thesis
    using assms(1) g d vs uninterrupted_first [OF u]
    by (simp add: get_ring_def get_bracket_def set_bracket_sidx_def discard_residue_def Let_def)
qed

text \<open>The records before the words of the ring: a switch of threads, a change of depth.\<close>

definition context_words :: "rvp_jumpless_op \<Rightarrow> rvp_lastctx option \<Rightarrow> rvp_ring \<Rightarrow> u32 list" where
  "context_words jo lc r = (case lc of None \<Rightarrow> []
     | Some lc \<Rightarrow>
         (if lc_tid lc \<noteq> r_tid r
          then fvals_words [VAddr (jo_switch jo), V32 (r_tid r)] @
            (if r_idepth r \<noteq> 0 then fvals_words [VAddr (jo_sigdepth jo), V32 (r_idepth r)] else [])
          else if lc_idepth lc \<noteq> r_idepth r then fvals_words [VAddr (jo_sigdepth jo), V32 (r_idepth r)]
          else []))"

lemma flush_prefix_words:
  "concat (map (iov_words jo i rs) (flush_prefix lc (rs ! i))) = context_words jo lc (rs ! i)"
  "sum_list (map v_len (flush_prefix lc r)) = 4 * int (length (context_words jo lc r))"
  "\<forall>v\<in>set (flush_prefix lc r). 0 \<le> v_len v" "length (flush_prefix lc r) \<le> 2"
  by (auto simp: flush_prefix_def context_words_def iov_words_def switch_size_def sigdepth_size_def
      layout_size_def rvp_fork_join_switch_t_def rvp_sigdepth_t_def Let_def split: option.splits)

lemma iov_bytes_to_iovec:
  "\<forall>v\<in>set vs. 0 \<le> v_len v \<Longrightarrow> iov_bytes (map (to_iovec lay) vs) = sum_list (map v_len vs)"
  by (induction vs) (simp_all add: iov_bytes_def to_iovec_def)

lemma contents_empty_iff: "ring_ok r \<Longrightarrow> ring_contents r = [] \<longleftrightarrow> r_consumer r = r_producer r"
proof -
  assume ok: "ring_ok r"
  have "ring_contents r = [] \<longleftrightarrow> length (ring_contents r) = 0" by (simp del: length_ring_contents)
  also have "\<dots> \<longleftrightarrow> cdist (Suc (r_last r)) (r_consumer r) (r_producer r) = 0"
    using ok by (simp add: ring_nfull_eq)
  also have "\<dots> \<longleftrightarrow> r_consumer r = r_producer r"
    using ok by (simp add: cdist_0_iff ring_ok_def)
  finally show ?thesis .
qed

lemma flush_empty:
  assumes "i < length rs" "ring_ok (rs ! i)" "uninterrupted (rs ! i)" "ring_contents (rs ! i) = []"
    and "lc = None \<longrightarrow> r_idepth (rs ! i) = 0"
  shows "rvp_ring_flush_to_fd jo lay writev adv (Suc (Suc fuel)) i lc rs sz s = Inr (0, lc, rs, sz, s)"
proof -
  have e: "r_consumer (rs ! i) = r_producer (rs ! i)" using assms by (simp add: contents_empty_iff)
  have "length (flush_prefix lc (rs ! i)) + 3 \<le> 20" using flush_prefix_words(4) [of lc "rs ! i"] by simp
  note g = get_iovs_uninterrupted [OF assms(1,3) this assms(2), of jo fuel]
  have d: "(if lc = None then 0 else r_idepth (rs ! i)) = r_idepth (rs ! i)" using assms(5) by simp
  show ?thesis
    unfolding rvp_ring_flush_to_fd_def Let_def d drop_empties_uninterrupted [OF assms(1,3)]
    using g assms(1,5) e by (cases lc) (simp_all add: get_ring_def Let_def del: rvp_ring_get_iovs.simps)
qed

lemma flush_words:
  assumes "faithful_kernel moved writev" "progressing_kernel writev"
    and i: "i < length rs" and r: "ring_ok (rs ! i)" "uninterrupted (rs ! i)" "ring_contents (rs ! i) \<noteq> []"
    and lc: "lc = None \<longrightarrow> r_idepth (rs ! i) = 0"
    and adv: "length (adv rs) = length rs" "grown (rs ! i) (adv rs ! i)"
  shows "\<exists>s'. let r = rs ! i; ws = context_words jo lc r @ ring_contents r in
     rvp_ring_flush_to_fd jo lay writev adv (Suc (Suc fuel)) i lc rs sz s = Inr (-1, lc, rs, sz, s') \<or>
     (\<exists>iovs. rvp_ring_flush_to_fd jo lay writev adv (Suc (Suc fuel)) i lc rs sz s =
         Inr (1, map_option (\<lambda>_. \<lparr> lc_tid = r_tid r, lc_idepth = r_idepth r \<rparr>) lc,
           (adv rs)[i := (adv rs ! i)\<lparr> r_consumer := r_producer r \<rparr>], sz + 4 * int (length ws), s') \<and>
       concat (map (iov_words jo i rs) iovs) = ws \<and>
       moved s' = moved s @ iov_addrs (map (to_iovec lay) iovs))"
proof -
  let ?r = "rs ! i"
  let ?a = "r_consumer ?r" and ?b = "r_producer ?r"
  let ?pre = "flush_prefix lc ?r"
  let ?iovs = "?pre @ span_iovs i ?r ?a ?b"
  let ?ws = "context_words jo lc ?r @ ring_contents ?r"
  have ne: "?a \<noteq> ?b" using r by (simp add: contents_empty_iff)
  have le: "?a \<le> r_last ?r" "?b \<le> r_last ?r" using r(1) by (simp_all add: ring_ok_def)
  have words: "concat (map (iov_words jo i rs) ?iovs) = ?ws"
    using iov_words_span [OF r(1) refl le ne, of jo i] flush_prefix_words(1) [of jo i rs lc]
    by (simp add: span_words_contents [OF r(1)])
  have len: "iov_bytes (map (to_iovec lay) ?iovs) = 4 * int (length ?ws)"
    using iov_bytes_to_iovec [of ?iovs lay] flush_prefix_words(2,3) [of lc ?r]
      span_iovs_bytes [OF r(1) le ne, of i]
    by (auto simp: span_words_contents [OF r(1)] ball_Un)
  obtain n s' where w: "writeallv writev s (map (to_iovec lay) ?iovs) = Inr (n, s')"
    "n = -1 \<or> n = 4 * int (length ?ws) \<and> moved s' = moved s @ iov_addrs (map (to_iovec lay) ?iovs)"
    using writeallv_complete [OF assms(1,2)] len by metis
  have "length ?pre + 3 \<le> 20" using flush_prefix_words(4) [of lc ?r] by simp
  note g = get_iovs_uninterrupted [OF i r(2) this r(1), of jo fuel]
  have d: "(if lc = None then 0 else r_idepth ?r) = r_idepth ?r" using lc by simp
  obtain res where disc: "rvp_ring_discard_iovs (Suc (Suc fuel)) i None (adv rs) (span_iovs i ?r ?a ?b) (r_idepth ?r) =
      Inr (res, (adv rs)[i := (adv rs ! i)\<lparr> r_consumer := ?b \<rparr>], [], r_idepth ?r)" "res \<le> 0"
    using discard_uninterrupted [OF _ r(1) adv(2) ne, of fuel] i adv(1) by auto
  have "0 < length (ring_contents ?r)" using r(3) by (simp del: length_ring_contents)
  then have pos: "0 < 4 * int (length ?ws) - sum_list (map v_len ?pre)"
    using flush_prefix_words(2) [of lc ?r jo] by simp
  have flush: "rvp_ring_flush_to_fd jo lay writev adv (Suc (Suc fuel)) i lc rs sz s =
      (if n = -1 then Inr (-1, lc, rs, sz, s')
       else Inr (1, map_option (\<lambda>_. \<lparr> lc_tid = r_tid ?r, lc_idepth = r_idepth ?r \<rparr>) lc,
         (adv rs)[i := (adv rs ! i)\<lparr> r_consumer := ?b \<rparr>], sz + 4 * int (length ?ws), s'))"
    unfolding rvp_ring_flush_to_fd_def Let_def d drop_empties_uninterrupted [OF i r(2)]
    using g i ne w pos disc lc
    by (cases lc) (auto simp: get_ring_def Let_def length_span_iovs
        simp del: rvp_ring_get_iovs.simps rvp_ring_discard_iovs.simps)
  show ?thesis
  proof (cases "n = -1")
    case False
    then show ?thesis
      unfolding Let_def flush using w(2) words by (intro exI [of _ s'] disjI2 exI [of _ ?iovs]) simp
  qed (simp add: Let_def flush)
qed

section \<open>Gathering around an interruption\<close>

definition depth_words :: "rvp_jumpless_op \<Rightarrow> rvp_ring \<Rightarrow> u32 list" where
  "depth_words jo r = fvals_words [VAddr (jo_sigdepth jo), V32 (r_idepth r)]"

text \<open>
  A handler that interrupts at \<open>a\<close> a sequence whose ring has no other interruption, logs on
  ring \<open>q\<close> from the consumer pointer up to \<open>b\<close>, and is not itself interrupted.
\<close>

definition interrupted_once ::
    "rings \<Rightarrow> rid \<Rightarrow> rid \<Rightarrow> nat \<Rightarrow> rvp_interruption \<Rightarrow> nat \<Rightarrow> nat \<Rightarrow> bool" where
  "interrupted_once rs i q k it a b \<longleftrightarrow>
     (let r = rs ! i; qr = rs ! q in
      i < length rs \<and> q < length rs \<and> i \<noteq> q \<and> ring_ok r \<and> ring_ok qr \<and> r_idepth r \<noteq> r_idepth qr \<and>
      rvp_ring_first_interruption r = Some k \<and> rvp_ring_next_interruption r k = None \<and>
      get_it r k = Inr it \<and> it_interruptor it = q \<and> it_interrupted_idx it = int a \<and> a \<le> r_last r \<and>
      ring_pos r a \<le> ring_pos r (r_producer r) \<and> uninterrupted qr \<and>
      it_interruptor_sidx it = int (r_consumer qr) \<and> b \<le> r_last qr \<and> b \<noteq> r_consumer qr \<and>
      ring_pos qr b \<le> ring_pos qr (r_producer qr) \<and>
      (if it_interruptor_eidx it < 0 then b = r_producer qr else it_interruptor_eidx it = int b))"

lemma ring_pos_consumer [simp]: "ring_pos r (r_consumer r) = 0"
  by (simp add: ring_pos_def)

lemma ring_pos_eq_0: "ring_ok r \<Longrightarrow> a \<le> r_last r \<Longrightarrow> ring_pos r a = 0 \<longleftrightarrow> a = r_consumer r"
  by (auto simp: ring_pos_def ring_ok_def cdist_cases)

lemma ring_pos_inj: "ring_ok r \<Longrightarrow> a \<le> r_last r \<Longrightarrow> b \<le> r_last r \<Longrightarrow> ring_pos r a = ring_pos r b \<longleftrightarrow> a = b"
  by (auto simp: ring_pos_def ring_ok_def cdist_cases)

lemma mark_depth_sel [simp]:
  "r_idepth (mark_depth jo r d) = r_idepth r" "r_last (mark_depth jo r d) = r_last r"
  "r_items (mark_depth jo r d) = r_items r" "r_iring (mark_depth jo r d) = r_iring r"
  "r_consumer (mark_depth jo r d) = r_consumer r" "r_producer (mark_depth jo r d) = r_producer r"
  "mark_depth jo r (r_idepth r) = r"
  "r_idepth r \<noteq> d \<Longrightarrow> r_sigdepth (mark_depth jo r d) = (jo_sigdepth jo, r_idepth r)"
  by (simp_all add: mark_depth_def)

lemma get_iovs_handler:
  assumes "interrupted_once rs i q k it a b" "length iovs + 3 \<le> 20" "idepth \<noteq> r_idepth (rs ! q)"
  shows "rvp_ring_get_iovs jo 20 (Suc (Suc fuel)) q (Some it) rs iovs idepth =
    (let qr = rs ! q; iovs' = iovs @ depth_iovs q qr idepth @ span_iovs q qr (r_consumer qr) b in
     Inr (if it_interruptor_eidx it < 0 then -1 else 20 - int (length iovs'),
          rs[q := mark_depth jo qr idepth], iovs', r_idepth qr))"
proof -
  let ?qr = "rs ! q"
  have q: "q < length rs" "ring_ok ?qr" "uninterrupted ?qr" "r_consumer ?qr \<noteq> b" "b \<le> r_last ?qr"
    "it_interruptor_sidx it = int (r_consumer ?qr)"
    and e: "rvp_interruption_get_end it ?qr = (int b, it_interruptor_eidx it < 0)"
    using assms(1) by (auto simp: interrupted_once_def Let_def rvp_interruption_get_end_def split: if_splits)
  have le: "r_consumer ?qr \<le> r_last ?qr" using q(2) by (simp add: ring_ok_def)
  have arc: "rvp_ring_cp_arc_contains_lr_arc ?qr (int (r_consumer ?qr)) (int (r_consumer ?qr))"
    using arc_iff [OF q(2) le le] by simp
  show ?thesis
    using q arc assms(2) get_between_span [OF q(4), of iovs 20 jo q ?qr idepth]
    by (simp add: get_ring_def e Let_def)
qed

lemma get_iovs_loop_step:
  assumes "int (length iovs) < lim" "get_ring rs i = Inr r" "get_it r k = Inr it"
    and "\<not> rvp_ring_cp_arc_contains_proper_lr_arc r (it_interrupted_idx it) first"
    and "\<not> rvp_ring_cp_arc_contains_proper_lr_arc r lst (it_interrupted_idx it)"
    and "(if rvp_ring_cp_arc_contains_proper_lr_arc r first (it_interrupted_idx it)
        then rvp_ring_get_iovs_between jo lim i r iovs first (it_interrupted_idx it) idepth
        else (lim - int (length iovs), r, iovs, idepth)) = (res, r', iovs', idepth')" "\<not> res < 0"
    and "get_ring (rs[i := r']) (it_interruptor it) = Inr qr" "r_idepth r' \<noteq> r_idepth qr"
    and "rvp_ring_get_iovs jo lim fuel (it_interruptor it) (Some it) (rs[i := r']) iovs' idepth' =
        Inr (res2, rs2, iovs2, idepth2)"
  shows "get_iovs_loop jo lim (Suc fuel) i (Some k) first lst rs iovs idepth =
     (if res2 < 0 then Inr (res2, it_interrupted_idx it, rs2, iovs2, idepth2)
      else get_iovs_loop jo lim fuel i (rvp_ring_next_interruption r' k) (it_interrupted_idx it) lst rs2 iovs2 idepth2)"
  unfolding get_iovs_loop.simps(2) Let_def using assms by simp

lemma get_iovs_interrupted:
  assumes once: "interrupted_once rs i q k it a b" and "length iovs \<le> 2"
  shows "let r = rs ! i; qr = rs ! q; c = r_consumer r; p = r_producer r;
      before = (if c = a then [] else span_iovs i r c a);
      handler = depth_iovs q qr (r_idepth r) @ span_iovs q qr (r_consumer qr) b;
      after = (if it_interruptor_eidx it < 0 \<or> a = p then [] else depth_iovs i r (r_idepth qr) @ span_iovs i r a p);
      rs1 = rs[q := mark_depth jo qr (r_idepth r)];
      rs2 = (if after = [] then rs1 else rs1[i := mark_depth jo r (r_idepth qr)])
    in \<exists>res. rvp_ring_get_iovs jo 20 (Suc (Suc (Suc (Suc fuel)))) i None rs iovs (r_idepth r) =
      Inr (res, rs2, iovs @ before @ handler @ after, if after = [] then r_idepth qr else r_idepth r)"
proof -
  let ?r = "rs ! i" and ?qr = "rs ! q"
  let ?c = "r_consumer ?r" and ?p = "r_producer ?r"
  let ?before = "if ?c = a then [] else span_iovs i ?r ?c a"
  note o = once [unfolded interrupted_once_def Let_def]
  have ok: "ring_ok ?r" "i < length rs" "q < length rs" "i \<noteq> q" "a \<le> r_last ?r" "r_idepth ?r \<noteq> r_idepth ?qr"
    and it: "rvp_ring_first_interruption ?r = Some k" "rvp_ring_next_interruption ?r k = None"
      "get_it ?r k = Inr it" "it_interruptor it = q" "it_interrupted_idx it = int a"
    and pos: "ring_pos ?r a \<le> ring_pos ?r ?p"
    using o by auto
  have le: "?c \<le> r_last ?r" "?p \<le> r_last ?r" using ok(1) by (simp_all add: ring_ok_def)
  have arcs: "\<not> rvp_ring_cp_arc_contains_proper_lr_arc ?r (int a) (int ?c)"
    "\<not> rvp_ring_cp_arc_contains_proper_lr_arc ?r (int ?p) (int a)"
    "rvp_ring_cp_arc_contains_proper_lr_arc ?r (int ?c) (int a) \<longleftrightarrow> ?c \<noteq> a"
    using proper_arc_iff [OF ok(1) ok(5) le(1)] proper_arc_iff [OF ok(1) le(2) ok(5)]
      proper_arc_iff [OF ok(1) le(1) ok(5)] pos ring_pos_eq_0 [OF ok(1,5)]
    by auto
  have lb: "length ?before \<le> 2" by (simp add: length_span_iovs)
  have b: "(if rvp_ring_cp_arc_contains_proper_lr_arc ?r (int ?c) (int a)
      then rvp_ring_get_iovs_between jo 20 i ?r iovs (int ?c) (int a) (r_idepth ?r)
      else (20 - int (length iovs), ?r, iovs, r_idepth ?r)) =
      (20 - int (length (iovs @ ?before)), ?r, iovs @ ?before, r_idepth ?r)"
    using arcs(3) assms(2) get_between_span [of ?c a iovs 20 jo i ?r "r_idepth ?r"]
    by (simp add: depth_iovs_def)
  have res: "\<not> 20 - int (length (iovs @ ?before)) < 0" using lb assms(2) by simp
  have l3: "length (iovs @ ?before) + 3 \<le> 20" using lb assms(2) by simp
  note h = get_iovs_handler [OF once l3 ok(6), of jo fuel]
  let ?iovs = "(iovs @ ?before) @ depth_iovs q ?qr (r_idepth ?r) @ span_iovs q ?qr (r_consumer ?qr) b"
  let ?rs = "rs[q := mark_depth jo ?qr (r_idepth ?r)]"
  have li: "length ?iovs \<le> 8" using lb assms(2) by (auto simp: length_span_iovs depth_iovs_def)
  have rsi: "?rs ! i = ?r" using ok(4) by simp
  have ri: "get_ring rs i = Inr ?r" using ok(2) by (simp add: get_ring_def)
  have qi: "get_ring (rs[i := ?r]) (it_interruptor it) = Inr ?qr" using ok(3) it(4) by (simp add: get_ring_def)
  have h': "rvp_ring_get_iovs jo 20 (Suc (Suc fuel)) (it_interruptor it) (Some it) (rs[i := ?r]) (iovs @ ?before) (r_idepth ?r) =
      Inr (if it_interruptor_eidx it < 0 then -1 else 20 - int (length ?iovs), ?rs, ?iovs, r_idepth ?qr)"
    using h it(4) by (simp only: list_update_id Let_def)
  have loop: "get_iovs_loop jo 20 (Suc (Suc (Suc fuel))) i (Some k) (int ?c) (int ?p) rs iovs (r_idepth ?r) =
     (if it_interruptor_eidx it < 0 then Inr (-1, int a, ?rs, ?iovs, r_idepth ?qr)
      else Inr (20 - int (length ?iovs), int a, ?rs, ?iovs, r_idepth ?qr))"
    using get_iovs_loop_step [OF _ ri it(3) _ _ b [folded it(5)] res qi ok(6) h'] assms(2) arcs it(2,5) li
    by (simp add: get_iovs_loop.simps del: rvp_ring_get_iovs.simps)
  show ?thesis
  proof (cases "it_interruptor_eidx it < 0 \<or> a = ?p")
    case True
    then show ?thesis
      unfolding Let_def rvp_ring_get_iovs.simps(2) [of jo 20 "Suc (Suc (Suc fuel))"]
      using ok it loop rsi li
      by (auto simp: get_ring_def rvp_ring_get_iovs_between_def list_update_swap simp del: get_iovs_loop.simps)
  next
    case False
    have ap: "a \<noteq> ?p" using False by simp
    have ne: "depth_iovs i ?r (r_idepth ?qr) @ span_iovs i ?r a ?p \<noteq> []" by (simp add: span_iovs_def)
    show ?thesis
      unfolding Let_def rvp_ring_get_iovs.simps(2) [of jo 20 "Suc (Suc (Suc fuel))"]
      using False ok it loop rsi li ne get_between_span [OF ap, of ?iovs 20 jo i ?r "r_idepth ?qr"]
      by (auto simp: get_ring_def Let_def simp del: get_iovs_loop.simps)
  qed
qed

lemma iov_words_depth:
  "r_sigdepth (rs ! j) = (jo_sigdepth jo, r_idepth r) \<Longrightarrow>
   iov_words jo i rs \<lparr> v_base = SigdepthOf j, v_len = n \<rparr> = depth_words jo r"
  by (simp add: iov_words_def depth_words_def)

lemma interrupted_words:
  assumes once: "interrupted_once rs i q k it a b" and "length iovs \<le> 2"
  shows "\<exists>res rs' iovs' d. rvp_ring_get_iovs jo 20 (Suc (Suc (Suc (Suc fuel)))) i None rs iovs (r_idepth (rs ! i)) =
      Inr (res, rs', iovs @ iovs', d) \<and>
    (let r = rs ! i; qr = rs ! q; n = ring_pos r a in
     concat (map (iov_words jo i rs') iovs') =
       take n (ring_contents r) @ depth_words jo qr @ take (ring_pos qr b) (ring_contents qr) @
       (if it_interruptor_eidx it < 0 \<or> length (ring_contents r) = n then []
        else depth_words jo r @ drop n (ring_contents r)))"
proof -
  let ?r = "rs ! i" and ?qr = "rs ! q"
  let ?c = "r_consumer ?r" and ?p = "r_producer ?r"
  let ?before = "if ?c = a then [] else span_iovs i ?r ?c a"
  let ?handler = "depth_iovs q ?qr (r_idepth ?r) @ span_iovs q ?qr (r_consumer ?qr) b"
  let ?after = "if it_interruptor_eidx it < 0 \<or> a = ?p then []
      else depth_iovs i ?r (r_idepth ?qr) @ span_iovs i ?r a ?p"
  let ?rs1 = "rs[q := mark_depth jo ?qr (r_idepth ?r)]"
  let ?rs2 = "if ?after = [] then ?rs1 else ?rs1[i := mark_depth jo ?r (r_idepth ?qr)]"
  note o = once [unfolded interrupted_once_def Let_def]
  have ok: "ring_ok ?r" "ring_ok ?qr" "i < length rs" "q < length rs" "i \<noteq> q" "a \<le> r_last ?r"
    "r_idepth ?r \<noteq> r_idepth ?qr" "b \<le> r_last ?qr" "b \<noteq> r_consumer ?qr"
    and pos: "ring_pos ?r a \<le> ring_pos ?r ?p" "ring_pos ?qr b \<le> ring_pos ?qr (r_producer ?qr)"
    using o by auto
  have le: "?c \<le> r_last ?r" "?p \<le> r_last ?r" "r_consumer ?qr \<le> r_last ?qr" using ok(1,2) by (simp_all add: ring_ok_def)
  have items: "r_items (?rs2 ! i) = r_items ?r" "r_items (?rs2 ! q) = r_items ?qr"
    and marks: "r_sigdepth (?rs2 ! q) = (jo_sigdepth jo, r_idepth ?qr)"
      "?after \<noteq> [] \<Longrightarrow> r_sigdepth (?rs2 ! i) = (jo_sigdepth jo, r_idepth ?r)"
    using ok by (auto simp: nth_list_update)
  have span: "span_words ?r ?c a = take (ring_pos ?r a) (ring_contents ?r)"
    "span_words ?qr (r_consumer ?qr) b = take (ring_pos ?qr b) (ring_contents ?qr)"
    using consume_span(3) [OF ok(1) pos(1) ok(6)] consume_span(3) [OF ok(2) pos(2) ok(8)] by simp_all
  have rest: "span_words ?r a ?p = drop (ring_pos ?r a) (ring_contents ?r)"
    using consume_span(1,2) [OF ok(1) pos(1) ok(6)] span_words_contents [of "?r\<lparr> r_consumer := a \<rparr>"]
    by (simp add: span_words_def)
  have n: "length (ring_contents ?r) = ring_pos ?r a \<longleftrightarrow> a = ?p"
    using ring_pos_inj [OF ok(1) ok(6) le(2)] by (auto simp: ring_nfull_eq [OF ok(1)] ring_pos_def)
  have w1: "concat (map (iov_words jo i ?rs2) ?before) = take (ring_pos ?r a) (ring_contents ?r)"
    using iov_words_span [OF ok(1) items(1) le(1) ok(6), of jo i] span(1) by (auto simp: ring_pos_eq_0 [OF ok(1,6)])
  have w2: "concat (map (iov_words jo i ?rs2) ?handler) = depth_words jo ?qr @ take (ring_pos ?qr b) (ring_contents ?qr)"
    using iov_words_span [OF ok(2) items(2) le(3) ok(8), of jo i] span(2) ok(7,9) iov_words_depth [OF marks(1), of i sigdepth_size]
    by (simp add: depth_iovs_def)
  have w3: "concat (map (iov_words jo i ?rs2) ?after) =
      (if it_interruptor_eidx it < 0 \<or> length (ring_contents ?r) = ring_pos ?r a then []
       else depth_words jo ?r @ drop (ring_pos ?r a) (ring_contents ?r))"
  proof (cases "it_interruptor_eidx it < 0 \<or> a = ?p")
    case False
    then have ne: "?after \<noteq> []" by (simp add: span_iovs_def)
    show ?thesis
      using False iov_words_span [OF ok(1) items(1) ok(6) le(2), of jo i] rest ok(7) n
        iov_words_depth [OF marks(2) [OF ne], of i sigdepth_size]
      by (simp add: depth_iovs_def)
  qed (use n in auto)
  have cat: "concat (map f (xs @ ys @ zs)) = concat (map f xs) @ concat (map f ys) @ concat (map f zs)"
    for f :: "ser_iovec \<Rightarrow> u32 list" and xs ys zs by simp
  obtain res where g: "rvp_ring_get_iovs jo 20 (Suc (Suc (Suc (Suc fuel)))) i None rs iovs (r_idepth ?r) =
      Inr (res, ?rs2, iovs @ ?before @ ?handler @ ?after, if ?after = [] then r_idepth ?qr else r_idepth ?r)"
    using get_iovs_interrupted [OF once assms(2), of jo fuel] unfolding Let_def by blast
  have "concat (map (iov_words jo i ?rs2) (?before @ ?handler @ ?after)) =
      take (ring_pos ?r a) (ring_contents ?r) @ depth_words jo ?qr @ take (ring_pos ?qr b) (ring_contents ?qr) @
       (if it_interruptor_eidx it < 0 \<or> length (ring_contents ?r) = ring_pos ?r a then []
        else depth_words jo ?r @ drop (ring_pos ?r a) (ring_contents ?r))"
    by (subst cat) (simp only: w1 w2 w3 append_assoc)
  then show ?thesis unfolding Let_def using g by blast
qed

section \<open>Properties\<close>

text \<open>
  C3. Flushing a thread's ring that no handler has interrupted writes the switch of threads and
  the change of signal depth that the reader needs, then exactly the words in the ring, oldest
  first, in whole, however they wrap around and whatever the thread puts meanwhile. Those words
  and no others leave the ring; the words put meanwhile stay. If the write fails, or the ring is
  empty, nothing changes. No assertion fires.
\<close>

theorem flush_writes_the_queue:
  assumes "faithful_kernel moved writev" "progressing_kernel writev"
    and "i < length rs" "ring_ok (rs ! i)" "uninterrupted (rs ! i)"
    and "lc = None \<longrightarrow> r_idepth (rs ! i) = 0"
    and "length (adv rs) = length rs" "grown (rs ! i) (adv rs ! i)"
  shows "let r = rs ! i; ws = context_words jo lc r @ ring_contents r;
      flush = rvp_ring_flush_to_fd jo lay writev adv (Suc (Suc fuel)) i lc rs sz s
    in if ring_contents r = [] then flush = Inr (0, lc, rs, sz, s)
       else \<exists>s'. flush = Inr (-1, lc, rs, sz, s') \<or>
         (\<exists>iovs rs'. flush = Inr (1, map_option (\<lambda>_. \<lparr> lc_tid = r_tid r, lc_idepth = r_idepth r \<rparr>) lc,
             rs', sz + 4 * int (length ws), s') \<and>
           concat (map (iov_words jo i rs) iovs) = ws \<and>
           moved s' = moved s @ iov_addrs (map (to_iovec lay) iovs) \<and>
           ring_contents (rs' ! i) = drop (length (ring_contents r)) (ring_contents (adv rs ! i)) \<and>
           (\<forall>j. j \<noteq> i \<longrightarrow> rs' ! j = adv rs ! j))"
proof (cases "ring_contents (rs ! i) = []")
  case True
  then show ?thesis using flush_empty [OF assms(3-5) True assms(6)] by (simp add: Let_def)
next
  case False
  let ?r = "rs ! i" and ?r' = "adv rs ! i"
  have "ring_contents (?r'\<lparr> r_consumer := r_producer ?r \<rparr>) = drop (length (ring_contents ?r)) (ring_contents ?r')"
    using grown_pos [OF assms(4,8)] consume_span(2) [of ?r' "r_producer ?r"] assms(8)
    by (simp add: grown_def del: length_ring_contents)
  then have r': "ring_contents ((adv rs)[i := ?r'\<lparr> r_consumer := r_producer ?r \<rparr>] ! i) =
      drop (length (ring_contents ?r)) (ring_contents ?r')"
    using assms(3,7) by (simp del: length_ring_contents)
  obtain s' where "let r = ?r; ws = context_words jo lc r @ ring_contents r in
     rvp_ring_flush_to_fd jo lay writev adv (Suc (Suc fuel)) i lc rs sz s = Inr (-1, lc, rs, sz, s') \<or>
     (\<exists>iovs. rvp_ring_flush_to_fd jo lay writev adv (Suc (Suc fuel)) i lc rs sz s =
         Inr (1, map_option (\<lambda>_. \<lparr> lc_tid = r_tid r, lc_idepth = r_idepth r \<rparr>) lc,
           (adv rs)[i := ?r'\<lparr> r_consumer := r_producer r \<rparr>], sz + 4 * int (length ws), s') \<and>
       concat (map (iov_words jo i rs) iovs) = ws \<and>
       moved s' = moved s @ iov_addrs (map (to_iovec lay) iovs))"
    using flush_words [OF assms(1-5) False assms(6), where adv = adv, OF assms(7,8), of jo lay fuel sz s] by blast
  then consider "rvp_ring_flush_to_fd jo lay writev adv (Suc (Suc fuel)) i lc rs sz s = Inr (-1, lc, rs, sz, s')"
    | iovs where "rvp_ring_flush_to_fd jo lay writev adv (Suc (Suc fuel)) i lc rs sz s =
         Inr (1, map_option (\<lambda>_. \<lparr> lc_tid = r_tid ?r, lc_idepth = r_idepth ?r \<rparr>) lc,
           (adv rs)[i := ?r'\<lparr> r_consumer := r_producer ?r \<rparr>],
           sz + 4 * int (length (context_words jo lc ?r @ ring_contents ?r)), s')"
       "concat (map (iov_words jo i rs) iovs) = context_words jo lc ?r @ ring_contents ?r"
       "moved s' = moved s @ iov_addrs (map (to_iovec lay) iovs)"
    unfolding Let_def by blast
  then show ?thesis
  proof cases
    case 2
    moreover have "\<forall>j. j \<noteq> i \<longrightarrow> (adv rs)[i := ?r'\<lparr> r_consumer := r_producer ?r \<rparr>] ! j = adv rs ! j"
      by simp
    ultimately show ?thesis unfolding Let_def if_not_P [OF False] using r' by blast
  qed (unfold Let_def if_not_P [OF False], blast)
qed

text \<open>
  C4. Around an interruption the events are gathered in the order in which they happened: the
  interrupted sequence's words up to the point of the interruption, a change to the handler's
  depth, the handler's words, and, only if the handler has finished, a change back and the words
  that the sequence logged after it.
\<close>

theorem interruption_in_order:
  assumes "interrupted_once rs i q k it a b" "length iovs \<le> 2"
  shows "\<exists>res rs' iovs' d. rvp_ring_get_iovs jo 20 (Suc (Suc (Suc (Suc fuel)))) i None rs iovs (r_idepth (rs ! i)) =
      Inr (res, rs', iovs @ iovs', d) \<and>
    (let r = rs ! i; qr = rs ! q; n = ring_pos r a in
     concat (map (iov_words jo i rs') iovs') =
       take n (ring_contents r) @ depth_words jo qr @ take (ring_pos qr b) (ring_contents qr) @
       (if it_interruptor_eidx it < 0 \<or> length (ring_contents r) = n then []
        else depth_words jo r @ drop n (ring_contents r)))"
  by (rule interrupted_words [OF assms])

text \<open>
  C14. Gathering and discarding agree on a span: the vectors that \<open>rvp_ring_get_iovs_between\<close>
  fills hold the change of depth, if there is one, and the words between the two indices; and
  \<open>rvp_ring_discard_iovs_between\<close>, given them, passes all its assertions, uses them up, and takes
  exactly these words off the ring.
\<close>

theorem discard_undoes_get:
  assumes "i < length rs" "ring_ok r" "b \<le> r_last r" "b \<noteq> r_consumer r" "ring_pos r b \<le> ring_pos r (r_producer r)"
    and "rvp_ring_get_iovs_between jo 20 i r [] (int (r_consumer r)) (int b) idepth = (res, r1, iovs, d)"
  shows "\<exists>r2. rvp_ring_discard_iovs_between i r1 (iovs @ vs) (int (r_consumer r)) idepth = Inr (int (length vs), r2, vs, d) \<and>
     ring_ok r2 \<and> ring_contents r2 = drop (ring_pos r b) (ring_contents r) \<and>
     concat (map (iov_words jo i (rs[i := r1])) iovs) =
       (if r_idepth r \<noteq> idepth then depth_words jo r else []) @ take (ring_pos r b) (ring_contents r)"
proof -
  let ?r1 = "mark_depth jo r idepth"
  have g: "r1 = ?r1" "iovs = depth_iovs i r idepth @ span_iovs i r (r_consumer r) b" "d = r_idepth r"
    using assms(6) get_between_span [OF assms(4) [symmetric], of "[]" 20 jo i r idepth] by (simp_all add: Let_def)
  have le: "r_consumer r \<le> r_last r" using assms(2) by (simp add: ring_ok_def)
  have ok1: "ring_ok ?r1" using assms(2) by (simp add: ring_ok_def)
  have c: "ring_contents (?r1\<lparr> r_consumer := b \<rparr>) = ring_contents (r\<lparr> r_consumer := b \<rparr>)"
    "ring_ok (?r1\<lparr> r_consumer := b \<rparr>) = ring_ok (r\<lparr> r_consumer := b \<rparr>)"
    by (simp_all add: mark_depth_def ring_contents_def rvp_ring_nfull_def ring_ok_def)
  have iovs1: "iovs = depth_iovs i ?r1 idepth @ span_iovs i ?r1 (r_consumer r) b"
    by (simp add: g depth_iovs_def span_iovs_def)
  have "rvp_ring_discard_iovs_between i r1 (iovs @ vs) (int (r_consumer r)) idepth =
      Inr (int (length vs), ?r1\<lparr> r_consumer := b \<rparr>, vs, d)"
    using discard_between_span [OF ok1, of "r_consumer r" b i idepth vs] assms(3,4) unfolding iovs1
    by (simp add: g(1,3))
  moreover have "concat (map (iov_words jo i (rs[i := r1])) (span_iovs i r (r_consumer r) b)) =
      take (ring_pos r b) (ring_contents r)"
    using iov_words_span [OF assms(2) _ le assms(3) assms(4) [symmetric], of "rs[i := r1]" i jo i]
      consume_span(3) [OF assms(2,5,3)] assms(1) by (simp add: g(1))
  moreover have "concat (map (iov_words jo i (rs[i := r1])) (depth_iovs i r idepth)) =
      (if r_idepth r \<noteq> idepth then depth_words jo r else [])"
    using assms(1) iov_words_depth [of "rs[i := r1]" i jo r i sigdepth_size] by (simp add: depth_iovs_def g(1))
  ultimately show ?thesis
    using consume_span(1,2) [OF assms(2,5,3)] c by (simp add: g(2))
qed

section \<open>Witnesses\<close>

definition sample_ring :: rvp_ring where
  "sample_ring = ring_push (e_ring (sample_env 0 8)) [1, 2, 3]"

lemma sample_ring_ok: "ring_ok sample_ring" "uninterrupted sample_ring" "ring_contents sample_ring = [1, 2, 3]"
    "r_idepth sample_ring = 0" "r_tid sample_ring = 1"
proof -
  have r: "ring_ok (e_ring (sample_env 0 8))" "ring_contents (e_ring (sample_env 0 8)) = []"
    using sample_env_ok [of 8 0] by (simp_all add: env_ok_def)
  show "ring_ok sample_ring" using r(1) by (simp add: sample_ring_def)
  show "uninterrupted sample_ring" by (simp add: sample_ring_def uninterrupted_def sample_env_def)
  show "ring_contents sample_ring = [1, 2, 3]"
    using contents_push [OF r(1), of "[1, 2, 3]"] r(2)
    by (simp add: sample_ring_def) (simp add: sample_env_def rvp_ring_nfull_def rvp_ring_capacity_def)
  show "r_idepth sample_ring = 0" "r_tid sample_ring = 1" by (simp_all add: sample_ring_def sample_env_def)
qed

lemma flush_writes_the_queue_witness:
  "\<exists>n lc rs' sz s'. rvp_ring_flush_to_fd (rvp_deltop_init 0x400000) (\<lambda>_. 0) byte_kernel (\<lambda>rs. rs) 2 0
      (Some \<lparr> lc_tid = 1, lc_idepth = 0 \<rparr>) [sample_ring] 0 [] = Inr (n, lc, rs', sz, s') \<and>
    (n = -1 \<or> sz = 12 \<and> ring_contents (rs' ! 0) = [])"
proof -
  have g: "grown sample_ring sample_ring" by (rule grown_refl [OF sample_ring_ok(1,2)])
  have ne: "ring_contents ([sample_ring] ! 0) \<noteq> []" by (simp add: sample_ring_ok)
  have c: "context_words (rvp_deltop_init 0x400000) (Some \<lparr> lc_tid = 1, lc_idepth = 0 \<rparr>) sample_ring = []"
    by (simp add: context_words_def sample_ring_ok)
  have n2: "Suc (Suc 0) = 2" by simp
  note f = flush_writes_the_queue [OF byte_kernel_ok, of 0 "[sample_ring]" "Some \<lparr> lc_tid = 1, lc_idepth = 0 \<rparr>",
      where adv = "\<lambda>rs. rs" and jo = "rvp_deltop_init 0x400000" and lay = "\<lambda>_. 0" and fuel = 0 and sz = 0 and s = "[]",
      unfolded Let_def if_not_P [OF ne] n2]
  have "ring_ok ([sample_ring] ! 0)" "uninterrupted ([sample_ring] ! 0)" "0 < length [sample_ring]"
    "grown ([sample_ring] ! 0) ([sample_ring] ! 0)" "Some \<lparr> lc_tid = 1, lc_idepth = 0 \<rparr> = None \<longrightarrow> r_idepth ([sample_ring] ! 0) = 0"
    using sample_ring_ok g by simp_all
  from f [OF this(3,1,2,5) refl this(4)] show ?thesis
    by (auto simp: sample_ring_ok c simp del: length_ring_contents)
qed

definition sample_rings :: rings where
  "sample_rings = [sample_ring\<lparr> r_iring := (r_iring sample_ring)\<lparr> ir_producer := 1,
       ir_items := (ir_items (r_iring sample_ring))[0 := \<lparr> it_interruptor = 1, it_interrupted_idx = 2,
         it_interruptor_sidx = 0, it_interruptor_eidx = 3 \<rparr>] \<rparr> \<rparr>,
     sample_ring\<lparr> r_idepth := 1 \<rparr>]"

lemma interruption_in_order_witness:
  "\<exists>res rs' iovs d. rvp_ring_get_iovs (rvp_deltop_init 0x400000) 20 4 0 None sample_rings [] 0 = Inr (res, rs', iovs, d) \<and>
     concat (map (iov_words (rvp_deltop_init 0x400000) 0 rs') iovs) =
       [1, 2] @ depth_words (rvp_deltop_init 0x400000) (sample_rings ! 1) @ [1, 2, 3] @
       depth_words (rvp_deltop_init 0x400000) (sample_rings ! 0) @ [3]"
proof -
  have o: "interrupted_once sample_rings 0 1 0 \<lparr> it_interruptor = 1, it_interrupted_idx = 2,
         it_interruptor_sidx = 0, it_interruptor_eidx = 3 \<rparr> 2 3"
    by code_simp
  have c: "ring_contents (sample_rings ! 0) = [1, 2, 3]" "ring_contents (sample_rings ! Suc 0) = [1, 2, 3]"
    "ring_pos (sample_rings ! 0) 2 = 2" "ring_pos (sample_rings ! Suc 0) 3 = 3" "r_idepth (sample_rings ! 0) = 0"
    by code_simp+
  have n4: "Suc (Suc (Suc (Suc 0))) = 4" by simp
  show ?thesis
    using interruption_in_order [OF o, of "[]" "rvp_deltop_init 0x400000" 0, unfolded n4 Let_def]
    by (simp add: c del: length_ring_contents)
qed

lemma discard_undoes_get_witness:
  "\<exists>res r1 iovs d r2. rvp_ring_get_iovs_between (rvp_deltop_init 0x400000) 20 0 sample_ring [] 0 3 1 = (res, r1, iovs, d) \<and>
     rvp_ring_discard_iovs_between 0 r1 (iovs @ []) 0 1 = Inr (0, r2, [], d) \<and> ring_contents r2 = []"
proof -
  have c: "r_consumer sample_ring = 0" "r_last sample_ring = 7" "ring_pos sample_ring 3 = 3" "r_producer sample_ring = 3"
    by (simp_all add: sample_ring_def sample_env_def ring_push_def ring_pos_def cdist_def)
  obtain res r1 iovs d where g: "rvp_ring_get_iovs_between (rvp_deltop_init 0x400000) 20 0 sample_ring [] 0 3 1 = (res, r1, iovs, d)"
    by (cases "rvp_ring_get_iovs_between (rvp_deltop_init 0x400000) 20 0 sample_ring [] 0 3 1") auto
  then show ?thesis
    using discard_undoes_get [of 0 "[sample_ring]" sample_ring 3 "rvp_deltop_init 0x400000" 1 res r1 iovs d "[]"]
      sample_ring_ok c by (simp del: length_ring_contents) blast
qed

end
