(* ===== verification/Specific.thy ===== *)
theory Specific
  imports Prelude "HOL-Library.Multiset"
begin

text \<open>
  Thread-specific data, \<^verbatim>\<open>llvm/ngrt/specific.c\<close>: the table of the keys that the program created,
  with their destructors, and each thread's table of its values, which the runtime keeps beside
  the C library's own so that it can run the destructors before its own data of the thread goes
  away. Deleting from either table moves the last entry into the gap.
\<close>

section \<open>The tables\<close>

text \<open>
  A key is a number; a destructor is a number that stands for the function; a value is a pointer.
\<close>

type_synonym pthread_key = nat
type_synonym destructor = nat

record kd_entry =
  kd_key :: pthread_key
  kd_destructor :: "destructor option"

record rvp_thrspec =
  ts_key :: pthread_key
  ts_value :: u64

text \<open>The index of the first entry with a key, or the number of entries.\<close>

fun find_key :: "('e \<Rightarrow> pthread_key) \<Rightarrow> 'e list \<Rightarrow> pthread_key \<Rightarrow> nat" where
    "find_key key [] k = 0"
  | "find_key key (e # es) k = (if key e = k then 0 else Suc (find_key key es k))"

definition swap_remove :: "'e list \<Rightarrow> nat \<Rightarrow> 'e list" where
  "swap_remove es i = butlast (es[i := last es])"

section \<open>The functions\<close>

text \<open>
  What the runtime asks of the C library: set the library's value of a key for the calling
  thread, or run a destructor on a value.
\<close>

datatype libcall = RealSet pthread_key u64 | Destruct destructor u64

text \<open>
  \<open>rc\<close> and \<open>key\<close> are what the library's \<open>pthread_key_create\<close> returned, \<open>realloc_ok\<close> whether there
  is memory; 12 is \<open>ENOMEM\<close>.
\<close>

definition rvpredict_pthread_key_create ::
    "int \<Rightarrow> pthread_key \<Rightarrow> bool \<Rightarrow> destructor option \<Rightarrow> kd_entry list \<Rightarrow> int \<times> kd_entry list" where
  "rvpredict_pthread_key_create rc key realloc_ok d kds =
     (if rc \<noteq> 0 then (rc, kds)
      else if \<not> realloc_ok then (12, kds)
      else (0, kds @ [\<lparr> kd_key = key, kd_destructor = d \<rparr>]))"

definition rvpredict_pthread_key_delete :: "int \<Rightarrow> pthread_key \<Rightarrow> kd_entry list \<Rightarrow> int \<times> kd_entry list" where
  "rvpredict_pthread_key_delete rc key kds =
     (if rc \<noteq> 0 then (rc, kds)
      else let i = find_key kd_key kds key in
        if i \<noteq> length kds then (0, swap_remove kds i) else (0, kds))"

definition rvpredict_pthread_setspecific ::
    "int \<Rightarrow> bool \<Rightarrow> kd_entry list \<Rightarrow> pthread_key \<Rightarrow> u64 \<Rightarrow> rvp_thrspec list \<Rightarrow> int \<times> rvp_thrspec list" where
  "rvpredict_pthread_setspecific rc realloc_ok kds key value ts =
     (if rc \<noteq> 0 then (rc, ts)
      else if find_key kd_key kds key = length kds then (0, ts)
      else let j = find_key ts_key ts key in
        if j = length ts \<and> value = 0 then (0, ts)
        else if j < length ts \<and> value \<noteq> 0 then (0, ts[j := (ts ! j)\<lparr> ts_value := value \<rparr>])
        else if j < length ts \<and> value = 0 then (0, swap_remove ts j)
        else if \<not> realloc_ok then (12, ts)
        else (0, ts @ [\<lparr> ts_key = key, ts_value = value \<rparr>]))"

section \<open>The lock\<close>

text \<open>
  A mutex guards the tables. It is an ordinary one: whoever asks for it while it is held waits, also
  the thread that holds it. A state is that of one thread, with its own table.
\<close>

record spec =
  sp_held :: bool
  sp_kds :: "kd_entry list"
  sp_ts :: "rvp_thrspec list"

definition kd_lock :: "spec \<Rightarrow> spec cres" where
  "kd_lock s = (if sp_held s then Inl Waiting else Inr (s\<lparr> sp_held := True \<rparr>))"

definition kd_unlock :: "spec \<Rightarrow> spec" where
  "kd_unlock s = s\<lparr> sp_held := False \<rparr>"

text \<open>The program's calls, with what the C library returned and whether there is memory.\<close>

datatype spec_call =
    KeyCreate int pthread_key bool "destructor option"
  | KeyDelete int pthread_key
  | SetSpecific int bool pthread_key u64

fun call_specific :: "spec_call \<Rightarrow> spec \<Rightarrow> (int \<times> spec) cres" where
    "call_specific (KeyCreate rc key ok d) s = cbind (kd_lock s) (\<lambda>s.
       let (rc, kds) = rvpredict_pthread_key_create rc key ok d (sp_kds s)
       in Inr (rc, kd_unlock (s\<lparr> sp_kds := kds \<rparr>)))"
  | "call_specific (KeyDelete rc key) s = cbind (kd_lock s) (\<lambda>s.
       let (rc, kds) = rvpredict_pthread_key_delete rc key (sp_kds s)
       in Inr (rc, kd_unlock (s\<lparr> sp_kds := kds \<rparr>)))"
  | "call_specific (SetSpecific rc ok key v) s = cbind (kd_lock s) (\<lambda>s.
       let (rc, ts) = rvpredict_pthread_setspecific rc ok (sp_kds s) key v (sp_ts s)
       in Inr (rc, kd_unlock (s\<lparr> sp_ts := ts \<rparr>)))"

section \<open>The end of a thread\<close>

text \<open>
  \<open>body d v\<close> are the calls that the program's destructor \<open>d\<close> makes when it is run on \<open>v\<close>. The
  destructors run in the loops of \<open>rvp_thread_destructor\<close>, with the lock held; the inner loop is for
  the values of one key. The tables that the loops run over are as they were at the start, since
  whoever would change them has to wait for the lock.
\<close>

fun run_calls :: "spec_call list \<Rightarrow> spec \<Rightarrow> spec cres" where
    "run_calls [] s = Inr s"
  | "run_calls (c # cs) s = cbind (call_specific c s) (\<lambda>(rc, s). run_calls cs s)"

fun destruct_values ::
    "(destructor \<Rightarrow> u64 \<Rightarrow> spec_call list) \<Rightarrow> kd_entry \<Rightarrow> rvp_thrspec list \<Rightarrow> spec \<Rightarrow> (libcall list \<times> spec) cres" where
    "destruct_values body k [] s = Inr ([], s)"
  | "destruct_values body k (t # ts) s =
       (if ts_key t \<noteq> kd_key k then destruct_values body k ts s
        else cbind (cassert (ts_value t \<noteq> 0)) (\<lambda>_.
             cbind (case kd_destructor k of
                 None \<Rightarrow> Inr ([], s)
               | Some d \<Rightarrow> cbind (run_calls (body d (ts_value t)) s) (\<lambda>s. Inr ([Destruct d (ts_value t)], s))) (\<lambda>(call, s).
             cbind (destruct_values body k ts s) (\<lambda>(calls, s). Inr (call @ calls, s)))))"

fun destruct_keys ::
    "(destructor \<Rightarrow> u64 \<Rightarrow> spec_call list) \<Rightarrow> kd_entry list \<Rightarrow> rvp_thrspec list \<Rightarrow> spec \<Rightarrow> (libcall list \<times> spec) cres" where
    "destruct_keys body [] ts s = Inr ([], s)"
  | "destruct_keys body (k # ks) ts s =
       cbind (destruct_values body k ts s) (\<lambda>(calls, s).
       cbind (destruct_keys body ks ts s) (\<lambda>(calls', s). Inr (calls @ calls', s)))"

text \<open>
  \<open>self\<close> is the runtime's own key, \<open>t\<close> the address of its record of the thread. The result
  holds what is asked of the library, in order, and the state afterwards.
\<close>

definition rvp_thread_destructor ::
    "(destructor \<Rightarrow> u64 \<Rightarrow> spec_call list) \<Rightarrow> pthread_key \<Rightarrow> u64 \<Rightarrow> spec \<Rightarrow> (libcall list \<times> spec) cres" where
  "rvp_thread_destructor body self t s =
     cbind (kd_lock s) (\<lambda>s.
     cbind (destruct_keys body (sp_kds s) (sp_ts s) s) (\<lambda>(calls, s).
     Inr ([RealSet self t] @ map (\<lambda>k. RealSet (kd_key k) 0) (sp_kds s) @ calls @ [RealSet self 0],
          kd_unlock (s\<lparr> sp_ts := [] \<rparr>))))"

text \<open>The destructor that the library knows for each of the program's keys.\<close>

definition rvp_destructor :: "spec \<Rightarrow> (libcall list \<times> spec) cres" where
  "rvp_destructor s = cbind (kd_lock s) (\<lambda>s. Inr (map (\<lambda>k. RealSet (kd_key k) 0) (sp_kds s), kd_unlock s))"

section \<open>Tables as maps\<close>

definition table_map :: "('e \<Rightarrow> pthread_key) \<Rightarrow> ('e \<Rightarrow> 'v) \<Rightarrow> 'e list \<Rightarrow> pthread_key \<rightharpoonup> 'v" where
  "table_map key val es = map_of (map (\<lambda>e. (key e, val e)) es)"

lemma find_key_le: "find_key key es k \<le> length es"
  by (induction es) auto

lemma find_key_less_iff: "find_key key es k < length es \<longleftrightarrow> k \<in> key ` set es"
  by (induction es) auto

lemma find_key_nth: "find_key key es k < length es \<Longrightarrow> key (es ! find_key key es k) = k"
  by (induction es) (auto split: if_splits)

lemma dom_table_map: "dom (table_map key val es) = key ` set es"
  by (auto simp: table_map_def dom_map_of_conv_image_fst image_image)

lemma absent_table: "k \<notin> key ` set es \<Longrightarrow> (table_map key val es)(k := None) = table_map key val es"
  using dom_table_map [of key val es] by (intro fun_upd_idem) blast

lemma table_map_Some_iff:
  "distinct (map key es) \<Longrightarrow> table_map key val es k = Some v \<longleftrightarrow> (\<exists>e\<in>set es. key e = k \<and> val e = v)"
  by (auto simp: table_map_def comp_def)

lemma table_map_eqI:
  assumes "distinct (map key es)" "distinct (map key es')"
    and "\<And>e. e \<in> set es' \<longleftrightarrow> e \<in> set es \<and> key e \<noteq> k"
  shows "table_map key val es' = (table_map key val es)(k := None)"
proof (rule map_le_antisym; unfold map_le_def; intro ballI)
  fix a
  assume "a \<in> dom (table_map key val es')"
  then obtain v where "table_map key val es' a = Some v" by blast
  then obtain e where e: "e \<in> set es'" "key e = a" "val e = v" using table_map_Some_iff [OF assms(2)] by metis
  then show "table_map key val es' a = ((table_map key val es)(k := None)) a"
    using assms(3) table_map_Some_iff [OF assms(1), of val a v] table_map_Some_iff [OF assms(2), of val a v] by fastforce
next
  fix a
  assume "a \<in> dom ((table_map key val es)(k := None))"
  then obtain v where v: "table_map key val es a = Some v" "a \<noteq> k" by (auto split: if_splits)
  then obtain e where e: "e \<in> set es" "key e = a" "val e = v" using table_map_Some_iff [OF assms(1)] by metis
  then show "((table_map key val es)(k := None)) a = table_map key val es' a"
    using assms(3) v table_map_Some_iff [OF assms(2), of val a v] by fastforce
qed

lemma mset_swap_remove:
  assumes "i < length es"
  shows "mset (swap_remove es i) = mset es - {# es ! i #}"
proof -
  have ne: "es \<noteq> []" using assms by auto
  let ?es = "es[i := last es]"
  have "mset ?es = mset es - {# es ! i #} + {# last es #}" using assms by (simp add: mset_update)
  moreover have "last ?es = last es" using ne assms by (simp add: last_list_update)
  moreover have "mset ?es = mset (butlast ?es) + {# last ?es #}"
    using ne by (metis append_butlast_last_id list_update_nonempty mset_append mset_single_iff_right union_commute mset.simps(1) mset.simps(2) add.right_neutral)
  ultimately show ?thesis by (simp add: swap_remove_def)
qed

lemma swap_remove_table:
  assumes "i < length es" "distinct (map key es)" "key (es ! i) = k"
  shows "distinct (map key (swap_remove es i))"
    "table_map key val (swap_remove es i) = (table_map key val es)(k := None)"
    "e \<in> set (swap_remove es i) \<longleftrightarrow> e \<in> set es \<and> key e \<noteq> k"
proof -
  have m: "mset es = mset (swap_remove es i) + {# es ! i #}"
    using assms(1) mset_swap_remove [OF assms(1)] by simp
  then have "mset (map key es) = mset (map key (swap_remove es i)) + {# k #}" using assms(3) by simp
  then have d: "distinct (map key (swap_remove es i)) \<and> k \<notin> key ` set (swap_remove es i)"
    using assms(2) mset_eq_imp_distinct_iff [of "map key es" "k # map key (swap_remove es i)"] by auto
  then show "distinct (map key (swap_remove es i))" ..
  have "set es = insert (es ! i) (set (swap_remove es i))"
    using arg_cong [OF m, of set_mset] by simp
  then have iff: "e \<in> set (swap_remove es i) \<longleftrightarrow> e \<in> set es \<and> key e \<noteq> k" for e
    using d assms(3) by (auto simp: image_iff)
  then show "table_map key val (swap_remove es i) = (table_map key val es)(k := None)"
    using table_map_eqI [OF assms(2) conjunct1 [OF d]] by blast
  show "e \<in> set (swap_remove es i) \<longleftrightarrow> e \<in> set es \<and> key e \<noteq> k" by (rule iff)
qed

lemma append_table:
  assumes "k \<notin> key ` set es" "key e = k"
  shows "table_map key val (es @ [e]) = (table_map key val es)(k \<mapsto> val e)"
proof (rule ext)
  fix a
  have "map_of (map (\<lambda>e. (key e, val e)) es) k = None"
    using assms(1) by (auto simp: map_of_eq_None_iff)
  then show "table_map key val (es @ [e]) a = ((table_map key val es)(k \<mapsto> val e)) a"
    using assms(2) by (cases "a = k") (auto simp: table_map_def map_add_def split: option.splits)
qed

lemma update_table:
  "i < length es \<Longrightarrow> distinct (map key es) \<Longrightarrow> key e = key (es ! i) \<Longrightarrow>
   table_map key val (es[i := e]) = (table_map key val es)(key e \<mapsto> val e)"
proof (induction es arbitrary: i)
  case (Cons x es)
  show ?case
  proof (cases i)
    case 0
    then show ?thesis using Cons.prems by (simp add: table_map_def fun_eq_iff)
  next
    case (Suc j)
    then have "key x \<noteq> key e" using Cons.prems nth_mem [of j es] by force
    moreover have "table_map key val (es[j := e]) = (table_map key val es)(key e \<mapsto> val e)"
      by (rule Cons.IH) (use Cons.prems Suc in simp_all)
    ultimately show ?thesis using Suc unfolding table_map_def by (simp add: fun_eq_iff)
  qed
qed simp

section \<open>The invariant\<close>

definition specific_ok :: "kd_entry list \<Rightarrow> rvp_thrspec list \<Rightarrow> bool" where
  "specific_ok kds ts \<longleftrightarrow> distinct (map kd_key kds) \<and> distinct (map ts_key ts) \<and> (\<forall>t\<in>set ts. ts_value t \<noteq> 0)"

abbreviation kd_map :: "kd_entry list \<Rightarrow> pthread_key \<rightharpoonup> destructor option" where
  "kd_map \<equiv> table_map kd_key kd_destructor"

abbreviation ts_map :: "rvp_thrspec list \<Rightarrow> pthread_key \<rightharpoonup> u64" where
  "ts_map \<equiv> table_map ts_key ts_value"

lemma setspecific_map:
  assumes "specific_ok kds ts" "key \<in> kd_key ` set kds" "rvpredict_pthread_setspecific 0 True kds key value ts = (rc, ts')"
  shows "rc = 0 \<and> specific_ok kds ts' \<and> ts_map ts' = (ts_map ts)(key := if value = 0 then None else Some value)"
proof -
  let ?j = "find_key ts_key ts key"
  have d: "distinct (map ts_key ts)" "\<forall>t\<in>set ts. ts_value t \<noteq> 0" "distinct (map kd_key kds)"
    using assms(1) by (simp_all add: specific_ok_def)
  have "find_key kd_key kds key < length kds" using assms(2) by (simp add: find_key_less_iff)
  then have run: "rvpredict_pthread_setspecific 0 True kds key value ts = (if ?j = length ts \<and> value = 0 then (0, ts)
        else if ?j < length ts \<and> value \<noteq> 0 then (0, ts[?j := (ts ! ?j)\<lparr> ts_value := value \<rparr>])
        else if ?j < length ts \<and> value = 0 then (0, swap_remove ts ?j)
        else (0, ts @ [\<lparr> ts_key = key, ts_value = value \<rparr>]))"
    by (simp add: rvpredict_pthread_setspecific_def Let_def)
  note run = run [unfolded assms(3)]
  consider "?j = length ts" "value = 0" | "?j < length ts" "value \<noteq> 0" | "?j < length ts" "value = 0" | "?j = length ts" "value \<noteq> 0"
    using find_key_le [of ts_key ts key] by linarith
  then show ?thesis
  proof cases
    case 1
    then have absent: "key \<notin> ts_key ` set ts" using find_key_less_iff [of ts_key ts key] by simp
    show ?thesis using 1 run assms(1) by (auto simp: absent_table [OF absent])
  next
    case 2
    note k = find_key_nth [OF 2(1)]
    have "map ts_key (ts[?j := (ts ! ?j)\<lparr> ts_value := value \<rparr>]) = map ts_key ts"
      using 2(1) by (simp add: map_update) (metis list_update_id map_update)
    moreover have "set (ts[?j := (ts ! ?j)\<lparr> ts_value := value \<rparr>]) \<subseteq> insert ((ts ! ?j)\<lparr> ts_value := value \<rparr>) (set ts)"
      by (rule set_update_subset_insert)
    ultimately have "specific_ok kds (ts[?j := (ts ! ?j)\<lparr> ts_value := value \<rparr>])"
      using d 2(2) by (fastforce simp: specific_ok_def)
    then show ?thesis
      using 2 run k update_table [OF 2(1) d(1), of "(ts ! ?j)\<lparr> ts_value := value \<rparr>" ts_value] by simp
  next
    case 3
    note k = find_key_nth [OF 3(1)]
    show ?thesis
      using 3 run d swap_remove_table [OF 3(1) d(1) k] by (simp add: specific_ok_def)
  next
    case 4
    then have "key \<notin> ts_key ` set ts" using find_key_less_iff [of ts_key ts key] by simp
    then show ?thesis
      using 4 run d append_table [of key ts_key ts "\<lparr> ts_key = key, ts_value = value \<rparr>" ts_value]
      by (auto simp: specific_ok_def)
  qed
qed

lemma key_delete_map:
  assumes "distinct (map kd_key kds)" "rvpredict_pthread_key_delete 0 key kds = (rc, kds')"
  shows "rc = 0 \<and> distinct (map kd_key kds') \<and> kd_map kds' = (kd_map kds)(key := None)"
proof (cases "find_key kd_key kds key = length kds")
  case True
  then have absent: "key \<notin> kd_key ` set kds" using find_key_less_iff [of kd_key kds key] by simp
  have "rc = 0" "kds' = kds"
    using True assms(2) by (auto simp: rvpredict_pthread_key_delete_def Let_def)
  then show ?thesis using assms(1) by (simp add: absent_table [OF absent])
next
  case False
  then have l: "find_key kd_key kds key < length kds" using find_key_le [of kd_key kds key] by simp
  show ?thesis
    using False assms swap_remove_table [OF l assms(1) find_key_nth [OF l]]
    by (simp add: rvpredict_pthread_key_delete_def Let_def)
qed

text \<open>A call waits where the lock is held, so a destructor returns just when it makes none.\<close>

lemma run_calls_held: "sp_held s \<Longrightarrow> run_calls cs s = (if cs = [] then Inr s else Inl Waiting)"
proof (cases cs)
  case (Cons c cs')
  moreover assume "sp_held s"
  ultimately show ?thesis by (cases c) (simp_all add: kd_lock_def)
qed simp

text \<open>What is run for a key.\<close>

definition runs_of :: "rvp_thrspec list \<Rightarrow> kd_entry \<Rightarrow> libcall list" where
  "runs_of ts k = (case (kd_destructor k, ts_map ts (kd_key k)) of (Some d, Some v) \<Rightarrow> [Destruct d v] | _ \<Rightarrow> [])"

definition quiet :: "(destructor \<Rightarrow> u64 \<Rightarrow> spec_call list) \<Rightarrow> libcall list \<Rightarrow> bool" where
  "quiet body calls \<longleftrightarrow> (\<forall>d v. Destruct d v \<in> set calls \<longrightarrow> body d v = [])"

lemma quiet_simps [simp]:
  "quiet body []" "quiet body (Destruct d v # cs) \<longleftrightarrow> body d v = [] \<and> quiet body cs"
  "quiet body (cs @ cs') \<longleftrightarrow> quiet body cs \<and> quiet body cs'"
  by (auto simp: quiet_def)

lemma destruct_values_map:
  "distinct (map ts_key ts) \<Longrightarrow> \<forall>t\<in>set ts. ts_value t \<noteq> 0 \<Longrightarrow> sp_held s \<Longrightarrow>
   destruct_values body k ts s = (if quiet body (runs_of ts k) then Inr (runs_of ts k, s) else Inl Waiting)"
proof (induction ts)
  case Nil
  then show ?case by (simp add: runs_of_def table_map_def split: option.splits)
next
  case (Cons t ts)
  then have IH: "destruct_values body k ts s = (if quiet body (runs_of ts k) then Inr (runs_of ts k, s) else Inl Waiting)"
    by simp
  show ?case
  proof (cases "ts_key t = kd_key k")
    case True
    then have "kd_key k \<notin> dom (ts_map ts)" using Cons.prems(1) by (auto simp: dom_table_map)
    then have "ts_map ts (kd_key k) = None" by blast
    then have "runs_of ts k = []" by (simp add: runs_of_def split: option.splits)
    moreover have "runs_of (t # ts) k = (case kd_destructor k of None \<Rightarrow> [] | Some d \<Rightarrow> [Destruct d (ts_value t)])"
      using True by (simp add: runs_of_def table_map_def split: option.splits)
    ultimately show ?thesis using True IH Cons.prems(2) run_calls_held [OF Cons.prems(3)]
      by (simp add: cassert_def split: option.splits)
  next
    case False
    moreover from this have "runs_of (t # ts) k = runs_of ts k"
      by (simp add: runs_of_def table_map_def)
    ultimately show ?thesis using IH by simp
  qed
qed

lemma destruct_keys_map:
  assumes "specific_ok kds' ts" "sp_held s"
  shows "destruct_keys body kds ts s = (if quiet body (concat (map (runs_of ts) kds))
    then Inr (concat (map (runs_of ts) kds), s) else Inl Waiting)"
  using assms by (induction kds) (auto simp: destruct_values_map specific_ok_def)

lemma thread_destructor_map:
  assumes "specific_ok (sp_kds s) (sp_ts s)" "\<not> sp_held s"
  shows "rvp_thread_destructor body self t s =
    (if quiet body (concat (map (runs_of (sp_ts s)) (sp_kds s)))
     then Inr ([RealSet self t] @ map (\<lambda>k. RealSet (kd_key k) 0) (sp_kds s)
         @ concat (map (runs_of (sp_ts s)) (sp_kds s)) @ [RealSet self 0], s\<lparr> sp_ts := [] \<rparr>)
     else Inl Waiting)"
proof -
  have "kd_unlock (s\<lparr> sp_held := True, sp_ts := [] \<rparr>) = s\<lparr> sp_ts := [] \<rparr>"
    using assms(2) by (cases s) (simp add: kd_unlock_def)
  then show ?thesis
    using assms(2) destruct_keys_map [OF assms(1), of "s\<lparr> sp_held := True \<rparr>"]
    by (simp add: rvp_thread_destructor_def kd_lock_def)
qed

section \<open>Properties\<close>

text \<open>
  C39. Setting a value. When the C library accepts the key and there is memory,
  \<open>pthread_setspecific\<close> on one of the program's keys succeeds and is, on the map that the
  thread's table stands for, the update of that key: a non-null value is stored under it, a null
  value removes it, and every other key keeps its value. The table keeps one entry for each key
  and no null values, which is what the assertion of the thread's destructor relies on.
\<close>

theorem setspecific_updates_the_map:
  assumes "specific_ok kds ts" "key \<in> kd_key ` set kds"
    "rvpredict_pthread_setspecific 0 True kds key value ts = (rc, ts')"
  shows "rc = 0 \<and> specific_ok kds ts' \<and>
    ts_map ts' = (ts_map ts)(key := if value = 0 then None else Some value)"
  using assms by (rule setspecific_map)

theorem setspecific_updates_the_map_witness:
  "specific_ok [\<lparr>kd_key = 5, kd_destructor = None\<rparr>, \<lparr>kd_key = 2, kd_destructor = Some 1\<rparr>] [\<lparr>ts_key = 2, ts_value = 7\<rparr>]"
  using setspecific_updates_the_map
    [of "[\<lparr>kd_key = 5, kd_destructor = None\<rparr>, \<lparr>kd_key = 2, kd_destructor = Some 1\<rparr>]"
      "[\<lparr>ts_key = 5, ts_value = 9\<rparr>, \<lparr>ts_key = 2, ts_value = 7\<rparr>]" 5 0 0 "[\<lparr>ts_key = 2, ts_value = 7\<rparr>]"]
  by (simp add: specific_ok_def rvpredict_pthread_setspecific_def swap_remove_def)

text \<open>
  C40. What a thread's end does with its data. The runtime installs its own record of the thread,
  clears the library's value of each of the program's keys, so that the library finds nothing
  more to destroy, then calls, key by key in the order of the table, the destructor of each key
  that has one on the value that the thread's table has under it, once, and no other; it forgets
  the values and last gives up its record of the thread. The assertion that no value is null does
  not fail. It runs the destructors with the lock held: if one that is run sets a value, or creates
  or deletes a key, the thread waits for ever. The value in the table may be one that was set
  under an earlier key of the same number (below).
\<close>

theorem thread_end_destroys_each_value:
  assumes "specific_ok (sp_kds s) (sp_ts s)" "\<not> sp_held s"
    and "runs = concat (map (\<lambda>k. case (kd_destructor k, ts_map (sp_ts s) (kd_key k)) of
           (Some d, Some v) \<Rightarrow> [Destruct d v] | _ \<Rightarrow> []) (sp_kds s))"
  shows "rvp_thread_destructor body self t s =
    (if \<exists>d v. Destruct d v \<in> set runs \<and> body d v \<noteq> [] then Inl Waiting
     else Inr ([RealSet self t] @ map (\<lambda>k. RealSet (kd_key k) 0) (sp_kds s) @ runs @ [RealSet self 0], s\<lparr> sp_ts := [] \<rparr>))"
proof -
  have "(\<exists>d v. Destruct d v \<in> set runs \<and> body d v \<noteq> []) \<longleftrightarrow> \<not> quiet body runs"
    by (auto simp: quiet_def)
  moreover have "runs = concat (map (runs_of (sp_ts s)) (sp_kds s))"
    unfolding assms(3) runs_of_def ..
  ultimately show ?thesis
    using thread_destructor_map [OF assms(1,2), of body self t] by (simp only: if_not_P if_P split: if_split) simp
qed

theorem thread_end_destroys_each_value_witness:
  "rvp_thread_destructor (\<lambda>d v. if d = 4 then [SetSpecific 0 True 5 0] else []) 1 400
     \<lparr>sp_held = False, sp_kds = [\<lparr>kd_key = 5, kd_destructor = None\<rparr>, \<lparr>kd_key = 2, kd_destructor = Some 3\<rparr>, \<lparr>kd_key = 7, kd_destructor = Some 4\<rparr>],
       sp_ts = [\<lparr>ts_key = 2, ts_value = 7\<rparr>, \<lparr>ts_key = 5, ts_value = 9\<rparr>]\<rparr>
   = Inr ([RealSet 1 400, RealSet 5 0, RealSet 2 0, RealSet 7 0, Destruct 3 7, RealSet 1 0],
       \<lparr>sp_held = False, sp_kds = [\<lparr>kd_key = 5, kd_destructor = None\<rparr>, \<lparr>kd_key = 2, kd_destructor = Some 3\<rparr>, \<lparr>kd_key = 7, kd_destructor = Some 4\<rparr>],
         sp_ts = []\<rparr>)"
  using thread_end_destroys_each_value
    [of "\<lparr>sp_held = False, sp_kds = [\<lparr>kd_key = 5, kd_destructor = None\<rparr>, \<lparr>kd_key = 2, kd_destructor = Some 3\<rparr>, \<lparr>kd_key = 7, kd_destructor = Some 4\<rparr>],
       sp_ts = [\<lparr>ts_key = 2, ts_value = 7\<rparr>, \<lparr>ts_key = 5, ts_value = 9\<rparr>]\<rparr>" "[Destruct 3 7]"
      "\<lambda>d v. if d = 4 then [SetSpecific 0 True 5 0] else []" 1 400]
  by (simp add: specific_ok_def table_map_def)

text \<open>
  A value outlives its key. Deleting a key removes it from the table of keys but leaves the
  values that threads have under it in theirs. When the library gives the same number to a later
  key, as it may, and the thread does not set a value under the new key, the end of the thread
  still calls the new key's destructor, on the value that was set under the old key: a value
  that POSIX says the new key does not have.
\<close>

lemma deleted_key_value_reaches_new_destructor:
  assumes "specific_ok kds ts" "ts_map ts key = Some v"
    and "rvpredict_pthread_key_delete 0 key kds = (rc1, kds1)"
    and "rvpredict_pthread_key_create 0 key True (Some d) kds1 = (rc2, kds2)"
  shows "\<exists>calls s'. rvp_thread_destructor (\<lambda>_ _. []) self t \<lparr>sp_held = False, sp_kds = kds2, sp_ts = ts\<rparr> = Inr (calls, s') \<and>
    Destruct d v \<in> set calls"
proof -
  have del: "distinct (map kd_key kds1)" "kd_map kds1 = (kd_map kds)(key := None)"
    using key_delete_map [OF _ assms(3)] assms(1) by (simp_all add: specific_ok_def)
  have kds2: "kds2 = kds1 @ [\<lparr>kd_key = key, kd_destructor = Some d\<rparr>]"
    using assms(4) by (simp add: rvpredict_pthread_key_create_def)
  have "key \<notin> kd_key ` set kds1" using del(2) dom_table_map [of kd_key kd_destructor kds1] by auto
  then have "specific_ok kds2 ts" using assms(1) del(1) by (simp add: specific_ok_def kds2)
  then show ?thesis
    using thread_destructor_map [of "\<lparr>sp_held = False, sp_kds = kds2, sp_ts = ts\<rparr>" "\<lambda>_ _. []" self t]
    by (simp add: quiet_def kds2 runs_of_def assms(2))
qed

lemma deleted_key_value_reaches_new_destructor_witness:
  "\<exists>calls s'. rvp_thread_destructor (\<lambda>_ _. []) 1 400
      \<lparr>sp_held = False, sp_kds = [\<lparr>kd_key = 5, kd_destructor = Some 8\<rparr>], sp_ts = [\<lparr>ts_key = 5, ts_value = 9\<rparr>]\<rparr>
     = Inr (calls, s') \<and> Destruct 8 9 \<in> set calls"
  using deleted_key_value_reaches_new_destructor
    [of "[\<lparr>kd_key = 5, kd_destructor = Some 3\<rparr>]" "[\<lparr>ts_key = 5, ts_value = 9\<rparr>]" 5 9 0 "[]" 8 0
      "[\<lparr>kd_key = 5, kd_destructor = Some 8\<rparr>]" 1 400]
  by (simp add: specific_ok_def table_map_def rvpredict_pthread_key_delete_def swap_remove_def
      rvpredict_pthread_key_create_def)

end
