(* ===== verification/Sigset.thy ===== *)
theory Sigset
  imports Prelude
begin

text \<open>
  Signal sets and signal masks: the table of signals and the conversions of
  \<^verbatim>\<open>llvm/ngrt/rvpsignal.c\<close>, the set functions of \<^verbatim>\<open>llvm/ngrt/sigutil.c\<close>. A trace holds a set of
  signals as a 64-bit mask whose bit 0 is the first valid signal.
\<close>

section \<open>The C library's signal sets\<close>

text \<open>
  The signal numbers of a platform are \<open>1\<close> to \<open>sg_max\<close>; \<open>sg_fill\<close> are those that \<open>sigfillset\<close> puts
  into a set and \<open>sg_addable\<close> those that \<open>sigaddset\<close> accepts (the GNU library keeps two numbers to
  itself: it leaves them out of a full set, and refuses to add them).
\<close>

type_synonym sigset = "int \<Rightarrow> bool"

record sigplat =
  sg_max :: nat
  sg_fill :: sigset
  sg_addable :: sigset

definition sigismember :: "sigplat \<Rightarrow> sigset \<Rightarrow> int \<Rightarrow> int" where
  "sigismember p s i = (if 1 \<le> i \<and> i \<le> int (sg_max p) then of_bool (s i) else -1)"

definition sigaddset :: "sigplat \<Rightarrow> sigset \<Rightarrow> int \<Rightarrow> int \<times> sigset" where
  "sigaddset p s i =
     (if 1 \<le> i \<and> i \<le> int (sg_max p) \<and> sg_addable p i then (0, s(i := True)) else (-1, s))"

definition sigemptyset :: sigset where
  "sigemptyset = (\<lambda>_. False)"

section \<open>sigutil.c\<close>

text \<open>
  The first loop of both functions has no end when a platform has no signals, so what it
  computes is optional.
\<close>

partial_function (option) skip_invalid :: "sigplat \<Rightarrow> int \<Rightarrow> int option" where [code]:
  "skip_invalid p i = (if sigismember p (sg_fill p) i = -1 then skip_invalid p (i + 1) else Some i)"

function first_loop :: "sigplat \<Rightarrow> sigset \<Rightarrow> int \<Rightarrow> int cres" where
  "first_loop p s i =
     (let memb = sigismember p (sg_fill p) i in
      if memb = -1 then Inr (-1)
      else if memb = 0 then first_loop p s (i + 1)
      else let smemb = sigismember p s i in
        if smemb = -1 then Inl Exited
        else if smemb = 1 then Inr i
        else first_loop p s (i + 1))"
  by pat_completeness auto
termination
  by (relation "measure (\<lambda>(p, s, i). nat (int (sg_max p) + 1 - i))")
     (auto simp: sigismember_def split: if_splits)

definition sigfirstmember :: "sigplat \<Rightarrow> sigset \<Rightarrow> int cres option" where
  "sigfirstmember p s = map_option (first_loop p s) (skip_invalid p 0)"

function eq_loop :: "sigplat \<Rightarrow> sigset \<Rightarrow> sigset \<Rightarrow> int \<Rightarrow> bool cres" where
  "eq_loop p l r i =
     (let memb = sigismember p (sg_fill p) i in
      if memb = -1 then Inr True
      else if memb = 0 then eq_loop p l r (i + 1)
      else let lmemb = sigismember p l i; rmemb = sigismember p r i in
        if lmemb = -1 then Inl Exited
        else if rmemb = -1 then Inl Exited
        else if lmemb \<noteq> rmemb then Inr False
        else eq_loop p l r (i + 1))"
  by pat_completeness auto
termination
  by (relation "measure (\<lambda>(p, l, r, i). nat (int (sg_max p) + 1 - i))")
     (auto simp: sigismember_def split: if_splits)

definition sigeqset :: "sigplat \<Rightarrow> sigset \<Rightarrow> sigset \<Rightarrow> bool cres option" where
  "sigeqset p l r = map_option (eq_loop p l r) (skip_invalid p 0)"

declare first_loop.simps [simp del] eq_loop.simps [simp del]

section \<open>The table of signals\<close>

record sigtab =
  signals_origin :: int
  nsignals :: int

text \<open>The loop that looks for the first signal and for the end of the signals.\<close>

partial_function (option) table_loop :: "sigplat \<Rightarrow> int \<Rightarrow> int \<Rightarrow> int \<Rightarrow> (int \<times> int) option" where [code]:
  "table_loop p lastsig ninvalid origin =
     (let invalid = (sigismember p (sg_fill p) lastsig = -1);
          ninvalid = (if invalid then ninvalid + 1 else ninvalid)
      in if invalid \<and> ninvalid = 2 then Some (origin, lastsig)
         else table_loop p (lastsig + 1) ninvalid
                (if origin = -1 \<and> sigismember p (sg_fill p) lastsig = 1 then lastsig else origin))"

definition rvp_signal_table_init :: "sigplat \<Rightarrow> bool \<Rightarrow> sigtab cres option" where
  "rvp_signal_table_init p calloc_ok =
     map_option (\<lambda>(origin, n).
       if \<not> calloc_ok then Inl Exited
       else if (n - origin + 7) div 8 > 8 then Inl Exited
       else Inr \<lparr> signals_origin = origin, nsignals = n \<rparr>)
     (table_loop p 0 0 (-1))"

definition signo_to_bitno :: "sigtab \<Rightarrow> int \<Rightarrow> int" where
  "signo_to_bitno tb signo = signo - signals_origin tb"

definition bitno_to_signo :: "sigtab \<Rightarrow> int \<Rightarrow> int" where
  "bitno_to_signo tb bitno = bitno + signals_origin tb"

section \<open>Masks\<close>

text \<open>
  The shift of \<open>(uint64_t)1\<close> is by less than 64: the table of signals is refused otherwise.
\<close>

definition testbit :: "sigtab \<Rightarrow> int \<Rightarrow> u64" where
  "testbit tb signo = push_bit (nat (signo_to_bitno tb signo)) 1"

fun to_sigset_loop :: "sigplat \<Rightarrow> sigtab \<Rightarrow> u64 \<Rightarrow> int list \<Rightarrow> sigset \<Rightarrow> sigset cres" where
    "to_sigset_loop p tb m [] s = Inr s"
  | "to_sigset_loop p tb m (signo # signos) s =
       (if m AND testbit tb signo \<noteq> 0
        then let (rc, s) = sigaddset p s signo in
             if rc \<noteq> 0 then Inl Exited else to_sigset_loop p tb m signos s
        else to_sigset_loop p tb m signos s)"

definition mask_to_sigset :: "sigplat \<Rightarrow> sigtab \<Rightarrow> u64 \<Rightarrow> sigset cres" where
  "mask_to_sigset p tb m = to_sigset_loop p tb m [signals_origin tb .. nsignals tb - 1] sigemptyset"

fun to_mask_loop :: "sigplat \<Rightarrow> sigtab \<Rightarrow> sigset \<Rightarrow> int list \<Rightarrow> u64 \<Rightarrow> u64" where
    "to_mask_loop p tb s [] m = m"
  | "to_mask_loop p tb s (signo # signos) m =
       to_mask_loop p tb s signos (if sigismember p s signo = 1 then m OR testbit tb signo else m)"

definition sigset_to_mask :: "sigplat \<Rightarrow> sigtab \<Rightarrow> sigset \<Rightarrow> u64" where
  "sigset_to_mask p tb s = to_mask_loop p tb s [signals_origin tb .. nsignals tb - 1] 0"

section \<open>The table of a platform\<close>

text \<open>A platform with signal 1 in every full set, and not more signals than a mask has bits.\<close>

definition plat_ok :: "sigplat \<Rightarrow> bool" where
  "plat_ok p \<longleftrightarrow> 1 \<le> sg_max p \<and> sg_max p \<le> 64 \<and> sg_fill p 1"

definition plat_tab :: "sigplat \<Rightarrow> sigtab" where
  "plat_tab p = \<lparr> signals_origin = 1, nsignals = int (sg_max p) + 1 \<rparr>"

lemma skip_invalid_0: "1 \<le> sg_max p \<Longrightarrow> skip_invalid p 0 = Some 1"
  by (subst skip_invalid.simps, subst skip_invalid.simps) (simp add: sigismember_def)

lemma table_loop_from_1:
  "1 \<le> i \<Longrightarrow> i \<le> int (sg_max p) + 1 \<Longrightarrow> table_loop p i 1 1 = Some (1, int (sg_max p) + 1)"
proof (induction "nat (int (sg_max p) + 1 - i)" arbitrary: i)
  case 0
  then have "i = int (sg_max p) + 1" by simp
  then show ?case by (subst table_loop.simps) (simp add: sigismember_def)
next
  case (Suc n)
  then have "table_loop p (i + 1) 1 1 = Some (1, int (sg_max p) + 1)"
    by (intro Suc.hyps(1)) auto
  then show ?case using Suc.prems Suc.hyps(2) by (subst table_loop.simps) (simp add: sigismember_def Let_def)
qed

lemma table_init_ok:
  assumes "plat_ok p"
  shows "rvp_signal_table_init p True = Some (Inr (plat_tab p))"
proof -
  have r: "1 \<le> sg_max p" "sg_max p \<le> 64" "sg_fill p 1" using assms by (simp_all add: plat_ok_def)
  have "table_loop p 2 1 1 = Some (1, int (sg_max p) + 1)" using r by (intro table_loop_from_1) auto
  then have "table_loop p 1 1 (-1) = Some (1, int (sg_max p) + 1)"
    using r by (subst table_loop.simps) (simp add: sigismember_def Let_def)
  then have "table_loop p 0 0 (-1) = Some (1, int (sg_max p) + 1)"
    by (subst table_loop.simps) (simp add: sigismember_def Let_def)
  then show ?thesis using r by (simp add: rvp_signal_table_init_def plat_tab_def)
qed

section \<open>What the loops compute\<close>

lemma first_loop_spec:
  "0 < i \<Longrightarrow> first_loop p s i =
   Inr (case filter (\<lambda>j. sg_fill p j \<and> s j) [i .. int (sg_max p)] of [] \<Rightarrow> -1 | j # _ \<Rightarrow> j)"
proof (induction p s i rule: first_loop.induct)
  case (1 p s i)
  show ?case
  proof (cases "i \<le> int (sg_max p)")
    case True
    have up: "[i .. int (sg_max p)] = i # [i + 1 .. int (sg_max p)]" using True by (rule upto_rec1)
    show ?thesis
    proof (cases "sg_fill p i \<and> s i")
      case True
      then show ?thesis using 1(3) \<open>i \<le> int (sg_max p)\<close> up
        by (subst first_loop.simps) (simp add: sigismember_def)
    next
      case False
      then have "first_loop p s i = first_loop p s (i + 1)"
        using 1(3) \<open>i \<le> int (sg_max p)\<close> by (subst first_loop.simps) (auto simp: sigismember_def)
      moreover have "first_loop p s (i + 1) =
          Inr (case filter (\<lambda>j. sg_fill p j \<and> s j) [i + 1 .. int (sg_max p)] of [] \<Rightarrow> -1 | j # _ \<Rightarrow> j)"
        using 1 False \<open>i \<le> int (sg_max p)\<close> by (cases "sg_fill p i") (auto simp: sigismember_def Let_def)
      ultimately show ?thesis using False up by auto
    qed
  next
    case False
    then show ?thesis by (subst first_loop.simps) (simp add: sigismember_def)
  qed
qed

lemma eq_loop_spec:
  "0 < i \<Longrightarrow> eq_loop p l r i = Inr (\<forall>j\<in>{i .. int (sg_max p)}. sg_fill p j \<longrightarrow> l j = r j)"
proof (induction p l r i rule: eq_loop.induct)
  case (1 p l r i)
  show ?case
  proof (cases "i \<le> int (sg_max p)")
    case True
    have up: "{i .. int (sg_max p)} = insert i {i + 1 .. int (sg_max p)}" using True by auto
    show ?thesis
    proof (cases "sg_fill p i \<and> l i \<noteq> r i")
      case True
      then show ?thesis using 1(3) \<open>i \<le> int (sg_max p)\<close> up
        by (subst eq_loop.simps) (auto simp: sigismember_def)
    next
      case False
      then have "eq_loop p l r i = eq_loop p l r (i + 1)"
        using 1(3) \<open>i \<le> int (sg_max p)\<close> by (subst eq_loop.simps) (auto simp: sigismember_def)
      moreover have "eq_loop p l r (i + 1) = Inr (\<forall>j\<in>{i + 1 .. int (sg_max p)}. sg_fill p j \<longrightarrow> l j = r j)"
        using 1 False \<open>i \<le> int (sg_max p)\<close> by (cases "sg_fill p i") (auto simp: sigismember_def Let_def)
      ultimately show ?thesis using False up by simp
    qed
  next
    case False
    then show ?thesis by (subst eq_loop.simps) (simp add: sigismember_def)
  qed
qed

lemma testbit_plat: "1 \<le> i \<Longrightarrow> testbit (plat_tab p) i = push_bit (nat (i - 1)) 1"
  by (simp add: testbit_def signo_to_bitno_def plat_tab_def)

lemma to_sigset_loop_spec:
  assumes "\<forall>i\<in>set is. 1 \<le> i \<and> i \<le> int (sg_max p)" "\<forall>i\<in>set is. bit m (nat (i - 1)) \<longrightarrow> sg_addable p i"
  shows "to_sigset_loop p (plat_tab p) m is s = Inr (\<lambda>i. s i \<or> (i \<in> set is \<and> bit m (nat (i - 1))))"
  using assms
proof (induction "is" arbitrary: s)
  case (Cons i "is")
  have "testbit (plat_tab p) i = push_bit (nat (i - 1)) 1" using Cons.prems by (simp add: testbit_plat)
  then have "to_sigset_loop p (plat_tab p) m (i # is) s =
     to_sigset_loop p (plat_tab p) m is (if bit m (nat (i - 1)) then s(i := True) else s)"
    using Cons.prems by (simp add: and_exp_eq_0_iff_not_bit sigaddset_def)
  also have "\<dots> = Inr (\<lambda>j. (if bit m (nat (i - 1)) then s(i := True) else s) j \<or> (j \<in> set is \<and> bit m (nat (j - 1))))"
    using Cons.prems by (intro Cons.IH) auto
  also have "(\<lambda>j. (if bit m (nat (i - 1)) then s(i := True) else s) j \<or> (j \<in> set is \<and> bit m (nat (j - 1)))) =
      (\<lambda>j. s j \<or> (j \<in> set (i # is) \<and> bit m (nat (j - 1))))"
    by (auto simp: fun_eq_iff)
  finally show ?case .
qed simp

lemma bit_to_mask_loop:
  assumes "\<forall>i\<in>set is. 1 \<le> i \<and> i \<le> int (sg_max p)" "n < 64"
  shows "bit (to_mask_loop p (plat_tab p) s is m) n \<longleftrightarrow> bit m n \<or> (int n + 1 \<in> set is \<and> s (int n + 1))"
  using assms(1)
proof (induction "is" arbitrary: m)
  case (Cons i "is")
  have b: "bit (testbit (plat_tab p) i) n \<longleftrightarrow> i = int n + 1"
    using Cons.prems assms(2) by (auto simp: testbit_plat bit_simps)
  have "bit (to_mask_loop p (plat_tab p) s (i # is) m) n \<longleftrightarrow>
      bit (if s i then m OR testbit (plat_tab p) i else m) n \<or> (int n + 1 \<in> set is \<and> s (int n + 1))"
    using Cons by (simp add: sigismember_def)
  then show ?case using b by (auto simp: bit_simps)
qed simp

lemma bit_sigset_to_mask:
  "plat_ok p \<Longrightarrow> n < 64 \<Longrightarrow> bit (sigset_to_mask p (plat_tab p) s) n \<longleftrightarrow> n < sg_max p \<and> s (int n + 1)"
  using bit_to_mask_loop [of "[1 .. int (sg_max p)]" p n s 0]
  by (auto simp: sigset_to_mask_def plat_tab_def plat_ok_def)

definition mask_addable :: "sigplat \<Rightarrow> u64 \<Rightarrow> bool" where
  "mask_addable p m \<longleftrightarrow> (\<forall>i\<in>{1 .. int (sg_max p)}. bit m (nat (i - 1)) \<longrightarrow> sg_addable p i)"

lemma mask_to_sigset_spec:
  "mask_addable p m \<Longrightarrow> mask_to_sigset p (plat_tab p) m =
   Inr (\<lambda>i. 1 \<le> i \<and> i \<le> int (sg_max p) \<and> bit m (nat (i - 1)))"
  unfolding mask_to_sigset_def mask_addable_def
  by (subst to_sigset_loop_spec) (auto simp: plat_tab_def sigemptyset_def fun_eq_iff)

definition sigset_eq :: "sigplat \<Rightarrow> sigset \<Rightarrow> sigset \<Rightarrow> bool" where
  "sigset_eq p l r \<longleftrightarrow> (\<forall>j\<in>{1 .. int (sg_max p)}. sg_fill p j \<longrightarrow> l j = r j)"

lemma sigset_eq_sym: "sigset_eq p l r \<Longrightarrow> sigset_eq p r l"
  by (simp add: sigset_eq_def)

lemma sigset_eq_trans: "sigset_eq p l r \<Longrightarrow> sigset_eq p r s \<Longrightarrow> sigset_eq p l s"
  by (simp add: sigset_eq_def)

lemma sigeqset_spec: "1 \<le> sg_max p \<Longrightarrow> sigeqset p l r = Some (Inr (sigset_eq p l r))"
  by (simp add: sigeqset_def skip_invalid_0 eq_loop_spec sigset_eq_def)

section \<open>Properties\<close>

text \<open>
  C23. Masks and signal sets. On a platform whose full signal sets have signal 1 and which has at
  most 64 signals, start-up finds signal 1 as the origin and all the signals. A mask converted
  to a signal set and back is the mask, less the bits beyond the last signal, whenever the
  library lets its signals be added; the set has just the signals of the mask, so two masks with
  different bits give sets that \<open>sigeqset\<close> tells apart as far as full sets have the
  signals in question; and \<open>sigfirstmember\<close> of the set is the number of the lowest of its
  signals, or -1 for none, wherever full sets have them.
\<close>

theorem signal_mask_roundtrip:
  assumes "plat_ok p" "mask_addable p m"
  shows "\<exists>tb s. rvp_signal_table_init p True = Some (Inr tb) \<and> signals_origin tb = 1 \<and>
    mask_to_sigset p tb m = Inr s \<and>
    sigset_to_mask p tb s = m AND mask (sg_max p) \<and>
    (\<forall>r. sigeqset p s r = Some (Inr (\<forall>j\<in>{1 .. int (sg_max p)}. sg_fill p j \<longrightarrow> (bit m (nat (j - 1)) \<longleftrightarrow> r j)))) \<and>
    sigfirstmember p s = Some (Inr (case filter (\<lambda>j. sg_fill p j \<and> bit m (nat (j - 1))) [1 .. int (sg_max p)]
                                    of [] \<Rightarrow> -1 | j # _ \<Rightarrow> j))"
proof (intro exI conjI allI)
  let ?s = "\<lambda>i. 1 \<le> i \<and> i \<le> int (sg_max p) \<and> bit m (nat (i - 1))"
  have r: "1 \<le> sg_max p" "sg_max p \<le> 64" using assms(1) by (simp_all add: plat_ok_def)
  show "rvp_signal_table_init p True = Some (Inr (plat_tab p))" by (rule table_init_ok [OF assms(1)])
  show "signals_origin (plat_tab p) = 1" by (simp add: plat_tab_def)
  show "mask_to_sigset p (plat_tab p) m = Inr ?s" by (rule mask_to_sigset_spec [OF assms(2)])
  show "sigset_to_mask p (plat_tab p) ?s = m AND mask (sg_max p)"
    by (rule bit_word_eqI) (use bit_sigset_to_mask [OF assms(1)] in \<open>auto simp: bit_simps\<close>)
  show "sigeqset p ?s r = Some (Inr (\<forall>j\<in>{1 .. int (sg_max p)}. sg_fill p j \<longrightarrow> (bit m (nat (j - 1)) \<longleftrightarrow> r j)))" for r
    using r by (auto simp: sigeqset_spec sigset_eq_def)
  have "filter (\<lambda>j. sg_fill p j \<and> ?s j) [1 .. int (sg_max p)] =
      filter (\<lambda>j. sg_fill p j \<and> bit m (nat (j - 1))) [1 .. int (sg_max p)]"
    by (rule filter_cong) auto
  then show "sigfirstmember p ?s = Some (Inr (case filter (\<lambda>j. sg_fill p j \<and> bit m (nat (j - 1))) [1 .. int (sg_max p)]
                                    of [] \<Rightarrow> -1 | j # _ \<Rightarrow> j))"
    using r by (simp add: sigfirstmember_def skip_invalid_0 first_loop_spec)
qed

definition linux_signals :: sigplat where
  "linux_signals = \<lparr> sg_max = 64, sg_fill = (\<lambda>i. i \<noteq> 32 \<and> i \<noteq> 33), sg_addable = (\<lambda>i. i \<noteq> 32 \<and> i \<noteq> 33) \<rparr>"

theorem signal_mask_roundtrip_witness:
  "\<exists>tb s. rvp_signal_table_init linux_signals True = Some (Inr tb) \<and> mask_to_sigset linux_signals tb 0x204 = Inr s \<and>
     sigset_to_mask linux_signals tb s = 0x204"
proof -
  have "mask_addable linux_signals 0x204"
    by (auto simp: mask_addable_def linux_signals_def bit_iff_odd_drop_bit)
  moreover have "plat_ok linux_signals" by (simp add: linux_signals_def plat_ok_def)
  moreover have "(0x204 :: u64) AND mask (sg_max linux_signals) = 0x204"
    by (simp add: linux_signals_def mask_eq_exp_minus_1)
  ultimately show ?thesis using signal_mask_roundtrip [of linux_signals "0x204"] by auto
qed

end
