(* ===== verification/Intern.thy ===== *)
theory Intern
  imports Sigset
begin

text \<open>
  The memos that number the signal sets of a trace, \<^verbatim>\<open>llvm/ngrt/rvpsignal.c\<close>:
  \<open>intern_sigset\<close>, which any thread or signal handler may run at any time without a lock, and what
  the serializer does: it keeps memos on the free list and writes each new memo to the trace. Every
  access to the list heads and to the memos is one step of a machine; the machines of the threads
  interleave.
\<close>

section \<open>State\<close>

text \<open>
  A pointer to a memo is its index in \<open>sb_mem\<close>, the memos allocated so far. \<open>sb_kicks\<close> are the
  wake-ups sent, \<open>sb_out\<close> the memos written to the trace: number and
  mask. \<open>sb_last\<close> is the serializer's \<open>blocksets_last\<close>, what its last call of
  \<open>rvp_sigblocksets_emit\<close> returned.
\<close>

type_synonym bsp = nat

record rvp_sigblockset =
  bs_number :: u32
  bs_sigset :: sigset
  bs_next :: "bsp option"
  bs_serialized :: bool

datatype kick = WakeReplenisher | RequestService

record blocksets =
  sb_mem :: "rvp_sigblockset list"
  sb_nsets :: u32
  sb_head :: "bsp option"
  sb_free :: "bsp option"
  sb_kicks :: "kick list"
  sb_out :: "(u32 \<times> u64) list"
  sb_last :: "bsp option"

definition memo_at :: "blocksets \<Rightarrow> bsp \<Rightarrow> rvp_sigblockset cres" where
  "memo_at g a = (if a < length (sb_mem g) then Inr (sb_mem g ! a) else Inl Undefined)"

definition set_memo :: "blocksets \<Rightarrow> bsp \<Rightarrow> rvp_sigblockset \<Rightarrow> blocksets" where
  "set_memo g a m = g\<lparr> sb_mem := (sb_mem g)[a := m] \<rparr>"

section \<open>The machine\<close>

text \<open>
  Where a thread is. \<open>h\<close> is the local \<open>head\<close> of \<open>intern_sigset_try_once\<close>, \<open>a\<close> its \<open>bs\<close>. \<open>Scan\<close> is its
  first loop, \<open>Await\<close> the wait for the serializer, \<open>PopRead\<close>, \<open>PopNext\<close> and \<open>PopCas\<close> the loop that
  takes a memo from the free list, \<open>Push\<close> the compare-and-set of the list, \<open>PutRead\<close> and \<open>PutCas\<close> the
  loop that puts the memo back. \<open>ReplStart\<close>, \<open>Replenish\<close> and \<open>ReplCas\<close> are
  \<open>rvp_sigblocksets_replenish\<close>, \<open>EmitStart\<close> and \<open>Emit\<close> \<open>rvp_sigblocksets_emit\<close>.
\<close>

datatype ipc =
    Start sigset
  | Scan sigset "bsp option" "bsp option"
  | Await sigset bsp
  | PopRead sigset "bsp option"
  | PopNext sigset "bsp option" bsp
  | PopCas sigset "bsp option" bsp "bsp option"
  | Fill sigset "bsp option" bsp
  | Push sigset "bsp option" bsp
  | PutRead sigset bsp
  | PutCas sigset bsp
  | Done sigset bsp
  | ReplStart
  | Replenish nat
  | ReplCas nat bsp
  | EmitStart
  | Emit "bsp option" "bsp option" "bsp option"
  | Idle

fun intern_step :: "sigplat \<Rightarrow> blocksets \<Rightarrow> ipc \<Rightarrow> (blocksets \<times> ipc) cres" where
    "intern_step p g (Start s) = Inr (g, Scan s (sb_head g) (sb_head g))"
  | "intern_step p g (Scan s h None) = Inr (g, PopRead s h)"
  | "intern_step p g (Scan s h (Some a)) =
       cbind (memo_at g a) (\<lambda>m.
         case sigeqset p (bs_sigset m) s of None \<Rightarrow> Inl Waiting
         | Some r \<Rightarrow> cbind r (\<lambda>same. Inr (g, if same then Await s a else Scan s h (bs_next m))))"
  | "intern_step p g (Await s a) =
       cbind (memo_at g a) (\<lambda>m. Inr (g, if bs_serialized m then Done s a else Await s a))"
  | "intern_step p g (PopRead s h) =
       (case sb_free g of None \<Rightarrow> Inr (g\<lparr> sb_kicks := sb_kicks g @ [WakeReplenisher] \<rparr>, PopRead s h)
        | Some a \<Rightarrow> Inr (g, PopNext s h a))"
  | "intern_step p g (PopNext s h a) = cbind (memo_at g a) (\<lambda>m. Inr (g, PopCas s h a (bs_next m)))"
  | "intern_step p g (PopCas s h a nxt) =
       Inr (if sb_free g = Some a then (g\<lparr> sb_free := nxt \<rparr>, Fill s h a)
            else (g, case sb_free g of None \<Rightarrow> PopRead s h | Some b \<Rightarrow> PopNext s h b))"
  | "intern_step p g (Fill s h a) =
       cbind (memo_at g a) (\<lambda>m.
         Inr (set_memo g a (m\<lparr> bs_next := h, bs_sigset := s, bs_serialized := False \<rparr>), Push s h a))"
  | "intern_step p g (Push s h a) =
       Inr (if sb_head g = h
            then (g\<lparr> sb_head := Some a, sb_kicks := sb_kicks g @ [RequestService] \<rparr>, Done s a)
            else (g, PutRead s a))"
  | "intern_step p g (PutRead s a) =
       cbind (memo_at g a) (\<lambda>m. Inr (set_memo g a (m\<lparr> bs_next := sb_free g \<rparr>), PutCas s a))"
  | "intern_step p g (PutCas s a) =
       cbind (memo_at g a) (\<lambda>m.
         Inr (if sb_free g = bs_next m then (g\<lparr> sb_free := Some a \<rparr>, Start s)
              else (set_memo g a (m\<lparr> bs_next := sb_free g \<rparr>), PutCas s a)))"
  | "intern_step p g (Done s a) = Inr (g, Done s a)"
  | "intern_step p g ReplStart = Inr (g, if sb_free g \<noteq> None then Idle else Replenish 5)"
  | "intern_step p g (Replenish 0) = Inr (g, Idle)"
  | "intern_step p g (Replenish (Suc n)) =
       Inr (g\<lparr> sb_mem := sb_mem g @ [\<lparr> bs_number = sb_nsets g, bs_sigset = sigemptyset,
                                        bs_next = sb_free g, bs_serialized = False \<rparr>],
               sb_nsets := sb_nsets g + 1 \<rparr>,
            ReplCas n (length (sb_mem g)))"
  | "intern_step p g (ReplCas n a) =
       cbind (memo_at g a) (\<lambda>m.
         Inr (if sb_free g = bs_next m then (g\<lparr> sb_free := Some a \<rparr>, Replenish n)
              else (set_memo g a (m\<lparr> bs_next := sb_free g \<rparr>), ReplCas n a)))"
  | "intern_step p g EmitStart = Inr (g, Emit (sb_last g) (sb_head g) (sb_head g))"
  | "intern_step p g (Emit lst h None) = Inr (g\<lparr> sb_last := h \<rparr>, Idle)"
  | "intern_step p g (Emit lst h (Some a)) =
       (if lst = Some a then Inr (g\<lparr> sb_last := h \<rparr>, Idle)
        else cbind (memo_at g a) (\<lambda>m.
          Inr (set_memo (g\<lparr> sb_out := sb_out g @ [(bs_number m, sigset_to_mask p (plat_tab p) (bs_sigset m))] \<rparr>)
                 a (m\<lparr> bs_serialized := True \<rparr>),
               Emit lst h (bs_next m))))"
  | "intern_step p g Idle = Inr (g, Idle)"

section \<open>Interleavings\<close>

text \<open>
  Any thread may call \<open>intern_sigset\<close> when it has no call under way (a signal handler is a thread
  of its own here); thread 0 is the serializer, which is the only one to replenish and to emit.
\<close>

type_synonym isys = "blocksets \<times> (nat \<Rightarrow> ipc)"

definition at_rest :: "ipc \<Rightarrow> bool" where
  "at_rest pc = (case pc of Idle \<Rightarrow> True | Done _ _ \<Rightarrow> True | _ \<Rightarrow> False)"

inductive isys_step ::
    "(blocksets \<Rightarrow> ipc \<Rightarrow> (blocksets \<times> ipc) cres) \<Rightarrow> isys \<Rightarrow> isys \<Rightarrow> bool" for stp where
  Local: "stp g (pcs t) = Inr (g', pc') \<Longrightarrow> isys_step stp (g, pcs) (g', pcs(t := pc'))"
| Call: "t \<noteq> 0 \<Longrightarrow> at_rest (pcs t) \<Longrightarrow> isys_step stp (g, pcs) (g, pcs(t := Start s))"
| Replen: "at_rest (pcs 0) \<Longrightarrow> isys_step stp (g, pcs) (g, pcs(0 := ReplStart))"
| Emission: "at_rest (pcs 0) \<Longrightarrow> isys_step stp (g, pcs) (g, pcs(0 := EmitStart))"

definition isys_init :: isys where
  "isys_init = (\<lparr> sb_mem = [], sb_nsets = 0, sb_head = None, sb_free = None, sb_kicks = [], sb_out = [],
                  sb_last = None \<rparr>,
                \<lambda>_. Idle)"

definition isys_reachable :: "(blocksets \<Rightarrow> ipc \<Rightarrow> (blocksets \<times> ipc) cres) \<Rightarrow> isys \<Rightarrow> bool" where
  "isys_reachable stp sys \<longleftrightarrow> (isys_step stp)\<^sup>*\<^sup>* isys_init sys"

end
