(* ===== verification/Intern_Laws.thy ===== *)
theory Intern_Laws
  imports Intern "HOL-Library.Multiset"
begin

text \<open>
  The numbering of signal sets: the invariant of the machines of \<^theory_text>\<open>Intern\<close>, one lemma per step,
  and what goes wrong when a thread takes a memo off the free list with a successor that is out of
  date.
\<close>

section \<open>Lists of memos\<close>

definition hd_opt :: "'a list \<Rightarrow> 'a option" where
  "hd_opt xs = (case xs of [] \<Rightarrow> None | x # _ \<Rightarrow> Some x)"

lemma hd_opt_simps [simp]: "hd_opt [] = None" "hd_opt (x # xs) = Some x"
  by (simp_all add: hd_opt_def)

lemma hd_opt_eq_None [simp]: "hd_opt xs = None \<longleftrightarrow> xs = []"
  by (cases xs) simp_all

lemma hd_opt_eq_Some: "hd_opt xs = Some a \<longleftrightarrow> (\<exists>ys. xs = a # ys)"
  by (cases xs) auto

lemma hd_opt_suffix:
  "distinct xs \<Longrightarrow> xs = ys @ zs \<Longrightarrow> hd_opt xs = hd_opt zs \<Longrightarrow> ys = []"
  by (cases ys; cases zs) auto

fun memo_chain :: "rvp_sigblockset list \<Rightarrow> bsp option \<Rightarrow> bsp list \<Rightarrow> bool" where
    "memo_chain mem q [] = (q = None)"
  | "memo_chain mem q (a # as) = (q = Some a \<and> a < length mem \<and> memo_chain mem (bs_next (mem ! a)) as)"

lemma memo_chain_hd: "memo_chain mem q as \<Longrightarrow> q = hd_opt as"
  by (cases as) simp_all

lemma memo_chain_cong:
  "memo_chain mem q as \<Longrightarrow> length mem \<le> length mem' \<Longrightarrow>
   (\<And>a. a \<in> set as \<Longrightarrow> bs_next (mem' ! a) = bs_next (mem ! a)) \<Longrightarrow> memo_chain mem' q as"
  by (induction as arbitrary: q) auto

lemma memo_chain_upd:
  assumes "memo_chain mem q as" "a \<notin> set as"
  shows "memo_chain (mem[a := m]) q as"
proof (rule memo_chain_cong [OF assms(1)])
  fix b
  assume "b \<in> set as"
  then have "a \<noteq> b" using assms(2) by blast
  then show "bs_next (mem[a := m] ! b) = bs_next (mem ! b)" by simp
qed simp

lemma memo_chain_less: "memo_chain mem q as \<Longrightarrow> a \<in> set as \<Longrightarrow> a < length mem"
  by (induction as arbitrary: q) auto

lemma memo_chain_next: "memo_chain mem q (xs @ a # ys) \<Longrightarrow> bs_next (mem ! a) = hd_opt ys"
  by (induction xs arbitrary: q) (auto dest: memo_chain_hd)

section \<open>The invariant\<close>

text \<open>The memo that a thread has to itself.\<close>

text \<open>
  A take of a free memo whose loaded successor is out of date: the head of the free list is the memo
  that the thread loaded, but not any more with the successor that it loaded. \<open>fresh_step\<close> are the
  steps of the code but for such takes.
\<close>

definition stale_take :: "blocksets \<Rightarrow> ipc \<Rightarrow> bool" where
  "stale_take g pc = (case pc of PopCas s h a nxt \<Rightarrow> sb_free g = Some a \<and> bs_next (sb_mem g ! a) \<noteq> nxt | _ \<Rightarrow> False)"

definition fresh_step :: "sigplat \<Rightarrow> blocksets \<Rightarrow> ipc \<Rightarrow> (blocksets \<times> ipc) cres" where
  "fresh_step p g pc = (if stale_take g pc then Inl Undefined else intern_step p g pc)"

definition owned :: "ipc \<Rightarrow> bsp set" where
  "owned pc = (case pc of Fill s h a \<Rightarrow> {a} | Push s h a \<Rightarrow> {a} | PutRead s a \<Rightarrow> {a} | PutCas s a \<Rightarrow> {a}
     | ReplCas n a \<Rightarrow> {a} | _ \<Rightarrow> {})"

abbreviation memo_set :: "blocksets \<Rightarrow> bsp \<Rightarrow> sigset" where
  "memo_set g a \<equiv> bs_sigset (sb_mem g ! a)"

definition memo_rec :: "sigplat \<Rightarrow> blocksets \<Rightarrow> bsp \<Rightarrow> u32 \<times> u64" where
  "memo_rec p g a = (of_nat a, sigset_to_mask p (plat_tab p) (memo_set g a))"

text \<open>\<open>h\<close> is a place in the list \<open>xs\<close> of the memos, and no memo from there on has the set \<open>s\<close>.\<close>

definition scanned :: "sigplat \<Rightarrow> blocksets \<Rightarrow> bsp list \<Rightarrow> bsp option \<Rightarrow> bsp option \<Rightarrow> sigset \<Rightarrow> bool" where
  "scanned p g xs h c s \<longleftrightarrow> (\<exists>ys zs ws. xs = ys @ zs @ ws \<and> h = hd_opt (zs @ ws) \<and> c = hd_opt ws \<and>
     (\<forall>a\<in>set zs. \<not> sigset_eq p (memo_set g a) s))"

definition pc_ok :: "sigplat \<Rightarrow> blocksets \<Rightarrow> bsp list \<Rightarrow> ipc \<Rightarrow> bool" where
  "pc_ok p g xs pc = (case pc of
      Scan s h c \<Rightarrow> scanned p g xs h c s
    | Await s a \<Rightarrow> a \<in> set xs \<and> sigset_eq p (memo_set g a) s
    | PopRead s h \<Rightarrow> scanned p g xs h None s
    | PopNext s h a \<Rightarrow> scanned p g xs h None s \<and> a < length (sb_mem g)
    | PopCas s h a nxt \<Rightarrow> scanned p g xs h None s \<and> a < length (sb_mem g)
    | Fill s h a \<Rightarrow> scanned p g xs h None s
    | Push s h a \<Rightarrow> scanned p g xs h None s \<and> bs_next (sb_mem g ! a) = h \<and> memo_set g a = s
    | Done s a \<Rightarrow> a \<in> set xs \<and> sigset_eq p (memo_set g a) s
    | _ \<Rightarrow> True)"

text \<open>What the serializer has written, and where it is in a call of \<open>rvp_sigblocksets_emit\<close>.\<close>

definition emit_at :: "ipc \<Rightarrow> (bsp option \<times> bsp option \<times> bsp option) option" where
  "emit_at pc = (case pc of Emit lst h c \<Rightarrow> Some (lst, h, c) | _ \<Rightarrow> None)"

definition out_ok :: "sigplat \<Rightarrow> blocksets \<Rightarrow> bsp list \<Rightarrow> ipc \<Rightarrow> bool" where
  "out_ok p g xs pc = (\<exists>ys us vs ws. xs = ys @ us @ vs @ ws \<and> sb_last g = hd_opt ws \<and>
      mset (sb_out g) = image_mset (memo_rec p g) (mset (us @ ws)) \<and>
      (case emit_at pc of Some (lst, h, c) \<Rightarrow> lst = sb_last g \<and> h = hd_opt (us @ vs @ ws) \<and> c = hd_opt (vs @ ws)
       | None \<Rightarrow> us = [] \<and> vs = []))"

definition emitting :: "ipc \<Rightarrow> bool" where
  "emitting pc = (case pc of EmitStart \<Rightarrow> True | Emit _ _ _ \<Rightarrow> True | _ \<Rightarrow> False)"

definition isys_inv :: "sigplat \<Rightarrow> blocksets \<Rightarrow> (nat \<Rightarrow> ipc) \<Rightarrow> bsp list \<Rightarrow> bsp list \<Rightarrow> bool" where
  "isys_inv p g pcs xs fs \<longleftrightarrow>
     memo_chain (sb_mem g) (sb_head g) xs \<and> memo_chain (sb_mem g) (sb_free g) fs \<and>
     distinct (xs @ fs) \<and>
     (\<forall>t. \<forall>a\<in>owned (pcs t). a < length (sb_mem g) \<and> a \<notin> set xs \<and> a \<notin> set fs) \<and>
     (\<forall>t u. t \<noteq> u \<longrightarrow> owned (pcs t) \<inter> owned (pcs u) = {}) \<and>
     sb_nsets g = of_nat (length (sb_mem g)) \<and>
     (\<forall>a<length (sb_mem g). bs_number (sb_mem g ! a) = of_nat a) \<and>
     (\<forall>a\<in>set xs. \<forall>b\<in>set xs. sigset_eq p (memo_set g a) (memo_set g b) \<longrightarrow> a = b) \<and>
     (\<forall>t. pc_ok p g xs (pcs t)) \<and> (\<forall>t. t \<noteq> 0 \<longrightarrow> \<not> emitting (pcs t)) \<and> out_ok p g xs (pcs 0)"


lemma scanned_frame:
  assumes "scanned p g xs h c s" "\<forall>a\<in>set xs. memo_set g' a = memo_set g a"
  shows "scanned p g' (vs @ xs) h c s"
proof -
  obtain ys zs ws where l: "xs = ys @ zs @ ws" "h = hd_opt (zs @ ws)" "c = hd_opt ws"
    "\<forall>a\<in>set zs. \<not> sigset_eq p (memo_set g a) s"
    using assms(1) unfolding scanned_def by blast
  have "\<forall>a\<in>set zs. \<not> sigset_eq p (memo_set g' a) s" using l assms(2) by simp
  then show ?thesis unfolding scanned_def using l(1-3) by (metis append_assoc)
qed

lemma pc_ok_frame:
  assumes "pc_ok p g xs pc" "length (sb_mem g) \<le> length (sb_mem g')"
    "\<forall>a\<in>set xs. memo_set g' a = memo_set g a" "\<forall>a\<in>owned pc. sb_mem g' ! a = sb_mem g ! a"
  shows "pc_ok p g' (vs @ xs) pc"
  using assms(1,2,4) by (cases pc) (simp_all add: pc_ok_def owned_def assms(3) scanned_frame [OF _ assms(3)])

lemma out_ok_frame:
  assumes "out_ok p g xs pc" "sb_last g' = sb_last g" "sb_out g' = sb_out g"
    "\<forall>a\<in>set xs. memo_set g' a = memo_set g a"
  shows "out_ok p g' (vs @ xs) pc"
proof -
  obtain ys us zs ws where l: "xs = ys @ us @ zs @ ws" "sb_last g = hd_opt ws"
    "mset (sb_out g) = image_mset (memo_rec p g) (mset (us @ ws))"
    "case emit_at pc of Some (lst, h, c) \<Rightarrow> lst = sb_last g \<and> h = hd_opt (us @ zs @ ws) \<and> c = hd_opt (zs @ ws)
       | None \<Rightarrow> us = [] \<and> zs = []"
    using assms(1) unfolding out_ok_def by blast
  have "image_mset (memo_rec p g') (mset (us @ ws)) = image_mset (memo_rec p g) (mset (us @ ws))"
    by (rule image_mset_cong) (use assms(4) l(1) in \<open>auto simp: memo_rec_def\<close>)
  then show ?thesis unfolding out_ok_def using l assms(2,3)
    by (intro exI [of _ "vs @ ys"] exI [of _ us] exI [of _ zs] exI [of _ ws]) (auto split: option.splits)
qed

lemma emit_at_None: "\<not> emitting pc \<Longrightarrow> emit_at pc = None"
  by (cases pc) (simp_all add: emitting_def emit_at_def)

lemma out_ok_quiet:
  "out_ok p g xs pc \<Longrightarrow> emit_at pc = None \<Longrightarrow> emit_at pc' = None \<Longrightarrow> out_ok p g xs pc'"
  unfolding out_ok_def by simp

lemma isys_inv_upd:
  assumes inv: "isys_inv p g pcs xs fs"
    and ch: "memo_chain (sb_mem g') (sb_head g') (vs @ xs)" "memo_chain (sb_mem g') (sb_free g') fs'"
    and d: "distinct (vs @ xs @ fs')"
    and src: "set vs \<union> set fs' \<union> owned pc' \<subseteq> set fs \<union> owned (pcs t) \<union> {length (sb_mem g) ..}"
    and own: "\<forall>a\<in>owned pc'. a < length (sb_mem g') \<and> a \<notin> set (vs @ xs @ fs')"
    and len: "length (sb_mem g) \<le> length (sb_mem g')"
    and fr: "\<forall>a < length (sb_mem g). a \<notin> set xs \<longrightarrow> a \<notin> set fs \<longrightarrow> a \<notin> owned (pcs t) \<longrightarrow> sb_mem g' ! a = sb_mem g ! a"
    and sets: "\<forall>a\<in>set xs. memo_set g' a = memo_set g a"
    and num: "sb_nsets g' = of_nat (length (sb_mem g'))" "\<forall>a<length (sb_mem g'). bs_number (sb_mem g' ! a) = of_nat a"
    and uniq: "\<forall>a\<in>set (vs @ xs). \<forall>b\<in>set (vs @ xs). sigset_eq p (memo_set g' a) (memo_set g' b) \<longrightarrow> a = b"
    and ok: "pc_ok p g' (vs @ xs) pc'"
    and em: "t \<noteq> 0 \<longrightarrow> \<not> emitting pc'"
    and out: "out_ok p g' (vs @ xs) (if t = 0 then pc' else pcs 0)"
  shows "isys_inv p g' (pcs(t := pc')) (vs @ xs) fs'"
proof -
  have I: "\<forall>u. \<forall>a\<in>owned (pcs u). a < length (sb_mem g) \<and> a \<notin> set xs \<and> a \<notin> set fs"
    "\<forall>u v. u \<noteq> v \<longrightarrow> owned (pcs u) \<inter> owned (pcs v) = {}"
    "\<forall>u. pc_ok p g xs (pcs u)" "\<forall>u. u \<noteq> 0 \<longrightarrow> \<not> emitting (pcs u)"
    using inv unfolding isys_inv_def by blast+
  have others: "a \<notin> set fs \<and> a \<notin> owned (pcs t) \<and> a < length (sb_mem g) \<and> a \<notin> set xs" if "u \<noteq> t" "a \<in> owned (pcs u)" for u a
    using I(1,2) that by fastforce
  have o1: "\<forall>u. \<forall>a\<in>owned ((pcs(t := pc')) u). a < length (sb_mem g') \<and> a \<notin> set (vs @ xs) \<and> a \<notin> set fs'"
  proof (intro allI ballI)
    fix u a
    assume a: "a \<in> owned ((pcs(t := pc')) u)"
    show "a < length (sb_mem g') \<and> a \<notin> set (vs @ xs) \<and> a \<notin> set fs'"
    proof (cases "u = t")
      case True
      then show ?thesis using a own by simp
    next
      case False
      then have "a \<in> owned (pcs u)" using a by simp
      note o = others [OF False this]
      then have "a \<notin> set vs" "a \<notin> set fs'" using src by auto
      then show ?thesis using o len by auto
    qed
  qed
  have o2: "\<forall>u v. u \<noteq> v \<longrightarrow> owned ((pcs(t := pc')) u) \<inter> owned ((pcs(t := pc')) v) = {}"
  proof (intro allI impI)
    fix u v :: nat
    assume uv: "u \<noteq> v"
    have new: "owned pc' \<inter> owned (pcs w) = {}" if "w \<noteq> t" for w
      using others [OF that] src by fastforce
    show "owned ((pcs(t := pc')) u) \<inter> owned ((pcs(t := pc')) v) = {}"
      using uv I(2) new [of u] new [of v] by auto
  qed
  have o3: "\<forall>u. pc_ok p g' (vs @ xs) ((pcs(t := pc')) u)"
  proof
    fix u
    show "pc_ok p g' (vs @ xs) ((pcs(t := pc')) u)"
    proof (cases "u = t")
      case True
      then show ?thesis using ok by simp
    next
      case False
      have "\<forall>a\<in>owned (pcs u). sb_mem g' ! a = sb_mem g ! a" using others [OF False] fr by blast
      then show ?thesis using False pc_ok_frame [OF I(3) [rule_format, of u] len sets] by simp
    qed
  qed
  have o4: "\<forall>u. u \<noteq> 0 \<longrightarrow> \<not> emitting ((pcs(t := pc')) u)" using I(4) em by simp
  have o5: "out_ok p g' (vs @ xs) ((pcs(t := pc')) 0)" using out by auto
  have d': "distinct ((vs @ xs) @ fs')" using d by simp
  show ?thesis
    unfolding isys_inv_def by (intro conjI ch d' o1 o2 num uniq o3 o4 o5)
qed

lemma isys_invD:
  assumes "isys_inv p g pcs xs fs"
  shows "memo_chain (sb_mem g) (sb_head g) xs" "memo_chain (sb_mem g) (sb_free g) fs" "distinct (xs @ fs)"
    "a \<in> owned (pcs t) \<Longrightarrow> a < length (sb_mem g) \<and> a \<notin> set xs \<and> a \<notin> set fs"
    "sb_nsets g = of_nat (length (sb_mem g))" "\<forall>a<length (sb_mem g). bs_number (sb_mem g ! a) = of_nat a"
    "\<forall>a\<in>set xs. \<forall>b\<in>set xs. sigset_eq p (memo_set g a) (memo_set g b) \<longrightarrow> a = b"
    "pc_ok p g xs (pcs t)" "t \<noteq> 0 \<Longrightarrow> \<not> emitting (pcs t)" "out_ok p g xs (pcs 0)"
  using assms unfolding isys_inv_def by blast+

lemma isys_inv_read:
  assumes inv: "isys_inv p g pcs xs fs"
    and same: "sb_mem g' = sb_mem g" "sb_head g' = sb_head g" "sb_free g' = sb_free g" "sb_nsets g' = sb_nsets g"
      "sb_last g' = sb_last g" "sb_out g' = sb_out g"
    and own: "owned pc' \<subseteq> owned (pcs t)" and ok: "pc_ok p g xs pc'"
    and em: "emit_at (pcs t) = None" "emit_at pc' = None" "t \<noteq> 0 \<longrightarrow> \<not> emitting pc'"
  shows "isys_inv p g' (pcs(t := pc')) xs fs"
proof -
  note D = isys_invD [OF inv]
  have ok': "pc_ok p g' ([] @ xs) pc'"
    by (rule pc_ok_frame [OF ok]) (simp_all add: same)
  have "out_ok p g xs (if t = 0 then pc' else pcs 0)"
    using D(10) em(1,2) out_ok_quiet [of p g xs "pcs 0" pc'] by (cases "t = 0") auto
  then have out: "out_ok p g' ([] @ xs) (if t = 0 then pc' else pcs 0)"
    by (rule out_ok_frame) (simp_all add: same)
  have "isys_inv p g' (pcs(t := pc')) ([] @ xs) fs"
  proof (rule isys_inv_upd [OF inv])
    show "memo_chain (sb_mem g') (sb_head g') ([] @ xs)" "memo_chain (sb_mem g') (sb_free g') fs"
      "distinct ([] @ xs @ fs)" using D(1-3) by (simp_all add: same)
    show "set [] \<union> set fs \<union> owned pc' \<subseteq> set fs \<union> owned (pcs t) \<union> {length (sb_mem g) ..}" using own by auto
    show "\<forall>a\<in>owned pc'. a < length (sb_mem g') \<and> a \<notin> set ([] @ xs @ fs)" using own D(4) same(1) by fastforce
  qed (use D(5-7) ok' em(3) out same in auto)
  then show ?thesis by simp
qed

lemma isys_inv_out:
  assumes "isys_inv p g pcs xs fs" "emit_at (pcs t) = None" "emit_at pc' = None"
    "sb_last g' = sb_last g" "sb_out g' = sb_out g" "\<forall>a\<in>set xs. memo_set g' a = memo_set g a"
  shows "out_ok p g' (vs @ xs) (if t = 0 then pc' else pcs 0)"
proof -
  have "out_ok p g xs (if t = 0 then pc' else pcs 0)"
    using isys_invD(10) [OF assms(1)] assms(2,3) out_ok_quiet [of p g xs "pcs 0" pc'] by (cases "t = 0") auto
  then show ?thesis by (rule out_ok_frame) (use assms in auto)
qed

lemma set_memo_simps [simp]:
  "sb_head (set_memo g a m) = sb_head g" "sb_free (set_memo g a m) = sb_free g" "sb_nsets (set_memo g a m) = sb_nsets g"
  "sb_last (set_memo g a m) = sb_last g" "sb_out (set_memo g a m) = sb_out g"
  "sb_mem (set_memo g a m) = (sb_mem g)[a := m]"
  by (simp_all add: set_memo_def)

text \<open>A thread writes a memo that it has to itself.\<close>

lemma isys_inv_write:
  assumes inv: "isys_inv p g pcs xs fs" and a: "a \<in> owned (pcs t)" "owned pc' = {a}"
    and num: "bs_number m = bs_number (sb_mem g ! a)"
    and ok: "pc_ok p (set_memo g a m) xs pc'"
    and em: "emit_at (pcs t) = None" "emit_at pc' = None" "\<not> emitting pc'"
  shows "isys_inv p (set_memo g a m) (pcs(t := pc')) xs fs"
proof -
  note D = isys_invD [OF inv]
  have al: "a < length (sb_mem g)" "a \<notin> set xs" "a \<notin> set fs" using D(4) [OF a(1)] by blast+
  have sets: "\<forall>b\<in>set xs. memo_set (set_memo g a m) b = memo_set g b" using al by (auto simp: nth_list_update)
  have "isys_inv p (set_memo g a m) (pcs(t := pc')) ([] @ xs) fs"
  proof (rule isys_inv_upd [OF inv])
    show "memo_chain (sb_mem (set_memo g a m)) (sb_head (set_memo g a m)) ([] @ xs)"
      using memo_chain_upd [OF D(1) al(2)] by simp
    show "memo_chain (sb_mem (set_memo g a m)) (sb_free (set_memo g a m)) fs"
      using memo_chain_upd [OF D(2) al(3)] by simp
    show "\<forall>b < length (sb_mem (set_memo g a m)). bs_number (sb_mem (set_memo g a m) ! b) = of_nat b"
      using D(6) num al by (auto simp: nth_list_update)
    show "\<forall>b < length (sb_mem g). b \<notin> set xs \<longrightarrow> b \<notin> set fs \<longrightarrow> b \<notin> owned (pcs t) \<longrightarrow> sb_mem (set_memo g a m) ! b = sb_mem g ! b"
      using a(1) by (metis nth_list_update_neq set_memo_simps(6))
    show "\<forall>a'\<in>set ([] @ xs). \<forall>b\<in>set ([] @ xs). sigset_eq p (memo_set (set_memo g a m) a') (memo_set (set_memo g a m) b) \<longrightarrow> a' = b"
      using D(7) sets by simp
    show "out_ok p (set_memo g a m) ([] @ xs) (if t = 0 then pc' else pcs 0)"
      by (rule isys_inv_out [OF inv em(1,2)]) (use sets in simp_all)
  qed (use D(3,5) a al ok em(3) sets in auto)
  then show ?thesis by simp
qed

text \<open>A thread puts a memo of its own on the free list.\<close>

lemma isys_inv_free:
  assumes inv: "isys_inv p g pcs xs fs" and a: "a \<in> owned (pcs t)" "owned pc' = {}"
    and nxt: "sb_free g = bs_next (sb_mem g ! a)"
    and ok: "pc_ok p (g\<lparr> sb_free := Some a \<rparr>) xs pc'"
    and em: "emit_at (pcs t) = None" "emit_at pc' = None" "\<not> emitting pc'"
  shows "isys_inv p (g\<lparr> sb_free := Some a \<rparr>) (pcs(t := pc')) xs (a # fs)"
proof -
  note D = isys_invD [OF inv]
  have al: "a < length (sb_mem g)" "a \<notin> set xs" "a \<notin> set fs" using D(4) [OF a(1)] by blast+
  have "isys_inv p (g\<lparr> sb_free := Some a \<rparr>) (pcs(t := pc')) ([] @ xs) (a # fs)"
  proof (rule isys_inv_upd [OF inv])
    show "memo_chain (sb_mem (g\<lparr> sb_free := Some a \<rparr>)) (sb_free (g\<lparr> sb_free := Some a \<rparr>)) (a # fs)"
      using D(2) al nxt by simp
    show "out_ok p (g\<lparr> sb_free := Some a \<rparr>) ([] @ xs) (if t = 0 then pc' else pcs 0)"
      by (rule isys_inv_out [OF inv em(1,2)]) simp_all
    show "\<forall>a'\<in>set ([] @ xs). \<forall>b\<in>set ([] @ xs). sigset_eq p (memo_set (g\<lparr> sb_free := Some a \<rparr>) a') (memo_set (g\<lparr> sb_free := Some a \<rparr>) b) \<longrightarrow> a' = b"
      using D(7) by simp
  qed (use D(1,3,5,6) a al ok em(3) in auto)
  then show ?thesis by simp
qed

text \<open>A thread takes the first memo of the free list.\<close>

lemma isys_inv_take:
  assumes inv: "isys_inv p g pcs xs (a # fs)" and nxt: "nxt = bs_next (sb_mem g ! a)"
    and a: "owned pc' = {a}"
    and ok: "pc_ok p (g\<lparr> sb_free := nxt \<rparr>) xs pc'"
    and em: "emit_at (pcs t) = None" "emit_at pc' = None" "\<not> emitting pc'"
  shows "isys_inv p (g\<lparr> sb_free := nxt \<rparr>) (pcs(t := pc')) xs fs"
proof -
  note D = isys_invD [OF inv]
  have "isys_inv p (g\<lparr> sb_free := nxt \<rparr>) (pcs(t := pc')) ([] @ xs) fs"
  proof (rule isys_inv_upd [OF inv])
    show "memo_chain (sb_mem (g\<lparr> sb_free := nxt \<rparr>)) (sb_free (g\<lparr> sb_free := nxt \<rparr>)) fs"
      using D(2) nxt by simp
    show "out_ok p (g\<lparr> sb_free := nxt \<rparr>) ([] @ xs) (if t = 0 then pc' else pcs 0)"
      by (rule isys_inv_out [OF inv em(1,2)]) simp_all
    show "\<forall>a'\<in>set ([] @ xs). \<forall>b\<in>set ([] @ xs). sigset_eq p (memo_set (g\<lparr> sb_free := nxt \<rparr>) a') (memo_set (g\<lparr> sb_free := nxt \<rparr>) b) \<longrightarrow> a' = b"
      using D(7) by simp
    show "\<forall>b\<in>owned pc'. b < length (sb_mem (g\<lparr> sb_free := nxt \<rparr>)) \<and> b \<notin> set ([] @ xs @ fs)"
      using a D(2,3) by auto
  qed (use D(1,3,5,6) a ok em(3) in auto)
  then show ?thesis by simp
qed

text \<open>A thread puts a memo of its own at the head of the list, which nobody changed since the scan.\<close>

lemma isys_inv_push:
  assumes inv: "isys_inv p g pcs xs fs" and a: "a \<in> owned (pcs t)" "owned pc' = {}"
    and g': "sb_mem g' = sb_mem g" "sb_head g' = Some a" "sb_free g' = sb_free g" "sb_nsets g' = sb_nsets g"
      "sb_last g' = sb_last g" "sb_out g' = sb_out g"
    and nxt: "bs_next (sb_mem g ! a) = sb_head g"
    and new: "\<forall>b\<in>set xs. \<not> sigset_eq p (memo_set g b) (memo_set g a)"
    and ok: "pc_ok p g' (a # xs) pc'"
    and em: "emit_at (pcs t) = None" "emit_at pc' = None" "\<not> emitting pc'"
  shows "isys_inv p g' (pcs(t := pc')) (a # xs) fs"
proof -
  note D = isys_invD [OF inv]
  have al: "a < length (sb_mem g)" "a \<notin> set xs" "a \<notin> set fs" using D(4) [OF a(1)] by blast+
  have new': "\<forall>b\<in>set xs. \<not> sigset_eq p (memo_set g a) (memo_set g b)" using new sigset_eq_sym by blast
  have "isys_inv p g' (pcs(t := pc')) ([a] @ xs) fs"
  proof (rule isys_inv_upd [OF inv])
    show "memo_chain (sb_mem g') (sb_head g') ([a] @ xs)" using D(1) al nxt g' by simp
    show "out_ok p g' ([a] @ xs) (if t = 0 then pc' else pcs 0)"
      by (rule isys_inv_out [OF inv em(1,2)]) (simp_all add: g')
    show "\<forall>a'\<in>set ([a] @ xs). \<forall>b\<in>set ([a] @ xs). sigset_eq p (memo_set g' a') (memo_set g' b) \<longrightarrow> a' = b"
      using D(7) new new' g' by simp
  qed (use D(2,3,5,6) a al ok em(3) g' in auto)
  then show ?thesis by simp
qed

text \<open>The serializer allocates a memo.\<close>

lemma isys_inv_malloc:
  assumes inv: "isys_inv p g pcs xs fs" and a: "owned (pcs t) = {}" "owned pc' = {length (sb_mem g)}"
    and g': "sb_mem g' = sb_mem g @ [m]" "sb_head g' = sb_head g" "sb_free g' = sb_free g" "sb_nsets g' = sb_nsets g + 1"
      "sb_last g' = sb_last g" "sb_out g' = sb_out g"
    and num: "bs_number m = sb_nsets g"
    and ok: "pc_ok p g' xs pc'"
    and em: "emit_at (pcs t) = None" "emit_at pc' = None" "\<not> emitting pc'"
  shows "isys_inv p g' (pcs(t := pc')) xs fs"
proof -
  note D = isys_invD [OF inv]
  have xl: "a < length (sb_mem g)" if "a \<in> set xs" for a using memo_chain_less [OF D(1) that] .
  have fl: "a < length (sb_mem g)" if "a \<in> set fs" for a using memo_chain_less [OF D(2) that] .
  have sets: "\<forall>b\<in>set xs. memo_set g' b = memo_set g b" using xl by (auto simp: g' nth_append)
  have "isys_inv p g' (pcs(t := pc')) ([] @ xs) fs"
  proof (rule isys_inv_upd [OF inv])
    show "memo_chain (sb_mem g') (sb_head g') ([] @ xs)"
      using memo_chain_cong [OF D(1), of "sb_mem g'"] xl by (simp add: g' nth_append)
    show "memo_chain (sb_mem g') (sb_free g') fs"
      using memo_chain_cong [OF D(2), of "sb_mem g'"] fl by (simp add: g' nth_append)
    show "out_ok p g' ([] @ xs) (if t = 0 then pc' else pcs 0)"
      by (rule isys_inv_out [OF inv em(1,2)]) (use sets g' in simp_all)
    show "\<forall>a'\<in>set ([] @ xs). \<forall>b\<in>set ([] @ xs). sigset_eq p (memo_set g' a') (memo_set g' b) \<longrightarrow> a' = b"
      using D(7) sets by simp
    show "\<forall>b\<in>owned pc'. b < length (sb_mem g') \<and> b \<notin> set ([] @ xs @ fs)"
      using a xl fl by (auto simp: g')
    show "\<forall>b<length (sb_mem g'). bs_number (sb_mem g' ! b) = of_nat b"
      using D(5,6) num by (auto simp: g' nth_append less_Suc_eq)
    show "sb_nsets g' = of_nat (length (sb_mem g'))" using D(5) by (simp add: g')
    show "\<forall>b < length (sb_mem g). b \<notin> set xs \<longrightarrow> b \<notin> set fs \<longrightarrow> b \<notin> owned (pcs t) \<longrightarrow> sb_mem g' ! b = sb_mem g ! b"
      by (simp add: g' nth_append)
  qed (use D(3) a ok em(3) sets g' in auto)
  then show ?thesis by simp
qed

text \<open>The serializer starts, goes on with, and ends an emission.\<close>

lemma isys_inv_emit_frame:
  assumes inv: "isys_inv p g pcs xs fs"
    and g': "sb_mem g' = sb_mem g" "sb_head g' = sb_head g" "sb_free g' = sb_free g" "sb_nsets g' = sb_nsets g"
    and pc: "owned pc' = {}" "pc_ok p g' xs pc'" "out_ok p g' xs pc'"
  shows "isys_inv p g' (pcs(0 := pc')) xs fs"
proof -
  note D = isys_invD [OF inv]
  have "isys_inv p g' (pcs(0 := pc')) ([] @ xs) fs"
    by (rule isys_inv_upd [OF inv]) (use D(1-3,5-7) g' pc in auto)
  then show ?thesis by simp
qed

lemma isys_inv_emit_start:
  assumes inv: "isys_inv p g pcs xs fs" and pc: "pcs 0 = EmitStart"
  shows "isys_inv p g (pcs(0 := Emit (sb_last g) (sb_head g) (sb_head g))) xs fs"
proof -
  note D = isys_invD [OF inv]
  obtain ys ws where l: "xs = ys @ ws" "sb_last g = hd_opt ws"
    "mset (sb_out g) = image_mset (memo_rec p g) (mset ws)"
    using D(10) unfolding out_ok_def pc by (auto simp: emit_at_def)
  have "out_ok p g xs (Emit (sb_last g) (sb_head g) (sb_head g))"
    unfolding out_ok_def
    by (rule exI [of _ "[]"], rule exI [of _ "[]"], rule exI [of _ ys], rule exI [of _ ws])
       (use l memo_chain_hd [OF D(1)] in \<open>simp add: emit_at_def\<close>)
  then show ?thesis
    by (intro isys_inv_emit_frame [OF inv]) (simp_all add: owned_def pc_ok_def)
qed

lemma isys_inv_emit_end:
  assumes inv: "isys_inv p g pcs xs fs" and pc: "pcs 0 = Emit lst h c" "c = None \<or> lst = c"
  shows "isys_inv p (g\<lparr> sb_last := h \<rparr>) (pcs(0 := Idle)) xs fs"
proof -
  note D = isys_invD [OF inv]
  obtain ys us vs ws where l: "xs = ys @ us @ vs @ ws" "lst = hd_opt ws"
    "mset (sb_out g) = image_mset (memo_rec p g) (mset (us @ ws))" "h = hd_opt (us @ vs @ ws)" "c = hd_opt (vs @ ws)"
    using D(10) unfolding out_ok_def pc(1) by (auto simp: emit_at_def)
  have "distinct (vs @ ws)" using D(3) l(1) by auto
  then have "vs = []" using pc(2) l(2,5) hd_opt_suffix [of "vs @ ws" vs ws] by auto
  then have "xs = (ys) @ [] @ [] @ (us @ ws)" "h = hd_opt (us @ ws)" using l(1,4) by simp_all
  moreover have "memo_rec p (g\<lparr> sb_last := h \<rparr>) = memo_rec p g" by (simp add: memo_rec_def fun_eq_iff)
  ultimately have "out_ok p (g\<lparr> sb_last := h \<rparr>) xs Idle"
    unfolding out_ok_def using l(3)
    by (intro exI [of _ ys] exI [of _ "[]"] exI [of _ "us @ ws"]) (simp add: emit_at_def)
  then show ?thesis
    by (intro isys_inv_emit_frame [OF inv]) (simp_all add: owned_def pc_ok_def)
qed

lemma isys_inv_emit_next:
  assumes inv: "isys_inv p g pcs xs fs" and pc: "pcs 0 = Emit lst h (Some a)" "lst \<noteq> Some a"
    and m: "m = sb_mem g ! a" "a < length (sb_mem g)"
  shows "isys_inv p (set_memo (g\<lparr> sb_out := sb_out g @ [(bs_number m, sigset_to_mask p (plat_tab p) (bs_sigset m))] \<rparr>)
                       a (m\<lparr> bs_serialized := True \<rparr>)) (pcs(0 := Emit lst h (bs_next m))) xs fs"
    (is "isys_inv p ?g (pcs(0 := ?pc)) xs fs")
proof -
  note D = isys_invD [OF inv]
  obtain ys us vs ws where l: "xs = ys @ us @ vs @ ws" "lst = hd_opt ws" "lst = sb_last g"
    "mset (sb_out g) = image_mset (memo_rec p g) (mset (us @ ws))" "h = hd_opt (us @ vs @ ws)" "Some a = hd_opt (vs @ ws)"
    using D(10) unfolding out_ok_def pc(1) by (auto simp: emit_at_def)
  then obtain vs' where vs: "vs = a # vs'" using pc(2) by (cases vs) auto
  have ax: "a \<in> set xs" "a \<notin> set fs" using D(3) by (auto simp: l(1) vs)
  have nxt: "bs_next m = hd_opt (vs' @ ws)"
    using memo_chain_next [of "sb_mem g" "sb_head g" "ys @ us" a "vs' @ ws"] D(1) by (simp add: l(1) vs m)
  have mem: "bs_next (sb_mem ?g ! b) = bs_next (sb_mem g ! b)" "bs_sigset (sb_mem ?g ! b) = bs_sigset (sb_mem g ! b)"
    "bs_number (sb_mem ?g ! b) = bs_number (sb_mem g ! b)" for b
    by (cases "b = a"; simp add: m)+
  have rec: "memo_rec p ?g = memo_rec p g" unfolding memo_rec_def fun_eq_iff mem by simp
  have out: "out_ok p ?g xs ?pc"
    unfolding out_ok_def rec
    by (rule exI [of _ ys], rule exI [of _ "us @ [a]"], rule exI [of _ vs'], rule exI [of _ ws])
       (use l vs nxt D(6) m in \<open>simp add: emit_at_def memo_rec_def\<close>)
  have "isys_inv p ?g (pcs(0 := ?pc)) ([] @ xs) fs"
  proof (rule isys_inv_upd [OF inv])
    show "memo_chain (sb_mem ?g) (sb_head ?g) ([] @ xs)"
      using memo_chain_cong [OF D(1), of "sb_mem ?g"] mem(1) by simp
    show "memo_chain (sb_mem ?g) (sb_free ?g) fs"
      using memo_chain_cong [OF D(2), of "sb_mem ?g"] mem(1) by simp
    show "\<forall>b<length (sb_mem g). b \<notin> set xs \<longrightarrow> b \<notin> set fs \<longrightarrow> b \<notin> owned (pcs 0) \<longrightarrow> sb_mem ?g ! b = sb_mem g ! b"
      using ax(1) by (metis nth_list_update_neq set_memo_simps(6) blocksets.select_convs(1) blocksets.surjective blocksets.update_convs(6))
    show "\<forall>b\<in>set xs. memo_set ?g b = memo_set g b" using mem(2) by simp
    show "\<forall>b<length (sb_mem ?g). bs_number (sb_mem ?g ! b) = of_nat b" using mem(3) D(6) by simp
    show "\<forall>b\<in>set ([] @ xs). \<forall>c\<in>set ([] @ xs). sigset_eq p (memo_set ?g b) (memo_set ?g c) \<longrightarrow> b = c"
      using mem(2) D(7) by simp
    show "pc_ok p ?g ([] @ xs) ?pc" by (simp add: pc_ok_def)
    show "out_ok p ?g ([] @ xs) (if 0 = (0::nat) then ?pc else pcs 0)" using out by simp
  qed (use D(3,5) in \<open>auto simp: owned_def\<close>)
  then show ?thesis by simp
qed

section \<open>Every step keeps the invariant\<close>

lemma scanned_next:
  assumes "scanned p g xs h (Some a) s" "memo_chain (sb_mem g) q xs"
  shows "a \<in> set xs" "a < length (sb_mem g)"
    "\<not> sigset_eq p (memo_set g a) s \<Longrightarrow> scanned p g xs h (bs_next (sb_mem g ! a)) s"
proof -
  obtain ys zs ws where l: "xs = ys @ zs @ ws" "h = hd_opt (zs @ ws)" "Some a = hd_opt ws"
    "\<forall>a\<in>set zs. \<not> sigset_eq p (memo_set g a) s"
    using assms(1) unfolding scanned_def by blast
  then obtain ws' where ws: "ws = a # ws'" by (cases ws) auto
  show a: "a \<in> set xs" using l(1) ws by simp
  show "a < length (sb_mem g)" by (rule memo_chain_less [OF assms(2) a])
  have nxt: "bs_next (sb_mem g ! a) = hd_opt ws'"
    using memo_chain_next [of "sb_mem g" q "ys @ zs" a ws'] assms(2) l(1) ws by simp
  show "scanned p g xs h (bs_next (sb_mem g ! a)) s" if "\<not> sigset_eq p (memo_set g a) s"
    unfolding scanned_def nxt using l ws that
    by (intro exI [of _ ys] exI [of _ "zs @ [a]"] exI [of _ ws']) auto
qed

lemma scanned_all:
  assumes "scanned p g xs h None s" "h = hd_opt xs" "distinct xs"
  shows "\<forall>a\<in>set xs. \<not> sigset_eq p (memo_set g a) s"
proof -
  obtain ys zs where l: "xs = ys @ zs" "h = hd_opt zs" "\<forall>a\<in>set zs. \<not> sigset_eq p (memo_set g a) s"
    using assms(1) unfolding scanned_def by (metis append_Nil2 hd_opt_eq_None)
  then have "ys = []" using hd_opt_suffix [of xs ys zs] assms(2,3) by simp
  then show ?thesis using l by simp
qed

lemma pop_step:
  assumes inv: "isys_inv p g pcs xs fs" and pc: "pcs t = PopCas s h a nxt"
    and st: "fresh_step p g (PopCas s h a nxt) = Inr (g', pc')"
  shows "\<exists>fs'. isys_inv p g' (pcs(t := pc')) xs fs'"
proof -
  note D = isys_invD [OF inv]
  have ok: "scanned p g xs h None s" "a < length (sb_mem g)" using D(8) [of t] pc by (simp_all add: pc_ok_def)
  have em: "emit_at (pcs t) = None" by (simp add: pc emit_at_def)
  show ?thesis
  proof (cases "sb_free g = Some a")
    case True
    then obtain fs' where fs: "fs = a # fs'" using memo_chain_hd [OF D(2)] by (cases fs) auto
    have g': "g' = g\<lparr> sb_free := bs_next (sb_mem g ! a) \<rparr>" "pc' = Fill s h a"
      using st True by (auto simp: fresh_step_def stale_take_def split: if_splits)
    have "isys_inv p g' (pcs(t := pc')) xs fs'"
      unfolding g'
      by (rule isys_inv_take [OF inv [unfolded fs] refl])
         (use ok em in \<open>simp_all add: owned_def pc_ok_def emit_at_def emitting_def scanned_def\<close>)
    then show ?thesis ..
  next
    case False
    have g': "g' = g" "pc' = (case sb_free g of None \<Rightarrow> PopRead s h | Some b \<Rightarrow> PopNext s h b)"
      using st False by (auto simp: fresh_step_def split: if_splits)
    have "b < length (sb_mem g)" if "sb_free g = Some b" for b
      using D(2) that by (cases fs) auto
    then have "isys_inv p g' (pcs(t := pc')) xs fs"
      unfolding g'(1)
      by (intro isys_inv_read [OF inv])
         (use ok em g'(2) in \<open>auto simp: owned_def pc_ok_def emit_at_def emitting_def split: option.splits\<close>)
    then show ?thesis ..
  qed
qed

lemma cas_free_step:
  assumes inv: "isys_inv p g pcs xs fs" and own: "owned (pcs t) = {a}" and em: "emit_at (pcs t) = None"
    and pcs': "owned retry = {a}" "owned done = {}" "emit_at retry = None" "emit_at done = None"
      "\<not> emitting retry" "\<not> emitting done" "\<And>g. pc_ok p g xs retry" "\<And>g. pc_ok p g xs done"
    and st: "(if sb_free g = bs_next (sb_mem g ! a) then (g\<lparr> sb_free := Some a \<rparr>, done)
              else (set_memo g a ((sb_mem g ! a)\<lparr> bs_next := sb_free g \<rparr>), retry)) = (g', pc')"
  shows "\<exists>fs'. isys_inv p g' (pcs(t := pc')) xs fs'"
proof (cases "sb_free g = bs_next (sb_mem g ! a)")
  case True
  then have "isys_inv p (g\<lparr> sb_free := Some a \<rparr>) (pcs(t := done)) xs (a # fs)"
    by (intro isys_inv_free [OF inv]) (use own em pcs' in simp_all)
  then show ?thesis using st True by auto
next
  case False
  have "isys_inv p (set_memo g a ((sb_mem g ! a)\<lparr> bs_next := sb_free g \<rparr>)) (pcs(t := retry)) xs fs"
    by (rule isys_inv_write [OF inv]) (use own em pcs' in simp_all)
  then show ?thesis using st False by auto
qed

lemma fresh_step_other: "\<forall>s h a n. pc \<noteq> PopCas s h a n \<Longrightarrow> fresh_step p g pc = intern_step p g pc"
  by (cases pc) (simp_all add: fresh_step_def stale_take_def)

lemmas pc_simps = owned_def pc_ok_def emit_at_def emitting_def

lemma scan_step:
  assumes inv: "isys_inv p g pcs xs fs" and pl: "1 \<le> sg_max p" and pc: "pcs t = Scan s h (Some a)"
    and st: "intern_step p g (Scan s h (Some a)) = Inr (g', pc')"
  shows "isys_inv p g' (pcs(t := pc')) xs fs"
proof -
  note D = isys_invD [OF inv]
  have sc: "scanned p g xs h (Some a) s" using D(8) [of t] pc by (simp add: pc_ok_def)
  note N = scanned_next [OF sc D(1)]
  have g': "g' = g" "pc' = (if sigset_eq p (memo_set g a) s then Await s a else Scan s h (bs_next (sb_mem g ! a)))"
    using st N(2) by (auto simp: memo_at_def sigeqset_spec [OF pl])
  show ?thesis
    unfolding g'
    by (rule isys_inv_read [OF inv]) (use N pc in \<open>auto simp: pc_simps\<close>)
qed

lemma push_step:
  assumes inv: "isys_inv p g pcs xs fs" and pc: "pcs t = Push s h a"
    and st: "intern_step p g (Push s h a) = Inr (g', pc')"
  shows "\<exists>xs'. isys_inv p g' (pcs(t := pc')) xs' fs"
proof -
  note D = isys_invD [OF inv]
  have ok: "scanned p g xs h None s" "bs_next (sb_mem g ! a) = h" "memo_set g a = s"
    using D(8) [of t] pc by (simp_all add: pc_ok_def)
  have dx: "distinct xs" using D(3) by simp
  show ?thesis
  proof (cases "sb_head g = h")
    case True
    then have new: "\<forall>b\<in>set xs. \<not> sigset_eq p (memo_set g b) (memo_set g a)"
      using scanned_all [OF ok(1) _ dx] memo_chain_hd [OF D(1)] ok(3) by simp
    have g': "g' = g\<lparr> sb_head := Some a, sb_kicks := sb_kicks g @ [RequestService] \<rparr>" "pc' = Done s a"
      using st True by simp_all
    have "isys_inv p g' (pcs(t := pc')) (a # xs) fs"
      unfolding g'
      by (rule isys_inv_push [OF inv _ _ _ _ _ _ _ _ _ new, of t])
         (use True ok pc in \<open>simp_all add: pc_simps sigset_eq_def\<close>)
    then show ?thesis ..
  next
    case False
    have "isys_inv p g' (pcs(t := pc')) xs fs"
      by (rule isys_inv_read [OF inv]) (use st False pc in \<open>auto simp: pc_simps\<close>)
    then show ?thesis ..
  qed
qed

lemma isys_inv_step:
  assumes inv: "isys_inv p g pcs xs fs" and pl: "1 \<le> sg_max p"
    and st: "fresh_step p g (pcs t) = Inr (g', pc')"
  shows "\<exists>xs' fs'. isys_inv p g' (pcs(t := pc')) xs' fs'"
proof -
  note D = isys_invD [OF inv]
  note ok = D(8) [of t]
  have read: ?thesis if "g' = g \<or> g' = g\<lparr> sb_kicks := sb_kicks g @ [WakeReplenisher] \<rparr>" "owned pc' \<subseteq> owned (pcs t)" "pc_ok p g xs pc'"
    "emit_at (pcs t) = None" "emit_at pc' = None" "t \<noteq> 0 \<longrightarrow> \<not> emitting pc'"
    by (intro exI, rule isys_inv_read [OF inv _ _ _ _ _ _ that(2-6)]) (use that(1) in auto)
  have zero: "t = 0" if "emitting (pcs t)" using D(9) [of t] that by blast
  show ?thesis
  proof (cases "pcs t")
    case (Start s)
    have "scanned p g xs (sb_head g) (sb_head g) s"
      unfolding scanned_def
      by (rule exI [of _ "[]"], rule exI [of _ "[]"], rule exI [of _ xs]) (use memo_chain_hd [OF D(1)] in simp)
    then show ?thesis using Start st by (intro read) (auto simp: fresh_step_other pc_simps)
  next
    case (Scan s h c)
    then show ?thesis
    proof (cases c)
      case None
      then show ?thesis using Scan st ok by (intro read) (auto simp: fresh_step_other pc_simps)
    next
      case (Some a)
      then show ?thesis using scan_step [OF inv pl, of t s h a g' pc'] Scan st by (auto simp: fresh_step_other)
    qed
  next
    case (Await s a)
    then have "g' = g" "pc' = Done s a \<or> pc' = Await s a"
      using st by (auto simp: fresh_step_other memo_at_def split: if_splits)
    then show ?thesis using ok by (intro read) (auto simp: pc_simps Await)
  next
    case (PopRead s h)
    have "a < length (sb_mem g)" if "sb_free g = Some a" for a using D(2) that by (cases fs) auto
    moreover have "g' = g \<or> g' = g\<lparr> sb_kicks := sb_kicks g @ [WakeReplenisher] \<rparr>"
      "pc' = PopRead s h \<or> (\<exists>a. sb_free g = Some a \<and> pc' = PopNext s h a)"
      using st PopRead by (auto simp: fresh_step_other split: option.splits)
    ultimately show ?thesis using ok by (intro read) (auto simp: pc_simps PopRead)
  next
    case (PopNext s h a)
    have "a < length (sb_mem g)" using ok PopNext by (simp add: pc_ok_def)
    then have "g' = g" "pc' = PopCas s h a (bs_next (sb_mem g ! a))"
      using st PopNext by (auto simp: fresh_step_other memo_at_def)
    then show ?thesis using ok by (intro read) (auto simp: pc_simps PopNext)
  next
    case (PopCas s h a nxt)
    then show ?thesis using pop_step [OF inv PopCas] st by auto
  next
    case (Fill s h a)
    have al: "a < length (sb_mem g)" using D(4) [of a t] Fill by (simp add: owned_def)
    have g': "g' = set_memo g a ((sb_mem g ! a)\<lparr> bs_next := h, bs_sigset := s, bs_serialized := False \<rparr>)" "pc' = Push s h a"
      using st Fill al by (simp_all add: fresh_step_other memo_at_def)
    have "a \<notin> set xs" using D(4) [of a t] Fill by (simp add: owned_def)
    then have "\<forall>b\<in>set xs. memo_set g' b = memo_set g b" unfolding g'(1) by (metis nth_list_update_neq set_memo_simps(6))
    then have "scanned p g' ([] @ xs) h None s"
      by (rule scanned_frame [rotated]) (use ok Fill in \<open>simp add: pc_ok_def\<close>)
    then have "isys_inv p g' (pcs(t := pc')) xs fs"
      unfolding g' by (intro isys_inv_write [OF inv]) (use Fill al in \<open>simp_all add: pc_simps\<close>)
    then show ?thesis by blast
  next
    case (Push s h a)
    then show ?thesis using push_step [OF inv Push] st by (auto simp: fresh_step_other)
  next
    case (PutRead s a)
    have al: "a < length (sb_mem g)" using D(4) [of a t] PutRead by (simp add: owned_def)
    have g': "g' = set_memo g a ((sb_mem g ! a)\<lparr> bs_next := sb_free g \<rparr>)" "pc' = PutCas s a"
      using st PutRead al by (simp_all add: fresh_step_other memo_at_def)
    have "isys_inv p g' (pcs(t := pc')) xs fs"
      unfolding g' by (intro isys_inv_write [OF inv]) (use PutRead al in \<open>simp_all add: pc_simps\<close>)
    then show ?thesis by blast
  next
    case (PutCas s a)
    have al: "a < length (sb_mem g)" using D(4) [of a t] PutCas by (simp add: owned_def)
    have "\<exists>fs'. isys_inv p g' (pcs(t := pc')) xs fs'"
      by (rule cas_free_step [OF inv, of t a "PutCas s a" "Start s"])
         (use st al PutCas in \<open>simp_all add: fresh_step_other memo_at_def pc_simps\<close>)
    then show ?thesis by blast
  next
    case (Done s a)
    then have "g' = g" "pc' = Done s a" using st by (simp_all add: fresh_step_other)
    then show ?thesis using ok by (intro read) (auto simp: pc_simps Done)
  next
    case ReplStart
    then have "g' = g" "pc' = Idle \<or> pc' = Replenish 5" using st by (auto simp: fresh_step_other split: if_splits)
    then show ?thesis by (intro read) (auto simp: pc_simps ReplStart)
  next
    case (Replenish n)
    show ?thesis
    proof (cases n)
      case 0
      then show ?thesis using Replenish st by (intro read) (auto simp: fresh_step_other pc_simps)
    next
      case (Suc k)
      have "isys_inv p g' (pcs(t := pc')) xs fs"
        by (rule isys_inv_malloc [OF inv]) (use st Replenish Suc in \<open>auto simp: fresh_step_other pc_simps\<close>)
      then show ?thesis by blast
    qed
  next
    case (ReplCas n a)
    have al: "a < length (sb_mem g)" using D(4) [of a t] ReplCas by (simp add: owned_def)
    have "\<exists>fs'. isys_inv p g' (pcs(t := pc')) xs fs'"
      by (rule cas_free_step [OF inv, of t a "ReplCas n a" "Replenish n"])
         (use st al ReplCas in \<open>simp_all add: fresh_step_other memo_at_def pc_simps\<close>)
    then show ?thesis by blast
  next
    case EmitStart
    then have t: "t = 0" using zero by (simp add: emitting_def)
    then show ?thesis using isys_inv_emit_start [OF inv] EmitStart st by (auto simp: fresh_step_other)
  next
    case (Emit lst h c)
    then have t: "t = 0" using zero by (simp add: emitting_def)
    show ?thesis
    proof (cases "c = None \<or> lst = c")
      case True
      then have "g' = g\<lparr> sb_last := h \<rparr>" "pc' = Idle"
        using st Emit by (cases c; simp add: fresh_step_other)+
      then show ?thesis using isys_inv_emit_end [OF inv, of lst h c] Emit t True by blast
    next
      case False
      then obtain a where c: "c = Some a" "lst \<noteq> Some a" by auto
      have al: "a < length (sb_mem g)"
        using st Emit c by (auto simp: fresh_step_other memo_at_def split: if_splits)
      then show ?thesis
        using isys_inv_emit_next [OF inv _ c(2) refl al, of h] Emit c t st
        by (auto simp: fresh_step_other memo_at_def)
    qed
  next
    case Idle
    then have "g' = g" "pc' = Idle" using st by (simp_all add: fresh_step_other)
    then show ?thesis by (intro read) (auto simp: pc_simps Idle)
  qed
qed

lemma isys_inv_call:
  assumes "isys_inv p g pcs xs fs" "at_rest (pcs t)" "owned pc' = {}" "pc_ok p g xs pc'" "emit_at pc' = None"
    "t \<noteq> 0 \<longrightarrow> \<not> emitting pc'"
  shows "isys_inv p g (pcs(t := pc')) xs fs"
  by (rule isys_inv_read [OF assms(1)])
     (use assms in \<open>auto simp: at_rest_def emit_at_def split: ipc.splits\<close>)

lemma isys_inv_reachable:
  assumes "1 \<le> sg_max p" "isys_reachable (fresh_step p) sys"
  shows "\<exists>xs fs. isys_inv p (fst sys) (snd sys) xs fs"
  using assms(2) unfolding isys_reachable_def
proof (induction rule: rtranclp_induct)
  case base
  have "out_ok p (fst isys_init) [] Idle"
    by (simp add: out_ok_def isys_init_def emit_at_def)
  then show ?case
    by (intro exI [of _ "[]"]) (simp add: isys_inv_def isys_init_def pc_simps)
next
  case (step sys sys')
  then obtain xs fs where inv: "isys_inv p (fst sys) (snd sys) xs fs" by blast
  from step(2) show ?case
  proof cases
    case (Local g pcs t g' pc')
    then have "isys_inv p g pcs xs fs" using inv by simp
    from isys_inv_step [OF this assms(1) Local(3)] show ?thesis unfolding Local(2) fst_conv snd_conv .
  next
    case (Call t pcs g s)
    have "isys_inv p g pcs xs fs" using inv Call(1) by simp
    from isys_inv_call [OF this Call(4), of "Start s"] show ?thesis
      unfolding Call(2) fst_conv snd_conv by (auto simp: pc_simps simp del: fun_upd_apply)
  next
    case (Replen pcs g)
    have "isys_inv p g pcs xs fs" using inv Replen(1) by simp
    from isys_inv_call [OF this Replen(3), of ReplStart] show ?thesis
      unfolding Replen(2) fst_conv snd_conv by (auto simp: pc_simps simp del: fun_upd_apply)
  next
    case (Emission pcs g)
    have "isys_inv p g pcs xs fs" using inv Emission(1) by simp
    from isys_inv_call [OF this Emission(3), of EmitStart] show ?thesis
      unfolding Emission(2) fst_conv snd_conv by (auto simp: pc_simps simp del: fun_upd_apply)
  qed
qed

section \<open>Runs\<close>

text \<open>A schedule: which thread does what, in order.\<close>

datatype iact = Go | Ask sigset | DoReplenish | DoEmit

fun isys_run ::
    "(blocksets \<Rightarrow> ipc \<Rightarrow> (blocksets \<times> ipc) cres) \<Rightarrow> (nat \<times> iact) list \<Rightarrow> isys \<Rightarrow> isys option" where
    "isys_run stp [] sys = Some sys"
  | "isys_run stp ((t, Go) # as) (g, pcs) =
       (case stp g (pcs t) of Inl _ \<Rightarrow> None | Inr (g', pc') \<Rightarrow> isys_run stp as (g', pcs(t := pc')))"
  | "isys_run stp ((t, Ask s) # as) (g, pcs) =
       (if t \<noteq> 0 \<and> at_rest (pcs t) then isys_run stp as (g, pcs(t := Start s)) else None)"
  | "isys_run stp ((t, DoReplenish) # as) (g, pcs) =
       (if at_rest (pcs 0) then isys_run stp as (g, pcs(0 := ReplStart)) else None)"
  | "isys_run stp ((t, DoEmit) # as) (g, pcs) =
       (if at_rest (pcs 0) then isys_run stp as (g, pcs(0 := EmitStart)) else None)"

lemma isys_run_steps: "isys_run stp as sys = Some sys' \<Longrightarrow> (isys_step stp)\<^sup>*\<^sup>* sys sys'"
proof (induction stp as sys rule: isys_run.induct)
  case (2 stp t as g pcs)
  then show ?case
    by (auto split: sum.splits prod.splits intro: converse_rtranclp_into_rtranclp isys_step.Local)
qed (auto split: if_splits intro: converse_rtranclp_into_rtranclp isys_step.intros)

lemma isys_run_reachable: "isys_run stp as isys_init = Some sys \<Longrightarrow> isys_reachable stp sys"
  unfolding isys_reachable_def by (rule isys_run_steps)

abbreviation goes :: "nat \<Rightarrow> nat \<Rightarrow> (nat \<times> iact) list" where
  "goes t n \<equiv> replicate n (t, Go)"

definition two_signals :: sigplat where
  "two_signals = \<lparr> sg_max = 2, sg_fill = (\<lambda>_. True), sg_addable = (\<lambda>_. True) \<rparr>"

section \<open>Properties\<close>

text \<open>
  C21. Numbers of signal sets. Let any number of threads and handlers call \<open>intern_sigset\<close>, and the
  serializer replenish the free list and write memos, with all their accesses to memory interleaved
  in any way, the load of the next free memo and the compare-and-set of the free list as two steps.
  As long as no compare-and-set takes a memo off the free list with a successor that is out of date
  (C22 is about a run in which one does), then at any time two calls that have returned have the same
  number exactly if their sets are equal; the trace gives each number at most once; and the mask
  that it gives for the number of a call is that of the call's set, on the signals that full
  sets have. (Fewer than \<open>2 ^ 32\<close> memos: the numbers have 32 bits.)
\<close>

theorem interned_numbers_mean_sets:
  assumes "plat_ok p" "isys_reachable (fresh_step p) (g, pcs)" "length (sb_mem g) \<le> 2 ^ 32"
    and "pcs t = Done s a" "pcs u = Done r b"
  shows "(bs_number (sb_mem g ! a) = bs_number (sb_mem g ! b) \<longleftrightarrow> sigset_eq p s r) \<and>
    distinct (map fst (sb_out g)) \<and>
    (\<forall>m. (bs_number (sb_mem g ! a), m) \<in> set (sb_out g) \<longrightarrow>
      (\<forall>n < sg_max p. sg_fill p (int n + 1) \<longrightarrow> (bit m n \<longleftrightarrow> s (int n + 1))))"
proof -
  have sg: "1 \<le> sg_max p" "sg_max p \<le> 64" using assms(1) by (simp_all add: plat_ok_def)
  obtain xs fs where inv: "isys_inv p g pcs xs fs" using isys_inv_reachable [OF sg(1) assms(2)] by auto
  note D = isys_invD [OF inv]
  have done_a: "a \<in> set xs" "sigset_eq p (memo_set g a) s" using D(8) [of t] assms(4) by (simp_all add: pc_ok_def)
  have done_b: "b \<in> set xs" "sigset_eq p (memo_set g b) r" using D(8) [of u] assms(5) by (simp_all add: pc_ok_def)
  have num: "bs_number (sb_mem g ! c) = of_nat c" "c < 2 ^ 32" if "c \<in> set xs" for c
    using memo_chain_less [OF D(1) that] D(6) assms(3) by auto
  have inj: "(of_nat c :: u32) = of_nat d \<longleftrightarrow> c = d" if "c \<in> set xs" "d \<in> set xs" for c d
    using num(2) [OF that(1)] num(2) [OF that(2)] by (simp add: word_of_nat_eq_iff take_bit_eq_mod)
  have same: "bs_number (sb_mem g ! a) = bs_number (sb_mem g ! b) \<longleftrightarrow> sigset_eq p s r"
    using num(1) done_a done_b inj D(7) sigset_eq_sym sigset_eq_trans by metis
  obtain ys us vs ws where o: "xs = ys @ us @ vs @ ws" "mset (sb_out g) = image_mset (memo_rec p g) (mset (us @ ws))"
    using D(10) unfolding out_ok_def by blast
  have "mset (map fst (sb_out g)) = mset (map (of_nat :: nat \<Rightarrow> u32) (us @ ws))"
    using arg_cong [OF o(2), of "image_mset fst"] by (simp add: memo_rec_def multiset.map_comp comp_def)
  moreover have "distinct (map (of_nat :: nat \<Rightarrow> u32) (us @ ws))"
    using D(3) o(1) inj by (auto simp: distinct_map inj_on_def)
  ultimately have dist: "distinct (map fst (sb_out g))" by (metis mset_eq_imp_distinct_iff)
  have "bit m n \<longleftrightarrow> s (int n + 1)"
    if "(bs_number (sb_mem g ! a), m) \<in> set (sb_out g)" "n < sg_max p" "sg_fill p (int n + 1)" for m n
  proof -
    have "(of_nat a, m) \<in># mset (sb_out g)" using that(1) num(1) [OF done_a(1)] by simp
    then obtain c where c: "c \<in> set (us @ ws)" "(of_nat a, m) = memo_rec p g c" unfolding o(2) by auto
    then have "c = a" using inj [OF done_a(1), of c] o(1) by (auto simp: memo_rec_def)
    then have "m = sigset_to_mask p (plat_tab p) (memo_set g a)" using c(2) by (simp add: memo_rec_def)
    then show ?thesis
      using bit_sigset_to_mask [OF assms(1), of n] done_a(2) that(2,3) sg by (auto simp: sigset_eq_def)
  qed
  then show ?thesis using same dist by blast
qed

text \<open>The hypotheses hold in a run: two threads number two sets, and the serializer writes one.\<close>

definition two_calls :: "(nat \<times> iact) list" where
  "two_calls =
     [(0, DoReplenish)] @ goes 0 12 @ [(1, Ask (\<lambda>i. i = 1))] @ goes 1 7 @ [(0, DoEmit)] @ goes 0 3 @
     [(2, Ask (\<lambda>i. i = 2))] @ goes 2 8"

theorem interned_numbers_mean_sets_witness:
  "\<exists>g pcs s r a b. isys_reachable (fresh_step two_signals) (g, pcs) \<and> pcs 1 = Done s a \<and> pcs 2 = Done r b \<and>
     bs_number (sb_mem g ! a) \<noteq> bs_number (sb_mem g ! b) \<and> (\<exists>m. sb_out g = [(bs_number (sb_mem g ! a), m)] \<and> bit m 0 \<and> \<not> bit m 1)"
proof -
  have "case isys_run (fresh_step two_signals) two_calls isys_init of None \<Rightarrow> False
    | Some (g, pcs) \<Rightarrow> (case (pcs 1, pcs 2) of (Done s a, Done r b) \<Rightarrow>
        s 1 \<and> \<not> s 2 \<and> \<not> r 1 \<and> length (sb_mem g) = 5 \<and> map fst (sb_out g) = [bs_number (sb_mem g ! a)] | _ \<Rightarrow> False)"
    by code_simp
  then obtain g pcs s r a b where
    run: "isys_run (fresh_step two_signals) two_calls isys_init = Some (g, pcs)" and
    d: "pcs 1 = Done s a" "pcs 2 = Done r b" "s 1" "\<not> s 2" "\<not> r 1" "length (sb_mem g) = 5" and
    o: "map fst (sb_out g) = [bs_number (sb_mem g ! a)]"
    by (auto split: option.splits prod.splits ipc.splits)
  have ok: "plat_ok two_signals" by (simp add: plat_ok_def two_signals_def)
  have "length (sb_mem g) \<le> 2 ^ 32" using d(6) by simp
  note T = interned_numbers_mean_sets [OF ok isys_run_reachable [OF run] this d(1,2)]
  obtain m where m: "sb_out g = [(bs_number (sb_mem g ! a), m)]" using o by auto
  have "\<forall>n < 2. bit m n \<longleftrightarrow> s (int n + 1)"
    using T m by (simp add: two_signals_def)
  then have "bit m 0" "\<not> bit m 1" using d(3,4) by force+
  moreover have "\<not> sigset_eq two_signals s r"
    using d(3,5) by (auto simp: sigset_eq_def two_signals_def)
  ultimately show ?thesis using T m d isys_run_reachable [OF run] by blast
qed

definition aba_schedule :: "(nat \<times> iact) list" where
  "aba_schedule =
     [(0, DoReplenish)] @ goes 0 12 @
     [(1, Ask (\<lambda>i. i = 1))] @ goes 1 4 @
     [(2, Ask (\<lambda>i. i = 2))] @ goes 2 5 @
     [(3, Ask (\<lambda>i. True))] @ goes 3 7 @
     goes 2 4 @ goes 1 1 @ goes 2 8"

text \<open>
  C22. A memo with two meanings. A take with a successor that is out of date makes the numbers go wrong: this is
  the ABA problem. In a run of the machine, thread 1 loads the first free memo and the next one; thread 2
  takes the first, thread 3 takes the next, numbers its set with it and returns; thread 2, whose
  compare-and-set of the list then fails, puts the first memo back; thread 1's compare-and-set of the
  free list succeeds and makes the memo of thread 3 free again; thread 2 takes it. The calls of
  threads 2 and 3 return one memo for two different sets, and the memo is its own successor, so
  that the next scan for a third set does not end.
\<close>

theorem interned_memo_taken_twice:
  "\<exists>g pcs s r a. isys_reachable (intern_step two_signals) (g, pcs) \<and> pcs 2 = Done s a \<and> pcs 3 = Done r a \<and>
     \<not> sigset_eq two_signals s r \<and> \<not> sigset_eq two_signals (memo_set g a) r \<and> bs_next (sb_mem g ! a) = Some a"
proof -
  have "case isys_run (intern_step two_signals) aba_schedule isys_init of None \<Rightarrow> False
    | Some (g, pcs) \<Rightarrow> (case (pcs 2, pcs 3) of (Done s a, Done r b) \<Rightarrow>
        a = b \<and> \<not> s 1 \<and> r 1 \<and> \<not> memo_set g a 1 \<and> bs_next (sb_mem g ! a) = Some a | _ \<Rightarrow> False)"
    by code_simp
  then obtain g pcs s r a where
    run: "isys_run (intern_step two_signals) aba_schedule isys_init = Some (g, pcs)" and
    dones: "pcs 2 = Done s a" "pcs 3 = Done r a" "\<not> s 1" "r 1" "\<not> memo_set g a 1" "bs_next (sb_mem g ! a) = Some a"
    by (auto split: option.splits prod.splits ipc.splits)
  have "\<not> sigset_eq two_signals q r" if "\<not> q 1" for q
    using that dones(4) by (auto simp: sigset_eq_def two_signals_def)
  then show ?thesis using isys_run_reachable [OF run] dones by blast
qed

end
