(* ===== verification/Threads.thy ===== *)
theory Threads
  imports Template Sigset
begin

text \<open>
  Threads, \<^verbatim>\<open>llvm/ngrt/thread.c\<close>: the list of the runtime's records of the threads, which threads
  enter when they are created and which the serializer prunes of the threads that were joined,
  and the wrappers of the functions that create, end and join threads. The list is linked
  through the records, in a heap; the functions hold pointers to the links, as the code does.
\<close>

section \<open>The list of threads\<close>

text \<open>
  A pointer to a record is a number. A link is a place that holds such a pointer: the head of
  the list, the \<open>t_next\<close> of a record, or the local head of the list of garbage.
\<close>

type_synonym tptr = nat

datatype tlink = ThreadHead | TNext tptr | GarbageHead

record rvp_thread =
  t_garbage :: bool
  t_pthread :: u64
  t_id :: u32
  t_routine :: u64
  t_arg :: u64
  t_ring :: rvp_ring
  t_intrmask :: u64
  t_stats :: rvp_ring_stats

record threads =
  th_link :: "tlink \<Rightarrow> tptr option"
  th_rec :: "tptr \<Rightarrow> rvp_thread"
  th_next_id :: u32
  th_log2 :: nat
  th_joined :: rvp_ring_stats
  th_wakes :: nat

definition set_link :: "tlink \<Rightarrow> tptr option \<Rightarrow> threads \<Rightarrow> threads" where
  "set_link c q s = s\<lparr> th_link := (th_link s)(c := q) \<rparr>"

definition set_rec :: "tptr \<Rightarrow> rvp_thread \<Rightarrow> threads \<Rightarrow> threads" where
  "set_rec t r s = s\<lparr> th_rec := (th_rec s)(t := r) \<rparr>"

text \<open>A record from \<open>calloc\<close>.\<close>

definition zero_stats :: rvp_ring_stats where
  "zero_stats = \<lparr> rs_ring_sleeps = 0, rs_ring_spins = 0, rs_iring_spins = 0 \<rparr>"

definition zero_ring :: rvp_ring where
  "zero_ring = \<lparr> r_producer = 0, r_consumer = 0, r_last = 0, r_items = [], r_lastpc = 0, r_lgen = 0,
     r_next = None, r_state = RVP_RING_S_INUSE, r_tid = 0, r_idepth = 0,
     r_iring = \<lparr> ir_producer = 0, ir_consumer = 0,
       ir_items = replicate 8 \<lparr> it_interruptor = 0, it_interrupted_idx = 0, it_interruptor_sidx = 0, it_interruptor_eidx = 0 \<rparr> \<rparr>,
     r_sigdepth = (0, 0), r_stats = zero_stats \<rparr>"

definition zero_thread :: rvp_thread where
  "zero_thread = \<lparr> t_garbage = False, t_pthread = 0, t_id = 0, t_routine = 0, t_arg = 0, t_ring = zero_ring,
     t_intrmask = 0, t_stats = zero_stats \<rparr>"

section \<open>Attaching and detaching\<close>

text \<open>
  \<open>1 << rvp_log2_nthreads\<close> is a shift of an \<open>int\<close>, undefined from 31 on. If the exponent were 0,
  the loop would not end.
\<close>

function rvp_update_nthreads :: "u32 \<Rightarrow> nat \<Rightarrow> nat cres" where
  "rvp_update_nthreads n log2 =
     (if 31 \<le> log2 then Inl Undefined
      else if 2 ^ log2 < unat n
           then (if log2 = 0 then Inl Waiting else rvp_update_nthreads n (push_bit 1 log2))
      else Inr log2)"
  by auto
termination
  by (relation "measure (\<lambda>(n, log2). 31 - log2)") (auto simp: push_bit_eq_mult)

declare rvp_update_nthreads.simps [simp del]

definition rvp_thread_attach :: "tptr \<Rightarrow> threads \<Rightarrow> threads cres" where
  "rvp_thread_attach t s =
     (let id = th_next_id s + 1; r = th_rec s t in
      if id = 0 then Inl Exited
      else cbind (rvp_update_nthreads id (th_log2 s)) (\<lambda>log2.
        let s = s\<lparr> th_next_id := id, th_log2 := log2 \<rparr>;
            s = set_rec t (r\<lparr> t_id := id, t_ring := (t_ring r)\<lparr> r_tid := id, r_idepth := 0 \<rparr> \<rparr>) s;
            s = set_link (TNext t) (th_link s ThreadHead) s
        in Inr (set_link ThreadHead (Some t) s)))"

text \<open>
  A list that is a cycle would keep the loops below running: what they compute is optional, and
  \<open>returned\<close> makes of a loop that does not end a call that waits for ever.
\<close>

definition returned :: "'a option \<Rightarrow> 'a cres" where
  "returned x = (case x of None \<Rightarrow> Inl Waiting | Some y \<Rightarrow> Inr y)"

partial_function (option) find_link :: "(tlink \<Rightarrow> tptr option) \<Rightarrow> tptr \<Rightarrow> tlink \<Rightarrow> tlink option" where [code]:
  "find_link lk tgt tp = (case lk tp of None \<Rightarrow> Some tp
     | Some t \<Rightarrow> if t = tgt then Some tp else find_link lk tgt (TNext t))"

text \<open>2 is \<open>ENOENT\<close>.\<close>

definition rvp_thread_detach :: "tptr \<Rightarrow> threads \<Rightarrow> (int \<times> threads) cres" where
  "rvp_thread_detach tgt s =
     cbind (returned (find_link (th_link s) tgt ThreadHead)) (\<lambda>tp.
       Inr (case th_link s tp of Some t \<Rightarrow> (0, set_link tp (th_link s (TNext t)) s) | None \<Rightarrow> (2, s)))"

partial_function (option) find_pthread :: "threads \<Rightarrow> u64 \<Rightarrow> tptr option \<Rightarrow> tptr option option" where [code]:
  "find_pthread s pth q = (case q of None \<Rightarrow> Some None
     | Some t \<Rightarrow> if t_pthread (th_rec s t) = pth then Some (Some t) else find_pthread s pth (th_link s (TNext t)))"

definition rvp_pthread_to_thread :: "u64 \<Rightarrow> threads \<Rightarrow> tptr option cres" where
  "rvp_pthread_to_thread pth s = returned (find_pthread s pth (th_link s ThreadHead))"

section \<open>Garbage\<close>

definition rvp_ring_stats_update_total :: "rvp_ring_stats \<Rightarrow> rvp_ring_stats \<Rightarrow> rvp_ring_stats" where
  "rvp_ring_stats_update_total tot rs =
     \<lparr> rs_ring_sleeps = rs_ring_sleeps tot + rs_ring_sleeps rs, rs_ring_spins = rs_ring_spins tot + rs_ring_spins rs,
       rs_iring_spins = rs_iring_spins tot + rs_iring_spins rs \<rparr>"

partial_function (option) garbage_loop :: "tlink \<Rightarrow> tlink \<Rightarrow> threads \<Rightarrow> (tlink \<times> threads) option" where [code]:
  "garbage_loop tp gtp s = (case th_link s tp of None \<Rightarrow> Some (gtp, s)
     | Some t \<Rightarrow>
         if t_garbage (th_rec s t)
         then let s = s\<lparr> th_joined := rvp_ring_stats_update_total (th_joined s) (t_stats (th_rec s t)) \<rparr>;
                  s = set_link tp (th_link s (TNext t)) s;
                  s = set_link gtp (Some t) s
              in garbage_loop tp (TNext t) s
         else garbage_loop (TNext t) gtp s)"

text \<open>The list of garbage hangs off \<open>GarbageHead\<close> afterwards.\<close>

definition rvp_collect_garbage :: "threads \<Rightarrow> threads cres" where
  "rvp_collect_garbage s =
     cbind (returned (garbage_loop ThreadHead GarbageHead (set_link GarbageHead None s)))
       (\<lambda>(gtp, s). Inr (set_link gtp None s))"

definition rvp_thread_mark :: "tptr \<Rightarrow> threads \<Rightarrow> threads" where
  "rvp_thread_mark t s = (set_rec t ((th_rec s t)\<lparr> t_garbage := True \<rparr>) s)\<lparr> th_wakes := th_wakes s + 1 \<rparr>"

section \<open>Creation\<close>

text \<open>
  \<open>mem\<close> is the address that \<open>calloc\<close> returns for the record, if any, and \<open>items_ok\<close> whether there
  is memory for the items of the ring. The result is the record, or else what \<open>errno\<close> is.
\<close>

definition rvp_thread_create ::
    "nat \<Rightarrow> tptr option \<Rightarrow> bool \<Rightarrow> u64 \<Rightarrow> u64 \<Rightarrow> threads \<Rightarrow> ((int + tptr) \<times> threads) cres" where
  "rvp_thread_create pgsz mem items_ok routine arg s =
     (case mem of None \<Rightarrow> Inr (Inl 12, s)
      | Some t \<Rightarrow>
          let r = zero_thread\<lparr> t_routine := routine, t_arg := arg \<rparr> in
          cbind (rvp_ring_stdinit pgsz items_ok (t_ring r)) (\<lambda>(rc, ring).
          if rc = -1 then Inr (Inl rc, s)
          else cbind (rvp_thread_attach t (set_rec t (r\<lparr> t_ring := ring \<rparr>) s)) (\<lambda>s. Inr (Inr t, s))))"

section \<open>Events of threads\<close>

definition rvp_trace_fork :: "rvp_rt \<Rightarrow> u32 \<Rightarrow> u64 \<Rightarrow> rvp_env \<Rightarrow> rvp_env cres" where
  "rvp_trace_fork c tid retaddr e =
     (if \<not> rt_operational c then Inr e else
      let (gen, e) = rvp_ggen_before_store e in
      cbind (env_put_pc_and_op c RVP_BUF_INITIALIZER retaddr RVP_OP_FORK e) (\<lambda>(b, e).
      cbind (rvp_buf_put b tid) (\<lambda>b.
      cbind (env_trace_cog c b gen e) (\<lambda>(b, e).
      rvp_ring_put_buf e b))))"

definition rvp_trace_join :: "rvp_rt \<Rightarrow> u32 \<Rightarrow> u64 \<Rightarrow> rvp_env \<Rightarrow> rvp_env cres" where
  "rvp_trace_join c tid retaddr e =
     cbind (rvp_buf_trace_load_cog c RVP_BUF_INITIALIZER e) (\<lambda>(b, e).
     cbind (env_put_pc_and_op c b retaddr RVP_OP_JOIN e) (\<lambda>(b, e).
     cbind (rvp_buf_put b tid) (\<lambda>b.
     rvp_ring_put_buf e b)))"

definition rvp_trace_end :: "rvp_rt \<Rightarrow> u64 \<Rightarrow> rvp_env \<Rightarrow> rvp_env cres" where
  "rvp_trace_end c retaddr e =
     cbind (env_put_pc_and_op c RVP_BUF_INITIALIZER retaddr RVP_OP_END e) (\<lambda>(b, e).
     cbind (rvp_ring_put_buf e b) (\<lambda>e.
     Inr (rvp_ring_request_service e)))"

section \<open>The wrappers\<close>

text \<open>
  \<open>real\<close> is what the real function returned and the \<open>pthread_t\<close> it stored, \<open>oset\<close> the signal mask of
  the caller; the masks are set without an error. \<open>unmaskable\<close> is \<open>rvp_unmaskable\<close>.
\<close>

definition rvpredict_pthread_create ::
    "rvp_rt \<Rightarrow> sigplat \<Rightarrow> sigtab \<Rightarrow> u64 \<Rightarrow> nat \<Rightarrow> tptr option \<Rightarrow> bool \<Rightarrow> u64 \<Rightarrow> u64 \<Rightarrow> sigset \<Rightarrow> int \<times> u64 \<Rightarrow> u64 \<Rightarrow>
     threads \<times> rvp_env \<Rightarrow> (int \<times> threads \<times> rvp_env) cres" where
  "rvpredict_pthread_create c p tb unmaskable pgsz mem items_ok routine arg oset real retaddr =
     (\<lambda>(s, e).
      cbind (rvp_thread_create pgsz mem items_ok routine arg s) (\<lambda>(res, s).
      case res of Inl errno \<Rightarrow> Inr (errno, s, e)
      | Inr t \<Rightarrow>
        let mask = sigset_to_mask p tb oset;
            s = set_rec t ((th_rec s t)\<lparr> t_intrmask := mask \<rparr>) s in
        cbind (cassert (mask AND unmaskable = 0)) (\<lambda>_.
        if fst real = 0 then
          let s = set_rec t ((th_rec s t)\<lparr> t_pthread := snd real \<rparr>) s in
          cbind (rvp_trace_fork c (t_id (th_rec s t)) retaddr e) (\<lambda>e. Inr (0, s, e))
        else
          cbind (rvp_thread_detach t s) (\<lambda>(rc, s).
          if rc \<noteq> 0 then Inl Exited else Inr (fst real, s, e)))))"

text \<open>The thread runs \<open>body\<close> with its signal mask; the result is the state at its end.\<close>

definition rvpredict_thread_wrapper ::
    "rvp_rt \<Rightarrow> sigplat \<Rightarrow> sigtab \<Rightarrow> rvp_thread \<Rightarrow> (sigset \<Rightarrow> rvp_env \<Rightarrow> rvp_env cres) \<Rightarrow> u64 \<Rightarrow> rvp_env \<Rightarrow> rvp_env cres" where
  "rvpredict_thread_wrapper c p tb t body retaddr e =
     (let (gen, e) = rvp_ggen_after_load e;
          e = set_lastpc (deltop_or_null (rvp_vec_and_op_to_deltop (rt_base c) 0 RVP_OP_BEGIN)) (set_lgen gen e)
      in cbind (rvp_ring_put_begin c (t_id t) (r_lgen (e_ring e)) e) (\<lambda>e.
         cbind (mask_to_sigset p tb (t_intrmask t)) (\<lambda>set.
         cbind (body set e) (\<lambda>e.
         rvp_trace_end c retaddr e))))"

text \<open>
  A join looks up the record after the real function has returned and marks it after the event is on
  the ring. \<open>before\<close> is what other threads do to the list between the return of the real function and
  the lookup, \<open>after\<close> what they do between the lookup and the mark. The lookup itself holds the lock.
\<close>

definition rvpredict_pthread_join ::
    "rvp_rt \<Rightarrow> u64 \<Rightarrow> int \<Rightarrow> (threads \<Rightarrow> threads cres) \<Rightarrow> (threads \<Rightarrow> threads cres) \<Rightarrow> u64 \<Rightarrow>
     threads \<times> rvp_env \<Rightarrow> (int \<times> threads \<times> rvp_env) cres" where
  "rvpredict_pthread_join c pth real_rc before after retaddr =
     (\<lambda>(s, e).
      if real_rc \<noteq> 0 then Inr (real_rc, s, e)
      else cbind (before s) (\<lambda>s.
      cbind (rvp_pthread_to_thread pth s) (\<lambda>res.
      case res of None \<Rightarrow> Inl Exited
      | Some t \<Rightarrow>
          cbind (rvp_trace_join c (t_id (th_rec s t)) retaddr e) (\<lambda>e.
          cbind (after s) (\<lambda>s.
          Inr (0, rvp_thread_mark t s, e))))))"

end
