(* ===== verification/Threads_Laws.thy ===== *)
theory Threads_Laws
  imports Threads
begin

text \<open>
  The list of threads as a HOL list: every function refines an operation on the list. The
  records that the wrappers log, and which record a join finds.
\<close>

section \<open>Linked lists\<close>

fun tchain :: "(tlink \<Rightarrow> tptr option) \<Rightarrow> tlink \<Rightarrow> tptr list \<Rightarrow> bool" where
    "tchain lk c [] = (lk c = None)"
  | "tchain lk c (t # ts) = (lk c = Some t \<and> tchain lk (TNext t) ts)"

lemma tchain_upd:
  "tchain lk c ts \<Longrightarrow> c' \<noteq> c \<Longrightarrow> c' \<notin> TNext ` set ts \<Longrightarrow> tchain (lk(c' := q)) c ts"
  by (induction ts arbitrary: c) auto

lemma tchain_next: "tchain lk c (us @ t # vs) \<Longrightarrow> tchain lk (TNext t) vs"
  by (induction us arbitrary: c) auto

lemma set_link_simps [simp]:
  "th_link (set_link c q s) = (th_link s)(c := q)" "th_rec (set_link c q s) = th_rec s"
  "th_next_id (set_link c q s) = th_next_id s" "th_log2 (set_link c q s) = th_log2 s"
  "th_joined (set_link c q s) = th_joined s" "th_wakes (set_link c q s) = th_wakes s"
  by (simp_all add: set_link_def)

lemma set_rec_simps [simp]:
  "th_link (set_rec t r s) = th_link s" "th_rec (set_rec t r s) = (th_rec s)(t := r)"
  "th_next_id (set_rec t r s) = th_next_id s" "th_log2 (set_rec t r s) = th_log2 s"
  "th_joined (set_rec t r s) = th_joined s" "th_wakes (set_rec t r s) = th_wakes s"
  by (simp_all add: set_rec_def)

section \<open>Collecting the garbage\<close>

definition add_stats :: "(tptr \<Rightarrow> rvp_thread) \<Rightarrow> tptr list \<Rightarrow> rvp_ring_stats \<Rightarrow> rvp_ring_stats" where
  "add_stats rec ts tot = foldl (\<lambda>tot t. rvp_ring_stats_update_total tot (t_stats (rec t))) tot ts"

lemma garbage_loop_spec:
  assumes "tchain (th_link s) tp ts" "distinct ts" "tp \<notin> TNext ` set ts" "gtp \<notin> TNext ` set ts" "tp \<noteq> gtp"
  shows "\<exists>gtp' s'. garbage_loop tp gtp s = Some (gtp', s') \<and>
    tchain ((th_link s')(gtp' := None)) tp (filter (\<lambda>t. \<not> t_garbage (th_rec s t)) ts) \<and>
    tchain ((th_link s')(gtp' := None)) gtp (filter (\<lambda>t. t_garbage (th_rec s t)) ts) \<and>
    (\<forall>c. c \<noteq> tp \<longrightarrow> c \<noteq> gtp \<longrightarrow> c \<notin> TNext ` set ts \<longrightarrow> gtp' \<noteq> c \<and> th_link s' c = th_link s c) \<and>
    gtp' \<noteq> tp \<and>
    s' = s\<lparr> th_link := th_link s',
            th_joined := add_stats (th_rec s) (filter (\<lambda>t. t_garbage (th_rec s t)) ts) (th_joined s) \<rparr>"
  using assms
proof (induction ts arbitrary: tp gtp s)
  case Nil
  then show ?case
    by (intro exI [of _ gtp] exI [of _ s], subst garbage_loop.simps) (simp add: add_stats_def)
next
  case (Cons t ts)
  have tp: "th_link s tp = Some t" "tchain (th_link s) (TNext t) ts" using Cons.prems by simp_all
  show ?case
  proof (cases "t_garbage (th_rec s t)")
    case True
    let ?s = "set_link gtp (Some t) (set_link tp (th_link s (TNext t))
       (s\<lparr> th_joined := rvp_ring_stats_update_total (th_joined s) (t_stats (th_rec s t)) \<rparr>))"
    have ne: "tp \<noteq> TNext t" "gtp \<noteq> TNext t" using Cons.prems by auto
    have "tchain (th_link ?s) tp ts"
    proof (cases ts)
      case Nil
      then show ?thesis using tp(2) Cons.prems(5) by simp
    next
      case (Cons u us)
      have "tchain ((th_link s)(tp := Some u, gtp := Some t)) (TNext u) us"
        by (intro tchain_upd) (use tp(2) Cons.prems Cons in auto)
      then show ?thesis using tp(2) Cons.prems(5) Cons by simp
    qed
    then have "\<exists>gtp' s'. garbage_loop tp (TNext t) ?s = Some (gtp', s') \<and>
      tchain ((th_link s')(gtp' := None)) tp (filter (\<lambda>t. \<not> t_garbage (th_rec ?s t)) ts) \<and>
      tchain ((th_link s')(gtp' := None)) (TNext t) (filter (\<lambda>t. t_garbage (th_rec ?s t)) ts) \<and>
      (\<forall>c. c \<noteq> tp \<longrightarrow> c \<noteq> TNext t \<longrightarrow> c \<notin> TNext ` set ts \<longrightarrow> gtp' \<noteq> c \<and> th_link s' c = th_link ?s c) \<and>
      gtp' \<noteq> tp \<and>
      s' = ?s\<lparr> th_link := th_link s',
         th_joined := add_stats (th_rec ?s) (filter (\<lambda>t. t_garbage (th_rec ?s t)) ts) (th_joined ?s) \<rparr>"
      by (rule Cons.IH) (use Cons.prems ne in auto)
    then obtain gtp' s' where IH: "garbage_loop tp (TNext t) ?s = Some (gtp', s')"
      "tchain ((th_link s')(gtp' := None)) tp (filter (\<lambda>t. \<not> t_garbage (th_rec ?s t)) ts)"
      "tchain ((th_link s')(gtp' := None)) (TNext t) (filter (\<lambda>t. t_garbage (th_rec ?s t)) ts)"
      "\<forall>c. c \<noteq> tp \<longrightarrow> c \<noteq> TNext t \<longrightarrow> c \<notin> TNext ` set ts \<longrightarrow> gtp' \<noteq> c \<and> th_link s' c = th_link ?s c"
      "gtp' \<noteq> tp"
      "s' = ?s\<lparr> th_link := th_link s',
         th_joined := add_stats (th_rec ?s) (filter (\<lambda>t. t_garbage (th_rec ?s t)) ts) (th_joined ?s) \<rparr>"
      by (elim exE conjE)
    have run: "garbage_loop tp gtp s = Some (gtp', s')"
      by (subst garbage_loop.simps) (use tp(1) True IH(1) in \<open>simp add: Let_def\<close>)
    have g: "gtp' \<noteq> gtp" "th_link s' gtp = Some t" using IH(4) Cons.prems ne by auto
    have st: "s' = s\<lparr> th_link := th_link s',
        th_joined := add_stats (th_rec s) (filter (\<lambda>t. t_garbage (th_rec s t)) (t # ts)) (th_joined s) \<rparr>"
      using True by (subst IH(6)) (simp add: add_stats_def set_link_def)
    show ?thesis
    proof (intro exI conjI)
      show "tchain ((th_link s')(gtp' := None)) tp (filter (\<lambda>t. \<not> t_garbage (th_rec s t)) (t # ts))"
        using IH(2) True by simp
      show "tchain ((th_link s')(gtp' := None)) gtp (filter (\<lambda>t. t_garbage (th_rec s t)) (t # ts))"
        using IH(3) True g by simp
      show "\<forall>c. c \<noteq> tp \<longrightarrow> c \<noteq> gtp \<longrightarrow> c \<notin> TNext ` set (t # ts) \<longrightarrow> gtp' \<noteq> c \<and> th_link s' c = th_link s c"
        using IH(4) by simp
    qed (fact run, fact IH(5), fact st)
  next
    case False
    have ne: "gtp \<noteq> TNext t" using Cons.prems by auto
    have "\<exists>gtp' s'. garbage_loop (TNext t) gtp s = Some (gtp', s') \<and>
      tchain ((th_link s')(gtp' := None)) (TNext t) (filter (\<lambda>t. \<not> t_garbage (th_rec s t)) ts) \<and>
      tchain ((th_link s')(gtp' := None)) gtp (filter (\<lambda>t. t_garbage (th_rec s t)) ts) \<and>
      (\<forall>c. c \<noteq> TNext t \<longrightarrow> c \<noteq> gtp \<longrightarrow> c \<notin> TNext ` set ts \<longrightarrow> gtp' \<noteq> c \<and> th_link s' c = th_link s c) \<and>
      gtp' \<noteq> TNext t \<and>
      s' = s\<lparr> th_link := th_link s',
         th_joined := add_stats (th_rec s) (filter (\<lambda>t. t_garbage (th_rec s t)) ts) (th_joined s) \<rparr>"
      by (rule Cons.IH) (use Cons.prems tp ne in auto)
    then obtain gtp' s' where IH: "garbage_loop (TNext t) gtp s = Some (gtp', s')"
      "tchain ((th_link s')(gtp' := None)) (TNext t) (filter (\<lambda>t. \<not> t_garbage (th_rec s t)) ts)"
      "tchain ((th_link s')(gtp' := None)) gtp (filter (\<lambda>t. t_garbage (th_rec s t)) ts)"
      "\<forall>c. c \<noteq> TNext t \<longrightarrow> c \<noteq> gtp \<longrightarrow> c \<notin> TNext ` set ts \<longrightarrow> gtp' \<noteq> c \<and> th_link s' c = th_link s c"
      "gtp' \<noteq> TNext t"
      "s' = s\<lparr> th_link := th_link s',
         th_joined := add_stats (th_rec s) (filter (\<lambda>t. t_garbage (th_rec s t)) ts) (th_joined s) \<rparr>"
      by (elim exE conjE)
    have run: "garbage_loop tp gtp s = Some (gtp', s')"
      by (subst garbage_loop.simps) (use tp(1) False IH(1) in simp)
    have g: "gtp' \<noteq> tp" "th_link s' tp = Some t" using IH(4) Cons.prems tp(1) by auto
    have st: "s' = s\<lparr> th_link := th_link s',
        th_joined := add_stats (th_rec s) (filter (\<lambda>t. t_garbage (th_rec s t)) (t # ts)) (th_joined s) \<rparr>"
      using False by (subst IH(6)) simp
    show ?thesis
    proof (intro exI conjI)
      show "tchain ((th_link s')(gtp' := None)) tp (filter (\<lambda>t. \<not> t_garbage (th_rec s t)) (t # ts))"
        using IH(2) False g by simp
      show "tchain ((th_link s')(gtp' := None)) gtp (filter (\<lambda>t. t_garbage (th_rec s t)) (t # ts))"
        using IH(3) False by simp
      show "\<forall>c. c \<noteq> tp \<longrightarrow> c \<noteq> gtp \<longrightarrow> c \<notin> TNext ` set (t # ts) \<longrightarrow> gtp' \<noteq> c \<and> th_link s' c = th_link s c"
        using IH(4) by simp
    qed (fact run, fact g(1), fact st)
  qed
qed

lemma collect_garbage_spec:
  assumes "tchain (th_link s) ThreadHead ts" "distinct ts"
  shows "\<exists>s'. rvp_collect_garbage s = Inr s' \<and>
    tchain (th_link s') ThreadHead (filter (\<lambda>t. \<not> t_garbage (th_rec s t)) ts) \<and>
    tchain (th_link s') GarbageHead (filter (\<lambda>t. t_garbage (th_rec s t)) ts) \<and>
    s' = s\<lparr> th_link := th_link s',
            th_joined := add_stats (th_rec s) (filter (\<lambda>t. t_garbage (th_rec s t)) ts) (th_joined s) \<rparr>"
proof -
  let ?s = "set_link GarbageHead None s"
  have "tchain (th_link ?s) ThreadHead ts" using assms by (auto intro: tchain_upd)
  then obtain gtp' s' where L: "garbage_loop ThreadHead GarbageHead ?s = Some (gtp', s')"
    "tchain ((th_link s')(gtp' := None)) ThreadHead (filter (\<lambda>t. \<not> t_garbage (th_rec ?s t)) ts)"
    "tchain ((th_link s')(gtp' := None)) GarbageHead (filter (\<lambda>t. t_garbage (th_rec ?s t)) ts)"
    "s' = ?s\<lparr> th_link := th_link s',
            th_joined := add_stats (th_rec ?s) (filter (\<lambda>t. t_garbage (th_rec ?s t)) ts) (th_joined ?s) \<rparr>"
    using garbage_loop_spec [of ?s ThreadHead ts GarbageHead] assms(2) by blast
  have "set_link gtp' None s' = s\<lparr> th_link := th_link (set_link gtp' None s'),
            th_joined := add_stats (th_rec s) (filter (\<lambda>t. t_garbage (th_rec s t)) ts) (th_joined s) \<rparr>"
    by (subst L(4)) (simp add: set_link_def)
  then show ?thesis
    using L(1-3) by (intro exI [of _ "set_link gtp' None s'"]) (simp add: rvp_collect_garbage_def returned_def)
qed

section \<open>Searching\<close>

lemma find_pthread_spec:
  "tchain (th_link s) c ts \<Longrightarrow>
   find_pthread s pth (th_link s c) = Some (List.find (\<lambda>t. t_pthread (th_rec s t) = pth) ts)"
  by (induction ts arbitrary: c; subst find_pthread.simps) auto

lemma pthread_to_thread_spec:
  "tchain (th_link s) ThreadHead ts \<Longrightarrow>
   rvp_pthread_to_thread pth s = Inr (List.find (\<lambda>t. t_pthread (th_rec s t) = pth) ts)"
  by (simp add: rvp_pthread_to_thread_def find_pthread_spec returned_def)

lemma find_link_hit:
  "tchain lk c (us @ t # vs) \<Longrightarrow> t \<notin> set us \<Longrightarrow>
   find_link lk t c = Some (if us = [] then c else TNext (last us))"
  by (induction us arbitrary: c; subst find_link.simps) auto

lemma detach_head:
  assumes "tchain (th_link s) ThreadHead (t # ts)" "t \<notin> set ts"
  shows "\<exists>s'. rvp_thread_detach t s = Inr (0, s') \<and> s' = set_link ThreadHead (th_link s (TNext t)) s \<and>
    tchain (th_link s') ThreadHead ts"
proof -
  have "find_link (th_link s) t ThreadHead = Some ThreadHead"
    using assms(1) by (subst find_link.simps) simp
  moreover have "tchain ((th_link s)(ThreadHead := th_link s (TNext t))) ThreadHead ts"
  proof (cases ts)
    case (Cons u us)
    have "tchain ((th_link s)(ThreadHead := Some u)) (TNext u) us"
      by (rule tchain_upd) (use assms Cons in auto)
    then show ?thesis using assms Cons by simp
  qed (use assms in simp)
  ultimately show ?thesis using assms(1) by (simp add: rvp_thread_detach_def returned_def)
qed

section \<open>Thread numbers\<close>

lemma update_nthreads_steps:
  "rvp_update_nthreads n 1 = (if unat n \<le> 2 then Inr 1 else rvp_update_nthreads n 2)"
  "rvp_update_nthreads n 2 = (if unat n \<le> 4 then Inr 2 else rvp_update_nthreads n 4)"
  "rvp_update_nthreads n 4 = (if unat n \<le> 16 then Inr 4 else rvp_update_nthreads n 8)"
  "rvp_update_nthreads n 8 = (if unat n \<le> 256 then Inr 8 else rvp_update_nthreads n 16)"
  "rvp_update_nthreads n 16 = (if unat n \<le> 65536 then Inr 16 else Inl Undefined)"
  by (subst rvp_update_nthreads.simps; simp add: push_bit_eq_mult rvp_update_nthreads.simps [of n 32])+

lemma update_nthreads_spec:
  assumes "unat n \<le> 65536" "log2 \<in> {1, 2, 4, 8, 16}"
  shows "\<exists>r\<in>{1, 2, 4, 8, 16}. rvp_update_nthreads n log2 = Inr r \<and> unat n \<le> 2 ^ r \<and>
    (r = log2 \<or> 2 ^ (r div 2) < unat n)"
proof -
  consider "unat n \<le> 2" | "2 < unat n" "unat n \<le> 4" | "4 < unat n" "unat n \<le> 16" | "16 < unat n" "unat n \<le> 256"
    | "256 < unat n" using assms(1) by linarith
  then show ?thesis
  proof cases
  qed (use assms(2) in \<open>elim insertE emptyE; use assms(1) in \<open>simp add: update_nthreads_steps del: One_nat_def\<close>\<close>)+
qed

lemma update_nthreads_big:
  assumes "65536 < unat n" "log2 \<in> {1, 2, 4, 8, 16}"
  shows "rvp_update_nthreads n log2 = Inl Undefined"
  using assms(2) by (elim insertE emptyE; use assms(1) in \<open>simp add: update_nthreads_steps del: One_nat_def\<close>)

lemma word_le_less_Suc: "(u :: 'a::len word) \<le> x \<Longrightarrow> x + 1 \<noteq> 0 \<Longrightarrow> u < x + 1"
  using unatSuc [of x] by (simp add: word_less_nat_alt word_le_nat_alt add.commute)

section \<open>The invariant of the list\<close>

definition threads_ok :: "threads \<Rightarrow> tptr list \<Rightarrow> bool" where
  "threads_ok s ts \<longleftrightarrow> tchain (th_link s) ThreadHead ts \<and> distinct ts \<and>
     sorted_wrt (\<lambda>t u. t_id (th_rec s u) < t_id (th_rec s t)) ts \<and>
     (\<forall>t\<in>set ts. t_id (th_rec s t) \<le> th_next_id s)"

lemma attach_spec:
  assumes "threads_ok s ts" "t \<notin> set ts" "rvp_thread_attach t s = Inr s'"
  shows "threads_ok s' (t # ts) \<and> t_id (th_rec s' t) = th_next_id s + 1 \<and> th_next_id s' = th_next_id s + 1 \<and>
    (\<forall>u. u \<noteq> t \<longrightarrow> th_rec s' u = th_rec s u) \<and> t_garbage (th_rec s' t) = t_garbage (th_rec s t)"
proof -
  obtain log2 where ne: "th_next_id s + 1 \<noteq> 0"
    and s': "s' = set_link ThreadHead (Some t) (set_link (TNext t) (th_link s ThreadHead)
        (set_rec t ((th_rec s t)\<lparr> t_id := th_next_id s + 1,
           t_ring := (t_ring (th_rec s t))\<lparr> r_tid := th_next_id s + 1, r_idepth := 0 \<rparr> \<rparr>)
          (s\<lparr> th_next_id := th_next_id s + 1, th_log2 := log2 \<rparr>)))"
    using assms(3) by (auto simp: rvp_thread_attach_def Let_def split: if_splits)
  have lt: "u < th_next_id s + 1" if "u \<le> th_next_id s" for u
    using word_le_less_Suc [OF that ne] .
  have ids: "t_id (th_rec s' u) = t_id (th_rec s u)" if "u \<in> set ts" for u
    using that assms(2) by (auto simp: s')
  have "tchain ((th_link s)(TNext t := th_link s ThreadHead, ThreadHead := Some t)) (TNext t) ts"
  proof (cases ts)
    case Nil
    then show ?thesis using assms(1) by (simp add: threads_ok_def)
  next
    case (Cons u us)
    then have "tchain (th_link s) (TNext u) us" "th_link s ThreadHead = Some u"
      using assms(1) by (simp_all add: threads_ok_def)
    moreover from this have "tchain ((th_link s)(TNext t := th_link s ThreadHead, ThreadHead := Some t)) (TNext u) us"
      by (intro tchain_upd) (use assms(2) Cons in auto)
    ultimately show ?thesis using Cons by simp
  qed
  then have ch: "tchain (th_link s') ThreadHead (t # ts)" by (simp add: s')
  have "sorted_wrt (\<lambda>t u. t_id (th_rec s' u) < t_id (th_rec s' t)) ts"
    using assms(1) ids by (auto simp: threads_ok_def intro: sorted_wrt_mono_rel [rotated])
  then show ?thesis
    using ch assms(1,2) ids lt by (auto simp: threads_ok_def s' intro: less_imp_le)
qed

lemma threads_ok_set_rec:
  assumes "threads_ok s ts" "t_id r = t_id (th_rec s t)"
  shows "threads_ok (set_rec t r s) ts"
proof -
  have "t_id (th_rec (set_rec t r s) u) = t_id (th_rec s u)" for u using assms(2) by simp
  then show ?thesis using assms(1) unfolding threads_ok_def by simp
qed

lemma thread_create_spec:
  assumes "threads_ok s ts" "t \<notin> set ts" "rvp_thread_create pgsz (Some t) items_ok rt arg s = Inr (res, s')"
  shows "res = Inr t \<and> threads_ok s' (t # ts) \<and> t_id (th_rec s' t) = th_next_id s + 1 \<and>
    (\<forall>u. u \<noteq> t \<longrightarrow> th_rec s' u = th_rec s u) \<and> \<not> t_garbage (th_rec s' t)"
proof -
  obtain rc ring where init: "rvp_ring_stdinit pgsz items_ok zero_ring = Inr (rc, ring)"
    using assms(3) by (auto simp: rvp_thread_create_def zero_thread_def Let_def split: if_splits)
  then have rc: "rc \<noteq> -1" by (auto simp: rvp_ring_stdinit_def Let_def split: if_splits)
  let ?s = "set_rec t (zero_thread\<lparr> t_routine := rt, t_arg := arg, t_ring := ring \<rparr>) s"
  have "res = Inr t" and at: "rvp_thread_attach t ?s = Inr s'"
    using assms(3) init rc by (auto simp: rvp_thread_create_def zero_thread_def Let_def)
  moreover have "threads_ok ?s ts"
  proof -
    have "t_id (th_rec ?s u) = t_id (th_rec s u)" if "u \<in> set ts" for u using that assms(2) by auto
    then show ?thesis
      using assms(1) unfolding threads_ok_def
      by (auto intro: sorted_wrt_mono_rel [rotated] simp del: set_rec_simps(2))
  qed
  ultimately show ?thesis using attach_spec [OF _ assms(2) at] by (auto simp: zero_thread_def)
qed

lemma pthread_create_spec:
  assumes ok: "threads_ok s ts" and fresh: "t \<notin> set ts"
    and run: "rvpredict_pthread_create c p tb um pgsz (Some t) items_ok rt arg oset real ra (s, e) = Inr (rc, s1, e1)"
  shows "(\<forall>u. u \<noteq> t \<longrightarrow> th_rec s1 u = th_rec s u) \<and>
    (if fst real = 0
     then rc = 0 \<and> threads_ok s1 (t # ts) \<and> t_pthread (th_rec s1 t) = snd real \<and> t_id (th_rec s1 t) = th_next_id s + 1 \<and>
       \<not> t_garbage (th_rec s1 t) \<and> rvp_trace_fork c (th_next_id s + 1) ra e = Inr e1
     else rc = fst real \<and> threads_ok s1 ts)"
proof -
  obtain res s' where cr: "rvp_thread_create pgsz (Some t) items_ok rt arg s = Inr (res, s')"
    using run by (auto simp: rvpredict_pthread_create_def)
  note C = thread_create_spec [OF ok fresh cr]
  let ?m = "sigset_to_mask p tb oset"
  let ?s = "set_rec t ((th_rec s' t)\<lparr> t_intrmask := ?m \<rparr>) s'"
  have ok1: "threads_ok ?s (t # ts)" using C by (intro threads_ok_set_rec) simp_all
  show ?thesis
  proof (cases "fst real = 0")
    case True
    let ?s2 = "set_rec t ((th_rec ?s t)\<lparr> t_pthread := snd real \<rparr>) ?s"
    have "threads_ok ?s2 (t # ts)" using ok1 by (rule threads_ok_set_rec) simp
    moreover have "rc = 0" "s1 = ?s2" "rvp_trace_fork c (th_next_id s + 1) ra e = Inr e1"
      using run cr C True by (auto simp: rvpredict_pthread_create_def Let_def)
    ultimately show ?thesis using True C by simp
  next
    case False
    obtain s2 where d: "rvp_thread_detach t ?s = Inr (0, s2)" "s2 = set_link ThreadHead (th_link ?s (TNext t)) ?s"
      "tchain (th_link s2) ThreadHead ts"
      using detach_head [of ?s t ts] ok1 fresh by (auto simp: threads_ok_def)
    have "rc = fst real" "s1 = s2"
      using run cr C False d(1) by (auto simp: rvpredict_pthread_create_def Let_def)
    moreover have "threads_ok s2 ts"
      using ok1 d(2,3) by (simp add: threads_ok_def)
    ultimately show ?thesis using False C d(2) by simp
  qed
qed

section \<open>Sequences of calls\<close>

text \<open>
  What other threads and the serializer may do to the list. A join that another thread makes does
  nothing to it but mark the record that it found, at some time.
\<close>

datatype thread_op =
    OCreate rvp_env tptr bool u64 u64 sigset "int \<times> u64" u64
  | OMark tptr
  | OCollect

fun thread_op_run ::
    "rvp_rt \<Rightarrow> sigplat \<Rightarrow> sigtab \<Rightarrow> u64 \<Rightarrow> nat \<Rightarrow> thread_op \<Rightarrow> threads \<Rightarrow> threads cres" where
    "thread_op_run c p tb um pgsz (OCreate e t items_ok rt arg oset real ra) s =
       cbind (rvpredict_pthread_create c p tb um pgsz (Some t) items_ok rt arg oset real ra (s, e)) (\<lambda>(_, s, _). Inr s)"
  | "thread_op_run c p tb um pgsz (OMark t) s = Inr (rvp_thread_mark t s)"
  | "thread_op_run c p tb um pgsz OCollect s = rvp_collect_garbage s"

fun thread_ops_run ::
    "rvp_rt \<Rightarrow> sigplat \<Rightarrow> sigtab \<Rightarrow> u64 \<Rightarrow> nat \<Rightarrow> thread_op list \<Rightarrow> threads \<Rightarrow> threads cres" where
    "thread_ops_run c p tb um pgsz [] s = Inr s"
  | "thread_ops_run c p tb um pgsz (op # ops) s =
       cbind (thread_op_run c p tb um pgsz op s) (thread_ops_run c p tb um pgsz ops)"

text \<open>
  The system gives the \<open>pthread_t\<close> of a created thread: \<open>given\<close> says that \<open>pth\<close> is given to some
  thread, \<open>holder\<close> is the record of the last one it is given to, \<open>t\<close> if there is none.
\<close>

fun gives :: "u64 \<Rightarrow> thread_op \<Rightarrow> bool" where
    "gives pth (OCreate e t items_ok rt arg oset real ra) \<longleftrightarrow> fst real = 0 \<and> snd real = pth"
  | "gives pth _ \<longleftrightarrow> False"

definition given :: "u64 \<Rightarrow> thread_op list \<Rightarrow> bool" where
  "given pth ops \<longleftrightarrow> list_ex (gives pth) ops"

fun holder :: "u64 \<Rightarrow> tptr \<Rightarrow> thread_op list \<Rightarrow> tptr" where
    "holder pth t [] = t"
  | "holder pth t (OCreate e u items_ok rt arg oset real ra # ops) =
       holder pth (if fst real = 0 \<and> snd real = pth then u else t) ops"
  | "holder pth t (op # ops) = holder pth t ops"

text \<open>
  Nobody else joins a thread that has \<open>pth\<close>: their records are \<open>own\<close>. Records are allocated outside
  \<open>used\<close>.
\<close>

fun thread_ops_other :: "u64 \<Rightarrow> tptr set \<Rightarrow> tptr set \<Rightarrow> thread_op list \<Rightarrow> bool" where
    "thread_ops_other pth used own [] = True"
  | "thread_ops_other pth used own (OCreate e t items_ok rt arg oset real ra # ops) =
       (t \<notin> used \<and>
        thread_ops_other pth (insert t used) (if fst real = 0 \<and> snd real = pth then insert t own else own) ops)"
  | "thread_ops_other pth used own (OMark t # ops) = (t \<notin> own \<and> thread_ops_other pth used own ops)"
  | "thread_ops_other pth used own (OCollect # ops) = thread_ops_other pth used own ops"

definition newest :: "threads \<Rightarrow> tptr list \<Rightarrow> u64 \<Rightarrow> tptr \<Rightarrow> u32 \<Rightarrow> bool" where
  "newest s ts pth t i \<longleftrightarrow> threads_ok s ts \<and> (\<exists>us vs. ts = us @ t # vs \<and> (\<forall>u\<in>set us. t_pthread (th_rec s u) \<noteq> pth)) \<and>
     t_pthread (th_rec s t) = pth \<and> t_id (th_rec s t) = i \<and> \<not> t_garbage (th_rec s t)"

lemma newestI:
  "threads_ok s (us @ t # vs) \<Longrightarrow> \<forall>u\<in>set us. t_pthread (th_rec s u) \<noteq> pth \<Longrightarrow> t_pthread (th_rec s t) = pth \<Longrightarrow>
   t_id (th_rec s t) = i \<Longrightarrow> \<not> t_garbage (th_rec s t) \<Longrightarrow> newest s (us @ t # vs) pth t i"
  unfolding newest_def by blast

lemma newest_find:
  assumes "newest s ts pth t i"
  shows "rvp_pthread_to_thread pth s = Inr (Some t)"
proof -
  obtain us vs where l: "ts = us @ t # vs" "\<forall>u\<in>set us. t_pthread (th_rec s u) \<noteq> pth" "t_pthread (th_rec s t) = pth"
    "tchain (th_link s) ThreadHead ts"
    using assms by (auto simp: newest_def threads_ok_def)
  have "List.find (\<lambda>t. t_pthread (th_rec s t) = pth) (us @ t # vs) = Some t"
    using l(2,3) by (induction us) auto
  then show ?thesis using pthread_to_thread_spec [OF l(4)] l(1) by simp
qed

lemma threads_ok_collect:
  assumes "threads_ok s ts" "rvp_collect_garbage s = Inr s'"
  shows "threads_ok s' (filter (\<lambda>t. \<not> t_garbage (th_rec s t)) ts)" "th_rec s' = th_rec s"
proof -
  obtain s2 where c: "rvp_collect_garbage s = Inr s2"
    "tchain (th_link s2) ThreadHead (filter (\<lambda>t. \<not> t_garbage (th_rec s t)) ts)"
    "s2 = s\<lparr> th_link := th_link s2,
            th_joined := add_stats (th_rec s) (filter (\<lambda>t. t_garbage (th_rec s t)) ts) (th_joined s) \<rparr>"
    using collect_garbage_spec [of s ts] assms(1) by (auto simp: threads_ok_def)
  have s': "s' = s2" using assms(2) c(1) by simp
  have "th_rec s2 = th_rec s" "th_next_id s2 = th_next_id s" by (subst c(3), simp)+
  then show "threads_ok s' (filter (\<lambda>t. \<not> t_garbage (th_rec s t)) ts)" "th_rec s' = th_rec s"
    using assms(1) c(2) by (simp_all add: s' threads_ok_def sorted_wrt_filter)
qed

text \<open>The thread that holds \<open>pth\<close> stays the first one with it, until another is created with it.\<close>

lemma newest_step:
  assumes nw: "newest s ts pth t i" and sub: "set ts \<subseteq> used" "t \<in> own"
    and other: "thread_ops_other pth used own (op # ops)" and run: "thread_op_run c p tb um pgsz op s = Inr s'"
  shows "\<exists>ts' used' own' j. newest s' ts' pth (holder pth t [op]) j \<and> set ts' \<subseteq> used' \<and> holder pth t [op] \<in> own' \<and>
    thread_ops_other pth used' own' ops \<and> (if gives pth op then i < j else j = i)"
proof -
  obtain us vs where l: "threads_ok s ts" "ts = us @ t # vs" "\<forall>u\<in>set us. t_pthread (th_rec s u) \<noteq> pth"
    "t_pthread (th_rec s t) = pth" "t_id (th_rec s t) = i" "\<not> t_garbage (th_rec s t)"
    using nw by (auto simp: newest_def)
  show ?thesis
  proof (cases op)
    case (OCreate e u items_ok rt arg oset real ra)
    then obtain rc e1 where cr: "rvpredict_pthread_create c p tb um pgsz (Some u) items_ok rt arg oset real ra (s, e) = Inr (rc, s', e1)"
      using run by auto
    have fresh: "u \<notin> set ts" using other sub OCreate by auto
    note C = pthread_create_spec [OF l(1) fresh cr]
    have same: "th_rec s' v = th_rec s v" if "v \<in> set ts" for v using C fresh that by auto
    have t: "t \<in> set ts" "set us \<subseteq> set ts" using l(2) by auto
    consider "fst real = 0" "snd real = pth" | "fst real = 0" "snd real \<noteq> pth" | "fst real \<noteq> 0" by blast
    then show ?thesis
    proof cases
      case 1
      have "threads_ok s' (u # ts)" using C 1 by simp
      then have "t_id (th_rec s' t) < t_id (th_rec s' u)" using t(1) by (auto simp: threads_ok_def)
      then have "i < t_id (th_rec s' u)" using same [OF t(1)] l(5) by simp
      moreover have "newest s' ([] @ u # ts) pth u (t_id (th_rec s' u))"
        by (rule newestI) (use C 1 in auto)
      ultimately show ?thesis
        using other sub OCreate 1
        by (intro exI [of _ "u # ts"] exI [of _ "insert u used"] exI [of _ "insert u own"] exI [of _ "t_id (th_rec s' u)"]) auto
    next
      case 2
      have "newest s' ((u # us) @ t # vs) pth t i"
        by (rule newestI) (use C 2 l same t in auto)
      then have "newest s' (u # ts) pth t i" using l(2) by simp
      then show ?thesis
        using other sub OCreate 2
        by (intro exI [of _ "u # ts"] exI [of _ "insert u used"] exI [of _ own] exI [of _ i]) auto
    next
      case 3
      have "newest s' ts pth t i"
        unfolding l(2) by (rule newestI) (use C 3 l same t in auto)
      then show ?thesis
        using other sub OCreate 3 by (intro exI [of _ ts] exI [of _ "insert u used"] exI [of _ own] exI [of _ i]) auto
    qed
  next
    case (OMark u)
    then have ne: "u \<noteq> t" and s': "s' = rvp_thread_mark u s" using other sub(2) run by auto
    have "threads_ok (set_rec u ((th_rec s u)\<lparr> t_garbage := True \<rparr>) s) ts"
      by (rule threads_ok_set_rec [OF l(1)]) simp
    then have "newest s' ts pth t i"
      unfolding l(2)
      by (intro newestI) (use l ne in \<open>auto simp: s' rvp_thread_mark_def threads_ok_def set_rec_def\<close>)
    then show ?thesis using sub other OMark by (intro exI [of _ ts] exI [of _ used] exI [of _ own] exI [of _ i]) auto
  next
    case OCollect
    note C = threads_ok_collect [OF l(1), of s']
    let ?k = "filter (\<lambda>t. \<not> t_garbage (th_rec s t))"
    have "?k ts = ?k us @ t # ?k vs" using l(2,6) by simp
    moreover have "newest s' (?k us @ t # ?k vs) pth t i"
      by (rule newestI) (use C run OCollect l calculation in auto)
    ultimately have "newest s' (?k ts) pth t i" by simp
    then show ?thesis
      using sub other OCollect by (intro exI [of _ "?k ts"] exI [of _ used] exI [of _ own] exI [of _ i]) auto
  qed
qed

lemma holder_Cons: "holder pth t (op # ops) = holder pth (holder pth t [op]) ops"
  by (cases op) simp_all

lemma newest_run:
  "newest s ts pth t i \<Longrightarrow> set ts \<subseteq> used \<Longrightarrow> t \<in> own \<Longrightarrow> thread_ops_other pth used own ops \<Longrightarrow>
   thread_ops_run c p tb um pgsz ops s = Inr s' \<Longrightarrow>
   \<exists>ts' j. newest s' ts' pth (holder pth t ops) j \<and> (if given pth ops then i < j else j = i)"
proof (induction ops arbitrary: s ts used own t i)
  case Nil
  then show ?case by (auto simp: given_def)
next
  case (Cons op ops)
  then obtain s1 where s1: "thread_op_run c p tb um pgsz op s = Inr s1" "thread_ops_run c p tb um pgsz ops s1 = Inr s'"
    by auto
  obtain ts1 used1 own1 j where 1: "newest s1 ts1 pth (holder pth t [op]) j" "set ts1 \<subseteq> used1"
    "holder pth t [op] \<in> own1" "thread_ops_other pth used1 own1 ops" "if gives pth op then i < j else j = i"
    using newest_step [OF Cons.prems(1-4) s1(1)] by blast
  from Cons.IH [OF 1(1-4) s1(2)] obtain ts' k where
    "newest s' ts' pth (holder pth t (op # ops)) k" "if given pth ops then j < k else k = j"
    unfolding holder_Cons [of pth t op ops] by blast
  moreover have "if given pth (op # ops) then i < k else k = i"
    using 1(5) calculation(2) by (auto simp: given_def split: if_splits)
  ultimately show ?case by blast
qed

lemma holder_append: "holder pth t (ops @ ops') = holder pth (holder pth t ops) ops'"
  by (induction pth t ops rule: holder.induct) simp_all

lemma thread_ops_run_append:
  "thread_ops_run c p tb um pgsz (ops @ ops') s = cbind (thread_ops_run c p tb um pgsz ops s) (thread_ops_run c p tb um pgsz ops')"
  by (induction ops arbitrary: s) (simp, simp add: cbind_def split: sum.splits)

lemma holder_not_given: "\<not> given pth ops \<Longrightarrow> holder pth t ops = t"
  by (induction pth t ops rule: holder.induct) (auto simp: given_def)

section \<open>Records of forks and joins\<close>

lemma emit_after:
  assumes "rec_op t \<noteq> RVP_OP_COG" "rvp_ggen_after_load e = (gen, e1)"
  shows "ring_put_words (set_lgen (max (r_lgen (e_ring e)) gen) (set_lastpc (rec_pc t) e1))
      (plain_words base (r_lastpc (e_ring e)) t @ cog_words base (r_lgen (e_ring e)) gen) =
    emit_recs base (t # cog_recs (r_lgen (e_ring e)) gen) (set_lgen (max (r_lgen (e_ring e)) gen) e1)"
    "ring_put_words (set_lgen (max (r_lgen (e_ring e)) gen) (set_lastpc (rec_pc t) e1))
      (cog_words base (r_lgen (e_ring e)) gen @ plain_words base (r_lastpc (e_ring e)) t) =
    emit_recs base (cog_recs (r_lgen (e_ring e)) gen @ [t]) (set_lgen (max (r_lgen (e_ring e)) gen) e1)"
proof -
  have "e_ring e1 = e_ring e" using ggen_same(1) [of e] assms(2) by simp
  then show "ring_put_words (set_lgen (max (r_lgen (e_ring e)) gen) (set_lastpc (rec_pc t) e1))
      (plain_words base (r_lastpc (e_ring e)) t @ cog_words base (r_lgen (e_ring e)) gen) =
    emit_recs base (t # cog_recs (r_lgen (e_ring e)) gen) (set_lgen (max (r_lgen (e_ring e)) gen) e1)"
    "ring_put_words (set_lgen (max (r_lgen (e_ring e)) gen) (set_lastpc (rec_pc t) e1))
      (cog_words base (r_lgen (e_ring e)) gen @ plain_words base (r_lastpc (e_ring e)) t) =
    emit_recs base (cog_recs (r_lgen (e_ring e)) gen @ [t]) (set_lgen (max (r_lgen (e_ring e)) gen) e1)"
    using words_of_recs [OF assms(1)] by (simp_all add: emit_recs_def rec_words_plain [OF assms(1)])
qed

definition fork_rec :: "u64 \<Rightarrow> u32 \<Rightarrow> trec" where
  "fork_rec ra i = \<lparr> rec_op = RVP_OP_FORK, rec_pc = ra, rec_vals = [V32 i] \<rparr>"

definition join_rec :: "u64 \<Rightarrow> u32 \<Rightarrow> trec" where
  "join_rec ra i = \<lparr> rec_op = RVP_OP_JOIN, rec_pc = ra, rec_vals = [V32 i] \<rparr>"

lemma trace_fork_recs:
  assumes c: "deltops_fit (rt_base c)" "rt_operational c" and g: "rvp_ggen_after_load e = (gen, e1)"
  shows "rvp_trace_fork c i ra e =
    emit_recs (rt_base c) (fork_rec ra i # cog_recs (r_lgen (e_ring e)) gen) (set_lgen (max (r_lgen (e_ring e)) gen) e1)"
proof -
  have e1: "e_ring e1 = e_ring e" using ggen_same(1) [of e] g by simp
  have l: "length (pc_op_words (rt_base c) (r_lastpc (e_ring e)) ra RVP_OP_FORK) \<le> 4"
    "length (cog_words (rt_base c) (r_lgen (e_ring e)) gen) \<le> 4"
    by (rule length_pc_op_words_le length_cog_words)+
  have "rvp_trace_fork c i ra e = ring_put_words (set_lgen (max (r_lgen (e_ring e)) gen) (set_lastpc (rec_pc (fork_rec ra i)) e1))
      (plain_words (rt_base c) (r_lastpc (e_ring e)) (fork_rec ra i) @ cog_words (rt_base c) (r_lgen (e_ring e)) gen)"
    using c l by (simp add: rvp_trace_fork_def g e1 env_trace_cog_words env_put_pc_and_op_of put_vals_of
        ring_put_buf_of plain_words_def fork_rec_def Let_def)
  also have "\<dots> = emit_recs (rt_base c) (fork_rec ra i # cog_recs (r_lgen (e_ring e)) gen) (set_lgen (max (r_lgen (e_ring e)) gen) e1)"
    by (rule emit_after) (simp_all add: fork_rec_def g)
  finally show ?thesis .
qed

lemma trace_join_recs:
  assumes c: "deltops_fit (rt_base c)" and g: "rvp_ggen_after_load e = (gen, e1)"
  shows "rvp_trace_join c i ra e =
    emit_recs (rt_base c) (cog_recs (r_lgen (e_ring e)) gen @ [join_rec ra i]) (set_lgen (max (r_lgen (e_ring e)) gen) e1)"
proof -
  have e1: "e_ring e1 = e_ring e" using ggen_same(1) [of e] g by simp
  have l: "length (pc_op_words (rt_base c) (r_lastpc (e_ring e)) ra RVP_OP_JOIN) \<le> 4"
    "length (cog_words (rt_base c) (r_lgen (e_ring e)) gen) \<le> 4"
    by (rule length_pc_op_words_le length_cog_words)+
  have "rvp_trace_join c i ra e = ring_put_words (set_lgen (max (r_lgen (e_ring e)) gen) (set_lastpc (rec_pc (join_rec ra i)) e1))
      (cog_words (rt_base c) (r_lgen (e_ring e)) gen @ plain_words (rt_base c) (r_lastpc (e_ring e)) (join_rec ra i))"
    using c l by (simp add: rvp_trace_join_def rvp_buf_trace_load_cog_def g e1 env_trace_cog_words env_put_pc_and_op_of put_vals_of
        ring_put_buf_of plain_words_def join_rec_def Let_def)
  also have "\<dots> = emit_recs (rt_base c) (cog_recs (r_lgen (e_ring e)) gen @ [join_rec ra i]) (set_lgen (max (r_lgen (e_ring e)) gen) e1)"
    by (rule emit_after) (simp_all add: join_rec_def g)
  finally show ?thesis .
qed

section \<open>Properties\<close>

definition no_threads :: threads where
  "no_threads = \<lparr> th_link = (\<lambda>_. None), th_rec = (\<lambda>_. zero_thread), th_next_id = 0, th_log2 = 1,
     th_joined = zero_stats, th_wakes = 0 \<rparr>"

text \<open>
  C24. A join names the thread that the fork named, unless its \<open>pthread_t\<close> is reused at once. A
  successful \<open>pthread_create\<close> logs a fork of a thread with a number that no thread had before, after
  the generation it saw, and puts the thread on the list. Then threads are created, joined and
  collected by whichever threads (\<open>ops\<close>); while the thread is not joined, the system gives its \<open>pthread_t\<close>
  to no other. A join of the \<open>pthread_t\<close> waits for the thread; from then on the system may reuse it.
  What others do before the join looks the record up is \<open>ops1\<close>, what they do before it marks the
  record \<open>ops2\<close>. When none of \<open>ops1\<close> is given the \<open>pthread_t\<close>, the join logs the number that the fork
  logged and marks that thread's record as garbage. Otherwise it logs the number, a greater one, and
  marks the record, of the thread to which the \<open>pthread_t\<close> was given last. (Nobody else joins a thread
  with this \<open>pthread_t\<close> in the meantime.)
\<close>

theorem join_names_the_forked_thread:
  assumes "deltops_fit (rt_base c)" "rt_operational c"
    and "threads_ok s ts" "insert t (set ts) \<subseteq> used" "t \<notin> set ts"
    and "rvpredict_pthread_create c p tb um pgsz (Some t) items_ok rt arg oset (0, pth) ra (s, e) = Inr (rc, s1, e1)"
    and "thread_ops_other pth used {t} (ops @ ops1)" "\<not> given pth ops"
    and "thread_ops_run c p tb um pgsz ops s1 = Inr s2" "thread_ops_run c p tb um pgsz ops1 s2 = Inr s3"
    and "thread_ops_run c p tb um pgsz ops2 s3 = Inr s4"
    and "rvp_ggen_after_load e = (gen, eg)" "rvp_ggen_after_load e2 = (gen2, eg2)"
  shows "\<exists>i j. rc = 0 \<and> (\<forall>u\<in>set ts. t_id (th_rec s u) < i) \<and>
    emit_recs (rt_base c) (fork_rec ra i # cog_recs (r_lgen (e_ring e)) gen) (set_lgen (max (r_lgen (e_ring e)) gen) eg) = Inr e1 \<and>
    rvpredict_pthread_join c pth 0 (thread_ops_run c p tb um pgsz ops1) (thread_ops_run c p tb um pgsz ops2) ra2 (s2, e2) =
      cbind (emit_recs (rt_base c) (cog_recs (r_lgen (e_ring e2)) gen2 @ [join_rec ra2 j])
               (set_lgen (max (r_lgen (e_ring e2)) gen2) eg2))
        (\<lambda>e. Inr (0, rvp_thread_mark (holder pth t ops1) s4, e)) \<and>
    (if given pth ops1 then i < j else j = i \<and> holder pth t ops1 = t)"
proof -
  let ?i = "th_next_id s + 1" and ?t = "holder pth t ops1"
  note C = pthread_create_spec [OF assms(3,5,6)]
  have new: "newest s1 ([] @ t # ts) pth t ?i" by (rule newestI) (use C in auto)
  have used: "set ([] @ t # ts) \<subseteq> used" using assms(4) by simp
  have "thread_ops_run c p tb um pgsz (ops @ ops1) s1 = Inr s3"
    using assms(9,10) by (simp add: thread_ops_run_append)
  from newest_run [OF new used _ assms(7) this] assms(8) obtain ts3 j where
    nw: "newest s3 ts3 pth ?t j" "if given pth ops1 then ?i < j else j = ?i"
    by (auto simp: holder_append holder_not_given given_def)
  have "threads_ok s1 (t # ts)" using C by simp
  moreover have "th_rec s1 u = th_rec s u" if "u \<in> set ts" for u using C assms(5) that by auto
  ultimately have "\<forall>u\<in>set ts. t_id (th_rec s u) < ?i" using C by (simp add: threads_ok_def)
  moreover have "emit_recs (rt_base c) (fork_rec ra ?i # cog_recs (r_lgen (e_ring e)) gen) (set_lgen (max (r_lgen (e_ring e)) gen) eg) = Inr e1"
    using C trace_fork_recs [OF assms(1,2,12), of ?i ra] by simp
  moreover have "t_id (th_rec s3 ?t) = j" using nw(1) by (simp add: newest_def)
  ultimately show ?thesis
    using C newest_find [OF nw(1)] trace_join_recs [OF assms(1,13), of j ra2] nw(2) assms(10,11)
    by (intro exI [of _ ?i] exI [of _ j]) (auto simp: rvpredict_pthread_join_def holder_not_given)
qed

theorem join_names_the_forked_thread_witness:
  "\<exists>s1 e1 i. rvpredict_pthread_create sample_rt linux_signals (plat_tab linux_signals) 0 64 (Some 7) True 0 0 (\<lambda>_. False) (0, 99)
       0x500000 (no_threads, sample_env sample_pc 64) = Inr (0, s1, e1) \<and>
     rvpredict_pthread_join sample_rt 99 0 Inr Inr 0x500004 (s1, sample_env sample_pc 64) =
       cbind (emit_recs (rt_base sample_rt) (cog_recs 1 1 @ [join_rec 0x500004 i]) ((sample_env sample_pc 64)\<lparr> e_ggen := 2 \<rparr>))
         (\<lambda>e. Inr (0, rvp_thread_mark 7 s1, e))"
proof -
  let ?e = "sample_env sample_pc 64"
  let ?r = "rvpredict_pthread_create sample_rt linux_signals (plat_tab linux_signals) 0 64 (Some 7) True 0 0 (\<lambda>_. False) (0, 99)
       0x500000 (no_threads, ?e)"
  let ?none = "thread_ops_run sample_rt linux_signals (plat_tab linux_signals) 0 64 []"
  have "isl ?r = False" by code_simp
  then obtain rc s1 e1 where r: "?r = Inr (rc, s1, e1)" by (cases ?r) auto
  have ok: "threads_ok no_threads []" by (simp add: threads_ok_def no_threads_def)
  have g: "rvp_ggen_after_load ?e = (1, ?e\<lparr> e_ggen := 2 \<rparr>)" "r_lgen (e_ring ?e) = 1"
    "set_lgen 1 (?e\<lparr> e_ggen := 2 \<rparr>) = ?e\<lparr> e_ggen := 2 \<rparr>"
    by (simp_all add: rvp_ggen_after_load_def ggen_interference_def sample_env_def set_lgen_def)
  have used: "insert 7 (set []) \<subseteq> {7 :: nat}" "7 \<notin> set []" "thread_ops_other 99 {7} {7} ([] @ [])" "\<not> given 99 []"
    by (simp_all add: given_def)
  have none: "?none s1 = Inr s1" "?none = Inr" by (simp_all add: fun_eq_iff)
  obtain i j where "rc = 0" "rvpredict_pthread_join sample_rt 99 0 ?none ?none 0x500004 (s1, ?e) =
       cbind (emit_recs (rt_base sample_rt) (cog_recs (r_lgen (e_ring ?e)) 1 @ [join_rec 0x500004 j])
         (set_lgen (max (r_lgen (e_ring ?e)) 1) (?e\<lparr> e_ggen := 2 \<rparr>)))
         (\<lambda>e. Inr (0, rvp_thread_mark (holder 99 7 []) s1, e))"
    using join_names_the_forked_thread [OF sample_rt_ok ok used(1,2) r used(3,4) none(1) none(1) none(1) g(1) g(1), of "0x500004"]
    by blast
  then show ?thesis using r g unfolding none(2) by auto
qed

text \<open>
  C25. Collecting the garbage. Run on a list of threads, the loop that walks the list with a
  pointer to the link it came by ends; the threads that were not joined stay on the list in
  their order, the joined ones make up the list it returns, in their order, no record
  is on both, and the statistics of the joined ones are added up. Nothing else changes.
\<close>

theorem garbage_collection_splits_the_list:
  assumes "tchain (th_link s) ThreadHead ts" "distinct ts"
  shows "\<exists>s'. rvp_collect_garbage s = Inr s' \<and>
    tchain (th_link s') ThreadHead (filter (\<lambda>t. \<not> t_garbage (th_rec s t)) ts) \<and>
    tchain (th_link s') GarbageHead (filter (\<lambda>t. t_garbage (th_rec s t)) ts) \<and>
    s' = s\<lparr> th_link := th_link s',
            th_joined := add_stats (th_rec s) (filter (\<lambda>t. t_garbage (th_rec s t)) ts) (th_joined s) \<rparr>"
  using assms by (rule collect_garbage_spec)

definition three_threads :: threads where
  "three_threads = no_threads\<lparr>
     th_link := (\<lambda>c. if c = ThreadHead then Some 1 else if c = TNext 1 then Some 2 else if c = TNext 2 then Some 3 else None),
     th_rec := (\<lambda>t. zero_thread\<lparr> t_garbage := t \<noteq> 2 \<rparr>) \<rparr>"

theorem garbage_collection_splits_the_list_witness:
  "\<exists>s'. rvp_collect_garbage three_threads = Inr s' \<and> tchain (th_link s') ThreadHead [2] \<and> tchain (th_link s') GarbageHead [1, 3]"
  using garbage_collection_splits_the_list [of three_threads "[1, 2, 3]"] by (auto simp: three_threads_def)

text \<open>
  C26. The number of threads. The runtime keeps an exponent of two for the number of threads it
  has numbered so far. Up to 65536 threads the update ends with a power of two not below the
  number, and its exponent is 1, 2, 4, 8 or 16, since the loop doubles the exponent: it can be the
  square of what is needed. From the 65537th thread on the update shifts an \<open>int\<close> by 32 places,
  which C leaves undefined.
\<close>

theorem thread_count_exponent:
  assumes "log2 \<in> {1, 2, 4, 8, 16}"
  shows "(unat n \<le> 65536 \<longrightarrow> (\<exists>r\<in>{1, 2, 4, 8, 16}. rvp_update_nthreads n log2 = Inr r \<and> unat n \<le> 2 ^ r \<and>
      (r = log2 \<or> 2 ^ (r div 2) < unat n))) \<and>
    (65536 < unat n \<longrightarrow> rvp_update_nthreads n log2 = Inl Undefined)"
  using update_nthreads_spec [OF _ assms] update_nthreads_big [OF _ assms] by blast

theorem thread_count_exponent_witness:
  "rvp_update_nthreads 17 4 = Inr 8 \<and> rvp_update_nthreads 65537 16 = Inl Undefined"
  using thread_count_exponent [of 4 17] thread_count_exponent [of 16 65537] by auto

end
