(* ===== verification/Sigmask.thy ===== *)
theory Sigmask
  imports Intern_Laws Access_Laws Serialize
begin

text \<open>
  Changes of the signal mask, \<^verbatim>\<open>llvm/ngrt/rvpsignal.c\<close>: the wrappers of \<open>pthread_sigmask\<close>,
  \<open>sigprocmask\<close> and \<open>sigsuspend\<close>, which log the change and keep track of the mask in
  \<open>t_intrmask\<close>, and the simulation of signals, \<^verbatim>\<open>llvm/sigsim/simple\<close>.
\<close>

section \<open>State\<close>

text \<open>
  A pending change of mask is a variable on the stack of the call that makes it, known by its
  address. The thread has its own ring \<open>mt_own\<close> and runs on the ring \<open>mt_cur\<close>, which is another
  one in a signal handler; \<open>mt_env\<close> is the environment of its puts, whose ring is the one at hand.
  \<open>mt_others\<close> is what other threads do to the signal rings at the coming waits for one, and
  \<open>mt_os\<close> the signal mask of the thread in the operating system.
\<close>

record rvp_maskchg =
  mc_idepth :: u32
  mc_nmask :: u64
  mc_buf :: rvp_buf

record rvp_signal =
  s_blockset :: "bsp option"
  s_handler :: u64
  s_sigaction :: u64
  s_flags :: u32

text \<open>The state of the simulation of signals, \<^verbatim>\<open>llvm/sigsim/simple\<close>.\<close>

record sigsim =
  ss_before :: bool
  ss_after :: bool
  ss_established :: u64

text \<open>The thread; \<open>mt_sim\<close> is \<open>None\<close> when the library is linked without a simulation.\<close>

record mthread =
  mt_env :: rvp_env
  mt_rings :: rings
  mt_own :: rid
  mt_cur :: rid
  mt_id :: u32
  mt_stats :: rvp_ring_stats
  mt_idepth :: u32
  mt_intrmask :: u64
  mt_maskchg :: "(nat \<times> rvp_maskchg) option"
  mt_sets :: blocksets
  mt_signal_rings :: "rid option"
  mt_nrings_needed :: int
  mt_others :: "(rid option \<Rightarrow> rings \<Rightarrow> rid option \<times> rings) list"
  mt_storage :: "int \<Rightarrow> nat \<Rightarrow> rvp_signal"
  mt_tbl :: "int \<Rightarrow> nat option"
  mt_sim :: "sigsim option"
  mt_os :: sigset

text \<open>
  What the calls consult: the platform, its table of signals, the masks that cannot be blocked,
  the fuel of a wait for a memo; and the functions of the C library, with whatever signal
  handlers run meanwhile. The real function that changes a mask gives its return value and the
  old set, \<open>raise\<close> gives the thread afterwards.
\<close>

record sigctx =
  sc_rt :: rvp_rt
  sc_plat :: sigplat
  sc_tab :: sigtab
  sc_unmaskable :: u64
  sc_fuel :: nat
  sc_sigmask :: "int \<Rightarrow> sigset option \<Rightarrow> mthread \<Rightarrow> (int \<times> sigset \<times> mthread) cres"
  sc_raise :: "int \<Rightarrow> mthread \<Rightarrow> mthread cres"

definition SIG_BLOCK :: int where "SIG_BLOCK = 0"
definition SIG_UNBLOCK :: int where "SIG_UNBLOCK = 1"
definition SIG_SETMASK :: int where "SIG_SETMASK = 2"

definition env_on :: "rid \<Rightarrow> mthread \<Rightarrow> rvp_env" where
  "env_on i t = (mt_env t)\<lparr> e_ring := mt_rings t ! i \<rparr>"

definition set_env_on :: "rid \<Rightarrow> rvp_env \<Rightarrow> mthread \<Rightarrow> mthread" where
  "set_env_on i e t = t\<lparr> mt_env := e, mt_rings := (mt_rings t)[i := e_ring e] \<rparr>"

section \<open>Interning without interference\<close>

text \<open>A call of \<open>intern_sigset\<close> that runs on its own: \<open>fuel\<close> bounds its steps.\<close>

fun intern_run :: "sigplat \<Rightarrow> nat \<Rightarrow> blocksets \<Rightarrow> ipc \<Rightarrow> (bsp \<times> blocksets) cres" where
    "intern_run p fuel g (Done s a) = Inr (a, g)"
  | "intern_run p 0 g pc = Inl Waiting"
  | "intern_run p (Suc fuel) g pc = cbind (intern_step p g pc) (\<lambda>(g, pc). intern_run p fuel g pc)"

definition intern_sigset :: "sigctx \<Rightarrow> sigset \<Rightarrow> mthread \<Rightarrow> (bsp \<times> mthread) cres" where
  "intern_sigset x s t =
     cbind (intern_run (sc_plat x) (sc_fuel x) (mt_sets t) (Start s)) (\<lambda>(a, g).
       Inr (a, t\<lparr> mt_sets := g \<rparr>))"

text \<open>The number of the memo of a mask.\<close>

definition intern_mask :: "sigctx \<Rightarrow> u64 \<Rightarrow> mthread \<Rightarrow> (u32 \<times> mthread) cres" where
  "intern_mask x m t =
     cbind (mask_to_sigset (sc_plat x) (sc_tab x) m) (\<lambda>s.
     cbind (intern_sigset x s t) (\<lambda>(a, t).
     cbind (memo_at (mt_sets t) a) (\<lambda>m. Inr (bs_number m, t))))"

section \<open>Events\<close>

text \<open>The functions that fill a buffer are given the ring whose last program counter they move.\<close>

definition rvp_ring_reset_pc :: "sigctx \<Rightarrow> rid \<Rightarrow> mthread \<Rightarrow> mthread" where
  "rvp_ring_reset_pc x i t =
     set_env_on i (set_lastpc (deltop_or_null (rvp_vec_and_op_to_deltop (rt_base (sc_rt x)) 0 RVP_OP_BEGIN)) (env_on i t)) t"

definition put_and_request :: "rid \<Rightarrow> rvp_buf \<Rightarrow> mthread \<Rightarrow> mthread cres" where
  "put_and_request i b t =
     cbind (rvp_ring_put_buf (env_on i t) b) (\<lambda>e. Inr (set_env_on i (rvp_ring_request_service e) t))"

definition rvp_bufinit_getsetmask :: "sigctx \<Rightarrow> rid \<Rightarrow> u64 \<Rightarrow> u64 \<Rightarrow> u64 \<Rightarrow> mthread \<Rightarrow> (rvp_buf \<times> mthread) cres" where
  "rvp_bufinit_getsetmask x i omask nmask retaddr t =
     cbind (intern_mask x omask t) (\<lambda>(obs, t).
     cbind (intern_mask x nmask t) (\<lambda>(nbs, t).
     cbind (env_put_pc_and_op (sc_rt x) RVP_BUF_INITIALIZER retaddr RVP_OP_SIGGETSETMASK (env_on i t)) (\<lambda>(b, e).
     cbind (rvp_buf_put b obs) (\<lambda>b.
     cbind (rvp_buf_put b nbs) (\<lambda>b.
     Inr (b, set_env_on i e t))))))"

definition stores_mask :: "rvp_op \<Rightarrow> bool" where
  "stores_mask op \<longleftrightarrow> op = RVP_OP_SIGSETMASK \<or> op = RVP_OP_SIGBLOCK \<or> op = RVP_OP_SIGUNBLOCK"

definition rvp_bufinit_mask :: "sigctx \<Rightarrow> rid \<Rightarrow> rvp_op \<Rightarrow> u64 \<Rightarrow> u64 \<Rightarrow> mthread \<Rightarrow> (rvp_buf \<times> mthread) cres" where
  "rvp_bufinit_mask x i op m retaddr t =
     cbind (intern_mask x m t) (\<lambda>(bs, t).
     cbind (if op = RVP_OP_SIGGETMASK
            then cbind (rvp_buf_trace_load_cog (sc_rt x) RVP_BUF_INITIALIZER (env_on i t)) (\<lambda>(b, e). Inr (b, 0, e))
            else if stores_mask op
            then (case rvp_ggen_before_store (env_on i t) of (gen, e) \<Rightarrow> Inr (RVP_BUF_INITIALIZER, gen, e))
            else Inr (RVP_BUF_INITIALIZER, 0, env_on i t)) (\<lambda>(b, gen, e).
     cbind (env_put_pc_and_op (sc_rt x) b retaddr op e) (\<lambda>(b, e).
     cbind (rvp_buf_put b bs) (\<lambda>b.
     cbind (if stores_mask op then env_trace_cog (sc_rt x) b gen e else Inr (b, e)) (\<lambda>(b, e).
     Inr (b, set_env_on i e t))))))"

definition rvp_bufinit_newmask :: "sigctx \<Rightarrow> rid \<Rightarrow> int \<Rightarrow> u64 \<Rightarrow> u64 \<Rightarrow> mthread \<Rightarrow> (rvp_buf \<times> mthread) cres" where
  "rvp_bufinit_newmask x i how m retaddr t =
     (if how = SIG_SETMASK then rvp_bufinit_mask x i RVP_OP_SIGSETMASK m retaddr t
      else if how = SIG_BLOCK then rvp_bufinit_mask x i RVP_OP_SIGBLOCK m retaddr t
      else if how = SIG_UNBLOCK then rvp_bufinit_mask x i RVP_OP_SIGUNBLOCK m retaddr t
      else Inl Exited)"

definition rvp_trace_mask :: "sigctx \<Rightarrow> rvp_op \<Rightarrow> u64 \<Rightarrow> u64 \<Rightarrow> mthread \<Rightarrow> mthread cres" where
  "rvp_trace_mask x op m retaddr t =
     cbind (rvp_bufinit_mask x (mt_cur t) op m retaddr t) (\<lambda>(b, t). put_and_request (mt_cur t) b t)"

definition rvp_trace_getsetmask :: "sigctx \<Rightarrow> u64 \<Rightarrow> u64 \<Rightarrow> u64 \<Rightarrow> mthread \<Rightarrow> mthread cres" where
  "rvp_trace_getsetmask x omask nmask retaddr t =
     cbind (rvp_bufinit_getsetmask x (mt_cur t) omask nmask retaddr t) (\<lambda>(b, t). put_and_request (mt_cur t) b t)"

definition rvp_thread_trace_newmask :: "sigctx \<Rightarrow> int \<Rightarrow> u64 \<Rightarrow> u64 \<Rightarrow> mthread \<Rightarrow> mthread cres" where
  "rvp_thread_trace_newmask x how m retaddr t =
     cbind (rvp_bufinit_newmask x (mt_cur t) how m retaddr t) (\<lambda>(b, t). put_and_request (mt_cur t) b t)"

definition rvp_trace_sigest :: "sigctx \<Rightarrow> int \<Rightarrow> u64 \<Rightarrow> u32 \<Rightarrow> u64 \<Rightarrow> mthread \<Rightarrow> mthread cres" where
  "rvp_trace_sigest x signum handler masknum retaddr t =
     cbind (env_put_pc_and_op (sc_rt x) RVP_BUF_INITIALIZER retaddr RVP_OP_SIGEST (env_on (mt_cur t) t)) (\<lambda>(b, e).
     cbind (rvp_buf_put_addr b handler) (\<lambda>b.
     cbind (rvp_buf_put b (word_of_int signum)) (\<lambda>b.
     cbind (rvp_buf_put b masknum) (\<lambda>b.
     put_and_request (mt_cur t) b (set_env_on (mt_cur t) e t)))))"

definition rvp_trace_sigdis :: "sigctx \<Rightarrow> int \<Rightarrow> u64 \<Rightarrow> mthread \<Rightarrow> mthread cres" where
  "rvp_trace_sigdis x signum retaddr t =
     cbind (env_put_pc_and_op (sc_rt x) RVP_BUF_INITIALIZER retaddr RVP_OP_SIGDIS (env_on (mt_cur t) t)) (\<lambda>(b, e).
     cbind (rvp_buf_put b (word_of_int signum)) (\<lambda>b.
     put_and_request (mt_cur t) b (set_env_on (mt_cur t) e t)))"

section \<open>Simulated signals\<close>

datatype rvp_sigsim_context = BEFORE_MASKCHG | AFTER_MASKCHG

text \<open>The value of the environment variable, if any; the established signals stay.\<close>

definition simple_sigsim_init :: "string option \<Rightarrow> sigsim \<Rightarrow> sigsim cres" where
  "simple_sigsim_init v ss =
     (let both = ss\<lparr> ss_before := True, ss_after := True \<rparr> in
      case v of None \<Rightarrow> Inr both
      | Some v \<Rightarrow>
          if v = ''both'' then Inr both
          else if v = ''before'' then Inr (ss\<lparr> ss_before := True, ss_after := False \<rparr>)
          else if v = ''after'' then Inr (ss\<lparr> ss_before := False, ss_after := True \<rparr>)
          else if v = ''neither'' then Inr (ss\<lparr> ss_before := False, ss_after := False \<rparr>)
          else Inl Exited)"

definition signo_bit :: "sigctx \<Rightarrow> int \<Rightarrow> u64" where
  "signo_bit x signo = BIT_macro (signo_to_bitno (sc_tab x) signo)"

definition rvp_sigsim_establish :: "sigctx \<Rightarrow> int \<Rightarrow> mthread \<Rightarrow> mthread cres" where
  "rvp_sigsim_establish x signo t =
     (case mt_sim t of None \<Rightarrow> Inr t
      | Some ss \<Rightarrow>
          let b = signo_bit x signo;
              t = t\<lparr> mt_sim := Some (ss\<lparr> ss_established := ss_established ss OR b \<rparr>) \<rparr>
          in if mt_intrmask t AND b = 0 then sc_raise x signo t else Inr t)"

definition rvp_sigsim_disestablish :: "sigctx \<Rightarrow> int \<Rightarrow> mthread \<Rightarrow> mthread cres" where
  "rvp_sigsim_disestablish x signo t =
     (case mt_sim t of None \<Rightarrow> Inr t
      | Some _ \<Rightarrow>
          let b = signo_bit x signo in
          cbind (if mt_intrmask t AND b \<noteq> 0 then sc_raise x signo t else Inr t) (\<lambda>t.
            Inr (t\<lparr> mt_sim := map_option (\<lambda>ss. ss\<lparr> ss_established := ss_established ss AND NOT b \<rparr>) (mt_sim t) \<rparr>)))"

text \<open>The loop reads the established signals anew for each bit: a handler may have changed them.\<close>

fun raise_loop :: "sigctx \<Rightarrow> u64 \<Rightarrow> int list \<Rightarrow> mthread \<Rightarrow> mthread cres" where
    "raise_loop x masked [] t = Inr t"
  | "raise_loop x masked (bitno # bitnos) t =
       (case mt_sim t of None \<Rightarrow> Inr t
        | Some ss \<Rightarrow>
            cbind (if masked AND ss_established ss AND BIT_macro bitno \<noteq> 0
                   then sc_raise x (bitno_to_signo (sc_tab x) bitno) t else Inr t)
              (raise_loop x masked bitnos))"

definition rvp_sigsim_raise_all_in_mask :: "sigctx \<Rightarrow> rvp_sigsim_context \<Rightarrow> u64 \<Rightarrow> mthread \<Rightarrow> mthread cres" where
  "rvp_sigsim_raise_all_in_mask x ctx masked t =
     (case mt_sim t of None \<Rightarrow> Inr t
      | Some ss \<Rightarrow>
          if (ctx = BEFORE_MASKCHG \<and> \<not> ss_before ss) \<or> (ctx = AFTER_MASKCHG \<and> \<not> ss_after ss) then Inr t
          else raise_loop x masked [0..63] t)"

section \<open>Changing the mask\<close>

text \<open>
  \<open>mc\<close> is the address of the local variable, \<open>junk\<close> what an uninitialised variable holds, \<open>want\<close>
  whether the caller passes a place for the old set.
\<close>

definition new_mask :: "int \<Rightarrow> u64 \<Rightarrow> u64 \<Rightarrow> u64 \<Rightarrow> u64" where
  "new_mask how omask maskchg junk =
     (if how = SIG_BLOCK then omask OR maskchg
      else if how = SIG_UNBLOCK then omask AND NOT maskchg
      else if how = SIG_SETMASK then maskchg
      else junk)"

definition the_mask :: "sigctx \<Rightarrow> sigset option \<Rightarrow> u64" where
  "the_mask x s = (case s of None \<Rightarrow> 0 | Some s \<Rightarrow> sigset_to_mask (sc_plat x) (sc_tab x) s)"

text \<open>The event is buffered before the change: nothing is, when the mask is only asked for.\<close>

definition buffer_maskchg ::
    "sigctx \<Rightarrow> rid \<Rightarrow> u64 \<Rightarrow> u64 \<Rightarrow> u64 \<Rightarrow> int \<Rightarrow> sigset option \<Rightarrow> bool \<Rightarrow> mthread \<Rightarrow> (rvp_buf \<times> mthread) cres" where
  "buffer_maskchg x r omask nmask retaddr how nset want t =
     (let maskchg = the_mask x nset in
      if nset = None then Inr (RVP_BUF_INITIALIZER, t)
      else if want then rvp_bufinit_getsetmask x r omask nmask retaddr (rvp_ring_reset_pc x r t)
      else if how = SIG_BLOCK \<or> how = SIG_SETMASK
      then rvp_bufinit_newmask x r how (maskchg AND NOT (sc_unmaskable x)) retaddr (rvp_ring_reset_pc x r t)
      else rvp_bufinit_newmask x r how maskchg retaddr (rvp_ring_reset_pc x r t))"

text \<open>The compare-and-set that finds out whether a signal handler has logged the event.\<close>

definition log_maskchg ::
    "nat \<Rightarrow> rid \<Rightarrow> rvp_buf \<Rightarrow> (nat \<times> rvp_maskchg) option \<Rightarrow> u64 \<Rightarrow> mthread \<Rightarrow> mthread cres" where
  "log_maskchg mc r b omaskchg nmask t =
     (if map_option fst (mt_maskchg t) = Some mc
      then cbind (put_and_request r b (t\<lparr> mt_maskchg := omaskchg \<rparr>)) (\<lambda>t. Inr (t\<lparr> mt_intrmask := nmask \<rparr>))
      else Inr t)"

definition rvp_change_sigmask ::
    "sigctx \<Rightarrow> (int \<Rightarrow> sigset option \<Rightarrow> mthread \<Rightarrow> (int \<times> sigset \<times> mthread) cres) \<Rightarrow>
     nat \<Rightarrow> u64 \<Rightarrow> u64 \<Rightarrow> int \<Rightarrow> sigset option \<Rightarrow> bool \<Rightarrow> mthread \<Rightarrow> (int \<times> mthread) cres" where
  "rvp_change_sigmask x changefn mc junk retaddr how nset want t =
     (let r = mt_cur t;
          omask = mt_intrmask t;
          nmask = new_mask how omask (the_mask x nset) junk AND NOT (sc_unmaskable x);
          idepth = r_idepth (mt_rings t ! r)
      in
      cbind (buffer_maskchg x r omask nmask retaddr how nset want t) (\<lambda>(b, t).
      let omaskchg = mt_maskchg t;
          t = (if nset = None then t
               else t\<lparr> mt_maskchg := Some (mc, \<lparr> mc_idepth = idepth, mc_nmask = nmask, mc_buf = b \<rparr>) \<rparr>);
          masked = nmask AND NOT omask;
          unmasked = omask AND NOT nmask
      in
      cbind (if masked \<noteq> 0 then rvp_sigsim_raise_all_in_mask x BEFORE_MASKCHG masked t else Inr t) (\<lambda>t.
      cbind (changefn how nset t) (\<lambda>(rc, oldset, t).
      if rc \<noteq> 0 then Inr (rc, t) else
      cbind (if unmasked \<noteq> 0 then rvp_sigsim_raise_all_in_mask x AFTER_MASKCHG unmasked t else Inr t) (\<lambda>t.
      cbind (if nset = None then Inr t else log_maskchg mc r b omaskchg nmask t) (\<lambda>t.
      let actual_omask = sigset_to_mask (sc_plat x) (sc_tab x) oldset in
      if want \<and> mt_cur t = mt_own t \<and> actual_omask \<noteq> 0 \<and> omask \<noteq> actual_omask then Inl Aborted
      else cbind (if nset = None \<and> want then rvp_trace_mask x RVP_OP_SIGGETMASK omask retaddr t else Inr t) (\<lambda>t.
      Inr (0, t))))))))"

definition rvpredict_pthread_sigmask ::
    "sigctx \<Rightarrow> nat \<Rightarrow> u64 \<Rightarrow> u64 \<Rightarrow> int \<Rightarrow> sigset option \<Rightarrow> bool \<Rightarrow> mthread \<Rightarrow> (int \<times> mthread) cres" where
  "rvpredict_pthread_sigmask x = rvp_change_sigmask x (sc_sigmask x)"

text \<open>\<open>suspend\<close> is the real function: it sets the mask, runs handlers, and restores the mask.\<close>

definition rvpredict_sigsuspend ::
    "sigctx \<Rightarrow> (sigset \<Rightarrow> mthread \<Rightarrow> (int \<times> mthread) cres) \<Rightarrow> u64 \<Rightarrow> sigset \<Rightarrow> mthread \<Rightarrow> (int \<times> mthread) cres" where
  "rvpredict_sigsuspend x suspend retaddr nset t =
     (let omask = mt_intrmask t;
          nmask = the_mask x (Some nset) AND NOT (sc_unmaskable x)
      in
      cbind (rvp_trace_getsetmask x omask nmask retaddr t) (\<lambda>t.
      cbind (suspend nset (t\<lparr> mt_intrmask := nmask \<rparr>)) (\<lambda>(rc, t).
      cbind (rvp_thread_trace_newmask x SIG_SETMASK omask retaddr (t\<lparr> mt_intrmask := omask \<rparr>)) (\<lambda>t.
      Inr (rc, t)))))"

end
