(* ===== verification/Sigmask_Laws.thy ===== *)
theory Sigmask_Laws
  imports Sigmask Threads
begin

text \<open>
  What a change of the signal mask logs, and that the mask the runtime believes in is the one of
  the operating system.
\<close>

section \<open>Numbers that the trace has\<close>

text \<open>
  The number of a set that is on the list of memos and has been written to the trace: a call of
  \<open>intern_sigset\<close> finds it without waiting. The walk takes at most \<open>k\<close> steps.
\<close>

fun known_number :: "sigplat \<Rightarrow> blocksets \<Rightarrow> sigset \<Rightarrow> nat \<Rightarrow> bsp option \<Rightarrow> u32 option" where
    "known_number p g s k None = None"
  | "known_number p g s 0 (Some a) = None"
  | "known_number p g s (Suc k) (Some a) =
       (if length (sb_mem g) \<le> a then None
        else if sigset_eq p (bs_sigset (sb_mem g ! a)) s
        then (if bs_serialized (sb_mem g ! a) then Some (bs_number (sb_mem g ! a)) else None)
        else known_number p g s k (bs_next (sb_mem g ! a)))"

definition set_of_mask :: "sigplat \<Rightarrow> u64 \<Rightarrow> sigset" where
  "set_of_mask p m = (\<lambda>i. 1 \<le> i \<and> i \<le> int (sg_max p) \<and> bit m (nat (i - 1)))"

definition mask_number :: "sigctx \<Rightarrow> blocksets \<Rightarrow> u64 \<Rightarrow> u32 option" where
  "mask_number x g m =
     (if mask_addable (sc_plat x) m
      then known_number (sc_plat x) g (set_of_mask (sc_plat x) m) (sc_fuel x - 3) (sb_head g) else None)"

text \<open>A context whose platform, table of signals and deltops are as start-up leaves them.\<close>

definition sigctx_ok :: "sigctx \<Rightarrow> bool" where
  "sigctx_ok x \<longleftrightarrow> plat_ok (sc_plat x) \<and> sc_tab x = plat_tab (sc_plat x) \<and> deltops_fit (rt_base (sc_rt x)) \<and> 3 \<le> sc_fuel x"

lemma intern_run_scan:
  assumes "1 \<le> sg_max p" "known_number p g s k q = Some n"
  shows "\<exists>a. intern_run p (k + 2) g (Scan s h q) = Inr (a, g) \<and> a < length (sb_mem g) \<and> bs_number (sb_mem g ! a) = n"
  using assms(2)
proof (induction k arbitrary: q)
  case 0
  then show ?case by (cases q) simp_all
next
  case (Suc k)
  then obtain a where q: "q = Some a" "a < length (sb_mem g)" by (cases q) (auto split: if_splits)
  let ?m = "sb_mem g ! a"
  show ?case
  proof (cases "sigset_eq p (bs_sigset ?m) s")
    case True
    then have "bs_serialized ?m" "bs_number ?m = n" using Suc.prems q by (simp_all split: if_splits)
    then show ?thesis using True q assms(1)
      by (simp add: memo_at_def sigeqset_spec)
  next
    case False
    then have "known_number p g s k (bs_next ?m) = Some n" using Suc.prems q by simp
    from Suc.IH [OF this] show ?thesis using False q assms(1)
      by (simp add: memo_at_def sigeqset_spec)
  qed
qed

lemma intern_run_more: "intern_run p k g pc = Inr y \<Longrightarrow> intern_run p (k + j) g pc = Inr y"
proof (induction k arbitrary: g pc)
  case 0
  then show ?case by (cases pc; cases j) simp_all
next
  case (Suc k)
  show ?case
  proof (cases "\<exists>s a. pc = Done s a")
    case False
    then obtain g' pc' where "intern_step p g pc = Inr (g', pc')" "intern_run p k g' pc' = Inr y"
      using Suc.prems by (cases pc) (auto split: prod.splits simp del: intern_step.simps)
    moreover from Suc.IH [OF this(2)] have "intern_run p (k + j) g' pc' = Inr y" .
    ultimately show ?thesis using False by (cases pc) (simp_all del: intern_step.simps)
  qed (use Suc.prems in auto)
qed

lemma intern_run_start:
  "intern_run p (Suc k) g (Start s) = intern_run p k g (Scan s (sb_head g) (sb_head g))"
  by simp

lemma intern_mask_known:
  assumes "sigctx_ok x" "mask_number x (mt_sets t) m = Some n"
  shows "intern_mask x m t = Inr (n, t)"
proof -
  let ?p = "sc_plat x" and ?s = "set_of_mask (sc_plat x) m"
  define k where "k = sc_fuel x - 3"
  have p: "1 \<le> sg_max ?p" "sc_tab x = plat_tab ?p" and fuel: "sc_fuel x = Suc (k + 2)"
    using assms(1) by (auto simp: sigctx_ok_def plat_ok_def k_def)
  have m: "mask_addable ?p m" "known_number ?p (mt_sets t) ?s k (sb_head (mt_sets t)) = Some n"
    using assms(2) by (simp_all add: mask_number_def k_def split: if_splits)
  obtain a where a: "intern_run ?p (k + 2) (mt_sets t) (Scan ?s (sb_head (mt_sets t)) (sb_head (mt_sets t))) = Inr (a, mt_sets t)"
    "a < length (sb_mem (mt_sets t))" "bs_number (sb_mem (mt_sets t) ! a) = n"
    using intern_run_scan [OF p(1) m(2)] by blast
  have "intern_run ?p (sc_fuel x) (mt_sets t) (Start ?s) = Inr (a, mt_sets t)"
    unfolding fuel intern_run_start by (rule a(1))
  then show ?thesis
    using m(1) a p(2) by (simp add: intern_mask_def mask_to_sigset_spec set_of_mask_def [symmetric] intern_sigset_def memo_at_def)
qed

section \<open>Puts while the consumer rests\<close>

text \<open>The fields of a ring that a queue of words does not depend on.\<close>

lemma r_lastpc_update_simps [simp]:
  "ring_ok (r\<lparr> r_lastpc := a \<rparr>) = ring_ok r" "ring_contents (r\<lparr> r_lastpc := a \<rparr>) = ring_contents r"
  "rvp_ring_nempty (r\<lparr> r_lastpc := a \<rparr>) = rvp_ring_nempty r"
  by (simp_all add: ring_ok_def ring_contents_def rvp_ring_nempty_def rvp_ring_capacity_def rvp_ring_nfull_def)

lemma r_lgen_update_simps [simp]:
  "ring_ok (r\<lparr> r_lgen := a \<rparr>) = ring_ok r" "ring_contents (r\<lparr> r_lgen := a \<rparr>) = ring_contents r"
  "rvp_ring_nempty (r\<lparr> r_lgen := a \<rparr>) = rvp_ring_nempty r"
  by (simp_all add: ring_ok_def ring_contents_def rvp_ring_nempty_def rvp_ring_capacity_def rvp_ring_nfull_def)

lemma r_state_update_simps [simp]:
  "ring_ok (r\<lparr> r_state := a \<rparr>) = ring_ok r" "ring_contents (r\<lparr> r_state := a \<rparr>) = ring_contents r"
  "rvp_ring_nempty (r\<lparr> r_state := a \<rparr>) = rvp_ring_nempty r"
  by (simp_all add: ring_ok_def ring_contents_def rvp_ring_nempty_def rvp_ring_capacity_def rvp_ring_nfull_def)

lemma r_iring_update_simps [simp]:
  "ring_ok (r\<lparr> r_iring := a \<rparr>) = ring_ok r" "ring_contents (r\<lparr> r_iring := a \<rparr>) = ring_contents r"
  "rvp_ring_nempty (r\<lparr> r_iring := a \<rparr>) = rvp_ring_nempty r"
  by (simp_all add: ring_ok_def ring_contents_def rvp_ring_nempty_def rvp_ring_capacity_def rvp_ring_nfull_def)

lemma r_tid_update_simps [simp]:
  "ring_ok (r\<lparr> r_tid := a \<rparr>) = ring_ok r" "ring_contents (r\<lparr> r_tid := a \<rparr>) = ring_contents r"
  "rvp_ring_nempty (r\<lparr> r_tid := a \<rparr>) = rvp_ring_nempty r"
  by (simp_all add: ring_ok_def ring_contents_def rvp_ring_nempty_def rvp_ring_capacity_def rvp_ring_nfull_def)

lemma r_idepth_update_simps [simp]:
  "ring_ok (r\<lparr> r_idepth := a \<rparr>) = ring_ok r" "ring_contents (r\<lparr> r_idepth := a \<rparr>) = ring_contents r"
  "rvp_ring_nempty (r\<lparr> r_idepth := a \<rparr>) = rvp_ring_nempty r"
  by (simp_all add: ring_ok_def ring_contents_def rvp_ring_nempty_def rvp_ring_capacity_def rvp_ring_nfull_def)

definition quiet_room :: "nat \<Rightarrow> rvp_env \<Rightarrow> bool" where
  "quiet_room n e \<longleftrightarrow> env_ok e \<and> e_obs e = [] \<and> int n \<le> rvp_ring_nempty (e_ring e)"

text \<open>The environment after a put of some words: only its ring is told.\<close>

definition pushed :: "rvp_env \<Rightarrow> u32 list \<Rightarrow> rvp_env \<Rightarrow> bool" where
  "pushed e ws e' \<longleftrightarrow> env_ok e' \<and> e_obs e' = [] \<and> e_ring e' = ring_push (e_ring e) ws"

lemma quiet_room_less: "quiet_room n e \<Longrightarrow> m \<le> n \<Longrightarrow> quiet_room m e"
  by (simp add: quiet_room_def)

lemma quiet_room_contents:
  assumes "quiet_room (length ws) e"
  shows "ring_contents (ring_push (e_ring e) ws) = ring_contents (e_ring e) @ ws"
  using assms contents_push [of "e_ring e" ws] by (simp add: quiet_room_def env_ok_def rvp_ring_nempty_def)

lemma pushed_room:
  assumes "quiet_room (length ws + n) e" "pushed e ws e'"
  shows "quiet_room n e'"
  using assms nfull_push [of "e_ring e" ws]
  by (simp add: quiet_room_def pushed_def env_ok_def rvp_ring_nempty_def rvp_ring_capacity_def)

lemma ring_put_words_push:
  assumes "quiet_room (length ws) e" "ws \<noteq> []" "length ws \<le> 20"
  shows "\<exists>e'. ring_put_words e ws = Inr e' \<and> pushed e ws e'"
proof -
  let ?item = "ws @ replicate (20 - length ws) 0"
  have e: "env_ok e" "e_obs e = []" "int (length ws) \<le> rvp_ring_nempty (e_ring e)" "ring_ok (e_ring e)"
    using assms(1) by (simp_all add: quiet_room_def env_ok_def)
  have cap: "int (length ws) \<le> rvp_ring_capacity (e_ring e)"
    using e(3) nfull_bounds(1) [OF e(4)] by (simp add: rvp_ring_nempty_def)
  obtain e' where e': "rvp_ring_put_multiple e ?item (int (length ws)) = Inr e'"
    using put_multiple_returns(1) [OF e(1) assms(2) cap, of ?item] e(2-4) by auto
  let ?f = "e\<lparr> e_ring := ring_push (e_ring e) ws \<rparr>"
  have lf: "load_consumer ?f = ?f" using e(2) by (simp add: load_consumer_def)
  let ?prev = "int (r_producer (e_ring e))" and ?n = "int (length ws)"
  let ?nxt = "int ((r_producer (e_ring e) + length ws) mod Suc (r_last (e_ring e)))"
  have "env_ok ?f" using e by (simp add: env_ok_def)
  then obtain e2 where e2: "put_milestones ?f ?prev ?nxt ?n = Inr e2" "e_ring e2 = e_ring ?f" "e_obs e2 = e_obs ?f"
    "e_log2_nthreads e2 = e_log2_nthreads e"
    using put_milestones_ring [of ?f ?prev ?nxt ?n] lf by auto
  have "e2 = e'" using put_quiet_step(2) [OF e(1) assms(2) cap _ _ e' e(2)] e2(1) by simp
  then have "pushed e ws e'" using e e2 by (auto simp: pushed_def env_ok_def)
  then show ?thesis using e' assms(3) by (simp add: put_buf_words)
qed

section \<open>Events on a ring of a thread\<close>

lemma env_on_simps [simp]:
  "i < length (mt_rings t) \<Longrightarrow> env_on i (set_env_on i e t) = e"
  "e_ring (env_on i t) = mt_rings t ! i"
  "set_env_on i e (set_env_on i e' t) = set_env_on i e t"
  by (simp_all add: env_on_def set_env_on_def)

lemma put_and_request_push:
  assumes "quiet_room (length ws) (env_on i t)" "ws \<noteq> []" "length ws \<le> 20"
  shows "\<exists>e. put_and_request i (buf_of ws) t = Inr (set_env_on i e t) \<and> pushed (env_on i t) ws e"
proof -
  obtain e where e: "ring_put_words (env_on i t) ws = Inr e" "pushed (env_on i t) ws e"
    using ring_put_words_push [OF assms] by blast
  have "pushed (env_on i t) ws (rvp_ring_request_service e)"
    using e(2) by (auto simp: pushed_def env_ok_def rvp_ring_request_service_def)
  then show ?thesis using e(1) assms(3) by (auto simp: put_and_request_def ring_put_buf_of)
qed

section \<open>Buffering the event\<close>

definition getset_rec :: "u64 \<Rightarrow> u32 \<Rightarrow> u32 \<Rightarrow> trec" where
  "getset_rec ra n1 n2 = \<lparr> rec_op = RVP_OP_SIGGETSETMASK, rec_pc = ra, rec_vals = [V32 n1, V32 n2] \<rparr>"

definition mask_rec :: "rvp_op \<Rightarrow> u64 \<Rightarrow> u32 \<Rightarrow> trec" where
  "mask_rec op ra n = \<lparr> rec_op = op, rec_pc = ra, rec_vals = [V32 n] \<rparr>"

lemma mask_rec_sel [simp]:
  "rec_op (mask_rec op ra n) = op" "rec_pc (mask_rec op ra n) = ra"
  "rec_op (getset_rec ra n1 n2) = RVP_OP_SIGGETSETMASK" "rec_pc (getset_rec ra n1 n2) = ra"
  by (simp_all add: mask_rec_def getset_rec_def)

lemma length_pc_op: "length (pc_op_words base L pc op) \<le> 16" "length (pc_op_words base L pc op) \<le> 14"
  using length_pc_op_words_le [of base L pc op] by simp_all

lemma bufinit_getsetmask_words:
  assumes "sigctx_ok x" "mask_number x (mt_sets t) om = Some n1" "mask_number x (mt_sets t) nm = Some n2"
  shows "rvp_bufinit_getsetmask x i om nm ra t =
    Inr (buf_of (recs_words (rt_base (sc_rt x)) (r_lastpc (mt_rings t ! i)) [getset_rec ra n1 n2]),
         set_env_on i (set_lastpc ra (env_on i t)) t)"
  using assms length_pc_op [of "rt_base (sc_rt x)" "r_lastpc (mt_rings t ! i)" ra RVP_OP_SIGGETSETMASK]
  by (simp add: rvp_bufinit_getsetmask_def intern_mask_known sigctx_ok_def env_put_pc_and_op_of put_vals_of
      rec_words_def getset_rec_def)

lemma recs_words_cog: "recs_words base L (cog_recs lgen gen) = cog_words base lgen gen"
  by (simp add: cog_recs_def cog_words_def rec_words_def)

lemma bufinit_mask_words:
  assumes "sigctx_ok x" "mask_number x (mt_sets t) m = Some n" "stores_mask op"
    and "rvp_ggen_after_load (env_on i t) = (gen, e1)"
  shows "rvp_bufinit_mask x i op m ra t =
    Inr (buf_of (recs_words (rt_base (sc_rt x)) (r_lastpc (mt_rings t ! i)) (mask_rec op ra n # cog_recs (r_lgen (mt_rings t ! i)) gen)),
         set_env_on i (set_lgen (max (r_lgen (mt_rings t ! i)) gen) (set_lastpc ra e1)) t)"
proof -
  have e1: "e_ring e1 = mt_rings t ! i" using ggen_same(1) [of "env_on i t"] assms(4) by simp
  have op: "op \<noteq> RVP_OP_SIGGETMASK" "op \<noteq> RVP_OP_COG" using assms(3) by (auto simp: stores_mask_def)
  show ?thesis
    using assms op length_pc_op [of "rt_base (sc_rt x)" "r_lastpc (mt_rings t ! i)" ra op]
    by (simp add: rvp_bufinit_mask_def intern_mask_known sigctx_ok_def env_put_pc_and_op_of put_vals_of
      env_trace_cog_words recs_words_cog e1) (simp add: rec_words_def mask_rec_def)
qed

definition mask_op :: "int \<Rightarrow> rvp_op" where
  "mask_op how = (if how = SIG_SETMASK then RVP_OP_SIGSETMASK else if how = SIG_BLOCK then RVP_OP_SIGBLOCK else RVP_OP_SIGUNBLOCK)"

text \<open>The mask that the event without an old mask names.\<close>

definition named_mask :: "sigctx \<Rightarrow> int \<Rightarrow> u64 \<Rightarrow> u64" where
  "named_mask x how m = (if how = SIG_UNBLOCK then m else m AND NOT (sc_unmaskable x))"

definition maskchg_recs :: "u64 \<Rightarrow> int \<Rightarrow> bool \<Rightarrow> u32 \<Rightarrow> u32 \<Rightarrow> u32 \<Rightarrow> u64 \<Rightarrow> u64 \<Rightarrow> trec list" where
  "maskchg_recs ra how want n_old n_new n_arg lgen gen =
     (if want then [getset_rec ra n_old n_new] else mask_rec (mask_op how) ra n_arg # cog_recs lgen gen)"

lemma how_cases: "how \<in> {SIG_BLOCK, SIG_UNBLOCK, SIG_SETMASK} \<Longrightarrow>
  how = SIG_BLOCK \<and> how \<noteq> SIG_UNBLOCK \<and> how \<noteq> SIG_SETMASK \<or>
  how = SIG_UNBLOCK \<and> how \<noteq> SIG_BLOCK \<and> how \<noteq> SIG_SETMASK \<or>
  how = SIG_SETMASK \<and> how \<noteq> SIG_BLOCK \<and> how \<noteq> SIG_UNBLOCK"
  by (auto simp: SIG_BLOCK_def SIG_UNBLOCK_def SIG_SETMASK_def)

lemma reset_pc_eq:
  "sigctx_ok x \<Longrightarrow> rvp_ring_reset_pc x i t =
     set_env_on i (set_lastpc (deltop_of (rt_base (sc_rt x)) 0 RVP_OP_BEGIN) (env_on i t)) t"
  by (simp add: rvp_ring_reset_pc_def sigctx_ok_def deltop0 deltop_or_null_def)

lemma ggen_obs:
  "rvp_ggen_after_load e = (gen, e1) \<Longrightarrow> e_obs e1 = e_obs e \<and> e_log2_nthreads e1 = e_log2_nthreads e \<and> e_ring e1 = e_ring e"
  by (auto simp: rvp_ggen_after_load_def ggen_interference_def Let_def split: list.splits if_splits)

text \<open>
  The buffered event stands for itself: its first words are a jump from the deltop of a begin.
  The environment afterwards has the old ring but for the program counter and the generation.
\<close>

lemma buffer_maskchg_words:
  fixes x t
  defines "base \<equiv> rt_base (sc_rt x)"
  assumes x: "sigctx_ok x" and how: "how \<in> {SIG_BLOCK, SIG_UNBLOCK, SIG_SETMASK}" and i: "i < length (mt_rings t)"
    and n: "mask_number x (mt_sets t) om = Some n_old" "mask_number x (mt_sets t) nm = Some n_new"
      "mask_number x (mt_sets t) (named_mask x how (the_mask x (Some s))) = Some n_arg"
  shows "\<exists>e lgen gen. buffer_maskchg x i om nm ra how (Some s) want t =
      Inr (buf_of (recs_words base (deltop_of base 0 RVP_OP_BEGIN)
            (maskchg_recs ra how want n_old n_new n_arg (r_lgen (mt_rings t ! i)) gen)), set_env_on i e t) \<and>
    e_obs e = e_obs (mt_env t) \<and> e_log2_nthreads e = e_log2_nthreads (mt_env t) \<and>
    e_ring e = (mt_rings t ! i)\<lparr> r_lastpc := ra, r_lgen := lgen \<rparr>"
proof -
  let ?e = "set_lastpc (deltop_of base 0 RVP_OP_BEGIN) (env_on i t)"
  let ?t = "set_env_on i ?e t"
  let ?m = "named_mask x how (the_mask x (Some s))"
  have t: "rvp_ring_reset_pc x i t = ?t" "mt_rings ?t ! i = (mt_rings t ! i)\<lparr> r_lastpc := deltop_of base 0 RVP_OP_BEGIN \<rparr>"
    "mt_sets ?t = mt_sets t" "env_on i ?t = ?e"
    using i x by (simp_all add: reset_pc_eq base_def) (simp_all add: set_env_on_def set_lastpc_def)
  show ?thesis
  proof (cases want)
    case True
    then have "buffer_maskchg x i om nm ra how (Some s) want t = rvp_bufinit_getsetmask x i om nm ra ?t"
      using t(1) by (simp add: buffer_maskchg_def)
    also have "\<dots> = Inr (buf_of (recs_words base (deltop_of base 0 RVP_OP_BEGIN) [getset_rec ra n_old n_new]),
        set_env_on i (set_lastpc ra ?e) t)"
      using bufinit_getsetmask_words [OF x, of ?t om n_old nm n_new i ra] n t i by (simp add: base_def)
    finally show ?thesis using True
      by (intro exI [of _ "set_lastpc ra ?e"] exI [of _ "r_lgen (mt_rings t ! i)"])
         (simp add: maskchg_recs_def set_lastpc_def env_on_def)
  next
    case False
    obtain gen e1 where g: "rvp_ggen_after_load ?e = (gen, e1)" by (cases "rvp_ggen_after_load ?e")
    let ?l = "max (r_lgen (mt_rings t ! i)) gen"
    have st: "stores_mask (mask_op how)" by (simp add: stores_mask_def mask_op_def)
    have "buffer_maskchg x i om nm ra how (Some s) want t = rvp_bufinit_mask x i (mask_op how) ?m ra ?t"
      using False how_cases [OF how] t(1)
      by (auto simp: buffer_maskchg_def rvp_bufinit_newmask_def mask_op_def named_mask_def)
    also have "\<dots> = Inr (buf_of (recs_words base (deltop_of base 0 RVP_OP_BEGIN)
          (mask_rec (mask_op how) ra n_arg # cog_recs (r_lgen (mt_rings t ! i)) gen)),
        set_env_on i (set_lgen ?l (set_lastpc ra e1)) t)"
      using bufinit_mask_words [OF x, of ?t ?m n_arg "mask_op how" i gen e1 ra] st n t i g by (simp add: base_def)
    finally show ?thesis using False ggen_obs [OF g]
      by (intro exI [of _ "set_lgen ?l (set_lastpc ra e1)"] exI [of _ ?l] exI [of _ gen])
         (simp add: maskchg_recs_def set_lastpc_def set_lgen_def env_on_def)
  qed
qed

lemma length_maskchg_words:
  "length (recs_words base L (maskchg_recs ra how want n1 n2 n3 lgen gen)) \<le> 14"
  "recs_words base L (maskchg_recs ra how want n1 n2 n3 lgen gen) \<noteq> []"
proof -
  let ?op = "if want then RVP_OP_SIGGETSETMASK else mask_op how"
  have "length (pc_op_words base L ra ?op) \<in> {2, 4}" "length (cog_words base lgen gen) \<le> 4"
    by (rule length_pc_op_words length_cog_words)+
  moreover have "mask_op how \<noteq> RVP_OP_COG" by (simp add: mask_op_def)
  ultimately have "length (recs_words base L (maskchg_recs ra how want n1 n2 n3 lgen gen)) \<in> {2..14}"
    by (auto simp: maskchg_recs_def recs_words_cog rec_words_def mask_rec_def getset_rec_def)
  then show "length (recs_words base L (maskchg_recs ra how want n1 n2 n3 lgen gen)) \<le> 14"
    "recs_words base L (maskchg_recs ra how want n1 n2 n3 lgen gen) \<noteq> []" by auto
qed

section \<open>A change on its own\<close>

text \<open>
  The documented behaviour of the real function, when no handler runs meanwhile: it returns 0 and
  the old set, and the new set is as asked, without the signals that cannot be blocked.
\<close>

definition os_changes_mask ::
    "sigctx \<Rightarrow> (int \<Rightarrow> sigset option \<Rightarrow> mthread \<Rightarrow> (int \<times> sigset \<times> mthread) cres) \<Rightarrow> bool" where
  "os_changes_mask x f \<longleftrightarrow> (\<forall>how s t. how \<in> {SIG_BLOCK, SIG_UNBLOCK, SIG_SETMASK} \<longrightarrow>
     (\<exists>os. f how (Some s) t = Inr (0, mt_os t, t\<lparr> mt_os := os \<rparr>) \<and>
       the_mask x (Some os) =
         new_mask how (the_mask x (Some (mt_os t))) (the_mask x (Some s)) 0 AND NOT (sc_unmaskable x)))"

text \<open>No simulation of signals, or none is established.\<close>

definition sim_rests :: "mthread \<Rightarrow> bool" where
  "sim_rests t \<longleftrightarrow> (case mt_sim t of None \<Rightarrow> True | Some ss \<Rightarrow> ss_established ss = 0)"

lemma raise_loop_rests: "sim_rests t \<Longrightarrow> raise_loop x m bs t = Inr t"
  by (induction bs) (auto simp: sim_rests_def split: option.splits)

lemma raise_all_rests: "sim_rests t \<Longrightarrow> rvp_sigsim_raise_all_in_mask x ctx m t = Inr t"
  by (auto simp: rvp_sigsim_raise_all_in_mask_def raise_loop_rests split: option.splits)

lemma if_same_Inr [simp]: "(if P then Inr t else Inr t) = Inr t"
  by simp

definition new_mask_of :: "sigctx \<Rightarrow> int \<Rightarrow> sigset \<Rightarrow> u64 \<Rightarrow> u64" where
  "new_mask_of x how s omask = new_mask how omask (the_mask x (Some s)) 0 AND NOT (sc_unmaskable x)"

lemma new_mask_junk:
  "how \<in> {SIG_BLOCK, SIG_UNBLOCK, SIG_SETMASK} \<Longrightarrow>
   new_mask how omask (the_mask x (Some s)) junk AND NOT (sc_unmaskable x) = new_mask_of x how s omask"
  by (auto simp: new_mask_def new_mask_of_def)

text \<open>Equations to evaluate the comparisons of signal sets by.\<close>

lemma sigset_eq_code [code]: "sigset_eq p l r = (eq_loop p l r 1 = Inr True)"
  by (simp add: eq_loop_spec sigset_eq_def)

lemma mask_addable_code [code]:
  "mask_addable p m = list_all (\<lambda>i. bit m (nat (i - 1)) \<longrightarrow> sg_addable p i) [1 .. int (sg_max p)]"
  by (auto simp: mask_addable_def list_all_iff)

section \<open>A sample thread\<close>

text \<open>
  A platform of three signals, on which every mask has been numbered; a thread with a ring of its
  own and two for handlers; and an operating system that only changes the mask.
\<close>

definition three_signals :: sigplat where
  "three_signals = \<lparr> sg_max = 3, sg_fill = (\<lambda>_. True), sg_addable = (\<lambda>_. True) \<rparr>"

definition sig_set :: "int list \<Rightarrow> sigset" where
  "sig_set is = (\<lambda>i. i \<in> set is)"

definition os_mask :: "int \<Rightarrow> sigset \<Rightarrow> sigset \<Rightarrow> sigset" where
  "os_mask how n s = (if how = SIG_BLOCK then (\<lambda>i. s i \<or> n i) else if how = SIG_UNBLOCK then (\<lambda>i. s i \<and> \<not> n i) else n)"

definition os_sigmask :: "int \<Rightarrow> sigset option \<Rightarrow> mthread \<Rightarrow> (int \<times> sigset \<times> mthread) cres" where
  "os_sigmask how nset t =
     Inr (0, mt_os t, case nset of None \<Rightarrow> t | Some n \<Rightarrow> t\<lparr> mt_os := os_mask how n (mt_os t) \<rparr>)"

definition sample_sigctx ::
    "(int \<Rightarrow> sigset option \<Rightarrow> mthread \<Rightarrow> (int \<times> sigset \<times> mthread) cres) \<Rightarrow> sigctx" where
  "sample_sigctx f = \<lparr> sc_rt = sample_rt, sc_plat = three_signals, sc_tab = plat_tab three_signals, sc_unmaskable = 0,
     sc_fuel = 20, sc_sigmask = f, sc_raise = (\<lambda>_ t. Inr t) \<rparr>"

definition sample_sets :: blocksets where
  "sample_sets = \<lparr> sb_mem = map (\<lambda>k. \<lparr> bs_number = of_nat k,
       bs_sigset = (\<lambda>i. 1 \<le> i \<and> i \<le> 3 \<and> bit k (nat (i - 1))), bs_next = (if k = 0 then None else Some (k - 1)),
       bs_serialized = True \<rparr>) [0..<8], sb_nsets = 8, sb_head = Some 7, sb_free = None, sb_kicks = [], sb_out = [], sb_last = Some 7 \<rparr>"

definition sample_ring :: "rvp_ring_state \<Rightarrow> rid option \<Rightarrow> rvp_ring" where
  "sample_ring s q = (rvp_ring_init zero_ring (replicate 64 0) 64)\<lparr> r_state := s, r_next := q \<rparr>"

definition sample_mthread :: mthread where
  "sample_mthread = \<lparr> mt_env = \<lparr> e_ring = zero_ring, e_ggen = 1, e_interf = [], e_consistent = True, e_log2_nthreads = 0,
       e_wakes = [], e_obs = [], e_iobs = [] \<rparr>,
     mt_rings = [sample_ring RVP_RING_S_INUSE None, sample_ring RVP_RING_S_CLEAN None, sample_ring RVP_RING_S_CLEAN (Some 1)],
     mt_own = 0, mt_cur = 0, mt_id = 1, mt_stats = zero_stats, mt_idepth = 0, mt_intrmask = 0, mt_maskchg = None,
     mt_sets = sample_sets, mt_signal_rings = Some 2, mt_nrings_needed = 0, mt_others = [],
     mt_storage = (\<lambda>s k. \<lparr> s_blockset = Some (if s = 1 then 1 else 2), s_handler = of_int s, s_sigaction = 0, s_flags = 0 \<rparr>),
     mt_tbl = (\<lambda>s. Some 0), mt_sim = None, mt_os = sig_set [] \<rparr>"

lemma three_signals_ok: "plat_ok three_signals"
  by (simp add: plat_ok_def three_signals_def)

lemma sample_sigctx_ok: "sigctx_ok (sample_sigctx f)"
  using three_signals_ok sample_rt_ok(1) by (simp add: sigctx_ok_def sample_sigctx_def)

lemma os_mask_bits:
  assumes "plat_ok p"
  shows "sigset_to_mask p (plat_tab p) (\<lambda>i. s i \<or> n i) = sigset_to_mask p (plat_tab p) s OR sigset_to_mask p (plat_tab p) n"
    "sigset_to_mask p (plat_tab p) (\<lambda>i. s i \<and> \<not> n i) = sigset_to_mask p (plat_tab p) s AND NOT (sigset_to_mask p (plat_tab p) n)"
  using assms by (auto intro!: bit_word_eqI simp: bit_sigset_to_mask bit_simps)

lemma os_sigmask_ok: "os_changes_mask (sample_sigctx f) os_sigmask"
  by (auto simp: os_changes_mask_def os_sigmask_def sample_sigctx_def the_mask_def new_mask_def os_mask_def
      os_mask_bits [OF three_signals_ok] SIG_BLOCK_def SIG_UNBLOCK_def SIG_SETMASK_def)

section \<open>Properties\<close>

text \<open>
  C27. A change of mask is logged and tracked. Let the mask that the runtime tracks be that of the
  thread in the operating system, let the signal sets of the masks in question have numbers in
  the trace, and let the ring have room for an event. A call of \<open>pthread_sigmask\<close> that no signal
  interrupts returns 0. It puts one event on the ring, which stands for itself by starting with
  a jump: with the numbers of the old and of the new mask if the caller wants the old mask,
  else with that of its argument, followed by the change of generation, if any. The tracked mask is
  the new mask, and again that of the operating system, whatever the platform cannot block; and a
  change of mask that this call interrupts is pending again.
\<close>

theorem mask_change_logged_and_tracked:
  assumes x: "sigctx_ok x" "os_changes_mask x f" and how: "how \<in> {SIG_BLOCK, SIG_UNBLOCK, SIG_SETMASK}"
    and t: "mt_cur t < length (mt_rings t)" "sim_rests t" "the_mask x (Some (mt_os t)) = mt_intrmask t"
    and room: "quiet_room 14 (env_on (mt_cur t) t)"
    and n: "mask_number x (mt_sets t) (mt_intrmask t) = Some n_old"
      "mask_number x (mt_sets t) (new_mask_of x how s (mt_intrmask t)) = Some n_new"
      "mask_number x (mt_sets t) (named_mask x how (the_mask x (Some s))) = Some n_arg"
  shows "\<exists>t' gen. rvp_change_sigmask x f mc junk ra how (Some s) want t = Inr (0, t') \<and>
    mt_intrmask t' = new_mask_of x how s (mt_intrmask t) \<and> the_mask x (Some (mt_os t')) = mt_intrmask t' \<and>
    mt_maskchg t' = mt_maskchg t \<and> mt_cur t' = mt_cur t \<and>
    ring_contents (mt_rings t' ! mt_cur t) = ring_contents (mt_rings t ! mt_cur t) @
      recs_words (rt_base (sc_rt x)) (deltop_of (rt_base (sc_rt x)) 0 RVP_OP_BEGIN)
        (maskchg_recs ra how want n_old n_new n_arg (r_lgen (mt_rings t ! mt_cur t)) gen) \<and>
    (\<forall>j. j \<noteq> mt_cur t \<longrightarrow> mt_rings t' ! j = mt_rings t ! j)"
proof -
  let ?r = "mt_cur t" and ?nm = "new_mask_of x how s (mt_intrmask t)"
  let ?base = "rt_base (sc_rt x)"
  obtain e lgen gen where b: "buffer_maskchg x ?r (mt_intrmask t) ?nm ra how (Some s) want t =
      Inr (buf_of (recs_words ?base (deltop_of ?base 0 RVP_OP_BEGIN)
            (maskchg_recs ra how want n_old n_new n_arg (r_lgen (mt_rings t ! ?r)) gen)), set_env_on ?r e t)"
    and e: "e_obs e = e_obs (mt_env t)" "e_log2_nthreads e = e_log2_nthreads (mt_env t)"
      "e_ring e = (mt_rings t ! ?r)\<lparr> r_lastpc := ra, r_lgen := lgen \<rparr>"
    using buffer_maskchg_words [OF x(1) how t(1) n, of ra want] by blast
  let ?ws = "recs_words ?base (deltop_of ?base 0 RVP_OP_BEGIN)
    (maskchg_recs ra how want n_old n_new n_arg (r_lgen (mt_rings t ! ?r)) gen)"
  let ?t1 = "(set_env_on ?r e t)\<lparr> mt_maskchg := Some (mc, \<lparr> mc_idepth = r_idepth (mt_rings t ! ?r), mc_nmask = ?nm, mc_buf = buf_of ?ws \<rparr>) \<rparr>"
  define t1 where "t1 = ?t1"
  have t1: "mt_os t1 = mt_os t" "mt_sim t1 = mt_sim t" by (simp_all add: set_env_on_def t1_def)
  have sim: "sim_rests t1" using t(2) by (simp add: sim_rests_def t1)
  have "\<exists>os. f how (Some s) t1 = Inr (0, mt_os t1, t1\<lparr> mt_os := os \<rparr>) \<and> the_mask x (Some os) =
      new_mask how (the_mask x (Some (mt_os t1))) (the_mask x (Some s)) 0 AND NOT (sc_unmaskable x)"
    using x(2) how unfolding os_changes_mask_def by blast
  then obtain os where os: "f how (Some s) t1 = Inr (0, mt_os t, t1\<lparr> mt_os := os \<rparr>)" "the_mask x (Some os) = ?nm"
    unfolding t1 t(3) new_mask_of_def by blast
  let ?t2 = "?t1\<lparr> mt_os := os \<rparr>"
  have sim2: "sim_rests ?t2" using sim by (simp add: sim_rests_def t1_def)
  let ?t3 = "?t2\<lparr> mt_maskchg := mt_maskchg t \<rparr>"
  have env: "env_on ?r ?t3 = e" using t(1) by (simp add: env_on_def set_env_on_def)
  have len: "length ?ws \<le> 14" "?ws \<noteq> []" by (rule length_maskchg_words)+
  have "quiet_room 14 e"
    using room e by (simp add: quiet_room_def env_ok_def env_on_def)
  then have quiet: "quiet_room (length ?ws) e" using len(1) by (rule quiet_room_less)
  obtain e' where e': "put_and_request ?r (buf_of ?ws) ?t3 = Inr (set_env_on ?r e' ?t3)" "pushed e ?ws e'"
    using put_and_request_push [of ?ws ?r ?t3] quiet len unfolding env by auto
  let ?t4 = "(set_env_on ?r e' ?t3)\<lparr> mt_intrmask := ?nm \<rparr>"
  define t2 where "t2 = ?t2"
  define t4 where "t4 = ?t4"
  have st: "f how (Some s) t1 = Inr (0, mt_os t, t2)" "sim_rests t1" "sim_rests t2"
    using os(1) sim sim2 by (simp_all only: t2_def t1_def)
  have "map_option fst (mt_maskchg t2) = Some mc" by (simp add: t2_def)
  then have log: "log_maskchg mc ?r (buf_of ?ws) (mt_maskchg t) ?nm t2 = Inr t4"
    unfolding log_maskchg_def t2_def t4_def using e'(1) by simp
  have "mt_maskchg (set_env_on ?r e t) = mt_maskchg t" by (simp add: set_env_on_def)
  then have "rvp_change_sigmask x f mc junk ra how (Some s) want t = Inr (0, t4)"
    unfolding rvp_change_sigmask_def Let_def new_mask_junk [OF how] b
    using st log t(3) by (simp add: t1_def [symmetric] raise_all_rests the_mask_def)
  moreover have "ring_contents (e_ring e') = ring_contents (mt_rings t ! ?r) @ ?ws"
    using e'(2) quiet_room_contents [OF quiet] e(3) by (simp add: pushed_def)
  ultimately show ?thesis using os(2) t(1)
    by (intro exI [of _ t4] exI [of _ gen]) (simp add: set_env_on_def t4_def)
qed

lemma mask_change_witness:
  "\<exists>t'. rvp_change_sigmask (sample_sigctx os_sigmask) os_sigmask 1 0 0x500010 SIG_BLOCK (Some (sig_set [1])) True sample_mthread = Inr (0, t') \<and>
     mt_intrmask t' = 1"
proof -
  let ?x = "sample_sigctx os_sigmask" and ?t = sample_mthread
  have m: "the_mask ?x (Some (mt_os ?t)) = mt_intrmask ?t" "new_mask_of ?x SIG_BLOCK (sig_set [1]) (mt_intrmask ?t) = 1"
    "mask_number ?x (mt_sets ?t) 0 = Some 0" "mask_number ?x (mt_sets ?t) 1 = Some 1"
    "named_mask ?x SIG_BLOCK (the_mask ?x (Some (sig_set [1]))) = 1" "mt_intrmask ?t = 0"
    by code_simp+
  have "mt_cur ?t < length (mt_rings ?t)" "sim_rests ?t" "quiet_room 14 (env_on (mt_cur ?t) ?t)"
    by code_simp+
  from mask_change_logged_and_tracked [OF sample_sigctx_ok os_sigmask_ok _ this(1,2) m(1) this(3), where how = SIG_BLOCK and s = "sig_set [1]"
      and want = True and ra = "0x500010" and mc = 1 and junk = 0] m
  show ?thesis by (metis insertCI)
qed

end
