(* ===== verification/Handler.thy ===== *)
theory Handler
  imports Sigmask Threads
begin

text \<open>
  Signal handlers, \<^verbatim>\<open>llvm/ngrt/rvpsignal.c\<close>: the rings that handlers run on, the wrapper that runs
  instead of each of the program's handlers, and the wrappers of \<open>sigaction\<close> and \<open>signal\<close>.
\<close>

section \<open>The rings of handlers\<close>

text \<open>
  The rings are linked through \<open>r_next\<close>. A handler reuses a dirty ring of its thread and depth, or
  takes a clean one. The walks are optional: they have no end if the links form a cycle.
\<close>

partial_function (option) scan_dirty ::
    "u32 \<Rightarrow> u32 \<Rightarrow> rvp_ring_stats \<Rightarrow> rid option \<Rightarrow> rings \<Rightarrow> (rid option \<times> rings) option" where [code]:
  "scan_dirty tid idepth st q rs = (case q of None \<Rightarrow> Some (None, rs)
     | Some i \<Rightarrow>
         let r = rs ! i in
         if r_state r \<noteq> RVP_RING_S_DIRTY then scan_dirty tid idepth st (r_next r) rs
         else if r_tid r = tid \<and> r_idepth r = idepth
         then Some (Some i, rs[i := r\<lparr> r_state := RVP_RING_S_INUSE, r_stats := st \<rparr>])
         else scan_dirty tid idepth st (r_next r) (rs[i := r\<lparr> r_state := RVP_RING_S_DIRTY \<rparr>]))"

partial_function (option) scan_clean ::
    "u32 \<Rightarrow> u32 \<Rightarrow> rvp_ring_stats \<Rightarrow> rid option \<Rightarrow> rings \<Rightarrow> (rid option \<times> rings) option" where [code]:
  "scan_clean tid idepth st q rs = (case q of None \<Rightarrow> Some (None, rs)
     | Some i \<Rightarrow>
         let r = rs ! i in
         if r_state r = RVP_RING_S_CLEAN
         then Some (Some i, rs[i := r\<lparr> r_state := RVP_RING_S_INUSE, r_tid := tid, r_idepth := idepth, r_stats := st \<rparr>])
         else scan_clean tid idepth st (r_next r) rs)"

definition rvp_signal_ring_acquire_scan :: "u32 \<Rightarrow> mthread \<Rightarrow> (rid option \<times> mthread) cres" where
  "rvp_signal_ring_acquire_scan idepth t =
     cbind (cassert (0 < idepth)) (\<lambda>_.
     cbind (returned (scan_dirty (mt_id t) idepth (mt_stats t) (mt_signal_rings t) (mt_rings t))) (\<lambda>(q, rs).
     if q \<noteq> None then Inr (q, t\<lparr> mt_rings := rs \<rparr>)
     else cbind (returned (scan_clean (mt_id t) idepth (mt_stats t) (mt_signal_rings t) rs)) (\<lambda>(q, rs).
       Inr (q, t\<lparr> mt_rings := rs \<rparr>))))"

definition rvp_wake_replenisher :: "mthread \<Rightarrow> mthread" where
  "rvp_wake_replenisher t = t\<lparr> mt_env := (mt_env t)\<lparr> e_wakes := e_wakes (mt_env t) @ [WakeRelay] \<rparr> \<rparr>"

text \<open>
  Other threads act before each scan but the first, as \<open>mt_others\<close> says; the wait does not end
  when they have done all they do.
\<close>

fun acquire_loop :: "u32 \<Rightarrow> (rid option \<Rightarrow> rings \<Rightarrow> rid option \<times> rings) list \<Rightarrow> mthread \<Rightarrow> (rid \<times> mthread) cres" where
    "acquire_loop idepth [] t = Inl Waiting"
  | "acquire_loop idepth (f # fs) t =
       (let t = rvp_wake_replenisher t; (head, rs) = f (mt_signal_rings t) (mt_rings t) in
        cbind (rvp_signal_ring_acquire_scan idepth (t\<lparr> mt_signal_rings := head, mt_rings := rs, mt_others := fs \<rparr>))
          (\<lambda>(q, t). case q of Some i \<Rightarrow> Inr (i, t) | None \<Rightarrow> acquire_loop idepth fs t))"

definition rvp_signal_ring_acquire :: "u32 \<Rightarrow> mthread \<Rightarrow> (rid \<times> mthread) cres" where
  "rvp_signal_ring_acquire idepth t =
     cbind (rvp_signal_ring_acquire_scan idepth t) (\<lambda>(q, t).
       case q of Some i \<Rightarrow> Inr (i, t)
       | None \<Rightarrow> acquire_loop idepth (mt_others t) (t\<lparr> mt_nrings_needed := mt_nrings_needed t + 1 \<rparr>))"

definition rvp_signal_ring_put :: "rid \<Rightarrow> mthread \<Rightarrow> mthread cres" where
  "rvp_signal_ring_put i t =
     (let r = mt_rings t ! i;
          nstate = (if rvp_ring_is_dirty r then RVP_RING_S_DIRTY else RVP_RING_S_CLEAN)
      in if r_state r = RVP_RING_S_INUSE then Inr (t\<lparr> mt_rings := (mt_rings t)[i := r\<lparr> r_state := nstate \<rparr>] \<rparr>)
         else Inl Aborted)"

text \<open>
  The serializer replenishes the rings: \<open>mem\<close> are the results of the coming calls of \<open>calloc\<close> for
  a ring, and for the items of it.
\<close>

fun nclean_loop :: "nat \<Rightarrow> int \<Rightarrow> int \<Rightarrow> rid option \<Rightarrow> rings \<Rightarrow> int cres" where
    "nclean_loop fuel nneeded nclean None rs = Inr nclean"
  | "nclean_loop 0 nneeded nclean (Some i) rs = Inl Waiting"
  | "nclean_loop (Suc fuel) nneeded nclean (Some i) rs =
       (if \<not> nclean \<le> nneeded then Inr nclean
        else nclean_loop fuel nneeded (if r_state (rs ! i) = RVP_RING_S_CLEAN then nclean + 1 else nclean)
               (r_next (rs ! i)) rs)"

fun allocate_loop :: "nat \<Rightarrow> int \<Rightarrow> int \<Rightarrow> (bool \<times> bool) list \<Rightarrow> rid option \<times> rings \<Rightarrow> (rid option \<times> rings) cres" where
    "allocate_loop pgsz nneeded nallocated [] (head, rs) =
       (if \<not> nallocated \<le> nneeded then Inr (head, rs) else Inl Waiting)"
  | "allocate_loop pgsz nneeded nallocated ((got_ring, got_items) # mem) (head, rs) =
       (if \<not> nallocated \<le> nneeded then Inr (head, rs)
        else if \<not> got_ring then (if nallocated = 0 then Inl Exited else Inr (head, rs))
        else cbind (rvp_ring_stdinit pgsz got_items zero_ring) (\<lambda>(_, r).
          allocate_loop pgsz nneeded (nallocated + 1) mem
            (Some (length rs), rs @ [r\<lparr> r_state := RVP_RING_S_CLEAN, r_next := head \<rparr>])))"

definition rvp_signal_rings_replenish ::
    "nat \<Rightarrow> (bool \<times> bool) list \<Rightarrow> int \<Rightarrow> rid option \<times> rings \<Rightarrow> (int \<times> rid option \<times> rings) cres" where
  "rvp_signal_rings_replenish pgsz mem nneeded hr =
     (if nneeded = 0 then Inr (0, hr)
      else cbind (nclean_loop (length (snd hr)) nneeded 0 (fst hr) (snd hr)) (\<lambda>nclean.
        cbind (allocate_loop pgsz nneeded nclean mem hr) (\<lambda>hr. Inr (0, hr))))"

section \<open>The table of handlers\<close>

definition RVP_SIGNAL_F_LOG_RESETHAND :: u32 where "RVP_SIGNAL_F_LOG_RESETHAND = 1"
definition RVP_SIGNAL_F_FAKING_NODEFER :: u32 where "RVP_SIGNAL_F_FAKING_NODEFER = 2"

text \<open>Each signal has two records; the table points to one of them, or to none.\<close>

definition rvp_signal_lookup :: "int \<Rightarrow> mthread \<Rightarrow> nat option" where
  "rvp_signal_lookup signum t = mt_tbl t signum"

definition rvp_signal_alternate_lookup :: "int \<Rightarrow> mthread \<Rightarrow> nat" where
  "rvp_signal_alternate_lookup signum t = (if mt_tbl t signum = Some 0 then 1 else 0)"

definition rvp_signal_select_alternate :: "int \<Rightarrow> nat \<Rightarrow> mthread \<Rightarrow> nat option \<times> mthread" where
  "rvp_signal_select_alternate signum s t = (mt_tbl t signum, t\<lparr> mt_tbl := (mt_tbl t)(signum := Some s) \<rparr>)"

definition signal_rec :: "int \<Rightarrow> nat option \<Rightarrow> mthread \<Rightarrow> rvp_signal cres" where
  "signal_rec signum s t = (case s of None \<Rightarrow> Inl Undefined | Some k \<Rightarrow> Inr (mt_storage t signum k))"

definition set_signal_rec :: "int \<Rightarrow> nat \<Rightarrow> rvp_signal \<Rightarrow> mthread \<Rightarrow> mthread" where
  "set_signal_rec signum k s t = t\<lparr> mt_storage := (mt_storage t)(signum := (mt_storage t signum)(k := s)) \<rparr>"

section \<open>The wrapper of handlers\<close>

text \<open>\<open>real_pthread_sigmask\<close> returns an error number, never -1.\<close>

definition unblock :: "sigctx \<Rightarrow> int \<Rightarrow> mthread \<Rightarrow> mthread cres" where
  "unblock x signum t =
     (let (rc, s) = sigaddset (sc_plat x) sigemptyset signum in
      if rc = -1 then Inl Aborted
      else cbind (sc_sigmask x SIG_UNBLOCK (Some s) t) (\<lambda>(rc, _, t). if rc = -1 then Inl Aborted else Inr t))"

definition mask_is_inconsistent :: "sigctx \<Rightarrow> int \<Rightarrow> sigset \<Rightarrow> u64 \<Rightarrow> (nat \<times> rvp_maskchg) option \<Rightarrow> bool" where
  "mask_is_inconsistent x signum uc omask mcp \<longleftrightarrow>
     mcp \<noteq> None \<and> (omask AND signo_bit x signum \<noteq> 0 \<or> the_mask x (Some uc) \<noteq> omask)"

definition effective_mask :: "(nat \<times> rvp_maskchg) option \<Rightarrow> bool \<Rightarrow> u64 \<Rightarrow> u64" where
  "effective_mask mcp inconsistent omask =
     (case mcp of Some (_, mc) \<Rightarrow> if inconsistent then mc_nmask mc else omask | None \<Rightarrow> omask)"

text \<open>The event of the change of mask that the signal interrupted, at the depth of its call.\<close>

definition buffer_interrupted_maskchg :: "sigctx \<Rightarrow> rvp_maskchg \<Rightarrow> u32 \<Rightarrow> rvp_buf cres" where
  "buffer_interrupted_maskchg x mc d =
     (let sigdepth = deltop_or_null (rvp_vec_and_op_to_deltop (rt_base (sc_rt x)) 0 RVP_OP_SIGDEPTH) in
      cbind (rvp_buf_put_voidptr RVP_BUF_INITIALIZER sigdepth) (\<lambda>b.
      cbind (rvp_buf_put b (mc_idepth mc)) (\<lambda>b.
      cbind (rvp_buf_put_buf b (mc_buf mc)) (\<lambda>b.
      cbind (rvp_buf_put_voidptr b sigdepth) (\<lambda>b.
      rvp_buf_put b d)))))"

definition buffer_entersig :: "sigctx \<Rightarrow> int \<Rightarrow> rvp_signal \<Rightarrow> rvp_env \<Rightarrow> (rvp_buf \<times> rvp_env) cres" where
  "buffer_entersig x signum s e =
     (let handler = (if s_handler s \<noteq> 0 then s_handler s else s_sigaction s) in
      cbind (rvp_buf_put_voidptr RVP_BUF_INITIALIZER
               (deltop_or_null (rvp_vec_and_op_to_deltop (rt_base (sc_rt x)) 0 RVP_OP_ENTERSIG))) (\<lambda>b.
      cbind (rvp_buf_put_voidptr b handler) (\<lambda>b.
      cbind (rvp_buf_put_u64 b (r_lgen (e_ring e))) (\<lambda>b.
      cbind (rvp_buf_put b (word_of_int signum)) (\<lambda>b.
      if s_flags s AND RVP_SIGNAL_F_LOG_RESETHAND \<noteq> 0
      then cbind (env_put_pc_and_op (sc_rt x) b handler RVP_OP_SIGDIS e) (\<lambda>(b, e).
             cbind (rvp_buf_put b (word_of_int signum)) (\<lambda>b. Inr (b, e)))
      else Inr (b, e))))))"

definition put_on :: "rid \<Rightarrow> rvp_buf \<Rightarrow> mthread \<Rightarrow> mthread cres" where
  "put_on i b t = cbind (rvp_ring_put_buf (env_on i t) b) (\<lambda>e. Inr (set_env_on i e t))"

definition set_ring :: "rid \<Rightarrow> rvp_ring \<Rightarrow> mthread \<Rightarrow> mthread" where
  "set_ring i r t = t\<lparr> mt_rings := (mt_rings t)[i := r] \<rparr>"

definition close_interruption :: "rid \<Rightarrow> nat \<Rightarrow> int \<Rightarrow> mthread \<Rightarrow> mthread" where
  "close_interruption i it eidx t =
     (let r = mt_rings t ! i; ir = r_iring r in
      set_ring i (r\<lparr> r_iring := ir\<lparr> ir_items :=
        (ir_items ir)[it := rvp_interruption_close (ir_items ir ! it) eidx] \<rparr> \<rparr>) t)"

definition log_interrupted_maskchg ::
    "sigctx \<Rightarrow> rid \<Rightarrow> u32 \<Rightarrow> (nat \<times> rvp_maskchg) option \<Rightarrow> bool \<Rightarrow> mthread \<Rightarrow> mthread cres" where
  "log_interrupted_maskchg x r d mcp inconsistent t =
     (case mcp of
        Some (_, mc) \<Rightarrow>
          if inconsistent
          then cbind (buffer_interrupted_maskchg x mc d) (\<lambda>b.
               if mt_maskchg t = mcp
               then cbind (put_on r b t) (\<lambda>t. Inr (t\<lparr> mt_maskchg := None \<rparr>)) else Inr t)
          else Inr t
      | None \<Rightarrow> Inr t)"

definition log_entersig :: "sigctx \<Rightarrow> int \<Rightarrow> rvp_signal \<Rightarrow> rid \<Rightarrow> mthread \<Rightarrow> mthread cres" where
  "log_entersig x signum s r t =
     (let t = rvp_ring_reset_pc x r t in
      cbind (buffer_entersig x signum s (env_on r t)) (\<lambda>(b, e). put_on r b (set_env_on r e t)))"

text \<open>
  The wrapper up to the call of the program's handler. \<open>uc\<close> is the mask that was in force when the
  signal arrived, \<open>uc_sigmask\<close>. The result holds the local variables \<open>oldr\<close>, \<open>r\<close>, \<open>it\<close>, \<open>omask\<close>, \<open>idepth\<close>.
\<close>

definition handler_enter ::
    "sigctx \<Rightarrow> int \<Rightarrow> sigset \<Rightarrow> rvp_signal \<Rightarrow> mthread \<Rightarrow> (rid \<times> rid \<times> nat \<times> u64 \<times> u32 \<times> mthread) cres" where
  "handler_enter x signum uc s t =
     (let omask = mt_intrmask t; idepth = mt_idepth t in
     cbind (rvp_signal_ring_acquire (idepth + 1) (t\<lparr> mt_idepth := idepth + 1 \<rparr>)) (\<lambda>(r, t).
     let oldr = mt_cur t; t = t\<lparr> mt_cur := r \<rparr> in
     cbind (rvp_ring_put_interruption (env_on oldr t) r (int (r_producer (mt_rings t ! r)))) (\<lambda>(e, it).
     let t = set_env_on oldr e t in
     cbind (case s_blockset s of None \<Rightarrow> Inl Undefined | Some a \<Rightarrow> memo_at (mt_sets t) a) (\<lambda>m.
     let blocked_by_signal = the_mask x (Some (bs_sigset m)) AND NOT (sc_unmaskable x) in
     cbind (if s_flags s AND RVP_SIGNAL_F_FAKING_NODEFER \<noteq> 0 then unblock x signum t else Inr t) (\<lambda>t.
     let mcp = mt_maskchg t;
         inconsistent = mask_is_inconsistent x signum uc omask mcp;
         omask = effective_mask mcp inconsistent omask;
         t = t\<lparr> mt_intrmask := omask OR blocked_by_signal \<rparr>;
         t = set_ring r ((mt_rings t ! r)\<lparr> r_lgen := r_lgen (mt_rings t ! oldr) \<rparr>) t
     in
     cbind (log_interrupted_maskchg x r (idepth + 1) mcp inconsistent t) (\<lambda>t.
     cbind (log_entersig x signum s r t) (\<lambda>t.
     Inr (oldr, r, it, omask, idepth, t))))))))"

text \<open>The wrapper from the return of the program's handler on.\<close>

definition handler_exit :: "sigctx \<Rightarrow> rid \<Rightarrow> rid \<Rightarrow> nat \<Rightarrow> u64 \<Rightarrow> u32 \<Rightarrow> mthread \<Rightarrow> mthread cres" where
  "handler_exit x oldr r it omask idepth t =
     (let t = set_ring oldr ((mt_rings t ! oldr)\<lparr> r_lgen := r_lgen (mt_rings t ! r) \<rparr>) t;
          t = t\<lparr> mt_cur := oldr \<rparr>
      in
      cbind (rvp_buf_put_voidptr RVP_BUF_INITIALIZER
               (deltop_or_null (rvp_vec_and_op_to_deltop (rt_base (sc_rt x)) 0 RVP_OP_EXITSIG))) (\<lambda>b.
      cbind (put_on r b t) (\<lambda>t.
      let t = close_interruption oldr it (int (r_producer (mt_rings t ! r))) t in
      cbind (rvp_signal_ring_put r t) (\<lambda>t.
      Inr (t\<lparr> mt_intrmask := omask, mt_idepth := idepth \<rparr>)))))"

text \<open>\<open>code\<close> is what the program's handlers do: the function at an address, called for a signal.\<close>

definition call_handler :: "(u64 \<Rightarrow> int \<Rightarrow> mthread \<Rightarrow> mthread cres) \<Rightarrow> rvp_signal \<Rightarrow> int \<Rightarrow> mthread \<Rightarrow> mthread cres" where
  "call_handler code s signum t =
     (if s_sigaction s \<noteq> 0 then code (s_sigaction s) signum t
      else if s_handler s \<noteq> 0 then code (s_handler s) signum t else Inl Undefined)"

definition handler_wrapper ::
    "sigctx \<Rightarrow> (u64 \<Rightarrow> int \<Rightarrow> mthread \<Rightarrow> mthread cres) \<Rightarrow> int \<Rightarrow> sigset \<Rightarrow> mthread \<Rightarrow> mthread cres" where
  "handler_wrapper x code signum uc t =
     cbind (signal_rec signum (rvp_signal_lookup signum t) t) (\<lambda>s.
     cbind (handler_enter x signum uc s t) (\<lambda>(oldr, r, it, omask, idepth, t).
     cbind (call_handler code s signum t) (\<lambda>t.
     handler_exit x oldr r it omask idepth t)))"

section \<open>sigaction and signal\<close>

text \<open>
  \<open>sa_fn\<close> is \<open>sa_handler\<close> and \<open>sa_sigaction\<close>, which share their place. The numbers are those of
  Linux.
\<close>

record sigaction =
  sa_fn :: u64
  sa_mask :: sigset
  sa_flags :: u32

definition SA_SIGINFO :: u32 where "SA_SIGINFO = 4"
definition SA_RESTART :: u32 where "SA_RESTART = 0x10000000"
definition SA_NODEFER :: u32 where "SA_NODEFER = 0x40000000"
definition SA_RESETHAND :: u32 where "SA_RESETHAND = 0x80000000"
definition SIG_DFL :: u64 where "SIG_DFL = 0"
definition SIG_IGN :: u64 where "SIG_IGN = 1"
definition SIG_ERR :: u64 where "SIG_ERR = - 1"
definition RVP_INFO_SIGNUM :: int where "RVP_INFO_SIGNUM = 30"

text \<open>
  The C library's functions: the locks of the signals and \<open>sigaction\<close>, which gives its return value,
  \<open>errno\<close> and the old action; and the addresses of the runtime's handlers.
\<close>

record sigfns =
  sf_lock :: "int \<Rightarrow> mthread \<Rightarrow> (int \<times> mthread) cres"
  sf_unlock :: "int \<Rightarrow> mthread \<Rightarrow> (int \<times> mthread) cres"
  sf_sigaction :: "int \<Rightarrow> sigaction option \<Rightarrow> mthread \<Rightarrow> (int \<times> int \<times> sigaction \<times> mthread) cres"
  sf_wrapper :: u64
  sf_siginfo :: u64

definition rvp_signal_lock :: "sigctx \<Rightarrow> sigfns \<Rightarrow> int \<Rightarrow> mthread \<Rightarrow> (sigset \<times> mthread) cres" where
  "rvp_signal_lock x k signum t =
     (let (rc, s) = sigaddset (sc_plat x) sigemptyset signum in
      if rc \<noteq> 0 then Inl Exited
      else cbind (sc_sigmask x SIG_BLOCK (Some s) t) (\<lambda>(rc, oldmask, t).
        if rc \<noteq> 0 then Inl Exited
        else cbind (sf_lock k signum t) (\<lambda>(rc, t). if rc \<noteq> 0 then Inl Exited else Inr (oldmask, t))))"

definition rvp_signal_unlock :: "sigctx \<Rightarrow> sigfns \<Rightarrow> int \<Rightarrow> sigset \<Rightarrow> mthread \<Rightarrow> mthread cres" where
  "rvp_signal_unlock x k signum oldmask t =
     cbind (sf_unlock k signum t) (\<lambda>(rc, t).
       if rc \<noteq> 0 then Inl Exited
       else cbind (sc_sigmask x SIG_SETMASK (Some oldmask) t) (\<lambda>(rc, _, t). if rc \<noteq> 0 then Inl Exited else Inr t))"

definition is_siginfo :: "sigaction option \<Rightarrow> bool" where
  "is_siginfo act = (case act of None \<Rightarrow> False | Some a \<Rightarrow> sa_flags a AND SA_SIGINFO \<noteq> 0)"

definition is_establishing :: "sigaction option \<Rightarrow> bool" where
  "is_establishing act = (case act of None \<Rightarrow> False
     | Some a \<Rightarrow> is_siginfo act \<or> (sa_fn a \<noteq> SIG_IGN \<and> sa_fn a \<noteq> SIG_DFL))"

text \<open>The action that the operating system is given, and the flags of the program's handler.\<close>

definition wrapper_action :: "sigfns \<Rightarrow> sigaction \<Rightarrow> sigaction \<times> u32" where
  "wrapper_action k a =
     (let fl = sa_flags a OR SA_SIGINFO; both = fl AND (SA_RESETHAND OR SA_NODEFER) in
      if both = SA_RESETHAND OR SA_NODEFER
      then (a\<lparr> sa_fn := sf_wrapper k, sa_flags := fl AND NOT SA_NODEFER \<rparr>,
            RVP_SIGNAL_F_LOG_RESETHAND OR RVP_SIGNAL_F_FAKING_NODEFER)
      else if both = SA_RESETHAND
      then (a\<lparr> sa_fn := sf_wrapper k, sa_flags := fl \<rparr>, RVP_SIGNAL_F_LOG_RESETHAND)
      else (a\<lparr> sa_fn := sf_wrapper k, sa_flags := fl \<rparr>, 0))"

text \<open>Up to the label \<open>out\<close>: the record of the program's handler, and the event.\<close>

definition sigaction_record ::
    "sigctx \<Rightarrow> sigfns \<Rightarrow> int \<Rightarrow> sigaction \<Rightarrow> u64 \<Rightarrow> mthread \<Rightarrow> (nat \<times> sigaction \<times> mthread) cres" where
  "sigaction_record x k signum a retaddr t =
     (let siginfo = is_siginfo (Some a);
          s = rvp_signal_alternate_lookup signum t;
          r = \<lparr> s_blockset = None, s_handler = if siginfo then 0 else sa_fn a,
                s_sigaction = if siginfo then sa_fn a else 0, s_flags = 0 \<rparr>;
          t = set_signal_rec signum s r t
      in if \<not> siginfo \<and> \<not> is_establishing (Some a)
         then cbind (rvp_trace_sigdis x signum retaddr t) (\<lambda>t. Inr (s, a, t))
         else let m = (if sa_flags a AND SA_NODEFER = 0 then snd (sigaddset (sc_plat x) (sa_mask a) signum) else sa_mask a) in
           cbind (intern_sigset x m t) (\<lambda>(bs, t).
           let r = r\<lparr> s_blockset := Some bs \<rparr>; t = set_signal_rec signum s r t in
           cbind (memo_at (mt_sets t) bs) (\<lambda>memo.
           cbind (rvp_trace_sigest x signum (sa_fn a) (bs_number memo) retaddr t) (\<lambda>t.
           let (a, fl) = wrapper_action k a in
           Inr (s, a, set_signal_rec signum s (r\<lparr> s_flags := fl \<rparr>) t)))))"

text \<open>From there to the label \<open>null_act\<close>.\<close>

definition sigaction_select ::
    "sigfns \<Rightarrow> int \<Rightarrow> nat \<times> sigaction \<times> mthread \<Rightarrow> (nat option \<times> sigaction \<times> mthread) cres" where
  "sigaction_select k signum = (\<lambda>(s, a, t).
     let (old, t) = rvp_signal_select_alternate signum s t in
     if signum = RVP_INFO_SIGNUM \<and> \<not> is_siginfo (Some a)
     then cbind (signal_rec signum old t) (\<lambda>r.
       Inr (old, if s_handler r = SIG_DFL then a\<lparr> sa_fn := sf_siginfo k \<rparr> else a, t))
     else Inr (old, a, t))"

definition sigaction_impl ::
    "sigctx \<Rightarrow> sigfns \<Rightarrow> int \<Rightarrow> sigaction option \<Rightarrow> bool \<Rightarrow> u64 \<Rightarrow> mthread \<Rightarrow> (int \<times> int \<times> sigaction \<times> mthread) cres" where
  "sigaction_impl x k signum act want retaddr t =
     cbind (if \<not> is_establishing act then rvp_sigsim_disestablish x signum t else Inr t) (\<lambda>t.
     cbind (rvp_signal_lock x k signum t) (\<lambda>(savedmask, t).
     cbind (case act of None \<Rightarrow> Inr (rvp_signal_lookup signum t, None, t)
            | Some a \<Rightarrow> cbind (cbind (sigaction_record x k signum a retaddr t) (sigaction_select k signum)) (\<lambda>(s, a, t).
                Inr (s, Some a, t))) (\<lambda>(s, act', t).
     cbind (sf_sigaction k signum act' t) (\<lambda>(rc, errno, oact, t).
     cbind (if is_establishing act then rvp_sigsim_establish x signum t else Inr t) (\<lambda>t.
     cbind (if want \<and> is_siginfo (Some oact) \<and> sa_fn oact = sf_wrapper k
            then cbind (signal_rec signum s t) (\<lambda>r.
              Inr (if s_sigaction r \<noteq> 0
                   then oact\<lparr> sa_flags := sa_flags oact OR SA_SIGINFO, sa_fn := s_sigaction r \<rparr>
                   else oact\<lparr> sa_flags := sa_flags oact AND NOT SA_SIGINFO, sa_fn := s_handler r \<rparr>))
            else Inr oact) (\<lambda>oact.
     cbind (rvp_signal_unlock x k signum savedmask t) (\<lambda>t.
     Inr (rc, errno, oact, t))))))))"

text \<open>22 is \<open>EINVAL\<close>.\<close>

definition signal_common :: "sigctx \<Rightarrow> sigfns \<Rightarrow> int \<Rightarrow> u32 \<Rightarrow> u64 \<Rightarrow> u64 \<Rightarrow> mthread \<Rightarrow> (u64 \<times> mthread) cres" where
  "signal_common x k signo flags handler retaddr t =
     cbind (sigaction_impl x k signo (Some \<lparr> sa_fn = handler, sa_mask = sigemptyset, sa_flags = flags \<rparr>) True retaddr t)
       (\<lambda>(rc, errno, osa, t).
         if rc = -1 then (if errno \<noteq> 22 then Inl Exited else Inr (SIG_ERR, t)) else Inr (sa_fn osa, t))"

definition rvpredict_sysv_signal :: "sigctx \<Rightarrow> sigfns \<Rightarrow> int \<Rightarrow> u64 \<Rightarrow> u64 \<Rightarrow> mthread \<Rightarrow> (u64 \<times> mthread) cres" where
  "rvpredict_sysv_signal x k signo handler retaddr = signal_common x k signo (SA_RESETHAND OR SA_NODEFER) handler retaddr"

definition rvpredict_signal :: "sigctx \<Rightarrow> sigfns \<Rightarrow> int \<Rightarrow> u64 \<Rightarrow> u64 \<Rightarrow> mthread \<Rightarrow> (u64 \<times> mthread) cres" where
  "rvpredict_signal x k signo handler retaddr = signal_common x k signo SA_RESTART handler retaddr"

end
