(* ===== verification/Handler_Laws.thy ===== *)
theory Handler_Laws
  imports Handler Sigmask_Laws
begin

text \<open>
  What a handler does to the rings and to the mask of its thread, and how a change of mask that it
  interrupts is logged.
\<close>

section \<open>Acquiring a ring\<close>

text \<open>The rings of a list of linked rings, in order.\<close>

fun ring_list :: "rings \<Rightarrow> rid option \<Rightarrow> rid list \<Rightarrow> bool" where
    "ring_list rs q [] \<longleftrightarrow> q = None"
  | "ring_list rs q (i # is) \<longleftrightarrow> q = Some i \<and> i < length rs \<and> ring_list rs (r_next (rs ! i)) is"

definition ring_fits :: "u32 \<Rightarrow> u32 \<Rightarrow> rvp_ring \<Rightarrow> bool" where
  "ring_fits tid d r \<longleftrightarrow> r_state r = RVP_RING_S_DIRTY \<and> r_tid r = tid \<and> r_idepth r = d"

text \<open>A dirty ring of the same thread and depth, or else a clean one.\<close>

definition choose_ring :: "u32 \<Rightarrow> u32 \<Rightarrow> rings \<Rightarrow> rid list \<Rightarrow> rid option" where
  "choose_ring tid d rs is =
     (case find (\<lambda>i. ring_fits tid d (rs ! i)) is of Some i \<Rightarrow> Some i
      | None \<Rightarrow> find (\<lambda>i. r_state (rs ! i) = RVP_RING_S_CLEAN) is)"

definition taken :: "u32 \<Rightarrow> u32 \<Rightarrow> rvp_ring_stats \<Rightarrow> rvp_ring \<Rightarrow> rvp_ring" where
  "taken tid d st r = r\<lparr> r_state := RVP_RING_S_INUSE, r_tid := tid, r_idepth := d, r_stats := st \<rparr>"

lemma ring_state_same: "r_state r = st \<Longrightarrow> r\<lparr> r_state := st \<rparr> = r"
  by (cases r) simp

lemma ring_fits_taken:
  "ring_fits tid d r \<Longrightarrow> r\<lparr> r_state := RVP_RING_S_INUSE, r_stats := st \<rparr> = taken tid d st r"
  by (cases r) (simp add: ring_fits_def taken_def)

lemma scan_dirty_find:
  "ring_list rs q is \<Longrightarrow> scan_dirty tid d st q rs =
     Some (case find (\<lambda>i. ring_fits tid d (rs ! i)) is of None \<Rightarrow> (None, rs)
           | Some i \<Rightarrow> (Some i, rs[i := taken tid d st (rs ! i)]))"
proof (induction "is" arbitrary: q)
  case Nil
  then show ?case by (simp add: scan_dirty.simps)
next
  case (Cons i "is")
  let ?r = "rs ! i"
  have q: "q = Some i" "i < length rs" and IH: "scan_dirty tid d st (r_next ?r) rs =
     Some (case find (\<lambda>i. ring_fits tid d (rs ! i)) is of None \<Rightarrow> (None, rs)
           | Some i \<Rightarrow> (Some i, rs[i := taken tid d st (rs ! i)]))"
    using Cons by simp_all
  show ?case
  proof (cases "ring_fits tid d ?r")
    case True
    then have "r_state ?r = RVP_RING_S_DIRTY" "r_tid ?r = tid" "r_idepth ?r = d" by (simp_all add: ring_fits_def)
    then show ?thesis using True q by (subst scan_dirty.simps) (simp add: ring_fits_taken)
  next
    case False
    then have "r_state ?r \<noteq> RVP_RING_S_DIRTY \<or> \<not> (r_tid ?r = tid \<and> r_idepth ?r = d)" by (auto simp: ring_fits_def)
    then show ?thesis using False q IH
      by (subst scan_dirty.simps) (auto simp: Let_def ring_state_same)
  qed
qed

lemma scan_clean_find:
  "ring_list rs q is \<Longrightarrow> scan_clean tid d st q rs =
     Some (case find (\<lambda>i. r_state (rs ! i) = RVP_RING_S_CLEAN) is of None \<Rightarrow> (None, rs)
           | Some i \<Rightarrow> (Some i, rs[i := taken tid d st (rs ! i)]))"
proof (induction "is" arbitrary: q)
  case Nil
  then show ?case by (simp add: scan_clean.simps)
next
  case (Cons i "is")
  then show ?case by (subst scan_clean.simps) (simp add: Let_def taken_def)
qed

lemma acquire_chosen:
  assumes "ring_list (mt_rings t) (mt_signal_rings t) is" "choose_ring (mt_id t) d (mt_rings t) is = Some i" "0 < d"
  shows "rvp_signal_ring_acquire d t =
    Inr (i, t\<lparr> mt_rings := (mt_rings t)[i := taken (mt_id t) d (mt_stats t) (mt_rings t ! i)] \<rparr>)"
  using assms
  by (simp add: rvp_signal_ring_acquire_def rvp_signal_ring_acquire_scan_def scan_dirty_find [OF assms(1)]
      scan_clean_find [OF assms(1)] choose_ring_def returned_def split: option.splits)

section \<open>Events of handlers\<close>

lemma put_on_push:
  assumes "quiet_room (length ws) (env_on i t)" "ws \<noteq> []" "length ws \<le> 20"
  shows "\<exists>e. put_on i (buf_of ws) t = Inr (set_env_on i e t) \<and> pushed (env_on i t) ws e"
  using ring_put_words_push [OF assms] assms(3) by (auto simp: put_on_def ring_put_buf_of)

text \<open>The words of an interrupted change of mask: its event at its own depth.\<close>

definition interrupted_words :: "u64 \<Rightarrow> rvp_maskchg \<Rightarrow> u32 \<Rightarrow> u32 list" where
  "interrupted_words base mc d =
     op_words base RVP_OP_SIGDEPTH @ [mc_idepth mc] @ buf_words (mc_buf mc) @ op_words base RVP_OP_SIGDEPTH @ [d]"

definition handler_of :: "rvp_signal \<Rightarrow> u64" where
  "handler_of s = (if s_handler s \<noteq> 0 then s_handler s else s_sigaction s)"

definition entersig_words :: "u64 \<Rightarrow> rvp_signal \<Rightarrow> int \<Rightarrow> u64 \<Rightarrow> u32 list" where
  "entersig_words base s signum gen =
     op_words base RVP_OP_ENTERSIG @ fval_words (VAddr (handler_of s)) @ fval_words (V64 gen) @ [word_of_int signum] @
     (if s_flags s AND RVP_SIGNAL_F_LOG_RESETHAND \<noteq> 0
      then pc_op_words base (deltop_of base 0 RVP_OP_BEGIN) (handler_of s) RVP_OP_SIGDIS @ [word_of_int signum] else [])"

lemma length_entersig_words: "length (entersig_words base s signum gen) \<le> 12" "entersig_words base s signum gen \<noteq> []"
proof -
  have "length (pc_op_words base (deltop_of base 0 RVP_OP_BEGIN) (handler_of s) RVP_OP_SIGDIS) \<le> 4"
    by (rule length_pc_op_words_le)
  then show "length (entersig_words base s signum gen) \<le> 12" by (simp add: entersig_words_def)
  show "entersig_words base s signum gen \<noteq> []" by (simp add: entersig_words_def)
qed

lemma put_buf_append: "length ws + length vs \<le> 20 \<Longrightarrow> rvp_buf_put_buf (buf_of ws) (buf_of vs) = Inr (buf_of (ws @ vs))"
  using put_buf_of_buf [of ws vs] by (simp add: put_words_def)

lemma put_word: "length ws < 20 \<Longrightarrow> rvp_buf_put (buf_of ws) w = Inr (buf_of (ws @ [w]))"
  by (simp add: put_buf_of put_words_def)

lemma put_deltop:
  "deltops_fit base \<Longrightarrow> length ws \<le> 18 \<Longrightarrow>
   rvp_buf_put_voidptr (buf_of ws) (deltop_or_null (rvp_vec_and_op_to_deltop base 0 op)) = Inr (buf_of (ws @ op_words base op))"
  by (simp add: deltop0 deltop_or_null_def put_voidptr_of put_words_def op_words_def)

lemma buffer_interrupted_words:
  assumes "deltops_fit (rt_base (sc_rt x))" "mc_buf mc = buf_of vs" "length vs \<le> 14"
  shows "buffer_interrupted_maskchg x mc d = Inr (buf_of (interrupted_words (rt_base (sc_rt x)) mc d))"
  using assms
  by (simp add: buffer_interrupted_maskchg_def put_deltop [of _ "[]", simplified] put_deltop put_word put_buf_append
      interrupted_words_def Let_def)

lemma buffer_entersig_words:
  assumes "deltops_fit (rt_base (sc_rt x))" "r_lastpc (e_ring e) = deltop_of (rt_base (sc_rt x)) 0 RVP_OP_BEGIN"
  shows "\<exists>pc. buffer_entersig x signum s e =
    Inr (buf_of (entersig_words (rt_base (sc_rt x)) s signum (r_lgen (e_ring e))), set_lastpc pc e)"
proof -
  have "length (pc_op_words (rt_base (sc_rt x)) (deltop_of (rt_base (sc_rt x)) 0 RVP_OP_BEGIN) (handler_of s) RVP_OP_SIGDIS) \<le> 4"
    by (rule length_pc_op_words_le)
  then show ?thesis
    using assms
    by (cases "s_flags s AND RVP_SIGNAL_F_LOG_RESETHAND \<noteq> 0")
       (auto simp: buffer_entersig_def deltop0 deltop_or_null_def put_vals_of env_put_pc_and_op_of
          entersig_words_def op_words_def Let_def handler_of_def [symmetric] set_lastpc_def
          intro: exI [of _ "r_lastpc (e_ring e)"])
qed

section \<open>Into a handler\<close>

definition blocked_by :: "sigctx \<Rightarrow> rvp_signal \<Rightarrow> mthread \<Rightarrow> u64" where
  "blocked_by x s t = (case s_blockset s of None \<Rightarrow> 0
     | Some a \<Rightarrow> the_mask x (Some (bs_sigset (sb_mem (mt_sets t) ! a))) AND NOT (sc_unmaskable x))"

text \<open>The change of mask, if any, that took effect before the signal and was not logged.\<close>

definition interrupted_change :: "sigctx \<Rightarrow> int \<Rightarrow> sigset \<Rightarrow> mthread \<Rightarrow> rvp_maskchg option" where
  "interrupted_change x signum uc t =
     (if mask_is_inconsistent x signum uc (mt_intrmask t) (mt_maskchg t) then map_option snd (mt_maskchg t) else None)"

definition entered_mask :: "sigctx \<Rightarrow> int \<Rightarrow> sigset \<Rightarrow> mthread \<Rightarrow> u64" where
  "entered_mask x signum uc t =
     (case interrupted_change x signum uc t of None \<Rightarrow> mt_intrmask t | Some mc \<Rightarrow> mc_nmask mc)"

definition change_words :: "sigctx \<Rightarrow> int \<Rightarrow> sigset \<Rightarrow> mthread \<Rightarrow> u32 list" where
  "change_words x signum uc t =
     (case interrupted_change x signum uc t of None \<Rightarrow> []
      | Some mc \<Rightarrow> interrupted_words (rt_base (sc_rt x)) mc (mt_idepth t + 1))"

text \<open>The interruption as its ring has it until the handler returns.\<close>

definition interrupted_ring :: "rid \<Rightarrow> mthread \<Rightarrow> rvp_ring" where
  "interrupted_ring r t = fst (put_interruption_store (mt_rings t ! mt_cur t) r (int (r_producer (mt_rings t ! r))))"

text \<open>How things are when the program's handler starts.\<close>

definition handler_starts :: "sigctx \<Rightarrow> rvp_signal \<Rightarrow> int \<Rightarrow> sigset \<Rightarrow> rid \<Rightarrow> mthread \<Rightarrow> mthread \<Rightarrow> bool" where
  "handler_starts x s signum uc r t t2 \<longleftrightarrow>
     mt_cur t2 = r \<and> mt_idepth t2 = mt_idepth t + 1 \<and> mt_os t2 = mt_os t \<and> mt_sim t2 = mt_sim t \<and>
     mt_intrmask t2 = entered_mask x signum uc t OR blocked_by x s t \<and>
     mt_maskchg t2 = (if interrupted_change x signum uc t = None then mt_maskchg t else None) \<and>
     length (mt_rings t2) = length (mt_rings t) \<and> mt_rings t2 ! mt_cur t = interrupted_ring r t \<and>
     r_state (mt_rings t2 ! r) = RVP_RING_S_INUSE \<and> r_idepth (mt_rings t2 ! r) = mt_idepth t + 1 \<and>
     quiet_room 2 (env_on r t2) \<and>
     ring_contents (mt_rings t2 ! r) = ring_contents (mt_rings t ! r) @ change_words x signum uc t @
       entersig_words (rt_base (sc_rt x)) s signum (r_lgen (mt_rings t ! mt_cur t))"

text \<open>The conditions: a ring for the handler, and room on both rings.\<close>

definition handler_can_start :: "sigctx \<Rightarrow> rvp_signal \<Rightarrow> rid list \<Rightarrow> rid \<Rightarrow> mthread \<Rightarrow> bool" where
  "handler_can_start x s is r t \<longleftrightarrow>
     sigctx_ok x \<and> s_flags s AND RVP_SIGNAL_F_FAKING_NODEFER = 0 \<and>
     (\<exists>a. s_blockset s = Some a \<and> a < length (sb_mem (mt_sets t))) \<and>
     ring_list (mt_rings t) (mt_signal_rings t) is \<and> mt_idepth t + 1 \<noteq> 0 \<and>
     choose_ring (mt_id t) (mt_idepth t + 1) (mt_rings t) is = Some r \<and> r \<noteq> mt_cur t \<and>
     mt_cur t < length (mt_rings t) \<and> r < length (mt_rings t) \<and>
     iring_ok (r_iring (mt_rings t ! mt_cur t)) \<and> 1 \<le> rvp_iring_nempty (r_iring (mt_rings t ! mt_cur t)) \<and>
     quiet_room 34 (env_on r t) \<and>
     (\<forall>a mc. mt_maskchg t = Some (a, mc) \<longrightarrow> (\<exists>vs. mc_buf mc = buf_of vs \<and> length vs \<le> 14))"

lemma quiet_room_env:
  "quiet_room n (env_on i t) \<longleftrightarrow> ring_ok (mt_rings t ! i) \<and> e_log2_nthreads (mt_env t) < 31 \<and>
     e_obs (mt_env t) = [] \<and> int n \<le> rvp_ring_nempty (mt_rings t ! i)"
  by (auto simp: quiet_room_def env_ok_def env_on_def)

lemma put_on_state:
  assumes "quiet_room (length ws + n) (env_on i t)" "i < length (mt_rings t)" "ws \<noteq> []" "length ws \<le> 20"
  shows "\<exists>e. put_on i (buf_of ws) t =
      Inr (t\<lparr> mt_env := e, mt_rings := (mt_rings t)[i := ring_push (mt_rings t ! i) ws] \<rparr>) \<and>
    e_obs e = [] \<and> e_log2_nthreads e < 31 \<and> int n \<le> rvp_ring_nempty (ring_push (mt_rings t ! i) ws) \<and>
    ring_contents (ring_push (mt_rings t ! i) ws) = ring_contents (mt_rings t ! i) @ ws"
proof -
  have q: "quiet_room (length ws) (env_on i t)" by (rule quiet_room_less [OF assms(1)]) simp
  obtain e where e: "put_on i (buf_of ws) t = Inr (set_env_on i e t)" "pushed (env_on i t) ws e"
    using put_on_push [OF q assms(3,4)] by blast
  have "e_ring e = ring_push (mt_rings t ! i) ws" "e_obs e = []" "e_log2_nthreads e < 31"
    using e(2) by (simp_all add: pushed_def env_ok_def)
  moreover have "int n \<le> rvp_ring_nempty (ring_push (mt_rings t ! i) ws)"
    using pushed_room [OF assms(1) e(2)] calculation(1) by (simp add: quiet_room_def)
  moreover have "ring_contents (ring_push (mt_rings t ! i) ws) = ring_contents (mt_rings t ! i) @ ws"
    using quiet_room_contents [OF q] by simp
  ultimately show ?thesis using e(1) by (auto simp: set_env_on_def)
qed

lemma ring_push_state [simp]: "r_state (ring_push r ws) = r_state r"
  by (simp add: ring_push_def)

lemma log_entersig_state:
  assumes "sigctx_ok x" "quiet_room (12 + n) (env_on r t)" "r < length (mt_rings t)"
  shows "\<exists>e q. log_entersig x signum s r t = Inr (t\<lparr> mt_env := e, mt_rings := (mt_rings t)[r := q] \<rparr>) \<and>
    e_obs e = [] \<and> e_log2_nthreads e < 31 \<and> ring_ok q \<and> int n \<le> rvp_ring_nempty q \<and>
    ring_contents q = ring_contents (mt_rings t ! r) @ entersig_words (rt_base (sc_rt x)) s signum (r_lgen (mt_rings t ! r)) \<and>
    r_state q = r_state (mt_rings t ! r) \<and> r_idepth q = r_idepth (mt_rings t ! r)"
proof -
  let ?base = "rt_base (sc_rt x)"
  have base: "deltops_fit ?base" using assms(1) by (simp add: sigctx_ok_def)
  define t1 where "t1 = rvp_ring_reset_pc x r t"
  have t1: "t1 = set_env_on r (set_lastpc (deltop_of ?base 0 RVP_OP_BEGIN) (env_on r t)) t"
    using assms(1) by (simp add: t1_def reset_pc_eq)
  have env: "env_on r t1 = set_lastpc (deltop_of ?base 0 RVP_OP_BEGIN) (env_on r t)"
    using assms(3) by (simp add: t1)
  let ?ws = "entersig_words ?base s signum (r_lgen (mt_rings t ! r))"
  obtain pc where b: "buffer_entersig x signum s (env_on r t1) = Inr (buf_of ?ws, set_lastpc pc (env_on r t1))"
    using buffer_entersig_words [OF base, of "env_on r t1" signum s] by (auto simp: env)
  define t2 where "t2 = set_env_on r (set_lastpc pc (env_on r t1)) t1"
  have rings: "mt_rings t2 = (mt_rings t)[r := (mt_rings t ! r)\<lparr> r_lastpc := pc \<rparr>]"
    "e_obs (mt_env t2) = e_obs (mt_env t)" "e_log2_nthreads (mt_env t2) = e_log2_nthreads (mt_env t)"
    "\<And>e rs. t2\<lparr> mt_env := e, mt_rings := rs \<rparr> = t\<lparr> mt_env := e, mt_rings := rs \<rparr>"
    unfolding t2_def env by (simp_all add: t1 set_env_on_def set_lastpc_def env_on_def)
  have len: "length ?ws \<le> 12" "?ws \<noteq> []" by (rule length_entersig_words)+
  have "quiet_room (12 + n) (env_on r t2)" using assms(2,3) by (simp add: quiet_room_env rings)
  then have room: "quiet_room (length ?ws + n) (env_on r t2)" by (rule quiet_room_less) (use len in simp)
  obtain e where e: "put_on r (buf_of ?ws) t2 =
      Inr (t2\<lparr> mt_env := e, mt_rings := (mt_rings t2)[r := ring_push (mt_rings t2 ! r) ?ws] \<rparr>)"
    "e_obs e = []" "e_log2_nthreads e < 31" "int n \<le> rvp_ring_nempty (ring_push (mt_rings t2 ! r) ?ws)"
    "ring_contents (ring_push (mt_rings t2 ! r) ?ws) = ring_contents (mt_rings t2 ! r) @ ?ws"
    using put_on_state [OF room] assms(3) len by (auto simp: rings)
  have "log_entersig x signum s r t =
      Inr (t\<lparr> mt_env := e, mt_rings := (mt_rings t)[r := ring_push (mt_rings t2 ! r) ?ws] \<rparr>)"
    unfolding log_entersig_def Let_def t1_def [symmetric] b using e(1) assms(3)
    by (simp add: t2_def [symmetric] rings)
  moreover have "ring_ok (ring_push (mt_rings t2 ! r) ?ws)"
    using assms(2,3) by (simp add: quiet_room_env rings)
  ultimately show ?thesis using e assms(3)
    by (intro exI [of _ e] exI [of _ "ring_push (mt_rings t2 ! r) ?ws"]) (simp add: rings)
qed

lemma log_interrupted_state:
  fixes x :: sigctx and t :: mthread and b :: bool and d :: u32
  assumes "sigctx_ok x" "quiet_room (20 + n) (env_on r t)" "r < length (mt_rings t)"
    and "\<forall>a mc. mt_maskchg t = Some (a, mc) \<longrightarrow> (\<exists>vs. mc_buf mc = buf_of vs \<and> length vs \<le> 14)"
  defines "ws \<equiv> (case mt_maskchg t of Some (_, mc) \<Rightarrow> if b then interrupted_words (rt_base (sc_rt x)) mc d else [] | None \<Rightarrow> [])"
  shows "\<exists>e q. log_interrupted_maskchg x r d (mt_maskchg t) b t =
      Inr (t\<lparr> mt_env := e, mt_rings := (mt_rings t)[r := q], mt_maskchg := if b then None else mt_maskchg t \<rparr>) \<and>
    e_obs e = [] \<and> e_log2_nthreads e < 31 \<and> ring_ok q \<and> int n \<le> rvp_ring_nempty q \<and>
    ring_contents q = ring_contents (mt_rings t ! r) @ ws \<and> r_lgen q = r_lgen (mt_rings t ! r) \<and>
    r_state q = r_state (mt_rings t ! r) \<and> r_idepth q = r_idepth (mt_rings t ! r)"
proof (cases "b \<and> mt_maskchg t \<noteq> None")
  case True
  then obtain a mc vs where mc: "b" "mt_maskchg t = Some (a, mc)" "mc_buf mc = buf_of vs" "length vs \<le> 14"
    using assms(4) by fast
  have ws: "ws = interrupted_words (rt_base (sc_rt x)) mc d" using mc by (simp add: ws_def)
  have base: "deltops_fit (rt_base (sc_rt x))" using assms(1) by (simp add: sigctx_ok_def)
  have len: "length ws \<le> 20" "ws \<noteq> []" using mc by (simp_all add: ws interrupted_words_def)
  have room: "quiet_room (length ws + n) (env_on r t)" by (rule quiet_room_less [OF assms(2)]) (use len in simp)
  obtain e where e: "put_on r (buf_of ws) t =
      Inr (t\<lparr> mt_env := e, mt_rings := (mt_rings t)[r := ring_push (mt_rings t ! r) ws] \<rparr>)"
    "e_obs e = []" "e_log2_nthreads e < 31" "int n \<le> rvp_ring_nempty (ring_push (mt_rings t ! r) ws)"
    "ring_contents (ring_push (mt_rings t ! r) ws) = ring_contents (mt_rings t ! r) @ ws"
    using put_on_state [OF room assms(3) len(2,1)] by blast
  have "log_interrupted_maskchg x r d (mt_maskchg t) b t =
      Inr (t\<lparr> mt_env := e, mt_rings := (mt_rings t)[r := ring_push (mt_rings t ! r) ws], mt_maskchg := None \<rparr>)"
    using mc e(1) buffer_interrupted_words [OF base mc(3,4), of d] by (simp add: log_interrupted_maskchg_def ws)
  then show ?thesis using e assms(2) mc(1)
    by (intro exI [of _ e] exI [of _ "ring_push (mt_rings t ! r) ws"]) (simp add: quiet_room_env)
next
  case False
  then have "log_interrupted_maskchg x r d (mt_maskchg t) b t = Inr t" "ws = []"
    "(if b then None else mt_maskchg t) = mt_maskchg t"
    by (cases "mt_maskchg t"; auto simp: log_interrupted_maskchg_def ws_def)+
  moreover have "int n \<le> rvp_ring_nempty (mt_rings t ! r)" using assms(2) by (simp add: quiet_room_env)
  ultimately show ?thesis using assms(2)
    by (intro exI [of _ "mt_env t"] exI [of _ "mt_rings t ! r"]) (simp add: quiet_room_env)
qed

lemma interrupted_ring_simps:
  "r_lgen (interrupted_ring r t) = r_lgen (mt_rings t ! mt_cur t)"
  "ring_contents (interrupted_ring r t) = ring_contents (mt_rings t ! mt_cur t)"
  by (simp_all add: interrupted_ring_def put_interruption_store_def Let_def)

lemma put_interruption_room:
  "1 \<le> rvp_iring_nempty (r_iring (e_ring e)) \<Longrightarrow>
   rvp_ring_put_interruption e r sidx =
     Inr (e\<lparr> e_ring := fst (put_interruption_store (e_ring e) r sidx) \<rparr>, ir_producer (r_iring (e_ring e)))"
  by (simp add: rvp_ring_put_interruption_def put_interruption_store_def Let_def)

lemma handler_enter_starts:
  assumes ok: "handler_can_start x s is r t"
  shows "\<exists>t2. handler_enter x signum uc s t =
      Inr (mt_cur t, r, ir_producer (r_iring (mt_rings t ! mt_cur t)), entered_mask x signum uc t, mt_idepth t, t2) \<and>
    handler_starts x s signum uc r t t2"
proof -
  let ?d = "mt_idepth t + 1" and ?o = "mt_cur t" and ?om = "mt_intrmask t"
  obtain a where a: "s_blockset s = Some a" "a < length (sb_mem (mt_sets t))"
    using ok by (auto simp: handler_can_start_def)
  have x: "sigctx_ok x" and nf: "s_flags s AND RVP_SIGNAL_F_FAKING_NODEFER = 0" and d: "0 < ?d"
    and ro: "r \<noteq> ?o" "?o < length (mt_rings t)" "r < length (mt_rings t)"
    and ir: "1 \<le> rvp_iring_nempty (r_iring (mt_rings t ! ?o))" and room: "quiet_room 34 (env_on r t)"
    and bufs: "\<forall>a mc. mt_maskchg t = Some (a, mc) \<longrightarrow> (\<exists>vs. mc_buf mc = buf_of vs \<and> length vs \<le> 14)"
    and chain: "ring_list (mt_rings t) (mt_signal_rings t) is" "choose_ring (mt_id t) ?d (mt_rings t) is = Some r"
    using ok by (simp_all add: handler_can_start_def word_gt_0)
  have room': "e_obs (mt_env t) = []" "e_log2_nthreads (mt_env t) < 31" using room by (simp_all add: quiet_room_env)
  define q where "q = taken (mt_id t) ?d (mt_stats t) (mt_rings t ! r)"
  have q: "ring_ok q = ring_ok (mt_rings t ! r)" "ring_contents q = ring_contents (mt_rings t ! r)"
    "rvp_ring_nempty q = rvp_ring_nempty (mt_rings t ! r)" "r_state q = RVP_RING_S_INUSE" "r_idepth q = ?d"
    "r_producer q = r_producer (mt_rings t ! r)"
    by (simp_all add: q_def taken_def) (simp_all add: ring_ok_def ring_contents_def rvp_ring_nempty_def rvp_ring_capacity_def rvp_ring_nfull_def)
  let ?rs = "(mt_rings t)[r := q]"
  have acq: "rvp_signal_ring_acquire ?d (t\<lparr> mt_idepth := ?d \<rparr>) = Inr (r, t\<lparr> mt_idepth := ?d, mt_rings := ?rs \<rparr>)"
    using acquire_chosen [of "t\<lparr> mt_idepth := ?d \<rparr>" "is" ?d r] chain d by (simp add: q_def)
  define t1 where "t1 = t\<lparr> mt_idepth := ?d, mt_rings := ?rs, mt_cur := r \<rparr>"
  have old: "mt_rings t1 ! ?o = mt_rings t ! ?o" "mt_rings t1 ! r = q" using ro by (simp_all add: t1_def)
  let ?e = "(env_on ?o t1)\<lparr> e_ring := interrupted_ring r t \<rparr>"
  have int: "rvp_ring_put_interruption (env_on ?o t1) r (int (r_producer q)) = Inr (?e, ir_producer (r_iring (mt_rings t ! ?o)))"
    using put_interruption_room [of "env_on ?o t1" r "int (r_producer q)"] ir old
    by (simp add: interrupted_ring_def q(6))
  define t2 where "t2 = set_env_on ?o ?e t1"
  let ?rs2 = "?rs[?o := interrupted_ring r t]"
  have sets: "mt_sets t2 = mt_sets t" "mt_maskchg t2 = mt_maskchg t" by (simp_all add: t2_def t1_def set_env_on_def)
  let ?b = "mask_is_inconsistent x signum uc ?om (mt_maskchg t)"
  define t3 where "t3 = set_ring r (q\<lparr> r_lgen := r_lgen (mt_rings t ! ?o) \<rparr>)
    (t2\<lparr> mt_intrmask := entered_mask x signum uc t OR blocked_by x s t \<rparr>)"
  have t3: "mt_rings t3 = (mt_rings t)[r := q\<lparr> r_lgen := r_lgen (mt_rings t ! ?o) \<rparr>, ?o := interrupted_ring r t]"
    "mt_maskchg t3 = mt_maskchg t" "e_obs (mt_env t3) = []" "e_log2_nthreads (mt_env t3) < 31" "mt_cur t3 = r" "mt_idepth t3 = ?d" "mt_os t3 = mt_os t" "mt_sim t3 = mt_sim t"
    "mt_intrmask t3 = entered_mask x signum uc t OR blocked_by x s t"
    using ro room' by (simp_all add: t3_def t2_def t1_def set_ring_def set_env_on_def env_on_def list_update_swap [of ?o r])
  have q3: "mt_rings t3 ! r = q\<lparr> r_lgen := r_lgen (mt_rings t ! ?o) \<rparr>" using ro by (simp add: t3)
  have "quiet_room (20 + 14) (env_on r t3)" using room unfolding quiet_room_env q3 by (simp add: q t3(3,4))
  from log_interrupted_state [OF x this, where b = ?b and d = ?d, unfolded t3(2) q3] ro(3) bufs
  have "\<exists>e4 q4. log_interrupted_maskchg x r ?d (mt_maskchg t) ?b t3 =
        Inr (t3\<lparr> mt_env := e4, mt_rings := (mt_rings t3)[r := q4], mt_maskchg := if ?b then None else mt_maskchg t \<rparr>) \<and>
      e_obs e4 = [] \<and> e_log2_nthreads e4 < 31 \<and> ring_ok q4 \<and> 14 \<le> rvp_ring_nempty q4 \<and>
      ring_contents q4 = ring_contents (mt_rings t ! r) @
        (case mt_maskchg t of Some (_, mc) \<Rightarrow> if ?b then interrupted_words (rt_base (sc_rt x)) mc ?d else [] | None \<Rightarrow> []) \<and>
      r_lgen q4 = r_lgen (mt_rings t ! ?o) \<and> r_state q4 = RVP_RING_S_INUSE \<and> r_idepth q4 = ?d"
    by (simp add: q t3(1))
  then obtain e4 q4 where
    log4: "log_interrupted_maskchg x r ?d (mt_maskchg t) ?b t3 =
      Inr (t3\<lparr> mt_env := e4, mt_rings := (mt_rings t3)[r := q4], mt_maskchg := if ?b then None else mt_maskchg t \<rparr>)"
    and e4: "e_obs e4 = []" "e_log2_nthreads e4 < 31" "ring_ok q4" "14 \<le> rvp_ring_nempty q4"
      "r_lgen q4 = r_lgen (mt_rings t ! ?o)" "r_state q4 = RVP_RING_S_INUSE" "r_idepth q4 = ?d"
    and c4: "ring_contents q4 = ring_contents (mt_rings t ! r) @
      (case mt_maskchg t of Some (_, mc) \<Rightarrow> if ?b then interrupted_words (rt_base (sc_rt x)) mc ?d else [] | None \<Rightarrow> [])"
    by blast
  define t4 where "t4 = t3\<lparr> mt_env := e4, mt_rings := (mt_rings t3)[r := q4], mt_maskchg := if ?b then None else mt_maskchg t \<rparr>"
  have t4: "mt_rings t4 ! r = q4" "length (mt_rings t4) = length (mt_rings t)" using ro by (simp_all add: t4_def t3)
  have "quiet_room (12 + 2) (env_on r t4)" using e4 by (simp add: quiet_room_env t4(1)) (simp add: t4_def)
  from log_entersig_state [OF x this, of signum s] ro obtain e5 q5 where
    log5: "log_entersig x signum s r t4 = Inr (t4\<lparr> mt_env := e5, mt_rings := (mt_rings t4)[r := q5] \<rparr>)"
    and e5: "e_obs e5 = []" "e_log2_nthreads e5 < 31" "ring_ok q5" "2 \<le> rvp_ring_nempty q5"
      "r_state q5 = RVP_RING_S_INUSE" "r_idepth q5 = ?d"
    and c5: "ring_contents q5 = ring_contents q4 @ entersig_words (rt_base (sc_rt x)) s signum (r_lgen (mt_rings t ! ?o))"
    by (auto simp: t4 e4)
  define t5 where "t5 = t4\<lparr> mt_env := e5, mt_rings := (mt_rings t4)[r := q5] \<rparr>"
  have t5: "mt_rings t5 ! r = q5" "mt_rings t5 ! ?o = interrupted_ring r t" "length (mt_rings t5) = length (mt_rings t)"
    using ro by (simp_all add: t5_def t4_def t3)
  have om: "effective_mask (mt_maskchg t) ?b ?om = entered_mask x signum uc t"
    by (auto simp: effective_mask_def entered_mask_def interrupted_change_def split: option.splits)
  have cw: "(case mt_maskchg t of Some (_, mc) \<Rightarrow> if ?b then interrupted_words (rt_base (sc_rt x)) mc ?d else [] | None \<Rightarrow> []) =
      change_words x signum uc t"
    by (auto simp: change_words_def interrupted_change_def split: option.splits)
  have ic: "interrupted_change x signum uc t = None \<longleftrightarrow> \<not> ?b"
    by (auto simp: interrupted_change_def mask_is_inconsistent_def)
  have bb: "the_mask x (Some (bs_sigset (sb_mem (mt_sets t) ! a))) AND NOT (sc_unmaskable x) = blocked_by x s t"
    using a(1) by (simp add: blocked_by_def)
  have t3': "set_ring r ((mt_rings t2 ! r)\<lparr> r_lgen := r_lgen (mt_rings t2 ! ?o) \<rparr>)
      (t2\<lparr> mt_intrmask := entered_mask x signum uc t OR blocked_by x s t \<rparr>) = t3"
    using ro by (simp add: t3_def t2_def t1_def set_env_on_def interrupted_ring_simps)
  have "handler_enter x signum uc s t = Inr (?o, r, ir_producer (r_iring (mt_rings t ! ?o)), entered_mask x signum uc t, mt_idepth t, t5)"
    using a nf
    by (simp add: handler_enter_def Let_def acq t1_def [symmetric] old(2) int t2_def [symmetric] memo_at_def sets bb om t3' log4
        t4_def [symmetric] log5 t5_def [symmetric] ro(3) del: cbind_eq_Inr)
  moreover have "handler_starts x s signum uc r t t5"
    unfolding handler_starts_def t5 c5 c4 cw ic using e5 t5(1)
    by (simp add: quiet_room_env) (simp add: t5_def t4_def t3)
  ultimately show ?thesis by blast
qed

section \<open>Out of a handler\<close>

text \<open>
  What the wrapper needs of the program's handler: it runs on the ring of its handler and leaves
  it in use with room for two words, and leaves the interrupted ring as it was.
\<close>

definition handler_ends :: "rid \<Rightarrow> mthread \<Rightarrow> mthread \<Rightarrow> mthread \<Rightarrow> bool" where
  "handler_ends r t t2 t3 \<longleftrightarrow>
     mt_cur t3 = r \<and> length (mt_rings t3) = length (mt_rings t) \<and> mt_rings t3 ! mt_cur t = mt_rings t2 ! mt_cur t \<and>
     r_state (mt_rings t3 ! r) = RVP_RING_S_INUSE \<and> quiet_room 2 (env_on r t3)"

lemma dirty_of_contents: "ring_contents r \<noteq> [] \<Longrightarrow> rvp_ring_is_dirty r"
proof (rule ccontr)
  assume "ring_contents r \<noteq> []" "\<not> rvp_ring_is_dirty r"
  then have "length (ring_contents r) = 0" by (simp add: rvp_ring_is_dirty_def)
  then show False using \<open>ring_contents r \<noteq> []\<close> by (simp only: length_0_conv)
qed

lemma close_interruption_item:
  assumes "i < length (mt_rings t)" "it < length (ir_items (r_iring (mt_rings t ! i)))"
  shows "ir_items (r_iring (mt_rings (close_interruption i it eidx t) ! i)) ! it =
      rvp_interruption_close (ir_items (r_iring (mt_rings t ! i)) ! it) eidx"
    "ring_contents (mt_rings (close_interruption i it eidx t) ! i) = ring_contents (mt_rings t ! i)"
    "\<And>j. j \<noteq> i \<Longrightarrow> mt_rings (close_interruption i it eidx t) ! j = mt_rings t ! j"
    "close_interruption i it eidx t = t\<lparr> mt_rings := mt_rings (close_interruption i it eidx t) \<rparr>"
    "length (mt_rings (close_interruption i it eidx t)) = length (mt_rings t)"
  using assms by (simp_all add: close_interruption_def set_ring_def Let_def)

lemma handler_exit_returns:
  assumes x: "sigctx_ok x" and o: "oldr \<noteq> r" "oldr < length (mt_rings t)" "r < length (mt_rings t)"
    and it: "it < length (ir_items (r_iring (mt_rings t ! oldr)))"
    and r: "r_state (mt_rings t ! r) = RVP_RING_S_INUSE" "quiet_room 2 (env_on r t)"
  shows "\<exists>t'. handler_exit x oldr r it om d t = Inr t' \<and>
    mt_cur t' = oldr \<and> mt_idepth t' = d \<and> mt_intrmask t' = om \<and> mt_maskchg t' = mt_maskchg t \<and> mt_os t' = mt_os t \<and> mt_sim t' = mt_sim t \<and>
    ring_contents (mt_rings t' ! r) = ring_contents (mt_rings t ! r) @ op_words (rt_base (sc_rt x)) RVP_OP_EXITSIG \<and>
    r_state (mt_rings t' ! r) = RVP_RING_S_DIRTY \<and>
    ring_contents (mt_rings t' ! oldr) = ring_contents (mt_rings t ! oldr) \<and>
    ir_items (r_iring (mt_rings t' ! oldr)) ! it =
      rvp_interruption_close (ir_items (r_iring (mt_rings t ! oldr)) ! it) (int (r_producer (mt_rings t' ! r)))"
proof -
  let ?ws = "op_words (rt_base (sc_rt x)) RVP_OP_EXITSIG"
  have base: "deltops_fit (rt_base (sc_rt x))" using x by (simp add: sigctx_ok_def)
  define t1 where "t1 = (set_ring oldr ((mt_rings t ! oldr)\<lparr> r_lgen := r_lgen (mt_rings t ! r) \<rparr>) t)\<lparr> mt_cur := oldr \<rparr>"
  have t1: "mt_rings t1 = (mt_rings t)[oldr := (mt_rings t ! oldr)\<lparr> r_lgen := r_lgen (mt_rings t ! r) \<rparr>]"
    "mt_env t1 = mt_env t" "mt_rings t1 ! r = mt_rings t ! r"
    using o by (simp_all add: t1_def set_ring_def)
  have len: "length ?ws \<le> 20" "?ws \<noteq> []" by (simp_all add: op_words_def)
  have "quiet_room (length ?ws + 0) (env_on r t1)" using r(2) unfolding quiet_room_env t1(2,3) by simp
  from put_on_state [OF this _ len(2,1)] o obtain e where
    put: "put_on r (buf_of ?ws) t1 = Inr (t1\<lparr> mt_env := e, mt_rings := (mt_rings t1)[r := ring_push (mt_rings t ! r) ?ws] \<rparr>)"
    and c: "ring_contents (ring_push (mt_rings t ! r) ?ws) = ring_contents (mt_rings t ! r) @ ?ws"
    unfolding t1(3) by (auto simp: t1(1))
  define t2 where "t2 = t1\<lparr> mt_env := e, mt_rings := (mt_rings t1)[r := ring_push (mt_rings t ! r) ?ws] \<rparr>"
  have t2: "length (mt_rings t2) = length (mt_rings t)" "mt_rings t2 ! r = ring_push (mt_rings t ! r) ?ws"
    "mt_rings t2 ! oldr = (mt_rings t ! oldr)\<lparr> r_lgen := r_lgen (mt_rings t ! r) \<rparr>"
    "mt_maskchg t2 = mt_maskchg t" "mt_os t2 = mt_os t" "mt_cur t2 = oldr" "mt_sim t2 = mt_sim t"
    using o by (simp_all add: t2_def t1) (simp_all add: t1_def set_ring_def)
  define t3 where "t3 = close_interruption oldr it (int (r_producer (mt_rings t2 ! r))) t2"
  have "oldr < length (mt_rings t2)" "it < length (ir_items (r_iring (mt_rings t2 ! oldr)))"
    using o it by (simp_all add: t2)
  note ci = close_interruption_item [OF this, where eidx = "int (r_producer (mt_rings t2 ! r))", folded t3_def]
  have r3: "mt_rings t3 ! r = ring_push (mt_rings t ! r) ?ws" using ci(3) [of r] o t2 by simp
  have "length (mt_rings t3) = length (mt_rings t)" using ci(5) t2(1) by simp
  then obtain rs where rs: "t3 = t2\<lparr> mt_rings := rs \<rparr>" "length rs = length (mt_rings t)" using ci(4) by metis
  have "rvp_ring_is_dirty (mt_rings t3 ! r)"
    unfolding r3 by (rule dirty_of_contents) (simp add: c len)
  then have rp: "rvp_signal_ring_put r t3 = Inr (t3\<lparr> mt_rings := (mt_rings t3)[r := (mt_rings t3 ! r)\<lparr> r_state := RVP_RING_S_DIRTY \<rparr>] \<rparr>)"
    using r(1) by (simp add: rvp_signal_ring_put_def r3 Let_def)
  let ?t' = "t3\<lparr> mt_rings := (mt_rings t3)[r := (mt_rings t3 ! r)\<lparr> r_state := RVP_RING_S_DIRTY \<rparr>],
    mt_intrmask := om, mt_idepth := d \<rparr>"
  have "handler_exit x oldr r it om d t = Inr ?t'"
    using put_deltop [OF base, of "[]" RVP_OP_EXITSIG]
    by (simp add: handler_exit_def Let_def t1_def [symmetric] put t2_def [symmetric] t3_def [symmetric] rp del: cbind_eq_Inr)
  then show ?thesis
    using o ci(1,2) r3 c rs t2 by (intro exI [of _ ?t']) auto
qed

section \<open>Around a handler\<close>

text \<open>The interruption, closed at the end of the handler's events.\<close>

definition closed_interruption :: "rid \<Rightarrow> mthread \<Rightarrow> mthread \<Rightarrow> rvp_interruption" where
  "closed_interruption r t t' =
     \<lparr> it_interruptor = r, it_interrupted_idx = int (r_producer (mt_rings t ! mt_cur t)),
       it_interruptor_sidx = int (r_producer (mt_rings t ! r)), it_interruptor_eidx = int (r_producer (mt_rings t' ! r)) \<rparr>"

definition handler_returns :: "sigctx \<Rightarrow> int \<Rightarrow> sigset \<Rightarrow> rid \<Rightarrow> mthread \<Rightarrow> mthread \<Rightarrow> mthread \<Rightarrow> bool" where
  "handler_returns x signum uc r t t3 t' \<longleftrightarrow>
     mt_cur t' = mt_cur t \<and> mt_idepth t' = mt_idepth t \<and> mt_intrmask t' = entered_mask x signum uc t \<and>
     mt_maskchg t' = mt_maskchg t3 \<and> mt_os t' = mt_os t3 \<and> mt_sim t' = mt_sim t3 \<and>
     ring_contents (mt_rings t' ! r) = ring_contents (mt_rings t3 ! r) @ op_words (rt_base (sc_rt x)) RVP_OP_EXITSIG \<and>
     r_state (mt_rings t' ! r) = RVP_RING_S_DIRTY \<and>
     ring_contents (mt_rings t' ! mt_cur t) = ring_contents (mt_rings t ! mt_cur t) \<and>
     ir_items (r_iring (mt_rings t' ! mt_cur t)) ! ir_producer (r_iring (mt_rings t ! mt_cur t)) = closed_interruption r t t'"

lemma interrupted_ring_item:
  assumes "iring_ok (r_iring (mt_rings t ! mt_cur t))"
  shows "ir_producer (r_iring (mt_rings t ! mt_cur t)) < length (ir_items (r_iring (interrupted_ring r t)))"
    "rvp_interruption_close (ir_items (r_iring (interrupted_ring r t)) ! ir_producer (r_iring (mt_rings t ! mt_cur t)))
       (int (r_producer (mt_rings t' ! r))) = closed_interruption r t t'"
  using assms
  by (simp_all add: interrupted_ring_def put_interruption_store_def Let_def iring_ok_def closed_interruption_def
      rvp_interruption_close_def)

lemma wrapper_runs_in_brackets:
  assumes s: "rvp_signal_lookup signum t = Some k" "s = mt_storage t signum k"
    and ok: "handler_can_start x s is r t"
    and body: "\<And>t2. handler_starts x s signum uc r t t2 \<Longrightarrow>
      \<exists>t3. call_handler code s signum t2 = Inr t3 \<and> handler_ends r t t2 t3"
  shows "\<exists>t2 t3 t'. handler_starts x s signum uc r t t2 \<and> call_handler code s signum t2 = Inr t3 \<and>
    handler_wrapper x code signum uc t = Inr t' \<and> handler_returns x signum uc r t t3 t'"
proof -
  let ?it = "ir_producer (r_iring (mt_rings t ! mt_cur t))"
  have c: "sigctx_ok x" "mt_cur t \<noteq> r" "mt_cur t < length (mt_rings t)" "r < length (mt_rings t)"
    "iring_ok (r_iring (mt_rings t ! mt_cur t))"
    using ok by (auto simp: handler_can_start_def)
  obtain t2 where t2: "handler_enter x signum uc s t = Inr (mt_cur t, r, ?it, entered_mask x signum uc t, mt_idepth t, t2)"
    "handler_starts x s signum uc r t t2"
    using handler_enter_starts [OF ok] by blast
  obtain t3 where t3: "call_handler code s signum t2 = Inr t3" "handler_ends r t t2 t3" using body [OF t2(2)] by blast
  have old: "mt_rings t3 ! mt_cur t = interrupted_ring r t"
    using t3(2) t2(2) by (simp add: handler_ends_def handler_starts_def)
  have e: "mt_cur t < length (mt_rings t3)" "r < length (mt_rings t3)" "?it < length (ir_items (r_iring (mt_rings t3 ! mt_cur t)))"
    "r_state (mt_rings t3 ! r) = RVP_RING_S_INUSE" "quiet_room 2 (env_on r t3)"
    using t3(2) c interrupted_ring_item(1) [OF c(5), of r] unfolding old by (simp_all add: handler_ends_def)
  obtain t' where t': "handler_exit x (mt_cur t) r ?it (entered_mask x signum uc t) (mt_idepth t) t3 = Inr t'"
    and r: "mt_cur t' = mt_cur t \<and> mt_idepth t' = mt_idepth t \<and> mt_intrmask t' = entered_mask x signum uc t \<and>
      mt_maskchg t' = mt_maskchg t3 \<and> mt_os t' = mt_os t3 \<and> mt_sim t' = mt_sim t3 \<and>
      ring_contents (mt_rings t' ! r) = ring_contents (mt_rings t3 ! r) @ op_words (rt_base (sc_rt x)) RVP_OP_EXITSIG \<and>
      r_state (mt_rings t' ! r) = RVP_RING_S_DIRTY \<and>
      ring_contents (mt_rings t' ! mt_cur t) = ring_contents (mt_rings t3 ! mt_cur t) \<and>
      ir_items (r_iring (mt_rings t' ! mt_cur t)) ! ?it =
        rvp_interruption_close (ir_items (r_iring (mt_rings t3 ! mt_cur t)) ! ?it) (int (r_producer (mt_rings t' ! r)))"
    using handler_exit_returns [OF c(1,2) e, of "entered_mask x signum uc t" "mt_idepth t"] by blast
  have "handler_returns x signum uc r t t3 t'"
    using r unfolding handler_returns_def old interrupted_ring_item(2) [OF c(5)] interrupted_ring_simps by blast
  moreover have "handler_wrapper x code signum uc t = Inr t'"
    using t2(1) t3(1) t' by (simp add: handler_wrapper_def signal_rec_def s)
  ultimately show ?thesis using t2(2) t3(1) by blast
qed

section \<open>A signal between a change of mask and its event\<close>

lemma ring_list_update:
  "c < length rs \<Longrightarrow> r_next q = r_next (rs ! c) \<Longrightarrow> ring_list (rs[c := q]) h is = ring_list rs h is"
  by (induction "is" arbitrary: h) (auto simp: nth_list_update)

lemma choose_ring_update:
  assumes "c < length rs" "r_state q = r_state (rs ! c)" "r_tid q = r_tid (rs ! c)" "r_idepth q = r_idepth (rs ! c)"
  shows "choose_ring tid d (rs[c := q]) is = choose_ring tid d rs is"
proof -
  have "(\<lambda>i. ring_fits tid d (rs[c := q] ! i)) = (\<lambda>i. ring_fits tid d (rs ! i))"
    "(\<lambda>i. r_state (rs[c := q] ! i) = RVP_RING_S_CLEAN) = (\<lambda>i. r_state (rs ! i) = RVP_RING_S_CLEAN)"
    using assms by (auto simp: nth_list_update ring_fits_def fun_eq_iff)
  then show ?thesis by (simp only: choose_ring_def)
qed

text \<open>
  The real function, with a signal that arrives when the change of mask has taken effect: the
  operating system blocks the signals that \<open>enter\<close> says while the handler runs.
\<close>

definition os_then_signal ::
    "sigctx \<Rightarrow> (u64 \<Rightarrow> int \<Rightarrow> mthread \<Rightarrow> mthread cres) \<Rightarrow> int \<Rightarrow> (sigset \<Rightarrow> sigset) \<Rightarrow>
     (int \<Rightarrow> sigset option \<Rightarrow> mthread \<Rightarrow> (int \<times> sigset \<times> mthread) cres) \<Rightarrow>
     int \<Rightarrow> sigset option \<Rightarrow> mthread \<Rightarrow> (int \<times> sigset \<times> mthread) cres" where
  "os_then_signal x code signum enter f how nset t = cbind (f how nset t) (\<lambda>(rc, old, t).
     cbind (handler_wrapper x code signum (mt_os t) (t\<lparr> mt_os := enter (mt_os t) \<rparr>)) (\<lambda>t'.
     Inr (rc, old, t'\<lparr> mt_os := mt_os t \<rparr>)))"

text \<open>A handler that returns, adds words to its ring, and changes no mask.\<close>

definition orderly_handler :: "sigctx \<Rightarrow> (u64 \<Rightarrow> int \<Rightarrow> mthread \<Rightarrow> mthread cres) \<Rightarrow> rvp_signal \<Rightarrow> int \<Rightarrow> rid \<Rightarrow> bool" where
  "orderly_handler x code s signum r \<longleftrightarrow> (\<forall>uc t t2. handler_starts x s signum uc r t t2 \<longrightarrow>
     (\<exists>t3 ws. call_handler code s signum t2 = Inr t3 \<and> handler_ends r t t2 t3 \<and>
        mt_maskchg t3 = mt_maskchg t2 \<and> mt_sim t3 = mt_sim t2 \<and>
        ring_contents (mt_rings t3 ! r) = ring_contents (mt_rings t2 ! r) @ ws))"

text \<open>
  A change of mask that a signal interrupts is logged by the wrapper of the handler, and leaves no
  change pending, even where one was.
\<close>

lemma interrupted_change:
  assumes x: "os_changes_mask x f" and how: "how \<in> {SIG_BLOCK, SIG_UNBLOCK, SIG_SETMASK}"
    and t: "sim_rests t" "the_mask x (Some (mt_os t)) = mt_intrmask t"
    and n: "mask_number x (mt_sets t) (mt_intrmask t) = Some n_old"
      "mask_number x (mt_sets t) (new_mask_of x how s (mt_intrmask t)) = Some n_new"
      "mask_number x (mt_sets t) (named_mask x how (the_mask x (Some s))) = Some n_arg"
    and changed: "new_mask_of x how s (mt_intrmask t) \<noteq> mt_intrmask t"
    and sig: "rvp_signal_lookup signum t = Some k" "sg = mt_storage t signum k"
      "handler_can_start x sg is r t" "orderly_handler x code sg signum r"
  shows "\<exists>t' gen lgen ws. rvp_change_sigmask x (os_then_signal x code signum enter f) mc junk ra how (Some s) want t = Inr (0, t') \<and>
    mt_intrmask t' = new_mask_of x how s (mt_intrmask t) \<and> the_mask x (Some (mt_os t')) = mt_intrmask t' \<and> mt_maskchg t' = None \<and>
    ring_contents (mt_rings t' ! mt_cur t) = ring_contents (mt_rings t ! mt_cur t) \<and>
    ring_contents (mt_rings t' ! r) = ring_contents (mt_rings t ! r) @
      op_words (rt_base (sc_rt x)) RVP_OP_SIGDEPTH @ [r_idepth (mt_rings t ! mt_cur t)] @
      recs_words (rt_base (sc_rt x)) (deltop_of (rt_base (sc_rt x)) 0 RVP_OP_BEGIN)
        (maskchg_recs ra how want n_old n_new n_arg (r_lgen (mt_rings t ! mt_cur t)) gen) @
      op_words (rt_base (sc_rt x)) RVP_OP_SIGDEPTH @ [mt_idepth t + 1] @
      entersig_words (rt_base (sc_rt x)) sg signum lgen @ ws @ op_words (rt_base (sc_rt x)) RVP_OP_EXITSIG"
proof -
  let ?c = "mt_cur t" and ?nm = "new_mask_of x how s (mt_intrmask t)"
  let ?base = "rt_base (sc_rt x)"
  have c: "sigctx_ok x" "?c < length (mt_rings t)" "r \<noteq> ?c" using sig(3) by (simp_all add: handler_can_start_def)
  obtain e lgen gen where b: "buffer_maskchg x ?c (mt_intrmask t) ?nm ra how (Some s) want t =
      Inr (buf_of (recs_words ?base (deltop_of ?base 0 RVP_OP_BEGIN)
            (maskchg_recs ra how want n_old n_new n_arg (r_lgen (mt_rings t ! ?c)) gen)), set_env_on ?c e t)"
    and e: "e_obs e = e_obs (mt_env t)" "e_log2_nthreads e = e_log2_nthreads (mt_env t)"
      "e_ring e = (mt_rings t ! ?c)\<lparr> r_lastpc := ra, r_lgen := lgen \<rparr>"
    using buffer_maskchg_words [OF c(1) how c(2) n, of ra want] by blast
  let ?ws = "recs_words ?base (deltop_of ?base 0 RVP_OP_BEGIN)
    (maskchg_recs ra how want n_old n_new n_arg (r_lgen (mt_rings t ! ?c)) gen)"
  let ?mc = "\<lparr> mc_idepth = r_idepth (mt_rings t ! ?c), mc_nmask = ?nm, mc_buf = buf_of ?ws \<rparr>"
  define t1 where "t1 = (set_env_on ?c e t)\<lparr> mt_maskchg := Some (mc, ?mc) \<rparr>"
  have t1: "mt_os t1 = mt_os t" "mt_sim t1 = mt_sim t" by (simp_all add: set_env_on_def t1_def)
  have sim: "sim_rests t1" using t(1) by (simp add: sim_rests_def t1)
  have "\<exists>os. f how (Some s) t1 = Inr (0, mt_os t1, t1\<lparr> mt_os := os \<rparr>) \<and> the_mask x (Some os) =
      new_mask how (the_mask x (Some (mt_os t1))) (the_mask x (Some s)) 0 AND NOT (sc_unmaskable x)"
    using x how unfolding os_changes_mask_def by blast
  then obtain os where os: "f how (Some s) t1 = Inr (0, mt_os t, t1\<lparr> mt_os := os \<rparr>)" "the_mask x (Some os) = ?nm"
    unfolding t1 t(2) new_mask_of_def by blast
  define t2 where "t2 = t1\<lparr> mt_os := enter os \<rparr>"
  have t2: "mt_rings t2 = (mt_rings t)[?c := (mt_rings t ! ?c)\<lparr> r_lastpc := ra, r_lgen := lgen \<rparr>]" "mt_env t2 = e"
    "mt_cur t2 = ?c" "mt_idepth t2 = mt_idepth t" "mt_intrmask t2 = mt_intrmask t" "mt_maskchg t2 = Some (mc, ?mc)"
    "mt_sets t2 = mt_sets t" "mt_signal_rings t2 = mt_signal_rings t" "mt_id t2 = mt_id t" "mt_sim t2 = mt_sim t"
    "mt_tbl t2 = mt_tbl t" "mt_storage t2 = mt_storage t"
    by (simp_all add: t2_def t1_def set_env_on_def e(3))
  have r2: "mt_rings t2 ! r = mt_rings t ! r" "mt_rings t2 ! ?c = (mt_rings t ! ?c)\<lparr> r_lastpc := ra, r_lgen := lgen \<rparr>"
    using c by (simp_all add: t2(1))
  have room: "quiet_room 34 (env_on r t2)"
    using sig(3) unfolding handler_can_start_def quiet_room_env r2 t2 e by simp
  have "ring_list (mt_rings t2) (mt_signal_rings t2) is" "choose_ring (mt_id t2) (mt_idepth t2 + 1) (mt_rings t2) is = Some r"
    using sig(3) c(2) unfolding t2 handler_can_start_def
    by (subst ring_list_update choose_ring_update; simp)+
  moreover have "\<exists>vs. buf_of ?ws = buf_of vs \<and> length vs \<le> 14" using length_maskchg_words(1) by blast
  ultimately have start: "handler_can_start x sg is r t2"
    using sig(3) room unfolding handler_can_start_def t2(3-7) r2 by (simp add: t2(1))
  have look: "rvp_signal_lookup signum t2 = Some k" "sg = mt_storage t2 signum k"
    using sig(1,2) by (simp_all add: rvp_signal_lookup_def t2)
  have body: "\<exists>t3. call_handler code sg signum t' = Inr t3 \<and> handler_ends r t2 t' t3" if "handler_starts x sg signum os r t2 t'" for t'
    using sig(4) that unfolding orderly_handler_def by blast
  obtain t3 t4 t5 where h: "handler_starts x sg signum os r t2 t3" "call_handler code sg signum t3 = Inr t4"
    "handler_wrapper x code signum os t2 = Inr t5" "handler_returns x signum os r t2 t4 t5"
    using wrapper_runs_in_brackets [OF look start body] by blast
  obtain ws where ws: "mt_maskchg t4 = mt_maskchg t3" "mt_sim t4 = mt_sim t3"
    "ring_contents (mt_rings t4 ! r) = ring_contents (mt_rings t3 ! r) @ ws"
    using sig(4) h(1,2) unfolding orderly_handler_def by fastforce
  have ic: "interrupted_change x signum os t2 = Some ?mc"
    using changed by (simp add: interrupted_change_def mask_is_inconsistent_def t2 os(2))
  define t6 where "t6 = t5\<lparr> mt_os := os \<rparr>"
  have t6: "mt_maskchg t6 = None" "mt_intrmask t6 = ?nm" "mt_sim t6 = mt_sim t" "mt_os t6 = os" "mt_rings t6 = mt_rings t5"
    using h(1,4) ws ic by (simp_all add: t6_def handler_returns_def handler_starts_def entered_mask_def t2)
  have st: "os_then_signal x code signum enter f how (Some s) t1 = Inr (0, mt_os t, t6)" "sim_rests t1" "sim_rests t6"
    using sim t(1) h(3) by (simp_all add: os_then_signal_def os(1) t2_def [symmetric] t6_def [symmetric] sim_rests_def t6)
  have "rvp_change_sigmask x (os_then_signal x code signum enter f) mc junk ra how (Some s) want t = Inr (0, t6)"
    unfolding rvp_change_sigmask_def Let_def new_mask_junk [OF how] b
    using st t(2) by (simp add: t1_def [symmetric] raise_all_rests the_mask_def log_maskchg_def t6)
  moreover have "ring_contents (mt_rings t6 ! ?c) = ring_contents (mt_rings t ! ?c)"
    using h(4) by (simp add: handler_returns_def t6 t2(3) r2)
  moreover have "ring_contents (mt_rings t6 ! r) = ring_contents (mt_rings t ! r) @ interrupted_words ?base ?mc (mt_idepth t + 1) @
      entersig_words ?base sg signum lgen @ ws @ op_words ?base RVP_OP_EXITSIG"
    using h(1,4) ws(3) ic by (simp add: handler_returns_def handler_starts_def change_words_def t6 t2(3,4) r2)
  ultimately show ?thesis using t6 os(2)
    by (intro exI [of _ t6] exI [of _ gen] exI [of _ lgen] exI [of _ ws]) (simp add: interrupted_words_def)
qed

section \<open>Properties\<close>

text \<open>
  C28. A handler in brackets. Let a signal arrive whose handler the program established without
  \<open>SA_NODEFER\<close> together with \<open>SA_RESETHAND\<close>, while there is a ring for it among the signal rings
  and there is room on the rings. The wrapper takes a dirty ring of this thread and depth, or else a
  clean one. The program's handler starts one level deeper, on that ring, with the mask that was
  in force and the signals that the handler blocks; its ring then ends with the change of mask
  that the signal interrupted, if that took effect, and the event of entering the handler. If the
  program's handler returns, leaves the interrupted ring alone and its own with room for two words,
  then the wrapper returns: the ring of the handler has the event of the exit at its end and is left
  dirty, the interruption recorded on the old ring spans exactly what the handler put, and the
  thread has its old ring, its old depth and its old mask, or else that of the interrupted change.
\<close>

theorem handler_runs_in_brackets:
  assumes s: "rvp_signal_lookup signum t = Some k" "s = mt_storage t signum k"
    and ok: "handler_can_start x s is r t"
    and body: "\<And>t2. handler_starts x s signum uc r t t2 \<Longrightarrow>
      \<exists>t3. call_handler code s signum t2 = Inr t3 \<and> handler_ends r t t2 t3"
  shows "\<exists>t2 t3 t'. handler_starts x s signum uc r t t2 \<and> call_handler code s signum t2 = Inr t3 \<and>
    handler_wrapper x code signum uc t = Inr t' \<and> handler_returns x signum uc r t t3 t'"
  using assms by (rule wrapper_runs_in_brackets)

text \<open>The handler that does nothing.\<close>

lemma idle_handler_orderly:
  assumes "s_sigaction s = 0" "s_handler s \<noteq> 0"
  shows "orderly_handler x (\<lambda>_ _ t. Inr t) s signum r"
  unfolding orderly_handler_def
proof (intro allI impI)
  fix uc t t2
  assume "handler_starts x s signum uc r t t2"
  then have "handler_ends r t t2 t2" by (simp add: handler_ends_def handler_starts_def)
  then show "\<exists>t3 ws. call_handler (\<lambda>_ _ t. Inr t) s signum t2 = Inr t3 \<and> handler_ends r t t2 t3 \<and>
      mt_maskchg t3 = mt_maskchg t2 \<and> mt_sim t3 = mt_sim t2 \<and>
      ring_contents (mt_rings t3 ! r) = ring_contents (mt_rings t2 ! r) @ ws"
    using assms by (intro exI [of _ t2] exI [of _ "[]"]) (simp add: call_handler_def)
qed

lemma sample_handler_can_start:
  "handler_can_start (sample_sigctx f) (mt_storage sample_mthread 1 0) [2, 1] 2 sample_mthread"
proof -
  have "s_blockset (mt_storage sample_mthread 1 0) = Some 1" "1 < length (sb_mem (mt_sets sample_mthread))"
    "mt_maskchg sample_mthread = None"
    by code_simp+
  moreover have "s_flags (mt_storage sample_mthread 1 0) AND RVP_SIGNAL_F_FAKING_NODEFER = 0"
    "ring_list (mt_rings sample_mthread) (mt_signal_rings sample_mthread) [2, 1]" "mt_idepth sample_mthread + 1 \<noteq> 0"
    "choose_ring (mt_id sample_mthread) (mt_idepth sample_mthread + 1) (mt_rings sample_mthread) [2, 1] = Some 2"
    "2 \<noteq> mt_cur sample_mthread" "mt_cur sample_mthread < length (mt_rings sample_mthread)" "2 < length (mt_rings sample_mthread)"
    "iring_ok (r_iring (mt_rings sample_mthread ! mt_cur sample_mthread))"
    "1 \<le> rvp_iring_nempty (r_iring (mt_rings sample_mthread ! mt_cur sample_mthread))"
    "quiet_room 34 (env_on 2 sample_mthread)"
    by code_simp+
  ultimately show ?thesis unfolding handler_can_start_def by (simp add: sample_sigctx_ok)
qed

lemma handler_runs_in_brackets_witness:
  "\<exists>t2 t'. handler_starts (sample_sigctx os_sigmask) (mt_storage sample_mthread 1 0) 1 (sig_set []) 2 sample_mthread t2 \<and>
     handler_wrapper (sample_sigctx os_sigmask) (\<lambda>_ _ t. Inr t) 1 (sig_set []) sample_mthread = Inr t' \<and>
     mt_cur t' = 0 \<and> r_state (mt_rings t' ! 2) = RVP_RING_S_DIRTY"
proof -
  let ?s = "mt_storage sample_mthread 1 0"
  have s: "rvp_signal_lookup 1 sample_mthread = Some 0" "s_sigaction ?s = 0" "s_handler ?s \<noteq> 0" "mt_cur sample_mthread = 0"
    by code_simp+
  have "\<exists>t3. call_handler (\<lambda>_ _ t. Inr t) ?s 1 t2 = Inr t3 \<and> handler_ends 2 sample_mthread t2 t3"
    if "handler_starts (sample_sigctx os_sigmask) ?s 1 (sig_set []) 2 sample_mthread t2" for t2
    using idle_handler_orderly [OF s(2,3), of "sample_sigctx os_sigmask" 1 2] that unfolding orderly_handler_def by blast
  from handler_runs_in_brackets [OF s(1) refl sample_handler_can_start [of os_sigmask] this] s(4) show ?thesis
    unfolding handler_returns_def by auto
qed

text \<open>
  C29. A change of mask that a signal interrupts is logged once. Let a change of mask take effect that
  changes the tracked mask, and let a signal arrive before the runtime logs it, with an orderly
  handler as above. The handler's ring has the event of the change, at the depth of the call that made
  it, before the event of entering the handler; the call then returns 0 and logs nothing itself; and
  the tracked mask is the new mask, which is the one in force.
\<close>

theorem interrupted_change_logged_by_handler:
  assumes x: "os_changes_mask x f" and how: "how \<in> {SIG_BLOCK, SIG_UNBLOCK, SIG_SETMASK}"
    and t: "sim_rests t" "the_mask x (Some (mt_os t)) = mt_intrmask t" "mt_maskchg t = None"
    and n: "mask_number x (mt_sets t) (mt_intrmask t) = Some n_old"
      "mask_number x (mt_sets t) (new_mask_of x how s (mt_intrmask t)) = Some n_new"
      "mask_number x (mt_sets t) (named_mask x how (the_mask x (Some s))) = Some n_arg"
    and changed: "new_mask_of x how s (mt_intrmask t) \<noteq> mt_intrmask t"
    and sig: "rvp_signal_lookup signum t = Some k" "sg = mt_storage t signum k"
      "handler_can_start x sg is r t" "orderly_handler x code sg signum r"
  shows "\<exists>t' gen lgen ws. rvp_change_sigmask x (os_then_signal x code signum enter f) mc junk ra how (Some s) want t = Inr (0, t') \<and>
    mt_intrmask t' = new_mask_of x how s (mt_intrmask t) \<and> the_mask x (Some (mt_os t')) = mt_intrmask t' \<and> mt_maskchg t' = None \<and>
    ring_contents (mt_rings t' ! mt_cur t) = ring_contents (mt_rings t ! mt_cur t) \<and>
    ring_contents (mt_rings t' ! r) = ring_contents (mt_rings t ! r) @
      op_words (rt_base (sc_rt x)) RVP_OP_SIGDEPTH @ [r_idepth (mt_rings t ! mt_cur t)] @
      recs_words (rt_base (sc_rt x)) (deltop_of (rt_base (sc_rt x)) 0 RVP_OP_BEGIN)
        (maskchg_recs ra how want n_old n_new n_arg (r_lgen (mt_rings t ! mt_cur t)) gen) @
      op_words (rt_base (sc_rt x)) RVP_OP_SIGDEPTH @ [mt_idepth t + 1] @
      entersig_words (rt_base (sc_rt x)) sg signum lgen @ ws @ op_words (rt_base (sc_rt x)) RVP_OP_EXITSIG"
  using assms(1-4,6-) by (rule interrupted_change)

lemma interrupted_change_witness:
  "\<exists>t'. rvp_change_sigmask (sample_sigctx os_sigmask)
      (os_then_signal (sample_sigctx os_sigmask) (\<lambda>_ _ t. Inr t) 1 (\<lambda>os. os(1 := True)) os_sigmask) 1 0 0x500010
      SIG_BLOCK (Some (sig_set [1])) True sample_mthread = Inr (0, t') \<and>
     mt_intrmask t' = 1 \<and> ring_contents (mt_rings t' ! 0) = []"
proof -
  let ?x = "sample_sigctx os_sigmask" and ?t = sample_mthread and ?s = "mt_storage sample_mthread 1 0"
  have m: "the_mask ?x (Some (mt_os ?t)) = mt_intrmask ?t" "new_mask_of ?x SIG_BLOCK (sig_set [1]) (mt_intrmask ?t) = 1"
    "mask_number ?x (mt_sets ?t) 0 = Some 0" "mask_number ?x (mt_sets ?t) 1 = Some 1"
    "named_mask ?x SIG_BLOCK (the_mask ?x (Some (sig_set [1]))) = 1" "mt_intrmask ?t = 0" "mt_maskchg ?t = None"
    by code_simp+
  have s: "rvp_signal_lookup 1 ?t = Some 0" "s_sigaction ?s = 0" "s_handler ?s \<noteq> 0" "sim_rests ?t" "mt_cur ?t = 0"
    "ring_contents (mt_rings ?t ! 0) = []"
    by code_simp+
  have n: "mask_number ?x (mt_sets ?t) (mt_intrmask ?t) = Some 0"
    "mask_number ?x (mt_sets ?t) (new_mask_of ?x SIG_BLOCK (sig_set [1]) (mt_intrmask ?t)) = Some 1"
    "mask_number ?x (mt_sets ?t) (named_mask ?x SIG_BLOCK (the_mask ?x (Some (sig_set [1])))) = Some 1"
    "new_mask_of ?x SIG_BLOCK (sig_set [1]) (mt_intrmask ?t) \<noteq> mt_intrmask ?t"
    using m by simp_all
  have "SIG_BLOCK \<in> {SIG_BLOCK, SIG_UNBLOCK, SIG_SETMASK}" by simp
  from interrupted_change_logged_by_handler [OF os_sigmask_ok this s(4) m(1,7) n s(1) refl sample_handler_can_start [of os_sigmask]
      idle_handler_orderly [OF s(2,3)]] m(2) s(5,6)
  show ?thesis by metis
qed

section \<open>A lost change of mask\<close>







section \<open>A sample of nested handlers\<close>

text \<open>
  Delivery of a signal by the operating system: the signal is blocked while its handler runs.
\<close>

definition deliver :: "sigctx \<Rightarrow> (u64 \<Rightarrow> int \<Rightarrow> mthread \<Rightarrow> mthread cres) \<Rightarrow> int \<Rightarrow> mthread \<Rightarrow> mthread cres" where
  "deliver x code signum t =
     (let os = mt_os t in
      cbind (handler_wrapper x code signum os (t\<lparr> mt_os := os(signum := True) \<rparr>)) (\<lambda>t. Inr (t\<lparr> mt_os := os \<rparr>)))"

text \<open>Signal 1, whose handler does nothing, arrives right after a change of mask took effect.\<close>

definition sigmask_then_1 :: "int \<Rightarrow> sigset option \<Rightarrow> mthread \<Rightarrow> (int \<times> sigset \<times> mthread) cres" where
  "sigmask_then_1 how nset t = cbind (os_sigmask how nset t) (\<lambda>(rc, old, t).
     cbind (deliver (sample_sigctx os_sigmask) (\<lambda>_ _ t. Inr t) 1 t) (\<lambda>t. Inr (rc, old, t)))"

text \<open>Signal 2, whose handler blocks signal 3, arrives right before a change of mask takes effect.\<close>

definition block_3 :: "u64 \<Rightarrow> int \<Rightarrow> mthread \<Rightarrow> mthread cres" where
  "block_3 _ _ t =
     cbind (rvpredict_pthread_sigmask (sample_sigctx sigmask_then_1) 2 0 0x500000 SIG_BLOCK (Some (sig_set [3])) False t)
       (\<lambda>(_, t). Inr t)"

definition two_then_sigmask :: "int \<Rightarrow> sigset option \<Rightarrow> mthread \<Rightarrow> (int \<times> sigset \<times> mthread) cres" where
  "two_then_sigmask how nset t = cbind (deliver (sample_sigctx os_sigmask) block_3 2 t) (os_sigmask how nset)"

text \<open>The program blocks signal 1, and then asks for the mask.\<close>

definition block_1 :: "mthread cres" where
  "block_1 = cbind (rvpredict_pthread_sigmask (sample_sigctx two_then_sigmask) 1 0 0x500010 SIG_BLOCK (Some (sig_set [1])) False sample_mthread)
     (\<lambda>(_, t). Inr t)"

definition ask_mask :: "mthread \<Rightarrow> (int \<times> mthread) cres" where
  "ask_mask = rvpredict_pthread_sigmask (sample_sigctx os_sigmask) 1 0 0x500020 SIG_BLOCK (Some (sig_set [])) True"

text \<open>
  In that sample the wrapper of signal 1 logs the change that it interrupts, that of signal 2's
  handler, and leaves no change pending, although that of the program is.
\<close>

lemma lost_mask_change_sample:
  "\<exists>t. block_1 = Inr t \<and> mt_os t 1 \<and> mt_intrmask t = 0 \<and> mt_maskchg t = None \<and>
     ring_contents (mt_rings t ! mt_own t) = [] \<and> ask_mask t = Inl Aborted"
proof -
  have "case block_1 of Inl _ \<Rightarrow> False
    | Inr t \<Rightarrow> mt_os t 1 \<and> mt_intrmask t = 0 \<and> mt_maskchg t = None \<and> ring_contents (mt_rings t ! mt_own t) = [] \<and>
        (case ask_mask t of Inl c \<Rightarrow> c = Aborted | Inr _ \<Rightarrow> False)"
    by code_simp
  then show ?thesis by (auto split: sum.splits)
qed

end
