(* ===== verification/Intr.thy ===== *)
theory Intr
  imports Handler
begin

text \<open>
  Simulated interrupts, \<^verbatim>\<open>llvm/ngrt/intr.c\<close>, and two of the interrupt controllers:
  \<^verbatim>\<open>llvm/personality/basic\<close> and \<^verbatim>\<open>llvm/personality/78k0\<close>. An interrupt is a real-time signal; a
  controller blocks and unblocks signals, and raises them so that each interrupt is seen whenever
  interrupts are enabled.
\<close>

section \<open>The table of interrupts\<close>

record rvp_static_intr =
  si_handler :: u64
  si_prio :: int
  si_signum :: int
  si_nactive :: int
  si_times :: u32

text \<open>
  The table and the two counters, and what the operating system knows of the thread: its signal
  mask, and the handler and mask of each signal. A controller adds its own state.
\<close>

record intrsys =
  in_tab :: "rvp_static_intr list"
  in_nintrs :: nat
  in_nassigned :: nat
  in_mask :: sigset
  in_action :: "int \<Rightarrow> u64 \<times> sigset"

text \<open>
  The C library: \<open>raise\<close> may run a handler, and so may a change of mask, which gives the old mask
  too. \<open>sigaction\<close> gives its return value and the old action; \<open>timer_create\<close> may fail. \<open>ic_code\<close> runs
  the code of an interrupt.
\<close>

record 's intrctx =
  ic_plat :: sigplat
  ic_signals :: sigtab
  ic_rtmin :: int
  ic_rtsig_max :: nat
  ic_raise :: "int \<Rightarrow> 's \<Rightarrow> 's cres"
  ic_sigmask :: "int \<Rightarrow> sigset \<Rightarrow> 's \<Rightarrow> (int \<times> sigset \<times> 's) cres"
  ic_sigaction :: "int \<Rightarrow> (u64 \<times> sigset) option \<Rightarrow> 's \<Rightarrow> (int \<times> (u64 \<times> sigset) \<times> 's) cres"
  ic_timer :: "int \<Rightarrow> int \<Rightarrow> 's \<Rightarrow> (int \<times> 's) cres"
  ic_code :: "u64 \<Rightarrow> 's \<Rightarrow> 's cres"

definition get_si :: "nat \<Rightarrow> 'a intrsys_scheme \<Rightarrow> rvp_static_intr" where
  "get_si i s = in_tab s ! i"

definition set_si :: "nat \<Rightarrow> rvp_static_intr \<Rightarrow> 'a intrsys_scheme \<Rightarrow> 'a intrsys_scheme" where
  "set_si i si s = s\<lparr> in_tab := (in_tab s)[i := si] \<rparr>"

text \<open>The array has 128 slots.\<close>

definition rvpredict_intr_register :: "u64 \<Rightarrow> int \<Rightarrow> 'a intrsys_scheme \<Rightarrow> 'a intrsys_scheme cres" where
  "rvpredict_intr_register handler prio s =
     (if 128 \<le> in_nintrs s then Inl Exited
      else Inr ((set_si (in_nintrs s)
                  \<lparr> si_handler = handler, si_prio = prio, si_signum = -1, si_nactive = 0, si_times = 0 \<rparr> s)
                \<lparr> in_nintrs := in_nintrs s + 1 \<rparr>))"

text \<open>
  The value of the environment variable, read by \<open>strtol\<close> into a number, what follows it, and
  whether that set \<open>errno\<close>. Without the variable the interval is a millisecond.
\<close>

definition rvp_static_intr_interval :: "(int \<times> string \<times> bool) option \<Rightarrow> int cres" where
  "rvp_static_intr_interval v =
     (case v of None \<Rightarrow> Inr (1000 * 1000)
      | Some (nsec, rest, failed) \<Rightarrow> if failed then Inl Exited else if rest \<noteq> [] then Inl Exited else Inr nsec)"

text \<open>
  A loop over the assigned interrupts reads their number anew each time; the table ends at 128.
\<close>

fun for_assigned :: "(nat \<Rightarrow> 'a intrsys_scheme \<Rightarrow> 'a intrsys_scheme cres) \<Rightarrow> nat list \<Rightarrow> 'a intrsys_scheme \<Rightarrow> 'a intrsys_scheme cres" where
    "for_assigned f [] s = Inr s"
  | "for_assigned f (i # is) s = (if i < in_nassigned s then cbind (f i s) (for_assigned f is) else Inr s)"

definition each_assigned :: "(nat \<Rightarrow> 'a intrsys_scheme \<Rightarrow> 'a intrsys_scheme cres) \<Rightarrow> 'a intrsys_scheme \<Rightarrow> 'a intrsys_scheme cres" where
  "each_assigned f = for_assigned f [0..<128]"

text \<open>
  \<open>__rvpredict_isr_fire\<close>, between the events of its entry and exit: raise the signals of an interrupt
  handler, and wait until it has run. \<open>suspend\<close> is \<open>sigsuspend\<close>, with the handlers that run; \<open>fuel\<close>
  bounds the waits.
\<close>

fun isr_wait :: "('a intrsys_scheme \<Rightarrow> 'a intrsys_scheme cres) \<Rightarrow> nat \<Rightarrow> nat \<Rightarrow> u32 \<Rightarrow> 'a intrsys_scheme \<Rightarrow> 'a intrsys_scheme cres" where
    "isr_wait suspend 0 i n s = (if si_times (get_si i s) = n then Inl Waiting else Inr s)"
  | "isr_wait suspend (Suc fuel) i n s =
       (if si_times (get_si i s) = n then cbind (suspend s) (isr_wait suspend fuel i n) else Inr s)"

fun isr_fire_loop ::
    "'a intrsys_scheme intrctx \<Rightarrow> ('a intrsys_scheme \<Rightarrow> 'a intrsys_scheme cres) \<Rightarrow> nat \<Rightarrow> u64 \<Rightarrow> nat list \<Rightarrow>
     bool \<Rightarrow> 'a intrsys_scheme \<Rightarrow> (bool \<times> 'a intrsys_scheme) cres" where
    "isr_fire_loop x suspend fuel isr [] fired s = Inr (fired, s)"
  | "isr_fire_loop x suspend fuel isr (i # is) fired s =
       (let si = get_si i s in
        if \<not> i < in_nassigned s then Inr (fired, s)
        else if si_handler si \<noteq> isr \<or> si_signum si = -1 then isr_fire_loop x suspend fuel isr is fired s
        else cbind (ic_raise x (si_signum si) s) (\<lambda>s.
             cbind (isr_wait suspend fuel i (si_times si) s) (isr_fire_loop x suspend fuel isr is True)))"

definition rvpredict_isr_fire ::
    "'a intrsys_scheme intrctx \<Rightarrow> ('a intrsys_scheme \<Rightarrow> 'a intrsys_scheme cres) \<Rightarrow> nat \<Rightarrow> u64 \<Rightarrow> 'a intrsys_scheme \<Rightarrow> 'a intrsys_scheme cres" where
  "rvpredict_isr_fire x suspend fuel isr s =
     cbind (isr_fire_loop x suspend fuel isr [0..<128] False s) (\<lambda>(fired, s).
       if \<not> fired then Inl Aborted else Inr s)"

section \<open>Assigning signals\<close>

text \<open>
  What the two controllers share: each new interrupt \<open>i\<close> gets the signal \<open>SIGRTMIN + i\<close>. The
  signals are blocked, and must not have been; the old handlers get the longer mask; the new signals
  get the handler, and a timer.
\<close>

definition intr_signo :: "'s intrctx \<Rightarrow> nat \<Rightarrow> int" where
  "intr_signo x i = ic_rtmin x + int i"

fun add_signals :: "'s intrctx \<Rightarrow> nat list \<Rightarrow> sigset \<Rightarrow> sigset cres" where
    "add_signals x [] m = Inr m"
  | "add_signals x (i # is) m =
       (let (rc, m) = sigaddset (ic_plat x) m (intr_signo x i) in if rc \<noteq> 0 then Inl Exited else add_signals x is m)"

fun set_actions :: "'a intrsys_scheme intrctx \<Rightarrow> u64 \<Rightarrow> sigset \<Rightarrow> nat list \<Rightarrow> 'a intrsys_scheme \<Rightarrow> 'a intrsys_scheme cres" where
    "set_actions x h m [] s = Inr s"
  | "set_actions x h m (i # is) s =
       cbind (ic_sigaction x (intr_signo x i) (Some (h, m)) s) (\<lambda>(rc, _, s).
         if rc = -1 then Inl Exited else set_actions x h m is s)"

fun establish_signals :: "'a intrsys_scheme intrctx \<Rightarrow> u64 \<Rightarrow> sigset \<Rightarrow> int \<Rightarrow> nat list \<Rightarrow> 'a intrsys_scheme \<Rightarrow> 'a intrsys_scheme cres" where
    "establish_signals x h m interval [] s = Inr s"
  | "establish_signals x h m interval (i # is) s =
       (let signum = intr_signo x i; s = set_si i ((get_si i s)\<lparr> si_signum := signum \<rparr>) s in
        cbind (ic_sigaction x signum (Some (h, m)) s) (\<lambda>(rc, _, s).
        if rc = -1 then Inl Exited
        else cbind (ic_timer x signum interval s) (\<lambda>(rc, s).
        if rc = -1 then Inl Exited else establish_signals x h m interval is s)))"

definition block_new_signals :: "'a intrsys_scheme intrctx \<Rightarrow> sigset \<Rightarrow> 'a intrsys_scheme \<Rightarrow> 'a intrsys_scheme cres" where
  "block_new_signals x m s =
     cbind (ic_sigmask x SIG_BLOCK m s) (\<lambda>(rc, omask, s).
       if rc \<noteq> 0 then Inl Exited
       else if \<exists>i\<in>set [in_nassigned s..<in_nintrs s]. sigismember (ic_plat x) omask (intr_signo x i) = 1 then Inl Exited
       else Inr s)"

definition establish_all ::
    "'a intrsys_scheme intrctx \<Rightarrow> u64 \<Rightarrow> sigset \<Rightarrow> int \<Rightarrow> 'a intrsys_scheme \<Rightarrow> 'a intrsys_scheme cres" where
  "establish_all x h m interval s =
     cbind (block_new_signals x m s) (\<lambda>s.
     cbind (set_actions x h m [0..<in_nassigned s] s) (\<lambda>s.
     cbind (establish_signals x h m interval [in_nassigned s..<in_nintrs s] s) (\<lambda>s.
     Inr (s\<lparr> in_nassigned := in_nintrs s \<rparr>))))"

section \<open>The basic controller\<close>

definition INT32_MAX :: int where "INT32_MAX = 2 ^ 31 - 1"
definition RVP_IPL_0 :: int where "RVP_IPL_0 = 0"
definition RVP_IPL_HIGH :: int where "RVP_IPL_HIGH = 1"

text \<open>\<open>ba_saved\<close> is the mask that \<open>splhigh\<close> stores with the running sequence.\<close>

record basic = intrsys +
  ba_intr_mask :: sigset
  ba_ipl :: int
  ba_saved :: sigset

definition basic_init :: "'b basic_scheme \<Rightarrow> 'b basic_scheme" where
  "basic_init s = s\<lparr> ba_intr_mask := sigemptyset \<rparr>"

text \<open>The lowest priority where no interrupt runs. Beyond the largest priority there is none.\<close>

fun lowest_prio :: "'a intrsys_scheme \<Rightarrow> nat list \<Rightarrow> int \<Rightarrow> int cres" where
    "lowest_prio s [] prio = Inr prio"
  | "lowest_prio s (i # is) prio =
       (let si = get_si i s in
        if prio > si_prio si then lowest_prio s is prio
        else if si_nactive si > 0
        then if si_prio si = INT32_MAX then Inl Undefined else lowest_prio s is (si_prio si + 1)
        else lowest_prio s is prio)"

definition raise_from :: "'a intrsys_scheme intrctx \<Rightarrow> int \<Rightarrow> nat \<Rightarrow> 'a intrsys_scheme \<Rightarrow> 'a intrsys_scheme cres" where
  "raise_from x prio i s =
     (let si = get_si i s in
      if prio > si_prio si then Inr s else if si_signum si = -1 then Inr s else ic_raise x (si_signum si) s)"

definition basic_fire_all :: "'b basic_scheme intrctx \<Rightarrow> 'b basic_scheme \<Rightarrow> 'b basic_scheme cres" where
  "basic_fire_all x s =
     cbind (lowest_prio s [0..<in_nassigned s] 0) (\<lambda>prio. each_assigned (raise_from x prio) s)"

definition basic_disable :: "'b basic_scheme intrctx \<Rightarrow> 'b basic_scheme \<Rightarrow> 'b basic_scheme cres" where
  "basic_disable x s =
     cbind (basic_fire_all x s) (\<lambda>s.
     cbind (ic_sigmask x SIG_BLOCK (ba_intr_mask s) s) (\<lambda>(rc, _, s). if rc \<noteq> 0 then Inl Exited else Inr s))"

definition basic_enable :: "'b basic_scheme intrctx \<Rightarrow> 'b basic_scheme \<Rightarrow> 'b basic_scheme cres" where
  "basic_enable x s =
     (let s = s\<lparr> ba_ipl := RVP_IPL_0 \<rparr> in
      cbind (ic_sigmask x SIG_UNBLOCK (ba_intr_mask s) s) (\<lambda>(rc, _, s).
      if rc \<noteq> 0 then Inl Exited else basic_fire_all x s))"

definition basic_splhigh :: "'b basic_scheme intrctx \<Rightarrow> 'b basic_scheme \<Rightarrow> (int \<times> 'b basic_scheme) cres" where
  "basic_splhigh x s =
     (if ba_ipl s = RVP_IPL_HIGH then Inr (ba_ipl s, s)
      else cbind (basic_fire_all x s) (\<lambda>s.
        cbind (ic_sigmask x SIG_BLOCK (ba_intr_mask s) s) (\<lambda>(rc, omask, s).
        if rc \<noteq> 0 then Inl Exited
        else Inr (ba_ipl s, s\<lparr> ba_saved := omask, ba_ipl := RVP_IPL_HIGH \<rparr>))))"

definition basic_splx :: "'b basic_scheme intrctx \<Rightarrow> int \<Rightarrow> 'b basic_scheme \<Rightarrow> 'b basic_scheme cres" where
  "basic_splx x level s =
     (if level = RVP_IPL_HIGH then Inr s
      else if level \<noteq> RVP_IPL_0 then Inl Exited
      else let s = s\<lparr> ba_ipl := level \<rparr> in
        cbind (ic_sigmask x SIG_SETMASK (ba_saved s) s) (\<lambda>(rc, _, s).
        if rc \<noteq> 0 then Inl Exited else basic_fire_all x s))"

definition run_isr :: "'a intrsys_scheme intrctx \<Rightarrow> nat \<Rightarrow> 'a intrsys_scheme \<Rightarrow> 'a intrsys_scheme cres" where
  "run_isr x i s =
     (let si = get_si i s; s = set_si i (si\<lparr> si_nactive := si_nactive si + 1 \<rparr>) s in
      cbind (ic_code x (si_handler si) s) (\<lambda>s.
        let si = get_si i s in Inr (set_si i (si\<lparr> si_nactive := si_nactive si - 1 \<rparr>) s)))"

definition count_isr :: "nat \<Rightarrow> 'a intrsys_scheme \<Rightarrow> 'a intrsys_scheme" where
  "count_isr i s = (let si = get_si i s in set_si i (si\<lparr> si_times := si_times si + 1 \<rparr>) s)"

definition basic_interrupt :: "'b basic_scheme intrctx \<Rightarrow> int \<Rightarrow> nat \<Rightarrow> 'b basic_scheme \<Rightarrow> 'b basic_scheme cres" where
  "basic_interrupt x signum i s =
     (if si_signum (get_si i s) = signum
      then cbind (if si_nactive (get_si i s) = 0 then run_isr x i s else Inr s) (\<lambda>s. Inr (count_isr i s))
      else Inr s)"

definition basic_handler :: "'b basic_scheme intrctx \<Rightarrow> int \<Rightarrow> 'b basic_scheme \<Rightarrow> 'b basic_scheme cres" where
  "basic_handler x signum = each_assigned (basic_interrupt x signum)"

definition basic_reinit :: "'b basic_scheme intrctx \<Rightarrow> u64 \<Rightarrow> (int \<times> string \<times> bool) option \<Rightarrow> 'b basic_scheme \<Rightarrow> 'b basic_scheme cres" where
  "basic_reinit x handler iv s =
     (if ic_rtsig_max x < in_nintrs s then Inl Exited
      else if in_nassigned s = in_nintrs s then Inr s
      else cbind (rvp_static_intr_interval iv) (\<lambda>interval.
        cbind (add_signals x [in_nassigned s..<in_nintrs s] (ba_intr_mask s)) (\<lambda>m.
        establish_all x handler m interval (s\<lparr> ba_intr_mask := m \<rparr>))))"

section \<open>The 78k0 controller\<close>

record k78 = intrsys +
  k_enabled :: bool
  k_hipri :: bool
  k_maskall :: sigset
  k_maskhigh :: sigset
  k_masklow :: sigset

definition k78_init :: "'b k78_scheme \<Rightarrow> 'b k78_scheme" where
  "k78_init s = s\<lparr> k_maskall := sigemptyset, k_maskhigh := sigemptyset, k_masklow := sigemptyset \<rparr>"

definition k78_interrupt :: "'b k78_scheme intrctx \<Rightarrow> int \<Rightarrow> nat \<Rightarrow> 'b k78_scheme \<Rightarrow> 'b k78_scheme cres" where
  "k78_interrupt x signum i s =
     (let si = get_si i s in
      if si_signum si \<noteq> signum then Inr s
      else cbind (run_isr x i (s\<lparr> k_hipri := 0 < si_prio si, k_enabled := False \<rparr>)) (\<lambda>s'.
        Inr ((count_isr i s')\<lparr> k_enabled := k_enabled s, k_hipri := k_hipri s \<rparr>)))"

definition k78_handler :: "'b k78_scheme intrctx \<Rightarrow> int \<Rightarrow> 'b k78_scheme \<Rightarrow> 'b k78_scheme cres" where
  "k78_handler x signum = each_assigned (k78_interrupt x signum)"

definition k78_fire :: "'b k78_scheme intrctx \<Rightarrow> nat \<Rightarrow> 'b k78_scheme \<Rightarrow> 'b k78_scheme cres" where
  "k78_fire x i s =
     (let si = get_si i s in
      if si_signum si = -1 then Inr s
      else if k_hipri s \<and> si_prio si = 0 then Inr s
      else if 0 < si_nactive si then Inr s
      else ic_raise x (si_signum si) s)"

definition k78_fire_all :: "'b k78_scheme intrctx \<Rightarrow> 'b k78_scheme \<Rightarrow> 'b k78_scheme cres" where
  "k78_fire_all x s = (if \<not> k_enabled s then Inr s else each_assigned (k78_fire x) s)"

text \<open>The calls of \<open>pthread_sigmask\<close> are checked for -1 here.\<close>

definition k78_enable :: "'b k78_scheme intrctx \<Rightarrow> 'b k78_scheme \<Rightarrow> 'b k78_scheme cres" where
  "k78_enable x s =
     (let old = k_enabled s; s = s\<lparr> k_enabled := True \<rparr> in
      if old then Inr s
      else cbind (ic_sigmask x SIG_UNBLOCK (if k_hipri s then k_maskhigh s else k_maskall s) s) (\<lambda>(rc, _, s).
        if rc = -1 then Inl Exited else k78_fire_all x s))"

definition k78_disable :: "'b k78_scheme intrctx \<Rightarrow> 'b k78_scheme \<Rightarrow> 'b k78_scheme cres" where
  "k78_disable x s =
     (let old = k_enabled s in
      cbind (k78_fire_all x s) (\<lambda>s.
      let s = s\<lparr> k_enabled := False \<rparr> in
      if \<not> old then Inr s
      else cbind (ic_sigmask x SIG_BLOCK (k_maskall s) s) (\<lambda>(rc, _, s). if rc = -1 then Inl Exited else Inr s)))"

fun add_prio_signals :: "'b k78_scheme intrctx \<Rightarrow> nat list \<Rightarrow> 'b k78_scheme \<Rightarrow> 'b k78_scheme cres" where
    "add_prio_signals x [] s = Inr s"
  | "add_prio_signals x (i # is) s =
       (let signum = intr_signo x i; low = (si_prio (get_si i s) = 0);
            (rc, all) = sigaddset (ic_plat x) (k_maskall s) signum;
            (rc', m) = sigaddset (ic_plat x) (if low then k_masklow s else k_maskhigh s) signum
        in if rc = -1 \<or> rc' = -1 then Inl Exited
           else add_prio_signals x is
             (s\<lparr> k_maskall := all, k_masklow := if low then m else k_masklow s, k_maskhigh := if low then k_maskhigh s else m \<rparr>))"

definition k78_reinit :: "'b k78_scheme intrctx \<Rightarrow> u64 \<Rightarrow> (int \<times> string \<times> bool) option \<Rightarrow> 'b k78_scheme \<Rightarrow> 'b k78_scheme cres" where
  "k78_reinit x handler iv s =
     (if ic_rtsig_max x < in_nintrs s then Inl Exited
      else if in_nassigned s = in_nintrs s then Inr s
      else cbind (rvp_static_intr_interval iv) (\<lambda>interval.
        cbind (add_prio_signals x [in_nassigned s..<in_nintrs s] s) (\<lambda>s.
        establish_all x handler (k_maskall s) interval s)))"

section \<open>Personalities\<close>

text \<open>
  The operations that a controller provides. What it does not define is the weak default, which
  aborts; the personality \<open>none\<close> has nothing to set up.
\<close>

record 's personality =
  pe_init :: "'s \<Rightarrow> 's cres"
  pe_reinit :: "'s \<Rightarrow> 's cres"
  pe_enable :: "'s \<Rightarrow> 's cres"
  pe_disable :: "'s \<Rightarrow> 's cres"
  pe_splhigh :: "'s \<Rightarrow> (int \<times> 's) cres"
  pe_splx :: "int \<Rightarrow> 's \<Rightarrow> 's cres"
  pe_fire_all :: "'s \<Rightarrow> 's cres"

definition default_personality :: "'s personality" where
  "default_personality =
     \<lparr> pe_init = (\<lambda>s. Inl Aborted), pe_reinit = (\<lambda>s. Inl Aborted), pe_enable = (\<lambda>s. Inl Aborted),
       pe_disable = (\<lambda>s. Inl Aborted), pe_splhigh = (\<lambda>s. Inl Aborted), pe_splx = (\<lambda>level s. Inl Aborted),
       pe_fire_all = (\<lambda>s. Inl Aborted) \<rparr>"

definition none_personality :: "'s personality" where
  "none_personality = default_personality\<lparr> pe_init := Inr, pe_reinit := Inr \<rparr>"

definition basic_personality ::
    "'b basic_scheme intrctx \<Rightarrow> u64 \<Rightarrow> (int \<times> string \<times> bool) option \<Rightarrow> 'b basic_scheme personality" where
  "basic_personality x handler iv =
     \<lparr> pe_init = (\<lambda>s. Inr (basic_init s)), pe_reinit = basic_reinit x handler iv, pe_enable = basic_enable x,
       pe_disable = basic_disable x, pe_splhigh = basic_splhigh x, pe_splx = basic_splx x,
       pe_fire_all = basic_fire_all x \<rparr>"

definition k78_personality ::
    "'b k78_scheme intrctx \<Rightarrow> u64 \<Rightarrow> (int \<times> string \<times> bool) option \<Rightarrow> 'b k78_scheme personality" where
  "k78_personality x handler iv = default_personality
     \<lparr> pe_init := \<lambda>s. Inr (k78_init s), pe_reinit := k78_reinit x handler iv, pe_enable := k78_enable x,
       pe_disable := k78_disable x, pe_fire_all := k78_fire_all x \<rparr>"

end
