(* ===== verification/Intr_Laws.thy ===== *)
theory Intr_Laws
  imports Intr
begin

text \<open>
  What the controllers promise: which interrupts are raised, and that enabling interrupts lets every
  one of them run.
\<close>

section \<open>What a handler leaves alone\<close>

text \<open>
  A handler counts its runs; nothing else of the table of interrupts changes between its start and
  its end, nor does the signal mask.
\<close>

definition calm :: "rvp_static_intr \<Rightarrow> rvp_static_intr" where
  "calm si = si\<lparr> si_times := 0 \<rparr>"

definition kept :: "'a intrsys_scheme \<Rightarrow> 'a intrsys_scheme \<Rightarrow> bool" where
  "kept s s' \<longleftrightarrow> in_nassigned s' = in_nassigned s \<and> map calm (in_tab s') = map calm (in_tab s) \<and>
     in_mask s' = in_mask s \<and> in_action s' = in_action s"

lemma kept_refl [simp, intro]: "kept s s"
  by (simp add: kept_def)

lemma kept_trans [trans]: "kept s t \<Longrightarrow> kept t u \<Longrightarrow> kept s u"
  by (simp add: kept_def)

lemma kept_nassigned: "kept s s' \<Longrightarrow> in_nassigned s' = in_nassigned s"
  by (simp add: kept_def)

lemma kept_mask: "kept s s' \<Longrightarrow> in_mask s' = in_mask s"
  by (simp add: kept_def)

lemma kept_action: "kept s s' \<Longrightarrow> in_action s' = in_action s"
  by (simp add: kept_def)

lemma kept_length: "kept s s' \<Longrightarrow> length (in_tab s') = length (in_tab s)"
  by (metis kept_def length_map)

lemma calm_sel:
  assumes "calm a = calm b"
  shows "si_handler a = si_handler b" "si_prio a = si_prio b" "si_signum a = si_signum b" "si_nactive a = si_nactive b"
  using assms by (cases a; cases b; simp add: calm_def)+

lemma kept_calm: "kept s s' \<Longrightarrow> i < length (in_tab s) \<Longrightarrow> calm (get_si i s') = calm (get_si i s)"
  unfolding kept_def get_si_def by (metis length_map nth_map)

lemmas kept_sel = kept_calm [THEN calm_sel(1)] kept_calm [THEN calm_sel(2)] kept_calm [THEN calm_sel(3)]
  kept_calm [THEN calm_sel(4)]

lemma get_set_si [simp]:
  "get_si i (set_si j si s) = (if i = j \<and> j < length (in_tab s) then si else get_si i s)"
  by (cases "j < length (in_tab s)") (simp_all add: get_si_def set_si_def list_update_beyond)

lemma set_si_sel [simp]:
  "in_nassigned (set_si i si s) = in_nassigned s" "in_nintrs (set_si i si s) = in_nintrs s"
  "in_mask (set_si i si s) = in_mask s" "in_action (set_si i si s) = in_action s"
  "length (in_tab (set_si i si s)) = length (in_tab s)"
  by (simp_all add: set_si_def)

lemma in_tab_set_si: "in_tab (set_si i si s) = (in_tab s)[i := si]"
  by (simp add: set_si_def)

lemma kept_set_si:
  assumes "i < length (in_tab s)" and "kept s t" and "calm si = calm (get_si i s)"
  shows "kept s (set_si i si t)"
proof -
  have "map calm ((in_tab t)[i := si]) = (map calm (in_tab s))[i := calm (get_si i s)]"
    using assms by (simp add: kept_def map_update)
  also have "\<dots> = map calm (in_tab s)"
    using assms(1) by (metis get_si_def length_map list_update_id nth_map)
  finally show ?thesis
    using assms(2) by (simp add: kept_def in_tab_set_si)
qed

section \<open>Raising\<close>

fun raise_all :: "'a intrsys_scheme intrctx \<Rightarrow> int list \<Rightarrow> 'a intrsys_scheme \<Rightarrow> 'a intrsys_scheme cres" where
    "raise_all x [] s = Inr s"
  | "raise_all x (signum # signums) s = cbind (ic_raise x signum s) (raise_all x signums)"

lemma each_assigned_upto:
  assumes keeps: "\<And>i s s'. f i s = Inr s' \<Longrightarrow> in_nassigned s' = in_nassigned s"
    and "in_nassigned s \<le> 128"
  shows "each_assigned f s = for_assigned f [0..<in_nassigned s] s"
proof -
  have stop: "for_assigned f is s = Inr s" if "\<And>i. i \<in> set is \<Longrightarrow> in_nassigned s \<le> i" for "is" s
    using that by (cases "is") (simp_all add: leD)
  have app: "for_assigned f (is @ [in_nassigned s..<128]) s = for_assigned f is s" for "is" s
  proof (induction "is" arbitrary: s)
    case Nil
    show ?case using stop [of "[in_nassigned s..<128]"] by simp
  next
    case (Cons i "is")
    show ?case
    proof (cases "f i s")
      case (Inr s')
      have "in_nassigned s = in_nassigned s'" using keeps [OF Inr] by simp
      then show ?thesis using Cons.IH [of s'] Inr by simp
    qed simp
  qed
  have "[0..<128] = [0..<in_nassigned s] @ [in_nassigned s..<128]"
    using assms(2) by (metis le_add_diff_inverse upt_add_eq_append zero_le)
  then show ?thesis
    by (simp add: each_assigned_def app)
qed

lemma for_assigned_raise:
  assumes keeps: "\<And>signum s s'. ic_raise x signum s = Inr s' \<Longrightarrow> kept s s'"
  shows "\<forall>i\<in>set is. i < in_nassigned s \<and> i < length (in_tab s) \<Longrightarrow>
    for_assigned (raise_from x prio) is s =
      raise_all x (map (\<lambda>i. si_signum (get_si i s))
        (filter (\<lambda>i. prio \<le> si_prio (get_si i s) \<and> si_signum (get_si i s) \<noteq> -1) is)) s"
proof (induction "is" arbitrary: s)
  case (Cons i "is")
  show ?case
  proof (cases "prio \<le> si_prio (get_si i s) \<and> si_signum (get_si i s) \<noteq> -1")
    case False
    then have "raise_from x prio i s = Inr s"
      by (auto simp: raise_from_def Let_def)
    then show ?thesis using False Cons by auto
  next
    case True
    then have now: "raise_from x prio i s = ic_raise x (si_signum (get_si i s)) s"
      by (simp add: raise_from_def Let_def)
    show ?thesis
    proof (cases "ic_raise x (si_signum (get_si i s)) s")
      case (Inr s')
      have k: "kept s s'" by (rule keeps [OF Inr])
      have same: "si_signum (get_si j s') = si_signum (get_si j s)" "si_prio (get_si j s') = si_prio (get_si j s)"
        if "j \<in> set is" for j
        using that Cons.prems k by (auto intro: kept_sel)
      have ok: "\<forall>i\<in>set is. i < in_nassigned s' \<and> i < length (in_tab s')"
        using Cons.prems k by (simp add: kept_nassigned kept_length)
      have eq: "map (\<lambda>i. si_signum (get_si i s')) (filter (\<lambda>i. prio \<le> si_prio (get_si i s') \<and> si_signum (get_si i s') \<noteq> -1) is) =
          map (\<lambda>i. si_signum (get_si i s)) (filter (\<lambda>i. prio \<le> si_prio (get_si i s) \<and> si_signum (get_si i s) \<noteq> -1) is)"
        using same by (induction "is") simp_all
      show ?thesis
        using True Cons.prems Inr Cons.IH [OF ok] by (simp add: now eq)
    qed (use True Cons.prems now in simp)
  qed
qed simp

text \<open>The computed bound: it is passed exactly by the priorities above those of the running interrupts.\<close>

lemma lowest_prio_bound:
  assumes "\<And>j. j \<in> set is \<Longrightarrow> 0 < si_nactive (get_si j s) \<Longrightarrow> si_prio (get_si j s) \<noteq> INT32_MAX"
  shows "\<exists>b. lowest_prio s is prio = Inr b \<and>
    (\<forall>q. b \<le> q \<longleftrightarrow> prio \<le> q \<and> (\<forall>j\<in>set is. 0 < si_nactive (get_si j s) \<longrightarrow> si_prio (get_si j s) < q))"
  using assms
proof (induction "is" arbitrary: prio)
  case (Cons i "is")
  let ?p = "if prio > si_prio (get_si i s) then prio else if si_nactive (get_si i s) > 0 then si_prio (get_si i s) + 1 else prio"
  have step: "lowest_prio s (i # is) prio = lowest_prio s is ?p"
    using Cons.prems [of i] by (simp add: Let_def)
  obtain b where b: "lowest_prio s is ?p = Inr b"
      "\<And>q. b \<le> q \<longleftrightarrow> ?p \<le> q \<and> (\<forall>j\<in>set is. 0 < si_nactive (get_si j s) \<longrightarrow> si_prio (get_si j s) < q)"
    using Cons.IH [of ?p] Cons.prems by auto
  show ?case
    unfolding step b(1) by (intro exI [of _ b] conjI refl) (auto simp: b(2) split: if_splits)
qed simp

definition may_fire :: "'a intrsys_scheme \<Rightarrow> nat \<Rightarrow> bool" where
  "may_fire s i \<longleftrightarrow> si_signum (get_si i s) \<noteq> -1 \<and> 0 \<le> si_prio (get_si i s) \<and>
     (\<forall>j\<in>{..<in_nassigned s}. 0 < si_nactive (get_si j s) \<longrightarrow> si_prio (get_si j s) < si_prio (get_si i s))"

definition fired :: "'a intrsys_scheme \<Rightarrow> int list" where
  "fired s = map (\<lambda>i. si_signum (get_si i s)) (filter (may_fire s) [0..<in_nassigned s])"

definition table_ok :: "'a intrsys_scheme \<Rightarrow> bool" where
  "table_ok s \<longleftrightarrow> in_nassigned s \<le> 128 \<and> in_nassigned s \<le> length (in_tab s) \<and>
     (\<forall>j<in_nassigned s. si_prio (get_si j s) < INT32_MAX)"

lemma basic_fire_all_spec:
  assumes keeps: "\<And>signum s s'. ic_raise x signum s = Inr s' \<Longrightarrow> kept s s'" and ok: "table_ok s"
  shows "basic_fire_all x s = raise_all x (fired s) s"
proof -
  have "\<exists>b. lowest_prio s [0..<in_nassigned s] 0 = Inr b \<and> (\<forall>q. b \<le> q \<longleftrightarrow> 0 \<le> q \<and>
      (\<forall>j\<in>set [0..<in_nassigned s]. 0 < si_nactive (get_si j s) \<longrightarrow> si_prio (get_si j s) < q))"
    using ok by (intro lowest_prio_bound) (auto simp: table_ok_def)
  then obtain b where b: "lowest_prio s [0..<in_nassigned s] 0 = Inr b"
      "\<And>q. b \<le> q \<longleftrightarrow> 0 \<le> q \<and> (\<forall>j\<in>{..<in_nassigned s}. 0 < si_nactive (get_si j s) \<longrightarrow> si_prio (get_si j s) < q)"
    by (auto simp: atLeast0LessThan)
  have each: "each_assigned (raise_from x b) s = for_assigned (raise_from x b) [0..<in_nassigned s] s"
    using ok by (intro each_assigned_upto)
      (auto simp: raise_from_def Let_def table_ok_def split: if_splits dest: keeps [THEN kept_nassigned])
  have all: "\<forall>i\<in>set [0..<in_nassigned s]. i < in_nassigned s \<and> i < length (in_tab s)"
    using ok by (auto simp: table_ok_def)
  have "(\<lambda>i. b \<le> si_prio (get_si i s) \<and> si_signum (get_si i s) \<noteq> -1) = may_fire s"
    by (auto simp: may_fire_def b(2))
  then show ?thesis
    by (simp add: basic_fire_all_def b(1) each fired_def for_assigned_raise [OF keeps all])
qed

section \<open>Every interrupt runs\<close>

text \<open>
  The kernel: a signal that is not blocked and has the handler \<open>h\<close> is handled before \<open>raise\<close>
  returns, with the signals of its action and itself blocked; a raise leaves the table balanced.
  Unblocking succeeds, and may run handlers of pending signals. The timers do not go off meanwhile.
  \<open>log\<close> is what the handlers write: a handler writes that it ran, and leaves the table balanced.
\<close>

definition same_intrs :: "'b basic_scheme \<Rightarrow> 'b basic_scheme \<Rightarrow> bool" where
  "same_intrs s s' \<longleftrightarrow> kept s s' \<and> ba_intr_mask s' = ba_intr_mask s"

definition delivers :: "u64 \<Rightarrow> 'b basic_scheme intrctx \<Rightarrow> bool" where
  "delivers h x \<longleftrightarrow>
     (\<forall>signum s. \<not> in_mask s signum \<longrightarrow> fst (in_action s signum) = h \<longrightarrow>
        ic_raise x signum s =
          cbind (basic_handler x signum (s\<lparr> in_mask := \<lambda>j. in_mask s j \<or> snd (in_action s signum) j \<or> j = signum \<rparr>))
            (\<lambda>s'. Inr (s'\<lparr> in_mask := in_mask s \<rparr>))) \<and>
     (\<forall>signum s s'. ic_raise x signum s = Inr s' \<longrightarrow> kept s s')"

definition unblocks :: "('b \<Rightarrow> u64 set) \<Rightarrow> 'b basic_scheme intrctx \<Rightarrow> bool" where
  "unblocks log x \<longleftrightarrow>
     (\<forall>m s. \<exists>s'. ic_sigmask x SIG_UNBLOCK m s = Inr (0, in_mask s, s') \<and>
        same_intrs (s\<lparr> in_mask := \<lambda>j. in_mask s j \<and> \<not> m j \<rparr>) s' \<and> log (basic.more s) \<subseteq> log (basic.more s'))"

definition code_runs :: "('b \<Rightarrow> u64 set) \<Rightarrow> 'b basic_scheme intrctx \<Rightarrow> bool" where
  "code_runs log x \<longleftrightarrow>
     (\<forall>isr s. \<exists>s'. ic_code x isr s = Inr s' \<and> same_intrs s s' \<and>
        insert isr (log (basic.more s)) \<subseteq> log (basic.more s'))"

text \<open>What \<open>basic_reinit\<close> sets up: each interrupt has its own signal, with the handler.\<close>

definition established :: "u64 \<Rightarrow> 'b basic_scheme intrctx \<Rightarrow> 'b basic_scheme \<Rightarrow> bool" where
  "established h x s \<longleftrightarrow> in_nassigned s \<le> 128 \<and> in_nassigned s \<le> length (in_tab s) \<and> 0 \<le> ic_rtmin x \<and>
     (\<forall>i<in_nassigned s. si_signum (get_si i s) = intr_signo x i \<and> fst (in_action s (intr_signo x i)) = h \<and>
        ba_intr_mask s (intr_signo x i))"

lemma same_intrs_trans: "same_intrs s t \<Longrightarrow> same_intrs t u \<Longrightarrow> same_intrs s u"
  by (auto simp: same_intrs_def intro: kept_trans)

lemma same_intrs_refl [simp]: "same_intrs s s"
  by (simp add: same_intrs_def)

lemma established_same:
  assumes "same_intrs s s'" "established h x s"
  shows "established h x s'"
  using assms
  by (auto simp: established_def same_intrs_def kept_nassigned kept_length kept_action kept_sel)

lemma basic_sel_set_si [simp]:
  "ba_intr_mask (set_si i si s) = ba_intr_mask s" "basic.more (set_si i si s) = basic.more s"
  by (simp_all add: set_si_def)

lemma for_assigned_skip: "\<forall>j\<in>set is. f j s = Inr s \<Longrightarrow> for_assigned f is s = Inr s"
  by (induction "is") simp_all

lemma for_assigned_append:
  "\<forall>j\<in>set js. j < in_nassigned s \<and> f j s = Inr s \<Longrightarrow> for_assigned f (js @ is) s = for_assigned f is s"
  by (induction js) simp_all

lemma each_assigned_one:
  assumes i: "i < in_nassigned s" "in_nassigned s \<le> 128" and f: "f i s = Inr s'"
    and before: "\<And>j. j < i \<Longrightarrow> f j s = Inr s" and after: "\<And>j. i < j \<Longrightarrow> f j s' = Inr s' \<or> in_nassigned s' \<le> j"
  shows "each_assigned f s = Inr s'"
proof -
  have split: "[0..<128] = [0..<i] @ i # [Suc i..<128]"
    using i by (metis le_add_diff_inverse less_imp_le_nat less_le_trans upt_add_eq_append upt_conv_Cons zero_le)
  have rest: "for_assigned f js s' = Inr s'" if "\<forall>j\<in>set js. i < j" for js
    using that after by (induction js) fastforce+
  show ?thesis
    unfolding each_assigned_def split
    using i f before rest [of "[Suc i..<128]"] by (subst for_assigned_append) auto
qed

lemma run_isr_keeps:
  assumes i: "i < length (in_tab s)" and code: "code_runs log x"
  shows "\<exists>s'. run_isr x i s = Inr s' \<and> same_intrs s s' \<and>
    insert (si_handler (get_si i s)) (log (basic.more s)) \<subseteq> log (basic.more s')"
proof -
  let ?s1 = "set_si i ((get_si i s)\<lparr> si_nactive := si_nactive (get_si i s) + 1 \<rparr>) s"
  have "\<exists>t. ic_code x (si_handler (get_si i s)) ?s1 = Inr t \<and> same_intrs ?s1 t \<and>
      insert (si_handler (get_si i s)) (log (basic.more ?s1)) \<subseteq> log (basic.more t)"
    using code unfolding code_runs_def by blast
  then obtain t where t: "ic_code x (si_handler (get_si i s)) ?s1 = Inr t" "same_intrs ?s1 t"
      "insert (si_handler (get_si i s)) (log (basic.more s)) \<subseteq> log (basic.more t)"
    by auto
  let ?si = "(get_si i t)\<lparr> si_nactive := si_nactive (get_si i t) - 1 \<rparr>"
  have k: "kept ?s1 t" and m: "ba_intr_mask t = ba_intr_mask s"
    using t(2) by (simp_all add: same_intrs_def)
  have c: "calm ?si = calm (get_si i s)"
    using kept_calm [OF k, of i] i by (cases "get_si i t"; cases "get_si i s") (simp add: calm_def)
  have "kept s (set_si i ?si t)"
  proof -
    have l: "length (in_tab t) = length (in_tab s)"
      using kept_length [OF k] by simp
    have "map calm ((in_tab t)[i := ?si]) = (map calm (in_tab ?s1))[i := calm (get_si i s)]"
      using k c by (simp add: kept_def map_update)
    also have "\<dots> = map calm (in_tab s)"
      using i by (simp add: in_tab_set_si map_update get_si_def) (metis list_update_id map_update)
    finally show ?thesis
      using k by (simp add: kept_def in_tab_set_si)
  qed
  then show ?thesis
    using t m by (simp add: run_isr_def Let_def same_intrs_def)
qed

lemma count_isr_keeps: "i < length (in_tab s) \<Longrightarrow> same_intrs s t \<Longrightarrow> same_intrs s (count_isr i t)"
  by (auto simp: same_intrs_def count_isr_def Let_def calm_def [abs_def] intro!: kept_set_si)
    (metis calm_def kept_calm)

lemma basic_handler_runs:
  assumes i: "i < in_nassigned s" and code: "code_runs log x" and est: "established h x s"
    and idle: "si_nactive (get_si i s) = 0"
  shows "\<exists>s'. basic_handler x (intr_signo x i) s = Inr s' \<and> same_intrs s s' \<and>
    insert (si_handler (get_si i s)) (log (basic.more s)) \<subseteq> log (basic.more s')"
proof -
  have len: "i < length (in_tab s)" "in_nassigned s \<le> 128"
    using i est by (auto simp: established_def)
  obtain t where t: "run_isr x i s = Inr t" "same_intrs s t"
      "insert (si_handler (get_si i s)) (log (basic.more s)) \<subseteq> log (basic.more t)"
    using run_isr_keeps [OF len(1) code] by blast
  have own: "basic_interrupt x (intr_signo x i) j u = Inr u" if "j < in_nassigned u" "j \<noteq> i" "established h x u" for j u
    using that by (simp add: basic_interrupt_def established_def intr_signo_def)
  have run: "basic_interrupt x (intr_signo x i) i s = Inr (count_isr i t)"
    using i est idle t(1) by (simp add: basic_interrupt_def established_def)
  have same: "same_intrs s (count_isr i t)"
    by (rule count_isr_keeps [OF len(1) t(2)])
  then have est': "established h x (count_isr i t)"
    by (rule established_same [OF _ est])
  have more: "basic.more (count_isr i t) = basic.more t"
    by (simp add: count_isr_def Let_def)
  have "basic_handler x (intr_signo x i) s = Inr (count_isr i t)"
    unfolding basic_handler_def
  proof (rule each_assigned_one [where f = "basic_interrupt x (intr_signo x i)" and i = i, OF i len(2) run])
    show "basic_interrupt x (intr_signo x i) j s = Inr s" if "j < i" for j
      using that i est by (intro own) auto
    show "basic_interrupt x (intr_signo x i) j (count_isr i t) = Inr (count_isr i t) \<or> in_nassigned (count_isr i t) \<le> j"
      if "i < j" for j
      using that own [OF _ _ est', of j] by auto
  qed
  then show ?thesis
    using same t(3) by (simp add: more)
qed

lemma raise_runs:
  assumes i: "i < in_nassigned s" and free: "\<not> in_mask s (intr_signo x i)" and idle: "si_nactive (get_si i s) = 0"
    and x: "delivers h x" "code_runs log x" and est: "established h x s"
  shows "\<exists>s'. ic_raise x (intr_signo x i) s = Inr s' \<and> same_intrs s s' \<and>
    insert (si_handler (get_si i s)) (log (basic.more s)) \<subseteq> log (basic.more s')"
proof -
  let ?m = "\<lambda>j. in_mask s j \<or> snd (in_action s (intr_signo x i)) j \<or> j = intr_signo x i"
  let ?t = "s\<lparr> in_mask := ?m \<rparr>"
  have t: "get_si j ?t = get_si j s" for j
    by (simp add: get_si_def)
  have est': "established h x ?t"
    using est by (simp add: established_def t)
  obtain u where u: "basic_handler x (intr_signo x i) ?t = Inr u" "same_intrs ?t u"
      "insert (si_handler (get_si i s)) (log (basic.more s)) \<subseteq> log (basic.more u)"
    using basic_handler_runs [of i ?t, OF _ x(2) est'] i idle by (auto simp: t)
  have "ic_raise x (intr_signo x i) s = cbind (basic_handler x (intr_signo x i) ?t) (\<lambda>s'. Inr (s'\<lparr> in_mask := in_mask s \<rparr>))"
    using x(1) free i est unfolding delivers_def established_def by blast
  also have "\<dots> = Inr (u\<lparr> in_mask := in_mask s \<rparr>)"
    by (simp add: u(1))
  finally show ?thesis
    using u(2,3) by (simp add: same_intrs_def kept_def)
qed

lemma raise_all_runs:
  assumes x: "delivers h x" "code_runs log x"
  shows "\<forall>i\<in>set is. i < in_nassigned s \<and> \<not> in_mask s (intr_signo x i) \<and> si_nactive (get_si i s) = 0 \<Longrightarrow>
    established h x s \<Longrightarrow>
    \<exists>s'. raise_all x (map (intr_signo x) is) s = Inr s' \<and> same_intrs s s' \<and>
      log (basic.more s) \<subseteq> log (basic.more s') \<and> (\<forall>i\<in>set is. si_handler (get_si i s) \<in> log (basic.more s'))"
proof (induction "is" arbitrary: s)
  case (Cons i "is")
  obtain t where t: "ic_raise x (intr_signo x i) s = Inr t" "same_intrs s t"
      "insert (si_handler (get_si i s)) (log (basic.more s)) \<subseteq> log (basic.more t)"
    using raise_runs [of i s, OF _ _ _ x Cons.prems(2)] Cons.prems(1) by auto
  have est: "established h x t"
    by (rule established_same [OF t(2) Cons.prems(2)])
  have k: "kept s t"
    using t(2) by (simp add: same_intrs_def)
  have len: "j < length (in_tab s)" if "j \<in> set is" for j
    using that Cons.prems by (force simp: established_def)
  have rest: "\<forall>j\<in>set is. j < in_nassigned t \<and> \<not> in_mask t (intr_signo x j) \<and> si_nactive (get_si j t) = 0"
    using Cons.prems(1) len by (simp add: kept_nassigned [OF k] kept_mask [OF k] kept_sel [OF k])
  obtain u where "raise_all x (map (intr_signo x) is) t = Inr u" "same_intrs t u"
      "log (basic.more t) \<subseteq> log (basic.more u)" "\<forall>j\<in>set is. si_handler (get_si j t) \<in> log (basic.more u)"
    using Cons.IH [OF rest est] by blast
  then show ?case
    using t same_intrs_trans [OF t(2)] len by (fastforce simp: kept_sel [OF k])
qed auto

text \<open>Who may fire is idle: no interrupt of its priority or above runs.\<close>

lemma may_fire_idle: "may_fire s i \<Longrightarrow> i < in_nassigned s \<Longrightarrow> \<not> 0 < si_nactive (get_si i s)"
  by (auto simp: may_fire_def)

lemma may_fire_kept:
  assumes "kept s t" "in_nassigned s \<le> length (in_tab s)" "i < in_nassigned s"
  shows "may_fire t i = may_fire s i"
  using assms by (simp add: may_fire_def kept_nassigned kept_sel)

definition active_ok :: "'a intrsys_scheme \<Rightarrow> bool" where
  "active_ok s \<longleftrightarrow> (\<forall>j<in_nassigned s. 0 \<le> si_nactive (get_si j s) \<and> si_prio (get_si j s) < INT32_MAX)"

lemma basic_fire_all_runs:
  assumes x: "delivers h x" "code_runs log x" and est: "established h x s" and act: "active_ok s"
    and free: "\<forall>i<in_nassigned s. \<not> in_mask s (intr_signo x i)"
  shows "\<exists>s'. basic_fire_all x s = Inr s' \<and> same_intrs s s' \<and> log (basic.more s) \<subseteq> log (basic.more s') \<and>
    (\<forall>i<in_nassigned s. may_fire s i \<longrightarrow> si_handler (get_si i s) \<in> log (basic.more s'))"
proof -
  let ?is = "filter (may_fire s) [0..<in_nassigned s]"
  have ok: "table_ok s"
    using est act by (simp add: established_def active_ok_def table_ok_def)
  have "fired s = map (intr_signo x) ?is"
    using est by (simp add: fired_def established_def)
  then have fa: "basic_fire_all x s = raise_all x (map (intr_signo x) ?is) s"
    using basic_fire_all_spec [OF _ ok] x(1) by (simp add: delivers_def)
  have idle: "si_nactive (get_si i s) = 0" if "i < in_nassigned s" "may_fire s i" for i
  proof -
    have "0 \<le> si_nactive (get_si i s)"
      using act that(1) by (simp add: active_ok_def)
    then show ?thesis
      using may_fire_idle [OF that(2,1)] by simp
  qed
  have "\<forall>i\<in>set ?is. i < in_nassigned s \<and> \<not> in_mask s (intr_signo x i) \<and> si_nactive (get_si i s) = 0"
    using free idle by simp
  from raise_all_runs [OF x this est] show ?thesis
    unfolding fa by (simp add: imp_conjL)
qed

lemma basic_enable_runs:
  assumes x: "delivers h x" "code_runs log x" "unblocks log x" and est: "established h x s" and act: "active_ok s"
  shows "\<exists>s'. basic_enable x s = Inr s' \<and> in_mask s' = (\<lambda>j. in_mask s j \<and> \<not> ba_intr_mask s j) \<and>
    (\<forall>i<in_nassigned s. may_fire s i \<longrightarrow> si_handler (get_si i s) \<in> log (basic.more s'))"
proof -
  let ?s = "s\<lparr> ba_ipl := RVP_IPL_0 \<rparr>" and ?m = "\<lambda>j. in_mask s j \<and> \<not> ba_intr_mask s j"
  have get: "get_si j (?s\<lparr> in_mask := ?m \<rparr>) = get_si j s" for j
    by (simp add: get_si_def)
  have "\<exists>t. ic_sigmask x SIG_UNBLOCK (ba_intr_mask s) ?s = Inr (0, in_mask ?s, t) \<and>
      same_intrs (?s\<lparr> in_mask := \<lambda>j. in_mask ?s j \<and> \<not> ba_intr_mask s j \<rparr>) t \<and> log (basic.more ?s) \<subseteq> log (basic.more t)"
    using x(3) unfolding unblocks_def by blast
  then obtain t where t: "ic_sigmask x SIG_UNBLOCK (ba_intr_mask s) ?s = Inr (0, in_mask s, t)"
      "same_intrs (?s\<lparr> in_mask := ?m \<rparr>) t"
    by auto
  let ?u = "?s\<lparr> in_mask := ?m \<rparr>"
  have k: "kept ?u t"
    using t(2) by (simp add: same_intrs_def)
  have n: "in_nassigned ?u = in_nassigned s" "in_nassigned t = in_nassigned s"
    using kept_nassigned [OF k] by simp_all
  have len: "in_nassigned ?u \<le> length (in_tab ?u)"
    using est by (simp add: established_def)
  have sel: "si_handler (get_si j t) = si_handler (get_si j s)" "si_prio (get_si j t) = si_prio (get_si j s)"
      "si_nactive (get_si j t) = si_nactive (get_si j s)" if "j < in_nassigned s" for j
    using kept_sel [OF k, of j] that len by (simp_all add: get)
  have "established h x ?u"
    using est by (simp add: established_def get)
  then have est': "established h x t"
    by (rule established_same [OF t(2)])
  have act': "active_ok t"
    using act by (simp add: active_ok_def n sel)
  have m: "in_mask t = ?m"
    using kept_mask [OF k] by simp
  have free: "\<forall>i<in_nassigned t. \<not> in_mask t (intr_signo x i)"
    using est by (simp add: m n established_def)
  obtain v where v: "basic_fire_all x t = Inr v" "same_intrs t v"
      "\<forall>i<in_nassigned t. may_fire t i \<longrightarrow> si_handler (get_si i t) \<in> log (basic.more v)"
    using basic_fire_all_runs [OF x(1,2) est' act' free] by blast
  have may: "may_fire t i = may_fire s i" if "i < in_nassigned s" for i
    using may_fire_kept [OF k len, of i] that by (simp add: may_fire_def get)
  have "basic_enable x s = Inr v"
    by (simp add: basic_enable_def Let_def t(1) v(1))
  moreover have "in_mask v = ?m"
    using v(2) m by (simp add: same_intrs_def kept_def)
  ultimately show ?thesis
    using v(3) by (simp add: n may sel)
qed

section \<open>Establishing the signals\<close>

text \<open>The calls that set up signals succeed, and do what POSIX says. The timers have not gone off.\<close>

definition posix_setup :: "'a intrsys_scheme intrctx \<Rightarrow> bool" where
  "posix_setup x \<longleftrightarrow>
     (\<forall>m s. ic_sigmask x SIG_BLOCK m s = Inr (0, in_mask s, s\<lparr> in_mask := \<lambda>j. in_mask s j \<or> m j \<rparr>)) \<and>
     (\<forall>signum a s. ic_sigaction x signum (Some a) s =
        Inr (0, in_action s signum, s\<lparr> in_action := (in_action s)(signum := a) \<rparr>)) \<and>
     (\<forall>signum interval s. ic_timer x signum interval s = Inr (0, s))"

lemma set_actions_spec:
  assumes "posix_setup x"
  shows "\<exists>s'. set_actions x h m is s = Inr s' \<and>
    s' = s\<lparr> in_action := \<lambda>j. if j \<in> intr_signo x ` set is then (h, m) else in_action s j \<rparr>"
  using assms by (induction "is" arbitrary: s) (auto simp: posix_setup_def fun_eq_iff)

lemma intr_signo_inj [simp]: "intr_signo x i = intr_signo x j \<longleftrightarrow> i = j"
  by (simp add: intr_signo_def)

lemma establish_signals_spec:
  assumes x: "posix_setup x"
  shows "\<forall>i\<in>set is. i < length (in_tab s) \<Longrightarrow> \<exists>s'. establish_signals x h m interval is s = Inr s' \<and>
    s' = s\<lparr> in_tab := in_tab s', in_action := \<lambda>j. if j \<in> intr_signo x ` set is then (h, m) else in_action s j \<rparr> \<and>
    length (in_tab s') = length (in_tab s) \<and>
    (\<forall>j<length (in_tab s). get_si j s' = (if j \<in> set is then (get_si j s)\<lparr> si_signum := intr_signo x j \<rparr> else get_si j s))"
proof (induction "is" arbitrary: s)
  case (Cons i "is")
  let ?t = "(set_si i ((get_si i s)\<lparr> si_signum := intr_signo x i \<rparr>) s)\<lparr> in_action := (in_action s)(intr_signo x i := (h, m)) \<rparr>"
  have get: "get_si j ?t = get_si j (set_si i ((get_si i s)\<lparr> si_signum := intr_signo x i \<rparr>) s)" for j
    by (simp add: get_si_def)
  have step: "establish_signals x h m interval (i # is) s = establish_signals x h m interval is ?t"
    using x by (simp add: posix_setup_def Let_def)
  obtain u where u: "establish_signals x h m interval is ?t = Inr u"
      "u = ?t\<lparr> in_tab := in_tab u, in_action := \<lambda>j. if j \<in> intr_signo x ` set is then (h, m) else in_action ?t j \<rparr>"
      "length (in_tab u) = length (in_tab s)"
      "\<forall>j<length (in_tab s). get_si j u = (if j \<in> set is then (get_si j ?t)\<lparr> si_signum := intr_signo x j \<rparr> else get_si j ?t)"
    using Cons.IH [of ?t] Cons.prems by (auto simp: set_si_def)
  have tab: "u = s\<lparr> in_tab := in_tab u, in_action := \<lambda>j. if j \<in> intr_signo x ` set (i # is) then (h, m) else in_action s j \<rparr>"
    by (subst u(2)) (auto simp: set_si_def fun_eq_iff)
  show ?case
    unfolding step u(1) using tab u(3,4) Cons.prems by (intro exI [of _ u]) (auto simp: get)
qed auto

lemma add_signals_spec:
  assumes "\<And>i. i \<in> set is \<Longrightarrow> fst (sigaddset (ic_plat x) sigemptyset (intr_signo x i)) = 0"
  shows "\<exists>m'. add_signals x is m = Inr m' \<and> (\<forall>j. m' j \<longleftrightarrow> m j \<or> j \<in> intr_signo x ` set is)"
  using assms
proof (induction "is" arbitrary: m)
  case (Cons i "is")
  have "sigaddset (ic_plat x) m (intr_signo x i) = (0, m(intr_signo x i := True))"
    using Cons.prems [of i] by (auto simp: sigaddset_def split: if_splits)
  moreover obtain m' where "add_signals x is (m(intr_signo x i := True)) = Inr m'"
      "\<forall>j. m' j \<longleftrightarrow> (m(intr_signo x i := True)) j \<or> j \<in> intr_signo x ` set is"
    using Cons.IH [of "m(intr_signo x i := True)"] Cons.prems by (auto simp del: fun_upd_apply)
  ultimately show ?case
    by (intro exI [of _ m']) (auto simp del: fun_upd_apply, auto)
qed simp

text \<open>Interrupts that were registered, but do not run: some may have been assigned a signal before.\<close>

definition ready :: "u64 \<Rightarrow> 'b basic_scheme intrctx \<Rightarrow> 'b basic_scheme \<Rightarrow> bool" where
  "ready h x s \<longleftrightarrow> established h x s \<and> in_nassigned s \<le> in_nintrs s \<and> in_nintrs s \<le> ic_rtsig_max x \<and>
     in_nintrs s \<le> length (in_tab s) \<and> in_nintrs s \<le> 128 \<and>
     (\<forall>i<in_nintrs s. si_nactive (get_si i s) = 0 \<and> 0 \<le> si_prio (get_si i s) \<and> si_prio (get_si i s) < INT32_MAX \<and>
        fst (sigaddset (ic_plat x) sigemptyset (intr_signo x i)) = 0 \<and>
        (in_nassigned s \<le> i \<longrightarrow> \<not> in_mask s (intr_signo x i)))"

lemma basic_reinit_establishes:
  assumes x: "posix_setup x" and s: "ready h x s" and iv: "rvp_static_intr_interval iv = Inr interval"
  shows "\<exists>s'. basic_reinit x h iv s = Inr s' \<and> established h x s' \<and> in_nassigned s' = in_nintrs s \<and>
    (\<forall>i<in_nintrs s. si_handler (get_si i s') = si_handler (get_si i s) \<and> si_prio (get_si i s') = si_prio (get_si i s) \<and>
       si_nactive (get_si i s') = 0)"
proof (cases "in_nassigned s = in_nintrs s")
  case True
  then show ?thesis
    using s by (intro exI [of _ s]) (simp add: basic_reinit_def ready_def)
next
  case False
  let ?new = "[in_nassigned s..<in_nintrs s]"
  obtain m where m: "add_signals x ?new (ba_intr_mask s) = Inr m"
      "\<And>j. m j \<longleftrightarrow> ba_intr_mask s j \<or> j \<in> intr_signo x ` set ?new"
    using add_signals_spec [of ?new x "ba_intr_mask s"] s by (auto simp: ready_def)
  define t where "t = s\<lparr> ba_intr_mask := m, in_mask := \<lambda>j. in_mask s j \<or> m j \<rparr>"
  have block: "block_new_signals x m (s\<lparr> ba_intr_mask := m \<rparr>) = Inr t"
    using x s by (auto simp: block_new_signals_def posix_setup_def ready_def sigismember_def t_def)
  let ?act = "\<lambda>j. if j \<in> intr_signo x ` set [0..<in_nassigned s] then (h, m) else in_action s j"
  have old: "set_actions x h m [0..<in_nassigned s] t = Inr (t\<lparr> in_action := ?act \<rparr>)"
  proof -
    have a: "in_action t = in_action s"
      by (simp add: t_def)
    show ?thesis
      using set_actions_spec [OF x, of h m "[0..<in_nassigned s]" t] unfolding a by blast
  qed
  define t' where "t' = t\<lparr> in_action := ?act \<rparr>"
  have t': "in_action t' = ?act" "in_tab t' = in_tab s" "get_si j t' = get_si j s" for j
    by (simp_all add: t'_def t_def get_si_def)
  have "\<forall>i\<in>set ?new. i < length (in_tab t')"
    using s by (auto simp: ready_def t'(2))
  from establish_signals_spec [OF x this, of h m interval, unfolded t']
  obtain u where u: "establish_signals x h m interval ?new t' = Inr u"
      "u = t'\<lparr> in_tab := in_tab u, in_action := \<lambda>j. if j \<in> intr_signo x ` set ?new then (h, m) else ?act j \<rparr>"
      "length (in_tab u) = length (in_tab s)"
      "\<forall>j<length (in_tab s). get_si j u = (if j \<in> set ?new then (get_si j s)\<lparr> si_signum := intr_signo x j \<rparr> else get_si j s)"
    by blast
  have sel: "in_nassigned t = in_nassigned s" "in_nintrs t = in_nintrs s" "in_nintrs u = in_nintrs s"
    by (simp add: t_def, simp add: t_def, subst u(2), simp add: t'_def t_def)
  have act: "in_action u j = (if j \<in> intr_signo x ` set ?new then (h, m) else ?act j)"
    and mask: "ba_intr_mask u = m" for j
    by (subst u(2), simp, subst u(2), simp add: t'_def t_def)
  have old': "set_actions x h m [0..<in_nassigned s] t = Inr t'" and n': "in_nassigned t' = in_nassigned s" "in_nintrs t' = in_nintrs s"
    using old by (simp_all add: t'_def sel)
  have run: "basic_reinit x h iv s = Inr (u\<lparr> in_nassigned := in_nintrs s \<rparr>)"
    using False s
    by (simp add: basic_reinit_def ready_def iv m(1) establish_all_def block old' sel n' u(1))
  have est: "established h x (u\<lparr> in_nassigned := in_nintrs s \<rparr>)"
    using s u(3,4) by (auto simp: established_def ready_def get_si_def act mask m(2))
  show ?thesis
    unfolding run using est s u(4) by (intro exI conjI refl) (auto simp: ready_def get_si_def)
qed

lemma reinit_then_enable:
  assumes x: "delivers h x" "code_runs log x" "unblocks log x" "posix_setup x" and s: "ready h x s"
    and iv: "rvp_static_intr_interval iv = Inr interval"
  shows "\<exists>s' s''. basic_reinit x h iv s = Inr s' \<and> basic_enable x s' = Inr s'' \<and>
    (\<forall>i<in_nintrs s. si_handler (get_si i s) \<in> log (basic.more s''))"
proof -
  obtain t where t: "basic_reinit x h iv s = Inr t" "established h x t" "in_nassigned t = in_nintrs s"
      "\<forall>i<in_nintrs s. si_handler (get_si i t) = si_handler (get_si i s) \<and> si_prio (get_si i t) = si_prio (get_si i s) \<and>
         si_nactive (get_si i t) = 0"
    using basic_reinit_establishes [OF x(4) s iv] by blast
  have "active_ok t"
    using s t(3,4) by (auto simp: active_ok_def ready_def)
  from basic_enable_runs [OF x(1-3) t(2) this] obtain u where u: "basic_enable x t = Inr u"
      "\<forall>i<in_nassigned t. may_fire t i \<longrightarrow> si_handler (get_si i t) \<in> log (basic.more u)"
    by blast
  have "may_fire t i" if "i < in_nintrs s" for i
    using s t(2-4) that by (auto simp: may_fire_def ready_def established_def intr_signo_def)
  then show ?thesis
    using t u by auto
qed

text \<open>Handlers are balanced, whatever the table holds.\<close>

lemma run_isr_balanced:
  assumes "code_runs log x" and "run_isr x i s = Inr s'"
  shows "same_intrs s s'"
proof (cases "i < length (in_tab s)")
  case True
  then show ?thesis
    using run_isr_keeps [OF True assms(1)] assms(2) by auto
next
  case False
  have beyond: "set_si i si u = u" if "\<not> i < length (in_tab u)" for si and u :: "'a basic_scheme"
    using that by (simp add: set_si_def list_update_beyond)
  obtain t where t: "ic_code x (si_handler (get_si i s)) s = Inr t" "same_intrs s t"
    using assms(1) unfolding code_runs_def by blast
  then have "\<not> i < length (in_tab t)"
    using False by (auto simp: same_intrs_def dest: kept_length)
  then show ?thesis
    using False t assms(2) by (simp add: run_isr_def Let_def beyond)
qed

lemma count_isr_balanced: "same_intrs s (count_isr i s)"
proof (cases "i < length (in_tab s)")
  case True
  then show ?thesis
    by (simp add: count_isr_keeps)
next
  case False
  then show ?thesis
    by (simp add: count_isr_def Let_def set_si_def list_update_beyond)
qed

lemma basic_handler_balanced:
  assumes x: "code_runs log x" and "basic_handler x signum s = Inr s'"
  shows "same_intrs s s'"
proof -
  have one: "same_intrs u u'" if u: "basic_interrupt x signum i u = Inr u'" for i u u'
    using u count_isr_balanced same_intrs_trans [OF run_isr_balanced [OF x] count_isr_balanced]
    by (auto simp: basic_interrupt_def cbind_eq_Inr split: if_splits)
  have "for_assigned (basic_interrupt x signum) is u = Inr u' \<Longrightarrow> same_intrs u u'" for "is" u u'
    by (induction "is" arbitrary: u) (auto simp: cbind_eq_Inr split: if_splits dest: one intro: same_intrs_trans)
  then show ?thesis
    using assms(2) by (simp add: basic_handler_def each_assigned_def)
qed

text \<open>A kernel where signals that are not blocked are handled at once.\<close>

definition quiet_ctx :: "(u64 set) basic_scheme intrctx" where
  "quiet_ctx =
     \<lparr> ic_plat = linux_signals, ic_signals = plat_tab linux_signals, ic_rtmin = 34, ic_rtsig_max = 8, ic_raise = (\<lambda>signum s. Inr s),
       ic_sigmask = (\<lambda>how m s. Inr (0, in_mask s,
         s\<lparr> in_mask := \<lambda>j. if how = SIG_BLOCK then in_mask s j \<or> m j
                          else if how = SIG_UNBLOCK then in_mask s j \<and> \<not> m j else m j \<rparr>)),
       ic_sigaction = (\<lambda>signum a s. Inr (0, in_action s signum,
         case a of None \<Rightarrow> s | Some a \<Rightarrow> s\<lparr> in_action := (in_action s)(signum := a) \<rparr>)),
       ic_timer = (\<lambda>signum interval s. Inr (0, s)),
       ic_code = (\<lambda>isr s. Inr (basic.more_update (insert isr) s)) \<rparr>"

definition prompt_ctx :: "u64 \<Rightarrow> (u64 set) basic_scheme intrctx" where
  "prompt_ctx h = quiet_ctx\<lparr> ic_raise := \<lambda>signum s.
     if in_mask s signum \<or> fst (in_action s signum) \<noteq> h then Inr s
     else cbind (basic_handler quiet_ctx signum (s\<lparr> in_mask := \<lambda>j. in_mask s j \<or> snd (in_action s signum) j \<or> j = signum \<rparr>))
            (\<lambda>s'. Inr (s'\<lparr> in_mask := in_mask s \<rparr>)) \<rparr>"

lemma code_runs_quiet: "code_runs id quiet_ctx"
  by (auto simp: code_runs_def quiet_ctx_def same_intrs_def kept_def)

lemma prompt_sel: "ic_code (prompt_ctx h) = ic_code quiet_ctx" "ic_sigmask (prompt_ctx h) = ic_sigmask quiet_ctx"
    "ic_sigaction (prompt_ctx h) = ic_sigaction quiet_ctx" "ic_timer (prompt_ctx h) = ic_timer quiet_ctx"
  by (simp_all add: prompt_ctx_def)

lemma prompt_handler: "basic_handler (prompt_ctx h) = basic_handler quiet_ctx"
proof -
  have "run_isr (prompt_ctx h) i s = run_isr quiet_ctx i s" for i s
    by (simp add: run_isr_def prompt_sel)
  then have "basic_interrupt (prompt_ctx h) signum i s = basic_interrupt quiet_ctx signum i s" for signum i s
    by (simp add: basic_interrupt_def)
  then show ?thesis
    by (simp add: basic_handler_def [abs_def] fun_eq_iff) (metis (no_types, lifting) ext)
qed

lemma delivers_prompt: "delivers h (prompt_ctx h)"
proof -
  have "kept s s'" if r: "ic_raise (prompt_ctx h) signum s = Inr s'" for signum s s'
  proof (cases "in_mask s signum \<or> fst (in_action s signum) \<noteq> h")
    case True
    then show ?thesis
      using r by (simp add: prompt_ctx_def)
  next
    case False
    let ?t = "s\<lparr> in_mask := \<lambda>j. in_mask s j \<or> snd (in_action s signum) j \<or> j = signum \<rparr>"
    obtain u where u: "basic_handler quiet_ctx signum ?t = Inr u" "s' = u\<lparr> in_mask := in_mask s \<rparr>"
      using r False unfolding prompt_ctx_def by (simp add: cbind_eq_Inr) blast
    have "same_intrs ?t u"
      by (rule basic_handler_balanced [OF code_runs_quiet u(1)])
    then show ?thesis
      by (simp add: u(2) same_intrs_def kept_def)
  qed
  then show ?thesis
    by (simp add: delivers_def prompt_handler) (simp add: prompt_ctx_def)
qed

definition blank_intrs :: "(u64 set) basic_scheme" where
  "blank_intrs =
     \<lparr> in_tab = replicate 128 \<lparr> si_handler = 0, si_prio = 0, si_signum = 0, si_nactive = 0, si_times = 0 \<rparr>,
       in_nintrs = 0, in_nassigned = 0, in_mask = sigemptyset, in_action = (\<lambda>_. (0, sigemptyset)),
       ba_intr_mask = sigemptyset, ba_ipl = RVP_IPL_HIGH, ba_saved = sigemptyset, \<dots> = {} \<rparr>"

text \<open>
  C32. Registered interrupts run once they are enabled. Over a kernel that handles a signal that is
  not blocked before \<open>raise\<close> returns, \<open>basic_reinit\<close> gives every registered interrupt a signal, and
  \<open>basic_enable\<close> unblocks these and lets the code of every interrupt run: here no interrupt is
  running, and no priority is negative. Both functions return.
\<close>

theorem registered_interrupts_run:
  assumes "delivers h x" and "code_runs log x" and "unblocks log x" and "posix_setup x" and "ready h x s"
    and "rvp_static_intr_interval iv = Inr interval"
  shows "\<exists>s' s''. basic_reinit x h iv s = Inr s' \<and> basic_enable x s' = Inr s'' \<and>
    (\<forall>i\<in>{..<in_nintrs s}. si_handler (get_si i s) \<in> log (basic.more s''))"
  using reinit_then_enable [OF assms] by (simp add: lessThan_def)

theorem registered_interrupts_run_witness:
  "\<exists>s1 s2 s' s''. rvpredict_intr_register 0x400 1 blank_intrs = Inr s1 \<and> rvpredict_intr_register 0x500 2 s1 = Inr s2 \<and>
    basic_reinit (prompt_ctx 7) 7 None s2 = Inr s' \<and> basic_enable (prompt_ctx 7) s' = Inr s'' \<and>
    {0x400, 0x500} \<subseteq> basic.more s''"
proof -
  let ?x = "prompt_ctx 7"
  obtain s1 s2 where r: "rvpredict_intr_register 0x400 1 blank_intrs = Inr s1" "rvpredict_intr_register 0x500 2 s1 = Inr s2"
    by (simp add: rvpredict_intr_register_def blank_intrs_def set_si_def)
  have two: "in_nassigned s2 = 0" "in_nintrs s2 = 2" "length (in_tab s2) = 128" "in_mask s2 = sigemptyset"
      "get_si 0 s2 = \<lparr> si_handler = 0x400, si_prio = 1, si_signum = -1, si_nactive = 0, si_times = 0 \<rparr>"
      "get_si 1 s2 = \<lparr> si_handler = 0x500, si_prio = 2, si_signum = -1, si_nactive = 0, si_times = 0 \<rparr>"
    using r by (auto simp: rvpredict_intr_register_def blank_intrs_def set_si_def get_si_def)
  have below2: "i < 2 \<longleftrightarrow> i = 0 \<or> i = 1" for i :: nat
    by auto
  have x: "code_runs id ?x" "unblocks id ?x" "posix_setup ?x"
    using code_runs_quiet
    by (simp_all add: code_runs_def prompt_sel unblocks_def posix_setup_def quiet_ctx_def SIG_BLOCK_def SIG_UNBLOCK_def)
  have "ready 7 ?x s2"
    by (simp add: ready_def established_def two below2 all_conj_distrib disj_imp prompt_ctx_def quiet_ctx_def
        intr_signo_def sigaddset_def linux_signals_def INT32_MAX_def sigemptyset_def)
       (auto simp: two two(6) [unfolded One_nat_def] below2)
  from registered_interrupts_run [OF delivers_prompt x this, of None "1000 * 1000"]
  obtain s' s'' where "basic_reinit ?x 7 None s2 = Inr s'" "basic_enable ?x s' = Inr s''"
      "\<forall>i\<in>{..<2}. si_handler (get_si i s2) \<in> basic.more s''"
    by (auto simp: rvp_static_intr_interval_def two)
  moreover from this have "si_handler (get_si 0 s2) \<in> basic.more s''" "si_handler (get_si 1 s2) \<in> basic.more s''"
    by simp_all
  ultimately show ?thesis
    using r unfolding two by auto
qed

text \<open>
  Firing respects priority: when nothing else changes the table, \<open>basic_fire_all\<close> raises, in the
  order of the table, the signals of exactly those interrupts that have a signal, whose priority is
  not negative and above that of every running interrupt.
\<close>

lemma firing_respects_priority:
  assumes "\<And>signum s s'. ic_raise x signum s = Inr s' \<Longrightarrow> kept s s'" and "table_ok s"
  shows "basic_fire_all x s = raise_all x (fired s) s"
  using assms by (rule basic_fire_all_spec)

definition listening_ctx :: "(u64 set) basic_scheme intrctx" where
  "listening_ctx = quiet_ctx\<lparr> ic_raise := \<lambda>signum s. Inr (basic.more_update (insert (word_of_int signum)) s) \<rparr>"

definition nested_intrs :: "(u64 set) basic_scheme" where
  "nested_intrs = blank_intrs
     \<lparr> in_tab := map (\<lambda>(prio, signum, n). \<lparr> si_handler = 0, si_prio = prio, si_signum = signum, si_nactive = n, si_times = 0 \<rparr>)
         [(0, 34, 0), (1, 35, 1), (1, 36, 0), (2, 37, 0)],
       in_nintrs := 4, in_nassigned := 4 \<rparr>"

lemma firing_respects_priority_witness:
  "\<exists>s'. basic_fire_all listening_ctx nested_intrs = Inr s' \<and> basic.more s' = {37}"
proof -
  have below4: "{..<in_nassigned nested_intrs} = {0, 1, 2, 3}"
    by (auto simp: nested_intrs_def)
  have "table_ok nested_intrs"
    by (simp add: table_ok_def nested_intrs_def blank_intrs_def get_si_def INT32_MAX_def less_Suc_eq eval_nat_numeral)
  moreover have "fired nested_intrs = [37]"
    unfolding fired_def may_fire_def below4
    by (simp add: nested_intrs_def blank_intrs_def get_si_def upt_rec below4)
  moreover have "ic_raise listening_ctx signum s = Inr s' \<Longrightarrow> kept s s'" for signum s s'
    by (auto simp: listening_ctx_def kept_def)
  ultimately show ?thesis
    using firing_respects_priority [of listening_ctx nested_intrs]
    by (simp add: listening_ctx_def) (simp add: nested_intrs_def blank_intrs_def)
qed

end
