(* ===== verification/Tiaic.thy ===== *)
theory Tiaic
  imports Intr
begin

unbundle bit_operations_syntax

text \<open>
  The TI ARM interrupt controller, \<^verbatim>\<open>llvm/personality/tiaic\<close>: 101 system interrupts on 32 channels,
  set up by writing registers. The priority of a registered interrupt is its number here.
\<close>

section \<open>Registers\<close>

text \<open>A register is a word of an array; its index is its offset divided by 4.\<close>

definition oti :: "int \<Rightarrow> int" where "oti ofs = ofs div 4"

definition TIAIC_REVID :: int where "TIAIC_REVID = oti 0x0000"
definition TIAIC_CR :: int where "TIAIC_CR = oti 0x0004"
definition TIAIC_GER :: int where "TIAIC_GER = oti 0x0010"
definition TIAIC_GNLR :: int where "TIAIC_GNLR = oti 0x001C"
definition TIAIC_SISR :: int where "TIAIC_SISR = oti 0x0020"
definition TIAIC_SICR :: int where "TIAIC_SICR = oti 0x0024"
definition TIAIC_EISR :: int where "TIAIC_EISR = oti 0x0028"
definition TIAIC_EICR :: int where "TIAIC_EICR = oti 0x002C"
definition TIAIC_HIEISR :: int where "TIAIC_HIEISR = oti 0x0034"
definition TIAIC_HIEICR :: int where "TIAIC_HIEICR = oti 0x0038"
definition TIAIC_VBR :: int where "TIAIC_VBR = oti 0x0050"
definition TIAIC_VSR :: int where "TIAIC_VSR = oti 0x0054"
definition TIAIC_VNR :: int where "TIAIC_VNR = oti 0x0058"
definition TIAIC_GPIR :: int where "TIAIC_GPIR = oti 0x0080"
definition TIAIC_GPVR :: int where "TIAIC_GPVR = oti 0x0084"
definition TIAIC_SRSR1 :: int where "TIAIC_SRSR1 = oti 0x0200"
definition TIAIC_SRSR2 :: int where "TIAIC_SRSR2 = oti 0x0204"
definition TIAIC_SRSR3 :: int where "TIAIC_SRSR3 = oti 0x0208"
definition TIAIC_SRSR4 :: int where "TIAIC_SRSR4 = oti 0x020C"
definition TIAIC_SECR1 :: int where "TIAIC_SECR1 = oti 0x0280"
definition TIAIC_SECR2 :: int where "TIAIC_SECR2 = oti 0x0284"
definition TIAIC_SECR3 :: int where "TIAIC_SECR3 = oti 0x0288"
definition TIAIC_SECR4 :: int where "TIAIC_SECR4 = oti 0x028C"
definition TIAIC_ESR1 :: int where "TIAIC_ESR1 = oti 0x0300"
definition TIAIC_ESR2 :: int where "TIAIC_ESR2 = oti 0x0304"
definition TIAIC_ESR3 :: int where "TIAIC_ESR3 = oti 0x0308"
definition TIAIC_ESR4 :: int where "TIAIC_ESR4 = oti 0x030C"
definition TIAIC_ECR1 :: int where "TIAIC_ECR1 = oti 0x0380"
definition TIAIC_ECR2 :: int where "TIAIC_ECR2 = oti 0x0384"
definition TIAIC_ECR3 :: int where "TIAIC_ECR3 = oti 0x0388"
definition TIAIC_ECR4 :: int where "TIAIC_ECR4 = oti 0x038C"
definition TIAIC_CMR :: "int \<Rightarrow> int" where "TIAIC_CMR idx = oti (0x0400 + idx * 4)"
definition TIAIC_HIPIR1 :: int where "TIAIC_HIPIR1 = oti 0x0900"
definition TIAIC_HIPIR2 :: int where "TIAIC_HIPIR2 = oti 0x0904"
definition TIAIC_HINLR1 :: int where "TIAIC_HINLR1 = oti 0x1100"
definition TIAIC_HINLR2 :: int where "TIAIC_HINLR2 = oti 0x1104"
definition TIAIC_HIER :: int where "TIAIC_HIER = oti 0x1500"
definition TIAIC_HIPVR1 :: int where "TIAIC_HIPVR1 = oti 0x1600"
definition TIAIC_HIPVR2 :: int where "TIAIC_HIPVR2 = oti 0x1604"

lemmas tiaic_regs = oti_def TIAIC_REVID_def TIAIC_CR_def TIAIC_GER_def TIAIC_GNLR_def TIAIC_SISR_def TIAIC_SICR_def
  TIAIC_EISR_def TIAIC_EICR_def TIAIC_HIEISR_def TIAIC_HIEICR_def TIAIC_VBR_def TIAIC_VSR_def TIAIC_VNR_def
  TIAIC_GPIR_def TIAIC_GPVR_def TIAIC_SRSR1_def TIAIC_SRSR2_def TIAIC_SRSR3_def TIAIC_SRSR4_def TIAIC_SECR1_def
  TIAIC_SECR2_def TIAIC_SECR3_def TIAIC_SECR4_def TIAIC_ESR1_def TIAIC_ESR2_def TIAIC_ESR3_def TIAIC_ESR4_def
  TIAIC_ECR1_def TIAIC_ECR2_def TIAIC_ECR3_def TIAIC_ECR4_def TIAIC_CMR_def TIAIC_HIPIR1_def TIAIC_HIPIR2_def
  TIAIC_HINLR1_def TIAIC_HINLR2_def TIAIC_HIER_def TIAIC_HIPVR1_def TIAIC_HIPVR2_def

definition TIAIC_CR_PRHOLDMODE :: u64 where "TIAIC_CR_PRHOLDMODE = BIT_macro 4"
definition TIAIC_CR_NESTMODE_MASK :: u64 where "TIAIC_CR_NESTMODE_MASK = BITS_macro 3 2"
definition TIAIC_CR_NESTMODE_INDIVIDUAL :: u64 where "TIAIC_CR_NESTMODE_INDIVIDUAL = SHIFTIN 1 TIAIC_CR_NESTMODE_MASK"
definition TIAIC_GER_ENABLE :: u64 where "TIAIC_GER_ENABLE = BIT_macro 0"
definition TIAIC_HIER_IRQ :: u64 where "TIAIC_HIER_IRQ = BIT_macro 1"
definition TIAIC_HIER_FIQ :: u64 where "TIAIC_HIER_FIQ = BIT_macro 0"
definition TIAIC_HINLR_NESTLVL :: u64 where "TIAIC_HINLR_NESTLVL = BITS_macro 8 0"
definition TIAIC_INDEX :: u64 where "TIAIC_INDEX = BITS_macro 6 0"
definition TIAIC_HOST_INDEX :: u64 where "TIAIC_HOST_INDEX = BIT_macro 0"

definition TIAIC_CMR_CHNL_MASK :: "int \<Rightarrow> u64" where
  "TIAIC_CMR_CHNL_MASK idx = BITS_macro (4 + 8 * idx) (8 * idx)"

text \<open>The array, as it is initialised.\<close>

definition tiaic_reg_init :: "int \<Rightarrow> u32" where
  "tiaic_reg_init = (\<lambda>_. 0)(
     TIAIC_REVID := ucast (SHIFTIN 0x4e82a900 (BITS_macro 31 0)),
     TIAIC_GNLR := ucast (SHIFTIN 0x100 (BITS_macro 8 0)),
     TIAIC_GPIR := ucast (SHIFTIN 1 (BIT_macro 31)),
     TIAIC_HIPIR1 := ucast (SHIFTIN 1 (BIT_macro 31)),
     TIAIC_HIPIR2 := ucast (SHIFTIN 1 (BIT_macro 31)),
     TIAIC_HINLR1 := ucast (SHIFTIN 0x100 TIAIC_HINLR_NESTLVL),
     TIAIC_HINLR2 := ucast (SHIFTIN 0x100 TIAIC_HINLR_NESTLVL))"

record tiaic = intrsys +
  t_reg :: "int \<Rightarrow> u32"
  t_total_mask :: u64

definition in_array :: "int \<Rightarrow> bool" where
  "in_array i \<longleftrightarrow> 0 \<le> i \<and> i \<le> TIAIC_HIPVR2"

definition tiaic_init :: "'b tiaic_scheme \<Rightarrow> 'b tiaic_scheme" where
  "tiaic_init s = s\<lparr> t_total_mask := 0 \<rparr>"

section \<open>Checks\<close>

text \<open>
  What a register holds is compared with masks of 64 bits. A register index is an \<open>int\<close>, but the
  constants are unsigned: a negative index counts as a large one. So the first check never fails.
\<close>

definition SIGBUS :: int where "SIGBUS = 7"

definition as_size :: "int \<Rightarrow> int" where "as_size i = i mod 2 ^ 64"

definition check_bounds :: "'s intrctx \<Rightarrow> int \<Rightarrow> 's \<Rightarrow> 's cres" where
  "check_bounds x regidx s =
     (if TIAIC_REVID \<le> as_size regidx \<or> as_size regidx \<le> TIAIC_HIPVR2 then Inr s else ic_raise x SIGBUS s)"

definition check_unimpl :: "'s intrctx \<Rightarrow> int \<Rightarrow> 's \<Rightarrow> 's cres" where
  "check_unimpl x regidx s =
     (if regidx = TIAIC_VBR \<or> regidx = TIAIC_VSR \<or> regidx = TIAIC_VNR \<or> regidx = TIAIC_GPVR
      then ic_raise x SIGBUS s else Inr s)"

text \<open>The bits of a register that cannot be written: \<open>None\<close> for a register that is not checked.\<close>

definition is_cmr :: "int \<Rightarrow> bool" where
  "is_cmr regidx \<longleftrightarrow> TIAIC_CMR 0 \<le> as_size regidx \<and> as_size regidx \<le> TIAIC_CMR 25"

definition readonly_bits :: "int \<Rightarrow> u64 option" where
  "readonly_bits r =
     (if r = TIAIC_REVID \<or> r = TIAIC_GPIR \<or> r = TIAIC_HIPIR1 \<or> r = TIAIC_HIPIR2 \<or> r = TIAIC_HIPVR1 \<or> r = TIAIC_HIPVR2
      then Some (BITS_macro 31 0)
      else if r = TIAIC_CR then Some (BITS_macro 31 5 OR BITS_macro 1 0)
      else if r = TIAIC_GER then Some (BITS_macro 31 1)
      else if r = TIAIC_GNLR then Some (BITS_macro 30 9)
      else if r = TIAIC_SISR \<or> r = TIAIC_SICR \<or> r = TIAIC_EISR \<or> r = TIAIC_EICR then Some (BITS_macro 31 7)
      else if r = TIAIC_HIEISR \<or> r = TIAIC_HIEICR then Some (BITS_macro 31 1)
      else if r = TIAIC_SRSR4 \<or> r = TIAIC_SECR4 \<or> r = TIAIC_ESR4 \<or> r = TIAIC_ECR4 then Some (BITS_macro 31 5)
      else if is_cmr r
      then Some (NOT (TIAIC_CMR_CHNL_MASK 0 OR TIAIC_CMR_CHNL_MASK 1 OR TIAIC_CMR_CHNL_MASK 2 OR TIAIC_CMR_CHNL_MASK 3))
      else None)"

definition check_readonly :: "'s intrctx \<Rightarrow> int \<Rightarrow> u32 \<Rightarrow> 's \<Rightarrow> 's cres" where
  "check_readonly x regidx v s =
     (case readonly_bits regidx of None \<Rightarrow> Inr s
      | Some m \<Rightarrow> if v AND ucast m \<noteq> 0 then ic_raise x SIGBUS s else Inr s)"

definition get_reg :: "int \<Rightarrow> 'b tiaic_scheme \<Rightarrow> u32 cres" where
  "get_reg i s = (if in_array i then Inr (t_reg s i) else Inl Undefined)"

definition tiaic_read :: "'b tiaic_scheme intrctx \<Rightarrow> int \<Rightarrow> 'b tiaic_scheme \<Rightarrow> (u32 \<times> 'b tiaic_scheme) cres" where
  "tiaic_read x regidx s =
     cbind (check_bounds x regidx s) (\<lambda>s.
     cbind (check_unimpl x regidx s) (\<lambda>s.
     cbind (get_reg regidx s) (\<lambda>v. Inr (v, s))))"

section \<open>Interrupts and channels\<close>

text \<open>The bank of a system interrupt among four registers, and its bit there.\<close>

definition irq_bank :: "int \<Rightarrow> (int \<times> int) option" where
  "irq_bank irq =
     (if 0 \<le> irq \<and> irq \<le> 31 then Some (0, irq)
      else if 32 \<le> irq \<and> irq \<le> 63 then Some (1, irq - 32)
      else if 64 \<le> irq \<and> irq \<le> 95 then Some (2, irq - 64)
      else if 96 \<le> irq \<and> irq \<le> 100 then Some (3, irq - 96)
      else None)"

definition irq_is_enabled :: "'b tiaic_scheme \<Rightarrow> int \<Rightarrow> bool cres" where
  "irq_is_enabled s irq =
     (case irq_bank irq of None \<Rightarrow> Inl Aborted
      | Some (bank, bitno) \<Rightarrow> Inr (ucast (t_reg s (TIAIC_ESR1 + bank)) AND BIT_macro bitno \<noteq> 0))"

text \<open>
  The division truncates. The mask of a negative remainder is 0, and \<open>__SHIFTOUT\<close> then divides by 0.
\<close>

definition irq_to_channel :: "'b tiaic_scheme \<Rightarrow> int \<Rightarrow> int cres" where
  "irq_to_channel s irq =
     cbind (get_reg (TIAIC_CMR (irq sdiv 4)) s) (\<lambda>cmr.
       if irq smod 4 < 0 then Inl Undefined
       else Inr (uint (SHIFTOUT cmr (ucast (TIAIC_CMR_CHNL_MASK (irq smod 4))))))"

section \<open>The signal mask\<close>

definition signal_bit :: "'s intrctx \<Rightarrow> int \<Rightarrow> u64" where
  "signal_bit x signo = BIT_macro (signo_to_bitno (ic_signals x) signo)"

definition channels_enabled :: "(int \<Rightarrow> u32) \<Rightarrow> u32" where
  "channels_enabled r =
     (let fiq = if ucast (r TIAIC_HIER) AND TIAIC_HIER_FIQ \<noteq> 0
                then BITS_macro 1 0 AND NOT (BITS_macro 31 (uint (SHIFTOUT (ucast (r TIAIC_HINLR1)) TIAIC_HINLR_NESTLVL)))
                else 0;
          irq = if ucast (r TIAIC_HIER) AND TIAIC_HIER_IRQ \<noteq> 0
                then BITS_macro 31 2 AND NOT (BITS_macro 31 (uint (SHIFTOUT (ucast (r TIAIC_HINLR2)) TIAIC_HINLR_NESTLVL)))
                else 0
      in ucast fiq OR ucast irq)"

definition all_disabled :: "(int \<Rightarrow> u32) \<Rightarrow> bool" where
  "all_disabled r \<longleftrightarrow>
     ucast (r TIAIC_GER) AND TIAIC_GER_ENABLE = 0 \<or>
     ucast (r TIAIC_HIER) AND (TIAIC_HIER_IRQ OR TIAIC_HIER_FIQ) = 0 \<or>
     (r TIAIC_ESR1 = 0 \<and> r TIAIC_ESR2 = 0 \<and> r TIAIC_ESR3 = 0 \<and> r TIAIC_ESR4 = 0)"

text \<open>The signals of the interrupts whose channel is not below \<open>ochannel\<close>.\<close>

fun signals_from :: "'b tiaic_scheme intrctx \<Rightarrow> 'b tiaic_scheme \<Rightarrow> int \<Rightarrow> nat list \<Rightarrow> u64 \<Rightarrow> u64 cres" where
    "signals_from x s ochannel [] smask = Inr smask"
  | "signals_from x s ochannel (j # js) smask =
       (let isi = get_si j s in
        if \<not> j < in_nassigned s then Inr smask
        else if si_signum isi = -1 then signals_from x s ochannel js smask
        else cbind (irq_to_channel s (si_prio isi)) (\<lambda>ichannel.
          if ichannel < ochannel then signals_from x s ochannel js smask
          else signals_from x s ochannel js (smask OR signal_bit x (si_signum isi))))"

definition set_handler_mask ::
    "'b tiaic_scheme intrctx \<Rightarrow> u64 \<Rightarrow> int \<Rightarrow> u64 \<Rightarrow> 'b tiaic_scheme \<Rightarrow> 'b tiaic_scheme cres" where
  "set_handler_mask x h signum smask s =
     cbind (mask_to_sigset (ic_plat x) (ic_signals x) smask) (\<lambda>sa_mask.
     cbind (ic_sigaction x signum None s) (\<lambda>(rc, (oh, om), s).
     if rc = -1 then Inl Aborted
     else cbind (if h = oh then cbind (returned (sigeqset (ic_plat x) sa_mask om)) id else Inr False) (\<lambda>same.
     if same then Inr s
     else cbind (ic_sigaction x signum (Some (h, sa_mask)) s) (\<lambda>(rc, _, s).
     if rc = -1 then Inl Aborted else Inr s))))"

definition update_intr ::
    "'b tiaic_scheme intrctx \<Rightarrow> u64 \<Rightarrow> u32 \<Rightarrow> nat \<Rightarrow> u64 \<times> 'b tiaic_scheme \<Rightarrow> (u64 \<times> 'b tiaic_scheme) cres" where
  "update_intr x h enabled i = (\<lambda>(next_mask, s).
     let osi = get_si i s; sbit = signal_bit x (si_signum osi) in
     if si_signum osi = -1 then Inr (next_mask, s)
     else cbind (irq_to_channel s (si_prio osi)) (\<lambda>ochannel.
       let m = (if ucast enabled AND BIT_macro ochannel = 0 then next_mask OR sbit else next_mask) in
       cbind (irq_is_enabled s (si_prio osi)) (\<lambda>on.
       let m = (if \<not> on then m OR sbit else m) in
       cbind (signals_from x s ochannel [0..<128] 0) (\<lambda>smask.
       cbind (set_handler_mask x h (si_signum osi) smask s) (\<lambda>s. Inr (m, s))))))"

fun update_intrs ::
    "'b tiaic_scheme intrctx \<Rightarrow> u64 \<Rightarrow> u32 \<Rightarrow> nat list \<Rightarrow> u64 \<times> 'b tiaic_scheme \<Rightarrow> (u64 \<times> 'b tiaic_scheme) cres" where
    "update_intrs x h enabled [] ms = Inr ms"
  | "update_intrs x h enabled (i # is) ms =
       (if i < in_nassigned (snd ms) then cbind (update_intr x h enabled i ms) (update_intrs x h enabled is) else Inr ms)"

fun raise_bits :: "'b tiaic_scheme intrctx \<Rightarrow> u64 \<Rightarrow> nat list \<Rightarrow> 'b tiaic_scheme \<Rightarrow> 'b tiaic_scheme cres" where
    "raise_bits x m [] s = Inr s"
  | "raise_bits x m (i # is) s =
       cbind (if m AND BIT_macro (int i) AND t_total_mask s \<noteq> 0
              then ic_raise x (bitno_to_signo (ic_signals x) (int i)) s else Inr s) (raise_bits x m is)"

definition set_signal_mask :: "'b tiaic_scheme intrctx \<Rightarrow> u64 \<Rightarrow> 'b tiaic_scheme \<Rightarrow> 'b tiaic_scheme cres" where
  "set_signal_mask x m s =
     cbind (mask_to_sigset (ic_plat x) (ic_signals x) m) (\<lambda>set.
     cbind (ic_sigmask x SIG_SETMASK set s) (\<lambda>(rc, _, s). if rc = -1 then Inl Aborted else Inr s))"

definition rvpredict_update_state ::
    "'b tiaic_scheme intrctx \<Rightarrow> u64 \<Rightarrow> u64 \<Rightarrow> bool \<Rightarrow> 'b tiaic_scheme \<Rightarrow> 'b tiaic_scheme cres" where
  "rvpredict_update_state x h prior_mask fire_all s =
     (let next_mask = (if all_disabled (t_reg s) then t_total_mask s else 0) in
      cbind (cassert (ucast (t_reg s TIAIC_CR) AND TIAIC_CR_NESTMODE_MASK = TIAIC_CR_NESTMODE_INDIVIDUAL)) (\<lambda>_.
      cbind (cassert (ucast (t_reg s TIAIC_CR) AND TIAIC_CR_PRHOLDMODE \<noteq> 0)) (\<lambda>_.
      cbind (update_intrs x h (channels_enabled (t_reg s)) [0..<128] (next_mask, s)) (\<lambda>(next_mask, s).
      let changed = next_mask XOR prior_mask;
          enabled = changed AND NOT next_mask;
          disabled = changed AND next_mask in
      cbind (if fire_all then raise_bits x disabled [0..<64] s else Inr s) (\<lambda>s.
      cbind (set_signal_mask x prior_mask s) (\<lambda>s.
      cbind (set_signal_mask x next_mask s) (\<lambda>s.
      if fire_all then raise_bits x enabled [0..<64] s else Inr s)))))))"

section \<open>Writing a register\<close>

text \<open>
  A write starts with the address of the array's element, so an index outside is undefined.
  The register that a write changes, and its new value. \<open>None\<close> is a bus error that the write ends with.
\<close>

definition indexed :: "int \<Rightarrow> (u64 \<Rightarrow> u64 \<Rightarrow> u64) \<Rightarrow> u32 \<Rightarrow> (int \<Rightarrow> u32) \<Rightarrow> (int \<times> u32) option" where
  "indexed base f v r =
     (case irq_bank (uint (SHIFTOUT (ucast v) TIAIC_INDEX)) of None \<Rightarrow> None
      | Some (bank, sidx) \<Rightarrow> Some (base + bank, ucast (f (ucast (r (base + bank))) (BIT_macro sidx))))"

definition host_line :: "u32 \<Rightarrow> u64" where
  "host_line v = (if SHIFTOUT (ucast v) TIAIC_HOST_INDEX = 0 then TIAIC_HIER_FIQ else TIAIC_HIER_IRQ)"

definition set_bits :: "u64 \<Rightarrow> u64 \<Rightarrow> u64" where "set_bits r v = r OR v"
definition clear_bits :: "u64 \<Rightarrow> u64 \<Rightarrow> u64" where "clear_bits r v = r AND NOT v"

definition write_target :: "int \<Rightarrow> u32 \<Rightarrow> (int \<Rightarrow> u32) \<Rightarrow> (int \<times> u32) option" where
  "write_target i v r =
     (if i = TIAIC_SISR then indexed TIAIC_SRSR1 set_bits v r
      else if i = TIAIC_SICR then indexed TIAIC_SRSR1 clear_bits v r
      else if i = TIAIC_EISR then indexed TIAIC_ESR1 set_bits v r
      else if i = TIAIC_EICR then indexed TIAIC_ESR1 clear_bits v r
      else if i = TIAIC_HIEISR then Some (TIAIC_HIER, ucast (set_bits (ucast (r TIAIC_HIER)) (host_line v)))
      else if i = TIAIC_HIEICR then Some (TIAIC_HIER, ucast (clear_bits (ucast (r TIAIC_HIER)) (host_line v)))
      else if i \<in> {TIAIC_SRSR1, TIAIC_SRSR2, TIAIC_SRSR3, TIAIC_SRSR4, TIAIC_ESR1, TIAIC_ESR2, TIAIC_ESR3, TIAIC_ESR4}
      then Some (i, r i OR v)
      else if i \<in> {TIAIC_SECR1, TIAIC_SECR2, TIAIC_SECR3, TIAIC_SECR4}
      then (let j = i - TIAIC_SECR1 + TIAIC_SRSR1 in Some (j, r j AND NOT v))
      else if i \<in> {TIAIC_ECR1, TIAIC_ECR2, TIAIC_ECR3, TIAIC_ECR4}
      then (let j = i - TIAIC_ECR1 + TIAIC_ESR1 in Some (j, r j AND NOT v))
      else if i \<in> {TIAIC_CR, TIAIC_GER, TIAIC_GNLR, TIAIC_HIER} then Some (i, v)
      else if is_cmr i then Some (i, v)
      else None)"

definition tiaic_write :: "'b tiaic_scheme intrctx \<Rightarrow> u64 \<Rightarrow> int \<Rightarrow> u32 \<Rightarrow> 'b tiaic_scheme \<Rightarrow> 'b tiaic_scheme cres" where
  "tiaic_write x h regidx v s =
     (if \<not> (0 \<le> regidx \<and> regidx \<le> TIAIC_HIPVR2 + 1) then Inl Undefined
      else cbind (mask_to_sigset (ic_plat x) (ic_signals x) (t_total_mask s)) (\<lambda>set.
      cbind (ic_sigmask x SIG_BLOCK set s) (\<lambda>(rc, omask, s).
      if rc = -1 then Inl Aborted
      else cbind (check_bounds x regidx s) (\<lambda>s.
      cbind (check_readonly x regidx v s) (\<lambda>s.
      cbind (check_unimpl x regidx s) (\<lambda>s.
      let target = write_target regidx v (t_reg s); out = (\<lambda>s. cbind (ic_sigmask x SIG_SETMASK omask s) (\<lambda>(_, _, s). Inr s)) in
      case target of
        None \<Rightarrow> cbind (ic_raise x SIGBUS s) out
      | Some (reg, v) \<Rightarrow>
          if t_reg s reg \<noteq> v
          then rvpredict_update_state x h (sigset_to_mask (ic_plat x) (ic_signals x) omask) True
                 (s\<lparr> t_reg := (t_reg s)(reg := v) \<rparr>)
          else out s))))))"

section \<open>The handler\<close>

definition tiaic_interrupt :: "'b tiaic_scheme intrctx \<Rightarrow> int \<Rightarrow> nat \<Rightarrow> 'b tiaic_scheme \<Rightarrow> 'b tiaic_scheme cres" where
  "tiaic_interrupt x signum i s =
     (let si = get_si i s in
      if si_signum si \<noteq> signum then Inr s
      else cbind (irq_to_channel s (si_prio si)) (\<lambda>channel.
        let hinlr = (if channel < 2 then TIAIC_HINLR1 else TIAIC_HINLR2);
            olevel = uint (SHIFTOUT (ucast (t_reg s hinlr)) TIAIC_HINLR_NESTLVL);
            set_level = (\<lambda>l s. s\<lparr> t_reg := (t_reg s)(hinlr := ucast (SHIFTIN (word_of_int l) TIAIC_HINLR_NESTLVL)) \<rparr>) in
        cbind (run_isr x i (set_level (min olevel channel) s)) (\<lambda>s.
        Inr (set_level olevel (count_isr i s)))))"

definition tiaic_handler :: "'b tiaic_scheme intrctx \<Rightarrow> int \<Rightarrow> 'b tiaic_scheme \<Rightarrow> 'b tiaic_scheme cres" where
  "tiaic_handler x signum = each_assigned (tiaic_interrupt x signum)"

definition tiaic_reinit ::
    "'b tiaic_scheme intrctx \<Rightarrow> u64 \<Rightarrow> (int \<times> string \<times> bool) option \<Rightarrow> 'b tiaic_scheme \<Rightarrow> 'b tiaic_scheme cres" where
  "tiaic_reinit x h iv s =
     (if ic_rtsig_max x < in_nintrs s then Inl Exited
      else if in_nassigned s = in_nintrs s then Inr s
      else cbind (rvp_static_intr_interval iv) (\<lambda>interval.
        let new = [in_nassigned s..<in_nintrs s];
            total = fold (\<lambda>i m. m OR signal_bit x (intr_signo x i)) new (t_total_mask s);
            s = s\<lparr> t_total_mask := total \<rparr> in
        cbind (mask_to_sigset (ic_plat x) (ic_signals x) total) (\<lambda>set.
        cbind (block_new_signals x set s) (\<lambda>s.
        cbind (establish_signals x h sigemptyset interval new s) (\<lambda>s.
        Inr (s\<lparr> in_nassigned := in_nintrs s \<rparr>))))))"

definition tiaic_personality ::
    "'b tiaic_scheme intrctx \<Rightarrow> u64 \<Rightarrow> (int \<times> string \<times> bool) option \<Rightarrow> 'b tiaic_scheme personality" where
  "tiaic_personality x h iv = default_personality\<lparr> pe_init := \<lambda>s. Inr (tiaic_init s), pe_reinit := tiaic_reinit x h iv \<rparr>"

end
