(* ===== verification/Tiaic_Laws.thy ===== *)
theory Tiaic_Laws
  imports Tiaic Intr_Laws
begin

unbundle bit_operations_syntax

text \<open>
  The TI interrupt controller's promise: after a write, exactly the signals of the interrupts that it
  cannot deliver are blocked, and a handler blocks those of its channel and beyond. The indexed
  registers do what the bit registers do.
\<close>

section \<open>Bits\<close>

lemma BIT_minus_1: "0 \<le> n \<Longrightarrow> BIT_macro n - 1 = mask (nat n)"
proof (cases "n < 64")
  case True
  then show ?thesis if "0 \<le> n"
    using that by (simp add: BIT_macro_def mask_eq_exp_minus_1 push_bit_eq_mult)
next
  case False
  then show ?thesis if "0 \<le> n"
    using that by (intro bit_word_eqI) (simp add: BIT_macro_def bit_mask_iff)
qed

lemma bit_BITS: "0 \<le> m \<Longrightarrow> 0 \<le> n \<Longrightarrow>
    bit (BITS_macro m n) k \<longleftrightarrow> k < 64 \<and> min m n \<le> int k \<and> int k \<le> max m n"
  by (auto simp: BITS_macro_def BIT_minus_1 bit_xor_iff bit_mask_iff nat_less_iff zless_nat_eq_int_zless)

lemma and_BIT: "0 \<le> n \<Longrightarrow> n < 64 \<Longrightarrow> x AND BIT_macro n = 0 \<longleftrightarrow> \<not> bit x (nat n)"
  by (simp add: BIT_macro_def bit_iff_and_push_bit_not_eq_0)

lemma bit_BIT: "0 \<le> n \<Longrightarrow> n < 64 \<Longrightarrow> bit (BIT_macro n) k \<longleftrightarrow> k = nat n"
  by (auto simp: BIT_macro_def bit_exp_iff)

lemma NESTLVL_out: "uint (SHIFTOUT (ucast (r :: u32)) TIAIC_HINLR_NESTLVL) = uint r mod 512"
proof -
  have m: "TIAIC_HINLR_NESTLVL = mask 9"
    by (simp add: TIAIC_HINLR_NESTLVL_def BITS_macro_def BIT_macro_def mask_eq_exp_minus_1)
  have l: "LOWEST_SET_BIT (mask 9 :: u64) = 1"
    by (simp add: LOWEST_SET_BIT_def mask_eq_exp_minus_1)
  have "uint (ucast r AND mask 9 :: u64) = uint r mod 512"
    unfolding take_bit_eq_mask [symmetric]
    by (simp only: unsigned_take_bit_eq unsigned_ucast_eq) (simp add: take_bit_eq_mod mod_mod_cancel)
  then show ?thesis
    by (simp add: SHIFTOUT_def m l)
qed

section \<open>Which interrupts are delivered\<close>

definition channel_on :: "(int \<Rightarrow> u32) \<Rightarrow> int \<Rightarrow> bool" where
  "channel_on r c \<longleftrightarrow> c < 31 \<and>
     (if c < 2 then bit (r TIAIC_HIER) 0 \<and> c < uint (r TIAIC_HINLR1) mod 512
      else bit (r TIAIC_HIER) 1 \<and> c < uint (r TIAIC_HINLR2) mod 512)"

lemma channels_enabled_spec:
  assumes "0 \<le> c" "c < 32"
  shows "bit (channels_enabled r) (nat c) \<longleftrightarrow> channel_on r c"
proof -
  have nest: "bit (BITS_macro 31 (uint (w :: u32) mod 512)) (nat c) \<longleftrightarrow> uint w mod 512 \<le> c \<or> c = 31" for w
    using assms by (subst bit_BITS) (auto simp: min_def max_def)
  have b: "bit (BITS_macro 1 0) (nat c) \<longleftrightarrow> c < 2" "bit (BITS_macro 31 2) (nat c) \<longleftrightarrow> 2 \<le> c"
    using assms by (auto simp: bit_BITS)
  have h: "ucast (r TIAIC_HIER) AND TIAIC_HIER_FIQ = 0 \<longleftrightarrow> \<not> bit (r TIAIC_HIER) 0"
      "ucast (r TIAIC_HIER) AND TIAIC_HIER_IRQ = 0 \<longleftrightarrow> \<not> bit (r TIAIC_HIER) 1"
    by (simp_all add: TIAIC_HIER_FIQ_def TIAIC_HIER_IRQ_def and_BIT bit_ucast_iff)
  show ?thesis
    using assms
    by (auto simp: channels_enabled_def Let_def bit_or_iff bit_ucast_iff NESTLVL_out h bit_and_iff bit_not_iff nest b
        channel_on_def nat_less_iff)
qed

definition channel_of :: "(int \<Rightarrow> u32) \<Rightarrow> int \<Rightarrow> int" where
  "channel_of r irq = uint (r (TIAIC_CMR (irq div 4))) div 2 ^ (8 * nat (irq mod 4)) mod 32"

lemma irq_to_channel_spec:
  assumes "0 \<le> irq" "irq \<le> 100"
  shows "irq_to_channel s irq = Inr (channel_of (t_reg s) irq)"
proof -
  have d: "irq sdiv 4 = irq div 4" "irq smod 4 = irq mod 4"
    using assms by (simp_all add: signed_divide_int_def signed_modulo_int_def sgn_if)
  have arr: "in_array (TIAIC_CMR (irq div 4))"
    using assms by (auto simp: in_array_def TIAIC_CMR_def TIAIC_HIPVR2_def oti_def)
  have out: "uint (SHIFTOUT w (ucast (TIAIC_CMR_CHNL_MASK k))) = uint w div 2 ^ (8 * nat k) mod 32"
    if "0 \<le> k" "k < 4" for w :: u32 and k
  proof -
    have m: "(ucast (TIAIC_CMR_CHNL_MASK k) :: u32) = push_bit (8 * nat k) (mask 5)"
      using that by (intro bit_word_eqI)
        (auto simp: TIAIC_CMR_CHNL_MASK_def bit_ucast_iff bit_BITS bit_push_bit_iff bit_mask_iff)
    have k: "k = 0 \<or> k = 1 \<or> k = 2 \<or> k = 3"
      using that by auto
    have l: "LOWEST_SET_BIT (push_bit (8 * nat k) (mask 5) :: u32) = 2 ^ (8 * nat k)"
      using k by (auto simp: LOWEST_SET_BIT_def mask_eq_exp_minus_1 push_bit_eq_mult)
    have "(w AND push_bit (8 * nat k) (mask 5)) div 2 ^ (8 * nat k) = take_bit 5 (drop_bit (8 * nat k) w)"
      unfolding drop_bit_eq_div [symmetric] by (rule bit_word_eqI)
        (auto simp: bit_take_bit_iff bit_drop_bit_eq bit_and_iff bit_push_bit_iff bit_mask_iff dest: bit_imp_le_length)
    then have "SHIFTOUT w (ucast (TIAIC_CMR_CHNL_MASK k)) = take_bit 5 (drop_bit (8 * nat k) w)"
      unfolding SHIFTOUT_def m l .
    moreover have "uint (take_bit 5 (drop_bit (8 * nat k) w)) = uint w div 2 ^ (8 * nat k) mod 32"
      using unsigned_less [of w, where 'a = int]
      by (simp only: unsigned_take_bit_eq unsigned_drop_bit_eq) (simp add: drop_bit_eq_div take_bit_eq_mod)
    ultimately show ?thesis
      by simp
  qed
  show ?thesis
    using assms by (simp add: irq_to_channel_def get_reg_def d arr out channel_of_def)
qed

lemma channel_of_range: "0 \<le> channel_of r irq" "channel_of r irq < 32"
  by (simp_all add: channel_of_def)

definition enable_bit :: "(int \<Rightarrow> u32) \<Rightarrow> int \<Rightarrow> bool" where
  "enable_bit r irq = bit (r (TIAIC_ESR1 + irq div 32)) (nat (irq mod 32))"

lemma irq_bank_spec: "0 \<le> irq \<Longrightarrow> irq \<le> 100 \<Longrightarrow> irq_bank irq = Some (irq div 32, irq mod 32)"
  by (auto simp: irq_bank_def) presburger+

lemma irq_is_enabled_spec:
  "0 \<le> irq \<Longrightarrow> irq \<le> 100 \<Longrightarrow> irq_is_enabled s irq = Inr (enable_bit (t_reg s) irq)"
  using less_trans [OF pos_mod_bound [of 32 irq], of 64]
  by (simp add: irq_is_enabled_def irq_bank_spec and_BIT bit_ucast_iff enable_bit_def nat_less_iff)

definition deliverable :: "(int \<Rightarrow> u32) \<Rightarrow> int \<Rightarrow> bool" where
  "deliverable r irq \<longleftrightarrow> bit (r TIAIC_GER) 0 \<and> enable_bit r irq \<and> channel_on r (channel_of r irq)"

lemma all_disabled_undeliverable:
  assumes "all_disabled r" "0 \<le> irq" "irq \<le> 100"
  shows "\<not> deliverable r irq"
proof -
  have h: "bit (r TIAIC_HIER) 0 \<or> bit (r TIAIC_HIER) 1"
    if "(ucast (r TIAIC_HIER) :: u64) AND (TIAIC_HIER_IRQ OR TIAIC_HIER_FIQ) \<noteq> 0"
  proof -
    have "(ucast (r TIAIC_HIER) :: u64) AND TIAIC_HIER_IRQ \<noteq> 0 \<or> (ucast (r TIAIC_HIER) :: u64) AND TIAIC_HIER_FIQ \<noteq> 0"
      using that by (auto simp: bit.conj_disj_distrib)
    then show ?thesis
      by (simp add: TIAIC_HIER_FIQ_def TIAIC_HIER_IRQ_def and_BIT bit_ucast_iff) blast
  qed
  have hier: "\<not> bit (r TIAIC_HIER) 0 \<and> \<not> bit (r TIAIC_HIER) 1"
    if z: "(ucast (r TIAIC_HIER) :: u64) AND (TIAIC_HIER_IRQ OR TIAIC_HIER_FIQ) = 0"
  proof -
    have "\<not> bit ((ucast (r TIAIC_HIER) :: u64) AND (TIAIC_HIER_IRQ OR TIAIC_HIER_FIQ)) k" for k
      by (simp add: z)
    from this [of 0] this [of 1] show ?thesis
      by (simp add: bit_and_iff bit_or_iff TIAIC_HIER_FIQ_def TIAIC_HIER_IRQ_def bit_BIT bit_ucast_iff)
  qed
  have bank: "irq div 32 = 0 \<or> irq div 32 = 1 \<or> irq div 32 = 2 \<or> irq div 32 = 3"
    using assms(2,3) by presburger
  have esr: "\<not> enable_bit r irq" if "r TIAIC_ESR1 = 0" "r TIAIC_ESR2 = 0" "r TIAIC_ESR3 = 0" "r TIAIC_ESR4 = 0"
    using bank that by (auto simp: enable_bit_def TIAIC_ESR1_def TIAIC_ESR2_def TIAIC_ESR3_def TIAIC_ESR4_def oti_def)
  have ger: "\<not> bit (r TIAIC_GER) 0" if "(ucast (r TIAIC_GER) :: u64) AND TIAIC_GER_ENABLE = 0"
    using that by (simp add: TIAIC_GER_ENABLE_def and_BIT bit_ucast_iff)
  show ?thesis
    using assms(1) hier esr ger by (auto simp: all_disabled_def deliverable_def channel_on_def split: if_splits)
qed

section \<open>Collecting the mask\<close>

text \<open>The table that \<open>tiaic_reinit\<close> sets up, with numbers of system interrupts for priorities.\<close>

definition tiaic_ok :: "'b tiaic_scheme intrctx \<Rightarrow> 'b tiaic_scheme \<Rightarrow> bool" where
  "tiaic_ok x s \<longleftrightarrow> plat_ok (ic_plat x) \<and> ic_signals x = plat_tab (ic_plat x) \<and> 1 \<le> ic_rtmin x \<and> in_nassigned s \<le> 128 \<and>
     (\<forall>i<in_nassigned s. si_signum (get_si i s) = intr_signo x i \<and> intr_signo x i \<le> int (sg_max (ic_plat x)) \<and>
        sg_addable (ic_plat x) (intr_signo x i) \<and> sg_fill (ic_plat x) (intr_signo x i) \<and>
        0 \<le> si_prio (get_si i s) \<and> si_prio (get_si i s) \<le> 100)"

definition channel_at :: "'b tiaic_scheme \<Rightarrow> nat \<Rightarrow> int" where
  "channel_at s i = channel_of (t_reg s) (si_prio (get_si i s))"

definition sbit :: "'s intrctx \<Rightarrow> nat \<Rightarrow> nat" where
  "sbit x i = nat (intr_signo x i - 1)"

lemma tiaic_okD:
  assumes "tiaic_ok x s" "i < in_nassigned s"
  shows "si_signum (get_si i s) = intr_signo x i" "intr_signo x i \<noteq> -1" "1 \<le> intr_signo x i"
    "sbit x i < 64" "int (sbit x i) = intr_signo x i - 1" "sg_addable (ic_plat x) (intr_signo x i)"
    "intr_signo x i \<le> int (sg_max (ic_plat x))" "sg_fill (ic_plat x) (intr_signo x i)"
    "0 \<le> si_prio (get_si i s)" "si_prio (get_si i s) \<le> 100"
proof -
  have p: "1 \<le> ic_rtmin x" "intr_signo x i \<le> int (sg_max (ic_plat x))" "sg_max (ic_plat x) \<le> 64"
    using assms by (auto simp: tiaic_ok_def plat_ok_def)
  then have q: "1 \<le> intr_signo x i" "intr_signo x i \<le> 64"
    by (simp_all add: intr_signo_def)
  then show "intr_signo x i \<noteq> -1" "1 \<le> intr_signo x i" "sbit x i < 64" "int (sbit x i) = intr_signo x i - 1"
    by (simp_all add: sbit_def nat_less_iff)
qed (use assms in \<open>auto simp: tiaic_ok_def\<close>)

lemma sbit_inj:
  assumes "tiaic_ok x s" "i < in_nassigned s" "j < in_nassigned s"
  shows "sbit x i = sbit x j \<longleftrightarrow> i = j"
proof
  assume "sbit x i = sbit x j"
  then have "int (sbit x i) = int (sbit x j)"
    by (rule arg_cong)
  then have "intr_signo x i - 1 = intr_signo x j - 1"
    unfolding tiaic_okD(5) [OF assms(1,2)] tiaic_okD(5) [OF assms(1,3)] .
  then show "i = j"
    by simp
qed simp

lemma bit_signal_bit:
  assumes "tiaic_ok x s" "i < in_nassigned s"
  shows "bit (signal_bit x (intr_signo x i)) k \<longleftrightarrow> k = sbit x i"
proof -
  have "signal_bit x (intr_signo x i) = BIT_macro (int (sbit x i))"
    using assms(1) tiaic_okD(5) [OF assms] by (simp add: signal_bit_def signo_to_bitno_def tiaic_ok_def plat_tab_def)
  then show ?thesis
    using tiaic_okD(4) [OF assms] by (simp add: bit_BIT)
qed

lemma tiaic_ok_action: "tiaic_ok x (s\<lparr> in_action := A \<rparr>) = tiaic_ok x s"
  by (simp add: tiaic_ok_def get_si_def)

lemma get_si_action [simp]: "get_si i (s\<lparr> in_action := A \<rparr>) = get_si i s"
  by (simp add: get_si_def)

lemma signals_from_spec:
  assumes ok: "tiaic_ok x s"
  shows "\<forall>j\<in>set js. j < in_nassigned s \<Longrightarrow>
    \<exists>m'. signals_from x s c (js @ [in_nassigned s..<128]) m = Inr m' \<and>
      (\<forall>k. bit m' k \<longleftrightarrow> bit m k \<or> (\<exists>j\<in>set js. c \<le> channel_at s j \<and> k = sbit x j))"
proof (induction js arbitrary: m)
  case Nil
  show ?case
    by (cases "in_nassigned s < 128") (simp_all add: upt_conv_Cons)
next
  case (Cons j js)
  have j: "j < in_nassigned s"
    using Cons.prems by simp
  let ?m = "if channel_at s j < c then m else m OR signal_bit x (intr_signo x j)"
  have "signals_from x s c ((j # js) @ [in_nassigned s..<128]) m = signals_from x s c (js @ [in_nassigned s..<128]) ?m"
    using j tiaic_okD [OF ok j] by (simp add: Let_def irq_to_channel_spec channel_at_def)
  moreover obtain m' where "signals_from x s c (js @ [in_nassigned s..<128]) ?m = Inr m'"
      "\<forall>k. bit m' k \<longleftrightarrow> bit ?m k \<or> (\<exists>j\<in>set js. c \<le> channel_at s j \<and> k = sbit x j)"
    using Cons.IH [of ?m] Cons.prems by auto
  ultimately show ?case
    by (auto simp: bit_or_iff bit_signal_bit [OF ok j] split: if_splits)
qed

definition posix_actions :: "'a intrsys_scheme intrctx \<Rightarrow> bool" where
  "posix_actions x \<longleftrightarrow>
     (\<forall>signum s. ic_sigaction x signum None s = Inr (0, in_action s signum, s)) \<and>
     (\<forall>signum a s. ic_sigaction x signum (Some a) s =
        Inr (0, in_action s signum, s\<lparr> in_action := (in_action s)(signum := a) \<rparr>))"

lemma set_handler_mask_spec:
  assumes x: "posix_actions x" "plat_ok (ic_plat x)" "ic_signals x = plat_tab (ic_plat x)" and m: "mask_addable (ic_plat x) smask"
  shows "\<exists>a. set_handler_mask x h signum smask s = Inr (s\<lparr> in_action := (in_action s)(signum := (h, a)) \<rparr>) \<and>
    (\<forall>j. 1 \<le> j \<and> j \<le> int (sg_max (ic_plat x)) \<and> sg_fill (ic_plat x) j \<longrightarrow> a j = bit smask (nat (j - 1)))"
proof -
  let ?p = "ic_plat x"
  define sa where "sa = (\<lambda>i. 1 \<le> i \<and> i \<le> int (sg_max ?p) \<and> bit smask (nat (i - 1)))"
  have to: "mask_to_sigset ?p (ic_signals x) smask = Inr sa"
    using mask_to_sigset_spec [OF m] x(3) by (simp add: sa_def)
  obtain oh om where act: "in_action s signum = (oh, om)"
    by fastforce
  have eq: "returned (sigeqset ?p sa om) = Inr (Inr (sigset_eq ?p sa om))"
    using x(2) by (simp add: sigeqset_spec plat_ok_def returned_def)
  show ?thesis
  proof (cases "h = oh \<and> sigset_eq ?p sa om")
    case True
    then have "set_handler_mask x h signum smask s = Inr s"
      using x(1) by (simp add: set_handler_mask_def to posix_actions_def act eq)
    moreover have "s = s\<lparr> in_action := (in_action s)(signum := (h, om)) \<rparr>"
      using True act by (metis (no_types, lifting) fun_upd_triv intrsys.surjective intrsys.update_convs(5))
    ultimately show ?thesis
      using True by (intro exI [of _ om]) (auto simp: sigset_eq_def sa_def)
  next
    case False
    then have "set_handler_mask x h signum smask s = Inr (s\<lparr> in_action := (in_action s)(signum := (h, sa)) \<rparr>)"
      using x(1) by (auto simp: set_handler_mask_def to posix_actions_def act eq)
    then show ?thesis
      by (intro exI [of _ sa]) (simp add: sa_def)
  qed
qed

definition blocks_from :: "'b tiaic_scheme intrctx \<Rightarrow> 'b tiaic_scheme \<Rightarrow> nat \<Rightarrow> sigset \<Rightarrow> bool" where
  "blocks_from x s i a \<longleftrightarrow> (\<forall>j<in_nassigned s. a (intr_signo x j) \<longleftrightarrow> channel_at s i \<le> channel_at s j)"

definition held_back :: "'b tiaic_scheme \<Rightarrow> nat \<Rightarrow> bool" where
  "held_back s i \<longleftrightarrow> \<not> (enable_bit (t_reg s) (si_prio (get_si i s)) \<and> channel_on (t_reg s) (channel_at s i))"

lemma update_intr_spec:
  assumes x: "posix_actions x" and ok: "tiaic_ok x s" and i: "i < in_nassigned s"
  shows "\<exists>a. update_intr x h (channels_enabled (t_reg s)) i (m, s\<lparr> in_action := A \<rparr>) =
      Inr (if held_back s i then m OR signal_bit x (intr_signo x i) else m, s\<lparr> in_action := A(intr_signo x i := (h, a)) \<rparr>) \<and>
    blocks_from x s i a"
proof -
  let ?s = "s\<lparr> in_action := A \<rparr>"
  note D = tiaic_okD [OF ok i]
  have ok': "tiaic_ok x ?s"
    using ok by (simp add: tiaic_ok_action)
  have ch: "irq_to_channel ?s (si_prio (get_si i s)) = Inr (channel_at s i)"
    using D by (simp add: irq_to_channel_spec channel_at_def)
  have en: "irq_is_enabled ?s (si_prio (get_si i s)) = Inr (enable_bit (t_reg s) (si_prio (get_si i s)))"
    using D by (simp add: irq_is_enabled_spec)
  have r: "0 \<le> channel_at s i" "channel_at s i < 32"
    by (simp_all add: channel_at_def channel_of_range)
  have "(ucast (channels_enabled (t_reg s)) :: u64) AND BIT_macro (channel_at s i) = 0 \<longleftrightarrow>
      \<not> bit (channels_enabled (t_reg s)) (nat (channel_at s i))"
    using r by (subst and_BIT) (simp_all add: bit_ucast_iff nat_less_iff)
  then have off: "(ucast (channels_enabled (t_reg s)) :: u64) AND BIT_macro (channel_at s i) = 0 \<longleftrightarrow> \<not> channel_on (t_reg s) (channel_at s i)"
    using channels_enabled_spec [OF r] by simp
  have "\<forall>j\<in>set [0..<in_nassigned ?s]. j < in_nassigned ?s"
    by simp
  from signals_from_spec [OF ok' this, of "channel_at s i" 0]
  obtain sm where sm: "signals_from x ?s (channel_at s i) ([0..<in_nassigned ?s] @ [in_nassigned ?s..<128]) 0 = Inr sm"
      "\<And>k. bit sm k \<longleftrightarrow> (\<exists>j<in_nassigned s. channel_at s i \<le> channel_at s j \<and> k = sbit x j)"
    by (simp add: channel_at_def Bex_def) blast
  have "in_nassigned s \<le> 128"
    using ok by (simp add: tiaic_ok_def)
  then have "[0..<128] = [0..<in_nassigned s] @ [in_nassigned s..<128]"
    by (metis le_add_diff_inverse upt_add_eq_append zero_le)
  then have here: "signals_from x ?s (channel_at s i) [0..<128] 0 = Inr sm"
    using sm(1) by simp
  have add: "mask_addable (ic_plat x) sm"
  proof -
    have "sg_addable (ic_plat x) q" if q: "1 \<le> q" "bit sm (nat (q - 1))" for q
    proof -
      obtain j where j: "j < in_nassigned s" "nat (q - 1) = sbit x j"
        using q(2) unfolding sm(2) by blast
      have "q = intr_signo x j"
        using tiaic_okD(5) [OF ok j(1)] q(1) j(2) by linarith
      then show ?thesis
        using tiaic_okD(6) [OF ok j(1)] by simp
    qed
    then show ?thesis
      by (simp add: mask_addable_def)
  qed
  have p: "plat_ok (ic_plat x)" "ic_signals x = plat_tab (ic_plat x)"
    using ok by (simp_all add: tiaic_ok_def)
  obtain a where a: "set_handler_mask x h (intr_signo x i) sm ?s = Inr (?s\<lparr> in_action := (in_action ?s)(intr_signo x i := (h, a)) \<rparr>)"
      "\<forall>j. 1 \<le> j \<and> j \<le> int (sg_max (ic_plat x)) \<and> sg_fill (ic_plat x) j \<longrightarrow> a j = bit sm (nat (j - 1))"
    using set_handler_mask_spec [OF x p add] by blast
  have "a (intr_signo x j) \<longleftrightarrow> channel_at s i \<le> channel_at s j" if j: "j < in_nassigned s" for j
  proof -
    have "a (intr_signo x j) = bit sm (sbit x j)"
      using a(2) tiaic_okD(3,7,8) [OF ok j] unfolding sbit_def by blast
    then show ?thesis
      using sbit_inj [OF ok j] j by (auto simp: sm(2))
  qed
  then have "blocks_from x s i a"
    by (simp add: blocks_from_def)
  then show ?thesis
    using D(1,2) a(1) by (intro exI [of _ a]) (simp add: update_intr_def Let_def ch en off here held_back_def)
qed

text \<open>The whole loop: what the mask gains, and the actions of the interrupts.\<close>

lemma update_intrs_spec:
  assumes x: "posix_actions x" and ok: "tiaic_ok x s"
  shows "\<forall>i\<in>set is. i < in_nassigned s \<Longrightarrow> distinct is \<Longrightarrow>
    \<exists>m' A'. update_intrs x h (channels_enabled (t_reg s)) (is @ [in_nassigned s..<128]) (m, s\<lparr> in_action := A \<rparr>) =
        Inr (m', s\<lparr> in_action := A' \<rparr>) \<and>
      (\<forall>k. bit m' k \<longleftrightarrow> bit m k \<or> (\<exists>i\<in>set is. held_back s i \<and> k = sbit x i)) \<and>
      (\<forall>j. j \<notin> intr_signo x ` set is \<longrightarrow> A' j = A j) \<and>
      (\<forall>i\<in>set is. fst (A' (intr_signo x i)) = h \<and> blocks_from x s i (snd (A' (intr_signo x i))))"
proof (induction "is" arbitrary: m A)
  case Nil
  show ?case
    by (intro exI [of _ m] exI [of _ A], cases "in_nassigned s < 128") (simp_all add: upt_conv_Cons)
next
  case (Cons i "is")
  have i: "i < in_nassigned s"
    using Cons.prems by simp
  let ?m = "if held_back s i then m OR signal_bit x (intr_signo x i) else m"
  obtain a where a: "update_intr x h (channels_enabled (t_reg s)) i (m, s\<lparr> in_action := A \<rparr>) =
      Inr (?m, s\<lparr> in_action := A(intr_signo x i := (h, a)) \<rparr>)" "blocks_from x s i a"
    using update_intr_spec [OF x ok i] by blast
  let ?A = "A(intr_signo x i := (h, a))"
  have prems: "\<forall>j\<in>set is. j < in_nassigned s" "distinct is"
    using Cons.prems by simp_all
  obtain m' A' where r: "update_intrs x h (channels_enabled (t_reg s)) (is @ [in_nassigned s..<128]) (?m, s\<lparr> in_action := ?A \<rparr>) =
        Inr (m', s\<lparr> in_action := A' \<rparr>)"
      "\<forall>k. bit m' k \<longleftrightarrow> bit ?m k \<or> (\<exists>i\<in>set is. held_back s i \<and> k = sbit x i)"
      "\<forall>j. j \<notin> intr_signo x ` set is \<longrightarrow> A' j = ?A j"
      "\<forall>i\<in>set is. fst (A' (intr_signo x i)) = h \<and> blocks_from x s i (snd (A' (intr_signo x i)))"
    using Cons.IH [OF prems, of ?m ?A] by blast
  have "update_intrs x h (channels_enabled (t_reg s)) ((i # is) @ [in_nassigned s..<128]) (m, s\<lparr> in_action := A \<rparr>) =
      Inr (m', s\<lparr> in_action := A' \<rparr>)"
    using i r(1) by (simp add: a(1))
  moreover have "bit m' k \<longleftrightarrow> bit m k \<or> (\<exists>i\<in>set (i # is). held_back s i \<and> k = sbit x i)" for k
    using r(2) by (auto simp: bit_or_iff bit_signal_bit [OF ok i])
  moreover have "A' j = A j" if "j \<notin> intr_signo x ` set (i # is)" for j
    using r(3) that by simp
  moreover have "A' (intr_signo x i) = (h, a)"
  proof -
    have "intr_signo x i \<notin> intr_signo x ` set is"
      using Cons.prems(2) by (simp add: image_iff)
    then show ?thesis
      using r(3) by simp
  qed
  then have "fst (A' (intr_signo x j)) = h \<and> blocks_from x s j (snd (A' (intr_signo x j)))" if "j \<in> set (i # is)" for j
    using r(4) a(2) that by (cases "j = i") simp_all
  ultimately show ?case
    by blast
qed

section \<open>The state after an update\<close>

text \<open>
  What handlers that run between two states have to leave: the table, the mask (the kernel restores
  it), the channels of the interrupts, and actions that nest if they did. The other registers and
  the actions themselves are theirs to write.
\<close>

definition handlers_nest :: "u64 \<Rightarrow> 'b tiaic_scheme intrctx \<Rightarrow> 'b tiaic_scheme \<Rightarrow> bool" where
  "handlers_nest h x s \<longleftrightarrow>
     (\<forall>i<in_nassigned s. fst (in_action s (intr_signo x i)) = h \<and> blocks_from x s i (snd (in_action s (intr_signo x i))))"

definition numbered :: "'b tiaic_scheme \<Rightarrow> bool" where
  "numbered s \<longleftrightarrow> in_nassigned s \<le> length (in_tab s) \<and> (\<forall>i<in_nassigned s. 0 \<le> si_prio (get_si i s))"

definition same_channels :: "(int \<Rightarrow> u32) \<Rightarrow> (int \<Rightarrow> u32) \<Rightarrow> bool" where
  "same_channels r r' \<longleftrightarrow> (\<forall>c\<in>{0 .. 25}. r' (TIAIC_CMR c) = r (TIAIC_CMR c))"

definition t_ran :: "u64 \<Rightarrow> 'b tiaic_scheme intrctx \<Rightarrow> 'b tiaic_scheme \<Rightarrow> 'b tiaic_scheme \<Rightarrow> bool" where
  "t_ran h x s s' \<longleftrightarrow> in_nassigned s' = in_nassigned s \<and> map calm (in_tab s') = map calm (in_tab s) \<and>
     in_mask s' = in_mask s \<and> t_total_mask s' = t_total_mask s \<and> same_channels (t_reg s) (t_reg s') \<and>
     (numbered s \<and> handlers_nest h x s \<longrightarrow> handlers_nest h x s')"

definition same_table :: "'b tiaic_scheme \<Rightarrow> 'b tiaic_scheme \<Rightarrow> bool" where
  "same_table s s' \<longleftrightarrow> in_nassigned s' = in_nassigned s \<and> map calm (in_tab s') = map calm (in_tab s) \<and>
     t_total_mask s' = t_total_mask s"

lemma t_ran_refl [simp]: "t_ran h x s s"
  by (simp add: t_ran_def same_channels_def)

lemma numbered_mask [simp]: "numbered (s\<lparr> in_mask := m \<rparr>) = numbered s"
  by (simp add: numbered_def get_si_def)

lemma handlers_nest_mask [simp]: "handlers_nest h x (s\<lparr> in_mask := m \<rparr>) = handlers_nest h x s"
  by (simp add: handlers_nest_def blocks_from_def channel_at_def get_si_def)

lemma t_ran_mask: "t_ran h x s t \<Longrightarrow> t_ran h x (s\<lparr> in_mask := m \<rparr>) (t\<lparr> in_mask := m \<rparr>)"
  by (simp add: t_ran_def)

lemma t_ran_sel:
  assumes "t_ran h x s s'" "in_nassigned s \<le> length (in_tab s)"
  shows "in_nassigned s' = in_nassigned s" "in_mask s' = in_mask s" "t_total_mask s' = t_total_mask s"
    "i < in_nassigned s \<Longrightarrow> si_prio (get_si i s') = si_prio (get_si i s)"
proof -
  show "in_nassigned s' = in_nassigned s" "in_mask s' = in_mask s" "t_total_mask s' = t_total_mask s"
    using assms(1) by (simp_all add: t_ran_def)
  have m: "map calm (in_tab s') = map calm (in_tab s)"
    using assms(1) by (simp add: t_ran_def)
  show "si_prio (get_si i s') = si_prio (get_si i s)" if "i < in_nassigned s"
  proof -
    have l: "i < length (in_tab s)" "i < length (in_tab s')"
      using that assms(2) arg_cong [OF m, of length] by simp_all
    have "calm (get_si i s') = calm (get_si i s)"
      using arg_cong [OF m, of "\<lambda>xs. xs ! i"] l by (simp add: get_si_def)
    then show ?thesis
      by (rule calm_sel(2))
  qed
qed

lemma t_ran_numbered:
  assumes "t_ran h x s s'" "numbered s"
  shows "numbered s'"
proof -
  have "length (in_tab s') = length (in_tab s)"
    using assms(1) unfolding t_ran_def by (metis length_map)
  then show ?thesis
    using t_ran_sel [OF assms(1)] assms(2) by (simp add: numbered_def)
qed

lemma t_ran_trans: "t_ran h x s t \<Longrightarrow> t_ran h x t u \<Longrightarrow> t_ran h x s u"
  using t_ran_numbered [of h x s t] by (simp add: t_ran_def same_channels_def)

definition new_mask :: "int \<Rightarrow> sigset \<Rightarrow> sigset \<Rightarrow> sigset" where
  "new_mask how old m = (\<lambda>j. if how = SIG_BLOCK then old j \<or> m j else if how = SIG_UNBLOCK then old j \<and> \<not> m j else m j)"

text \<open>
  The kernel: a raise returns, with the handler run or the signal pending; a new mask may run the
  handlers of pending signals, while blocking more signals runs none. The handlers may write registers.
\<close>

definition tiaic_kernel :: "u64 \<Rightarrow> 'b tiaic_scheme intrctx \<Rightarrow> bool" where
  "tiaic_kernel h x \<longleftrightarrow> posix_actions x \<and>
     (\<forall>signum s. \<exists>s'. ic_raise x signum s = Inr s' \<and> t_ran h x s s') \<and>
     (\<forall>m s. ic_sigmask x SIG_BLOCK m s = Inr (0, in_mask s, s\<lparr> in_mask := new_mask SIG_BLOCK (in_mask s) m \<rparr>)) \<and>
     (\<forall>m s. \<exists>s'. ic_sigmask x SIG_SETMASK m s = Inr (0, in_mask s, s') \<and> t_ran h x (s\<lparr> in_mask := m \<rparr>) s')"

text \<open>A property of the registers that no handler breaks.\<close>

definition handlers_keep :: "'b tiaic_scheme intrctx \<Rightarrow> ((int \<Rightarrow> u32) \<Rightarrow> bool) \<Rightarrow> bool" where
  "handlers_keep x Q \<longleftrightarrow>
     (\<forall>signum s s'. ic_raise x signum s = Inr s' \<and> Q (t_reg s) \<longrightarrow> Q (t_reg s')) \<and>
     (\<forall>m s rc om s'. ic_sigmask x SIG_SETMASK m s = Inr (rc, om, s') \<and> Q (t_reg s) \<longrightarrow> Q (t_reg s'))"

lemma raise_bits_returns:
  assumes "tiaic_kernel h x"
  shows "\<exists>s'. raise_bits x m is s = Inr s' \<and> t_ran h x s s' \<and> (\<forall>Q. handlers_keep x Q \<longrightarrow> Q (t_reg s) \<longrightarrow> Q (t_reg s'))"
proof (induction "is" arbitrary: s)
  case (Cons i "is")
  obtain t where t: "(if m AND BIT_macro (int i) AND t_total_mask s \<noteq> 0
      then ic_raise x (bitno_to_signo (ic_signals x) (int i)) s else Inr s) = Inr t" "t_ran h x s t"
      "\<forall>Q. handlers_keep x Q \<longrightarrow> Q (t_reg s) \<longrightarrow> Q (t_reg t)"
  proof (cases "m AND BIT_macro (int i) AND t_total_mask s \<noteq> 0")
    case True
    obtain t where u: "ic_raise x (bitno_to_signo (ic_signals x) (int i)) s = Inr t" "t_ran h x s t"
      using assms unfolding tiaic_kernel_def by blast
    moreover have "\<forall>Q. handlers_keep x Q \<longrightarrow> Q (t_reg s) \<longrightarrow> Q (t_reg t)"
      using u(1) unfolding handlers_keep_def by blast
    ultimately show ?thesis
      using that [of t] True by simp
  next
    case False
    then show ?thesis
      using that [of s] by simp
  qed
  obtain u where "raise_bits x m is t = Inr u" "t_ran h x t u" "\<forall>Q. handlers_keep x Q \<longrightarrow> Q (t_reg t) \<longrightarrow> Q (t_reg u)"
    using Cons.IH by blast
  then show ?case
    using t t_ran_trans [OF t(2)] by (auto simp del: if_split)
qed simp

lemma set_signal_mask_returns:
  assumes x: "tiaic_kernel h x" and m: "mask_addable (ic_plat x) m" "ic_signals x = plat_tab (ic_plat x)"
  shows "\<exists>s'. set_signal_mask x m s = Inr s' \<and>
    t_ran h x (s\<lparr> in_mask := \<lambda>i. 1 \<le> i \<and> i \<le> int (sg_max (ic_plat x)) \<and> bit m (nat (i - 1)) \<rparr>) s' \<and>
    (\<forall>Q. handlers_keep x Q \<longrightarrow> Q (t_reg s) \<longrightarrow> Q (t_reg s'))"
proof -
  let ?set = "\<lambda>i. 1 \<le> i \<and> i \<le> int (sg_max (ic_plat x)) \<and> bit m (nat (i - 1))"
  obtain t where t: "ic_sigmask x SIG_SETMASK ?set s = Inr (0, in_mask s, t)" "t_ran h x (s\<lparr> in_mask := ?set \<rparr>) t"
    using x unfolding tiaic_kernel_def by blast
  have "\<forall>Q. handlers_keep x Q \<longrightarrow> Q (t_reg s) \<longrightarrow> Q (t_reg t)"
    using t(1) unfolding handlers_keep_def by blast
  moreover have "mask_to_sigset (ic_plat x) (ic_signals x) m = Inr ?set"
    unfolding m(2) by (rule mask_to_sigset_spec [OF m(1)])
  ultimately show ?thesis
    using t by (simp add: set_signal_mask_def)
qed

text \<open>The modes that are supported, and a total mask that has every interrupt's signal.\<close>

definition cr_ok :: "(int \<Rightarrow> u32) \<Rightarrow> bool" where
  "cr_ok r \<longleftrightarrow> ucast (r TIAIC_CR) AND TIAIC_CR_NESTMODE_MASK = TIAIC_CR_NESTMODE_INDIVIDUAL \<and>
     ucast (r TIAIC_CR) AND TIAIC_CR_PRHOLDMODE \<noteq> 0"

definition total_ok :: "'b tiaic_scheme intrctx \<Rightarrow> 'b tiaic_scheme \<Rightarrow> bool" where
  "total_ok x s \<longleftrightarrow> mask_addable (ic_plat x) (t_total_mask s) \<and> (\<forall>i<in_nassigned s. bit (t_total_mask s) (sbit x i))"

definition undeliverable_blocked :: "'b tiaic_scheme intrctx \<Rightarrow> (int \<Rightarrow> u32) \<Rightarrow> 'b tiaic_scheme \<Rightarrow> bool" where
  "undeliverable_blocked x r s \<longleftrightarrow>
     (\<forall>i<in_nassigned s. in_mask s (intr_signo x i) \<longleftrightarrow> \<not> deliverable r (si_prio (get_si i s)))"

lemma held_back_deliverable:
  assumes "tiaic_ok x s" "i < in_nassigned s" "\<not> all_disabled (t_reg s)"
  shows "held_back s i \<longleftrightarrow> \<not> deliverable (t_reg s) (si_prio (get_si i s))"
proof -
  have "bit (t_reg s TIAIC_GER) 0"
    using assms(3) by (simp add: all_disabled_def TIAIC_GER_ENABLE_def and_BIT bit_ucast_iff)
  then show ?thesis
    by (auto simp: held_back_def deliverable_def channel_at_def)
qed

lemma update_state_spec:
  assumes x: "tiaic_kernel h x" and ok: "tiaic_ok x s" "in_nassigned s \<le> length (in_tab s)" "total_ok x s" "cr_ok (t_reg s)"
    and prior: "mask_addable (ic_plat x) prior"
  shows "\<exists>s'. rvpredict_update_state x h prior fire s = Inr s' \<and> undeliverable_blocked x (t_reg s) s' \<and> handlers_nest h x s' \<and>
    same_table s s' \<and> same_channels (t_reg s) (t_reg s') \<and> (\<forall>Q. handlers_keep x Q \<longrightarrow> Q (t_reg s) \<longrightarrow> Q (t_reg s'))"
proof -
  let ?p = "ic_plat x" and ?n = "in_nassigned s"
  let ?next0 = "if all_disabled (t_reg s) then t_total_mask s else 0"
  have pa: "posix_actions x"
    using x by (simp add: tiaic_kernel_def)
  have tab: "ic_signals x = plat_tab ?p"
    using ok(1) by (simp add: tiaic_ok_def)
  have all: "\<forall>i\<in>set [0..<?n]. i < ?n"
    by simp
  from update_intrs_spec [OF pa ok(1) all distinct_upt, of h ?next0 "in_action s"]
  obtain m A where r: "update_intrs x h (channels_enabled (t_reg s)) ([0..<?n] @ [?n..<128]) (?next0, s\<lparr> in_action := in_action s \<rparr>) =
        Inr (m, s\<lparr> in_action := A \<rparr>)"
      "\<forall>k. bit m k \<longleftrightarrow> bit ?next0 k \<or> (\<exists>i\<in>set [0..<?n]. held_back s i \<and> k = sbit x i)"
      "\<forall>i\<in>set [0..<?n]. fst (A (intr_signo x i)) = h \<and> blocks_from x s i (snd (A (intr_signo x i)))"
    by blast
  have split: "[0..<128] = [0..<?n] @ [?n..<128]"
    using ok(1) by (metis le_add_diff_inverse tiaic_ok_def upt_add_eq_append zero_le)
  define s1 where "s1 = s\<lparr> in_action := A \<rparr>"
  have s1: "in_nassigned s1 = ?n" "t_reg s1 = t_reg s" "in_action s1 = A" "in_tab s1 = in_tab s" "get_si i s1 = get_si i s" for i
    by (simp_all add: s1_def)
  have u: "update_intrs x h (channels_enabled (t_reg s)) [0..<128] (?next0, s) = Inr (m, s1)"
    using r(1) unfolding split s1_def by simp
  have bits: "bit m (sbit x i) \<longleftrightarrow> \<not> deliverable (t_reg s) (si_prio (get_si i s))" if i: "i < ?n" for i
  proof (cases "all_disabled (t_reg s)")
    case True
    then show ?thesis
      using ok(3) i all_disabled_undeliverable [OF True tiaic_okD(9,10) [OF ok(1) i]] by (auto simp: r(2) total_ok_def)
  next
    case False
    have "bit m (sbit x i) \<longleftrightarrow> held_back s i"
      using False i sbit_inj [OF ok(1) i] by (auto simp: r(2))
    then show ?thesis
      using held_back_deliverable [OF ok(1) i False] by simp
  qed
  have madd: "mask_addable ?p m"
  proof -
    have "sg_addable ?p q" if q: "q \<in> {1 .. int (sg_max ?p)}" "bit m (nat (q - 1))" for q
    proof (cases "bit ?next0 (nat (q - 1))")
      case True
      then show ?thesis
        using ok(3) q(1) by (auto simp: total_ok_def mask_addable_def split: if_splits)
    next
      case False
      then obtain i where i: "i < ?n" "nat (q - 1) = sbit x i"
        using q(2) r(2) by auto
      have "q = intr_signo x i"
        using tiaic_okD(5) [OF ok(1) i(1)] q(1) i(2) unfolding atLeastAtMost_iff by linarith
      then show ?thesis
        using tiaic_okD(6) [OF ok(1) i(1)] by simp
    qed
    then show ?thesis
      by (simp add: mask_addable_def)
  qed
  let ?changed = "m XOR prior"
  have num: "numbered s1"
    using ok(2) tiaic_okD(9) [OF ok(1)] by (simp add: numbered_def s1)
  have nest1: "handlers_nest h x s1"
    using r(3) by (simp add: handlers_nest_def blocks_from_def s1 channel_at_def)
  have fire: "\<exists>t'. (if fire then raise_bits x w [0..<64] t else Inr t) = Inr t' \<and> t_ran h x t t' \<and>
      (\<forall>Q. handlers_keep x Q \<longrightarrow> Q (t_reg t) \<longrightarrow> Q (t_reg t'))" for w t
    using raise_bits_returns [OF x, of w "[0..<64]" t] by simp
  obtain s2 where s2: "(if fire then raise_bits x (?changed AND m) [0..<64] s1 else Inr s1) = Inr s2" "t_ran h x s1 s2"
      "\<forall>Q. handlers_keep x Q \<longrightarrow> Q (t_reg s1) \<longrightarrow> Q (t_reg s2)"
    using fire by blast
  let ?set = "\<lambda>w i. 1 \<le> i \<and> i \<le> int (sg_max ?p) \<and> bit (w :: u64) (nat (i - 1))"
  obtain s3 where s3: "set_signal_mask x prior s2 = Inr s3" "t_ran h x (s2\<lparr> in_mask := ?set prior \<rparr>) s3"
      "\<forall>Q. handlers_keep x Q \<longrightarrow> Q (t_reg s2) \<longrightarrow> Q (t_reg s3)"
    using set_signal_mask_returns [OF x prior tab] by blast
  obtain s4 where s4: "set_signal_mask x m s3 = Inr s4" "t_ran h x (s3\<lparr> in_mask := ?set m \<rparr>) s4"
      "\<forall>Q. handlers_keep x Q \<longrightarrow> Q (t_reg s3) \<longrightarrow> Q (t_reg s4)"
    using set_signal_mask_returns [OF x madd tab] by blast
  obtain s5 where s5: "(if fire then raise_bits x (?changed AND NOT m) [0..<64] s4 else Inr s4) = Inr s5" "t_ran h x s4 s5"
      "\<forall>Q. handlers_keep x Q \<longrightarrow> Q (t_reg s4) \<longrightarrow> Q (t_reg s5)"
    using fire by blast
  have run: "rvpredict_update_state x h prior fire s = Inr s5"
    using ok(4) by (simp add: rvpredict_update_state_def Let_def cr_ok_def cassert_def u s2(1) s3(1) s4(1) s5(1))
  have k: "t_ran h x (s1\<lparr> in_mask := ?set m \<rparr>) s5"
    using t_ran_trans [OF t_ran_mask [OF s2(2)] s3(2) [THEN t_ran_mask, of "?set m", simplified]]
    using t_ran_trans [OF _ t_ran_trans [OF s4(2) s5(2)]] t_ran_mask [OF s2(2), of "?set m"] t_ran_mask [OF s3(2), of "?set m"]
    by (simp add: t_ran_trans [OF _ t_ran_trans [OF s4(2) s5(2)]] t_ran_trans)
  have len: "in_nassigned (s1\<lparr> in_mask := ?set m \<rparr>) \<le> length (in_tab (s1\<lparr> in_mask := ?set m \<rparr>))"
    using ok(2) by (simp add: s1)
  have fin: "in_nassigned s5 = ?n" "in_mask s5 = ?set m"
      "i < ?n \<Longrightarrow> si_prio (get_si i s5) = si_prio (get_si i s)" for i
    using t_ran_sel [OF k len] by (simp_all add: s1 get_si_def)
  have "undeliverable_blocked x (t_reg s) s5"
    using bits tiaic_okD(3,7) [OF ok(1)] by (auto simp: undeliverable_blocked_def fin sbit_def [symmetric])
  moreover have "handlers_nest h x s5" "same_channels (t_reg s) (t_reg s5)" "same_table s s5"
    using k nest1 num by (simp_all add: t_ran_def same_table_def) (simp_all add: s1_def)
  moreover have "\<forall>Q. handlers_keep x Q \<longrightarrow> Q (t_reg s) \<longrightarrow> Q (t_reg s5)"
    using s2(3) s3(3) s4(3) s5(3) unfolding s1(2) by blast
  ultimately show ?thesis
    using run by blast
qed

section \<open>Writing registers\<close>

lemma check_bounds_passes: "check_bounds x i s = Inr s"
  by (simp add: check_bounds_def TIAIC_REVID_def oti_def as_size_def)

lemma unimpl_no_target:
  "i = TIAIC_VBR \<or> i = TIAIC_VSR \<or> i = TIAIC_VNR \<or> i = TIAIC_GPVR \<Longrightarrow> write_target i v r = None"
  by (auto simp: write_target_def tiaic_regs is_cmr_def as_size_def)

definition writable :: "int \<Rightarrow> u32 \<Rightarrow> bool" where
  "writable i v \<longleftrightarrow> (case readonly_bits i of None \<Rightarrow> True | Some m \<Rightarrow> v AND ucast m = 0)"

lemma writable_passes: "writable i v \<Longrightarrow> check_readonly x i v s = Inr s"
  by (simp add: writable_def check_readonly_def split: option.splits)

text \<open>A write of a writable value, with its checks behind it.\<close>

lemma tiaic_write_checked:
  assumes "write_target i v (t_reg s) = Some p" "writable i v" "in_array i"
    and set: "mask_to_sigset (ic_plat x) (ic_signals x) (t_total_mask s) = Inr bset"
    and block: "ic_sigmask x SIG_BLOCK bset s = Inr (0, omask, t)" "t_reg t = t_reg s"
  shows "tiaic_write x h i v s =
    (if t_reg t (fst p) \<noteq> snd p
     then rvpredict_update_state x h (sigset_to_mask (ic_plat x) (ic_signals x) omask) True
            (t\<lparr> t_reg := (t_reg t)(fst p := snd p) \<rparr>)
     else cbind (ic_sigmask x SIG_SETMASK omask t) (\<lambda>(_, _, s). Inr s))"
proof -
  have "check_unimpl x i t = Inr t"
    using unimpl_no_target [of i v "t_reg s"] assms(1) by (auto simp: check_unimpl_def)
  then show ?thesis
    using assms(1,3)
    by (cases p) (simp add: tiaic_write_def in_array_def set block check_bounds_passes writable_passes [OF assms(2)] Let_def)
qed

definition blocked_addable :: "'b tiaic_scheme intrctx \<Rightarrow> 'b tiaic_scheme \<Rightarrow> bool" where
  "blocked_addable x s \<longleftrightarrow> (\<forall>j\<in>{1 .. int (sg_max (ic_plat x))}. in_mask s j \<longrightarrow> sg_addable (ic_plat x) j)"

lemma write_updates:
  assumes x: "tiaic_kernel h x" and ok: "tiaic_ok x s" "in_nassigned s \<le> length (in_tab s)" "total_ok x s" "blocked_addable x s"
    and w: "write_target i v (t_reg s) = Some (reg, w)" "writable i v" "in_array i" "t_reg s reg \<noteq> w" "cr_ok ((t_reg s)(reg := w))"
  shows "\<exists>s'. tiaic_write x h i v s = Inr s' \<and> undeliverable_blocked x ((t_reg s)(reg := w)) s' \<and> handlers_nest h x s' \<and>
    same_table s s' \<and> same_channels ((t_reg s)(reg := w)) (t_reg s') \<and>
    (\<forall>Q. handlers_keep x Q \<longrightarrow> Q ((t_reg s)(reg := w)) \<longrightarrow> Q (t_reg s'))"
proof -
  let ?p = "ic_plat x"
  have tab: "ic_signals x = plat_tab ?p" and plat: "plat_ok ?p"
    using ok(1) by (simp_all add: tiaic_ok_def)
  obtain bset where set: "mask_to_sigset ?p (ic_signals x) (t_total_mask s) = Inr bset"
    using ok(3) mask_to_sigset_spec [of ?p "t_total_mask s"] by (simp add: tab total_ok_def)
  define t where "t = s\<lparr> in_mask := new_mask SIG_BLOCK (in_mask s) bset \<rparr>"
  have block: "ic_sigmask x SIG_BLOCK bset s = Inr (0, in_mask s, t)"
    using x by (simp add: tiaic_kernel_def t_def)
  let ?u = "t\<lparr> t_reg := (t_reg t)(reg := w) \<rparr>"
  have u: "t_reg t = t_reg s" "tiaic_ok x ?u" "in_nassigned ?u \<le> length (in_tab ?u)" "total_ok x ?u" "cr_ok (t_reg ?u)"
    using ok w(5) by (simp_all add: t_def tiaic_ok_def total_ok_def get_si_def)
  have prior: "mask_addable ?p (sigset_to_mask ?p (ic_signals x) (in_mask s))"
    unfolding mask_addable_def
  proof (intro ballI impI)
    fix j assume j: "j \<in> {1 .. int (sg_max ?p)}" "bit (sigset_to_mask ?p (ic_signals x) (in_mask s)) (nat (j - 1))"
    have "nat (j - 1) < 64" and eq: "int (nat (j - 1)) + 1 = j"
      using j(1) plat by (auto simp: plat_ok_def)
    then have "in_mask s j"
      using j(2) bit_sigset_to_mask [OF plat, of "nat (j - 1)" "in_mask s"] by (simp only: tab eq)
    then show "sg_addable ?p j"
      using ok(4) j(1) by (simp add: blocked_addable_def)
  qed
  have "tiaic_write x h i v s = rvpredict_update_state x h (sigset_to_mask ?p (ic_signals x) (in_mask s)) True ?u"
    using tiaic_write_checked [OF w(1-3) set block u(1)] w(4) u(1) by simp
  then show ?thesis
    using update_state_spec [OF x u(2-5) prior, of True] u(1) by (simp add: same_table_def) (simp add: t_def)
qed

text \<open>
  What a handler may do includes writing registers: a write that does not assign channels leaves all
  that handlers have to leave, once the kernel has restored the mask.
\<close>

lemma handler_may_write:
  assumes x: "tiaic_kernel h x" and ok: "tiaic_ok x s" "in_nassigned s \<le> length (in_tab s)" "total_ok x s" "blocked_addable x s"
    and w: "write_target i v (t_reg s) = Some (reg, w)" "writable i v" "in_array i" "t_reg s reg \<noteq> w" "cr_ok ((t_reg s)(reg := w))"
    and reg: "reg \<notin> TIAIC_CMR ` {0 .. 25}"
  shows "\<exists>s'. tiaic_write x h i v s = Inr s' \<and> t_ran h x s (s'\<lparr> in_mask := in_mask s \<rparr>)"
proof -
  obtain s' where s': "tiaic_write x h i v s = Inr s'" "handlers_nest h x s'" "same_table s s'"
      "same_channels ((t_reg s)(reg := w)) (t_reg s')"
    using write_updates [OF assms(1-10)] by blast
  have "same_channels (t_reg s) (t_reg s')"
    using s'(4) reg by (auto simp: same_channels_def)
  then show ?thesis
    using s' by (simp add: t_ran_def same_table_def)
qed

text \<open>An indexed write and the write of one bit have the same target and pass the same checks.\<close>

lemma index_out: "uint v \<le> 100 \<Longrightarrow> uint (SHIFTOUT (ucast (v :: u32)) TIAIC_INDEX) = uint v"
proof -
  have m: "TIAIC_INDEX = mask 7"
    by (simp add: TIAIC_INDEX_def BITS_macro_def BIT_macro_def mask_eq_exp_minus_1)
  have l: "LOWEST_SET_BIT (mask 7 :: u64) = 1"
    by (simp add: LOWEST_SET_BIT_def mask_eq_exp_minus_1)
  have "uint (ucast v AND mask 7 :: u64) = uint v mod 128"
    unfolding take_bit_eq_mask [symmetric]
    by (simp only: unsigned_take_bit_eq unsigned_ucast_eq) (simp add: take_bit_eq_mod mod_mod_cancel)
  then show "uint v \<le> 100 \<Longrightarrow> uint (SHIFTOUT (ucast v) TIAIC_INDEX) = uint v"
    by (simp add: SHIFTOUT_def m l)
qed

lemma indexed_spec:
  assumes "uint v \<le> 100"
  shows "indexed base f v r =
    Some (base + uint v div 32, ucast (f (ucast (r (base + uint v div 32))) (BIT_macro (uint v mod 32))))"
  using assms by (simp add: indexed_def index_out irq_bank_spec)

lemma one_bit_ucast:
  assumes "0 \<le> k" "k < 32"
  shows "(ucast (set_bits (ucast (r :: u32)) (BIT_macro k)) :: u32) = r OR push_bit (nat k) 1"
    "(ucast (clear_bits (ucast (r :: u32)) (BIT_macro k)) :: u32) = r AND NOT (push_bit (nat k) 1)"
  using assms
  by (auto intro!: bit_word_eqI simp: set_bits_def clear_bits_def bit_ucast_iff bit_or_iff bit_and_iff bit_not_iff bit_BIT
      bit_push_bit_iff bit_1_iff bit_exp_iff)

definition same_write :: "int \<Rightarrow> u32 \<Rightarrow> int \<Rightarrow> u32 \<Rightarrow> bool" where
  "same_write i v j w \<longleftrightarrow> in_array i \<and> in_array j \<and> writable i v \<and> writable j w \<and>
     (\<forall>r. write_target i v r \<noteq> None \<and> write_target i v r = write_target j w r)"

lemma tiaic_write_cong:
  assumes "same_write i v j w"
  shows "tiaic_write x h i v s = tiaic_write x h j w s"
proof -
  have arr: "0 \<le> i \<and> i \<le> TIAIC_HIPVR2 + 1" "0 \<le> j \<and> j \<le> TIAIC_HIPVR2 + 1"
    using assms by (auto simp: same_write_def in_array_def)
  have tgt: "write_target i v r \<noteq> None" "write_target j w r \<noteq> None" for r
    using assms unfolding same_write_def by metis+
  have un: "check_unimpl x i t = Inr t" "check_unimpl x j t = Inr t" for t
    using unimpl_no_target [of i v "\<lambda>_. 0"] unimpl_no_target [of j w "\<lambda>_. 0"] tgt [of "\<lambda>_. 0"]
    by (auto simp: check_unimpl_def)
  have ro: "check_readonly x i v t = Inr t" "check_readonly x j w t = Inr t" for t
    using assms by (simp_all add: same_write_def writable_passes)
  have same: "write_target i v r = write_target j w r" for r
    using assms by (simp add: same_write_def)
  show ?thesis
    unfolding tiaic_write_def check_bounds_passes ro un same using arr by simp
qed

lemma high_bits_clear:
  assumes "uint (v :: u32) < 2 ^ n" "n < 32"
  shows "v AND ucast (BITS_macro 31 (int n)) = 0"
proof -
  have "uint (take_bit n v) = uint v"
    using assms(1) by (simp only: unsigned_take_bit_eq) (simp add: take_bit_eq_mod)
  then have "take_bit n v = v"
    by (simp only: word_uint_eq_iff)
  then have "\<not> bit v m" if "n \<le> m" for m
    using that by (metis bit_take_bit_iff leD)
  then show ?thesis
    using assms(2) by (intro bit_word_eqI) (auto simp: bit_and_iff bit_ucast_iff bit_BITS)
qed

lemma indexed_is_bit_write:
  assumes v: "uint v \<le> 100"
  defines "b \<equiv> uint v div 32" and "w \<equiv> push_bit (nat (uint v mod 32)) (1 :: u32)"
  shows "same_write TIAIC_SISR v (TIAIC_SRSR1 + b) w" "same_write TIAIC_SICR v (TIAIC_SECR1 + b) w"
    "same_write TIAIC_EISR v (TIAIC_ESR1 + b) w" "same_write TIAIC_EICR v (TIAIC_ECR1 + b) w"
proof -
  have u0: "0 \<le> uint v"
    by simp
  have b: "b = 0 \<or> b = 1 \<or> b = 2 \<or> (b = 3 \<and> uint v mod 32 < 5)"
    using v u0 unfolding b_def by presburger
  have k: "0 \<le> uint v mod 32" "uint v mod 32 < 32"
    by simp_all
  have ix: "v AND ucast (BITS_macro 31 7) = 0"
    using high_bits_clear [of v 7] v by simp
  have lo: "w AND ucast (BITS_macro 31 5) = 0" if "uint v mod 32 < 5"
    using that k by (intro bit_word_eqI)
      (auto simp: w_def bit_and_iff bit_ucast_iff bit_BITS bit_push_bit_iff bit_1_iff bit_exp_iff)
  have tgt: "indexed base set_bits v r = Some (base + b, r (base + b) OR w)"
      "indexed base clear_bits v r = Some (base + b, r (base + b) AND NOT w)" for base r
    unfolding indexed_spec [OF v] one_bit_ucast [OF k] b_def w_def by simp_all
  note eval = same_write_def in_array_def writable_def readonly_bits_def is_cmr_def as_size_def write_target_def tiaic_regs Let_def
  show "same_write TIAIC_SISR v (TIAIC_SRSR1 + b) w"
    using b by (elim disjE conjE) (simp_all add: eval ix lo tgt [unfolded tiaic_regs])
  show "same_write TIAIC_SICR v (TIAIC_SECR1 + b) w"
    using b by (elim disjE conjE) (simp_all add: eval ix lo tgt [unfolded tiaic_regs])
  show "same_write TIAIC_EISR v (TIAIC_ESR1 + b) w"
    using b by (elim disjE conjE) (simp_all add: eval ix lo tgt [unfolded tiaic_regs])
  show "same_write TIAIC_EICR v (TIAIC_ECR1 + b) w"
    using b by (elim disjE conjE) (simp_all add: eval ix lo tgt [unfolded tiaic_regs])
qed

section \<open>What the controller does not do\<close>

text \<open>
  Channel 31 is never enabled, whatever the nesting level. The nesting levels of the host lines cannot
  be written. As the registers start, the first write that changes one other than the control
  register ends the process.
\<close>

lemma channel_31_never_enabled: "\<not> bit (channels_enabled r) 31"
  using channels_enabled_spec [of 31 r] by (simp add: channel_on_def)

lemma nesting_level_not_writable: "write_target TIAIC_HINLR1 v r = None" "write_target TIAIC_HINLR2 v r = None"
  by (simp_all add: write_target_def tiaic_regs is_cmr_def as_size_def)

lemma initial_mode_unsupported: "\<not> cr_ok tiaic_reg_init"
  by (simp add: cr_ok_def tiaic_reg_init_def tiaic_regs TIAIC_CR_PRHOLDMODE_def)

section \<open>Properties\<close>

text \<open>
  C31. A write that changes a register returns, and afterwards, whatever handlers ran meanwhile,
  exactly the signals of the interrupts are blocked that the controller cannot deliver with the
  registers as the write left them: those that are not enabled themselves, whose host line or the
  controller is disabled, or whose channel is not below the nesting level of its line (nor below
  31). Each handler is installed with a mask of just the interrupts on its channel or a
  higher-numbered one. The handlers may have written registers in turn, those that assign channels
  apart; what they keep of the registers is kept. The mask does not follow what they wrote. The
  registers must select the supported nesting mode.
\<close>

theorem register_write_updates_mask:
  assumes "tiaic_kernel h x" and "tiaic_ok x s" and "in_nassigned s \<le> length (in_tab s)" and "total_ok x s"
    and "blocked_addable x s" and "write_target i v (t_reg s) = Some (reg, w)" and "writable i v" and "in_array i"
    and "t_reg s reg \<noteq> w" and "cr_ok ((t_reg s)(reg := w))"
  shows "\<exists>s'. tiaic_write x h i v s = Inr s' \<and> undeliverable_blocked x ((t_reg s)(reg := w)) s' \<and> handlers_nest h x s' \<and>
    in_nassigned s' = in_nassigned s \<and> same_channels ((t_reg s)(reg := w)) (t_reg s') \<and>
    (\<forall>Q. handlers_keep x Q \<longrightarrow> Q ((t_reg s)(reg := w)) \<longrightarrow> Q (t_reg s'))"
  using write_updates [OF assms] unfolding same_table_def by blast

text \<open>
  A kernel with signal 34 pending for ever: whenever a new mask lets it through, its service routine
  disables and enables the controller as those of the repository's example do.
\<close>

definition busy_ctx :: "tiaic intrctx" where
  "busy_ctx =
     \<lparr> ic_plat = linux_signals, ic_signals = plat_tab linux_signals, ic_rtmin = 34, ic_rtsig_max = 8,
       ic_raise = (\<lambda>signum s. Inr s),
       ic_sigmask = (\<lambda>how m s. Inr (0, in_mask s,
         if how = SIG_BLOCK \<or> m 34 then s\<lparr> in_mask := new_mask how (in_mask s) m \<rparr>
         else s\<lparr> in_mask := new_mask how (in_mask s) m, t_reg := (t_reg s)(TIAIC_GER := 0, TIAIC_GER := 1) \<rparr>)),
       ic_sigaction = (\<lambda>signum a s. Inr (0, in_action s signum,
         case a of None \<Rightarrow> s | Some a \<Rightarrow> s\<lparr> in_action := (in_action s)(signum := a) \<rparr>)),
       ic_timer = (\<lambda>signum interval s. Inr (0, s)), ic_code = (\<lambda>isr s. Inr s) \<rparr>"

text \<open>Interrupt 5 on channel 2 is enabled, interrupt 40 on channel 3 is not.\<close>

definition two_irqs :: tiaic where
  "two_irqs =
     \<lparr> in_tab = [\<lparr> si_handler = 0x400, si_prio = 5, si_signum = 34, si_nactive = 0, si_times = 0 \<rparr>,
                 \<lparr> si_handler = 0x500, si_prio = 40, si_signum = 35, si_nactive = 0, si_times = 0 \<rparr>],
       in_nintrs = 2, in_nassigned = 2, in_mask = (\<lambda>j. j = 35), in_action = (\<lambda>_. (7, sigemptyset)),
       t_reg = tiaic_reg_init(TIAIC_CR := 0x14, TIAIC_GER := 1, TIAIC_HIER := 3, TIAIC_ESR1 := 0x20,
                              TIAIC_CMR 1 := 0x200, TIAIC_CMR 10 := 3),
       t_total_mask = 0x600000000 \<rparr>"

lemma GER_no_channel: "TIAIC_CMR c \<noteq> TIAIC_GER" if "0 \<le> c"
  using that by (simp add: tiaic_regs)

lemma busy_kernel: "tiaic_kernel h busy_ctx"
proof -
  let ?ger = "\<lambda>s :: tiaic. s\<lparr> t_reg := (t_reg s)(TIAIC_GER := 1) \<rparr>"
  have chan: "channel_of ((t_reg s)(TIAIC_GER := 1)) k = channel_of (t_reg s) k" if "0 \<le> k" for k and s :: tiaic
    using GER_no_channel [of "k div 4"] that by (simp add: channel_of_def)
  have "handlers_nest h busy_ctx (?ger s) = handlers_nest h busy_ctx s" if "numbered s" for s
    using that by (auto simp: handlers_nest_def blocks_from_def channel_at_def get_si_def chan numbered_def)
  then have "t_ran h busy_ctx s (?ger s)" for s
    using GER_no_channel by (simp add: t_ran_def same_channels_def)
  from this [of "s\<lparr> in_mask := m \<rparr>" for s m]
  have "t_ran h busy_ctx (s\<lparr> in_mask := m \<rparr>) (s\<lparr> in_mask := m, t_reg := (t_reg s)(TIAIC_GER := 1) \<rparr>)" for s m
    by simp
  then show ?thesis
    by (simp add: tiaic_kernel_def posix_actions_def busy_ctx_def new_mask_def SIG_BLOCK_def SIG_UNBLOCK_def SIG_SETMASK_def)
qed

lemma two_irqs_sel:
  "in_nassigned two_irqs = 2" "si_prio (get_si 0 two_irqs) = 5" "si_prio (get_si (Suc 0) two_irqs) = 40"
  "si_signum (get_si 0 two_irqs) = 34" "si_signum (get_si (Suc 0) two_irqs) = 35"
  "intr_signo busy_ctx 0 = 34" "intr_signo busy_ctx (Suc 0) = 35" "ic_plat busy_ctx = linux_signals"
  "ic_signals busy_ctx = plat_tab linux_signals" "ic_rtmin busy_ctx = 34" "length (in_tab two_irqs) = 2"
  by (simp_all add: two_irqs_def get_si_def intr_signo_def busy_ctx_def)

lemma below_2: "i < (2 :: nat) \<longleftrightarrow> i = 0 \<or> i = Suc 0"
  by auto

lemma two_irqs_ok: "tiaic_ok busy_ctx two_irqs" "total_ok busy_ctx two_irqs" "blocked_addable busy_ctx two_irqs"
proof -
  have "plat_ok linux_signals"
    by (simp add: plat_ok_def linux_signals_def)
  then show "tiaic_ok busy_ctx two_irqs"
    by (auto simp: tiaic_ok_def two_irqs_sel below_2) (simp_all add: linux_signals_def)
  have t: "t_total_mask two_irqs = push_bit 33 1 OR push_bit 34 1"
    by (simp add: two_irqs_def)
  have "33 = nat (i - 1) \<longleftrightarrow> i = 34" "34 = nat (i - 1) \<longleftrightarrow> i = 35" for i :: int
    by auto
  then show "total_ok busy_ctx two_irqs"
    unfolding total_ok_def t
    by (auto simp: two_irqs_sel below_2 sbit_def mask_addable_def bit_or_iff bit_exp_iff linux_signals_def)
  show "blocked_addable busy_ctx two_irqs"
    by (simp add: blocked_addable_def two_irqs_def two_irqs_sel(8)) (simp add: linux_signals_def)
qed

text \<open>
  The example's \<^verbatim>\<open>DI()\<close>. The pending interrupt is serviced in it and enables the controller again; yet all
  interrupts stay blocked. What no handler writes is as it was.
\<close>

theorem register_write_updates_mask_witness:
  "\<exists>s'. tiaic_write busy_ctx 7 TIAIC_GER 0 two_irqs = Inr s' \<and> in_mask s' 34 \<and> in_mask s' 35 \<and>
    handlers_nest 7 busy_ctx s' \<and> t_reg s' TIAIC_HIER = 3"
proof -
  have t: "write_target TIAIC_GER 0 (t_reg two_irqs) = Some (TIAIC_GER, 0)"
    by (simp add: write_target_def tiaic_regs)
  have w: "writable TIAIC_GER 0" "in_array TIAIC_GER"
    by (simp_all add: writable_def readonly_bits_def in_array_def tiaic_regs)
  have r: "t_reg two_irqs TIAIC_GER \<noteq> 0"
    by (simp add: two_irqs_def tiaic_reg_init_def tiaic_regs)
  have c: "cr_ok ((t_reg two_irqs)(TIAIC_GER := 0))"
    by (simp add: cr_ok_def two_irqs_def tiaic_reg_init_def tiaic_regs)
       (simp add: TIAIC_CR_NESTMODE_MASK_def TIAIC_CR_NESTMODE_INDIVIDUAL_def TIAIC_CR_PRHOLDMODE_def SHIFTIN_def
          LOWEST_SET_BIT_def BITS_macro_def BIT_macro_def)
  have d: "\<not> deliverable ((t_reg two_irqs)(TIAIC_GER := 0)) k" for k
    by (simp add: deliverable_def)
  have q: "handlers_keep busy_ctx (\<lambda>r. r TIAIC_HIER = 3)" "((t_reg two_irqs)(TIAIC_GER := 0)) TIAIC_HIER = 3"
    by (auto simp: handlers_keep_def busy_ctx_def two_irqs_def tiaic_regs split: if_splits)
  have len: "in_nassigned two_irqs \<le> length (in_tab two_irqs)"
    by (simp add: two_irqs_sel)
  obtain s' where s': "tiaic_write busy_ctx 7 TIAIC_GER 0 two_irqs = Inr s'" "handlers_nest 7 busy_ctx s'"
      "undeliverable_blocked busy_ctx ((t_reg two_irqs)(TIAIC_GER := 0)) s'" "in_nassigned s' = 2" "t_reg s' TIAIC_HIER = 3"
    using register_write_updates_mask [OF busy_kernel two_irqs_ok(1) len two_irqs_ok(2,3) t w r c, of 7] q
    unfolding two_irqs_sel by blast
  then show ?thesis
    by (auto simp: undeliverable_blocked_def d below_2 two_irqs_sel)
qed

text \<open>
  The indexed registers are the bit registers: setting or clearing the status or the enabling of
  interrupt \<open>v\<close> by its index does all that writing its bit to the right one of four registers does,
  for every interrupt up to 100.
\<close>

lemma indexed_registers_set_bits:
  assumes "uint v \<le> 100"
  shows "tiaic_write x h TIAIC_SISR v s = tiaic_write x h (TIAIC_SRSR1 + uint v div 32) (push_bit (nat (uint v mod 32)) 1) s \<and>
    tiaic_write x h TIAIC_SICR v s = tiaic_write x h (TIAIC_SECR1 + uint v div 32) (push_bit (nat (uint v mod 32)) 1) s \<and>
    tiaic_write x h TIAIC_EISR v s = tiaic_write x h (TIAIC_ESR1 + uint v div 32) (push_bit (nat (uint v mod 32)) 1) s \<and>
    tiaic_write x h TIAIC_EICR v s = tiaic_write x h (TIAIC_ECR1 + uint v div 32) (push_bit (nat (uint v mod 32)) 1) s"
  using indexed_is_bit_write [OF assms] by (intro conjI tiaic_write_cong) simp_all

lemma indexed_registers_set_bits_witness:
  "tiaic_write busy_ctx 7 TIAIC_EICR 98 two_irqs = tiaic_write busy_ctx 7 TIAIC_ECR4 4 two_irqs"
proof -
  have "TIAIC_ECR1 + 3 = TIAIC_ECR4"
    by (simp add: tiaic_regs)
  then show ?thesis
    using indexed_registers_set_bits [of 98 busy_ctx 7 two_irqs] by simp
qed

end
