(* ===== verification/Wakeup.thy ===== *)
theory Wakeup
  imports Prelude
begin

text \<open>
  Who wakes the serializer: \<open>rvp_wake_transmitter\<close>, \<open>rvp_stop_transmitter\<close> and the loop of the
  serializer thread in \<^verbatim>\<open>llvm/ngrt/thread.c\<close>, and the relay of \<^verbatim>\<open>llvm/ngrt/relay.c\<close> for signal
  handlers, which may not take the thread lock. Every sequence of the process takes small steps in
  any order. The calls of the pthread library succeed.
\<close>

section \<open>Shared state\<close>

text \<open>
  \<open>w_asleep\<close> and \<open>w_stop_asleep\<close> are the waiting lists of \<open>wakecond\<close> and \<open>stopcond\<close>: the serializer and
  the stopping thread are the only ones that wait. \<open>r_pending\<close> says that the relay's signal is
  pending; one that is sent again is not queued. \<open>w_calls\<close> counts the calls that ask for service,
  and \<open>w_rounds\<close> the rounds of the serializer; the program does not have these two. The counters of
  the program are of type \<open>int\<close>; they are taken not to reach its largest value.
\<close>

record wake =
  w_nwake :: nat
  w_locked :: bool
  w_asleep :: bool
  w_stopping :: bool
  w_stop_asleep :: bool
  r_nwake :: nat
  r_pending :: bool
  w_calls :: nat
  w_rounds :: nat

section \<open>Asking for service\<close>

text \<open>
  \<open>TxLock\<close> to \<open>TxUnlock\<close> are the steps of \<open>rvp_wake_transmitter\<close>, \<open>RxInc\<close> and \<open>RxKill\<close> those of
  \<open>rvp_wake_relay\<close>. A step that has to wait for the lock gives \<open>None\<close>.
\<close>

datatype wpc = Idle | TxLock | TxInc | TxSignal | TxUnlock | RxInc | RxKill

definition thread_lock :: "wake \<Rightarrow> wake option" where
  "thread_lock g = (if w_locked g then None else Some (g\<lparr> w_locked := True \<rparr>))"

definition thread_unlock :: "wake \<Rightarrow> wake" where
  "thread_unlock g = g\<lparr> w_locked := False \<rparr>"

fun wake_step :: "wake \<Rightarrow> wpc \<Rightarrow> (wake \<times> wpc) option" where
    "wake_step g Idle = None"
  | "wake_step g TxLock = map_option (\<lambda>g. (g, TxInc)) (thread_lock g)"
  | "wake_step g TxInc = Some (g\<lparr> w_nwake := w_nwake g + 1 \<rparr>, TxSignal)"
  | "wake_step g TxSignal = Some (g\<lparr> w_asleep := False \<rparr>, TxUnlock)"
  | "wake_step g TxUnlock = Some (thread_unlock g, Idle)"
  | "wake_step g RxInc = Some (g\<lparr> r_nwake := r_nwake g + 1 \<rparr>, RxKill)"
  | "wake_step g RxKill = Some (g\<lparr> r_pending := True \<rparr>, Idle)"

section \<open>The relay\<close>

text \<open>\<open>RCall\<close> is the call of \<open>rvp_wake_transmitter\<close>.\<close>

datatype rpc = RWait | RCheck | RCall wpc | RDec

fun relay_step :: "wake \<Rightarrow> rpc \<Rightarrow> (wake \<times> rpc) option" where
    "relay_step g RWait = (if r_pending g then Some (g\<lparr> r_pending := False \<rparr>, RCheck) else None)"
  | "relay_step g RCheck = Some (g, if 0 < r_nwake g then RCall TxLock else RWait)"
  | "relay_step g (RCall c) =
       (if c = Idle then Some (g, RDec) else map_option (\<lambda>(g, c). (g, RCall c)) (wake_step g c))"
  | "relay_step g RDec = Some (g\<lparr> r_nwake := r_nwake g - 1 \<rparr>, RCheck)"

section \<open>The serializer\<close>

text \<open>
  \<open>SWait\<close> is the call of \<open>pthread_cond_wait\<close>, which gives up the lock and sleeps in one step;
  \<open>SAsleep\<close> is its end, which takes the lock again. \<open>SRound\<close> is a round of service.
\<close>

datatype spc = SStart | SCheck | SBroadcast | SWait | SAsleep | SDec | SRound

fun serialize_step :: "wake \<Rightarrow> spc \<Rightarrow> (wake \<times> spc) option" where
    "serialize_step g SStart = map_option (\<lambda>g. (g, SCheck)) (thread_lock g)"
  | "serialize_step g SCheck = Some (g, if w_nwake g = 0 then if w_stopping g then SBroadcast else SWait else SDec)"
  | "serialize_step g SBroadcast = Some (g\<lparr> w_stop_asleep := False \<rparr>, SWait)"
  | "serialize_step g SWait = Some (g\<lparr> w_asleep := True, w_locked := False \<rparr>, SAsleep)"
  | "serialize_step g SAsleep = (if w_asleep g then None else map_option (\<lambda>g. (g, SCheck)) (thread_lock g))"
  | "serialize_step g SDec = Some (g\<lparr> w_nwake := w_nwake g - 1 \<rparr>, SRound)"
  | "serialize_step g SRound = Some (g\<lparr> w_rounds := w_rounds g + 1 \<rparr>, SCheck)"

section \<open>Stopping\<close>

text \<open>\<open>rvp_stop_transmitter\<close> runs once, when the process exits.\<close>

datatype ppc = PIdle | PLock | PInc | PSignal | PSet | PCheck | PWait | PAsleep | PClear | PUnlock | PDone

fun stop_step :: "wake \<Rightarrow> ppc \<Rightarrow> (wake \<times> ppc) option" where
    "stop_step g PIdle = None"
  | "stop_step g PLock = map_option (\<lambda>g. (g, PInc)) (thread_lock g)"
  | "stop_step g PInc = Some (g\<lparr> w_nwake := w_nwake g + 1 \<rparr>, PSignal)"
  | "stop_step g PSignal = Some (g\<lparr> w_asleep := False \<rparr>, PSet)"
  | "stop_step g PSet = Some (g\<lparr> w_stopping := True \<rparr>, PCheck)"
  | "stop_step g PCheck = Some (g, if 0 < w_nwake g then PWait else PClear)"
  | "stop_step g PWait = Some (g\<lparr> w_stop_asleep := True, w_locked := False \<rparr>, PAsleep)"
  | "stop_step g PAsleep = (if w_stop_asleep g then None else map_option (\<lambda>g. (g, PCheck)) (thread_lock g))"
  | "stop_step g PClear = Some (g\<lparr> w_stopping := False \<rparr>, PUnlock)"
  | "stop_step g PUnlock = Some (thread_unlock g, PDone)"
  | "stop_step g PDone = None"

section \<open>The process\<close>

text \<open>The sequences of the program, which include its handlers, and the runtime's two threads.\<close>

record wsys =
  ws :: wake
  thr :: "wpc list"
  rel :: rpc
  ser :: spc
  stp :: ppc

text \<open>Steps within a call or within the two threads.\<close>

inductive wstep :: "wsys \<Rightarrow> wsys \<Rightarrow> bool" where
  thread: "i < length (thr s) \<Longrightarrow> wake_step (ws s) (thr s ! i) = Some (g, c) \<Longrightarrow>
    wstep s (s\<lparr> ws := g, thr := (thr s)[i := c] \<rparr>)"
| relay: "relay_step (ws s) (rel s) = Some (g, c) \<Longrightarrow> wstep s (s\<lparr> ws := g, rel := c \<rparr>)"
| serializer: "serialize_step (ws s) (ser s) = Some (g, c) \<Longrightarrow> wstep s (s\<lparr> ws := g, ser := c \<rparr>)"
| stop: "stop_step (ws s) (stp s) = Some (g, c) \<Longrightarrow> wstep s (s\<lparr> ws := g, stp := c \<rparr>)"

text \<open>New calls, and the spurious wake-ups that POSIX allows.\<close>

inductive wcall :: "wsys \<Rightarrow> wsys \<Rightarrow> bool" where
  transmitter: "i < length (thr s) \<Longrightarrow> thr s ! i = Idle \<Longrightarrow>
    wcall s (s\<lparr> ws := (ws s)\<lparr> w_calls := w_calls (ws s) + 1 \<rparr>, thr := (thr s)[i := TxLock] \<rparr>)"
| handler: "i < length (thr s) \<Longrightarrow> thr s ! i = Idle \<Longrightarrow>
    wcall s (s\<lparr> ws := (ws s)\<lparr> w_calls := w_calls (ws s) + 1 \<rparr>, thr := (thr s)[i := RxInc] \<rparr>)"
| exit: "stp s = PIdle \<Longrightarrow> wcall s (s\<lparr> ws := (ws s)\<lparr> w_calls := w_calls (ws s) + 1 \<rparr>, stp := PLock \<rparr>)"
| spurious: "wcall s (s\<lparr> ws := (ws s)\<lparr> w_asleep := False \<rparr> \<rparr>)"
| stop_spurious: "wcall s (s\<lparr> ws := (ws s)\<lparr> w_stop_asleep := False \<rparr> \<rparr>)"

definition wstart :: "nat \<Rightarrow> wsys" where
  "wstart n =
     \<lparr> ws = \<lparr> w_nwake = 0, w_locked = False, w_asleep = False, w_stopping = False, w_stop_asleep = False,
             r_nwake = 0, r_pending = False, w_calls = 0, w_rounds = 0 \<rparr>,
       thr = replicate n Idle, rel = RWait, ser = SStart, stp = PIdle \<rparr>"

inductive wreach :: "nat \<Rightarrow> wsys \<Rightarrow> bool" for n where
  start: "wreach n (wstart n)"
| step: "wreach n s \<Longrightarrow> wstep s s' \<Longrightarrow> wreach n s'"
| call: "wreach n s \<Longrightarrow> wcall s s' \<Longrightarrow> wreach n s'"

section \<open>The limit of the trace\<close>

text \<open>
  \<open>rvp_size_limit_init\<close>: \<open>strtoimax\<close> is given as the number, the rest of the string, and whether \<open>errno\<close>
  is \<open>ERANGE\<close> afterwards. Without the variable the limit stays as it is.
\<close>

definition INT64_MAX :: int where "INT64_MAX = 2 ^ 63 - 1"
definition INT64_MIN :: int where "INT64_MIN = - (2 ^ 63)"

definition size_factor :: "string \<Rightarrow> int \<times> string" where
  "size_factor rest =
     (case rest of
        [] \<Rightarrow> (1, [])
      | c # cs \<Rightarrow>
          if c = CHR ''k'' then (1024, cs)
          else if c = CHR ''M'' then (1024 * 1024, cs)
          else if c = CHR ''G'' then (1024 * 1024 * 1024, cs)
          else (1, c # cs))"

definition rvp_size_limit_init :: "(int \<times> string \<times> bool) option \<Rightarrow> int \<Rightarrow> int cres" where
  "rvp_size_limit_init v old =
     (case v of None \<Rightarrow> Inr old
      | Some (limit, rest, erange) \<Rightarrow>
          let (factor, rest) = size_factor rest in
          if rest \<noteq> [] then Inl Exited
          else if (limit = INT64_MIN \<or> limit = INT64_MAX) \<and> erange then Inl Exited
          else if limit < 0 then Inl Exited
          else if INT64_MAX div factor < limit then Inl Exited
          else Inr (limit * factor))"

end
