(* ===== verification/Wakeup_Laws.thy ===== *)
theory Wakeup_Laws
  imports Wakeup
begin

text \<open>
  No wake-up is lost: whatever the order of the steps, the calls for service are all served once the
  process comes to rest, it does come to rest, and the last service before the process stops is over
  when \<open>rvp_stop_transmitter\<close> returns.
\<close>

section \<open>Counting sequences\<close>

definition cnt :: "('a \<Rightarrow> bool) \<Rightarrow> 'a list \<Rightarrow> nat" where
  "cnt P xs = length (filter P xs)"

lemma cnt_update:
  "i < length xs \<Longrightarrow> cnt P (xs[i := y]) + of_bool (P (xs ! i)) = cnt P xs + of_bool (P y)"
proof (induction xs arbitrary: i)
  case (Cons x xs)
  then show ?case
    by (cases i) (auto simp: cnt_def)
qed simp

lemma cnt_replicate [simp]: "cnt P (replicate n x) = (if P x then n else 0)"
  by (simp add: cnt_def)

lemma cnt_pos: "0 < cnt P xs \<longleftrightarrow> (\<exists>i<length xs. P (xs ! i))"
  by (auto simp: cnt_def filter_empty_conv in_set_conv_nth) (metis nth_mem)

section \<open>The invariant\<close>

definition holds_w :: "wpc \<Rightarrow> bool" where
  "holds_w c \<longleftrightarrow> c = TxInc \<or> c = TxSignal \<or> c = TxUnlock"

definition holds_s :: "spc \<Rightarrow> bool" where
  "holds_s c \<longleftrightarrow> c \<noteq> SStart \<and> c \<noteq> SAsleep"

definition holds_p :: "ppc \<Rightarrow> bool" where
  "holds_p c \<longleftrightarrow> c \<noteq> PIdle \<and> c \<noteq> PLock \<and> c \<noteq> PAsleep \<and> c \<noteq> PDone"

definition holds_r :: "rpc \<Rightarrow> bool" where
  "holds_r c \<longleftrightarrow> c = RCall TxInc \<or> c = RCall TxSignal \<or> c = RCall TxUnlock"

text \<open>Calls whose increment is still to come, and calls of the relay that are counted twice.\<close>

definition asking :: "wpc \<Rightarrow> bool" where
  "asking c \<longleftrightarrow> c = TxLock \<or> c = TxInc \<or> c = RxInc"

definition p_asking :: "ppc \<Rightarrow> bool" where
  "p_asking c \<longleftrightarrow> c = PLock \<or> c = PInc"

definition relayed :: "rpc \<Rightarrow> bool" where
  "relayed c \<longleftrightarrow> c = RCall TxSignal \<or> c = RCall TxUnlock \<or> c = RCall Idle \<or> c = RDec"

definition one_holder :: "wsys \<Rightarrow> bool" where
  "one_holder s \<longleftrightarrow> cnt holds_w (thr s) + of_bool (holds_r (rel s)) + of_bool (holds_s (ser s)) + of_bool (holds_p (stp s)) =
     of_bool (w_locked (ws s))"

definition signalling :: "wsys \<Rightarrow> bool" where
  "signalling s \<longleftrightarrow> 0 < cnt (\<lambda>c. c = TxSignal) (thr s) \<or> rel s = RCall TxSignal \<or> stp s = PSignal"

definition serializer_told :: "wsys \<Rightarrow> bool" where
  "serializer_told s \<longleftrightarrow> (w_asleep (ws s) \<longrightarrow> ser s = SAsleep \<and> (0 < w_nwake (ws s) \<longrightarrow> signalling s)) \<and>
     (ser s = SDec \<longrightarrow> 0 < w_nwake (ws s)) \<and> (ser s = SBroadcast \<or> ser s = SWait \<longrightarrow> w_nwake (ws s) = 0)"

definition stopper_told :: "wsys \<Rightarrow> bool" where
  "stopper_told s \<longleftrightarrow>
     (w_stop_asleep (ws s) \<longrightarrow> stp s = PAsleep \<and> (0 < w_nwake (ws s) \<or> (holds_s (ser s) \<and> ser s \<noteq> SWait))) \<and>
     (w_stopping (ws s) \<longleftrightarrow> stp s = PCheck \<or> stp s = PWait \<or> stp s = PAsleep \<or> stp s = PClear) \<and>
     (stp s = PWait \<longrightarrow> 0 < w_nwake (ws s)) \<and> (stp s = PClear \<or> stp s = PUnlock \<longrightarrow> w_nwake (ws s) = 0)"

definition relay_told :: "wsys \<Rightarrow> bool" where
  "relay_told s \<longleftrightarrow> (\<forall>c. rel s = RCall c \<longrightarrow> c \<noteq> RxInc \<and> c \<noteq> RxKill) \<and>
     (rel s \<noteq> RWait \<and> rel s \<noteq> RCheck \<longrightarrow> 0 < r_nwake (ws s)) \<and>
     (rel s = RWait \<and> 0 < r_nwake (ws s) \<longrightarrow> r_pending (ws s) \<or> 0 < cnt (\<lambda>c. c = RxKill) (thr s))"

text \<open>A truth value as a number that simplification leaves alone.\<close>

definition tick :: "bool \<Rightarrow> nat" where
  "tick b = of_bool b"

lemma tick_simps [simp]: "tick True = 1" "tick False = 0"
  by (simp_all add: tick_def)

definition calls_counted :: "wsys \<Rightarrow> bool" where
  "calls_counted s \<longleftrightarrow> w_calls (ws s) + tick (relayed (rel s)) =
     w_rounds (ws s) + w_nwake (ws s) + r_nwake (ws s) + cnt asking (thr s) +
     tick (p_asking (stp s)) + tick (ser s = SRound)"

definition winv :: "wsys \<Rightarrow> bool" where
  "winv s \<longleftrightarrow> one_holder s \<and> serializer_told s \<and> stopper_told s \<and> relay_told s \<and> calls_counted s"

lemmas winv_defs = winv_def one_holder_def serializer_told_def stopper_told_def relay_told_def calls_counted_def signalling_def
lemmas holder_defs = holds_w_def holds_r_def holds_s_def holds_p_def asking_def p_asking_def relayed_def

lemma winv_start: "winv (wstart n)"
  by (simp add: winv_defs wstart_def holder_defs)

lemma thread_lock_Some [simp]: "thread_lock g = Some g' \<longleftrightarrow> \<not> w_locked g \<and> g' = g\<lparr> w_locked := True \<rparr>"
  by (auto simp: thread_lock_def)

declare thread_unlock_def [simp]

lemma holder_excludes:
  assumes "one_holder s"
  shows "i < length (thr s) \<Longrightarrow> holds_w (thr s ! i) \<Longrightarrow> \<not> holds_r (rel s) \<and> \<not> holds_s (ser s) \<and> \<not> holds_p (stp s)"
    and "holds_r (rel s) \<Longrightarrow> \<not> holds_s (ser s) \<and> \<not> holds_p (stp s)"
    and "holds_s (ser s) \<Longrightarrow> \<not> holds_p (stp s)"
    and "\<not> w_locked (ws s) \<Longrightarrow> \<not> holds_r (rel s) \<and> \<not> holds_s (ser s) \<and> \<not> holds_p (stp s)"
  using assms cnt_pos [of holds_w "thr s"] by (auto simp: one_holder_def of_bool_def split: if_splits)

lemma winv_thread:
  assumes "winv s" and i: "i < length (thr s)" and step: "wake_step (ws s) (thr s ! i) = Some (g, c)"
  shows "winv (s\<lparr> ws := g, thr := (thr s)[i := c] \<rparr>)"
proof -
  let ?s = "s\<lparr> ws := g, thr := (thr s)[i := c] \<rparr>"
  note inv = assms(1) [unfolded winv_def]
  note upd = cnt_update [OF i, of holds_w c] cnt_update [OF i, of "\<lambda>c. c = TxSignal" c]
    cnt_update [OF i, of "\<lambda>c. c = RxKill" c] cnt_update [OF i, of asking c]
  have told: "serializer_told s" "stopper_told s" "relay_told s" "calls_counted s"
    using inv by simp_all
  have ex: "holds_w (thr s ! i) \<longrightarrow> \<not> holds_r (rel s) \<and> \<not> holds_s (ser s) \<and> \<not> holds_p (stp s)"
    using holder_excludes(1) [OF inv [THEN conjunct1] i] by blast
  have sg: "c = TxSignal \<or> (thr s ! i \<noteq> TxSignal \<and> 0 < cnt (\<lambda>c. c = TxSignal) (thr s)) \<longrightarrow>
      0 < cnt (\<lambda>c. c = TxSignal) ((thr s)[i := c])"
    unfolding cnt_pos using i by (auto simp: nth_list_update)
  have sig: "c = TxSignal \<or> (thr s ! i \<noteq> TxSignal \<and> signalling s) \<longrightarrow> signalling ?s"
    using sg by (auto simp: signalling_def)
  have "one_holder ?s"
    using inv [THEN conjunct1] step upd(1)
    by (cases "thr s ! i"; clarsimp simp: one_holder_def holds_w_def; cases "w_locked (ws s)"; auto)
  moreover have "serializer_told ?s"
    using told(1) step sig ex
    by (cases "thr s ! i"; clarsimp simp: serializer_told_def holds_w_def holds_s_def; auto)
  moreover have "stopper_told ?s"
  proof -
    have "w_stop_asleep g = w_stop_asleep (ws s)" "w_stopping g = w_stopping (ws s)"
        "0 < w_nwake (ws s) \<longrightarrow> 0 < w_nwake g" "holds_p (stp s) \<longrightarrow> w_nwake g = w_nwake (ws s)"
      using step ex by (cases "thr s ! i"; clarsimp simp: holds_w_def)+
    then show ?thesis
      using told(2) unfolding stopper_told_def holds_p_def by auto
  qed
  moreover have "relay_told ?s"
    using told(3) step upd(3)
    by (cases "thr s ! i"; clarsimp simp: relay_told_def; auto)
  moreover have "calls_counted ?s"
    using told(4) step upd(4)
    by (cases "thr s ! i"; clarsimp simp: calls_counted_def asking_def; auto)
  ultimately show ?thesis
    by (simp add: winv_def)
qed

lemma winv_relay:
  assumes "winv s" and step: "relay_step (ws s) (rel s) = Some (g, c)"
  shows "winv (s\<lparr> ws := g, rel := c \<rparr>)"
proof -
  let ?s = "s\<lparr> ws := g, rel := c \<rparr>"
  note inv = assms(1) [unfolded winv_def]
  have pc: "rel s = RWait \<or> rel s = RCheck \<or> rel s = RDec \<or> rel s = RCall Idle \<or> rel s = RCall TxLock \<or>
      rel s = RCall TxInc \<or> rel s = RCall TxSignal \<or> rel s = RCall TxUnlock"
    using inv by (cases "rel s") (auto simp: relay_told_def intro: wpc.exhaust)
  have told: "serializer_told s" "stopper_told s" "relay_told s" "calls_counted s"
    using inv by simp_all
  note ex = holder_excludes(2) [OF inv [THEN conjunct1]]
  have "one_holder ?s"
    using inv [THEN conjunct1] step pc
    by (elim disjE; clarsimp simp: one_holder_def holds_r_def split: if_splits;
      cases "w_locked (ws s)"; auto)
  moreover have "serializer_told ?s"
    using told(1) step pc ex
    by (elim disjE; clarsimp simp: serializer_told_def signalling_def holder_defs split: if_splits; auto)
  moreover have "stopper_told ?s"
  proof -
    have "w_stop_asleep g = w_stop_asleep (ws s)" "w_stopping g = w_stopping (ws s)"
        "0 < w_nwake (ws s) \<longrightarrow> 0 < w_nwake g" "holds_p (stp s) \<longrightarrow> w_nwake g = w_nwake (ws s)"
      using pc step ex by (elim disjE; clarsimp simp: holds_r_def split: if_splits)+
    then show ?thesis
      using told(2) unfolding stopper_told_def holds_p_def by auto
  qed
  moreover have "relay_told ?s"
    using told(3) step pc 
    by (elim disjE; clarsimp simp: relay_told_def split: if_splits; auto)
  moreover have "calls_counted ?s"
    using told(1,3,4) step pc 
    by (elim disjE; clarsimp simp: serializer_told_def relay_told_def calls_counted_def relayed_def split: if_splits; auto)
  ultimately show ?thesis
    by (simp add: winv_def)
qed

lemma winv_serializer:
  assumes "winv s" and step: "serialize_step (ws s) (ser s) = Some (g, c)"
  shows "winv (s\<lparr> ws := g, ser := c \<rparr>)"
proof -
  let ?s = "s\<lparr> ws := g, ser := c \<rparr>"
  note inv = assms(1) [unfolded winv_def]
  have told: "serializer_told s" "stopper_told s" "relay_told s" "calls_counted s"
    using inv by simp_all
  note ex = holder_excludes(3) [OF inv [THEN conjunct1]]
  have "one_holder ?s"
    using inv [THEN conjunct1] step
    by (cases "ser s"; clarsimp simp: one_holder_def holds_s_def split: if_splits;
      cases "w_locked (ws s)"; auto)
  moreover have "serializer_told ?s"
    using told(1) step ex
    by (cases "ser s"; clarsimp simp: serializer_told_def signalling_def holder_defs split: if_splits; auto)
  moreover have "stopper_told ?s"
    using told(1,2) step ex
    by (cases "ser s"; clarsimp simp: serializer_told_def stopper_told_def holder_defs split: if_splits; auto)
  moreover have "relay_told ?s"
    using told(3) step 
    by (cases "ser s"; clarsimp simp: relay_told_def split: if_splits; auto)
  moreover have "calls_counted ?s"
    using told(4) told(1) [unfolded serializer_told_def, THEN conjunct2, THEN conjunct1] step
    by (cases "ser s"; clarsimp simp: calls_counted_def split: if_splits)
  ultimately show ?thesis
    by (simp add: winv_def)
qed

lemma winv_stop:
  assumes "winv s" and step: "stop_step (ws s) (stp s) = Some (g, c)"
  shows "winv (s\<lparr> ws := g, stp := c \<rparr>)"
proof -
  let ?s = "s\<lparr> ws := g, stp := c \<rparr>"
  note inv = assms(1) [unfolded winv_def]
  have told: "serializer_told s" "stopper_told s" "relay_told s" "calls_counted s"
    using inv by simp_all
  note ex = holder_excludes(3) [OF inv [THEN conjunct1]]
  have "one_holder ?s"
    using inv [THEN conjunct1] step
    by (cases "stp s"; clarsimp simp: one_holder_def holds_p_def split: if_splits;
      cases "w_locked (ws s)"; auto)
  moreover have "serializer_told ?s"
    using told(1) step ex
    by (cases "stp s"; clarsimp simp: serializer_told_def signalling_def holder_defs split: if_splits; auto)
  moreover have "stopper_told ?s"
    using told(1,2) step ex
    by (cases "stp s"; clarsimp simp: serializer_told_def stopper_told_def holder_defs split: if_splits; auto)
  moreover have "relay_told ?s"
    using told(3) step 
    by (cases "stp s"; clarsimp simp: relay_told_def split: if_splits; auto)
  moreover have "calls_counted ?s"
    using told(4) step
    by (cases "stp s"; clarsimp simp: calls_counted_def p_asking_def split: if_splits)
  ultimately show ?thesis
    by (simp add: winv_def)
qed

lemma winv_step: "winv s \<Longrightarrow> wstep s s' \<Longrightarrow> winv s'"
  by (auto elim!: wstep.cases intro: winv_thread winv_relay winv_serializer winv_stop)

lemma winv_call:
  assumes "winv s" and "wcall s s'"
  shows "winv s'"
  using assms(2)
proof cases
  case (transmitter i)
  note upd = cnt_update [OF transmitter(2), of _ TxLock]
  from upd [of holds_w] upd [of "\<lambda>c. c = TxSignal"] upd [of "\<lambda>c. c = RxKill"] upd [of asking] show ?thesis
    using assms(1) transmitter by (simp add: winv_defs holds_w_def asking_def)
next
  case (handler i)
  note upd = cnt_update [OF handler(2), of _ RxInc]
  from upd [of holds_w] upd [of "\<lambda>c. c = TxSignal"] upd [of "\<lambda>c. c = RxKill"] upd [of asking] show ?thesis
    using assms(1) handler by (simp add: winv_defs holds_w_def asking_def)
next
  case exit
  then show ?thesis
    using assms(1) by (auto simp: winv_defs holds_p_def p_asking_def)
next
  case spurious
  then show ?thesis
    using assms(1) by (auto simp: winv_defs)
next
  case stop_spurious
  then show ?thesis
    using assms(1) by (auto simp: winv_defs)
qed

lemma wreach_winv: "wreach n s \<Longrightarrow> winv s"
  by (induction rule: wreach.induct) (auto intro: winv_start winv_step winv_call)

section \<open>Rest\<close>

text \<open>How many steps are left, at most, when nobody calls any more.\<close>

fun wpc_weight :: "wpc \<Rightarrow> nat" where
    "wpc_weight Idle = 0"
  | "wpc_weight TxUnlock = 1"
  | "wpc_weight TxSignal = 11"
  | "wpc_weight TxInc = 22"
  | "wpc_weight TxLock = 23"
  | "wpc_weight RxKill = 3"
  | "wpc_weight RxInc = 34"

fun rpc_weight :: "nat \<Rightarrow> rpc \<Rightarrow> nat" where
    "rpc_weight n RWait = 30 * n"
  | "rpc_weight n RCheck = 30 * n + 1"
  | "rpc_weight n (RCall c) = 30 * (n - 1) + 3 + wpc_weight c"
  | "rpc_weight n RDec = 30 * (n - 1) + 2"

fun spc_weight :: "bool \<Rightarrow> spc \<Rightarrow> nat" where
    "spc_weight asleep SStart = 9"
  | "spc_weight asleep SCheck = 8"
  | "spc_weight asleep SBroadcast = 7"
  | "spc_weight asleep SWait = 1"
  | "spc_weight asleep SAsleep = (if asleep then 0 else 9)"
  | "spc_weight asleep SDec = 1"
  | "spc_weight asleep SRound = 9"

fun ppc_weight :: "bool \<Rightarrow> ppc \<Rightarrow> nat" where
    "ppc_weight asleep PIdle = 0"
  | "ppc_weight asleep PLock = 27"
  | "ppc_weight asleep PInc = 26"
  | "ppc_weight asleep PSignal = 15"
  | "ppc_weight asleep PSet = 5"
  | "ppc_weight asleep PCheck = 4"
  | "ppc_weight asleep PWait = 3"
  | "ppc_weight asleep PAsleep = (if asleep then 0 else 5)"
  | "ppc_weight asleep PClear = 2"
  | "ppc_weight asleep PUnlock = 1"
  | "ppc_weight asleep PDone = 0"

definition work :: "wsys \<Rightarrow> nat" where
  "work s = sum_list (map wpc_weight (thr s)) + rpc_weight (r_nwake (ws s)) (rel s) + spc_weight (w_asleep (ws s)) (ser s) +
     ppc_weight (w_stop_asleep (ws s)) (stp s) + 10 * w_nwake (ws s) + (if r_pending (ws s) then 2 else 0)"

lemma sum_list_weight_update:
  "i < length cs \<Longrightarrow> sum_list (map wpc_weight (cs[i := c])) + wpc_weight (cs ! i) = sum_list (map wpc_weight cs) + wpc_weight c"
proof (induction cs arbitrary: i)
  case (Cons x xs)
  then show ?case
    by (cases i) force+
qed simp

lemma spc_weight_wake: "spc_weight False c \<le> spc_weight a c + 9"
  by (cases c) simp_all

lemma ppc_weight_wake: "ppc_weight False c \<le> ppc_weight a c + 5"
  by (cases c) simp_all

lemma work_thread:
  assumes i: "i < length (thr s)" and step: "wake_step (ws s) (thr s ! i) = Some (g, c)" and r: "relay_told s"
  shows "work (s\<lparr> ws := g, thr := (thr s)[i := c] \<rparr>) < work s"
proof -
  have rel: "rpc_weight (r_nwake (ws s) + 1) (rel s) \<le> rpc_weight (r_nwake (ws s)) (rel s) + 30"
    by (cases "rel s") simp_all
  show ?thesis
    using sum_list_weight_update [OF i, of c] step rel spc_weight_wake [of "ser s" "w_asleep (ws s)"]
    by (cases "thr s ! i"; clarsimp simp: work_def)
qed

lemma work_relay:
  assumes "relay_step (ws s) (rel s) = Some (g, c)" and "relay_told s"
  shows "work (s\<lparr> ws := g, rel := c \<rparr>) < work s"
proof -
  have pc: "rel s = RWait \<or> rel s = RCheck \<or> rel s = RDec \<or> rel s = RCall Idle \<or> rel s = RCall TxLock \<or>
      rel s = RCall TxInc \<or> rel s = RCall TxSignal \<or> rel s = RCall TxUnlock"
    using assms(2) by (cases "rel s") (auto simp: relay_told_def intro: wpc.exhaust)
  have pos: "rel s \<noteq> RWait \<and> rel s \<noteq> RCheck \<longrightarrow> 0 < r_nwake (ws s)"
    using assms(2) by (simp add: relay_told_def)
  show ?thesis
    using pc assms(1) pos spc_weight_wake [of "ser s" "w_asleep (ws s)"]
    by (elim disjE; clarsimp simp: work_def split: if_splits; arith)
qed

lemma work_serializer:
  assumes "serialize_step (ws s) (ser s) = Some (g, c)" and "serializer_told s"
  shows "work (s\<lparr> ws := g, ser := c \<rparr>) < work s"
  using assms ppc_weight_wake [of "stp s" "w_stop_asleep (ws s)"]
  by (cases "ser s"; clarsimp simp: work_def serializer_told_def split: if_splits; arith)

lemma work_stop:
  assumes "stop_step (ws s) (stp s) = Some (g, c)"
  shows "work (s\<lparr> ws := g, stp := c \<rparr>) < work s"
  using assms spc_weight_wake [of "ser s" "w_asleep (ws s)"]
  by (cases "stp s"; clarsimp simp: work_def split: if_splits)

lemma work_decreases:
  assumes "winv s" "wstep s s'"
  shows "work s' < work s"
  using assms(2)
proof cases
  case (thread i g c)
  then show ?thesis
    using assms(1) work_thread by (simp add: winv_def)
next
  case (relay g c)
  then show ?thesis
    using assms(1) work_relay by (simp add: winv_def)
next
  case (serializer g c)
  then show ?thesis
    using assms(1) work_serializer by (simp add: winv_def)
next
  case (stop g c)
  then show ?thesis
    using work_stop by simp
qed

text \<open>A process at rest: every sequence is out of its calls, and every call was served.\<close>

definition at_rest :: "wsys \<Rightarrow> bool" where
  "at_rest s \<longleftrightarrow> list_all (\<lambda>c. c = Idle) (thr s) \<and> rel s = RWait \<and> ser s = SAsleep \<and> (stp s = PIdle \<or> stp s = PDone) \<and>
     w_nwake (ws s) = 0 \<and> r_nwake (ws s) = 0 \<and> w_rounds (ws s) = w_calls (ws s)"

lemma stuck_at_rest:
  assumes inv: "winv s" and stuck: "\<not> (\<exists>s'. wstep s s')"
  shows "at_rest s"
proof -
  have no: "i < length (thr s) \<Longrightarrow> wake_step (ws s) (thr s ! i) = None" "relay_step (ws s) (rel s) = None"
      "serialize_step (ws s) (ser s) = None" "stop_step (ws s) (stp s) = None" for i
    using stuck wstep.intros by (metis not_None_eq surj_pair)+
  have told: "one_holder s" "serializer_told s" "stopper_told s" "relay_told s" "calls_counted s"
    using inv by (simp_all add: winv_def)
  have s_out: "\<not> holds_s (ser s)"
    using no(3) by (cases "ser s") (auto simp: holds_s_def split: if_splits)
  have p_out: "\<not> holds_p (stp s)"
    using no(4) by (cases "stp s") (auto simp: holds_p_def split: if_splits)
  have r_out: "\<not> holds_r (rel s)"
    using no(2) by (auto simp: holds_r_def)
  have w_out: "\<not> holds_w (thr s ! i)" if "i < length (thr s)" for i
    using no(1) [OF that] by (auto simp: holds_w_def)
  have w0: "cnt holds_w (thr s) = 0"
    using w_out cnt_pos [of holds_w "thr s"] by auto
  have free: "\<not> w_locked (ws s)"
    using told(1) s_out p_out r_out w0 by (simp add: one_holder_def)
  have idle: "thr s ! i = Idle" if "i < length (thr s)" for i
    using no(1) [OF that] free by (cases "thr s ! i") (simp_all add: thread_lock_def)
  have ser: "ser s = SAsleep" "w_asleep (ws s)"
    using no(3) free by (cases "ser s"; simp add: thread_lock_def split: if_splits)+
  have rel: "rel s = RWait" "\<not> r_pending (ws s)"
  proof -
    have "rel s = RWait"
    proof (cases "rel s")
      case (RCall c)
      then show ?thesis
        using no(2) free told(4) by (cases c) (simp_all add: thread_lock_def relay_told_def)
    qed (use no(2) in simp_all)
    then show "rel s = RWait" "\<not> r_pending (ws s)"
      using no(2) by (auto split: if_splits)
  qed
  have none: "cnt P (thr s) = 0" if "\<not> P Idle" for P
    using idle that cnt_pos [of P "thr s"] by force
  have n0: "w_nwake (ws s) = 0"
    using told(2) ser rel none [of "\<lambda>c. c = TxSignal"] p_out
    by (auto simp: serializer_told_def signalling_def holds_p_def)
  have stp: "stp s = PIdle \<or> stp s = PDone"
    using no(4) free told(3) n0 s_out
    by (cases "stp s") (auto simp: thread_lock_def stopper_told_def split: if_splits)
  have r0: "r_nwake (ws s) = 0"
    using told(4) rel none [of "\<lambda>c. c = RxKill"] by (simp add: relay_told_def)
  have "w_rounds (ws s) = w_calls (ws s)"
    using told(5) ser rel n0 r0 none [of asking] stp
    by (auto simp: calls_counted_def relayed_def p_asking_def asking_def)
  then show ?thesis
    using idle ser rel n0 r0 stp by (simp add: at_rest_def list_all_length)
qed

text \<open>From each state, the process can only take so many steps by itself, and then it rests.\<close>

lemma comes_to_rest:
  assumes "winv s" "(wstep ^^ k) s s'"
  shows "k \<le> work s \<and> winv s' \<and> ((\<exists>s''. wstep s' s'') \<or> at_rest s')"
proof -
  have "work s' + k \<le> work s \<and> winv s'"
    using assms(2)
  proof (induction k arbitrary: s')
    case 0
    then show ?case
      using assms(1) by simp
  next
    case (Suc k)
    then obtain t where t: "(wstep ^^ k) s t" "wstep t s'"
      by auto
    show ?case
      using Suc.IH [OF t(1)] work_decreases [of t s'] winv_step [of t s'] t(2) by auto
  qed
  then show ?thesis
    using stuck_at_rest by auto
qed

section \<open>Properties\<close>

text \<open>
  C37. Calls for service are served. In every state that the process can reach, in any order of steps,
  calls and spurious wake-ups, it can take no more than \<open>work s\<close> steps by itself; and where it can
  take none, it is at rest: no sequence is stuck in a call, the serializer and the relay sleep, the
  stopping thread waits no more, and the serializer has done one round for each call for service,
  also for those of signal handlers, whose signals may be merged.
\<close>

theorem wake_ups_are_served:
  assumes "wreach n s" and "(wstep ^^ k) s s'"
  shows "k \<le> work s \<and> ((\<exists>s''. wstep s' s'') \<or> at_rest s')"
  using comes_to_rest [OF wreach_winv [OF assms(1)] assms(2)] by blast

text \<open>
  C38. When \<open>rvp_stop_transmitter\<close> stops waiting, no wake-up is outstanding and the serializer is not
  in a round, so that every call whose wake-up was counted before has been served in full: what is
  missing are calls that have yet to count theirs, and calls that still wait for the relay.
\<close>

theorem stop_waits_for_service:
  assumes "wreach n s" and "stp s = PClear \<or> stp s = PUnlock"
  shows "w_nwake (ws s) = 0 \<and> \<not> holds_s (ser s) \<and>
    w_calls (ws s) + of_bool (relayed (rel s)) = w_rounds (ws s) + r_nwake (ws s) + cnt asking (thr s)"
proof -
  have inv: "one_holder s" "stopper_told s" "calls_counted s"
    using wreach_winv [OF assms(1)] by (simp_all add: winv_def)
  have "holds_p (stp s)" "\<not> p_asking (stp s)"
    using assms(2) by (auto simp: holds_p_def p_asking_def)
  moreover have "\<not> holds_s (ser s)"
    using holder_excludes(3) [OF inv(1)] calculation by blast
  moreover have "w_nwake (ws s) = 0" "ser s \<noteq> SRound"
    using inv(2) assms(2) calculation by (auto simp: stopper_told_def holds_s_def)
  ultimately show ?thesis
    using inv(3) by (simp add: calls_counted_def tick_def)
qed

text \<open>A scheduler that prefers the first sequence, the relay, the serializer, in this order.\<close>

definition wnext :: "wsys \<Rightarrow> wsys" where
  "wnext s =
     (case (if thr s = [] then None else wake_step (ws s) (thr s ! 0)) of
        Some (g, c) \<Rightarrow> s\<lparr> ws := g, thr := (thr s)[0 := c] \<rparr>
      | None \<Rightarrow> (case relay_step (ws s) (rel s) of
        Some (g, c) \<Rightarrow> s\<lparr> ws := g, rel := c \<rparr>
      | None \<Rightarrow> (case serialize_step (ws s) (ser s) of
        Some (g, c) \<Rightarrow> s\<lparr> ws := g, ser := c \<rparr>
      | None \<Rightarrow> (case stop_step (ws s) (stp s) of
        Some (g, c) \<Rightarrow> s\<lparr> ws := g, stp := c \<rparr>
      | None \<Rightarrow> s))))"

definition wmoves :: "wsys \<Rightarrow> bool" where
  "wmoves s \<longleftrightarrow> (thr s \<noteq> [] \<and> wake_step (ws s) (thr s ! 0) \<noteq> None) \<or> relay_step (ws s) (rel s) \<noteq> None \<or>
     serialize_step (ws s) (ser s) \<noteq> None \<or> stop_step (ws s) (stp s) \<noteq> None"

lemma wnext_step: "wmoves s \<Longrightarrow> wstep s (wnext s)"
  by (auto simp: wmoves_def wnext_def split: option.split intro!: wstep.intros)

fun wrun :: "nat \<Rightarrow> wsys \<Rightarrow> wsys option" where
    "wrun 0 s = Some s"
  | "wrun (Suc k) s = (if wmoves s then wrun k (wnext s) else None)"

lemma wnext_run: "wrun k s = Some s' \<Longrightarrow> (wstep ^^ k) s s'"
proof (induction k arbitrary: s)
  case (Suc k)
  then have "wmoves s" "(wstep ^^ k) (wnext s) s'"
    by (auto split: if_splits)
  then show ?case
    by (intro relpowp_Suc_I2 [where P = wstep and x = s and y = "wnext s"] wnext_step)
qed simp

lemma wreach_run: "wreach n s \<Longrightarrow> (wstep ^^ k) s s' \<Longrightarrow> wreach n s'"
  by (induction k arbitrary: s') (auto intro: wreach.step)

text \<open>A handler asks for service; the process exits.\<close>

definition handler_called :: wsys where
  "handler_called = (wstart 1)\<lparr> ws := (ws (wstart 1))\<lparr> w_calls := 1 \<rparr>, thr := [RxInc] \<rparr>"

definition exit_called :: wsys where
  "exit_called = (wstart 0)\<lparr> ws := (ws (wstart 0))\<lparr> w_calls := 1 \<rparr>, stp := PLock \<rparr>"

lemma called_reachable: "wreach 1 handler_called" "wreach 0 exit_called"
  using wreach.call [OF wreach.start wcall.handler [of 0 "wstart 1"]] wreach.call [OF wreach.start wcall.exit [of "wstart 0"]]
  by (simp_all add: handler_called_def exit_called_def wstart_def)

definition served :: wsys where
  "served =
     \<lparr> ws = \<lparr> w_nwake = 0, w_locked = False, w_asleep = True, w_stopping = False, w_stop_asleep = False,
             r_nwake = 0, r_pending = False, w_calls = 1, w_rounds = 1 \<rparr>,
       thr = [Idle], rel = RWait, ser = SAsleep, stp = PIdle \<rparr>"

theorem wake_ups_are_served_witness:
  "(wstep ^^ 17) handler_called served \<and> 17 \<le> work handler_called \<and> at_rest served"
proof -
  have "wrun 17 handler_called = Some served"
    by (simp add: eval_nat_numeral wmoves_def wnext_def handler_called_def wstart_def served_def thread_lock_def)
  then have run: "(wstep ^^ 17) handler_called served"
    by (rule wnext_run)
  show ?thesis
    using wake_ups_are_served [OF called_reachable(1) run] run by (auto simp: served_def elim: wstep.cases)
qed

definition wait_over :: wsys where
  "wait_over =
     \<lparr> ws = \<lparr> w_nwake = 0, w_locked = True, w_asleep = True, w_stopping = True, w_stop_asleep = False,
             r_nwake = 0, r_pending = False, w_calls = 1, w_rounds = 1 \<rparr>,
       thr = [], rel = RWait, ser = SAsleep, stp = PClear \<rparr>"

theorem stop_waits_for_service_witness:
  "wreach 0 wait_over \<and> w_calls (ws wait_over) = w_rounds (ws wait_over)"
proof -
  have "wrun 18 exit_called = Some wait_over"
    by (simp add: eval_nat_numeral wmoves_def wnext_def exit_called_def wstart_def wait_over_def thread_lock_def)
  then have "wreach 0 wait_over"
    by (intro wreach_run [OF called_reachable(2)] wnext_run)
  then show ?thesis
    using stop_waits_for_service [of 0 wait_over] by (simp add: wait_over_def cnt_def relayed_def)
qed

section \<open>The limit of the trace\<close>

lemma size_factor_bounds: "fst (size_factor rest) \<in> {1, 1024, 1024 * 1024, 1024 * 1024 * 1024}"
  by (cases rest) (simp_all add: size_factor_def)

text \<open>The product cannot overflow.\<close>

lemma size_limit_in_range:
  assumes "rvp_size_limit_init (Some (limit, rest, erange)) old = Inr m"
  shows "m = limit * fst (size_factor rest) \<and> 0 \<le> m \<and> m \<le> INT64_MAX"
proof -
  obtain f r where f: "size_factor rest = (f, r)"
    by fastforce
  have m: "m = limit * f" "0 \<le> limit" "limit \<le> INT64_MAX div f"
    using assms by (auto simp: rvp_size_limit_init_def f split: if_splits)
  have "0 < f"
    using size_factor_bounds [of rest] by (auto simp: f)
  then have "limit * f \<le> INT64_MAX div f * f"
    using m(3) by (intro mult_right_mono) simp_all
  also have "\<dots> \<le> INT64_MAX"
    using \<open>0 < f\<close> pos_mod_sign [of f INT64_MAX] div_mult_mod_eq [of INT64_MAX f] by linarith
  finally show ?thesis
    using m \<open>0 < f\<close> by (simp add: f)
qed

end
