(* ===== verification/Supervise.thy ===== *)
theory Supervise
  imports Template
begin

text \<open>
  The start of a program with its analysis: the settings of \<^verbatim>\<open>__rvpredict_init\<close>
  (\<^verbatim>\<open>llvm/ngrt/thread.c\<close>), the supervisor process with its signals (\<^verbatim>\<open>supervise.c\<close>), and the two
  ways to run the analyzer (\<^verbatim>\<open>online_analysis.c\<close>, \<^verbatim>\<open>offline_analysis.c\<close>). The answers of the
  operating system are a record. The result is what one of the processes becomes: the one that
  \<open>fork\<close> answers. Messages for debugging and what is freed are left out.
\<close>

section \<open>Settings\<close>

definition lower :: "char \<Rightarrow> char" where
  "lower c = (let n = of_char c :: nat in if 65 \<le> n \<and> n \<le> 90 then char_of (n + 32) else c)"

text \<open>\<open>(s = getenv(...)) != NULL && strcasecmp(s, "yes") == 0\<close>\<close>

definition is_yes :: "string option \<Rightarrow> bool" where
  "is_yes s \<longleftrightarrow> map_option (map lower) s = Some ''yes''"

datatype mode = Trace_only | Online | Offline

text \<open>
  Which function a call of \<^verbatim>\<open>__rvpredict_init\<close> starts the process with, if any: after the first call
  the process has been forked.
\<close>

definition init_mode :: "(string \<Rightarrow> string option) \<Rightarrow> bool \<Rightarrow> mode option" where
  "init_mode env forked =
     (if is_yes (env ''RVP_TRACE_ONLY'') then Some Trace_only
      else if forked then None
      else if \<not> is_yes (env ''RVP_OFFLINE_ANALYSIS'') then Some Online
      else Some Offline)"

section \<open>A process\<close>

abbreviation (input) SIGHUP :: int where "SIGHUP \<equiv> 1"
abbreviation (input) SIGINT :: int where "SIGINT \<equiv> 2"
abbreviation (input) SIGQUIT :: int where "SIGQUIT \<equiv> 3"
abbreviation (input) SIGPIPE :: int where "SIGPIPE \<equiv> 13"
abbreviation (input) SIGALRM :: int where "SIGALRM \<equiv> 14"
abbreviation (input) SIGTERM :: int where "SIGTERM \<equiv> 15"
abbreviation (input) SIGCHLD :: int where "SIGCHLD \<equiv> 17"

definition killer_signum :: "int list" where
  "killer_signum = [SIGHUP, SIGINT, SIGQUIT, SIGPIPE, SIGALRM, SIGTERM]"

datatype disposition = Default | Ignored | Sigchld | Of_program nat

text \<open>
  What the supervisor changes of a process: dispositions, blocked signals, the array that
  \<open>ignore_signals\<close> allocates, the signals sent, the lines written to the standard error stream, the
  descriptor of the trace and the variable \<open>RVP_TRACE_FILE\<close>. \<open>sp_files\<close> are the files that exist, as
  far as they matter here, and \<open>sp_warnings\<close> counts the warnings about them.
\<close>

record sproc =
  sp_disp :: "int \<Rightarrow> disposition"
  sp_blocked :: "int set"
  sp_saved :: "disposition list option"
  sp_sent :: "(int \<times> int) list"
  sp_err :: "string list"
  sp_analysis_fd :: int
  sp_trace_file :: "string option"
  sp_files :: "string set"
  sp_warnings :: nat

text \<open>What a process ends up as.\<close>

datatype role = Runs_program sproc | Runs_analyzer "string list" sproc | Exits int sproc

section \<open>Signals\<close>

text \<open>\<open>ok\<close> tells for which signals \<open>sigaction\<close> succeeds.\<close>

fun ignore_loop :: "(int \<Rightarrow> bool) \<Rightarrow> int list \<Rightarrow> sproc \<Rightarrow> disposition list \<Rightarrow> sproc cres" where
    "ignore_loop ok [] p saved = Inr (p\<lparr> sp_saved := Some saved \<rparr>)"
  | "ignore_loop ok (s # ss) p saved =
       (if ok s then ignore_loop ok ss (p\<lparr> sp_disp := (sp_disp p)(s := Ignored) \<rparr>) (saved @ [sp_disp p s])
        else Inl Exited)"

definition ignore_signals :: "bool \<Rightarrow> (int \<Rightarrow> bool) \<Rightarrow> sproc \<Rightarrow> sproc cres" where
  "ignore_signals calloc_ok ok p = (if calloc_ok then ignore_loop ok killer_signum p [] else Inl Exited)"

fun reset_loop :: "(int \<Rightarrow> bool) \<Rightarrow> (int \<times> disposition) list \<Rightarrow> sproc \<Rightarrow> sproc cres" where
    "reset_loop ok [] p = Inr p"
  | "reset_loop ok ((s, a) # ss) p =
       (if ok s then reset_loop ok ss (p\<lparr> sp_disp := (sp_disp p)(s := a) \<rparr>) else Inl Exited)"

definition reset_signals :: "(int \<Rightarrow> bool) \<Rightarrow> sproc \<Rightarrow> sproc cres" where
  "reset_signals ok p =
     (case sp_saved p of
        None \<Rightarrow> Inl Undefined
      | Some saved \<Rightarrow> reset_loop ok (zip killer_signum saved) (p\<lparr> sp_saved := None \<rparr>))"

definition sigaddset_killers :: "int set \<Rightarrow> int set" where
  "sigaddset_killers s = s \<union> set killer_signum"

definition prepare_to_wait_for_analysis :: "(int \<Rightarrow> bool) \<Rightarrow> sproc \<Rightarrow> sproc cres" where
  "prepare_to_wait_for_analysis ok p =
     (if \<not> ok SIGCHLD then Inl Exited
      else reset_signals ok (p\<lparr> sp_blocked := sp_blocked p \<union> insert SIGCHLD (sigaddset_killers {}),
             sp_disp := (sp_disp p)(SIGCHLD := Sigchld) \<rparr>))"

section \<open>Waiting\<close>

text \<open>The state that \<open>waitpid\<close> stores; a process that is ended by a signal may leave a core file.\<close>

datatype wstatus = WExited int | WSignaled int bool | WStopped int

datatype wres = Interrupted | Failed | Waited wstatus

text \<open>\<open>while (waitpid(...) == -1)\<close>: the answers of the calls in turn.\<close>

fun wait_loop :: "wres list \<Rightarrow> wstatus cres" where
    "wait_loop [] = Inl Waiting"
  | "wait_loop (Interrupted # ws) = wait_loop ws"
  | "wait_loop (Failed # ws) = Inl Exited"
  | "wait_loop (Waited st # ws) = Inr st"

definition report :: "(int \<Rightarrow> string) \<Rightarrow> string \<Rightarrow> wstatus \<Rightarrow> sproc \<Rightarrow> sproc" where
  "report strsignal prefix st p =
     (case st of
        WSignaled s core \<Rightarrow> p\<lparr> sp_err := sp_err p @ [prefix @ strsignal s @ (if core then '' (core dumped)'' else '''')] \<rparr>
      | _ \<Rightarrow> p)"

definition exit_code :: "wstatus \<Rightarrow> int" where
  "exit_code st = (case st of WSignaled s core \<Rightarrow> 125 | WExited n \<Rightarrow> n | WStopped s \<Rightarrow> 0)"

section \<open>Online analysis\<close>

text \<open>
  \<open>os_path_max\<close>, \<open>os_malloc\<close> and \<open>os_link\<close> are for \<open>get_binary_path\<close>. \<open>os_fork1\<close> and \<open>os_fork2\<close> are what \<open>fork\<close> returns, for the program and for the analyzer. \<open>os_poll\<close> is
  the call of \<open>waitpid\<close> with \<open>WNOHANG\<close>, \<open>os_sigwait\<close> are the answers of \<open>sigwait\<close> in turn (None: an
  error).
\<close>

record sup_os =
  os_path_max :: int
  os_malloc :: bool
  os_link :: "string option"
  os_pipe :: "(int \<times> int) option"
  os_fork1 :: int
  os_fork2 :: int
  os_calloc :: bool
  os_sigaction :: "int \<Rightarrow> bool"
  os_close :: "int \<Rightarrow> bool"
  os_setpgid :: bool
  os_dup2 :: bool
  os_exec :: bool
  os_wait :: "wres list"
  os_getppid :: int
  os_kill :: "int \<Rightarrow> int \<Rightarrow> bool"
  os_poll :: "int \<times> wstatus"
  os_sigwait :: "int option list"
  os_wait2 :: "wstatus option"
  os_strsignal :: "int \<Rightarrow> string"

definition send :: "sup_os \<Rightarrow> int \<Rightarrow> int \<Rightarrow> sproc \<Rightarrow> sproc cres" where
  "send os pid signo p =
     (if os_kill os pid signo then Inr (p\<lparr> sp_sent := sp_sent p @ [(pid, signo)] \<rparr>) else Inl Exited)"

text \<open>Without an answer of \<open>sigwait\<close> the status of the analyzer would be read before it is set.\<close>

fun forward_loop :: "sup_os \<Rightarrow> int \<Rightarrow> int option list \<Rightarrow> sproc \<Rightarrow> (wstatus \<times> sproc) cres" where
    "forward_loop os pid [] p = Inl Waiting"
  | "forward_loop os pid (None # ss) p = Inl Undefined"
  | "forward_loop os pid (Some signo # ss) p =
       (if signo \<noteq> SIGCHLD then cbind (send os (- pid) signo p) (forward_loop os pid ss)
        else (case os_wait2 os of None \<Rightarrow> Inl Exited | Some st \<Rightarrow> Inr (st, p)))"

definition wait_for_analysis :: "sup_os \<Rightarrow> sproc \<Rightarrow> sproc cres" where
  "wait_for_analysis os p =
     (if os_fork2 os = -1 then Inr (p\<lparr> sp_err := sp_err p @ [''RV-Predict/C could not start the analysis process.''] \<rparr>)
      else
        let (quit_pid, st) = os_poll os in
        if quit_pid = -1 then Inl Exited
        else
          cbind (if quit_pid = os_fork2 os then Inr (st, p) else forward_loop os (os_fork2 os) (os_sigwait os) p) (\<lambda>(st, p).
          Inr (report (os_strsignal os) ''analyzer: '' st p)))"

text \<open>The supervisor whose parent is gone passes that on to the analyzer.\<close>

definition signal_if_orphan :: "sup_os \<Rightarrow> wstatus \<Rightarrow> sproc \<Rightarrow> sproc cres" where
  "signal_if_orphan os st p =
     (if os_getppid os = 1 then send os (- os_fork2 os) (case st of WSignaled s core \<Rightarrow> s | _ \<Rightarrow> SIGHUP) p else Inr p)"

definition supervise_online :: "sup_os \<Rightarrow> sproc \<Rightarrow> role cres" where
  "supervise_online os p =
     cbind (wait_loop (os_wait os)) (\<lambda>st.
     cbind (prepare_to_wait_for_analysis (os_sigaction os) p) (\<lambda>p.
     cbind (signal_if_orphan os st p) (\<lambda>p.
     cbind (wait_for_analysis os p) (\<lambda>p.
     Inr (Exits (exit_code st) (report (os_strsignal os) '''' st p))))))"

definition rvp_online_analysis_start :: "sup_os \<Rightarrow> sproc \<Rightarrow> role cres" where
  "rvp_online_analysis_start os p =
     cbind (get_binary_path (os_path_max os) (os_malloc os) (os_link os)) (\<lambda>binpath.
     case os_pipe os of None \<Rightarrow> Inl Exited
     | Some (piperd, pipewr) \<Rightarrow>
         if os_fork1 os = -1 then Inl Exited
         else
           cbind (ignore_signals (os_calloc os) (os_sigaction os) p) (\<lambda>p.
           if os_fork1 os = 0 then
             cbind (reset_signals (os_sigaction os) (p\<lparr> sp_analysis_fd := pipewr \<rparr>)) (\<lambda>p. Inr (Runs_program p))
           else if \<not> os_close os pipewr then Inl Exited
           else if os_fork2 os = 0 then
             (if \<not> os_setpgid os then Inl Exited
              else
                cbind (reset_signals (os_sigaction os) p) (\<lambda>p.
                if os_dup2 os \<and> os_exec os then Inr (Runs_analyzer [''rvpa'', binpath, ''/dev/stdin''] p) else Inl Exited))
           else if \<not> os_close os piperd then Inl Exited
           else supervise_online os p))"

section \<open>Offline analysis\<close>

text \<open>
  \<open>fts_read\<close> gives the entries of the temporary directory with their kinds. \<open>FTS_other\<close> are the
  kinds that \<open>cleanup\<close> does not name, that of a directory before its contents among them.
\<close>

datatype fts_info = FTS_F | FTS_SL | FTS_SLNONE | FTS_DEFAULT | FTS_DNR | FTS_ERR | FTS_NS | FTS_DP | FTS_other

datatype unlink_result = Unlinked | Enoent | Other_error

text \<open>\<open>unlink\<close> and \<open>rmdir\<close> take a path and the files that exist, to the files that exist then.\<close>

type_synonym removal = "string \<Rightarrow> string set \<Rightarrow> unlink_result \<times> string set"

fun cleanup_loop :: "removal \<Rightarrow> removal \<Rightarrow> (fts_info \<times> string) list \<Rightarrow> sproc \<Rightarrow> sproc cres" where
    "cleanup_loop unlink rmdir [] p = Inr p"
  | "cleanup_loop unlink rmdir ((info, path) # es) p =
       (if info \<in> {FTS_F, FTS_SL, FTS_SLNONE, FTS_DEFAULT} then
          let (r, files) = unlink path (sp_files p) in
          cleanup_loop unlink rmdir es (p\<lparr> sp_files := files,
            sp_warnings := (if r = Other_error then sp_warnings p + 1 else sp_warnings p) \<rparr>)
        else if info \<in> {FTS_DNR, FTS_ERR, FTS_NS} then
          cleanup_loop unlink rmdir es (p\<lparr> sp_warnings := sp_warnings p + 1 \<rparr>)
        else if info = FTS_DP then
          let (r, files) = rmdir path (sp_files p) in
          if r \<noteq> Unlinked then Inl Exited else cleanup_loop unlink rmdir es (p\<lparr> sp_files := files \<rparr>)
        else cleanup_loop unlink rmdir es p)"

definition cleanup :: "removal \<Rightarrow> removal \<Rightarrow> (fts_info \<times> string) list option \<Rightarrow> sproc \<Rightarrow> sproc cres" where
  "cleanup unlink rmdir tree p =
     (case tree of None \<Rightarrow> Inl Exited | Some es \<Rightarrow> cleanup_loop unlink rmdir es p)"

definition fits :: "int \<Rightarrow> string \<Rightarrow> string cres" where
  "fits path_max s = (if int (length s) < path_max + 1 then Inr s else Inl Exited)"

text \<open>
  \<open>of_mkdtemp\<close> gives the name of the directory for a template, \<open>of_tree\<close> lists what is below a
  directory, \<open>of_files\<close> are the files after the analysis; the second \<open>fork\<close> and the second wait are
  those for the analyzer.
\<close>

record off_os = sup_os +
  of_malloc :: bool
  of_mkdtemp :: "string \<Rightarrow> string option"
  of_setenv :: bool
  of_chdir :: bool
  of_wait2 :: "wres list"
  of_files :: "string set"
  of_tree :: "string \<Rightarrow> (fts_info \<times> string) list option"
  of_unlink :: removal
  of_rmdir :: removal

definition rvp_offline_analysis_start :: "off_os \<Rightarrow> sproc \<Rightarrow> role cres" where
  "rvp_offline_analysis_start os p =
     cbind (get_binary_path (os_path_max os) (os_malloc os) (os_link os)) (\<lambda>binpath.
     if \<not> of_malloc os then Inl Exited
     else
       cbind (fits (os_path_max os) (''/tmp/rvprt-'' @ basename binpath @ ''.XXXXXX'')) (\<lambda>template.
       case of_mkdtemp os template of None \<Rightarrow> Inl Exited
       | Some tmpdir \<Rightarrow>
           cbind (fits (os_path_max os) (tmpdir @ ''/rvpredict.trace'')) (\<lambda>tracename.
           if \<not> of_setenv os \<or> os_fork1 os = -1 then Inl Exited
           else
             let omask = sp_blocked p;
                 p = p\<lparr> sp_trace_file := Some tracename, sp_blocked := sigaddset_killers omask \<rparr> in
             if os_fork1 os = 0 then Inr (Runs_program (p\<lparr> sp_blocked := omask \<rparr>))
             else
               cbind (wait_loop (os_wait os)) (\<lambda>st.
               let p = report (os_strsignal os) '''' st p in
               if os_fork2 os = -1 then Inl Exited
               else if os_fork2 os = 0 then
                 (if of_chdir os \<and> os_exec os then Inr (Runs_analyzer [''rvpa'', binpath] p) else Inl Exited)
               else
                 cbind (wait_loop (of_wait2 os)) (\<lambda>_.
                 cbind (cleanup (of_unlink os) (of_rmdir os) (of_tree os tmpdir) (p\<lparr> sp_files := of_files os \<rparr>)) (\<lambda>p.
                 Inr (Exits (exit_code st) p)))))))"

definition rvp_supervision_start :: "mode \<Rightarrow> off_os \<Rightarrow> sproc \<Rightarrow> role cres" where
  "rvp_supervision_start m os p =
     (case m of
        Trace_only \<Rightarrow> Inr (Runs_program p)
      | Online \<Rightarrow> rvp_online_analysis_start (sup_os.truncate os) p
      | Offline \<Rightarrow> rvp_offline_analysis_start os p)"

end
