(* ===== verification/Supervise_Laws.thy ===== *)
theory Supervise_Laws
  imports Supervise "HOL-Library.Sublist"
begin

text \<open>
  What the start of a program with its analysis guarantees: the program and the online analyzer
  start with the signals of the process, the supervisor passes signals on to the analyzer and ends
  with the status of the program, and the offline one removes just its temporary directory.
\<close>

section \<open>Dispositions\<close>

lemma ignore_loop_ok:
  "ignore_loop ok ss p saved = Inr q \<Longrightarrow> distinct ss \<Longrightarrow>
   q = p\<lparr> sp_disp := (\<lambda>s. if s \<in> set ss then Ignored else sp_disp p s), sp_saved := Some (saved @ map (sp_disp p) ss) \<rparr>"
proof (induction ss arbitrary: p saved)
  case (Cons s ss)
  then have "ignore_loop ok ss (p\<lparr> sp_disp := (sp_disp p)(s := Ignored) \<rparr>) (saved @ [sp_disp p s]) = Inr q"
    by (auto split: if_splits)
  from Cons.IH [OF this]
  have "q = p\<lparr> sp_disp := (\<lambda>x. if x \<in> set ss then Ignored else ((sp_disp p)(s := Ignored)) x),
      sp_saved := Some (saved @ sp_disp p s # map ((sp_disp p)(s := Ignored)) ss) \<rparr>"
    using Cons.prems by (simp cong: if_cong)
  moreover have "map ((sp_disp p)(s := Ignored)) ss = map (sp_disp p) ss"
    using Cons.prems by auto
  moreover have "(\<lambda>x. if x \<in> set ss then Ignored else ((sp_disp p)(s := Ignored)) x) =
      (\<lambda>x. if x \<in> set (s # ss) then Ignored else sp_disp p x)"
    by (auto simp: fun_eq_iff)
  ultimately show ?case by simp
qed simp

lemma reset_loop_ok:
  "reset_loop ok (map (\<lambda>s. (s, d s)) ss) p = Inr q \<Longrightarrow>
   q = p\<lparr> sp_disp := (\<lambda>s. if s \<in> set ss then d s else sp_disp p s) \<rparr>"
proof (induction ss arbitrary: p)
  case (Cons s ss)
  then have "reset_loop ok (map (\<lambda>s. (s, d s)) ss) (p\<lparr> sp_disp := (sp_disp p)(s := d s) \<rparr>) = Inr q"
    by (auto split: if_splits)
  from Cons.IH [OF this]
  have "q = p\<lparr> sp_disp := (\<lambda>x. if x \<in> set ss then d x else ((sp_disp p)(s := d s)) x) \<rparr>"
    by (simp cong: if_cong)
  moreover have "(\<lambda>x. if x \<in> set ss then d x else ((sp_disp p)(s := d s)) x) =
      (\<lambda>x. if x \<in> set (s # ss) then d x else sp_disp p x)"
    by (auto simp: fun_eq_iff)
  ultimately show ?case by simp
qed simp

lemma distinct_killers: "distinct killer_signum"
  by (simp add: killer_signum_def)

lemma ignore_signals_ok:
  "ignore_signals c ok p = Inr q \<Longrightarrow>
   q = p\<lparr> sp_disp := (\<lambda>s. if s \<in> set killer_signum then Ignored else sp_disp p s),
     sp_saved := Some (map (sp_disp p) killer_signum) \<rparr>"
  using distinct_killers by (auto simp: ignore_signals_def split: if_splits dest: ignore_loop_ok)

lemma reset_signals_ok:
  assumes "sp_saved r = Some (map d killer_signum)" and "reset_signals ok r = Inr t"
  shows "t = r\<lparr> sp_disp := (\<lambda>s. if s \<in> set killer_signum then d s else sp_disp r s), sp_saved := None \<rparr>"
proof -
  have "zip killer_signum (map d killer_signum) = map (\<lambda>s. (s, d s)) killer_signum"
    by (simp add: zip_map2 zip_same_conv_map)
  then have "reset_loop ok (map (\<lambda>s. (s, d s)) killer_signum) (r\<lparr> sp_saved := None \<rparr>) = Inr t"
    using assms by (simp add: reset_signals_def)
  from reset_loop_ok [OF this] show ?thesis by (cases r) (simp cong: if_cong)
qed

text \<open>Resetting undoes ignoring.\<close>

lemma ignore_then_reset:
  assumes "ignore_signals c ok p = Inr q" and "reset_signals ok' (q\<lparr> sp_analysis_fd := fd \<rparr>) = Inr t"
  shows "t = p\<lparr> sp_analysis_fd := fd, sp_saved := None \<rparr>"
proof -
  note q = ignore_signals_ok [OF assms(1)]
  have "t = (q\<lparr> sp_analysis_fd := fd \<rparr>)\<lparr>
      sp_disp := (\<lambda>s. if s \<in> set killer_signum then sp_disp p s else sp_disp (q\<lparr> sp_analysis_fd := fd \<rparr>) s),
      sp_saved := None \<rparr>"
    by (rule reset_signals_ok [OF _ assms(2)]) (simp add: q)
  moreover have "(\<lambda>s. if s \<in> set killer_signum then sp_disp p s else sp_disp (q\<lparr> sp_analysis_fd := fd \<rparr>) s) = sp_disp p"
    by (auto simp: q fun_eq_iff)
  ultimately show ?thesis by (simp add: q)
qed

section \<open>What the stages leave alone\<close>

text \<open>What of a process decides how it meets signals.\<close>

definition signals_of :: "sproc \<Rightarrow> (int \<Rightarrow> disposition) \<times> int set" where
  "signals_of p = (sp_disp p, sp_blocked p)"

lemma signals_of_simps [simp]:
  "signals_of (p\<lparr> sp_err := e \<rparr>) = signals_of p" "signals_of (p\<lparr> sp_sent := m \<rparr>) = signals_of p"
  "signals_of (p\<lparr> sp_saved := v \<rparr>) = signals_of p" "signals_of (p\<lparr> sp_analysis_fd := fd \<rparr>) = signals_of p"
  "signals_of (p\<lparr> sp_trace_file := t \<rparr>) = signals_of p" "signals_of (p\<lparr> sp_files := fs \<rparr>) = signals_of p"
  "signals_of (p\<lparr> sp_warnings := w \<rparr>) = signals_of p"
  "signals_of (p\<lparr> sp_disp := d \<rparr>) = (d, sp_blocked p)" "signals_of (p\<lparr> sp_blocked := b \<rparr>) = (sp_disp p, b)"
  by (simp_all add: signals_of_def)

lemma signals_of_eq: "signals_of p = signals_of q \<longleftrightarrow> sp_disp p = sp_disp q \<and> sp_blocked p = sp_blocked q"
  by (simp add: signals_of_def)

lemma report_signals [simp]: "signals_of (report str pre st p) = signals_of p"
  by (simp add: report_def split: wstatus.split)

lemma send_signals: "send os pid s p = Inr q \<Longrightarrow> signals_of q = signals_of p"
  by (auto simp: send_def split: if_splits)

lemma forward_loop_signals: "forward_loop os pid ss p = Inr (st, q) \<Longrightarrow> signals_of q = signals_of p"
  by (induction os pid ss p rule: forward_loop.induct)
    (auto split: if_splits option.splits dest: send_signals)

lemma wait_for_analysis_signals: "wait_for_analysis os p = Inr q \<Longrightarrow> signals_of q = signals_of p"
  by (auto simp: wait_for_analysis_def split: if_splits prod.splits dest: forward_loop_signals)

lemma signal_if_orphan_signals: "signal_if_orphan os st p = Inr q \<Longrightarrow> signals_of q = signals_of p"
  by (auto simp: signal_if_orphan_def split: if_splits dest: send_signals)

lemma cleanup_loop_signals: "cleanup_loop ul rd es p = Inr q \<Longrightarrow> signals_of q = signals_of p"
  by (induction ul rd es p rule: cleanup_loop.induct) (fastforce split: if_splits prod.splits)+

lemma cleanup_signals: "cleanup ul rd tree p = Inr q \<Longrightarrow> signals_of q = signals_of p"
  by (auto simp: cleanup_def split: option.splits dest: cleanup_loop_signals)

lemma prepare_signals:
  assumes "prepare_to_wait_for_analysis ok p = Inr q" and "sp_saved p = Some (map d killer_signum)"
    and "\<And>s. s \<notin> set killer_signum \<Longrightarrow> sp_disp p s = d s"
  shows "signals_of q = (d(SIGCHLD := Sigchld), insert SIGCHLD (sp_blocked p \<union> set killer_signum))"
proof -
  let ?r = "p\<lparr> sp_blocked := sp_blocked p \<union> insert SIGCHLD (sigaddset_killers {}),
      sp_disp := (sp_disp p)(SIGCHLD := Sigchld) \<rparr>"
  have "reset_signals ok ?r = Inr q" using assms(1) by (auto simp: prepare_to_wait_for_analysis_def split: if_splits)
  from reset_signals_ok [OF _ this, of d] have
    q: "q = ?r\<lparr> sp_disp := (\<lambda>s. if s \<in> set killer_signum then d s else sp_disp ?r s), sp_saved := None \<rparr>"
    using assms(2) by simp
  have "(\<lambda>s. if s \<in> set killer_signum then d s else sp_disp ?r s) = d(SIGCHLD := Sigchld)"
    using assms(3) by (auto simp: fun_eq_iff killer_signum_def)
  then show ?thesis by (auto simp: q sigaddset_killers_def)
qed

lemma supervise_online_signals:
  assumes "supervise_online os p = Inr r" and "sp_saved p = Some (map d killer_signum)"
    and "\<And>s. s \<notin> set killer_signum \<Longrightarrow> sp_disp p s = d s"
  obtains c q where "r = Exits c q"
    "signals_of q = (d(SIGCHLD := Sigchld), insert SIGCHLD (sp_blocked p \<union> set killer_signum))"
  using assms by (auto simp: supervise_online_def dest!: prepare_signals wait_for_analysis_signals signal_if_orphan_signals)

section \<open>How the processes meet signals\<close>

text \<open>
  Online, the program and the analyzer meet signals as the process did that was started. The
  supervisor has the signals blocked that would end it.
\<close>

lemma online_signals:
  assumes "rvp_online_analysis_start os p = Inr r"
  shows "case r of Runs_program q \<Rightarrow> signals_of q = signals_of p
    | Runs_analyzer args q \<Rightarrow> signals_of q = signals_of p
    | Exits c q \<Rightarrow> signals_of q = ((sp_disp p)(SIGCHLD := Sigchld), insert SIGCHLD (sp_blocked p \<union> set killer_signum))"
proof -
  obtain binpath piperd pipewr q where s: "get_binary_path (os_path_max os) (os_malloc os) (os_link os) = Inr binpath"
    "os_pipe os = Some (piperd, pipewr)" "os_fork1 os \<noteq> -1" "ignore_signals (os_calloc os) (os_sigaction os) p = Inr q"
    using assms that
    by (cases "get_binary_path (os_path_max os) (os_malloc os) (os_link os)"; cases "os_pipe os"; cases "os_fork1 os = -1";
        cases "ignore_signals (os_calloc os) (os_sigaction os) p")
      (auto simp: rvp_online_analysis_start_def simp del: cbind_eq_Inr)
  note q = ignore_signals_ok [OF s(4)]
  consider "os_fork1 os = 0" | "os_fork1 os \<noteq> 0" "os_fork2 os = 0" | "os_fork1 os \<noteq> 0" "os_fork2 os \<noteq> 0"
    by blast
  then show ?thesis
  proof cases
    case 1
    then obtain t where "reset_signals (os_sigaction os) (q\<lparr> sp_analysis_fd := pipewr \<rparr>) = Inr t" "r = Runs_program t"
      using assms s by (auto simp: rvp_online_analysis_start_def)
    then show ?thesis using ignore_then_reset [OF s(4)] by fastforce
  next
    case 2
    then obtain t where t: "reset_signals (os_sigaction os) q = Inr t" "r = Runs_analyzer [''rvpa'', binpath, ''/dev/stdin''] t"
      using assms s by (auto simp: rvp_online_analysis_start_def split: if_splits)
    have "q\<lparr> sp_analysis_fd := sp_analysis_fd q \<rparr> = q" by simp
    then have "t = p\<lparr> sp_analysis_fd := sp_analysis_fd q, sp_saved := None \<rparr>"
      using ignore_then_reset [OF s(4), of "os_sigaction os" "sp_analysis_fd q"] t(1) by simp
    then show ?thesis using t(2) by simp
  next
    case 3
    then have run: "supervise_online os q = Inr r"
      using assms s by (auto simp: rvp_online_analysis_start_def split: if_splits)
    have saved: "sp_saved q = Some (map (sp_disp p) killer_signum)" "sp_blocked q = sp_blocked p"
      "\<And>s. s \<notin> set killer_signum \<Longrightarrow> sp_disp q s = sp_disp p s"
      by (simp_all add: q)
    obtain c u where u: "r = Exits c u"
      "signals_of u = ((sp_disp p)(SIGCHLD := Sigchld), insert SIGCHLD (sp_blocked q \<union> set killer_signum))"
      by (rule supervise_online_signals [OF run saved(1,3)])
    show ?thesis by (simp only: u role.case saved(2))
  qed
qed

text \<open>Offline, the program does so too, but the analyzer runs with those signals blocked.\<close>

lemma offline_signals:
  assumes "rvp_offline_analysis_start os p = Inr r"
  shows "case r of Runs_program q \<Rightarrow> signals_of q = signals_of p
    | Runs_analyzer args q \<Rightarrow> signals_of q = (sp_disp p, sp_blocked p \<union> set killer_signum)
    | Exits c q \<Rightarrow> signals_of q = (sp_disp p, sp_blocked p \<union> set killer_signum)"
proof -
  obtain binpath template tmpdir tracename where s: "get_binary_path (os_path_max os) (os_malloc os) (os_link os) = Inr binpath"
    "fits (os_path_max os) (''/tmp/rvprt-'' @ basename binpath @ ''.XXXXXX'') = Inr template"
    "of_mkdtemp os template = Some tmpdir"
    "fits (os_path_max os) (tmpdir @ ''/rvpredict.trace'') = Inr tracename" "of_malloc os" "of_setenv os" "os_fork1 os \<noteq> -1"
  proof (cases "get_binary_path (os_path_max os) (os_malloc os) (os_link os)")
    case (Inr binpath)
    note b = this
    let ?t = "fits (os_path_max os) (''/tmp/rvprt-'' @ basename binpath @ ''.XXXXXX'')"
    have m: "of_malloc os" using assms b by (auto simp: rvp_offline_analysis_start_def split: if_splits)
    obtain template where t: "?t = Inr template"
      using assms b m by (cases ?t) (simp_all add: rvp_offline_analysis_start_def del: cbind_eq_Inr)
    obtain tmpdir where d: "of_mkdtemp os template = Some tmpdir"
      using assms b m t by (cases "of_mkdtemp os template") (simp_all add: rvp_offline_analysis_start_def del: cbind_eq_Inr)
    obtain tracename where n: "fits (os_path_max os) (tmpdir @ ''/rvpredict.trace'') = Inr tracename"
      using assms b m t d by (cases "fits (os_path_max os) (tmpdir @ ''/rvpredict.trace'')")
        (simp_all add: rvp_offline_analysis_start_def del: cbind_eq_Inr)
    have "of_setenv os \<and> os_fork1 os \<noteq> -1"
      using assms b m t d n by (cases "of_setenv os \<and> os_fork1 os \<noteq> -1") (auto simp: rvp_offline_analysis_start_def)
    then show ?thesis
      using that b m t d n by blast
  next
    case (Inl e)
    then show ?thesis
      using assms by (simp add: rvp_offline_analysis_start_def del: cbind_eq_Inr)
  qed
  let ?p = "p\<lparr> sp_trace_file := Some tracename, sp_blocked := sigaddset_killers (sp_blocked p) \<rparr>"
  have blocked: "signals_of ?p = (sp_disp p, sp_blocked p \<union> set killer_signum)"
    by (simp add: signals_of_def sigaddset_killers_def)
  show ?thesis
  proof (cases "os_fork1 os = 0")
    case True
    then show ?thesis
      using assms s by (auto simp: rvp_offline_analysis_start_def signals_of_def)
  next
    case False
    then obtain st where st: "wait_loop (os_wait os) = Inr st" "os_fork2 os \<noteq> -1"
      using assms s by (auto simp: rvp_offline_analysis_start_def Let_def split: if_splits)
    let ?q = "report (os_strsignal os) [] st ?p"
    show ?thesis
    proof (cases "os_fork2 os = 0")
      case True
      then have "r = Runs_analyzer [''rvpa'', binpath] ?q"
        using assms s st False by (auto simp: rvp_offline_analysis_start_def Let_def split: if_splits)
      then show ?thesis using blocked by simp
    next
      case analyzer: False
      obtain u where "cleanup (of_unlink os) (of_rmdir os) (of_tree os tmpdir) (?q\<lparr> sp_files := of_files os \<rparr>) = Inr u"
        "r = Exits (exit_code st) u"
        using assms s st False analyzer by (auto simp: rvp_offline_analysis_start_def Let_def)
      then show ?thesis using cleanup_signals blocked by fastforce
    qed
  qed
qed

section \<open>What the supervisor does\<close>

text \<open>
  While the supervisor waits for the analyzer it sends each signal it gets to the group of the
  analyzer, in order, up to the first that says that a child ended.
\<close>

lemma forward_loop_sends:
  "SIGCHLD \<notin> set ss \<Longrightarrow> \<forall>s\<in>set ss. os_kill os (- pid) s \<Longrightarrow> os_wait2 os = Some st \<Longrightarrow>
   forward_loop os pid (map Some ss @ Some SIGCHLD # rest) p = Inr (st, p\<lparr> sp_sent := sp_sent p @ map (\<lambda>s. (- pid, s)) ss \<rparr>)"
  by (induction ss arbitrary: p) (auto simp: send_def)

text \<open>It ends with the status of the program, or with 125 when a signal ended that.\<close>

lemma supervisor_exits:
  assumes "supervise_online os p = Inr r" "wait_loop (os_wait os) = Inr st"
  obtains q where "r = Exits (exit_code st) q"
  using assms by (auto simp: supervise_online_def)

lemma wait_loop_interrupted: "wait_loop (replicate n Interrupted @ ws) = wait_loop ws"
  by (induction n) simp_all

text \<open>
  The analyzer that could not be started has the number -1, and the signal for the analyzer of an
  orphan goes to the negative of that, which is the number of the process that starts all others.
\<close>

lemma orphan_signals_init:
  assumes "os_fork2 os = -1" "os_getppid os = 1" "os_kill os 1 SIGHUP"
  shows "signal_if_orphan os (WExited n) p = Inr (p\<lparr> sp_sent := sp_sent p @ [(1, SIGHUP)] \<rparr>)"
  using assms by (simp add: signal_if_orphan_def send_def)

section \<open>Cleaning up\<close>

text \<open>
  A tree of files: a name, and the entries of a directory. \<open>fts_read\<close> lists a directory before and
  after its contents.
\<close>

datatype ftree = File string | Dir string "ftree list"

fun paths :: "string \<Rightarrow> ftree \<Rightarrow> string set" where
    "paths d (File n) = {d @ n}"
  | "paths d (Dir n ts) = insert (d @ n) (\<Union>t\<in>set ts. paths (d @ n @ ''/'') t)"

fun listing :: "string \<Rightarrow> ftree \<Rightarrow> (fts_info \<times> string) list" where
    "listing d (File n) = [(FTS_F, d @ n)]"
  | "listing d (Dir n ts) = (FTS_other, d @ n) # concat (map (listing (d @ n @ ''/'')) ts) @ [(FTS_DP, d @ n)]"

text \<open>A system that removes what it is asked to: a file, and a directory that nothing is below.\<close>

definition below :: "string \<Rightarrow> string set" where
  "below p = {q. prefix (p @ ''/'') q}"

definition removes :: "removal \<Rightarrow> removal \<Rightarrow> bool" where
  "removes unlink rmdir \<longleftrightarrow>
     (\<forall>p fs. unlink p fs = (Unlinked, fs - {p})) \<and>
     (\<forall>p fs. fs \<inter> below p = {} \<longrightarrow> rmdir p fs = (Unlinked, fs - {p}))"

text \<open>All that exists below a directory of the tree is of the tree.\<close>

fun complete :: "string set \<Rightarrow> string \<Rightarrow> ftree \<Rightarrow> bool" where
    "complete fs d (File n) = True"
  | "complete fs d (Dir n ts) =
       (fs \<inter> below (d @ n) \<subseteq> (\<Union>t\<in>set ts. paths (d @ n @ ''/'') t) \<and> (\<forall>t\<in>set ts. complete fs (d @ n @ ''/'') t))"

lemma complete_mono: "complete fs d t \<Longrightarrow> fs' \<subseteq> fs \<Longrightarrow> complete fs' d t"
  by (induction fs d t rule: complete.induct) auto

lemma cleanup_loop_append:
  "cleanup_loop ul rd (es @ fs) p = cbind (cleanup_loop ul rd es p) (cleanup_loop ul rd fs)"
  by (induction ul rd es p rule: cleanup_loop.induct) (auto simp: Let_def split: prod.splits)

text \<open>The cleaning removes just the tree.\<close>

lemma cleanup_removes:
  assumes "removes ul rd"
  shows "complete (sp_files p) d t \<Longrightarrow>
    cleanup_loop ul rd (listing d t) p = Inr (p\<lparr> sp_files := sp_files p - paths d t \<rparr>)"
proof (induction t arbitrary: d p)
  case (File n)
  then show ?case using assms by (simp add: removes_def)
next
  case (Dir n ts)
  let ?d = "d @ n @ ''/''"
  have entries: "\<forall>t\<in>set us. t \<in> set ts \<Longrightarrow> \<forall>t\<in>set us. complete (sp_files q) ?d t \<Longrightarrow>
      cleanup_loop ul rd (concat (map (listing ?d) us)) q = Inr (q\<lparr> sp_files := sp_files q - (\<Union>t\<in>set us. paths ?d t) \<rparr>)" for us q
  proof (induction us arbitrary: q)
    case (Cons u us)
    have "cleanup_loop ul rd (listing ?d u) q = Inr (q\<lparr> sp_files := sp_files q - paths ?d u \<rparr>)"
      by (rule Dir.IH) (use Cons.prems in auto)
    moreover have "\<forall>t\<in>set us. complete (sp_files (q\<lparr> sp_files := sp_files q - paths ?d u \<rparr>)) ?d t"
      using Cons.prems(2) by (auto intro: complete_mono)
    moreover have "sp_files q - paths ?d u - (\<Union>t\<in>set us. paths ?d t) = sp_files q - (\<Union>t\<in>set (u # us). paths ?d t)"
      by auto
    ultimately show ?case
      using Cons.IH [of "q\<lparr> sp_files := sp_files q - paths ?d u \<rparr>"] Cons.prems(1)
      by (simp add: cleanup_loop_append)
  qed simp
  let ?q = "p\<lparr> sp_files := sp_files p - (\<Union>t\<in>set ts. paths ?d t) \<rparr>"
  have "cleanup_loop ul rd (concat (map (listing ?d) ts)) p = Inr ?q"
    using Dir.prems by (intro entries) auto
  moreover have "sp_files ?q \<inter> below (d @ n) = {}"
    using Dir.prems by auto
  then have "rd (d @ n) (sp_files ?q) = (Unlinked, sp_files ?q - {d @ n})"
    using assms by (simp add: removes_def)
  moreover have "sp_files ?q - {d @ n} = sp_files p - paths d (Dir n ts)"
    by auto
  ultimately show ?case
    by (simp add: cleanup_loop_append)
qed

end
