(* ===== verification/Strstk.thy ===== *)
theory Strstk
  imports Prelude
begin

text \<open>
  The stack of strings of \<^verbatim>\<open>rvsyms/strstk.c\<close>, in which the symbolizer collects the parts of a
  symbol. Whether an allocation succeeds is an argument of each operation that makes one.
\<close>

section \<open>Operations\<close>

text \<open>
  \<open>ss_string\<close> is the array, empty for a null pointer. A slot is \<open>None\<close> while it is not initialised,
  and after its string is freed.
\<close>

record strstack =
  ss_string :: "string option list"
  ss_capacity :: int
  ss_nfull :: int

text \<open>A sum or product that does not fit in an \<open>int\<close> is undefined.\<close>

definition c_int :: "int \<Rightarrow> int cres" where
  "c_int i = (if - (2 ^ 31) \<le> i \<and> i < 2 ^ 31 then Inr i else Inl Undefined)"

definition strstack_init :: "bool \<Rightarrow> int \<times> strstack" where
  "strstack_init got =
     (if got then (0, \<lparr> ss_string = [None], ss_capacity = 1, ss_nfull = 0 \<rparr>)
      else (-1, \<lparr> ss_string = [], ss_capacity = 1, ss_nfull = 0 \<rparr>))"

definition strstack_expand :: "bool \<Rightarrow> strstack \<Rightarrow> (int \<times> strstack) cres" where
  "strstack_expand got ss =
     cbind (c_int (ss_capacity ss * 2)) (\<lambda>ncapacity.
       if ncapacity < ss_capacity ss then Inr (-1, ss)
       else if \<not> got then Inr (-1, ss)
       else Inr (0, ss\<lparr> ss_string := ss_string ss @ replicate (nat ncapacity - length (ss_string ss)) None,
                        ss_capacity := ncapacity \<rparr>))"

definition set_slot :: "int \<Rightarrow> string option \<Rightarrow> strstack \<Rightarrow> strstack cres" where
  "set_slot i x ss =
     (if 0 \<le> i \<and> i < int (length (ss_string ss)) then Inr (ss\<lparr> ss_string := (ss_string ss)[nat i := x] \<rparr>)
      else Inl Undefined)"

text \<open>The first flag is for the copy that \<open>vasprintf\<close> makes, the second for a larger array.\<close>

definition strstack_push :: "bool \<times> bool \<Rightarrow> string \<Rightarrow> strstack \<Rightarrow> (int \<times> strstack) cres" where
  "strstack_push got s ss =
     (if \<not> fst got then Inr (-1, ss)
      else
        cbind (if ss_nfull ss = ss_capacity ss then strstack_expand (snd got) ss else Inr (0, ss)) (\<lambda>(rc, ss).
        if rc = -1 then Inr (-1, ss)
        else cbind (set_slot (ss_nfull ss) (Some s) ss) (\<lambda>ss.
          Inr (ss_nfull ss, ss\<lparr> ss_nfull := ss_nfull ss + 1 \<rparr>))))"

text \<open>Freeing a string that is not there is undefined.\<close>

function strstack_popto :: "int \<Rightarrow> strstack \<Rightarrow> strstack cres" where
  "strstack_popto n ss =
     (if ss_nfull ss > n then
        let i = ss_nfull ss - 1 in
        if 0 \<le> i \<and> i < int (length (ss_string ss)) \<and> ss_string ss ! nat i \<noteq> None
        then strstack_popto n (ss\<lparr> ss_nfull := i, ss_string := (ss_string ss)[nat i := None] \<rparr>)
        else Inl Undefined
      else Inr ss)"
  by auto
termination by (relation "measure (\<lambda>(n, ss). nat (ss_nfull ss - n))") auto

declare strstack_popto.simps [simp del]

definition strstack_depth :: "strstack \<Rightarrow> int" where
  "strstack_depth ss = ss_nfull ss"

definition strstack_pop :: "strstack \<Rightarrow> strstack cres" where
  "strstack_pop ss = strstack_popto (ss_nfull ss - 1) ss"

text \<open>\<open>wr\<close> is the result of \<open>fprintf\<close> for each string; the strings are written in order up to an error.\<close>

fun fprintf_loop :: "(string \<Rightarrow> int) \<Rightarrow> string option list \<Rightarrow> int \<Rightarrow> string \<Rightarrow> (int \<times> string) cres" where
    "fprintf_loop wr [] tot out = Inr (tot, out)"
  | "fprintf_loop wr (None # ss) tot out = Inl Undefined"
  | "fprintf_loop wr (Some s # ss) tot out =
       (if wr s < 0 then Inr (wr s, out) else cbind (c_int (tot + wr s)) (\<lambda>tot. fprintf_loop wr ss tot (out @ s)))"

definition strstack_fprintf :: "(string \<Rightarrow> int) \<Rightarrow> strstack \<Rightarrow> (int \<times> string) cres" where
  "strstack_fprintf wr ss =
     (if ss_nfull ss \<le> int (length (ss_string ss)) then fprintf_loop wr (take (nat (ss_nfull ss)) (ss_string ss)) 0 []
      else Inl Undefined)"

section \<open>A stack of strings\<close>

definition ss_ok :: "strstack \<Rightarrow> bool" where
  "ss_ok ss \<longleftrightarrow> 0 \<le> ss_nfull ss \<and> ss_nfull ss \<le> ss_capacity ss \<and> 1 \<le> ss_capacity ss \<and>
     length (ss_string ss) = nat (ss_capacity ss) \<and> ss_capacity ss < 2 ^ 31 \<and>
     (\<forall>i<nat (ss_nfull ss). ss_string ss ! i \<noteq> None)"

definition ss_abs :: "strstack \<Rightarrow> string list" where
  "ss_abs ss = map the (take (nat (ss_nfull ss)) (ss_string ss))"

lemma length_ss_abs [simp]: "ss_ok ss \<Longrightarrow> length (ss_abs ss) = nat (ss_nfull ss)"
  by (auto simp: ss_ok_def ss_abs_def)

lemma init_ok: "strstack_init True = (rc, ss) \<Longrightarrow> rc = 0 \<and> ss_ok ss \<and> ss_abs ss = []"
  by (auto simp: strstack_init_def ss_ok_def ss_abs_def)

lemma expand_ok:
  assumes "ss_ok ss" "ss_nfull ss = ss_capacity ss"
  shows "case strstack_expand got ss of
      Inl e \<Rightarrow> e = Undefined \<and> 2 ^ 30 \<le> ss_capacity ss
    | Inr (rc, ss') \<Rightarrow> ss_capacity ss < 2 ^ 30 \<and> ss_ok ss' \<and> ss_abs ss' = ss_abs ss \<and> ss_nfull ss' = ss_nfull ss \<and>
        (if got then rc = 0 \<and> ss_nfull ss' < ss_capacity ss' else rc = -1)"
  using assms by (auto simp: strstack_expand_def c_int_def ss_ok_def ss_abs_def nth_append)

lemma set_slot_top:
  assumes "ss_ok ss" "ss_nfull ss < ss_capacity ss"
  obtains ss' where "set_slot (ss_nfull ss) (Some s) ss = Inr ss'" "ss_nfull ss' = ss_nfull ss"
    "ss_ok (ss'\<lparr> ss_nfull := ss_nfull ss + 1 \<rparr>)" "ss_abs (ss'\<lparr> ss_nfull := ss_nfull ss + 1 \<rparr>) = ss_abs ss @ [s]"
proof -
  have "nat (ss_nfull ss) < length (ss_string ss)" "nat (ss_nfull ss + 1) = Suc (nat (ss_nfull ss))"
    using assms by (auto simp: ss_ok_def)
  then show ?thesis
    using assms by (intro that [of "ss\<lparr> ss_string := (ss_string ss)[nat (ss_nfull ss) := Some s] \<rparr>"])
      (auto simp: set_slot_def ss_ok_def ss_abs_def nth_list_update take_Suc_conv_app_nth less_Suc_eq)
qed

lemma push_room:
  assumes "ss_ok ss" "ss_nfull ss < ss_capacity ss"
  shows "\<exists>ss'. cbind (set_slot (ss_nfull ss) (Some s) ss) (\<lambda>ss. Inr (ss_nfull ss, ss\<lparr> ss_nfull := ss_nfull ss + 1 \<rparr>)) =
      Inr (ss_nfull ss, ss') \<and> ss_ok ss' \<and> ss_abs ss' = ss_abs ss @ [s]"
proof -
  obtain ss' where "set_slot (ss_nfull ss) (Some s) ss = Inr ss'" "ss_nfull ss' = ss_nfull ss"
    "ss_ok (ss'\<lparr> ss_nfull := ss_nfull ss + 1 \<rparr>)" "ss_abs (ss'\<lparr> ss_nfull := ss_nfull ss + 1 \<rparr>) = ss_abs ss @ [s]"
    using set_slot_top [OF assms] by blast
  then show ?thesis
    by simp
qed

lemma push_ok:
  assumes "ss_ok ss"
  shows "case strstack_push got s ss of
      Inl e \<Rightarrow> e = Undefined \<and> fst got \<and> ss_nfull ss = ss_capacity ss \<and> 2 ^ 30 \<le> ss_capacity ss
    | Inr (rc, ss') \<Rightarrow> ss_ok ss' \<and>
        (if fst got \<and> (ss_nfull ss < ss_capacity ss \<or> snd got)
         then (ss_nfull ss < ss_capacity ss \<or> ss_capacity ss < 2 ^ 30) \<and> rc = ss_nfull ss \<and> ss_abs ss' = ss_abs ss @ [s]
         else rc = -1 \<and> ss_abs ss' = ss_abs ss)"
proof -
  consider "\<not> fst got" | "fst got" "ss_nfull ss < ss_capacity ss" | "fst got" "ss_nfull ss = ss_capacity ss"
    using assms by (force simp: ss_ok_def)
  then show ?thesis
  proof cases
    case 1
    then show ?thesis
      using assms by (simp add: strstack_push_def)
  next
    case 2
    then show ?thesis
      using push_room [OF assms 2(2), of s] by (auto simp: strstack_push_def)
  next
    case 3
    show ?thesis
    proof (cases "strstack_expand (snd got) ss")
      case (Inl e)
      then show ?thesis
        using 3 expand_ok [OF assms 3(2), of "snd got"] by (simp add: strstack_push_def)
    next
      case (Inr p)
      then obtain rc ss1 where e: "strstack_expand (snd got) ss = Inr (rc, ss1)"
        by (cases p) simp
      have ok: "ss_capacity ss < 2 ^ 30" "ss_ok ss1" "ss_abs ss1 = ss_abs ss" "ss_nfull ss1 = ss_nfull ss"
        "if snd got then rc = 0 \<and> ss_nfull ss1 < ss_capacity ss1 else rc = -1"
        using expand_ok [OF assms 3(2), of "snd got"] unfolding e by (auto split: if_splits)
      have run: "strstack_push got s ss = (if rc = -1 then Inr (-1, ss1)
          else cbind (set_slot (ss_nfull ss1) (Some s) ss1) (\<lambda>ss. Inr (ss_nfull ss, ss\<lparr> ss_nfull := ss_nfull ss + 1 \<rparr>)))"
        using 3 by (simp add: strstack_push_def e)
      show ?thesis
        using 3 ok push_room [of ss1 s] unfolding run by (cases "snd got") auto
    qed
  qed
qed

lemma popto_ok:
  assumes "ss_ok ss" "0 \<le> n"
  shows "\<exists>ss'. strstack_popto n ss = Inr ss' \<and> ss_ok ss' \<and> ss_abs ss' = take (nat n) (ss_abs ss) \<and>
    ss_capacity ss' = ss_capacity ss"
  using assms
proof (induction n ss rule: strstack_popto.induct)
  case (1 n ss)
  show ?case
  proof (cases "ss_nfull ss > n")
    case False
    then show ?thesis
      using 1(2) by (simp add: strstack_popto.simps [of n ss])
  next
    case True
    define i where "i = ss_nfull ss - 1"
    define ss1 where "ss1 = ss\<lparr> ss_nfull := i, ss_string := (ss_string ss)[nat i := None] \<rparr>"
    have i: "0 \<le> i" "i < int (length (ss_string ss))" "ss_string ss ! nat i \<noteq> None" "n \<le> i" "nat (ss_nfull ss) = Suc (nat i)"
      using 1(2,3) True by (auto simp: ss_ok_def i_def)
    have ok: "ss_ok ss1"
      using 1(2) i by (auto simp: ss_ok_def ss1_def i_def nth_list_update)
    have "strstack_popto n ss = strstack_popto n ss1"
      using True i(1-3) unfolding strstack_popto.simps [of n ss] i_def ss1_def Let_def by simp
    moreover have "ss_abs ss1 = take (nat i) (ss_abs ss)"
      using i by (simp add: ss_abs_def ss1_def take_map)
    moreover have "ss_capacity ss1 = ss_capacity ss"
      by (simp add: ss1_def)
    ultimately show ?thesis
      using 1(1) [OF True i_def] i(1-3) ok 1(3) i(4) ss1_def by (auto simp: min_def)
  qed
qed

lemma fprintf_loop_all:
  "\<forall>s\<in>set ss. wr s = int (length s) \<Longrightarrow> 0 \<le> tot \<Longrightarrow> tot < 2 ^ 31 \<Longrightarrow> fprintf_loop wr (map Some ss) tot out =
    (if tot + int (length (concat ss)) < 2 ^ 31 then Inr (tot + int (length (concat ss)), out @ concat ss) else Inl Undefined)"
  by (induction ss arbitrary: tot out) (auto simp: c_int_def)

lemma fprintf_ok:
  assumes "ss_ok ss" "\<forall>s\<in>set (ss_abs ss). wr s = int (length s)"
  shows "strstack_fprintf wr ss = (if length (concat (ss_abs ss)) < 2 ^ 31
    then Inr (int (length (concat (ss_abs ss))), concat (ss_abs ss)) else Inl Undefined)"
proof -
  have "take (nat (ss_nfull ss)) (ss_string ss) = map Some (ss_abs ss)"
    using assms(1) by (auto simp: ss_ok_def ss_abs_def list_eq_iff_nth_eq)
  then show ?thesis
    using assms fprintf_loop_all [of "ss_abs ss" wr 0 "[]"]
    by (auto simp: strstack_fprintf_def ss_ok_def of_nat_less_iff [of _ "2 ^ 31", symmetric] simp del: of_nat_less_iff)
qed

section \<open>Property\<close>

text \<open>
  C36. The array is a stack of strings. A push gives the depth at which the string is; where there
  is no memory it gives -1 and leaves the stack as it was. Its test for a capacity that cannot be
  doubled comes too late: once \<open>2 ^ 30\<close> strings fill the array, the product does not fit in an
  \<open>int\<close> and the push is undefined. Popping to a depth gives the stack of that depth, and frees each
  string once. Printing writes the strings from the bottom to the top and counts their characters,
  unless there are \<open>2 ^ 31\<close> or more, where the sum is undefined. None of them uses a slot outside
  the array, or one without a string.
\<close>

theorem strstack_is_a_stack:
  assumes "ss_ok ss"
  shows "(case strstack_push got s ss of
        Inl e \<Rightarrow> e = Undefined \<and> fst got \<and> ss_nfull ss = ss_capacity ss \<and> 2 ^ 30 \<le> ss_capacity ss
      | Inr (rc, ss') \<Rightarrow> ss_ok ss' \<and>
          (if fst got \<and> (ss_nfull ss < ss_capacity ss \<or> snd got)
           then (ss_nfull ss < ss_capacity ss \<or> ss_capacity ss < 2 ^ 30) \<and>
             rc = int (length (ss_abs ss)) \<and> ss_abs ss' = ss_abs ss @ [s]
           else rc = -1 \<and> ss_abs ss' = ss_abs ss)) \<and>
    (0 \<le> n \<longrightarrow> (\<exists>ss'. strstack_popto n ss = Inr ss' \<and> ss_ok ss' \<and> ss_abs ss' = take (nat n) (ss_abs ss))) \<and>
    ((\<forall>t\<in>set (ss_abs ss). wr t = int (length t)) \<longrightarrow>
      strstack_fprintf wr ss = (if length (concat (ss_abs ss)) < 2 ^ 31
        then Inr (int (length (concat (ss_abs ss))), concat (ss_abs ss)) else Inl Undefined))"
proof -
  have "ss_nfull ss = int (length (ss_abs ss))"
    using assms by (simp add: ss_ok_def)
  then show ?thesis
    using push_ok [OF assms, of got s] popto_ok [OF assms, of n] fprintf_ok [OF assms, of wr] by metis
qed

definition two_strings :: strstack where
  "two_strings = \<lparr> ss_string = [Some ''I'', Some '' love''], ss_capacity = 2, ss_nfull = 2 \<rparr>"

theorem strstack_is_a_stack_witness:
  "ss_ok two_strings \<and>
   (\<exists>ss'. strstack_push (True, True) '' dig'' two_strings = Inr (2, ss') \<and> ss_abs ss' = [''I'', '' love'', '' dig'']) \<and>
   (\<exists>ss'. strstack_popto 1 two_strings = Inr ss' \<and> ss_abs ss' = [''I'']) \<and>
   strstack_fprintf (\<lambda>t. int (length t)) two_strings = Inr (6, ''I love'')"
proof -
  have ok: "ss_ok two_strings"
    by (simp add: ss_ok_def two_strings_def less_Suc_eq numeral_2_eq_2)
  have "ss_abs two_strings = [''I'', '' love'']" "ss_capacity two_strings = 2"
    by (simp_all add: ss_abs_def two_strings_def)
  then show ?thesis
    using ok strstack_is_a_stack [OF ok, of "(True, True)" "'' dig''" 1 "\<lambda>t. int (length t)"] by (auto split: sum.splits)
qed

end
