(* ===== verification/Rvsyms.thy ===== *)
theory Rvsyms
  imports Format
begin

text \<open>
  The symbolizer of \<^verbatim>\<open>rvsyms/rvsyms.c\<close>: it walks the debugging information of a binary and prints
  the names that belong to an address of data or of an instruction. The DWARF library is an argument:
  a record of the results of its functions. Memory for the strings does not run out, so the stack of
  strings (theory \<open>Strstk\<close>) is a list here. The output of a process that exits with an error is
  left out.
\<close>

section \<open>The DWARF library\<close>

text \<open>Entries (DIEs) and attributes are known by numbers.\<close>

datatype 'a dres = DW_OK 'a | DW_NO_ENTRY | DW_ERROR

type_synonym die = nat
type_synonym attr = nat

record dwarf_loc =
  lr_atom :: nat
  lr_number :: u64
  lr_number2 :: u64

record dwarf_locdesc =
  ld_lopc :: u64
  ld_hipc :: u64
  ld_s :: "dwarf_loc list"

record dwarf_line =
  li_addr :: u64
  li_lineno :: nat
  li_file :: string

record dwarf_cfa =
  cfa_is_offset :: bool
  cfa_relevant :: int
  cfa_regnum :: int
  cfa_offset :: u64

text \<open>
  \<open>dw_cus\<close> are the entries of the compilation units in order, as \<open>dwarf_next_cu_header\<close> and then
  \<open>dwarf_siblingof\<close> without an entry give them. \<open>dw_exprloc\<close> is \<open>dwarf_formexprloc\<close> followed by
  \<open>dwarf_loclist_from_expr\<close>. In the lines, \<open>None\<close> is one of which some part is not available.
\<close>

record dwarf =
  dw_cus :: "die dres list"
  dw_siblingof :: "die \<Rightarrow> die dres"
  dw_child :: "die \<Rightarrow> die dres"
  dw_tag :: "die \<Rightarrow> nat dres"
  dw_diename :: "die \<Rightarrow> string dres"
  dw_attr :: "die \<Rightarrow> nat \<Rightarrow> attr dres"
  dw_whatform :: "attr \<Rightarrow> nat dres"
  dw_formudata :: "attr \<Rightarrow> u64 dres"
  dw_formaddr :: "attr \<Rightarrow> u64 dres"
  dw_global_formref :: "attr \<Rightarrow> nat dres"
  dw_offdie :: "nat \<Rightarrow> die dres"
  dw_exprloc :: "attr \<Rightarrow> dwarf_locdesc list dres"
  dw_loclist_n :: "attr \<Rightarrow> dwarf_locdesc list dres"
  dw_comp_dir :: "die \<Rightarrow> string dres"
  dw_srclines :: "die \<Rightarrow> dwarf_line option list dres"
  dw_address_size :: "u64 dres"
  dw_op_name :: "nat \<Rightarrow> string option"
  dw_fde_list :: bool
  dw_fde_list_eh :: bool
  dw_fde_at_pc :: "u64 \<Rightarrow> nat option"
  dw_fde_cfa :: "nat \<Rightarrow> u64 \<Rightarrow> dwarf_cfa option"

text \<open>The numbers of the DWARF standard.\<close>

abbreviation (input) DW_TAG_array_type :: nat where "DW_TAG_array_type \<equiv> 0x01"
abbreviation (input) DW_TAG_enumeration_type :: nat where "DW_TAG_enumeration_type \<equiv> 0x04"
abbreviation (input) DW_TAG_member :: nat where "DW_TAG_member \<equiv> 0x0d"
abbreviation (input) DW_TAG_pointer_type :: nat where "DW_TAG_pointer_type \<equiv> 0x0f"
abbreviation (input) DW_TAG_compile_unit :: nat where "DW_TAG_compile_unit \<equiv> 0x11"
abbreviation (input) DW_TAG_structure_type :: nat where "DW_TAG_structure_type \<equiv> 0x13"
abbreviation (input) DW_TAG_typedef :: nat where "DW_TAG_typedef \<equiv> 0x16"
abbreviation (input) DW_TAG_subrange_type :: nat where "DW_TAG_subrange_type \<equiv> 0x21"
abbreviation (input) DW_TAG_base_type :: nat where "DW_TAG_base_type \<equiv> 0x24"
abbreviation (input) DW_TAG_const_type :: nat where "DW_TAG_const_type \<equiv> 0x26"
abbreviation (input) DW_TAG_subprogram :: nat where "DW_TAG_subprogram \<equiv> 0x2e"

abbreviation (input) DW_AT_location :: nat where "DW_AT_location \<equiv> 0x02"
abbreviation (input) DW_AT_byte_size :: nat where "DW_AT_byte_size \<equiv> 0x0b"
abbreviation (input) DW_AT_low_pc :: nat where "DW_AT_low_pc \<equiv> 0x11"
abbreviation (input) DW_AT_high_pc :: nat where "DW_AT_high_pc \<equiv> 0x12"
abbreviation (input) DW_AT_lower_bound :: nat where "DW_AT_lower_bound \<equiv> 0x22"
abbreviation (input) DW_AT_upper_bound :: nat where "DW_AT_upper_bound \<equiv> 0x2f"
abbreviation (input) DW_AT_count :: nat where "DW_AT_count \<equiv> 0x37"
abbreviation (input) DW_AT_data_member_location :: nat where "DW_AT_data_member_location \<equiv> 0x38"
abbreviation (input) DW_AT_frame_base :: nat where "DW_AT_frame_base \<equiv> 0x40"
abbreviation (input) DW_AT_specification :: nat where "DW_AT_specification \<equiv> 0x47"
abbreviation (input) DW_AT_type :: nat where "DW_AT_type \<equiv> 0x49"

abbreviation (input) DW_FORM_addr :: nat where "DW_FORM_addr \<equiv> 0x01"

text \<open>\<open>DW_FORM_data1\<close>, \<open>data2\<close>, \<open>data4\<close>, \<open>data8\<close> and \<open>udata\<close>.\<close>

definition data_form :: "nat \<Rightarrow> bool" where
  "data_form f \<longleftrightarrow> f \<in> {0x0b, 0x05, 0x06, 0x07, 0x0f}"

abbreviation (input) DW_OP_addr :: nat where "DW_OP_addr \<equiv> 0x03"
abbreviation (input) DW_OP_reg0 :: nat where "DW_OP_reg0 \<equiv> 0x50"
abbreviation (input) DW_OP_breg0 :: nat where "DW_OP_breg0 \<equiv> 0x70"
abbreviation (input) DW_OP_regx :: nat where "DW_OP_regx \<equiv> 0x90"
abbreviation (input) DW_OP_fbreg :: nat where "DW_OP_fbreg \<equiv> 0x91"
abbreviation (input) DW_OP_bregx :: nat where "DW_OP_bregx \<equiv> 0x92"
abbreviation (input) DW_OP_piece :: nat where "DW_OP_piece \<equiv> 0x93"
abbreviation (input) DW_OP_call_frame_cfa :: nat where "DW_OP_call_frame_cfa \<equiv> 0x9c"

section \<open>State\<close>

record wparams =
  print_address :: bool
  print_comp_dir :: bool
  print_regex :: bool
  have_dataptr :: bool
  have_frameptr :: bool
  have_insnptr :: bool
  dataptr :: u64
  frameptr :: u64
  insnptr :: u64

record rstate =
  rs_lopc :: u64
  rs_hipc :: u64
  rs_cfa_offset :: u64
  rs_have_cfa_offset :: bool
  rs_depth :: nat

text \<open>The parameters stay as they are during a walk. \<open>c_out\<close> are the lines written so far.\<close>

record wctx =
  c_rstate :: rstate
  c_symstk :: "string list"
  c_residue :: u64
  c_par :: wparams
  c_out :: "string list"

definition push :: "string \<Rightarrow> wctx \<Rightarrow> wctx" where
  "push s c = c\<lparr> c_symstk := c_symstk c @ [s] \<rparr>"

definition popto :: "nat \<Rightarrow> wctx \<Rightarrow> wctx" where
  "popto n c = c\<lparr> c_symstk := take n (c_symstk c) \<rparr>"

definition print_symstk :: "wctx \<Rightarrow> wctx" where
  "print_symstk c = c\<lparr> c_out := c_out c @ [concat (c_symstk c)] \<rparr>"

definition fmt_int :: "int \<Rightarrow> string" where
  "fmt_int i = (if i < 0 then ''-'' @ fmt_dec (nat (- i)) else fmt_dec (nat i))"

definition fmt_0x :: "u64 \<Rightarrow> string" where
  "fmt_0x v = ''0x'' @ fmt_hex (unat v)"

section \<open>Attributes and types\<close>

definition dwarf_follow_attr_to_die :: "dwarf \<Rightarrow> die \<Rightarrow> nat \<Rightarrow> die option cres" where
  "dwarf_follow_attr_to_die db d which =
     (case dw_attr db d which of
        DW_NO_ENTRY \<Rightarrow> Inr None
      | DW_ERROR \<Rightarrow> Inl Exited
      | DW_OK a \<Rightarrow>
          (case dw_global_formref db a of
             DW_OK ofs \<Rightarrow> (case dw_offdie db ofs of DW_OK e \<Rightarrow> Inr (Some e) | _ \<Rightarrow> Inr None)
           | _ \<Rightarrow> Inr None))"

definition dwarf_follow_type_to_die :: "dwarf \<Rightarrow> die \<Rightarrow> die option cres" where
  "dwarf_follow_type_to_die db d = dwarf_follow_attr_to_die db d DW_AT_type"

definition get_unsigned_attribute :: "dwarf \<Rightarrow> die \<Rightarrow> nat \<Rightarrow> u64 option" where
  "get_unsigned_attribute db d attrid =
     (case dw_attr db d attrid of
        DW_OK a \<Rightarrow>
          (case dw_whatform db a of
             DW_OK form \<Rightarrow>
               if data_form form then (case dw_formudata db a of DW_OK v \<Rightarrow> Some v | _ \<Rightarrow> None) else None
           | _ \<Rightarrow> None)
      | _ \<Rightarrow> None)"

text \<open>The library gives an error for the tag of a null entry.\<close>

definition tag_or_exit :: "dwarf \<Rightarrow> die option \<Rightarrow> nat cres" where
  "tag_or_exit db d =
     (case d of None \<Rightarrow> Inl Exited
      | Some d \<Rightarrow> (case dw_tag db d of DW_OK t \<Rightarrow> Inr t | _ \<Rightarrow> Inl Exited))"

text \<open>The step to the next sibling that ends the loops over the children of an entry.\<close>

definition next_sibling :: "dwarf \<Rightarrow> die \<Rightarrow> 'a \<Rightarrow> (die \<Rightarrow> 'a cres) \<Rightarrow> 'a cres" where
  "next_sibling db child x k =
     (case dw_siblingof db child of DW_NO_ENTRY \<Rightarrow> Inr x | DW_OK s \<Rightarrow> k s | DW_ERROR \<Rightarrow> Inl Exited)"

definition get_subrange_dimension :: "dwarf \<Rightarrow> die \<Rightarrow> u64 cres" where
  "get_subrange_dimension db child =
     (if get_unsigned_attribute db child DW_AT_lower_bound \<notin> {None, Some 0} then Inl Exited
      else (case get_unsigned_attribute db child DW_AT_count of
        Some n \<Rightarrow> Inr n
      | None \<Rightarrow>
          (case get_unsigned_attribute db child DW_AT_upper_bound of
             Some upper \<Rightarrow> Inr (upper + 1)
           | None \<Rightarrow> Inl Exited)))"

text \<open>
  Loops and recursive functions take fuel; one that runs out of it is still at work. A size is a
  \<open>ssize_t\<close>, with -1 for an unknown one.
\<close>

fun array_size_loop :: "nat \<Rightarrow> dwarf \<Rightarrow> die \<Rightarrow> u64 \<Rightarrow> u64 cres" where
    "array_size_loop 0 db child totalsz = Inl Waiting"
  | "array_size_loop (Suc n) db child totalsz =
       cbind (tag_or_exit db (Some child)) (\<lambda>tag.
       cbind (if tag = DW_TAG_subrange_type
              then cbind (get_subrange_dimension db child) (\<lambda>count. Inr (totalsz * count)) else Inr totalsz) (\<lambda>totalsz.
       next_sibling db child totalsz (\<lambda>s. array_size_loop n db s totalsz)))"

definition dwarf_array_type_size :: "nat \<Rightarrow> dwarf \<Rightarrow> die \<Rightarrow> (die option \<Rightarrow> u64 cres) \<Rightarrow> u64 cres" where
  "dwarf_array_type_size n db td type_size =
     (case dw_child db td of
        DW_NO_ENTRY \<Rightarrow> Inr (-1)
      | DW_ERROR \<Rightarrow> Inl Exited
      | DW_OK child \<Rightarrow>
          cbind (dwarf_follow_type_to_die db td) (\<lambda>et.
          cbind (type_size et) (\<lambda>eltsz.
          if sint eltsz < 0 then Inr (-1) else array_size_loop n db child eltsz)))"

text \<open>The size, and the entry that has it.\<close>

fun dwarf_type_size :: "nat \<Rightarrow> dwarf \<Rightarrow> die option \<Rightarrow> (u64 \<times> die option) cres" where
    "dwarf_type_size 0 db typedie = Inl Waiting"
  | "dwarf_type_size (Suc n) db None = Inr (-1, None)"
  | "dwarf_type_size (Suc n) db (Some td) =
       (let found = (\<lambda>size. Inr (size, if size = -1 then None else Some td)) in
        case get_unsigned_attribute db td DW_AT_byte_size of
          Some tmpsize \<Rightarrow> found tmpsize
        | None \<Rightarrow>
            cbind (tag_or_exit db (Some td)) (\<lambda>tag.
            if tag = DW_TAG_array_type then
              cbind (dwarf_array_type_size n db td (\<lambda>et. cbind (dwarf_type_size n db et) (\<lambda>(size, _). Inr size))) found
            else if tag = DW_TAG_pointer_type then
              (case dw_address_size db of DW_OK addr_size \<Rightarrow> found addr_size | _ \<Rightarrow> Inl Exited)
            else cbind (dwarf_follow_type_to_die db td) (dwarf_type_size n db)))"

datatype dwarf_type_kind = DTK_QUALIFIER | DTK_POINTER | DTK_TYPEDEF | DTK_BASE | DTK_ARRAY | DTK_UNKNOWN |
  DTK_OTHER | DTK_ENUM

definition type_kind :: "dwarf \<Rightarrow> die \<Rightarrow> dwarf_type_kind" where
  "type_kind db d =
     (case dw_tag db d of
        DW_OK tag \<Rightarrow>
          if tag = DW_TAG_base_type then DTK_BASE
          else if tag = DW_TAG_typedef then DTK_TYPEDEF
          else if tag = DW_TAG_const_type then DTK_QUALIFIER
          else if tag = DW_TAG_array_type then DTK_ARRAY
          else if tag = DW_TAG_enumeration_type then DTK_ENUM
          else if tag = DW_TAG_pointer_type then DTK_POINTER
          else DTK_OTHER
      | _ \<Rightarrow> DTK_UNKNOWN)"

text \<open>\<open>other\<close> is \<open>otypedie\<close>, the entry before, and \<open>array\<close> is \<open>arraydie\<close>.\<close>

fun aggregate_loop :: "nat \<Rightarrow> dwarf \<Rightarrow> die \<Rightarrow> die \<Rightarrow> die option \<Rightarrow> die option \<Rightarrow> die option cres" where
    "aggregate_loop 0 db d other typedie array = Inl Waiting"
  | "aggregate_loop (Suc n) db d other None array =
       Inr (if other = d then None else if array \<noteq> None then array else Some other)"
  | "aggregate_loop (Suc n) db d other (Some td) array =
       (let kind = type_kind db td;
            array = (if kind = DTK_POINTER \<or> kind = DTK_ARRAY then Some td else array) in
        cbind (dwarf_follow_type_to_die db td) (\<lambda>next. aggregate_loop n db d td next array))"

definition dwarf_aggregate_or_base_type :: "nat \<Rightarrow> dwarf \<Rightarrow> die \<Rightarrow> die option cres" where
  "dwarf_aggregate_or_base_type n db d =
     cbind (dwarf_follow_type_to_die db d) (\<lambda>td. aggregate_loop n db d d td None)"

section \<open>Elements and members\<close>

text \<open>The dimensions of an array, at most ten.\<close>

fun dims_loop :: "nat \<Rightarrow> dwarf \<Rightarrow> die \<Rightarrow> u64 list \<Rightarrow> u64 list cres" where
    "dims_loop 0 db child dim = Inl Waiting"
  | "dims_loop (Suc n) db child dim =
       cbind (tag_or_exit db (Some child)) (\<lambda>tag.
       cbind (if tag = DW_TAG_subrange_type
              then cbind (get_subrange_dimension db child) (\<lambda>count.
                   if length dim = 10 then Inl Exited else Inr (dim @ [count]))
              else Inr dim) (\<lambda>dim.
       next_sibling db child dim (\<lambda>s. dims_loop n db s dim)))"

fun partial_products :: "u64 list \<Rightarrow> u64 list" where
    "partial_products [] = []"
  | "partial_products (d # ds) =
       (case partial_products ds of [] \<Rightarrow> [d] | p # ps \<Rightarrow> d * p # p # ps)"

text \<open>
  The loop that finds the indices. The quotient is stored in an \<open>int\<close>. A division by zero would be
  undefined.
\<close>

fun index_loop :: "u64 \<Rightarrow> u64 list \<Rightarrow> wctx \<Rightarrow> (bool \<times> wctx) cres" where
    "index_loop element_size [] c = Inr (True, c)"
  | "index_loop element_size (d # ds) c =
       (let sz = (case ds of [] \<Rightarrow> element_size | d' # _ \<Rightarrow> d') in
        if c_residue c \<ge> d then Inr (False, c)
        else if sz = 0 then Inl Undefined
        else
          let idx = (ucast (c_residue c div sz) :: u32) in
          index_loop element_size ds
            (push (''['' @ fmt_int (sint idx) @ '']'') (c\<lparr> c_residue := c_residue c - scast idx * sz \<rparr>)))"

text \<open>
  \<open>walk_elements\<close>, \<open>walk_members\<close> and the loop of the latter.
\<close>

fun walk_elements :: "nat \<Rightarrow> dwarf \<Rightarrow> die \<Rightarrow> wctx \<Rightarrow> (bool \<times> wctx) cres"
  and walk_members :: "nat \<Rightarrow> dwarf \<Rightarrow> die \<Rightarrow> wctx \<Rightarrow> (bool \<times> wctx) cres"
  and members_loop :: "nat \<Rightarrow> dwarf \<Rightarrow> die \<Rightarrow> wctx \<Rightarrow> (bool \<times> wctx) cres" where
    "walk_elements 0 db td c = Inl Waiting"
  | "walk_elements (Suc n) db td c =
       (case dw_child db td of
          DW_NO_ENTRY \<Rightarrow> Inr (False, c)
        | DW_ERROR \<Rightarrow> Inl Exited
        | DW_OK child \<Rightarrow>
            cbind (dwarf_follow_type_to_die db td) (\<lambda>et.
            cbind (dwarf_type_size n db et) (\<lambda>(element_size, elementtypedie).
            cbind (if sint element_size < 0 then next_sibling db child [] (\<lambda>s. dims_loop n db s [])
                   else dims_loop n db child []) (\<lambda>dim.
            cbind (index_loop element_size (map (\<lambda>d. d * element_size) (partial_products dim)) c) (\<lambda>(ok, c).
            if \<not> ok then Inr (False, c)
            else
              cbind (tag_or_exit db elementtypedie) (\<lambda>tag.
              cbind (if tag = DW_TAG_structure_type then walk_members n db (the elementtypedie) c
                     else if tag = DW_TAG_array_type then walk_elements n db (the elementtypedie) c
                     else Inr (True, c)) (\<lambda>(_, c).
              Inr (True, c))))))))"
  | "walk_members 0 db td c = Inl Waiting"
  | "walk_members (Suc n) db td c =
       (case dw_child db td of
          DW_NO_ENTRY \<Rightarrow> Inr (False, c)
        | DW_ERROR \<Rightarrow> Inl Exited
        | DW_OK child \<Rightarrow> members_loop n db child c)"
  | "members_loop 0 db child c = Inl Waiting"
  | "members_loop (Suc n) db child c =
       (let next = next_sibling db child (False, c) (\<lambda>s. members_loop n db s c) in
        cbind (tag_or_exit db (Some child)) (\<lambda>tag.
        if tag \<noteq> DW_TAG_member then next
        else case (get_unsigned_attribute db child DW_AT_data_member_location, dw_diename db child) of
          (Some member_location, DW_OK name) \<Rightarrow>
            cbind (dwarf_follow_type_to_die db child) (\<lambda>mt.
            cbind (dwarf_type_size n db mt) (\<lambda>(member_size, membertypedie).
            if sint member_size < 0 then next
            else if c_residue c < member_location \<or> member_location + member_size \<le> c_residue c then next
            else
              let c = push (''.'' @ name) c; c = c\<lparr> c_residue := c_residue c - member_location \<rparr> in
              cbind (tag_or_exit db membertypedie) (\<lambda>tag.
              cbind (if tag = DW_TAG_structure_type then walk_members n db (the membertypedie) c
                     else if tag = DW_TAG_array_type then walk_elements n db (the membertypedie) c
                     else Inr (True, c)) (\<lambda>(_, c).
              Inr (True, c)))))
        | _ \<Rightarrow> next))"

end
