(* ===== verification/Rvsyms_Walk.thy ===== *)
theory Rvsyms_Walk
  imports Rvsyms
begin

text \<open>
  Locations, lines, the printing of an entry, and the walk over all entries, of
  \<^verbatim>\<open>rvsyms/rvsyms.c\<close>.
\<close>

section \<open>Locations\<close>

text \<open>A number that is printed with \<open>PRId64\<close> is signed.\<close>

definition print_op :: "dwarf \<Rightarrow> dwarf_loc \<Rightarrow> wctx \<Rightarrow> wctx" where
  "print_op db lr c =
     (let opcode = lr_atom lr;
          c = push (case dw_op_name db opcode of Some opname \<Rightarrow> opname
                    | None \<Rightarrow> ''<op '' @ fmt_dec opcode @ ''>'') c in
      if opcode = DW_OP_bregx then
        push (''('' @ fmt_dec (unat (lr_number lr)) @ '', '' @ fmt_int (sint (lr_number2 lr)) @ '')'') c
      else if opcode = DW_OP_addr then push (''('' @ fmt_alt (unat (lr_number lr)) @ '')'') c
      else if opcode = DW_OP_regx \<or> opcode = DW_OP_piece then push (''('' @ fmt_dec (unat (lr_number lr)) @ '')'') c
      else if DW_OP_breg0 \<le> opcode \<and> opcode \<le> DW_OP_breg0 + 31 \<or> opcode = DW_OP_fbreg then
        push (''('' @ fmt_int (sint (lr_number lr)) @ '')'') c
      else c)"

definition print_ops :: "dwarf \<Rightarrow> dwarf_locdesc \<Rightarrow> wctx \<Rightarrow> wctx" where
  "print_ops db ld c = fold (print_op db) (ld_s ld) c"

text \<open>
  \<open>ctx->frameptr - ctx->rstate.cfa_offset + (int64_t)lr0->lr_number\<close>, in unsigned arithmetic.
\<close>

definition frame_address :: "wctx \<Rightarrow> dwarf_loc \<Rightarrow> u64" where
  "frame_address c lr = frameptr (c_par c) - rs_cfa_offset (c_rstate c) + lr_number lr"

definition insn_match :: "wctx \<Rightarrow> dwarf_locdesc \<Rightarrow> bool" where
  "insn_match c ld \<longleftrightarrow> have_insnptr (c_par c) \<and>
     max (rs_lopc (c_rstate c)) (ld_lopc ld) \<le> insnptr (c_par c) \<and>
     insnptr (c_par c) < min (rs_hipc (c_rstate c)) (ld_hipc ld)"

definition check_location :: "dwarf \<Rightarrow> die \<Rightarrow> wctx \<Rightarrow> (bool \<times> wctx) cres" where
  "check_location db d c =
     (case dw_attr db d DW_AT_location of
        DW_OK loc_attr \<Rightarrow>
          (case dw_exprloc db loc_attr of
             DW_OK lds \<Rightarrow>
               cbind (cassert (length lds = 1)) (\<lambda>_.
               let ld = lds ! 0; lr0 = ld_s ld ! 0 in
               cbind (cassert (ld_lopc ld < ld_hipc ld)) (\<lambda>_.
               if have_dataptr (c_par c) \<and> length (ld_s ld) = 1 \<and> lr_atom lr0 = DW_OP_addr \<and>
                  lr_number lr0 \<le> dataptr (c_par c)
               then Inr (True, c\<lparr> c_residue := dataptr (c_par c) - lr_number lr0 \<rparr>)
               else if insn_match c ld \<and> have_dataptr (c_par c) \<and> have_frameptr (c_par c) \<and>
                  rs_have_cfa_offset (c_rstate c) \<and> length (ld_s ld) = 1 \<and> lr_atom lr0 = DW_OP_fbreg \<and>
                  frame_address c lr0 \<le> dataptr (c_par c)
               then Inr (True, c\<lparr> c_residue := dataptr (c_par c) - frame_address c lr0 \<rparr>)
               else Inr (False, print_ops db ld c)))
           | _ \<Rightarrow>
             (case dw_loclist_n db loc_attr of
                DW_OK lds \<Rightarrow>
                  cbind (cassert (lds \<noteq> [])) (\<lambda>_.
                  Inr (False, fold (\<lambda>ld c. if ld_lopc ld = ld_hipc ld then c else print_ops db ld c) lds c))
              | _ \<Rightarrow> Inr (False, c)))
      | _ \<Rightarrow> Inr (False, c))"

definition locdesc_to_regnum :: "dwarf_locdesc \<Rightarrow> int" where
  "locdesc_to_regnum ld =
     (if length (ld_s ld) \<noteq> 1 then -1
      else
        let lr0 = ld_s ld ! 0 in
        if lr_atom lr0 = DW_OP_regx then sint (ucast (lr_number lr0) :: u32)
        else if DW_OP_reg0 \<le> lr_atom lr0 \<and> lr_atom lr0 \<le> DW_OP_reg0 + 31 then int (lr_atom lr0 - DW_OP_reg0)
        else -1)"

section \<open>Lines\<close>

fun check_line_loop :: "u64 \<Rightarrow> dwarf_line \<Rightarrow> dwarf_line option list \<Rightarrow> dwarf_line option cres" where
    "check_line_loop insn prev [] = Inr None"
  | "check_line_loop insn prev (None # ls) = Inl Exited"
  | "check_line_loop insn prev (Some l # ls) =
       (if li_addr l = insn then Inr (Some l)
        else if li_addr prev < insn \<and> insn < li_addr l then Inr (Some prev)
        else check_line_loop insn l ls)"

definition check_line :: "dwarf \<Rightarrow> die \<Rightarrow> wctx \<Rightarrow> dwarf_line option cres" where
  "check_line db d c =
     (if \<not> have_insnptr (c_par c) then Inr None
      else (case dw_srclines db d of
        DW_OK (Some l # ls) \<Rightarrow>
          if li_addr l = insnptr (c_par c) then Inr (Some l) else check_line_loop (insnptr (c_par c)) l ls
      | DW_OK (None # ls) \<Rightarrow> Inl Exited
      | _ \<Rightarrow> Inr None))"

section \<open>Printing an entry\<close>

text \<open>The name of an entry, or that of the entry that specifies it; \<open>None\<close> ends the function.\<close>

definition die_name :: "dwarf \<Rightarrow> die \<Rightarrow> nat \<Rightarrow> string option cres" where
  "die_name db d tag =
     (let result = (\<lambda>r. case r of DW_OK name \<Rightarrow> Inr (Some name) | DW_NO_ENTRY \<Rightarrow> Inr None | DW_ERROR \<Rightarrow> Inl Exited) in
      case dw_diename db d of
        DW_NO_ENTRY \<Rightarrow>
          if tag \<noteq> DW_TAG_subprogram then Inr None
          else cbind (dwarf_follow_attr_to_die db d DW_AT_specification) (\<lambda>specdie.
            case specdie of None \<Rightarrow> Inr None | Some sd \<Rightarrow> result (dw_diename db sd))
      | r \<Rightarrow> result r)"

text \<open>
  The canonical frame address of a function: its offset from the frame base, where it is known.
\<close>

definition set_cfa :: "(bool \<times> u64) \<Rightarrow> rstate \<Rightarrow> rstate" where
  "set_cfa x rs = (if fst x then rs\<lparr> rs_have_cfa_offset := True, rs_cfa_offset := snd x \<rparr>
     else rs\<lparr> rs_have_cfa_offset := False \<rparr>)"

definition frame_base :: "dwarf \<Rightarrow> die \<Rightarrow> wctx \<Rightarrow> wctx" where
  "frame_base db d c =
     (case dw_attr db d DW_AT_frame_base of
        DW_OK a \<Rightarrow>
          (case dw_exprloc db a of
             DW_OK [ld] \<Rightarrow>
               (if length (ld_s ld) \<noteq> 1 then c
                else
                  let x =
                    (if lr_atom (ld_s ld ! 0) = DW_OP_call_frame_cfa then (True, 0)
                     else if locdesc_to_regnum ld = -1 \<or> \<not> have_insnptr (c_par c) \<or>
                             \<not> dw_fde_list db \<and> \<not> dw_fde_list_eh db then (False, 0)
                     else (case dw_fde_at_pc db (insnptr (c_par c)) of
                       None \<Rightarrow> (False, 0)
                     | Some fde \<Rightarrow>
                         (case dw_fde_cfa db fde (insnptr (c_par c)) of
                            None \<Rightarrow> (False, 0)
                          | Some cfa \<Rightarrow>
                              if \<not> cfa_is_offset cfa then (False, 0)
                              else if cfa_regnum cfa = locdesc_to_regnum ld \<and> cfa_relevant cfa = 1 then (True, cfa_offset cfa)
                              else if cfa_regnum cfa = locdesc_to_regnum ld then (True, 0)
                              else (False, 0))))
                  in c\<lparr> c_rstate := set_cfa x (c_rstate c) \<rparr>)
           | _ \<Rightarrow> c)
      | _ \<Rightarrow> c)"

text \<open>\<open>inner\<close>: the range of the instructions of an entry, (1, 0) where there is none.\<close>

definition pc_range :: "dwarf \<Rightarrow> die \<Rightarrow> (u64 \<times> u64) option cres" where
  "pc_range db d =
     (case (dw_attr db d DW_AT_high_pc, dw_attr db d DW_AT_low_pc) of
        (DW_OK hi, DW_OK lo) \<Rightarrow>
          (case (dw_whatform db lo, dw_whatform db hi) of
             (DW_OK lo_form, DW_OK hi_form) \<Rightarrow>
               (case dw_formaddr db lo of
                  DW_OK lopc \<Rightarrow>
                    if data_form hi_form then
                      (case dw_formudata db hi of DW_OK hipcofs \<Rightarrow> Inr (Some (lopc, lopc + hipcofs)) | _ \<Rightarrow> Inl Exited)
                    else if hi_form = DW_FORM_addr then
                      (case dw_formaddr db hi of DW_OK hipc \<Rightarrow> Inr (Some (lopc, hipc)) | _ \<Rightarrow> Inl Exited)
                    else Inl Exited
                | _ \<Rightarrow> Inl Exited)
           | _ \<Rightarrow> Inr None)
      | _ \<Rightarrow> Inr None)"

definition only_insnptr :: "wctx \<Rightarrow> bool" where
  "only_insnptr c \<longleftrightarrow> have_insnptr (c_par c) \<and> \<not> have_dataptr (c_par c) \<and> \<not> have_frameptr (c_par c)"

definition push_comp_dir :: "string dres \<Rightarrow> wctx \<Rightarrow> wctx" where
  "push_comp_dir dir c =
     (case dir of DW_OK dir \<Rightarrow> if print_comp_dir (c_par c) then push (dir @ '';'') c else c | _ \<Rightarrow> c)"

text \<open>What is pushed for the name of an entry.\<close>

definition push_name :: "dwarf \<Rightarrow> die \<Rightarrow> nat \<Rightarrow> string \<Rightarrow> wctx \<Rightarrow> wctx" where
  "push_name db d tag name c =
     (if tag = DW_TAG_compile_unit then
        (if only_insnptr c then c else push name (push_comp_dir (dw_comp_dir db d) c))
      else if tag = DW_TAG_subprogram then frame_base db d (push ('';'' @ name) c)
      else push ('';;'' @ name) c)"

text \<open>A line of a compilation unit: its file, and the number unless it is 0.\<close>

definition push_line :: "dwarf_line \<Rightarrow> wctx \<Rightarrow> wctx" where
  "push_line l c =
     (let c = push (li_file l) c in if li_lineno l \<noteq> 0 then push ('':'' @ fmt_dec (li_lineno l)) c else c)"

definition backslash :: char where "backslash = CHR 0x5c"

text \<open>The regular expression that matches a data address with its instruction and frame.\<close>

definition data_regex :: "wparams \<Rightarrow> string" where
  "data_regex p =
     '';;'' @ [backslash] @ ''[0x0*'' @ fmt_hex (unat (dataptr p)) @ '' : '' @ [backslash] @ ''(0x[0-9a-f]'' @
     [backslash] @ ''+'' @ [backslash] @ ''/0x[0-9a-f]'' @ [backslash] @ ''+ '' @ [backslash] @ '')'' @ [backslash] @
     ''?0x0*'' @ fmt_hex (unat (insnptr p)) @ [backslash] @ ''/0x0*'' @ fmt_hex (unat (frameptr p)) @ [backslash] @
     ''( 0x[0-9a-f]'' @ [backslash] @ ''+'' @ [backslash] @ ''/0x[0-9a-f]'' @ [backslash] @ ''+'' @ [backslash] @ '')'' @
     [backslash] @ ''?'' @ [backslash] @ '']''"

definition push_dataptr :: "wctx \<Rightarrow> wctx" where
  "push_dataptr c =
     (let p = c_par c in
      if \<not> have_dataptr p then c
      else if print_address p then push ('' '' @ fmt_0x (dataptr p)) c
      else if \<not> print_regex p then c
      else if have_insnptr p \<and> have_frameptr p then push (data_regex p) c
      else push ('';;'' @ [backslash] @ ''[0x0*'' @ fmt_hex (unat (dataptr p)) @ [backslash] @ '']'') c)"

definition push_insnptr :: "wctx \<Rightarrow> wctx" where
  "push_insnptr c =
     (let p = c_par c in
      if print_regex p then push ('';;{0x0*'' @ fmt_hex (unat (insnptr p)) @ ''}'') c
      else if print_address p then push ('' '' @ fmt_0x (insnptr p)) c
      else c)"

text \<open>The last part: the entry of a variable that contains the address of the data.\<close>

definition print_data :: "nat \<Rightarrow> dwarf \<Rightarrow> die \<Rightarrow> wctx \<Rightarrow> wctx cres" where
  "print_data n db d c =
     cbind (check_location db d c) (\<lambda>(found, c).
     if \<not> found then Inr c
     else
       cbind (dwarf_aggregate_or_base_type n db d) (\<lambda>typedie.
       case typedie of
         None \<Rightarrow> Inr c
       | Some td \<Rightarrow>
           cbind (dwarf_type_size n db (Some td)) (\<lambda>(size, _).
           if \<not> (0 < sint size \<and> c_residue c < size) then Inr c
           else (case dw_tag db td of
             DW_OK typetag \<Rightarrow>
               cbind (if typetag = DW_TAG_structure_type then walk_members n db td c
                      else if typetag = DW_TAG_array_type then walk_elements n db td c
                      else Inr (True, c)) (\<lambda>(ok, c).
               Inr (if ok then print_symstk (push_dataptr c) else c))
           | _ \<Rightarrow> Inr c))))"

definition print_die_data :: "nat \<Rightarrow> dwarf \<Rightarrow> die \<Rightarrow> wctx \<Rightarrow> wctx cres" where
  "print_die_data n db d c0 =
     cbind (tag_or_exit db (Some d)) (\<lambda>tag.
     cbind (die_name db d tag) (\<lambda>name.
     case name of
       None \<Rightarrow> Inr c0
     | Some name \<Rightarrow>
         let c = push_name db d tag name c0 in
         cbind (pc_range db d) (\<lambda>range.
         let inner = (case range of Some r \<Rightarrow> r | None \<Rightarrow> (1, 0));
             c = (if range \<noteq> None \<and> (tag = DW_TAG_compile_unit \<or> tag = DW_TAG_subprogram)
                  then c\<lparr> c_rstate := (c_rstate c)\<lparr> rs_lopc := fst inner, rs_hipc := snd inner \<rparr> \<rparr> else c) in
         cbind (if tag = DW_TAG_compile_unit \<and> only_insnptr c then check_line db d c else Inr None) (\<lambda>line.
         cbind
           (case line of
              Some l \<Rightarrow> Inr (push_line l (push_comp_dir (dw_comp_dir db d) c))
            | None \<Rightarrow>
                if tag = DW_TAG_subprogram \<and> only_insnptr c \<and> fst inner < snd inner then
                  Inr (if fst inner \<le> insnptr (c_par c) \<and> insnptr (c_par c) \<le> snd inner
                       then print_symstk (push_insnptr c) else c)
                else print_data n db d c) (\<lambda>c.
         Inr (if tag = DW_TAG_compile_unit \<or> tag = DW_TAG_subprogram then c
              else popto (length (c_symstk c0)) c))))))"

section \<open>The walk\<close>

text \<open>
  The stack has 16 places, each with the entry to visit next, if any, and the state to visit it
  with. \<open>w_pushp\<close> is the place whose state is set when the entry visited last is done. \<open>w_cu\<close> counts
  the compilation units that were taken.
\<close>

record walk =
  w_height :: nat
  w_stack :: "(die option \<times> rstate) list"
  w_ctx :: wctx
  w_cu_by_cu :: bool
  w_pushp :: "nat option"
  w_cu :: nat

definition rstate_0 :: rstate where
  "rstate_0 = \<lparr> rs_lopc = 0, rs_hipc = 0, rs_cfa_offset = 0, rs_have_cfa_offset = False, rs_depth = 0 \<rparr>"

definition wctx_0 :: "wparams \<Rightarrow> string list \<Rightarrow> wctx" where
  "wctx_0 p out = \<lparr> c_rstate = rstate_0, c_symstk = [], c_residue = 0, c_par = p, c_out = out \<rparr>"

definition set_die :: "nat \<Rightarrow> die option \<Rightarrow> walk \<Rightarrow> walk" where
  "set_die i d w = w\<lparr> w_stack := (w_stack w)[i := (d, snd (w_stack w ! i))] \<rparr>"

definition save_rstate :: "walk \<Rightarrow> walk" where
  "save_rstate w =
     (case w_pushp w of
        None \<Rightarrow> w
      | Some i \<Rightarrow>
          w\<lparr> w_stack := (w_stack w)[i := (fst (w_stack w ! i),
                (c_rstate (w_ctx w))\<lparr> rs_depth := length (c_symstk (w_ctx w)) \<rparr>)],
             w_pushp := None \<rparr>)"

text \<open>The state of a place is taken over, and the stack of strings is cut to its depth.\<close>

definition resume :: "rstate \<Rightarrow> walk \<Rightarrow> walk" where
  "resume rs w = w\<lparr> w_ctx := popto (rs_depth rs) ((w_ctx w)\<lparr> c_rstate := rs \<rparr>) \<rparr>"

function unwind :: "walk \<Rightarrow> walk" where
  "unwind w =
     (if 0 < w_height w \<and> fst (w_stack w ! (w_height w - 1)) = None then
        let h = w_height w - 1 in
        unwind (resume (if 0 < h then snd (w_stack w ! (h - 1)) else rstate_0) (w\<lparr> w_height := h \<rparr>))
      else w)"
  by auto
termination by (relation "measure w_height") (auto simp: resume_def)

declare unwind.simps [simp del]

text \<open>The next compilation unit, or the top of the stack.\<close>

definition take_last :: "dwarf \<Rightarrow> walk \<Rightarrow> (die option \<times> walk) cres" where
  "take_last db w =
     (if w_height w = 0 then
        (if \<not> w_cu_by_cu w \<or> length (dw_cus db) \<le> w_cu w then Inr (None, w)
         else (case dw_cus db ! w_cu w of
           DW_NO_ENTRY \<Rightarrow> Inr (None, w\<lparr> w_cu := w_cu w + 1 \<rparr>)
         | DW_ERROR \<Rightarrow> Inl Exited
         | DW_OK d \<Rightarrow>
             Inr (Some d, set_die 0 None (w\<lparr> w_cu := w_cu w + 1,
               w_ctx := (w_ctx w)\<lparr> c_rstate := (c_rstate (w_ctx w))\<lparr> rs_lopc := 0, rs_hipc := 0 \<rparr> \<rparr>,
               w_height := 1, w_pushp := Some 0 \<rparr>))))
      else
        let (d, rs) = w_stack w ! (w_height w - 1) in Inr (d, resume rs w))"

definition push_child :: "dwarf \<Rightarrow> die \<Rightarrow> walk \<Rightarrow> walk cres" where
  "push_child db d w =
     (case dw_child db d of
        DW_OK child \<Rightarrow>
          if w_height w = length (w_stack w) then Inl Exited
          else Inr (set_die (w_height w) (Some child) (w\<lparr> w_pushp := Some (w_height w), w_height := w_height w + 1 \<rparr>))
      | DW_NO_ENTRY \<Rightarrow> Inr w
      | DW_ERROR \<Rightarrow> Inl Exited)"

definition dwarf_walk_next_in_tree :: "dwarf \<Rightarrow> walk \<Rightarrow> (die option \<times> walk) cres" where
  "dwarf_walk_next_in_tree db w =
     cbind (take_last db (unwind (save_rstate w))) (\<lambda>(d, w).
     case d of
       None \<Rightarrow> Inr (None, w)
     | Some d \<Rightarrow>
         cbind (case dw_siblingof db d of
             DW_OK sibling \<Rightarrow> Inr (set_die (w_height w - 1) (Some sibling) w)
           | DW_NO_ENTRY \<Rightarrow> Inr (set_die (w_height w - 1) None w)
           | DW_ERROR \<Rightarrow> Inl Exited) (\<lambda>w.
         cbind (push_child db d w) (\<lambda>w.
         Inr (Some d, w))))"

text \<open>A predicate of \<open>None\<close> takes every entry; the program gives no other.\<close>

fun dwarf_walk_next :: "nat \<Rightarrow> (die \<Rightarrow> bool) option \<Rightarrow> dwarf \<Rightarrow> walk \<Rightarrow> (die option \<times> walk) cres" where
    "dwarf_walk_next 0 predicate db w = Inl Waiting"
  | "dwarf_walk_next (Suc n) predicate db w =
       cbind (dwarf_walk_next_in_tree db w) (\<lambda>(next, w).
       case next of
         None \<Rightarrow> Inr (None, w)
       | Some d \<Rightarrow>
           if case predicate of None \<Rightarrow> True | Some p \<Rightarrow> p d then Inr (Some d, w)
           else dwarf_walk_next n predicate db w)"

definition walk_0 :: "wparams \<Rightarrow> string list \<Rightarrow> walk" where
  "walk_0 p out =
     \<lparr> w_height = 0, w_stack = replicate 16 (None, rstate_0), w_ctx = wctx_0 p out, w_cu_by_cu = True,
       w_pushp = None, w_cu = 0 \<rparr>"

section \<open>The main program\<close>

text \<open>The loop that prints the entries, for the parameters of one walk.\<close>

fun die_loop :: "nat \<Rightarrow> nat \<Rightarrow> dwarf \<Rightarrow> walk \<Rightarrow> string list cres" where
    "die_loop n 0 db w = Inl Waiting"
  | "die_loop n (Suc k) db w =
       cbind (dwarf_walk_next 1 None db w) (\<lambda>(d, w).
       case d of
         None \<Rightarrow> Inr (c_out (w_ctx w))
       | Some d \<Rightarrow> cbind (print_die_data n db d (w_ctx w)) (\<lambda>c. die_loop n k db (w\<lparr> w_ctx := c \<rparr>)))"

definition print_symbols :: "nat \<Rightarrow> nat \<Rightarrow> dwarf \<Rightarrow> wparams \<Rightarrow> string list \<Rightarrow> string list cres" where
  "print_symbols n k db p out = die_loop n k db (walk_0 p out)"

text \<open>
  A line of the standard input, as \<open>sscanf\<close> matches it: data with two pairs of instruction and frame,
  data with one pair, data only, an instruction only, or none of these.
\<close>

datatype query = Data2 u64 u64 u64 u64 u64 | Data1 u64 u64 u64 | Data0 u64 | Insn u64 | Malformed

text \<open>The two sets of parameters that remain from line to line, and how many of them a line uses.\<close>

fun query_params :: "query \<Rightarrow> wparams \<times> wparams \<Rightarrow> (nat \<times> wparams \<times> wparams) cres" where
    "query_params (Data2 d i1 f1 i2 f2) (p, q) =
       Inr (2, p\<lparr> dataptr := d, insnptr := i1, frameptr := f1, have_dataptr := True, have_insnptr := True, have_frameptr := True \<rparr>,
               q\<lparr> dataptr := d, insnptr := i2, frameptr := f2, have_dataptr := True, have_insnptr := True, have_frameptr := True \<rparr>)"
  | "query_params (Data1 d i f) (p, q) =
       Inr (1, p\<lparr> dataptr := d, insnptr := i, frameptr := f, have_dataptr := True, have_insnptr := True, have_frameptr := True \<rparr>, q)"
  | "query_params (Data0 d) (p, q) = Inr (1, p\<lparr> dataptr := d, have_dataptr := True, have_frameptr := False \<rparr>, q)"
  | "query_params (Insn i) (p, q) =
       Inr (1, p\<lparr> insnptr := i, have_insnptr := True, have_dataptr := False, have_frameptr := False \<rparr>, q)"
  | "query_params Malformed pq = Inl Exited"

fun query_loop :: "nat \<Rightarrow> nat \<Rightarrow> dwarf \<Rightarrow> query list \<Rightarrow> wparams \<times> wparams \<Rightarrow> string list \<Rightarrow> string list cres" where
    "query_loop n k db [] pq out = Inr out"
  | "query_loop n k db (l # ls) pq out =
       cbind (query_params l pq) (\<lambda>(nparams, p, q).
       cbind (print_symbols n k db p out) (\<lambda>out.
       cbind (if nparams = 2 then print_symbols n k db q out else Inr out) (\<lambda>out.
       query_loop n k db ls (p, q) out)))"

text \<open>With an address among the options there is one walk and no input.\<close>

definition rvsyms :: "nat \<Rightarrow> nat \<Rightarrow> dwarf \<Rightarrow> wparams \<Rightarrow> query list \<Rightarrow> string list cres" where
  "rvsyms n k db cl input =
     (if print_address cl \<and> print_regex cl then Inl Exited
      else if have_dataptr cl \<or> have_insnptr cl then print_symbols n k db cl []
      else query_loop n k db input (cl, cl) [])"

end
