(* ===== verification/Rvsyms_Type_Laws.thy ===== *)
theory Rvsyms_Type_Laws
  imports Rvsyms_Walk
begin

text \<open>
  What the symbolizer prints for an address inside of a structure or an array: the path to the member
  or element that contains it, from which the offset of the address can be computed again.
\<close>

section \<open>Types and paths\<close>

text \<open>A scalar has a size; a structure has a size and members with their offsets.\<close>

datatype ctype = CScalar nat | CStruct nat "(string \<times> nat \<times> ctype) list" | CArray "nat list" ctype

primrec csize :: "ctype \<Rightarrow> nat" where
    "csize (CScalar s) = s"
  | "csize (CStruct s ms) = s"
  | "csize (CArray ns ct) = prod_list ns * csize ct"

datatype step = Field string | Index nat

fun step_text :: "step \<Rightarrow> string" where
    "step_text (Field f) = ''.'' @ f"
  | "step_text (Index i) = ''['' @ fmt_dec i @ '']''"

text \<open>The indices of the element with number \<open>k\<close>, in row-major order.\<close>

fun indices :: "nat list \<Rightarrow> nat \<Rightarrow> nat list" where
    "indices [] k = []"
  | "indices (n # ns) k = k div prod_list ns # indices ns (k mod prod_list ns)"

text \<open>The path to the innermost part that contains the offset \<open>r\<close>, and the offset within that part.\<close>

fun locate :: "ctype \<Rightarrow> nat \<Rightarrow> step list \<times> nat"
  and locate_member :: "(string \<times> nat \<times> ctype) list \<Rightarrow> nat \<Rightarrow> (step list \<times> nat) option" where
    "locate (CScalar s) r = ([], r)"
  | "locate (CStruct s ms) r = (case locate_member ms r of None \<Rightarrow> ([], r) | Some x \<Rightarrow> x)"
  | "locate (CArray ns ct) r =
       (let (p, q) = locate ct (r mod csize ct) in (map Index (indices ns (r div csize ct)) @ p, q))"
  | "locate_member [] r = None"
  | "locate_member ((f, ofs, ct) # ms) r =
       (if ofs \<le> r \<and> r < ofs + csize ct then (let (p, q) = locate ct (r - ofs) in Some (Field f # p, q))
        else locate_member ms r)"

section \<open>Indices\<close>

lemma unat_of_nat_64: "a < 2 ^ 64 \<Longrightarrow> unat (of_nat a :: u64) = a"
  by (simp add: unat_of_nat take_bit_nat_eq_self)

lemma of_nat_div_64: "a < 2 ^ 64 \<Longrightarrow> b < 2 ^ 64 \<Longrightarrow> (of_nat a :: u64) div of_nat b = of_nat (a div b)"
proof (rule word_unat_eq_iff [THEN iffD2])
  assume "a < 2 ^ 64" "b < 2 ^ 64"
  moreover from this have "a div b < 2 ^ 64"
    using div_le_dividend [of a b] by linarith
  ultimately show "unat ((of_nat a :: u64) div of_nat b) = unat (of_nat (a div b) :: u64)"
    by (simp add: unat_div unat_of_nat_64)
qed

lemma le_of_nat_64: "a < 2 ^ 64 \<Longrightarrow> b < 2 ^ 64 \<Longrightarrow> (of_nat a :: u64) \<le> of_nat b \<longleftrightarrow> a \<le> b"
  by (simp add: word_le_nat_alt unat_of_nat_64)

lemma of_nat_0_64: "a < 2 ^ 64 \<Longrightarrow> (of_nat a :: u64) = 0 \<longleftrightarrow> a = 0"
  using le_of_nat_64 [of a 0] by auto

lemma ucast_of_nat_32: "ucast (of_nat i :: u64) = (of_nat i :: u32)"
  by (simp add: unsigned_of_nat word_of_nat_eq_iff)

lemma sint_of_nat_32: "i < 2 ^ 31 \<Longrightarrow> sint (ucast (of_nat i :: u64) :: u32) = int i"
  unfolding ucast_of_nat_32 by (simp add: signed_of_nat signed_take_bit_int_eq_self)

lemma scast_of_nat_32: "i < 2 ^ 31 \<Longrightarrow> scast (ucast (of_nat i :: u64) :: u32) = (of_nat i :: u64)"
  using sint_of_nat_32 [of i] by (metis of_int_of_nat_eq scast_eq)

lemma fmt_int_of_nat: "fmt_int (int i) = fmt_dec i"
  by (simp add: fmt_int_def)

fun sizes :: "nat \<Rightarrow> nat list \<Rightarrow> nat list" where
    "sizes es [] = []"
  | "sizes es (n # ns) = prod_list (n # ns) * es # sizes es ns"

lemma partial_products_sizes:
  "map (\<lambda>d. d * of_nat es) (partial_products (map of_nat ns)) = map of_nat (sizes es ns)"
proof -
  have "partial_products (map of_nat ns) = map of_nat (sizes 1 ns)" for ns
  proof (induction ns)
    case (Cons n ns)
    then show ?case
      by (cases ns) simp_all
  qed simp
  moreover have "map (\<lambda>d. d * of_nat es) (map of_nat (sizes 1 ns)) = (map of_nat (sizes es ns) :: u64 list)"
    by (induction ns) simp_all
  ultimately show ?thesis
    by metis
qed

text \<open>The state after some steps of a path.\<close>

definition at_path :: "step list \<Rightarrow> nat \<Rightarrow> wctx \<Rightarrow> wctx" where
  "at_path p r c = c\<lparr> c_residue := of_nat r, c_symstk := c_symstk c @ map step_text p \<rparr>"

lemma at_path_twice [simp]: "at_path p r (at_path p' r' c) = at_path (p' @ p) r c"
  by (simp add: at_path_def)

lemma index_loop_indices:
  assumes "r < prod_list ns * es" "prod_list ns * es < 2 ^ 63" "\<forall>n\<in>set ns. n < 2 ^ 31" "c_residue c = of_nat r" "0 < es"
  shows "index_loop (of_nat es) (map of_nat (sizes es ns)) c = Inr (True, at_path (map Index (indices ns (r div es))) (r mod es) c)"
  using assms
proof (induction ns arbitrary: r c)
  case Nil
  then show ?case
    by (simp add: at_path_def)
next
  case (Cons n ns)
  define sz where "sz = prod_list ns * es"
  have r: "r < n * sz" "n * sz < 2 ^ 63"
    using Cons.prems(1,2) by (simp_all add: sz_def mult.assoc)
  then have sz: "0 < sz" "r < 2 ^ 63"
    by (auto intro: gr0I)
  have "0 < n"
    using r(1) by (auto intro: gr0I)
  then have sz2: "sz < 2 ^ 63"
    using r(2) by (metis One_nat_def Suc_leI le_less_trans mult.commute mult_le_mono2 nat_mult_1_right)
  define i where "i = r div sz"
  have "i < n"
    using r(1) unfolding i_def by (rule less_mult_imp_div_less)
  moreover have "n < 2 ^ 31"
    using Cons.prems(3) by simp
  ultimately have i: "i < n" "i < 2 ^ 31"
    using less_trans by blast+
  have szw: "(case map of_nat (sizes es ns) of [] \<Rightarrow> of_nat es | d' # _ \<Rightarrow> d') = (of_nat sz :: u64)"
    by (cases ns) (simp_all add: sz_def)
  have div: "c_residue c div of_nat sz = of_nat i"
    using sz sz2 Cons.prems(4) by (simp add: of_nat_div_64 i_def)
  have res: "c_residue c - of_nat i * of_nat sz = of_nat (r mod sz)"
  proof -
    have "r mod sz + i * sz = r"
      by (simp add: i_def)
    then have "of_nat (r mod sz) + of_nat i * of_nat sz = (of_nat r :: u64)"
      by (metis of_nat_add of_nat_mult)
    then show ?thesis
      using Cons.prems(4) by (simp add: algebra_simps)
  qed
  have cmp: "\<not> of_nat (prod_list (n # ns) * es) \<le> c_residue c" "of_nat sz \<noteq> (0 :: u64)"
    using r sz sz2 Cons.prems(1,2,4) le_of_nat_64 [of "prod_list (n # ns) * es" r] of_nat_0_64 [of sz] by simp_all
  define c1 where "c1 = at_path [Index i] (r mod sz) c"
  have "index_loop (of_nat es) (map of_nat (sizes es (n # ns))) c = index_loop (of_nat es) (map of_nat (sizes es ns)) c1"
    using cmp unfolding sizes.simps list.map index_loop.simps Let_def szw div sint_of_nat_32 [OF i(2)] scast_of_nat_32 [OF i(2)] res
    by (simp add: c1_def at_path_def push_def fmt_int_of_nat)
  also have "\<dots> = Inr (True, at_path (map Index (indices ns (r mod sz div es))) (r mod sz mod es) c1)"
    using Cons.prems(3,5) sz(1) sz2 by (intro Cons.IH) (simp_all add: sz_def c1_def at_path_def)
  also have "r mod sz mod es = r mod es"
    by (simp add: sz_def mod_mult_self1 mod_mod_cancel)
  also have "r mod sz div es = (r div es) mod prod_list ns"
    by (simp add: sz_def mod_mult2_eq mult.commute Cons.prems(5))
  also have "at_path (map Index (indices ns (r div es mod prod_list ns))) (r mod es) c1 =
      at_path (map Index (indices (n # ns) (r div es))) (r mod es) c"
    by (simp add: c1_def i_def sz_def div_mult2_eq mult.commute)
  finally show ?case .
qed

section \<open>Descriptions of types\<close>

text \<open>Something holds for every amount of fuel from some amount on.\<close>

definition enough :: "(nat \<Rightarrow> bool) \<Rightarrow> bool" where
  "enough P \<longleftrightarrow> (\<exists>N. \<forall>n\<ge>N. P n)"

lemma enough_all: "(\<And>n. P n) \<Longrightarrow> enough P"
  by (simp add: enough_def)

lemma enough_Suc: "enough (\<lambda>n. P (Suc n)) \<Longrightarrow> enough P"
  unfolding enough_def by (metis Suc_le_D Suc_le_mono)

lemma enough_mono: "enough P \<Longrightarrow> (\<And>n. P n \<Longrightarrow> Q n) \<Longrightarrow> enough Q"
  by (auto simp: enough_def)

lemma enough_conj: "enough P \<Longrightarrow> enough Q \<Longrightarrow> enough (\<lambda>n. P n \<and> Q n)"
  unfolding enough_def by (meson le_trans nat_le_linear)

text \<open>The dimensions of an array, from its first child on.\<close>

inductive dims_at :: "dwarf \<Rightarrow> die \<Rightarrow> nat list \<Rightarrow> bool" for db where
  last: "dw_tag db d = DW_OK DW_TAG_subrange_type \<Longrightarrow> get_subrange_dimension db d = Inr (of_nat n) \<Longrightarrow>
    dw_siblingof db d = DW_NO_ENTRY \<Longrightarrow> dims_at db d [n]"
| more: "dw_tag db d = DW_OK DW_TAG_subrange_type \<Longrightarrow> get_subrange_dimension db d = Inr (of_nat n) \<Longrightarrow>
    dw_siblingof db d = DW_OK d' \<Longrightarrow> dims_at db d' ns \<Longrightarrow> dims_at db d (n # ns)"

text \<open>
  \<open>type_at db d ct\<close>: the entry \<open>d\<close> itself describes \<open>ct\<close>. \<open>type_of db d td ct\<close>: so does the entry \<open>td\<close> that
  \<open>d\<close> leads to over typedefs and qualifiers. \<open>members_at db s d ms\<close>: the members of a structure of
  size \<open>s\<close>, from its child \<open>d\<close> on. Sizes are less than \<open>2 ^ 63\<close>, and the indices fit in an \<open>int\<close>.
\<close>

inductive type_at :: "dwarf \<Rightarrow> die \<Rightarrow> ctype \<Rightarrow> bool"
  and type_of :: "dwarf \<Rightarrow> die \<Rightarrow> die \<Rightarrow> ctype \<Rightarrow> bool"
  and members_at :: "dwarf \<Rightarrow> nat \<Rightarrow> die \<Rightarrow> (string \<times> nat \<times> ctype) list \<Rightarrow> bool" for db where
  scalar: "get_unsigned_attribute db d DW_AT_byte_size = Some (of_nat s) \<Longrightarrow> s < 2 ^ 63 \<Longrightarrow> dw_tag db d = DW_OK t \<Longrightarrow>
    t \<noteq> DW_TAG_structure_type \<Longrightarrow> t \<noteq> DW_TAG_array_type \<Longrightarrow> type_at db d (CScalar s)"
| pointer: "get_unsigned_attribute db d DW_AT_byte_size = None \<Longrightarrow> dw_tag db d = DW_OK DW_TAG_pointer_type \<Longrightarrow>
    dw_address_size db = DW_OK (of_nat s) \<Longrightarrow> s < 2 ^ 63 \<Longrightarrow> type_at db d (CScalar s)"
| struct: "get_unsigned_attribute db d DW_AT_byte_size = Some (of_nat s) \<Longrightarrow> s < 2 ^ 63 \<Longrightarrow>
    dw_tag db d = DW_OK DW_TAG_structure_type \<Longrightarrow> dw_child db d = DW_OK d' \<Longrightarrow> members_at db s d' ms \<Longrightarrow> type_at db d (CStruct s ms)"
| array: "get_unsigned_attribute db d DW_AT_byte_size = None \<Longrightarrow> dw_tag db d = DW_OK DW_TAG_array_type \<Longrightarrow>
    dw_child db d = DW_OK d' \<Longrightarrow> dims_at db d' ns \<Longrightarrow> length ns \<le> 10 \<Longrightarrow> \<forall>n\<in>set ns. n < 2 ^ 31 \<Longrightarrow>
    dwarf_follow_type_to_die db d = Inr (Some e) \<Longrightarrow> type_of db e td ct \<Longrightarrow> prod_list ns * csize ct < 2 ^ 63 \<Longrightarrow>
    type_at db d (CArray ns ct)"
| here: "type_at db d ct \<Longrightarrow> type_of db d d ct"
| via: "get_unsigned_attribute db d DW_AT_byte_size = None \<Longrightarrow> dw_tag db d = DW_OK t \<Longrightarrow> t \<noteq> DW_TAG_array_type \<Longrightarrow>
    t \<noteq> DW_TAG_pointer_type \<Longrightarrow> dwarf_follow_type_to_die db d = Inr (Some e) \<Longrightarrow> type_of db e td ct \<Longrightarrow> type_of db d td ct"
| last_member: "dw_tag db d = DW_OK DW_TAG_member \<Longrightarrow> get_unsigned_attribute db d DW_AT_data_member_location = Some (of_nat ofs) \<Longrightarrow>
    dw_diename db d = DW_OK f \<Longrightarrow> dwarf_follow_type_to_die db d = Inr (Some e) \<Longrightarrow> type_of db e td ct \<Longrightarrow>
    ofs + csize ct \<le> s \<Longrightarrow> dw_siblingof db d = DW_NO_ENTRY \<Longrightarrow> members_at db s d [(f, ofs, ct)]"
| member: "dw_tag db d = DW_OK DW_TAG_member \<Longrightarrow> get_unsigned_attribute db d DW_AT_data_member_location = Some (of_nat ofs) \<Longrightarrow>
    dw_diename db d = DW_OK f \<Longrightarrow> dwarf_follow_type_to_die db d = Inr (Some e) \<Longrightarrow> type_of db e td ct \<Longrightarrow>
    ofs + csize ct \<le> s \<Longrightarrow> dw_siblingof db d = DW_OK d' \<Longrightarrow> members_at db s d' ms \<Longrightarrow> members_at db s d ((f, ofs, ct) # ms)"
| last_other: "dw_tag db d = DW_OK t \<Longrightarrow> t \<noteq> DW_TAG_member \<Longrightarrow> dw_siblingof db d = DW_NO_ENTRY \<Longrightarrow> members_at db s d []"
| other: "dw_tag db d = DW_OK t \<Longrightarrow> t \<noteq> DW_TAG_member \<Longrightarrow> dw_siblingof db d = DW_OK d' \<Longrightarrow> members_at db s d' ms \<Longrightarrow>
    members_at db s d ms"

section \<open>Sizes\<close>

lemma array_size_loop_dims:
  "dims_at db d ns \<Longrightarrow> enough (\<lambda>n. \<forall>t. array_size_loop n db d (of_nat t) = Inr (of_nat (t * prod_list ns)))"
proof (induction rule: dims_at.induct)
  case (last d n)
  show ?case
    by (rule enough_Suc, rule enough_all) (use last in \<open>simp add: tag_or_exit_def next_sibling_def\<close>)
next
  case (more d n d' ns)
  from more.IH show ?case
  proof (rule enough_mono [THEN enough_Suc], intro allI)
    fix m t
    assume "\<forall>t. array_size_loop m db d' (of_nat t) = Inr (of_nat (t * prod_list ns))"
    from this [rule_format, of "t * n"]
    show "array_size_loop (Suc m) db d (of_nat t) = Inr (of_nat (t * prod_list (n # ns)))"
      using more.hyps by (simp add: tag_or_exit_def next_sibling_def mult.assoc)
  qed
qed

lemma dims_loop_dims:
  "dims_at db d ns \<Longrightarrow> enough (\<lambda>n. \<forall>dim. length dim + length ns \<le> 10 \<longrightarrow> dims_loop n db d dim = Inr (dim @ map of_nat ns))"
proof (induction rule: dims_at.induct)
  case (last d n)
  show ?case
    by (rule enough_Suc, rule enough_all) (use last in \<open>simp add: tag_or_exit_def next_sibling_def\<close>)
next
  case (more d n d' ns)
  from more.IH show ?case
  proof (rule enough_mono [THEN enough_Suc], intro allI impI)
    fix m and dim :: "u64 list"
    assume "\<forall>dim. length dim + length ns \<le> 10 \<longrightarrow> dims_loop m db d' dim = Inr (dim @ map of_nat ns)"
      and "length dim + length (n # ns) \<le> 10"
    then show "dims_loop (Suc m) db d dim = Inr (dim @ map of_nat (n # ns))"
      using more.hyps by (simp add: tag_or_exit_def next_sibling_def)
  qed
qed

lemma sint_of_nat_64: "s < 2 ^ 63 \<Longrightarrow> sint (of_nat s :: u64) = int s"
  by (simp add: signed_of_nat signed_take_bit_int_eq_self)

lemma of_nat_not_minus_1: "s < 2 ^ 63 \<Longrightarrow> (of_nat s :: u64) \<noteq> -1"
proof
  assume s: "s < 2 ^ 63" "(of_nat s :: u64) = -1"
  then have "int s = -1"
    using sint_of_nat_64 [OF s(1)] by simp
  then show False
    by simp
qed

lemma csize_bound: "type_at db d ct \<Longrightarrow> csize ct < 2 ^ 63" "type_of db d td ct \<Longrightarrow> csize ct < 2 ^ 63" "members_at db s d ms \<Longrightarrow> True"
  by (induction rule: type_at_type_of_members_at.inducts) simp_all

lemma type_size:
  "type_at db d ct \<Longrightarrow> enough (\<lambda>n. dwarf_type_size n db (Some d) = Inr (of_nat (csize ct), Some d))"
  "type_of db d td ct \<Longrightarrow> enough (\<lambda>n. dwarf_type_size n db (Some d) = Inr (of_nat (csize ct), Some td))"
  "members_at db s d ms \<Longrightarrow> True"
proof (induction rule: type_at_type_of_members_at.inducts)
  case (array d d' ns e td ct)
  have "type_of db e td ct"
    using array by blast
  then have ct: "csize ct < 2 ^ 63"
    by (rule csize_bound)
  have "enough (\<lambda>n. dwarf_type_size n db (Some e) = Inr (of_nat (csize ct), Some td))"
    "enough (\<lambda>n. \<forall>t. array_size_loop n db d' (of_nat t) = Inr (of_nat (t * prod_list ns)))"
    using array array_size_loop_dims by blast+
  then show ?case
    by (rule enough_mono [OF enough_conj, THEN enough_Suc])
      (use array ct in \<open>simp add: tag_or_exit_def dwarf_array_type_size_def sint_of_nat_64 of_nat_not_minus_1 mult.commute flip: of_nat_mult\<close>)
next
  case (via d t e td ct)
  then have "enough (\<lambda>n. dwarf_type_size n db (Some e) = Inr (of_nat (csize ct), Some td))"
    by blast
  then show ?case
    by (rule enough_mono [THEN enough_Suc]) (use via in \<open>simp add: tag_or_exit_def\<close>)
qed (auto intro!: enough_all [THEN enough_Suc] simp: of_nat_not_minus_1 tag_or_exit_def)

section \<open>The walk finds the path\<close>

text \<open>The call that both functions make for the part they have found, chosen by its tag.\<close>

definition walk_type :: "nat \<Rightarrow> dwarf \<Rightarrow> die \<Rightarrow> wctx \<Rightarrow> (bool \<times> wctx) cres" where
  "walk_type n db td c =
     cbind (tag_or_exit db (Some td)) (\<lambda>tag.
       if tag = DW_TAG_structure_type then walk_members n db td c
       else if tag = DW_TAG_array_type then walk_elements n db td c
       else Inr (True, c))"

lemma walk_type_bind:
  "cbind (tag_or_exit db (Some td)) (\<lambda>tag.
     cbind (if tag = DW_TAG_structure_type then walk_members n db (the (Some td)) c
            else if tag = DW_TAG_array_type then walk_elements n db (the (Some td)) c
            else Inr (True, c)) g) = cbind (walk_type n db td c) g"
  unfolding option.sel by (simp add: walk_type_def cbind_assoc)

lemma c_residue_push [simp]: "c_residue (push x c) = c_residue c"
  by (simp add: push_def)

lemma at_path_Field: "c_residue c = of_nat r \<Longrightarrow> ofs \<le> r \<Longrightarrow>
    (push (''.'' @ f) c)\<lparr> c_residue := c_residue c - of_nat ofs \<rparr> = at_path [Field f] (r - ofs) c"
  by (cases c) (simp add: at_path_def push_def of_nat_diff)

lemma at_path_Nil: "c_residue c = of_nat r \<Longrightarrow> at_path [] r c = c"
  by (cases c) (simp add: at_path_def)

lemma c_residue_at_path [simp]: "c_residue (at_path p r c) = of_nat r"
  by (simp add: at_path_def)

lemma members_step:
  assumes "dw_tag db d = DW_OK DW_TAG_member" "get_unsigned_attribute db d DW_AT_data_member_location = Some (of_nat ofs)"
    "dw_diename db d = DW_OK f" "dwarf_follow_type_to_die db d = Inr (Some e)"
    "dwarf_type_size n db (Some e) = Inr (of_nat (csize ct), Some td)"
    and "ofs + csize ct < 2 ^ 63" "r < 2 ^ 63" "c_residue c = of_nat r"
  shows "members_loop (Suc n) db d c =
    (if ofs \<le> r \<and> r < ofs + csize ct
     then cbind (walk_type n db td (at_path [Field f] (r - ofs) c)) (\<lambda>(_, c). Inr (True, c))
     else next_sibling db d (False, c) (\<lambda>s. members_loop n db s c))"
proof -
  define nxt where "nxt = next_sibling db d (False, c) (\<lambda>s. members_loop n db s c)"
  have cmp: "c_residue c < of_nat ofs \<longleftrightarrow> r < ofs" "of_nat ofs + of_nat (csize ct) \<le> c_residue c \<longleftrightarrow> ofs + csize ct \<le> r"
    using le_of_nat_64 [of ofs r] le_of_nat_64 [of "ofs + csize ct" r] assms(6-8) by (auto simp: not_le [symmetric])
  have "\<not> sint (of_nat (csize ct) :: u64) < 0"
    using assms(6) by (simp add: sint_of_nat_64)
  then have "members_loop (Suc n) db d c =
      (if r < ofs \<or> ofs + csize ct \<le> r then nxt
       else cbind (walk_type n db td ((push (''.'' @ f) c)\<lparr> c_residue := c_residue c - of_nat ofs \<rparr>)) (\<lambda>(_, c). Inr (True, c)))"
    unfolding members_loop.simps nxt_def Let_def
    by (simp add: assms(1-5) cmp [simplified] tag_or_exit_def [of db "Some d"] walk_type_bind)
  then show ?thesis
    using at_path_Field [OF assms(8), of ofs f] by (auto simp: nxt_def)
qed

lemma elements_step:
  assumes "dw_child db d = DW_OK d'" "dwarf_follow_type_to_die db d = Inr (Some e)"
    "dwarf_type_size n db (Some e) = Inr (of_nat (csize ct), Some td)" "dims_loop n db d' [] = Inr (map of_nat ns)"
    and "r < prod_list ns * csize ct" "prod_list ns * csize ct < 2 ^ 63" "\<forall>n\<in>set ns. n < 2 ^ 31" "c_residue c = of_nat r"
    and "csize ct < 2 ^ 63"
  shows "walk_elements (Suc n) db d c =
    cbind (walk_type n db td (at_path (map Index (indices ns (r div csize ct))) (r mod csize ct) c)) (\<lambda>(_, c). Inr (True, c))"
proof -
  have "0 < csize ct"
    using assms(5) by (auto intro: gr0I)
  then have "index_loop (of_nat (csize ct)) (map (\<lambda>d. d * of_nat (csize ct)) (partial_products (map of_nat ns))) c =
      Inr (True, at_path (map Index (indices ns (r div csize ct))) (r mod csize ct) c)"
    unfolding partial_products_sizes using assms(5-8) by (intro index_loop_indices)
  moreover have "\<not> sint (of_nat (csize ct) :: u64) < 0"
    using assms(9) by (simp add: sint_of_nat_64)
  ultimately show ?thesis
    unfolding walk_elements.simps
    by (simp add: assms(1-4) walk_type_bind)
qed

definition part_found :: "ctype \<Rightarrow> nat \<Rightarrow> bool" where
  "part_found ct r = (case ct of CStruct s ms \<Rightarrow> locate_member ms r \<noteq> None | _ \<Rightarrow> True)"

definition located :: "dwarf \<Rightarrow> die \<Rightarrow> ctype \<Rightarrow> bool" where
  "located db td ct \<longleftrightarrow> (\<forall>r c. r < csize ct \<longrightarrow> c_residue c = of_nat r \<longrightarrow>
     enough (\<lambda>n. walk_type n db td c = Inr (part_found ct r, at_path (fst (locate ct r)) (snd (locate ct r)) c)))"

lemma located_path:
  assumes "located db td ct" "r < csize ct"
  shows "enough (\<lambda>n. cbind (walk_type n db td (at_path p r c)) (\<lambda>(_, c). Inr (True, c)) =
    Inr (True, at_path (p @ fst (locate ct r)) (snd (locate ct r)) c))"
proof -
  have "enough (\<lambda>n. walk_type n db td (at_path p r c) =
      Inr (part_found ct r, at_path (p @ fst (locate ct r)) (snd (locate ct r)) c))"
    using assms(1) [unfolded located_def, rule_format, of r "at_path p r c"] assms(2) by simp
  then show ?thesis
    by (rule enough_mono) simp
qed

lemma walk_type_tag:
  "dw_tag db d = DW_OK t \<Longrightarrow> walk_type n db d c = (if t = DW_TAG_structure_type then walk_members n db d c
     else if t = DW_TAG_array_type then walk_elements n db d c else Inr (True, c))"
  by (simp add: walk_type_def tag_or_exit_def)

lemma located_scalar: "dw_tag db d = DW_OK t \<Longrightarrow> t \<noteq> DW_TAG_structure_type \<Longrightarrow> t \<noteq> DW_TAG_array_type \<Longrightarrow> located db d (CScalar s)"
  unfolding located_def by (auto simp: walk_type_tag part_found_def at_path_Nil intro: enough_all)

text \<open>What the loop over the members finds.\<close>

definition members_result :: "(string \<times> nat \<times> ctype) list \<Rightarrow> nat \<Rightarrow> wctx \<Rightarrow> (bool \<times> wctx) cres" where
  "members_result ms r c =
     Inr (case locate_member ms r of None \<Rightarrow> (False, c) | Some (p, q) \<Rightarrow> (True, at_path p q c))"

definition members_located :: "dwarf \<Rightarrow> nat \<Rightarrow> die \<Rightarrow> (string \<times> nat \<times> ctype) list \<Rightarrow> bool" where
  "members_located db s d ms \<longleftrightarrow> (s < 2 ^ 63 \<longrightarrow> (\<forall>r c. r < s \<longrightarrow> c_residue c = of_nat r \<longrightarrow>
     enough (\<lambda>n. members_loop n db d c = members_result ms r c)))"

lemma locate_member_in:
  "ofs \<le> r \<and> r < ofs + csize ct \<Longrightarrow> members_result ((f, ofs, ct) # ms) r c =
     Inr (True, at_path ([Field f] @ fst (locate ct (r - ofs))) (snd (locate ct (r - ofs))) c)"
  by (auto simp: members_result_def split: prod.split)

lemma locate_member_out:
  "\<not> (ofs \<le> r \<and> r < ofs + csize ct) \<Longrightarrow> members_result ((f, ofs, ct) # ms) r c = members_result ms r c"
  by (auto simp: members_result_def)

lemma member_located:
  assumes "dw_tag db d = DW_OK DW_TAG_member" "get_unsigned_attribute db d DW_AT_data_member_location = Some (of_nat ofs)"
    "dw_diename db d = DW_OK f" "dwarf_follow_type_to_die db d = Inr (Some e)" "type_of db e td ct" "located db td ct"
    and "ofs + csize ct \<le> s" "s < 2 ^ 63" "r < s" "c_residue c = of_nat r"
    and rest: "enough (\<lambda>n. next_sibling db d (False, c) (\<lambda>x. members_loop n db x c) = members_result ms r c)"
  shows "enough (\<lambda>n. members_loop n db d c = members_result ((f, ofs, ct) # ms) r c)"
proof -
  have size: "enough (\<lambda>n. dwarf_type_size n db (Some e) = Inr (of_nat (csize ct), Some td))"
    using assms(5) by (rule type_size)
  have bounds: "ofs + csize ct < 2 ^ 63" "r < 2 ^ 63"
    using assms(7-9) by linarith+
  show ?thesis
  proof (cases "ofs \<le> r \<and> r < ofs + csize ct")
    case True
    then have "r - ofs < csize ct"
      by linarith
    from enough_conj [OF size located_path [OF assms(6) this, of "[Field f]" c]] show ?thesis
    proof (rule enough_mono [THEN enough_Suc], elim conjE)
      fix n
      assume size: "dwarf_type_size n db (Some e) = Inr (of_nat (csize ct), Some td)"
        and path: "cbind (walk_type n db td (at_path [Field f] (r - ofs) c)) (\<lambda>(_, c). Inr (True, c)) =
          Inr (True, at_path ([Field f] @ fst (locate ct (r - ofs))) (snd (locate ct (r - ofs))) c)"
      show "members_loop (Suc n) db d c = members_result ((f, ofs, ct) # ms) r c"
        unfolding members_step [OF assms(1-4) size bounds assms(10)] path locate_member_in [OF True]
        using True by simp
    qed
  next
    case False
    from enough_conj [OF size rest] show ?thesis
    proof (rule enough_mono [THEN enough_Suc], elim conjE)
      fix n
      assume size: "dwarf_type_size n db (Some e) = Inr (of_nat (csize ct), Some td)"
        and rest: "next_sibling db d (False, c) (\<lambda>x. members_loop n db x c) = members_result ms r c"
      show "members_loop (Suc n) db d c = members_result ((f, ofs, ct) # ms) r c"
        unfolding members_step [OF assms(1-4) size bounds assms(10)] rest locate_member_out [OF False]
        using False by auto
    qed
  qed
qed

lemma walk_located:
  "type_at db d ct \<Longrightarrow> located db d ct"
  "type_of db d td ct \<Longrightarrow> located db td ct"
  "members_at db s d ms \<Longrightarrow> members_located db s d ms"
proof (induction rule: type_at_type_of_members_at.inducts)
  case (struct d s d' ms)
  show ?case
    unfolding located_def
  proof (intro allI impI)
    fix r and c :: wctx
    assume "r < csize (CStruct s ms)" "c_residue c = of_nat r"
    then have "enough (\<lambda>n. members_loop n db d' c = members_result ms r c)"
      using struct by (simp add: members_located_def)
    then show "enough (\<lambda>n. walk_type n db d c =
        Inr (part_found (CStruct s ms) r, at_path (fst (locate (CStruct s ms) r)) (snd (locate (CStruct s ms) r)) c))"
      by (rule enough_mono [THEN enough_Suc])
        (use struct \<open>c_residue c = of_nat r\<close> in \<open>simp add: walk_type_tag part_found_def members_result_def at_path_Nil split: option.split prod.split\<close>)
  qed
next
  case (array d d' ns e td ct)
  have ct: "type_of db e td ct" "located db td ct"
    using array by blast+
  show ?case
    unfolding located_def
  proof (intro allI impI)
    fix r and c :: wctx
    assume r: "r < csize (CArray ns ct)" "c_residue c = of_nat r"
    then have "r mod csize ct < csize ct"
      by (intro mod_less_divisor gr0I) simp
    have size: "enough (\<lambda>n. dwarf_type_size n db (Some e) = Inr (of_nat (csize ct), Some td))"
      using ct(1) by (rule type_size)
    have dims: "enough (\<lambda>n. \<forall>dim. length dim + length ns \<le> 10 \<longrightarrow> dims_loop n db d' dim = Inr (dim @ map of_nat ns))"
      using array by (intro dims_loop_dims) blast
    define p where "p = map Index (indices ns (r div csize ct))"
    from enough_conj [OF enough_conj [OF size dims] located_path [OF ct(2) \<open>r mod csize ct < csize ct\<close>, of p c]]
    show "enough (\<lambda>n. walk_type n db d c =
        Inr (part_found (CArray ns ct) r, at_path (fst (locate (CArray ns ct) r)) (snd (locate (CArray ns ct) r)) c))"
    proof (rule enough_mono [THEN enough_Suc], elim conjE)
      fix n
      assume size: "dwarf_type_size n db (Some e) = Inr (of_nat (csize ct), Some td)"
        and dims: "\<forall>dim. length dim + length ns \<le> 10 \<longrightarrow> dims_loop n db d' dim = Inr (dim @ map of_nat ns)"
        and path: "cbind (walk_type n db td (at_path p (r mod csize ct) c)) (\<lambda>(_, c). Inr (True, c)) =
          Inr (True, at_path (p @ fst (locate ct (r mod csize ct))) (snd (locate ct (r mod csize ct))) c)"
      have "walk_elements (Suc n) db d c = cbind (walk_type n db td (at_path p (r mod csize ct) c)) (\<lambda>(_, c). Inr (True, c))"
        unfolding p_def using array size dims [rule_format, of "[]"] r csize_bound(2) [OF ct(1)]
        by (intro elements_step) simp_all
      then show "walk_type (Suc n) db d c =
          Inr (part_found (CArray ns ct) r, at_path (fst (locate (CArray ns ct) r)) (snd (locate (CArray ns ct) r)) c)"
        using array path by (simp add: walk_type_tag part_found_def p_def case_prod_beta Let_def)
    qed
  qed
next
  case (last_member d ofs f e td ct s)
  have "enough (\<lambda>n. members_loop n db d c = members_result [(f, ofs, ct)] r c)"
    if "s < 2 ^ 63" "r < s" "c_residue c = of_nat r" for r c
    using last_member that
    by (intro member_located) (auto intro!: enough_all simp: next_sibling_def members_result_def)
  then show ?case
    by (simp add: members_located_def)
next
  case (member d ofs f e td ct s d' ms)
  have "enough (\<lambda>n. members_loop n db d c = members_result ((f, ofs, ct) # ms) r c)"
    if "s < 2 ^ 63" "r < s" "c_residue c = of_nat r" for r c
    using member that
    by (intro member_located) (auto simp: next_sibling_def members_located_def)
  then show ?case
    by (simp add: members_located_def)
next
  case (other d t d' s ms)
  have "enough (\<lambda>n. members_loop n db d c = members_result ms r c)"
    if "s < 2 ^ 63" "r < s" "c_residue c = of_nat r" for r c
  proof -
    have "enough (\<lambda>n. members_loop n db d' c = members_result ms r c)"
      using other that by (simp add: members_located_def)
    then show ?thesis
      by (rule enough_mono [THEN enough_Suc]) (use other in \<open>simp add: tag_or_exit_def next_sibling_def Let_def\<close>)
  qed
  then show ?case
    by (simp add: members_located_def)
qed (auto intro!: enough_all [THEN enough_Suc] located_scalar
    simp: members_located_def members_result_def tag_or_exit_def next_sibling_def Let_def)

section \<open>From the path to the offset\<close>

text \<open>Where a path leads: its offset, and the type of the part that is there.\<close>

fun path_offset :: "ctype \<Rightarrow> step list \<Rightarrow> (nat \<times> ctype) option" where
    "path_offset (CArray [] ct) p = path_offset ct p"
  | "path_offset ct [] = Some (0, ct)"
  | "path_offset (CStruct s ms) (Field f # p) =
       (case map_of ms f of None \<Rightarrow> None
        | Some (ofs, ct) \<Rightarrow> map_option (\<lambda>(k, t). (ofs + k, t)) (path_offset ct p))"
  | "path_offset (CArray (n # ns) ct) (Index i # p) =
       (if i < n then map_option (\<lambda>(k, t). (i * (prod_list ns * csize ct) + k, t)) (path_offset (CArray ns ct) p) else None)"
  | "path_offset ct p = None"

text \<open>The members of each structure have different names.\<close>

fun well_named :: "ctype \<Rightarrow> bool" where
    "well_named (CScalar s) = True"
  | "well_named (CStruct s ms) = (distinct (map fst ms) \<and> (\<forall>m\<in>set ms. well_named (snd (snd m))))"
  | "well_named (CArray ns ct) = well_named ct"

lemma path_offset_indices:
  "k < prod_list ns \<Longrightarrow> path_offset (CArray ns ct) (map Index (indices ns k) @ p) =
    map_option (\<lambda>(j, t). (k * csize ct + j, t)) (path_offset ct p)"
proof (induction ns arbitrary: k)
  case Nil
  then show ?case
    by (simp add: option.map_ident_strong split: prod.splits)
next
  case (Cons n ns)
  define P where "P = prod_list ns"
  have P: "0 < P"
    using Cons.prems by (auto simp: P_def intro: gr0I)
  have "k div P < n"
    using Cons.prems by (simp add: P_def less_mult_imp_div_less)
  moreover have "k div P * (P * csize ct) + (k mod P * csize ct + j) = k * csize ct + j" for j
  proof -
    have "k div P * (P * csize ct) + (k mod P * csize ct + j) = (k div P * P + k mod P) * csize ct + j"
      by (simp only: algebra_simps)
    then show ?thesis
      by (simp only: div_mult_mod_eq)
  qed
  ultimately show ?case
    using Cons.IH [of "k mod P"] P by (cases "path_offset ct p") (simp_all add: P_def [symmetric] case_prod_beta)
qed

lemma path_offset_Nil: "\<exists>t. path_offset ct [] = Some (0, t) \<and> csize t = csize ct"
proof (induction ct)
  case (CArray ns ct)
  then show ?case
    by (cases ns) auto
qed auto

lemma locate_member_Field: "locate_member ms r = Some (p, q) \<Longrightarrow> \<exists>g x p'. p = Field g # p' \<and> (g, x) \<in> set ms"
  by (induction ms) (auto split: if_splits prod.splits, blast+)

lemma locate_offset:
  "well_named ct \<Longrightarrow> r < csize ct \<Longrightarrow>
    \<exists>t. path_offset ct (fst (locate ct r)) = Some (r - snd (locate ct r), t) \<and> snd (locate ct r) \<le> r \<and> snd (locate ct r) < csize t"
  "distinct (map fst ms) \<Longrightarrow> \<forall>m\<in>set ms. well_named (snd (snd m)) \<Longrightarrow> locate_member ms r = Some (p, q) \<Longrightarrow>
    \<exists>t. path_offset (CStruct s ms) p = Some (r - q, t) \<and> q \<le> r \<and> q < csize t"
proof (induction ct r and ms r arbitrary: and s p q rule: locate_locate_member.induct)
  case (2 s ms r)
  show ?case
  proof (cases "locate_member ms r")
    case None
    then show ?thesis
      using 2(3) by simp
  next
    case (Some x)
    then show ?thesis
      using 2 by (cases x) auto
  qed
next
  case (3 ns ct r)
  define k where "k = r div csize ct"
  have cs: "0 < csize ct" "k < prod_list ns"
    using 3(3) by (auto simp: k_def less_mult_imp_div_less intro: gr0I)
  obtain p q where pq: "locate ct (r mod csize ct) = (p, q)"
    by fastforce
  obtain t where t: "path_offset ct p = Some (r mod csize ct - q, t)" "q \<le> r mod csize ct" "q < csize t"
    using 3(1) [OF _] 3(2) cs(1) pq by auto
  have "k * csize ct + (r mod csize ct - q) = r - q"
    using t(2) div_mult_mod_eq [of r "csize ct"] by (simp add: k_def)
  then show ?case
    using path_offset_indices [OF cs(2), of ct p] t pq le_trans [OF t(2) mod_less_eq_dividend]
    by (simp add: k_def Let_def)
next
  case (5 f ofs ct ms r)
  show ?case
  proof (cases "ofs \<le> r \<and> r < ofs + csize ct")
    case True
    then obtain p' where p: "p = Field f # p'" "locate ct (r - ofs) = (p', q)"
      using 5(5) by (auto split: prod.splits)
    obtain t where "path_offset ct p' = Some (r - ofs - q, t)" "q \<le> r - ofs" "q < csize t"
      using 5(1) [OF True] 5(4) True p(2) by force
    then show ?thesis
      using True p by auto
  next
    case False
    then have "locate_member ms r = Some (p, q)"
      using 5(5) by (simp split: if_splits)
    then obtain t where t: "path_offset (CStruct s ms) p = Some (r - q, t)" "q \<le> r" "q < csize t"
      using 5(2) [OF False] 5(3,4) by fastforce
    obtain g p' where p: "p = Field g # p'" "map_of ms g \<noteq> None"
      using locate_member_Field [OF \<open>locate_member ms r = Some (p, q)\<close>] by (force simp: map_of_eq_None_iff)
    then have "g \<noteq> f"
      using 5(3) by (auto simp: map_of_eq_None_iff)
    then show ?thesis
      using t p by auto
  qed
qed auto

section \<open>Variables\<close>

text \<open>The location of a variable with a fixed address, and of one in the frame of its function.\<close>

definition at_address :: "dwarf \<Rightarrow> die \<Rightarrow> u64 \<Rightarrow> bool" where
  "at_address db d addr \<longleftrightarrow> (\<exists>a ld lr. dw_attr db d DW_AT_location = DW_OK a \<and> dw_exprloc db a = DW_OK [ld] \<and>
     ld_lopc ld < ld_hipc ld \<and> ld_s ld = [lr] \<and> lr_atom lr = DW_OP_addr \<and> lr_number lr = addr)"

lemma check_location_address:
  assumes "at_address db d addr" "have_dataptr (c_par c)" "dataptr (c_par c) = addr + of_nat r" "unat addr + r < 2 ^ 64"
  shows "check_location db d c = Inr (True, c\<lparr> c_residue := of_nat r \<rparr>)"
proof -
  have "r < 2 ^ 64"
    using assms(4) by simp
  then have "unat (addr + of_nat r) = unat addr + r"
    using assms(4) by (simp add: unat_word_ariths unat_of_nat_64)
  then have "addr \<le> addr + of_nat r"
    by (simp add: word_le_nat_alt)
  then show ?thesis
    using assms by (auto simp: at_address_def check_location_def)
qed

section \<open>The type that is searched\<close>

text \<open>The entries that follow an entry over its type: the type, the type of that, and so on to the end.\<close>

inductive type_chain :: "dwarf \<Rightarrow> die \<Rightarrow> die list \<Rightarrow> bool" for db where
  ends: "dwarf_follow_type_to_die db d = Inr None \<Longrightarrow> type_chain db d []"
| goes: "dwarf_follow_type_to_die db d = Inr (Some e) \<Longrightarrow> type_chain db e es \<Longrightarrow> type_chain db d (e # es)"

definition sequential :: "dwarf \<Rightarrow> die \<Rightarrow> bool" where
  "sequential db d \<longleftrightarrow> type_kind db d = DTK_POINTER \<or> type_kind db d = DTK_ARRAY"

text \<open>The symbolizer takes the last pointer or array of the chain, else its last entry.\<close>

definition aggregate_of :: "dwarf \<Rightarrow> die list \<Rightarrow> die option" where
  "aggregate_of db ds =
     (if ds = [] then None
      else if filter (sequential db) ds = [] then Some (last ds) else Some (last (filter (sequential db) ds)))"

lemma type_chain_end: "type_chain db d ds \<Longrightarrow> dwarf_follow_type_to_die db (last (d # ds)) = Inr None"
  by (induction rule: type_chain.induct) simp_all

lemma aggregate_loop_chain:
  "type_chain db e es \<Longrightarrow> last (e # es) \<noteq> d \<Longrightarrow>
   enough (\<lambda>n. \<forall>other array. aggregate_loop n db d other (Some e) array =
     Inr (if filter (sequential db) (e # es) \<noteq> [] then Some (last (filter (sequential db) (e # es)))
          else if array \<noteq> None then array else Some (last (e # es))))"
proof (induction rule: type_chain.induct)
  case (ends e)
  show ?case
    by (rule enough_all [THEN enough_Suc, THEN enough_Suc]) (use ends in \<open>auto simp: Let_def sequential_def [symmetric]\<close>)
next
  case (goes e e' es)
  then have "enough (\<lambda>n. \<forall>other array. aggregate_loop n db d other (Some e') array =
     Inr (if filter (sequential db) (e' # es) \<noteq> [] then Some (last (filter (sequential db) (e' # es)))
          else if array \<noteq> None then array else Some (last (e' # es))))"
    by simp
  then show ?case
    by (rule enough_mono [THEN enough_Suc]) (use goes.hyps in \<open>auto simp: Let_def sequential_def [symmetric]\<close>)
qed

lemma aggregate_chain:
  assumes "type_chain db d ds"
  shows "enough (\<lambda>n. dwarf_aggregate_or_base_type n db d = Inr (aggregate_of db ds))"
  using assms
proof cases
  case ends
  then show ?thesis
    by (intro enough_all [THEN enough_Suc]) (simp add: dwarf_aggregate_or_base_type_def aggregate_of_def)
next
  case (goes e es)
  have "last (e # es) \<noteq> d"
    using type_chain_end [OF goes(3)] goes(2) by auto
  from aggregate_loop_chain [OF goes(3) this] show ?thesis
    by (rule enough_mono) (use goes in \<open>simp add: dwarf_aggregate_or_base_type_def aggregate_of_def\<close>)
qed

text \<open>On the way over typedefs and qualifiers there are no pointers and no arrays.\<close>

lemma type_of_chain:
  "type_of db e td ct \<Longrightarrow> type_chain db td es \<Longrightarrow>
   \<exists>pre ce. type_chain db e ce \<and> e # ce = pre @ td # es \<and> filter (sequential db) pre = []"
proof (induction rule: type_at_type_of_members_at.inducts(2)
    [where ?P1.0 = "\<lambda>_ _. True" and ?P3.0 = "\<lambda>_ _ _. True"])
  case (here d ct)
  then show ?case
    by (intro exI [of _ "[]"] exI [of _ es]) simp
next
  case (via d t e td ct)
  then obtain pre ce where p: "type_chain db e ce" "e # ce = pre @ td # es" "filter (sequential db) pre = []"
    by blast
  have "\<not> sequential db d"
    using via.hyps by (simp add: sequential_def type_kind_def)
  then show ?case
    using p type_chain.goes [OF via.hyps(5) p(1)] by (intro exI [of _ "e # ce", THEN exI [of _ "d # pre"]]) simp
qed simp_all

lemma type_of_type_at: "type_of db e td ct \<Longrightarrow> type_at db td ct"
  by (induction rule: type_at_type_of_members_at.inducts(2)
    [where ?P1.0 = "\<lambda>_ _. True" and ?P3.0 = "\<lambda>_ _ _. True"]) simp_all

text \<open>
  A type is searched as it is when it has no pointer or array beneath it: an array or a pointer of
  scalars and structures, or the last entry of its chain.
\<close>

definition plain_type :: "dwarf \<Rightarrow> die \<Rightarrow> bool" where
  "plain_type db td \<longleftrightarrow>
     (\<exists>es. type_chain db td es \<and> (\<forall>e\<in>set es. \<not> sequential db e) \<and> (es = [] \<or> sequential db td))"

lemma plain_type_searched:
  assumes d: "dwarf_follow_type_to_die db d = Inr (Some e)" and t: "type_of db e td ct" and p: "plain_type db td"
  shows "enough (\<lambda>n. dwarf_aggregate_or_base_type n db d = Inr (Some td))"
proof -
  obtain es where es: "type_chain db td es" "filter (sequential db) es = []" "es = [] \<or> sequential db td"
    using p by (auto simp: plain_type_def filter_empty_conv)
  obtain pre ce where c: "type_chain db e ce" "e # ce = pre @ td # es" "filter (sequential db) pre = []"
    using type_of_chain [OF t es(1)] by blast
  have "aggregate_of db (pre @ td # es) = Some td"
    using es c(3) by (auto simp: aggregate_of_def)
  then show ?thesis
    using aggregate_chain [OF type_chain.goes [OF d c(1)]] by (simp add: c(2))
qed

text \<open>
  C33. The path that is printed designates the byte. For an address within a variable of fixed
  location whose type, behind typedefs and qualifiers, is a scalar, a pointer, a structure or an
  array, the symbolizer appends to the symbol a path of members and indices; evaluated as in C, the
  path leads to a part of the variable whose offset is the address less the rest that is left, and
  the rest is within the part. Where the outermost type is a structure and no member contains the
  address, nothing is printed. What an outermost array consists of and what an outermost pointer
  points to must not be pointers or arrays in turn: there the symbolizer searches the wrong type,
  as shown below.
\<close>

theorem printed_path_designates_the_byte:
  assumes "at_address db d addr" "have_dataptr (c_par c)" "dataptr (c_par c) = addr + of_nat r" "unat addr + r < 2 ^ 64"
    and "dwarf_follow_type_to_die db d = Inr (Some e)" "type_of db e td ct" "plain_type db td" "well_named ct" "r < csize ct"
  shows "\<exists>p q t. path_offset ct p = Some (r - q, t) \<and> q \<le> r \<and> q < csize t \<and>
    enough (\<lambda>n. print_data n db d c =
      Inr (if part_found ct r then print_symstk (push_dataptr (at_path p q c)) else at_path p q c))"
proof -
  define p where "p = fst (locate ct r)"
  define q where "q = snd (locate ct r)"
  obtain t where t: "path_offset ct p = Some (r - q, t)" "q \<le> r" "q < csize t"
    using locate_offset(1) [OF assms(8,9)] by (auto simp: p_def q_def)
  have at: "type_at db td ct"
    using assms(6) by (rule type_of_type_at)
  define c1 where "c1 = c\<lparr> c_residue := of_nat r \<rparr>"
  have path: "enough (\<lambda>n. walk_type n db td c1 = Inr (part_found ct r, at_path p q c1))"
    using walk_located(1) [OF at, unfolded located_def] assms(9) by (simp add: p_def q_def c1_def)
  have size: "enough (\<lambda>n. dwarf_type_size n db (Some td) = Inr (of_nat (csize ct), Some td))"
    using at by (rule type_size)
  have bound: "csize ct < 2 ^ 63"
    using at by (rule csize_bound)
  then have cmp: "0 < sint (of_nat (csize ct) :: u64)" "(of_nat r :: u64) < of_nat (csize ct)"
    using assms(9) le_of_nat_64 [of "csize ct" r] by (auto simp: sint_of_nat_64)
  obtain tag where tag: "dw_tag db td = DW_OK tag"
    using at by (cases rule: type_at.cases) auto
  have "at_path p q c1 = at_path p q c"
    by (simp add: at_path_def c1_def)
  then have step: "print_data n db d c = Inr (if part_found ct r then print_symstk (push_dataptr (at_path p q c)) else at_path p q c)"
    if "dwarf_aggregate_or_base_type n db d = Inr (Some td)" "dwarf_type_size n db (Some td) = Inr (of_nat (csize ct), Some td)"
      "walk_type n db td c1 = Inr (part_found ct r, at_path p q c1)" for n
  proof -
    have "\<not> \<not> (0 < sint (of_nat (csize ct) :: u64) \<and> c_residue c1 < of_nat (csize ct))"
      using cmp by (simp add: c1_def)
    then have "print_data n db d c = cbind (walk_type n db td c1) (\<lambda>(ok, c). Inr (if ok then print_symstk (push_dataptr c) else c))"
      unfolding print_data_def check_location_address [OF assms(1-4)] cbind_simps prod.case that(1,2) option.case tag dres.case
        walk_type_tag [OF tag] c1_def [symmetric] by (simp only: if_False not_True_eq_False simp_thms)
    then show ?thesis
      using \<open>at_path p q c1 = at_path p q c\<close> by (simp add: that(3))
  qed
  have "enough (\<lambda>n. print_data n db d c = Inr (if part_found ct r then print_symstk (push_dataptr (at_path p q c)) else at_path p q c))"
    using enough_conj [OF plain_type_searched [OF assms(5-7)] enough_conj [OF size path]] by (rule enough_mono) (elim conjE, rule step)
  then show ?thesis
    using t by (intro exI [of _ p] exI [of _ q] exI [of _ t] conjI)
qed

text \<open>
  A structure with a character and an array of two by three numbers of four bytes,
  \<open>struct { char c; int m[2][3]; } s\<close>, at the address \<open>0x1000\<close>.
\<close>

definition lookup :: "('a \<times> 'b) list \<Rightarrow> 'a \<Rightarrow> 'b dres" where
  "lookup xs k = (case map_of xs k of None \<Rightarrow> DW_NO_ENTRY | Some v \<Rightarrow> DW_OK v)"

text \<open>The attribute \<open>a\<close> of the entry \<open>d\<close> has the number \<open>256 d + a\<close>.\<close>

definition sample_dwarf :: dwarf where
  "sample_dwarf =
     \<lparr> dw_cus = [DW_OK 1],
       dw_siblingof = lookup [(2, 3), (3, 5), (5, 6), (6, 8), (4, 7), (9, 10)],
       dw_child = lookup [(1, 2), (3, 4), (6, 9)],
       dw_tag = lookup [(1, DW_TAG_compile_unit), (2, 0x34), (3, DW_TAG_structure_type), (4, DW_TAG_member), (5, DW_TAG_base_type),
         (6, DW_TAG_array_type), (7, DW_TAG_member), (8, DW_TAG_base_type), (9, DW_TAG_subrange_type), (10, DW_TAG_subrange_type)],
       dw_diename = lookup [(1, ''f.c''), (2, ''s''), (4, ''c''), (7, ''m''), (5, ''char''), (8, ''int'')],
       dw_attr = (\<lambda>d a. if (d, a) \<in> {(2, DW_AT_type), (2, DW_AT_location), (3, DW_AT_byte_size), (4, DW_AT_type),
           (4, DW_AT_data_member_location), (7, DW_AT_type), (7, DW_AT_data_member_location), (5, DW_AT_byte_size),
           (8, DW_AT_byte_size), (6, DW_AT_type), (9, DW_AT_count), (10, DW_AT_upper_bound)}
         then DW_OK (256 * d + a) else DW_NO_ENTRY),
       dw_whatform = (\<lambda>a. DW_OK 0x0b),
       dw_formudata = lookup [(256 * 3 + DW_AT_byte_size, 28), (256 * 4 + DW_AT_data_member_location, 0),
         (256 * 7 + DW_AT_data_member_location, 4), (256 * 5 + DW_AT_byte_size, 1), (256 * 8 + DW_AT_byte_size, 4),
         (256 * 9 + DW_AT_count, 2), (256 * 10 + DW_AT_upper_bound, 2)],
       dw_formaddr = (\<lambda>a. DW_ERROR),
       dw_global_formref = lookup [(256 * 2 + DW_AT_type, 3), (256 * 4 + DW_AT_type, 5), (256 * 7 + DW_AT_type, 6), (256 * 6 + DW_AT_type, 8)],
       dw_offdie = DW_OK,
       dw_exprloc = (\<lambda>a. DW_OK [\<lparr> ld_lopc = 0, ld_hipc = 0x400000, ld_s = [\<lparr> lr_atom = DW_OP_addr, lr_number = 0x1000, lr_number2 = 0 \<rparr>] \<rparr>]),
       dw_loclist_n = (\<lambda>a. DW_ERROR),
       dw_comp_dir = (\<lambda>d. DW_NO_ENTRY),
       dw_srclines = (\<lambda>d. DW_NO_ENTRY),
       dw_address_size = DW_OK 8,
       dw_op_name = (\<lambda>n. None),
       dw_fde_list = False, dw_fde_list_eh = False,
       dw_fde_at_pc = (\<lambda>pc. None), dw_fde_cfa = (\<lambda>fde pc. None) \<rparr>"

definition sample_type :: ctype where
  "sample_type = CStruct 28 [(''c'', 0, CScalar 1), (''m'', 4, CArray [2, 3] (CScalar 4))]"

lemmas sample_simps = sample_dwarf_def lookup_def get_unsigned_attribute_def data_form_def get_subrange_dimension_def
  dwarf_follow_type_to_die_def dwarf_follow_attr_to_die_def

lemma sample_type_at: "type_at sample_dwarf 3 sample_type"
proof -
  have char: "type_of sample_dwarf 5 5 (CScalar 1)"
    by (intro here scalar [of _ _ _ DW_TAG_base_type]) (simp_all add: sample_simps)
  have int: "type_of sample_dwarf 8 8 (CScalar 4)"
    by (intro here scalar [of _ _ _ DW_TAG_base_type]) (simp_all add: sample_simps)
  have dims: "dims_at sample_dwarf 9 [2, 3]"
    by (rule more [of _ _ _ 10]) (auto intro!: dims_at.last simp: sample_simps)
  have array: "type_of sample_dwarf 6 6 (CArray [2, 3] (CScalar 4))"
    by (intro here array [OF _ _ _ dims _ _ _ int]) (simp_all add: sample_simps)
  have "members_at sample_dwarf 28 4 [(''c'', 0, CScalar 1), (''m'', 4, CArray [2, 3] (CScalar 4))]"
    by (rule member [OF _ _ _ _ char _ _ last_member [where d = 7, OF _ _ _ _ array]]) (simp_all add: sample_simps)
  then show ?thesis
    unfolding sample_type_def by (intro struct) (simp_all add: sample_simps)
qed

definition data_at :: "u64 \<Rightarrow> wparams" where
  "data_at a = \<lparr> print_address = False, print_comp_dir = False, print_regex = False, have_dataptr = True, have_frameptr = False,
     have_insnptr = False, dataptr = a, frameptr = 0, insnptr = 0 \<rparr>"

definition sample_ctx :: wctx where
  "sample_ctx = (wctx_0 (data_at 0x1016) [])\<lparr> c_symstk := [''f.c'', '';;s''] \<rparr>"

theorem printed_path_designates_the_byte_witness:
  "\<exists>p q t. path_offset sample_type p = Some (22 - q, t) \<and> q \<le> 22 \<and> q < csize t \<and>
    enough (\<lambda>n. print_data n sample_dwarf 2 sample_ctx = Inr (print_symstk (push_dataptr (at_path p q sample_ctx))))"
proof -
  have "type_chain sample_dwarf 3 []"
    by (rule type_chain.ends) (simp add: sample_simps)
  then have "plain_type sample_dwarf 3"
    by (auto simp: plain_type_def)
  moreover have "at_address sample_dwarf 2 0x1000" "dwarf_follow_type_to_die sample_dwarf 2 = Inr (Some 3)"
    by (simp_all add: at_address_def sample_simps)
  ultimately show ?thesis
    using printed_path_designates_the_byte [of sample_dwarf 2 "0x1000" sample_ctx 22 3 3 sample_type, OF _ _ _ _ _ here [OF sample_type_at]]
    by (simp add: sample_ctx_def wctx_0_def data_at_def sample_type_def part_found_def)
qed

text \<open>The symbol of that address.\<close>

lemma sample_symbol:
  "map_option (map step_text \<circ> fst) (Some (locate sample_type 22)) = Some [''.m'', ''[1]'', ''[1]'']"
  by (simp add: sample_type_def fmt_dec_def digits.simps digit_char_def)

text \<open>
  The type that is searched is the last array or pointer on the way from a variable to its base type,
  and not the type of the variable. For \<open>int *a[4]\<close> it is the type of the elements, so that nothing
  is printed for an address in \<open>a[1]\<close>.
\<close>

definition pointers_dwarf :: dwarf where
  "pointers_dwarf = sample_dwarf\<lparr>
     dw_siblingof := lookup [(2, 3), (3, 5), (5, 6)],
     dw_child := lookup [(1, 2), (3, 4)],
     dw_tag := lookup [(1, DW_TAG_compile_unit), (2, 0x34), (3, DW_TAG_array_type), (4, DW_TAG_subrange_type),
       (5, DW_TAG_pointer_type), (6, DW_TAG_base_type)],
     dw_attr := (\<lambda>d a. if (d, a) \<in> {(2, DW_AT_type), (2, DW_AT_location), (3, DW_AT_type), (4, DW_AT_count), (5, DW_AT_type),
         (6, DW_AT_byte_size)} then DW_OK (256 * d + a) else DW_NO_ENTRY),
     dw_formudata := lookup [(256 * 4 + DW_AT_count, 4), (256 * 6 + DW_AT_byte_size, 4)],
     dw_global_formref := lookup [(256 * 2 + DW_AT_type, 3), (256 * 3 + DW_AT_type, 5), (256 * 5 + DW_AT_type, 6)] \<rparr>"

lemma array_of_pointers_types:
  "dwarf_type_size (Suc (Suc (Suc n))) pointers_dwarf (Some 3) = Inr (32, Some 3)"
  "dwarf_type_size (Suc n) pointers_dwarf (Some 5) = Inr (8, Some 5)"
  "dwarf_aggregate_or_base_type (Suc (Suc (Suc (Suc n)))) pointers_dwarf 2 = Inr (Some 5)"
  by (simp_all add: pointers_dwarf_def sample_simps dwarf_aggregate_or_base_type_def type_kind_def tag_or_exit_def
      dwarf_array_type_size_def next_sibling_def)

lemma array_of_pointers_not_found:
  "print_data (Suc (Suc (Suc (Suc n)))) pointers_dwarf 2 (wctx_0 (data_at 0x1008) []) =
     Inr ((wctx_0 (data_at 0x1008) [])\<lparr> c_residue := 8 \<rparr>)"
proof -
  have "check_location pointers_dwarf 2 (wctx_0 (data_at 0x1008) []) = Inr (True, (wctx_0 (data_at 0x1008) [])\<lparr> c_residue := of_nat 8 \<rparr>)"
    by (rule check_location_address [where addr = "0x1000"])
      (simp_all add: at_address_def pointers_dwarf_def sample_simps wctx_0_def data_at_def)
  then show ?thesis
    unfolding print_data_def
    by (simp add: array_of_pointers_types del: dwarf_type_size.simps cbind_eq_Inr)
qed

text \<open>
  For \<open>int (*p)[4]\<close> it is the array that is pointed to, four times the size of a number: the pointer's
  bytes have the path of the array's.
\<close>

definition pointee_dwarf :: dwarf where
  "pointee_dwarf = pointers_dwarf\<lparr>
     dw_siblingof := lookup [(2, 3), (3, 5), (5, 6)],
     dw_child := lookup [(1, 2), (5, 4)],
     dw_tag := lookup [(1, DW_TAG_compile_unit), (2, 0x34), (3, DW_TAG_pointer_type), (4, DW_TAG_subrange_type),
       (5, DW_TAG_array_type), (6, DW_TAG_base_type)] \<rparr>"

lemma pointer_to_array_types:
  "dwarf_type_size (Suc n) pointee_dwarf (Some 3) = Inr (8, Some 3)"
  "dwarf_type_size (Suc (Suc (Suc n))) pointee_dwarf (Some 5) = Inr (16, Some 5)"
  "dwarf_aggregate_or_base_type (Suc (Suc (Suc (Suc n)))) pointee_dwarf 2 = Inr (Some 5)"
  by (simp_all add: pointee_dwarf_def pointers_dwarf_def sample_simps dwarf_aggregate_or_base_type_def type_kind_def tag_or_exit_def
      dwarf_array_type_size_def next_sibling_def)

end
