(* ===== verification/Rvsyms_Walk_Laws.thy ===== *)
theory Rvsyms_Walk_Laws
  imports Rvsyms_Type_Laws "HOL-Library.Sublist"
begin

text \<open>
  The symbolizer's walk, with its stack of sixteen places and its stack of strings, is the recursive
  traversal of the tree of entries in which each entry sees the state that its parent left.
\<close>

section \<open>An entry only adds strings\<close>

definition adds :: "wctx \<Rightarrow> wctx \<Rightarrow> bool" where
  "adds c c' \<longleftrightarrow> prefix (c_symstk c) (c_symstk c')"

lemma adds_refl [simp, intro]: "adds c c"
  by (simp add: adds_def)

lemma adds_trans [trans]: "adds a b \<Longrightarrow> adds b c \<Longrightarrow> adds a c"
  unfolding adds_def by (rule prefix_order.trans)

lemma adds_push [simp]: "adds c (push s c')" if "adds c c'"
  using that by (simp add: adds_def push_def)

lemma adds_pushed: "adds (push s c) c' \<Longrightarrow> adds c c'"
  by (rule adds_trans [OF adds_push [OF adds_refl]])

lemma adds_update [simp]:
  "adds c (c'\<lparr> c_residue := r \<rparr>) = adds c c'" "adds (c\<lparr> c_residue := r \<rparr>) c' = adds c c'"
  "adds c (c'\<lparr> c_rstate := rs \<rparr>) = adds c c'" "adds c (print_symstk c') = adds c c'"
  by (simp_all add: adds_def print_symstk_def)

lemma adds_if: "adds c a \<Longrightarrow> adds c b \<Longrightarrow> adds c (if P then a else b)"
  by simp

lemma adds_index_loop: "index_loop es ds c = Inr (ok, c') \<Longrightarrow> adds c c'"
proof (induction es ds c arbitrary: ok c' rule: index_loop.induct)
  case (2 es d ds c)
  show ?case
  proof (cases "c_residue c \<ge> d \<or> (case ds of [] \<Rightarrow> es | d' # _ \<Rightarrow> d') = 0")
    case True
    then show ?thesis
      using 2(2) by (auto simp: Let_def split: if_splits)
  next
    case False
    define sz where "sz = (case ds of [] \<Rightarrow> es | d' # _ \<Rightarrow> d')"
    define idx where "idx = (ucast (c_residue c div sz) :: u32)"
    define c1 where "c1 = push (''['' @ fmt_int (sint idx) @ '']'') (c\<lparr> c_residue := c_residue c - scast idx * sz \<rparr>)"
    have "index_loop es ds c1 = Inr (ok, c')"
      using 2(2) False unfolding c1_def idx_def sz_def by (simp add: Let_def)
    then have "adds c1 c'"
      using 2(1) [OF sz_def _ _ idx_def] False by (simp add: c1_def sz_def)
    moreover have "adds c c1"
      by (simp add: c1_def)
    ultimately show ?thesis
      by (rule adds_trans [rotated])
  qed
qed simp

lemma adds_next_sibling:
  "next_sibling db child (False, c) k = Inr (ok, c') \<Longrightarrow> (\<And>s. k s = Inr (ok, c') \<Longrightarrow> adds c c') \<Longrightarrow> adds c c'"
  by (auto simp: next_sibling_def split: dres.splits)

lemma adds_walk:
  "walk_elements n db td c = Inr (ok, c') \<Longrightarrow> adds c c'"
  "walk_members n db td c = Inr (ok, c') \<Longrightarrow> adds c c'"
  "members_loop n db td c = Inr (ok, c') \<Longrightarrow> adds c c'"
proof (induction n arbitrary: td c ok c')
  case (Suc n)
  {
    case 1
    then show ?case
      by (auto split: dres.splits if_splits dest!: Suc.IH(1,2) adds_index_loop intro: adds_trans)
  next
    case 2
    then show ?case
      by (auto split: dres.splits dest: Suc.IH(3))
  next
    case 3
    have next1: "next_sibling db td (False, c) (\<lambda>s. members_loop n db s c) = Inr (ok, c') \<Longrightarrow> adds c c'"
      by (erule adds_next_sibling) (rule Suc.IH(3))
    show ?case
      using 3 next1
      by (auto simp: Let_def split: if_splits option.splits dres.splits dest!: Suc.IH(1,2) dest: adds_pushed)
  }
qed simp_all

lemma adds_print_op: "adds c (print_op db lr c)"
  by (auto simp: print_op_def Let_def)

lemma adds_fold: "(\<And>x c. adds c (f x c)) \<Longrightarrow> adds c (fold f xs c)"
  by (induction xs arbitrary: c) (auto intro: adds_trans)

lemma adds_check_location: "check_location db d c = Inr (found, c') \<Longrightarrow> adds c c'"
  by (auto simp: check_location_def Let_def print_ops_def intro!: adds_fold adds_print_op
      split: dres.splits if_splits)

lemma adds_push_name: "adds c (push_name db d tag name c)"
  by (auto simp: push_name_def push_comp_dir_def frame_base_def Let_def split: dres.splits list.splits)

lemma adds_push_dataptr: "adds c c' \<Longrightarrow> adds c (push_dataptr c')"
  by (simp add: push_dataptr_def Let_def)

lemma adds_push_insnptr: "adds c c' \<Longrightarrow> adds c (push_insnptr c')"
  by (simp add: push_insnptr_def Let_def)

lemma adds_push_comp_dir: "adds c c' \<Longrightarrow> adds c (push_comp_dir dir c')"
  by (simp add: push_comp_dir_def split: dres.split)

lemma adds_push_line: "adds c c' \<Longrightarrow> adds c (push_line l c')"
  by (simp add: push_line_def Let_def)

text \<open>What holds of the result of a function that returns.\<close>

definition ret_only :: "('a \<Rightarrow> bool) \<Rightarrow> 'a cres \<Rightarrow> bool" where
  "ret_only P r \<longleftrightarrow> (\<forall>y. r = Inr y \<longrightarrow> P y)"

lemma ret_only_simps [simp]: "ret_only P (Inr y) = P y" "ret_only P (Inl e)"
  by (simp_all add: ret_only_def)

lemma ret_cbind: "ret_only Q r \<Longrightarrow> (\<And>y. Q y \<Longrightarrow> ret_only P (f y)) \<Longrightarrow> ret_only P (cbind r f)"
  by (cases r) (simp_all add: ret_only_def)

lemma ret_cbind_any: "(\<And>y. ret_only P (f y)) \<Longrightarrow> ret_only P (cbind r f)"
  by (cases r) simp_all

lemma ret_if: "(b \<Longrightarrow> ret_only P x) \<Longrightarrow> (\<not> b \<Longrightarrow> ret_only P y) \<Longrightarrow> ret_only P (if b then x else y)"
  by simp

lemma ret_option:
  "(v = None \<Longrightarrow> ret_only P x) \<Longrightarrow> (\<And>y. v = Some y \<Longrightarrow> ret_only P (f y)) \<Longrightarrow> ret_only P (case v of None \<Rightarrow> x | Some y \<Rightarrow> f y)"
  by (cases v) simp_all

lemma ret_pair: "(\<And>a b. v = (a, b) \<Longrightarrow> ret_only P (f a b)) \<Longrightarrow> ret_only P (case v of (a, b) \<Rightarrow> f a b)"
  by (cases v) simp

lemma ret_dres:
  "(\<And>y. v = DW_OK y \<Longrightarrow> ret_only P (f y)) \<Longrightarrow> ret_only P x \<Longrightarrow> ret_only P z \<Longrightarrow>
    ret_only P (case v of DW_OK y \<Rightarrow> f y | DW_NO_ENTRY \<Rightarrow> x | DW_ERROR \<Rightarrow> z)"
  by (cases v) simp_all

lemma adds_print_data: "ret_only (adds c) (print_data n db d c)"
proof -
  have walks: "ret_only (\<lambda>(ok, c'). adds c c')
      (if tag = DW_TAG_structure_type then walk_members n db td c1
       else if tag = DW_TAG_array_type then walk_elements n db td c1 else Inr (True, c1))"
    if "adds c c1" for tag td c1
    using that adds_trans [OF that] by (auto simp: ret_only_def dest: adds_walk(1,2))
  show ?thesis
    unfolding print_data_def
  proof (rule ret_cbind [where Q = "\<lambda>(found, c'). adds c c'"])
    show "ret_only (\<lambda>(found, c'). adds c c') (check_location db d c)"
      by (auto simp: ret_only_def dest: adds_check_location)
  qed (auto intro!: ret_cbind_any [of P f "dwarf_aggregate_or_base_type n db d" for P f]
        ret_cbind_any [of P f "dwarf_type_size n db td" for P f td]
        ret_pair ret_if ret_option ret_dres ret_cbind [OF walks] adds_push_dataptr)
qed

lemma adds_popto: "adds c c' \<Longrightarrow> adds c (popto (length (c_symstk c)) c')"
  by (auto simp: adds_def popto_def prefix_def)

text \<open>The law of the visitor on which the walk relies.\<close>

lemma adds_print_die_data: "ret_only (adds c) (print_die_data n db d c)"
proof -
  have data: "ret_only (adds c) (print_data n db d c1)" if "adds c c1" for c1
    using adds_print_data [of c1 n db d] adds_trans [OF that] by (auto simp: ret_only_def)
  have rest: "ret_only (adds c)
      (case line of Some l \<Rightarrow> Inr (push_line l (push_comp_dir dir c1))
       | None \<Rightarrow> if P then Inr (if Q then print_symstk (push_insnptr c1) else c1) else print_data n db d c1)"
    if "adds c c1" for line dir P Q c1
    using that data by (auto intro: adds_push_insnptr adds_push_line adds_push_comp_dir split: option.split)
  show ?thesis
    unfolding print_die_data_def Let_def
    by (intro ret_cbind_any [of P f "tag_or_exit db (Some d)" for P f] ret_cbind_any [of P f "die_name db d tag" for P f tag]
        ret_cbind_any [of P f "pc_range db d" for P f]
        ret_cbind_any [of P f "if b then check_line db d c1 else Inr None" for P f b c1] ret_option ret_cbind [OF rest])
      (auto simp: adds_push_name adds_popto)
qed

section \<open>Trees of entries\<close>

datatype dtree = DNode (root: die) (children: "dtree list")

text \<open>The recursive traversal. \<open>rs\<close> and \<open>ss\<close> are the state and the strings that the parent left.\<close>

type_synonym visitor = "die \<Rightarrow> wctx \<Rightarrow> wctx cres"

definition left_state :: "wctx \<Rightarrow> rstate" where
  "left_state c = (c_rstate c)\<lparr> rs_depth := length (c_symstk c) \<rparr>"

fun visit_tree :: "visitor \<Rightarrow> dtree \<Rightarrow> wctx \<Rightarrow> wctx cres"
  and visit_forest :: "visitor \<Rightarrow> rstate \<Rightarrow> string list \<Rightarrow> dtree list \<Rightarrow> wctx \<Rightarrow> wctx cres" where
    "visit_tree v (DNode d ts) c = cbind (v d c) (\<lambda>c. visit_forest v (left_state c) (c_symstk c) ts c)"
  | "visit_forest v rs ss [] c = Inr c"
  | "visit_forest v rs ss (t # ts) c =
       cbind (visit_tree v t (c\<lparr> c_rstate := rs, c_symstk := ss \<rparr>)) (visit_forest v rs ss ts)"

definition first_die :: "dtree list \<Rightarrow> die option" where
  "first_die ts = (case ts of [] \<Rightarrow> None | t # _ \<Rightarrow> Some (root t))"

definition as_dres :: "'a option \<Rightarrow> 'a dres" where
  "as_dres x = (case x of None \<Rightarrow> DW_NO_ENTRY | Some y \<Rightarrow> DW_OK y)"

text \<open>The library describes a tree, or the siblings of a forest.\<close>

fun tree_in :: "dwarf \<Rightarrow> dtree \<Rightarrow> bool" and forest_in :: "dwarf \<Rightarrow> dtree list \<Rightarrow> bool" where
    "tree_in db (DNode d ts) \<longleftrightarrow> dw_child db d = as_dres (first_die ts) \<and> forest_in db ts"
  | "forest_in db [] \<longleftrightarrow> True"
  | "forest_in db (t # ts) \<longleftrightarrow> tree_in db t \<and> dw_siblingof db (root t) = as_dres (first_die ts) \<and> forest_in db ts"

fun tree_height :: "dtree \<Rightarrow> nat" and forest_height :: "dtree list \<Rightarrow> nat" where
    "tree_height (DNode d ts) = Suc (forest_height ts)"
  | "forest_height [] = 0"
  | "forest_height (t # ts) = max (tree_height t) (forest_height ts)"

fun tree_size :: "dtree \<Rightarrow> nat" and forest_size :: "dtree list \<Rightarrow> nat" where
    "tree_size (DNode d ts) = Suc (forest_size ts)"
  | "forest_size [] = 0"
  | "forest_size (t # ts) = tree_size t + forest_size ts"

text \<open>The compilation units: each is a tree of its own, without siblings.\<close>

definition units_in :: "dwarf \<Rightarrow> dtree list \<Rightarrow> bool" where
  "units_in db us \<longleftrightarrow> dw_cus db = map (\<lambda>t. DW_OK (root t)) us \<and>
     (\<forall>t\<in>set us. forest_in db [t] \<and> tree_height t \<le> 16)"

section \<open>The stack of the walk\<close>

text \<open>
  A frame is a place of the stack: the state and the strings its entries are visited with, and the
  trees that are still to visit. The first frame of the list is the top; the bottom one is the place
  of the compilation unit, whose state is not used any more.
\<close>

type_synonym frame = "rstate \<times> string list \<times> dtree list"

fun frames_in :: "dwarf \<Rightarrow> (die option \<times> rstate) list \<Rightarrow> string list \<Rightarrow> frame list \<Rightarrow> bool" where
    "frames_in db st cur [] \<longleftrightarrow> True"
  | "frames_in db st cur ((rs, ss, ts) # fs) \<longleftrightarrow>
       fst (st ! length fs) = first_die ts \<and> forest_in db ts \<and> length fs + forest_height ts \<le> 16 \<and>
       (if fs = [] then ts = []
        else snd (st ! length fs) = rs \<and> rs_depth rs = length ss \<and> prefix ss cur \<and> frames_in db st ss fs)"

fun visit_frames :: "visitor \<Rightarrow> frame list \<Rightarrow> dtree list \<Rightarrow> wctx \<Rightarrow> wctx cres" where
    "visit_frames v [] us c = visit_forest v rstate_0 [] us c"
  | "visit_frames v ((rs, ss, ts) # fs) us c = cbind (visit_forest v rs ss ts c) (visit_frames v fs us)"

fun frames_size :: "frame list \<Rightarrow> nat" where
    "frames_size [] = 0"
  | "frames_size ((rs, ss, ts) # fs) = forest_size ts + frames_size fs"

definition walk_in :: "dwarf \<Rightarrow> walk \<Rightarrow> frame list \<Rightarrow> bool" where
  "walk_in db w fs \<longleftrightarrow> w_height w = length fs \<and> length fs \<le> 16 \<and> length (w_stack w) = 16 \<and> w_cu_by_cu w \<and>
     w_pushp w = None \<and> frames_in db (w_stack w) (c_symstk (w_ctx w)) fs \<and>
     (fs = [] \<longrightarrow> c_rstate (w_ctx w) = rstate_0 \<and> c_symstk (w_ctx w) = [])"

definition no_trees :: "frame \<Rightarrow> bool" where
  "no_trees f \<longleftrightarrow> snd (snd f) = []"

lemma visit_frames_drop: "visit_frames v (dropWhile no_trees fs) us c = visit_frames v fs us c"
  by (induction fs) (auto simp: no_trees_def)

lemma visit_frames_empty [simp]: "visit_frames v ((rs, ss, []) # fs) us = visit_frames v fs us"
  by (rule ext) simp

lemma frames_size_drop: "frames_size (dropWhile no_trees fs) = frames_size fs"
  by (induction fs) (auto simp: no_trees_def)

lemma frames_in_prefix: "frames_in db st cur fs \<Longrightarrow> prefix cur cur' \<Longrightarrow> frames_in db st cur' fs"
  by (cases fs) (auto intro: prefix_order.trans split: if_splits)

lemma first_die_Nil [simp]: "first_die [] = None"
  by (simp add: first_die_def)

lemma first_die_None [simp]: "first_die ts = None \<longleftrightarrow> ts = []"
  by (cases ts) (simp_all add: first_die_def)

text \<open>Contexts that differ in the state and the strings only.\<close>

definition restates :: "wctx \<Rightarrow> wctx \<Rightarrow> bool" where
  "restates c c' \<longleftrightarrow> c_residue c' = c_residue c \<and> c_par c' = c_par c \<and> c_out c' = c_out c"

lemma restates_eq: "restates c c' \<Longrightarrow> c' = c\<lparr> c_rstate := c_rstate c', c_symstk := c_symstk c' \<rparr>"
  by (simp add: restates_def)

lemma unwind_frames:
  assumes "walk_in db w fs"
  shows "walk_in db (unwind w) (dropWhile no_trees fs) \<and> w_cu (unwind w) = w_cu w \<and>
    restates (w_ctx w) (w_ctx (unwind w))"
  using assms
proof (induction fs arbitrary: w)
  case Nil
  then have "unwind w = w"
    by (simp add: walk_in_def unwind.simps [of w])
  then show ?case
    using Nil by (simp add: restates_def)
next
  case (Cons f fs)
  obtain rs ss ts where f: "f = (rs, ss, ts)"
    by (cases f)
  have h: "w_height w = Suc (length fs)" "fst (w_stack w ! length fs) = first_die ts"
    using Cons.prems by (simp_all add: walk_in_def f)
  show ?case
  proof (cases "ts = []")
    case False
    then have "unwind w = w" "dropWhile no_trees (f # fs) = f # fs"
      using h by (simp_all add: unwind.simps [of w] no_trees_def f)
    then show ?thesis
      using Cons.prems by (simp add: restates_def)
  next
    case True
    define rs1 where "rs1 = (if fs \<noteq> [] then snd (w_stack w ! (length fs - 1)) else rstate_0)"
    define w1 where "w1 = resume rs1 (w\<lparr> w_height := length fs \<rparr>)"
    have step: "unwind w = unwind w1"
      using True h unfolding w1_def rs1_def by (simp add: unwind.simps [of w] Let_def)
    have "frames_in db (w_stack w) (take (rs_depth rs1) (c_symstk (w_ctx w))) fs"
    proof (cases fs)
      case Nil
      then show ?thesis by simp
    next
      case (Cons g gs)
      obtain rs' ss' ts' where g: "g = (rs', ss', ts')"
        by (cases g)
      have fr: "frames_in db (w_stack w) ss fs" "prefix ss (c_symstk (w_ctx w))"
        using Cons.prems Cons by (simp_all add: walk_in_def f)
      show ?thesis
      proof (cases "gs = []")
        case True
        then show ?thesis
          using fr(1) by (simp add: Cons g)
      next
        case False
        then have "rs1 = rs'" "rs_depth rs' = length ss'" "prefix ss' ss"
          using fr(1) by (simp_all add: rs1_def Cons g)
        then have "take (rs_depth rs1) (c_symstk (w_ctx w)) = ss'"
          using fr(2) by (auto simp: prefix_def)
        then show ?thesis
          using fr(1) False by (simp add: Cons g)
      qed
    qed
    then have w1: "walk_in db w1 fs"
      using Cons.prems by (auto simp: walk_in_def w1_def resume_def popto_def rs1_def rstate_0_def)
    have "w_cu w1 = w_cu w" "dropWhile no_trees (f # fs) = dropWhile no_trees fs"
      "restates (w_ctx w) (w_ctx w1)"
      using True by (simp_all add: w1_def resume_def popto_def no_trees_def restates_def f)
    then show ?thesis
      using Cons.IH [OF w1] unfolding step by (simp add: restates_def)
  qed
qed

lemma frames_in_update: "length fs \<le> i \<Longrightarrow> frames_in db (st[i := x]) cur fs = frames_in db st cur fs"
  by (induction fs arbitrary: cur) auto

lemma push_child_frames:
  assumes "dw_child db d = as_dres (first_die us)" "length (w_stack w) = 16" "w_height w + forest_height us \<le> 16"
  shows "push_child db d w = Inr (if us = [] then w
    else set_die (w_height w) (first_die us) (w\<lparr> w_pushp := Some (w_height w), w_height := w_height w + 1 \<rparr>))"
proof (cases us)
  case Nil
  then show ?thesis
    using assms(1) by (simp add: push_child_def as_dres_def first_die_def)
next
  case (Cons t ts)
  then have "0 < forest_height us"
    by (cases t) simp
  then show ?thesis
    using assms Cons by (simp add: push_child_def as_dres_def first_die_def)
qed

text \<open>The visited entry has children: a place is pushed, and gets its state when the visit is over.\<close>

lemma walk_in_child:
  assumes "w_height w = length fs" "length (w_stack w) = 16" "w_cu_by_cu w" "fs \<noteq> []" "us \<noteq> []"
    and "frames_in db (w_stack w) ss fs" "forest_in db us" "length fs + forest_height us \<le> 16" "prefix ss (c_symstk c)"
  shows "walk_in db (save_rstate
      (set_die (length fs) (first_die us) (w\<lparr> w_pushp := Some (length fs), w_height := length fs + 1 \<rparr>)\<lparr> w_ctx := c \<rparr>))
    ((left_state c, c_symstk c, us) # fs)"
proof -
  have "0 < forest_height us"
    using assms(5) by (cases us; cases "hd us") auto
  then have "length fs < 16"
    using assms(8) by simp
  moreover have "frames_in db (w_stack w) (c_symstk c) fs"
    using assms(6,9) by (rule frames_in_prefix)
  ultimately show ?thesis
    using assms by (simp add: walk_in_def save_rstate_def set_die_def left_state_def frames_in_update)
qed

definition outcome :: "wctx cres \<Rightarrow> string list cres" where
  "outcome r = cbind r (\<lambda>c. Inr (c_out c))"

lemma outcome_cbind: "outcome (cbind r f) = cbind r (\<lambda>c. outcome (f c))"
  by (simp add: outcome_def cbind_assoc)

lemma outcome_visit_forest: "outcome (visit_forest v rs ss ts (c\<lparr> c_rstate := a, c_symstk := b \<rparr>)) = outcome (visit_forest v rs ss ts c)"
  by (cases ts) (simp_all add: outcome_def)

lemma outcome_visit_frames: "outcome (visit_frames v fs us (c\<lparr> c_rstate := a, c_symstk := b \<rparr>)) = outcome (visit_frames v fs us c)"
proof (induction fs)
  case Nil
  then show ?case by (simp add: outcome_visit_forest)
next
  case (Cons f fs)
  obtain rs ss ts where f: "f = (rs, ss, ts)"
    by (cases f)
  show ?case
    by (cases ts) (simp_all add: f Cons)
qed

lemma save_rstate_same [simp]: "w_ctx (save_rstate w) = w_ctx w" "w_cu (save_rstate w) = w_cu w"
  by (auto simp: save_rstate_def split: option.split)

text \<open>One round of the loop: the entry that is taken, and the stack after its visit.\<close>

definition next_unit :: "dtree list \<Rightarrow> dwarf \<Rightarrow> nat \<Rightarrow> bool" where
  "next_unit us db i \<longleftrightarrow> drop i (dw_cus db) = map (\<lambda>t. DW_OK (root t)) us \<and>
     (\<forall>t\<in>set us. forest_in db [t] \<and> tree_height t \<le> 16)"

lemma take_unit:
  assumes "walk_in db w []" "next_unit (DNode d ts # us) db (w_cu w)"
  obtains w' where "take_last db w = Inr (Some d, w')" "w_ctx w' = w_ctx w" "w_cu w' = w_cu w + 1"
    "w_height w' = 1" "w_pushp w' = Some 0" "length (w_stack w') = 16" "w_cu_by_cu w'" "fst (w_stack w' ! 0) = None"
    "next_unit us db (w_cu w')"
proof -
  have d: "drop (w_cu w) (dw_cus db) = DW_OK d # map (\<lambda>t. DW_OK (root t)) us"
    using assms(2) by (simp add: next_unit_def)
  then have i: "w_cu w < length (dw_cus db)"
    by (metis drop_all linorder_not_less list.distinct(1))
  then have "dw_cus db ! w_cu w = DW_OK d" "drop (Suc (w_cu w)) (dw_cus db) = map (\<lambda>t. DW_OK (root t)) us"
    using d by (simp_all add: Cons_nth_drop_Suc [symmetric])
  moreover have "(w_ctx w)\<lparr> c_rstate := (c_rstate (w_ctx w))\<lparr> rs_lopc := 0, rs_hipc := 0 \<rparr> \<rparr> = w_ctx w"
    using assms(1) by (simp add: walk_in_def rstate_0_def)
  ultimately show ?thesis
    using assms i by (intro that [of "set_die 0 None (w\<lparr> w_cu := w_cu w + 1,
        w_ctx := (w_ctx w)\<lparr> c_rstate := (c_rstate (w_ctx w))\<lparr> rs_lopc := 0, rs_hipc := 0 \<rparr> \<rparr>,
        w_height := 1, w_pushp := Some 0 \<rparr>)"])
      (simp_all add: take_last_def walk_in_def set_die_def next_unit_def)
qed

lemma siblings_none:
  assumes "dw_siblingof db d = DW_NO_ENTRY" "take_last db (unwind (save_rstate w)) = Inr (Some d, w1)"
  shows "dwarf_walk_next_in_tree db w = cbind (push_child db d (set_die (w_height w1 - 1) None w1)) (\<lambda>w. Inr (Some d, w))"
  using assms by (simp add: dwarf_walk_next_in_tree_def)

lemma walk_next_1: "dwarf_walk_next 1 None db w = dwarf_walk_next_in_tree db w"
  by (cases "dwarf_walk_next_in_tree db w") (auto split: option.split)

lemma next_in_tree:
  assumes "dw_siblingof db d = as_dres (first_die ts)" "take_last db (unwind (save_rstate w)) = Inr (Some d, w1)"
    and "dw_child db d = as_dres (first_die us)" "length (w_stack w1) = 16" "w_height w1 + forest_height us \<le> 16"
  shows "dwarf_walk_next 1 None db w = Inr (Some d,
    let w = set_die (w_height w1 - 1) (first_die ts) w1 in
    if us = [] then w else set_die (w_height w) (first_die us) (w\<lparr> w_pushp := Some (w_height w), w_height := w_height w + 1 \<rparr>))"
proof -
  define w2 where "w2 = set_die (w_height w1 - 1) (first_die ts) w1"
  have sib: "(case dw_siblingof db d of DW_OK s \<Rightarrow> Inr (set_die (w_height w1 - 1) (Some s) w1)
      | DW_NO_ENTRY \<Rightarrow> Inr (set_die (w_height w1 - 1) None w1) | DW_ERROR \<Rightarrow> Inl Exited) = Inr w2"
    unfolding assms(1) w2_def by (cases ts) (simp_all add: as_dres_def first_die_def)
  have "length (w_stack w2) = 16" "w_height w2 = w_height w1"
    using assms(4) by (simp_all add: w2_def set_die_def)
  then show ?thesis
    using push_child_frames [OF assms(3), of w2] assms(5)
    unfolding walk_next_1 dwarf_walk_next_in_tree_def assms(2) cbind_simps prod.case option.case sib
    by (simp add: w2_def [symmetric] del: cbind_eq_Inr One_nat_def)
qed

lemma die_loop_step:
  assumes "dwarf_walk_next 1 None db w = Inr (Some d, w')"
  shows "die_loop n (Suc k) db w = cbind (print_die_data n db d (w_ctx w')) (\<lambda>c. die_loop n k db (w'\<lparr> w_ctx := c \<rparr>))"
  unfolding die_loop.simps assms by simp

text \<open>The stack after the visit of a compilation unit.\<close>

lemma after_unit:
  assumes "w_height w = 1" "w_pushp w = Some 0" "length (w_stack w) = 16" "w_cu_by_cu w" "fst (w_stack w ! 0) = None"
    and "forest_in db ts" "1 + forest_height ts \<le> 16"
  defines "w' \<equiv> (let w = set_die 0 None w in
    if ts = [] then w else set_die (w_height w) (first_die ts) (w\<lparr> w_pushp := Some (w_height w), w_height := w_height w + 1 \<rparr>))"
  shows "\<exists>fs. walk_in db (save_rstate (w'\<lparr> w_ctx := c \<rparr>)) fs \<and> frames_size fs = forest_size ts \<and>
    (\<forall>v us. visit_frames v fs us c = cbind (visit_forest v (left_state c) (c_symstk c) ts c) (visit_frames v [] us))"
proof (cases "ts = []")
  case True
  then have "walk_in db (save_rstate (w'\<lparr> w_ctx := c \<rparr>)) [(left_state c, c_symstk c, ts)]"
    using assms(1-5) by (simp add: w'_def walk_in_def save_rstate_def set_die_def)
  then show ?thesis
    by (intro exI [of _ "[(left_state c, c_symstk c, ts)]"]) simp
next
  case False
  define w2 where "w2 = set_die 0 None w"
  have w2: "w_height w2 = length [(rstate_0, [], [])]" "length (w_stack w2) = 16" "w_cu_by_cu w2"
    "frames_in db (w_stack w2) [] [(rstate_0, [], [])]"
    using assms(1-5) by (simp_all add: w2_def set_die_def first_die_def)
  have "walk_in db (save_rstate (w'\<lparr> w_ctx := c \<rparr>)) [(left_state c, c_symstk c, ts), (rstate_0, [], [])]"
    using walk_in_child [OF w2(1-3) _ False w2(4) assms(6), of c] assms(7) w2(1) False
    by (simp add: w'_def w2_def [symmetric] Let_def)
  then show ?thesis
    by (intro exI [of _ "[(left_state c, c_symstk c, ts), (rstate_0, [], [])]"]) simp
qed

text \<open>The stack after the visit of another entry.\<close>

lemma after_visit:
  assumes "w_height w = length ((rs, ss, DNode d ts # us) # fs)" "length (w_stack w) = 16" "w_cu_by_cu w" "w_pushp w = None" "fs \<noteq> []"
    and "length fs < 16" "frames_in db (w_stack w) ss ((rs, ss, DNode d ts # us) # fs)" "prefix ss (c_symstk c)"
  defines "w' \<equiv> (let w = set_die (w_height w - 1) (first_die us) w in
    if ts = [] then w else set_die (w_height w) (first_die ts) (w\<lparr> w_pushp := Some (w_height w), w_height := w_height w + 1 \<rparr>))"
  shows "\<exists>fs'. walk_in db (save_rstate (w'\<lparr> w_ctx := c \<rparr>)) fs' \<and> frames_size fs' = forest_size ts + frames_size ((rs, ss, us) # fs) \<and>
    (\<forall>v us'. visit_frames v fs' us' c =
      cbind (visit_forest v (left_state c) (c_symstk c) ts c) (visit_frames v ((rs, ss, us) # fs) us'))"
proof -
  define gs where "gs = (rs, ss, us) # fs"
  define w2 where "w2 = set_die (w_height w - 1) (first_die us) w"
  have w2: "w_height w2 = length gs" "length (w_stack w2) = 16" "w_cu_by_cu w2" "gs \<noteq> []" "w_pushp w2 = None"
    "length gs \<le> 16"
    using assms(1-6) by (simp_all add: w2_def set_die_def gs_def)
  have "frames_in db (w_stack w2) ss gs"
    using assms(1,2,5,6,7) by (simp add: w2_def set_die_def gs_def frames_in_update nat_add_max_right)
  then have fr: "frames_in db (w_stack w2) ss gs" "frames_in db (w_stack w2) (c_symstk c) gs"
    using frames_in_prefix assms(8) by auto
  have ts: "forest_in db ts" "length gs + forest_height ts \<le> 16"
    using assms(7) by (simp_all add: gs_def nat_add_max_right)
  show ?thesis
  proof (cases "ts = []")
    case True
    then have "w' = w2"
      by (simp add: w'_def w2_def)
    then have "walk_in db (save_rstate (w'\<lparr> w_ctx := c \<rparr>)) gs"
      using w2 fr by (simp add: walk_in_def save_rstate_def)
    then show ?thesis
      using True by (intro exI [of _ gs]) (simp add: gs_def)
  next
    case False
    then have "walk_in db (save_rstate (w'\<lparr> w_ctx := c \<rparr>)) ((left_state c, c_symstk c, ts) # gs)"
      using walk_in_child [OF w2(1-4) False fr(1) ts assms(8)] w2(1) False
      unfolding w'_def w2_def [symmetric] Let_def by simp
    then show ?thesis
      by (intro exI [of _ "(left_state c, c_symstk c, ts) # gs"]) (simp add: gs_def)
  qed
qed

lemma die_loop_frames:
  assumes "walk_in db (save_rstate w) fs" "next_unit us db (w_cu w)" "frames_size fs + forest_size us < k"
  shows "die_loop n k db w = outcome (visit_frames (print_die_data n db) fs us (w_ctx w))"
  using assms
proof (induction k arbitrary: w fs us)
  case (Suc k)
  define v where "v = print_die_data n db"
  define w1 where "w1 = unwind (save_rstate w)"
  define fs1 where "fs1 = dropWhile no_trees fs"
  have w1: "walk_in db w1 fs1" "w_cu w1 = w_cu w" "restates (w_ctx w) (w_ctx w1)"
    using unwind_frames [OF Suc.prems(1)] by (simp_all add: w1_def fs1_def)
  have spec: "outcome (visit_frames v fs us (w_ctx w)) = outcome (visit_frames v fs1 us (w_ctx w1))"
    using restates_eq [OF w1(3)] outcome_visit_frames [where c = "w_ctx w" and v = v and fs = fs1 and us = us] by (metis fs1_def visit_frames_drop)
  have size: "frames_size fs1 + forest_size us < Suc k"
    using Suc.prems(3) by (simp add: fs1_def frames_size_drop)
  show ?case
  proof (cases fs1)
    case Nil
    have start: "c_rstate (w_ctx w1) = rstate_0" "c_symstk (w_ctx w1) = []"
      using w1(1) by (simp_all add: walk_in_def Nil)
    show ?thesis
    proof (cases us)
      case us: Nil
      then have "take_last db w1 = Inr (None, w1)"
        using w1 Suc.prems(2) by (simp add: take_last_def walk_in_def Nil next_unit_def)
      then show ?thesis
        using spec unfolding v_def
        by (simp add: dwarf_walk_next_in_tree_def w1_def [symmetric] Nil us outcome_def del: cbind_eq_Inr)
    next
      case (Cons t us1)
      obtain d ts where t: "t = DNode d ts"
        by (cases t)
      have "walk_in db w1 []" "next_unit (DNode d ts # us1) db (w_cu w1)"
        using w1 Suc.prems(2) by (simp_all add: Nil Cons t)
      then obtain w2 where w2: "take_last db w1 = Inr (Some d, w2)" "w_ctx w2 = w_ctx w1" "w_height w2 = 1" "w_pushp w2 = Some 0"
        "length (w_stack w2) = 16" "w_cu_by_cu w2" "fst (w_stack w2 ! 0) = None" "next_unit us1 db (w_cu w2)"
        by (rule take_unit) blast
      have u: "dw_siblingof db d = as_dres (first_die [])" "dw_child db d = as_dres (first_die ts)" "forest_in db ts"
        "1 + forest_height ts \<le> 16"
        using Suc.prems(2) by (simp_all add: next_unit_def Cons t)
      define w3 where "w3 = (let w = set_die 0 None w2 in
        if ts = [] then w else set_die (w_height w) (first_die ts) (w\<lparr> w_pushp := Some (w_height w), w_height := w_height w + 1 \<rparr>))"
      have "dwarf_walk_next 1 None db w = Inr (Some d, w3)"
        using next_in_tree [OF u(1) w2(1) [unfolded w1_def] u(2) w2(5)] w2(3) u(4) by (simp add: w3_def)
      moreover have w3: "w_ctx w3 = w_ctx w1" "w_cu w3 = w_cu w2"
        by (simp_all add: w3_def Let_def set_die_def w2(2))
      ultimately have "die_loop n (Suc k) db w = cbind (v d (w_ctx w1)) (\<lambda>c. die_loop n k db (w3\<lparr> w_ctx := c \<rparr>))"
        unfolding v_def by (simp only: die_loop_step)
      also have "\<dots> = cbind (v d (w_ctx w1)) (\<lambda>c. outcome (cbind (visit_forest v (left_state c) (c_symstk c) ts c) (visit_frames v [] us1)))"
      proof (intro arg_cong2 [where f = cbind] refl ext)
        fix c
        obtain fs' where fs': "walk_in db (save_rstate (w3\<lparr> w_ctx := c \<rparr>)) fs'" "frames_size fs' = forest_size ts"
          "\<And>v us. visit_frames v fs' us c = cbind (visit_forest v (left_state c) (c_symstk c) ts c) (visit_frames v [] us)"
          using after_unit [OF w2(3-7) u(3,4), of c] unfolding w3_def by auto
        have "die_loop n k db (w3\<lparr> w_ctx := c \<rparr>) = outcome (visit_frames v fs' us1 c)"
          unfolding v_def using Suc.IH [OF fs'(1), of us1] w2(8) w3(2) size fs'(2) by (simp add: Nil Cons t)
        then show "die_loop n k db (w3\<lparr> w_ctx := c \<rparr>) =
            outcome (cbind (visit_forest v (left_state c) (c_symstk c) ts c) (visit_frames v [] us1))"
          by (simp only: fs'(3))
      qed
      also have "\<dots> = outcome (visit_frames v [] us (w_ctx w1))"
      proof -
        have "(w_ctx w1)\<lparr> c_rstate := rstate_0, c_symstk := [] \<rparr> = w_ctx w1"
          using start by (cases "w_ctx w1") simp
        then show ?thesis
          by (simp add: Cons t outcome_cbind cbind_assoc)
      qed
      finally show ?thesis
        using spec by (simp add: Nil v_def)
    qed
  next
    case (Cons f fs2)
    obtain rs ss t0 where f0: "f = (rs, ss, t0)"
      by (cases f)
    have "t0 \<noteq> []"
      using Cons by (auto simp: fs1_def no_trees_def f0 dropWhile_eq_Cons_conv)
    then obtain d ts us' where f: "f = (rs, ss, DNode d ts # us')"
      using f0 by (cases t0; cases "hd t0") auto
    have fr: "frames_in db (w_stack w1) (c_symstk (w_ctx w1)) ((rs, ss, DNode d ts # us') # fs2)" "w_height w1 = Suc (length fs2)"
      "length (w_stack w1) = 16" "w_cu_by_cu w1" "w_pushp w1 = None"
      using w1(1) by (simp_all add: walk_in_def Cons f)
    have "fs2 \<noteq> []"
      using fr(1) by auto
    define w2 where "w2 = resume rs w1"
    have w2: "take_last db w1 = Inr (Some d, w2)" "w_ctx w2 = (w_ctx w1)\<lparr> c_rstate := rs, c_symstk := ss \<rparr>"
      using fr \<open>fs2 \<noteq> []\<close> by (auto simp: take_last_def w2_def resume_def popto_def first_die_def prefix_def split: prod.split)
    have u: "dw_siblingof db d = as_dres (first_die us')" "dw_child db d = as_dres (first_die ts)"
      "length (w_stack w2) = 16" "w_height w2 + forest_height ts \<le> 16"
      using fr by (simp_all add: w2_def resume_def nat_add_max_right)
    define w3 where "w3 = (let w = set_die (w_height w2 - 1) (first_die us') w2 in
      if ts = [] then w else set_die (w_height w) (first_die ts) (w\<lparr> w_pushp := Some (w_height w), w_height := w_height w + 1 \<rparr>))"
    have "dwarf_walk_next 1 None db w = Inr (Some d, w3)"
      using next_in_tree [OF u(1) w2(1) [unfolded w1_def] u(2-4)] by (simp add: w3_def)
    moreover have w3: "w_ctx w3 = w_ctx w2" "w_cu w3 = w_cu w"
      using w1(2) by (simp_all add: w3_def Let_def set_die_def w2_def resume_def)
    ultimately have "die_loop n (Suc k) db w = cbind (v d (w_ctx w2)) (\<lambda>c. die_loop n k db (w3\<lparr> w_ctx := c \<rparr>))"
      unfolding v_def by (simp only: die_loop_step)
    also have "\<dots> = cbind (v d (w_ctx w2)) (\<lambda>c. outcome (cbind (visit_forest v (left_state c) (c_symstk c) ts c) (visit_frames v ((rs, ss, us') # fs2) us)))"
    proof -
      have "die_loop n k db (w3\<lparr> w_ctx := c \<rparr>) =
          outcome (cbind (visit_forest v (left_state c) (c_symstk c) ts c) (visit_frames v ((rs, ss, us') # fs2) us))"
        if "v d (w_ctx w2) = Inr c" for c
      proof -
        have "prefix ss (c_symstk c)"
          using adds_print_die_data [of "w_ctx w2" n db d] that w2(2) by (simp add: v_def ret_only_def adds_def)
        moreover have "w_height w2 = length ((rs, ss, DNode d ts # us') # fs2)" "w_cu_by_cu w2" "w_pushp w2 = None" "length fs2 < 16"
          "frames_in db (w_stack w2) ss ((rs, ss, DNode d ts # us') # fs2)"
          using fr \<open>fs2 \<noteq> []\<close> by (simp_all add: w2_def resume_def nat_add_max_right)
        ultimately obtain fs' where fs': "walk_in db (save_rstate (w3\<lparr> w_ctx := c \<rparr>)) fs'"
          "frames_size fs' = forest_size ts + frames_size ((rs, ss, us') # fs2)"
          "\<And>v us. visit_frames v fs' us c = cbind (visit_forest v (left_state c) (c_symstk c) ts c) (visit_frames v ((rs, ss, us') # fs2) us)"
          using after_visit [of w2 rs ss d ts us' fs2 db c] u(3) \<open>fs2 \<noteq> []\<close> unfolding w3_def by auto
        have "die_loop n k db (w3\<lparr> w_ctx := c \<rparr>) = outcome (visit_frames v fs' us c)"
          unfolding v_def using Suc.IH [OF fs'(1), of us] Suc.prems(2) w3(2) size fs'(2) by (simp add: Cons f)
        then show ?thesis
          by (simp only: fs'(3))
      qed
      then show ?thesis
        by (cases "v d (w_ctx w2)") simp_all
    qed
    also have "\<dots> = outcome (visit_frames v fs1 us (w_ctx w1))"
      by (simp add: Cons f w2(2) outcome_cbind cbind_assoc)
    finally show ?thesis
      using spec by (simp add: v_def)
  qed
qed simp

section \<open>Property\<close>

text \<open>
  C34. The walk is the traversal of the tree. For debugging information whose compilation units are
  trees of at most 16 levels, the loop over a stack prints what the recursive traversal prints, in
  which each entry is visited with the state and the strings that the visit of its parent left,
  whatever was visited in between; it visits each entry once, parents first, and ends.
\<close>

theorem walk_is_traversal:
  assumes "units_in db us" "forest_size us < k"
  shows "print_symbols n k db p out =
    outcome (visit_forest (print_die_data n db) rstate_0 [] us (wctx_0 p out))"
proof -
  have "walk_in db (save_rstate (walk_0 p out)) []"
    by (simp add: walk_in_def walk_0_def save_rstate_def wctx_0_def)
  moreover have "next_unit us db (w_cu (walk_0 p out))"
    using assms(1) by (simp add: next_unit_def units_in_def walk_0_def)
  ultimately have "print_symbols n k db p out = outcome (visit_frames (print_die_data n db) [] us (w_ctx (walk_0 p out)))"
    unfolding print_symbols_def using assms(2) by (intro die_loop_frames) simp_all
  then show ?thesis
    by (simp add: walk_0_def)
qed

text \<open>The entries of the sample.\<close>

definition sample_tree :: dtree where
  "sample_tree =
     DNode 1 [DNode 2 [], DNode 3 [DNode 4 [], DNode 7 []], DNode 5 [], DNode 6 [DNode 9 [], DNode 10 []], DNode 8 []]"

theorem walk_is_traversal_witness:
  "units_in sample_dwarf [sample_tree] \<and> print_symbols 12 11 sample_dwarf (data_at 0x1016) [] =
    outcome (visit_forest (print_die_data 12 sample_dwarf) rstate_0 [] [sample_tree] (wctx_0 (data_at 0x1016) []))"
proof -
  have "units_in sample_dwarf [sample_tree]"
    by (simp add: units_in_def sample_tree_def sample_dwarf_def lookup_def first_die_def as_dres_def)
  then show ?thesis
    using walk_is_traversal [of sample_dwarf "[sample_tree]" 11] by (simp add: sample_tree_def)
qed

section \<open>Lines\<close>

text \<open>The row \<open>l\<close> that is found among \<open>ls\<close>: the first at the address, else the last before it.\<close>

definition row_found :: "u64 \<Rightarrow> dwarf_line list \<Rightarrow> dwarf_line \<Rightarrow> bool" where
  "row_found insn ls l \<longleftrightarrow> (\<exists>xs ys. ls = xs @ l # ys \<and>
     (if li_addr l = insn then \<forall>m\<in>set xs. li_addr m < insn
      else li_addr l < insn \<and> ys \<noteq> [] \<and> (\<forall>m\<in>set ys. insn < li_addr m)))"

lemma row_found_Cons: "li_addr k < insn \<Longrightarrow> row_found insn ls l \<Longrightarrow> row_found insn (k # ls) l"
proof -
  assume k: "li_addr k < insn" and "row_found insn ls l"
  then obtain xs ys where "ls = xs @ l # ys" "if li_addr l = insn then \<forall>m\<in>set xs. li_addr m < insn
      else li_addr l < insn \<and> ys \<noteq> [] \<and> (\<forall>m\<in>set ys. insn < li_addr m)"
    by (auto simp: row_found_def)
  then show ?thesis
    using k unfolding row_found_def by (intro exI [of _ ys, THEN exI [of _ "k # xs"]]) auto
qed

lemma row_found_hd: "li_addr l = insn \<Longrightarrow> row_found insn (l # ls) l"
  unfolding row_found_def by (intro exI [of _ ls, THEN exI [of _ "[]"]]) simp

lemma check_line_loop_found:
  assumes "sorted (map li_addr (prev # ls))" "li_addr prev < insn" "check_line_loop insn prev (map Some ls) = Inr r"
  shows "case r of Some l \<Rightarrow> row_found insn (prev # ls) l | None \<Rightarrow> \<forall>m\<in>set (prev # ls). li_addr m < insn"
  using assms
proof (induction ls arbitrary: prev)
  case (Cons l ls)
  consider "li_addr l = insn" | "insn < li_addr l" | "li_addr l < insn"
    by fastforce
  then show ?case
  proof cases
    case 1
    then show ?thesis
      using Cons.prems row_found_Cons [OF Cons.prems(2) row_found_hd [OF 1]] by auto
  next
    case 2
    then have "\<forall>m\<in>set (l # ls). insn < li_addr m"
      using Cons.prems(1) by auto
    then have "row_found insn (prev # l # ls) prev"
      using Cons.prems(2) unfolding row_found_def by (intro exI [of _ "l # ls", THEN exI [of _ "[]"]]) auto
    moreover have "li_addr l \<noteq> insn"
      using 2 by auto
    ultimately show ?thesis
      using Cons.prems(2,3) 2 by auto
  next
    case 3
    then have "check_line_loop insn l (map Some ls) = Inr r"
      using Cons.prems(3) by (auto split: if_splits)
    then show ?thesis
      using Cons.IH [of l] Cons.prems(1,2) 3 row_found_Cons [OF Cons.prems(2)] by (auto split: option.splits)
  qed
qed auto

lemma check_line_loop_returns: "\<exists>r. check_line_loop insn prev (map Some ls) = Inr r"
  by (induction ls arbitrary: prev) auto

lemma check_line_loop_before:
  "insn < li_addr prev \<Longrightarrow> \<forall>m\<in>set ls. insn < li_addr m \<Longrightarrow> check_line_loop insn prev (map Some ls) = Inr None"
  by (induction ls arbitrary: prev) auto

lemma check_line_rows:
  assumes "have_insnptr (c_par c)" "dw_srclines db d = DW_OK (map Some ls)" "sorted (map li_addr ls)"
  shows "\<exists>r. check_line db d c = Inr r \<and> (case r of
      Some l \<Rightarrow> row_found (insnptr (c_par c)) ls l
    | None \<Rightarrow> (\<forall>m\<in>set ls. insnptr (c_par c) < li_addr m) \<or> (\<forall>m\<in>set ls. li_addr m < insnptr (c_par c)))"
proof (cases ls)
  case Nil
  then show ?thesis
    using assms by (simp add: check_line_def)
next
  case (Cons l ks)
  consider "li_addr l = insnptr (c_par c)" | "insnptr (c_par c) < li_addr l" "li_addr l \<noteq> insnptr (c_par c)"
    | "li_addr l < insnptr (c_par c)" "li_addr l \<noteq> insnptr (c_par c)"
    by fastforce
  then show ?thesis
  proof cases
    case 1
    then show ?thesis
      using assms Cons row_found_hd [of l "insnptr (c_par c)" ks] by (auto simp: check_line_def)
  next
    case 2
    then have before: "\<forall>m\<in>set ls. insnptr (c_par c) < li_addr m"
      using assms(3) by (auto simp: Cons)
    have "check_line db d c = Inr None"
      using before assms Cons 2(2) check_line_loop_before [of "insnptr (c_par c)" l ks] by (auto simp: check_line_def)
    then show ?thesis
      using before by simp
  next
    case 3
    then obtain r where r: "check_line db d c = Inr r" "check_line_loop (insnptr (c_par c)) l (map Some ks) = Inr r"
      using assms Cons check_line_loop_returns [of "insnptr (c_par c)" l ks] by (auto simp: check_line_def)
    then show ?thesis
      using check_line_loop_found [where prev = l and ls = ks and insn = "insnptr (c_par c)" and r = r] assms(3) 3 Cons by (auto split: option.splits)
  qed
qed

text \<open>
  C35. The line of an instruction. Where the rows of the line table are in ascending order of their
  addresses, the row that is found is the first one at the address of the instruction; where there
  is none, it is the last row before the instruction, and further rows follow. No row is found just
  when the instruction is before the first row or after the last.
\<close>

theorem line_of_instruction:
  assumes "have_insnptr (c_par c)" "dw_srclines db d = DW_OK (map Some ls)" "sorted (map li_addr ls)"
  shows "\<exists>r. check_line db d c = Inr r \<and> (case r of
      Some l \<Rightarrow> \<exists>xs ys. ls = xs @ l # ys \<and>
        (if li_addr l = insnptr (c_par c) then \<forall>m\<in>set xs. li_addr m < insnptr (c_par c)
         else li_addr l < insnptr (c_par c) \<and> ys \<noteq> [] \<and> (\<forall>m\<in>set ys. insnptr (c_par c) < li_addr m))
    | None \<Rightarrow> (\<forall>m\<in>set ls. insnptr (c_par c) < li_addr m) \<or> (\<forall>m\<in>set ls. li_addr m < insnptr (c_par c)))"
  using check_line_rows [OF assms] unfolding row_found_def .

definition three_lines :: dwarf where
  "three_lines = sample_dwarf\<lparr> dw_srclines := (\<lambda>d. DW_OK (map Some
     [\<lparr> li_addr = 0x400000, li_lineno = 7, li_file = ''f.c'' \<rparr>, \<lparr> li_addr = 0x400004, li_lineno = 8, li_file = ''f.c'' \<rparr>,
      \<lparr> li_addr = 0x400010, li_lineno = 9, li_file = ''f.c'' \<rparr>])) \<rparr>"

definition insn_ctx :: wctx where
  "insn_ctx = wctx_0 ((data_at 0)\<lparr> have_insnptr := True, insnptr := 0x400008 \<rparr>) []"

lemma three_lines_found:
  "check_line three_lines 1 insn_ctx = Inr (Some \<lparr> li_addr = 0x400004, li_lineno = 8, li_file = ''f.c'' \<rparr>)"
  by (simp add: check_line_def three_lines_def insn_ctx_def wctx_0_def data_at_def)

theorem line_of_instruction_witness:
  "\<exists>l xs ys. check_line three_lines 1 insn_ctx = Inr (Some l) \<and> li_lineno l = 8 \<and>
    dw_srclines three_lines 1 = DW_OK (map Some (xs @ l # ys)) \<and> li_addr l < 0x400008 \<and> (\<forall>m\<in>set ys. 0x400008 < li_addr m)"
proof -
  let ?ls = "[\<lparr> li_addr = 0x400000, li_lineno = 7, li_file = ''f.c'' \<rparr>, \<lparr> li_addr = 0x400004, li_lineno = 8, li_file = ''f.c'' \<rparr>,
      \<lparr> li_addr = 0x400010, li_lineno = 9, li_file = ''f.c'' \<rparr>]"
  have ls: "dw_srclines three_lines 1 = DW_OK (map Some ?ls)"
    by (simp add: three_lines_def)
  have ins: "have_insnptr (c_par insn_ctx)" "insnptr (c_par insn_ctx) = 0x400008"
    by (simp_all add: insn_ctx_def wctx_0_def data_at_def)
  let ?l = "\<lparr> li_addr = 0x400004, li_lineno = 8, li_file = ''f.c'' \<rparr>"
  have "\<exists>xs ys. ?ls = xs @ ?l # ys \<and> (\<forall>m\<in>set ys. 0x400008 < li_addr m)"
    using line_of_instruction [OF ins(1) ls] three_lines_found unfolding ins(2) by auto
  then obtain xs ys where q: "?ls = xs @ ?l # ys" "\<forall>m\<in>set ys. 0x400008 < li_addr m"
    by blast
  have "li_lineno ?l = 8" "li_addr ?l < 0x400008"
    by simp_all
  then show ?thesis
    using three_lines_found ls [unfolded q(1)] q(2) by blast
qed

end
