(* ===== verification/Spec2Isabelle.thy ===== *)
theory Spec2Isabelle
  imports Prelude Tracefmt Deltop Buf Format Io Circular Ring Ring_Laws Access Rmw Records Access_Laws
    Reader Reader_Print Reader_Stream Reader_Roundtrip Trace_Roundtrip Reader_Laws
    Memory Str Template Serialize Serialize_Laws Specific Sigset Intern Intern_Laws
    Threads Threads_Laws Sigmask Sigmask_Laws Handler Handler_Laws Intr Intr_Laws
    Tiaic Tiaic_Laws Wakeup Wakeup_Laws Supervise Supervise_Laws
    Strstk Rvsyms Rvsyms_Walk Rvsyms_Type_Laws Rvsyms_Walk_Laws
begin

text \<open>
The trace runtime and the trace reader of RV-Predict/C.

An instrumented program calls the runtime (src/llvm/ngrt) at each load, store, atomic operation,
function entry and exit, and lock operation. Each call builds a small buffer of 32-bit words and
puts it on the ring of the running thread or signal handler; a serializer thread writes the rings
to a trace file. The reader (src/llvm/librvread) parses the file and prints it, or writes it again
in binary form.

Theories, in the order of the data flow.

  Prelude: generic lemmas on words and lists, the bit and rounding macros of nbcompat.h.
  Tracefmt: operation codes, file header and record layouts (tracefmt.h).
  Deltop: operation codes with small jumps (deltops.c, and their decoding in reader.c).
  Buf: event buffers, program counters and generations (buf.h, trace.c).
  Format: the C printf formats that the reader uses.
  Io: vectored input and output over any kernel (io.c).
  Circular: positions of a circular buffer, shared by both kinds of rings.
  Ring: event rings and interruption rings as their producer runs them (ring.h, ring.c).
  Ring_Laws: the rings refine bounded queues.
  Access, Rmw: the calls of the instrumented program (access.c, access.h, func.c, vptr.c, lock.c,
  rmw.c). Records, Access_Laws: the records that each of them logs.
  Reader, Reader_Print: the trace reader (reader.c, reader.h).
  Reader_Stream: the reader's buffer management gives what a reader of the whole file gives.
  Reader_Roundtrip, Trace_Roundtrip: what the runtime writes is what the reader reports.
  Reader_Laws: bounds, memory safety, termination and errors of the reader.
  Memory, Str: the memory functions of the C library that the runtime replaces (str.c, istr.c).
  Template: the name, the opening and the start of the trace file (trace.c, supervise.c).
  Serialize: the serializer of the rings (serialize.c); Serialize_Laws: what it writes.
  Specific: thread-specific data with the lock that is held while destructors run (specific.c).
  Sigset: signal sets and signal masks (rvpsignal.c, sigutil.c).
  Intern: the numbering of signal sets as a step relation of many threads (rvpsignal.c);
  Intern_Laws: its invariant, and where it fails.
  Threads: the list of threads, creation, start, exit, join (thread.c); Threads_Laws: their laws.
  Sigmask: changes of the signal mask (rvpsignal.c) and the simulation of signals
  (sigsim_simple.c); Sigmask_Laws: what they log and track.
  Handler: the rings and the wrapper of signal handlers, sigaction and signal (rvpsignal.c);
  Handler_Laws: what a handler logs, what becomes of a change of mask that it interrupts, and how the
  change that this one has interrupted in turn is lost.
  Intr: simulated interrupts, and the controllers basic, 78k0, none and the default (intr.c,
  personality); Intr_Laws: which interrupts are raised, and that enabling lets them run.
  Tiaic: the TI interrupt controller with its registers (personality/tiaic); Tiaic_Laws: after a
  write, just the interrupts that the registers, as they are then, do not let be delivered are
  blocked; the handlers that run on the way may themselves have written the registers.
  Wakeup: who wakes the serializer, and its end (thread.c, relay.c); Wakeup_Laws: no wake-up is
  lost in any order of the steps, by an invariant and a measure of the work that is left.
  Supervise: the processes of program, supervisor and analyzer (supervise.c, online_analysis.c,
  offline_analysis.c, thread.c); Supervise_Laws: how they meet signals, how the supervisor ends, and
  what the cleaning removes.
  Strstk: the stack of strings of the symbolizer (rvsyms/strstk.c).
  Rvsyms, Rvsyms_Walk: the symbolizer over any DWARF library (rvsyms/rvsyms.c). Rvsyms_Type_Laws: the
  path that is printed designates the address. Rvsyms_Walk_Laws: the walk is the recursive traversal
  of the tree of entries, and the line that is found.

Errors of the C code, assertion failures and calls of err and errx are values of result types, and
so is undefined behaviour: an overflow of an int of the reader's call stacks or of the stack of strings,
an index out of bounds, a read of what was never set. Waiting for ever is a value too.

Fuel and bounds. Loops that wait for another party take fuel; a property about a wait states which
fuel is enough, and those of the reader get as much as the size of the input determines. Numbers of records, frames and bytes have the width of the source. So the round trip holds
for programs with at most 2^30 calls nested, beyond which the reader's doubling overflows, and the
laws of vectored output hold for a kernel that, as POSIX has it, refuses a vector of more bytes than
a ssize_t counts.

Interleavings. Where threads share state, the state machine has a step for each atomic operation
of the source: interning (Intern), where the numbers keep their meaning in all schedules in which no
thread takes a memo with an outdated successor, and a schedule in which one does is given; the call
and the lookup of a join (Threads), between which a pthread_t may come back; the tracking of a
signal mask by a thread and the handlers that interrupt it (Sigmask, Handler); the wake-ups (Wakeup).
The rings have one producer, and the consumer moves between any two of its steps.

Assumed of code outside src: a kernel that transfers or fails as documented, memory functions that do
what the C standard says, a DWARF library that answers with the entries of a tree. Each is an
argument of the definitions, with a named predicate where a property needs one.

Not modelled. The child's side of fork (fork.c) and the start-up of the runtime (thread.c, rvpsignal.c)
are calls of initialisers whose results the other parts start from. The option parsing of rvpdump
and rvsyms, debug output, and the freeing of memory have no effect on what is stated. The C++ pass
(src/llvm/pass), the Java analyzer (src/rv-predict) and the OCaml error messages (src/errors) are in
other languages. src/external, src/nbtools and src/llvm/runtime are third-party code.
\<close>

end
